(* ===== verification/Prelude.thy ===== *)
theory Prelude
  imports Main "HOL-Library.Multiset"
begin

text \<open>
  What the components share: time, Go maps and their iteration order, the newest-first
  orderings of the stores, and the three interfaces several components provide
  (retention, single-use grants, plan/apply convergence).

  \<^item> \<open>time\<close> is an instant or a duration in nanoseconds, as \<open>time.Time\<close> (UTC) and
    \<open>time.Duration\<close> count it. It is an unbounded integer here; where a computation of the
    source can leave the 64 bits of a \<open>time.Duration\<close>, the component writes the wrap-around out.
  \<^item> A Go map is a partial function. \<open>range\<close> over it visits the keys in an unspecified order,
    which an operation that depends on it takes as an argument: a list that is \<open>map_order\<close> of the map.
  \<^item> A write to disk may fail. Operations that write take the outcome as a \<open>bool\<close> argument
    (True: the temporary file was written and renamed into place).
\<close>

type_synonym time = int

abbreviation second :: time where "second \<equiv> 1000000000"
abbreviation minute :: time where "minute \<equiv> 60 * second"
abbreviation hour :: time where "hour \<equiv> 60 * minute"

named_theorems frame \<comment> \<open>what an operation leaves alone\<close>
named_theorems inv_intros \<comment> \<open>an operation keeps its component's invariant\<close>

subsection \<open>Go maps\<close>

definition map_order :: "('k \<rightharpoonup> 'v) \<Rightarrow> 'k list \<Rightarrow> bool" where
  "map_order m ks \<longleftrightarrow> distinct ks \<and> set ks = dom m"

definition map_values :: "('k \<rightharpoonup> 'v) \<Rightarrow> 'k list \<Rightarrow> ('k \<times> 'v) list" where
  "map_values m ks = List.map_filter (\<lambda>k. map_option (Pair k) (m k)) ks"

definition delete_keys :: "('k \<rightharpoonup> 'v) \<Rightarrow> 'k list \<Rightarrow> ('k \<rightharpoonup> 'v)" where
  "delete_keys m ks = (\<lambda>k. if k \<in> set ks then None else m k)"

lemma map_order_dom [simp]: "map_order m ks \<Longrightarrow> k \<in> set ks \<longleftrightarrow> k \<in> dom m"
  by (simp add: map_order_def)

lemma map_order_distinct: "map_order m ks \<Longrightarrow> distinct ks"
  by (simp add: map_order_def)

lemma map_values_Nil [simp]: "map_values m [] = []"
  by (simp add: map_values_def List.map_filter_simps)

lemma map_values_Cons [simp]:
  "map_values m (k # ks) = (case m k of None \<Rightarrow> map_values m ks | Some v \<Rightarrow> (k, v) # map_values m ks)"
  by (simp add: map_values_def List.map_filter_simps split: option.splits)

lemma set_map_values: "set (map_values m ks) = {(k, v). k \<in> set ks \<and> m k = Some v}"
  by (induction ks) (auto split: option.splits)

lemma map_values_in [simp]: "(k, v) \<in> set (map_values m ks) \<longleftrightarrow> k \<in> set ks \<and> m k = Some v"
  by (simp add: set_map_values)

lemma fst_map_values: "map fst (map_values m ks) = filter (\<lambda>k. k \<in> dom m) ks"
  by (induction ks) (auto split: option.splits)

lemma map_values_fst_order: "map_order m ks \<Longrightarrow> map fst (map_values m ks) = ks"
  by (simp add: fst_map_values map_order_def)

lemma length_map_values: "map_order m ks \<Longrightarrow> length (map_values m ks) = length ks"
  by (metis length_map map_values_fst_order)

lemma distinct_map_values: "map_order m ks \<Longrightarrow> distinct (map fst (map_values m ks))"
  by (simp add: map_values_fst_order map_order_distinct)

lemma card_dom_order: "map_order m ks \<Longrightarrow> card (dom m) = length ks"
  by (metis distinct_card map_order_def)

lemma finite_dom_order: "map_order m ks \<Longrightarrow> finite (dom m)"
  by (metis List.finite_set map_order_def)

lemma delete_keys_None [simp]: "k \<in> set ks \<Longrightarrow> delete_keys m ks k = None"
  by (simp add: delete_keys_def)

lemma delete_keys_other [simp]: "k \<notin> set ks \<Longrightarrow> delete_keys m ks k = m k"
  by (simp add: delete_keys_def)

lemma delete_keys_Some: "delete_keys m ks k = Some v \<longleftrightarrow> k \<notin> set ks \<and> m k = Some v"
  by (simp add: delete_keys_def)

lemma delete_keys_Nil [simp]: "delete_keys m [] = m"
  by (simp add: delete_keys_def)

lemma dom_delete_keys: "dom (delete_keys m ks) = dom m - set ks"
  by (auto simp: delete_keys_def split: if_splits)

lemma map_order_upd: "map_order m ks \<Longrightarrow> k \<notin> dom m \<Longrightarrow> map_order (m(k \<mapsto> v)) (k # ks)"
  by (auto simp: map_order_def)

lemma map_order_upd_same: "map_order m ks \<Longrightarrow> k \<in> dom m \<Longrightarrow> map_order (m(k \<mapsto> v)) ks"
  by (auto simp: map_order_def)

subsection \<open>Newest first\<close>

text \<open>
  \<open>sort.Slice(all, func(a, b) \{ return all[a].T.After(all[b].T) \})\<close>. \<open>sort.Slice\<close> is not stable,
  but its input here is the values of a map in Go's unspecified order, so sorting stably from an
  arbitrary order gives exactly the results it can give.
\<close>

definition newest_first :: "('a \<Rightarrow> time) \<Rightarrow> 'a list \<Rightarrow> 'a list" where
  "newest_first f xs = sort_key (\<lambda>x. - f x) xs"

lemma set_newest_first [simp]: "set (newest_first f xs) = set xs"
  by (simp add: newest_first_def)

lemma length_newest_first [simp]: "length (newest_first f xs) = length xs"
  by (simp add: newest_first_def)

lemma distinct_newest_first [simp]: "distinct (newest_first f xs) = distinct xs"
  by (simp add: newest_first_def)

lemma distinct_map_newest_first: "distinct (map g (newest_first f xs)) = distinct (map g xs)"
proof -
  have "mset (map g (newest_first f xs)) = mset (map g xs)"
    by (simp add: newest_first_def)
  then show ?thesis by (rule mset_eq_imp_distinct_iff)
qed

lemma newest_first_Nil [simp]: "newest_first f [] = []"
  by (simp add: newest_first_def)

lemma newest_first_sorted: "sorted_wrt (\<lambda>x y. f y \<le> f x) (newest_first f xs)"
proof -
  have "sorted (map (\<lambda>x. - f x) (newest_first f xs))"
    by (simp add: newest_first_def)
  then show ?thesis by (simp add: sorted_map)
qed

lemma newest_first_take_drop:
  assumes "x \<in> set (drop n (newest_first f xs))" "y \<in> set (take n (newest_first f xs))"
  shows "f x \<le> f y"
proof -
  have "sorted_wrt (\<lambda>x y. f y \<le> f x) (take n (newest_first f xs) @ drop n (newest_first f xs))"
    using newest_first_sorted[of f xs] by simp
  then show ?thesis
    using assms by (metis sorted_wrt_append)
qed

lemma newest_first_max:
  assumes "x \<in> set xs" "\<And>y. y \<in> set xs \<Longrightarrow> y \<noteq> x \<Longrightarrow> f y < f x" "0 < n"
  shows "x \<in> set (take n (newest_first f xs))"
proof (rule ccontr)
  assume not: "x \<notin> set (take n (newest_first f xs))"
  have mem: "x \<in> set (newest_first f xs)" using assms(1) by simp
  then have "x \<in> set (drop n (newest_first f xs))"
    using not by (metis Un_iff append_take_drop_id set_append)
  moreover have ne: "newest_first f xs \<noteq> []" using mem by (metis empty_iff list.set(1))
  then have hd: "hd (newest_first f xs) \<in> set (take n (newest_first f xs))"
    using assms(3) by (cases "newest_first f xs"; cases n) auto
  ultimately have le: "f x \<le> f (hd (newest_first f xs))"
    by (rule newest_first_take_drop)
  have "hd (newest_first f xs) \<in> set xs"
    using hd by (metis in_set_takeD set_newest_first)
  moreover have "hd (newest_first f xs) \<noteq> x" using hd not by auto
  ultimately have "f (hd (newest_first f xs)) < f x" by (rule assms(2))
  with le show False by simp
qed

subsection \<open>What one operation gets from outside\<close>

text \<open>
  An operation of a store runs under the store's mutex, so it is one atomic step. Its environment is
  the clock reading it works with, whether writing its file succeeded, the order a \<open>range\<close> over the
  store's map visits the keys in, and which files \<open>os.Remove\<close> did remove.
\<close>

record env =
  e_now :: time
  e_write :: bool
  e_order :: "string list"
  e_removed :: "string list"

subsection \<open>Looking a slice through\<close>

text \<open>The index of the first element that fits (the code's -1 is None), and cutting an element out of a slice
  with \<open>append(s[:i], s[i+1:]...)\<close>.\<close>

fun index_of :: "('a \<Rightarrow> bool) \<Rightarrow> 'a list \<Rightarrow> nat option" where
  "index_of p [] = None"
| "index_of p (x # xs) = (if p x then Some 0 else map_option Suc (index_of p xs))"

definition remove_nth :: "nat \<Rightarrow> 'a list \<Rightarrow> 'a list" where
  "remove_nth i xs = take i xs @ drop (Suc i) xs"

lemma index_of_None: "index_of p xs = None \<longleftrightarrow> (\<forall>x \<in> set xs. \<not> p x)"
  by (induction xs) auto

lemma index_of_Some: "index_of p xs = Some i \<Longrightarrow> i < length xs \<and> p (xs ! i)"
  by (induction xs arbitrary: i) (auto split: if_splits)

lemma index_of_first: "index_of p xs = Some i \<Longrightarrow> j < i \<Longrightarrow> \<not> p (xs ! j)"
  by (induction xs arbitrary: i j) (auto split: if_splits simp: nth_Cons split: nat.splits)

lemma index_of_unique:
  assumes "i < length xs" "p (xs ! i)" "\<And>j. j < length xs \<Longrightarrow> p (xs ! j) \<Longrightarrow> j = i"
  shows "index_of p xs = Some i"
proof (cases "index_of p xs")
  case None
  then show ?thesis using assms(1,2) by (auto simp: index_of_None)
next
  case (Some j)
  then show ?thesis using index_of_Some[OF Some] assms(3)[of j] by simp
qed

lemma set_remove_nth: "set (remove_nth i xs) \<subseteq> set xs"
  by (auto simp: remove_nth_def dest: in_set_takeD in_set_dropD)

lemma length_remove_nth: "length (remove_nth i xs) \<le> length xs"
  by (auto simp: remove_nth_def)

lemma distinct_remove_nth:
  assumes "distinct (map f xs)" "i < length xs"
  shows "distinct (map f (remove_nth i xs)) \<and> f (xs ! i) \<notin> f ` set (remove_nth i xs)"
proof -
  have "map f xs = map f (take i xs) @ f (xs ! i) # map f (drop (Suc i) xs)"
    using assms(2) by (metis id_take_nth_drop list.simps(9) map_append)
  then have "distinct (map f (take i xs) @ f (xs ! i) # map f (drop (Suc i) xs))" using assms(1) by simp
  then show ?thesis by (auto simp: remove_nth_def)
qed

text \<open>A write's outcome and the stamp of the file it makes.\<close>

type_synonym write_result = "bool \<times> nat"


subsection \<open>Runs of a store\<close>

fun run_ops :: "('op \<Rightarrow> 's \<Rightarrow> 's) \<Rightarrow> 'op list \<Rightarrow> 's \<Rightarrow> 's" where
  "run_ops step [] s = s"
| "run_ops step (op # ops) s = run_ops step ops (step op s)"

fun count_ops :: "('op \<Rightarrow> 's \<Rightarrow> 's) \<Rightarrow> ('op \<Rightarrow> 's \<Rightarrow> bool) \<Rightarrow> 'op list \<Rightarrow> 's \<Rightarrow> nat" where
  "count_ops step p [] s = 0"
| "count_ops step p (op # ops) s = (if p op s then 1 else 0) + count_ops step p ops (step op s)"

lemma run_ops_append: "run_ops step (a @ b) s = run_ops step b (run_ops step a s)"
  by (induction a arbitrary: s) auto

lemma run_ops_invariant:
  assumes "\<And>op s. P s \<Longrightarrow> op \<in> set ops \<Longrightarrow> P (step op s)" "P s"
  shows "P (run_ops step ops s)"
  using assms by (induction ops arbitrary: s) auto

subsection \<open>Interface: a store that forgets its oldest records\<close>

text \<open>
  The daemon's stores keep a bounded history on disk. \<open>prune\<close> is what such a store runs after every
  insertion; a client of the store relies on the laws, never on how the victims are chosen.
\<close>

locale retention =
  fixes wf :: "('k \<rightharpoonup> 'v) \<Rightarrow> bool"
    and stamp :: "'v \<Rightarrow> time"
    and protected :: "'v \<Rightarrow> bool"
    and limit :: nat
    and prune :: "'k list \<Rightarrow> ('k \<rightharpoonup> 'v) \<Rightarrow> ('k \<rightharpoonup> 'v)"
  assumes limit_pos: "0 < limit"
    and prune_sub: "prune ks m k = Some v \<Longrightarrow> m k = Some v"
    and prune_protected: "wf m \<Longrightarrow> map_order m ks \<Longrightarrow> m k = Some v \<Longrightarrow> protected v \<Longrightarrow> prune ks m k = Some v"
    and prune_dropped: "wf m \<Longrightarrow> map_order m ks \<Longrightarrow> m k = Some v \<Longrightarrow> prune ks m k = None \<Longrightarrow>
        \<exists>newer. distinct newer \<and> length newer = limit \<and> k \<notin> set newer
          \<and> (\<forall>k' \<in> set newer. \<exists>v'. m k' = Some v' \<and> prune ks m k' = Some v' \<and> stamp v \<le> stamp v')"
    and prune_bound: "wf m \<Longrightarrow> map_order m ks \<Longrightarrow>
        card {k. \<exists>v. prune ks m k = Some v \<and> \<not> protected v} \<le> limit"
begin

lemma prune_dom: "dom (prune ks m) \<subseteq> dom m"
  using prune_sub by fastforce

text \<open>The record just made survives: a strictly newest record is never dropped.\<close>

lemma newest_survives:
  assumes "wf m" "map_order m ks" "m k = Some v"
    and "\<And>k' v'. m k' = Some v' \<Longrightarrow> k' \<noteq> k \<Longrightarrow> stamp v' < stamp v"
  shows "prune ks m k = Some v"
proof (cases "prune ks m k")
  case None
  then obtain newer where n: "length newer = limit" "k \<notin> set newer"
    "\<forall>k' \<in> set newer. \<exists>v'. m k' = Some v' \<and> prune ks m k' = Some v' \<and> stamp v \<le> stamp v'"
    using prune_dropped[OF assms(1,2,3)] by blast
  then obtain k' where "k' \<in> set newer" using limit_pos by (cases newer) auto
  then show ?thesis using n assms(4) by (metis linorder_not_less)
next
  case (Some v')
  then show ?thesis using prune_sub assms(3) by fastforce
qed

text \<open>A store within its limit loses nothing.\<close>

lemma within_limit:
  assumes "wf m" "map_order m ks" "length ks \<le> limit"
  shows "prune ks m = m"
proof
  fix k
  show "prune ks m k = m k"
  proof (cases "prune ks m k")
    case None
    show ?thesis
    proof (cases "m k")
      case (Some v)
      with None obtain newer where n: "distinct newer" "length newer = limit" "k \<notin> set newer"
        "\<forall>k' \<in> set newer. \<exists>v'. m k' = Some v' \<and> prune ks m k' = Some v' \<and> stamp v \<le> stamp v'"
        using prune_dropped[OF assms(1,2)] by blast
      then have "set (k # newer) \<subseteq> dom m" using Some by auto
      then have "card (set (k # newer)) \<le> card (dom m)"
        using finite_dom_order[OF assms(2)] by (rule card_mono[rotated])
      with n assms show ?thesis by (simp add: distinct_card card_dom_order)
    qed (simp add: None)
  next
    case (Some v)
    then show ?thesis using prune_sub by fastforce
  qed
qed

end

text \<open>
  The shape all the stores' \<open>prune\<close> functions have: sort newest first, and of what lies beyond the limit
  delete what is not protected. It satisfies the contract; the component theories show that their own
  definition is this one.
\<close>

definition prune_victims :: "('v \<Rightarrow> time) \<Rightarrow> ('v \<Rightarrow> bool) \<Rightarrow> nat \<Rightarrow> ('k \<times> 'v) list \<Rightarrow> ('k \<times> 'v) list" where
  "prune_victims stamp protected limit recs =
     filter (\<lambda>(k, v). \<not> protected v) (drop limit (newest_first (\<lambda>(k, v). stamp v) recs))"

definition prune_map :: "('v \<Rightarrow> time) \<Rightarrow> ('v \<Rightarrow> bool) \<Rightarrow> nat \<Rightarrow> 'k list \<Rightarrow> ('k \<rightharpoonup> 'v) \<Rightarrow> ('k \<rightharpoonup> 'v)" where
  "prune_map stamp protected limit ks m =
     delete_keys m (map fst (prune_victims stamp protected limit (map_values m ks)))"

lemma prune_victims_in:
  "(k, v) \<in> set (prune_victims stamp protected limit recs) \<Longrightarrow> (k, v) \<in> set recs \<and> \<not> protected v"
  by (auto simp: prune_victims_def dest: in_set_dropD)

lemma prune_map_Some: "prune_map st pr n ks m k = Some v \<Longrightarrow> m k = Some v"
  by (simp add: prune_map_def delete_keys_Some)

lemma prune_map_None:
  assumes "m k = Some v" "prune_map st pr n ks m k = None"
  shows "(k, v) \<in> set (prune_victims st pr n (map_values m ks))"
proof -
  have "k \<in> fst ` set (prune_victims st pr n (map_values m ks))"
    using assms by (auto simp: prune_map_def delete_keys_def split: if_splits)
  then obtain v' where v': "(k, v') \<in> set (prune_victims st pr n (map_values m ks))" by auto
  then have "m k = Some v'" using prune_victims_in[OF v'] by simp
  then show ?thesis using v' assms(1) by simp
qed

lemma prune_map_kept:
  assumes o: "map_order m ks" and kv: "(k, v) \<in> set (take n (newest_first (\<lambda>(k, v). st v) (map_values m ks)))"
  shows "prune_map st pr n ks m k = Some v"
proof -
  let ?l = "newest_first (\<lambda>(k, v). st v) (map_values m ks)"
  have m: "m k = Some v"
    using in_set_takeD[OF kv] by simp
  have "distinct (map fst ?l)"
    by (simp add: distinct_map_newest_first distinct_map_values[OF o])
  then have "distinct (map fst (take n ?l) @ map fst (drop n ?l))"
    by (metis append_take_drop_id map_append)
  then have "k \<notin> fst ` set (drop n ?l)"
    using kv by force
  then have "k \<notin> fst ` set (prune_victims st pr n (map_values m ks))"
    by (auto simp: prune_victims_def)
  then show ?thesis using m by (simp add: prune_map_def)
qed

lemma prune_map_dropped:
  assumes o: "map_order m ks" and m: "m k = Some v" and d: "prune_map st pr n ks m k = None"
  shows "\<exists>newer. distinct newer \<and> length newer = n \<and> k \<notin> set newer
     \<and> (\<forall>k' \<in> set newer. \<exists>v'. m k' = Some v' \<and> prune_map st pr n ks m k' = Some v' \<and> st v \<le> st v')"
proof -
  let ?l = "newest_first (\<lambda>(k, v). st v) (map_values m ks)"
  let ?new = "map fst (take n ?l)"
  have drop: "(k, v) \<in> set (drop n ?l)"
    using prune_map_None[OF m d] by (auto simp: prune_victims_def)
  then have "n < length ?l" by (metis drop_all empty_iff linorder_not_le list.set(1))
  then have len: "length ?new = n" by simp
  have "distinct (map fst ?l)"
    by (simp add: distinct_map_newest_first distinct_map_values[OF o])
  then have dis: "distinct ?new" by (simp add: take_map[symmetric] del: take_map)
  have kept: "\<exists>v'. m k' = Some v' \<and> prune_map st pr n ks m k' = Some v' \<and> st v \<le> st v'"
    if k': "k' \<in> set ?new" for k'
  proof -
    obtain v' where v': "(k', v') \<in> set (take n ?l)" using k' by auto
    then have "prune_map st pr n ks m k' = Some v'" by (rule prune_map_kept[OF o])
    moreover have "st v \<le> st v'"
      using newest_first_take_drop[OF drop v'] by simp
    ultimately show ?thesis using prune_map_Some[of st pr n ks m k' v'] by simp
  qed
  then have "k \<notin> set ?new" using d by fastforce
  then show ?thesis using len dis kept by blast
qed

lemma prune_map_bound:
  assumes o: "map_order m ks"
  shows "card {k. \<exists>v. prune_map st pr n ks m k = Some v \<and> \<not> pr v} \<le> n"
proof -
  let ?l = "newest_first (\<lambda>(k, v). st v) (map_values m ks)"
  have "{k. \<exists>v. prune_map st pr n ks m k = Some v \<and> \<not> pr v} \<subseteq> set (map fst (take n ?l))"
  proof
    fix k assume "k \<in> {k. \<exists>v. prune_map st pr n ks m k = Some v \<and> \<not> pr v}"
    then obtain v where p: "prune_map st pr n ks m k = Some v" and np: "\<not> pr v" by blast
    then have "m k = Some v" by (auto dest: prune_map_Some)
    then have mem: "(k, v) \<in> set ?l" using o by (simp add: domI)
    have "(k, v) \<notin> set (drop n ?l)"
    proof
      assume "(k, v) \<in> set (drop n ?l)"
      then have "(k, v) \<in> set (prune_victims st pr n (map_values m ks))"
        using np by (simp add: prune_victims_def)
      then have "prune_map st pr n ks m k = None"
        by (force simp: prune_map_def delete_keys_def)
      with p show False by simp
    qed
    then have "(k, v) \<in> set (take n ?l)"
      using mem by (metis Un_iff append_take_drop_id set_append)
    then show "k \<in> set (map fst (take n ?l))" by force
  qed
  then have "card {k. \<exists>v. prune_map st pr n ks m k = Some v \<and> \<not> pr v} \<le> card (set (map fst (take n ?l)))"
    by (rule card_mono[rotated]) simp
  also have "\<dots> \<le> length (map fst (take n ?l))" by (rule card_length)
  finally show ?thesis by simp
qed

subsection \<open>Interface: a grant that can be used once\<close>

text \<open>
  A store hands out grants (an admin's approval of a plan, an OAuth authorization code, a refresh
  token) that a request may use up. \<open>live s g\<close>: a use of \<open>g\<close> may succeed in \<open>s\<close>; \<open>step\<close> runs an
  operation; \<open>uses op s g\<close>: run in \<open>s\<close>, \<open>op\<close> uses \<open>g\<close> up; \<open>grants op s g\<close>: it hands \<open>g\<close> out.
\<close>

lemma count_ops_or: "count_ops step (\<lambda>op s. p op s \<or> q op s) ops s \<le> count_ops step p ops s + count_ops step q ops s"
  by (induction ops arbitrary: s) (auto intro: le_SucI)

locale single_use =
  fixes live :: "'s \<Rightarrow> 'g \<Rightarrow> bool"
    and step :: "'op \<Rightarrow> 's \<Rightarrow> 's"
    and uses :: "'g \<Rightarrow> 'op \<Rightarrow> 's \<Rightarrow> bool"
    and grants :: "'g \<Rightarrow> 'op \<Rightarrow> 's \<Rightarrow> bool"
  assumes uses_live: "uses g op s \<Longrightarrow> live s g"
    and uses_spends: "uses g op s \<Longrightarrow> \<not> live (step op s) g"
    and live_granted: "live (step op s) g \<Longrightarrow> live s g \<or> grants g op s"
begin

text \<open>Over any run, a grant is used at most once per time it was handed out.\<close>

lemma uses_le_grants:
  "count_ops step (uses g) ops s + (if live (run_ops step ops s) g then 1 else 0)
     \<le> count_ops step (grants g) ops s + (if live s g then 1 else 0)"
proof (induction ops arbitrary: s)
  case (Cons op ops)
  have "(if uses g op s then 1 else 0) + (if live (step op s) g then 1 else (0::nat))
      \<le> (if grants g op s then 1 else 0) + (if live s g then 1 else 0)"
    using uses_live[of g op s] uses_spends[of g op s] live_granted[of op s g] by auto
  then show ?case using Cons.IH[of "step op s"] by simp
qed simp

lemma no_grant_no_use:
  assumes "\<not> live s g" "count_ops step (grants g) ops s = 0"
  shows "count_ops step (uses g) ops s = 0 \<and> \<not> live (run_ops step ops s) g"
  using uses_le_grants[of g ops s] assms by (auto split: if_splits)

lemma one_grant_one_use:
  assumes "\<not> live s g" "count_ops step (grants g) ops s \<le> 1"
  shows "count_ops step (uses g) ops s \<le> 1"
  using uses_le_grants[of g ops s] assms by (auto split: if_splits)

end

subsection \<open>Interface: plan and apply\<close>

text \<open>
  Every converging part of the engine (labels, snapshot schedules, limits, port forwards) has the
  same contract: \<open>drift\<close> lists what differs between the live state and the declared one, and
  \<open>converge\<close> makes the live state match. The plan prints the drift; apply runs the convergence.
\<close>

locale convergence =
  fixes drift :: "'want \<Rightarrow> 'live \<Rightarrow> 'd list"
    and converge :: "'want \<Rightarrow> 'live \<Rightarrow> 'live"
    and wanted :: "'want \<Rightarrow> bool"
  assumes no_drift_no_change: "wanted w \<Longrightarrow> drift w l = [] \<Longrightarrow> converge w l = l"
    and converged: "wanted w \<Longrightarrow> drift w (converge w l) = []"
begin

lemma converge_idempotent: "wanted w \<Longrightarrow> converge w (converge w l) = converge w l"
  by (rule no_drift_no_change) (auto intro: converged)

lemma drift_iff_change: "wanted w \<Longrightarrow> converge w l \<noteq> l \<Longrightarrow> drift w l \<noteq> []"
  using no_drift_no_change by blast

lemma apply_twice: "wanted w \<Longrightarrow> (converge w ^^ Suc n) l = converge w l"
  by (induction n) (auto simp: converge_idempotent)

end

subsection \<open>Where the items of a store come from\<close>

text \<open>Items that a step does not make up: each was there before, or this very operation brought it in.\<close>

locale provenance =
  fixes items :: "'s \<Rightarrow> 'i set"
    and step :: "'op \<Rightarrow> 's \<Rightarrow> 's"
    and brings :: "'op \<Rightarrow> 's \<Rightarrow> 'i \<Rightarrow> bool"
  assumes step_items: "x \<in> items (step op s) \<Longrightarrow> x \<in> items s \<or> brings op s x"
begin

lemma traced:
  "x \<in> items (run_ops step ops s) \<Longrightarrow> x \<notin> items s \<Longrightarrow>
     \<exists>before op after. ops = before @ op # after \<and> brings op (run_ops step before s) x"
proof (induction ops arbitrary: s)
  case (Cons op ops)
  show ?case
  proof (cases "x \<in> items (step op s)")
    case True
    then have "brings op s x" using step_items[of x op s] Cons.prems(2) by blast
    then have "op # ops = [] @ op # ops \<and> brings op (run_ops step [] s) x" by simp
    then show ?thesis by blast
  next
    case False
    have "x \<in> items (run_ops step ops (step op s))" using Cons.prems(1) by simp
    from Cons.IH[OF this False] obtain before op' after
      where "ops = before @ op' # after" "brings op' (run_ops step before (step op s)) x" by blast
    then have "op # ops = (op # before) @ op' # after \<and> brings op' (run_ops step (op # before) s) x" by simp
    then show ?thesis by blast
  qed
qed simp

end

end
