(* ===== verification/Go_Strings.thy ===== *)
theory Go_Strings
  imports Prelude "HOL-Library.Sublist"
begin

text \<open>
  The part of Go's \<open>strings\<close>, \<open>path\<close> and \<open>regexp\<close> packages the components use, on byte strings
  (a Go string is a sequence of bytes, \<open>len\<close> counts bytes).

  \<^item> \<open>strings.TrimSpace\<close> and \<open>strings.ToLower\<close> are modelled on ASCII: bytes above 127 are neither
    spaces nor letters with a lower case here.
  \<^item> \<open>path.Match\<close> is modelled for patterns of literals, \<open>*\<close> and \<open>?\<close>: the patterns the components
    accept (\<open>patternRe\<close>, \<open>secretPatternRe\<close>) hold neither brackets nor backslashes.
  \<^item> An anchored regular expression is the predicate that says what it matches.
\<close>

subsection \<open>Characters\<close>

definition in_range :: "char \<Rightarrow> char \<Rightarrow> char \<Rightarrow> bool" where
  "in_range lo hi c \<longleftrightarrow> (of_char lo :: nat) \<le> of_char c \<and> (of_char c :: nat) \<le> of_char hi"

definition is_lower :: "char \<Rightarrow> bool" where "is_lower = in_range CHR ''a'' CHR ''z''"
definition is_upper :: "char \<Rightarrow> bool" where "is_upper = in_range CHR ''A'' CHR ''Z''"
definition is_digit :: "char \<Rightarrow> bool" where "is_digit = in_range CHR ''0'' CHR ''9''"
definition is_hex :: "char \<Rightarrow> bool" where "is_hex c \<longleftrightarrow> is_digit c \<or> in_range CHR ''a'' CHR ''f'' c"
definition is_alnum :: "char \<Rightarrow> bool" where "is_alnum c \<longleftrightarrow> is_lower c \<or> is_upper c \<or> is_digit c"
definition is_space :: "char \<Rightarrow> bool" where
  "is_space c \<longleftrightarrow> c = CHR '' '' \<or> (9 \<le> (of_char c :: nat) \<and> (of_char c :: nat) \<le> 13)"

lemmas char_class_defs = in_range_def is_lower_def is_upper_def is_digit_def is_hex_def is_alnum_def is_space_def

definition lower_char :: "char \<Rightarrow> char" where
  "lower_char c = (if is_upper c then char_of (of_char c + 32 :: nat) else c)"

definition upper_char :: "char \<Rightarrow> char" where
  "upper_char c = (if is_lower c then char_of (of_char c - 32 :: nat) else c)"

lemma of_lower_char: "is_upper c \<Longrightarrow> (of_char (lower_char c) :: nat) = of_char c + 32"
  by (simp add: lower_char_def is_upper_def in_range_def)

lemma is_upper_lower_char [simp]: "\<not> is_upper (lower_char c)"
proof (cases "is_upper c")
  case True
  then show ?thesis
    using of_lower_char[OF True] by (simp add: is_upper_def in_range_def)
qed (simp add: lower_char_def)

lemma lower_char_id [simp]: "\<not> is_upper c \<Longrightarrow> lower_char c = c"
  by (simp add: lower_char_def)

lemma lower_char_idem [simp]: "lower_char (lower_char c) = lower_char c"
  by simp

lemma space_not_upper: "is_space c \<Longrightarrow> \<not> is_upper c"
  by (auto simp: is_space_def is_upper_def in_range_def)

lemma is_space_lower_char [simp]: "is_space (lower_char c) = is_space c"
proof (cases "is_upper c")
  case True
  have "(of_char (lower_char c) :: nat) = of_char c + 32"
    by (rule of_lower_char[OF True])
  then have "\<not> is_space (lower_char c)"
    using True by (auto simp: is_space_def is_upper_def in_range_def)
  then show ?thesis using space_not_upper True by blast
qed simp

subsection \<open>Strings\<close>

definition to_lower :: "string \<Rightarrow> string" where "to_lower s = map lower_char s"
definition to_upper :: "string \<Rightarrow> string" where "to_upper s = map upper_char s"

definition trim_left :: "(char \<Rightarrow> bool) \<Rightarrow> string \<Rightarrow> string" where "trim_left p s = dropWhile p s"
definition trim_right :: "(char \<Rightarrow> bool) \<Rightarrow> string \<Rightarrow> string" where
  "trim_right p s = rev (dropWhile p (rev s))"
definition trim_space :: "string \<Rightarrow> string" where
  "trim_space s = trim_right is_space (trim_left is_space s)"

definition trim_suffix :: "string \<Rightarrow> string \<Rightarrow> string" where
  "trim_suffix s suf = (if suffix suf s then take (length s - length suf) s else s)"
definition trim_prefix :: "string \<Rightarrow> string \<Rightarrow> string" where
  "trim_prefix s pre = (if prefix pre s then drop (length pre) s else s)"

definition contains_any :: "string \<Rightarrow> char list \<Rightarrow> bool" where
  "contains_any s cs \<longleftrightarrow> list_ex (\<lambda>c. c \<in> set cs) s"

text \<open>\<open>strings.Cut\<close> at a separator of one byte: what is before the first one, and after it.\<close>

fun cut :: "char \<Rightarrow> string \<Rightarrow> (string \<times> string) option" where
  "cut sep [] = None"
| "cut sep (c # cs) = (if c = sep then Some ([], cs) else map_option (\<lambda>(a, b). (c # a, b)) (cut sep cs))"

text \<open>\<open>strings.Split\<close> at a separator of one byte (never empty: the empty string gives one empty part).\<close>

fun split_on :: "char \<Rightarrow> string \<Rightarrow> string list" where
  "split_on sep [] = [[]]"
| "split_on sep (c # cs) =
     (if c = sep then [] # split_on sep cs
      else case split_on sep cs of [] \<Rightarrow> [[c]] | p # ps \<Rightarrow> (c # p) # ps)"

fun join_with :: "string \<Rightarrow> string list \<Rightarrow> string" where
  "join_with sep [] = []"
| "join_with sep [x] = x"
| "join_with sep (x # y # zs) = x @ sep @ join_with sep (y # zs)"

lemma to_lower_idem [simp]: "to_lower (to_lower s) = to_lower s"
  by (simp add: to_lower_def comp_def)

lemma length_to_lower [simp]: "length (to_lower s) = length s"
  by (simp add: to_lower_def)

lemma to_lower_Nil [simp]: "to_lower [] = []"
  by (simp add: to_lower_def)

lemma trim_left_lower: "trim_left is_space (to_lower s) = to_lower (trim_left is_space s)"
  by (induction s) (auto simp: trim_left_def to_lower_def)

lemma trim_right_lower: "trim_right is_space (to_lower s) = to_lower (trim_right is_space s)"
  using trim_left_lower[of "rev s"]
  by (simp add: trim_right_def trim_left_def to_lower_def rev_map)

lemma trim_space_lower: "trim_space (to_lower s) = to_lower (trim_space s)"
  by (simp add: trim_space_def trim_left_lower trim_right_lower)

lemma dropWhile_idem [simp]: "dropWhile p (dropWhile p s) = dropWhile p s"
  by (induction s) auto

lemma trim_left_id: "trim_left p s = s \<longleftrightarrow> s = [] \<or> \<not> p (hd s)"
proof (cases s)
  case (Cons c cs)
  have "length (dropWhile p cs) \<le> length cs" by (rule length_dropWhile_le)
  then show ?thesis
    using Cons by (auto simp: trim_left_def dest: arg_cong[where f = length])
qed (simp add: trim_left_def)

lemma trim_right_id: "trim_right p s = s \<longleftrightarrow> s = [] \<or> \<not> p (last s)"
  using trim_left_id[of p "rev s"] by (auto simp: trim_right_def trim_left_def hd_rev rev_swap)

lemma hd_trim_right: "trim_right p s \<noteq> [] \<Longrightarrow> hd (trim_right p s) = hd s"
proof -
  assume ne: "trim_right p s \<noteq> []"
  have "prefix (trim_right p s) s"
    using suffix_dropWhile[of p "rev s"] by (simp add: trim_right_def suffix_to_prefix)
  then show ?thesis using ne by (metis hd_append2 prefixE)
qed

lemma trim_space_idem [simp]: "trim_space (trim_space s) = trim_space s"
proof (cases "trim_space s = []")
  case False
  have l: "trim_left is_space (trim_left is_space s) = trim_left is_space s"
    by (simp add: trim_left_def)
  have ne: "trim_left is_space s \<noteq> []"
    using False by (auto simp: trim_space_def trim_right_def)
  then have "\<not> is_space (hd (trim_left is_space s))"
    using l trim_left_id by blast
  then have "\<not> is_space (hd (trim_space s))"
    using False hd_trim_right by (metis trim_space_def)
  then have "trim_left is_space (trim_space s) = trim_space s"
    by (simp add: trim_left_id)
  moreover have "trim_right is_space (trim_space s) = trim_space s"
    by (simp add: trim_space_def trim_right_def)
  ultimately show ?thesis by (metis trim_space_def)
next
  case True
  then show ?thesis by (simp only: True) (simp add: trim_space_def trim_left_def trim_right_def)
qed

lemma cut_Some: "cut sep s = Some (a, b) \<longleftrightarrow> s = a @ sep # b \<and> sep \<notin> set a"
proof (induction s arbitrary: a)
  case (Cons c cs)
  then show ?case by (cases a) auto
qed simp

lemma cut_None: "cut sep s = None \<longleftrightarrow> sep \<notin> set s"
  by (induction s) auto

lemma cut_append [simp]: "sep \<notin> set a \<Longrightarrow> cut sep (a @ sep # b) = Some (a, b)"
  by (simp add: cut_Some)

lemma split_on_nonempty [simp]: "split_on sep s \<noteq> []"
  by (induction s) (auto split: list.splits)

lemma split_on_no_sep: "p \<in> set (split_on sep s) \<Longrightarrow> sep \<notin> set p"
  by (induction s arbitrary: p) (auto split: if_splits list.splits)

lemma split_on_single: "sep \<notin> set s \<Longrightarrow> split_on sep s = [s]"
  by (induction s) auto

lemma split_on_append: "sep \<notin> set a \<Longrightarrow> split_on sep (a @ sep # b) = a # split_on sep b"
  by (induction a) auto

lemma split_join:
  "xs \<noteq> [] \<Longrightarrow> \<forall>x\<in>set xs. sep \<notin> set x \<Longrightarrow> split_on sep (join_with [sep] xs) = xs"
  by (induction "[sep]" xs rule: join_with.induct) (auto simp: split_on_single split_on_append)

lemma join_split: "join_with [sep] (split_on sep s) = s"
proof (induction s)
  case (Cons c cs)
  then show ?case
    by (cases "split_on sep cs"; cases "tl (split_on sep cs)") auto
qed simp

subsection \<open>Patterns\<close>

text \<open>\<open>path.Match\<close> for patterns of literals, \<open>*\<close> (any sequence without a slash) and \<open>?\<close> (any one
  character but a slash).\<close>

fun glob :: "string \<Rightarrow> string \<Rightarrow> bool" where
  "glob [] s = (s = [])"
| "glob (p # ps) [] = (p = CHR ''*'' \<and> glob ps [])"
| "glob (p # ps) (c # cs) =
     (if p = CHR ''*'' then glob ps (c # cs) \<or> (c \<noteq> CHR ''/'' \<and> glob (p # ps) cs)
      else if p = CHR ''?'' then c \<noteq> CHR ''/'' \<and> glob ps cs
      else p = c \<and> glob ps cs)"

definition match_any :: "string list \<Rightarrow> string \<Rightarrow> bool" where
  "match_any patterns v = list_ex (\<lambda>p. glob p v) patterns"

lemma glob_literal: "CHR ''*'' \<notin> set p \<Longrightarrow> CHR ''?'' \<notin> set p \<Longrightarrow> glob p s \<longleftrightarrow> s = p"
proof (induction p arbitrary: s)
  case (Cons c p)
  then show ?case by (cases s) auto
qed simp

lemma glob_prefix_literal:
  "CHR ''*'' \<notin> set p \<Longrightarrow> CHR ''?'' \<notin> set p \<Longrightarrow> glob (p @ q) s \<Longrightarrow> prefix p s"
proof (induction p arbitrary: s)
  case (Cons c p)
  then show ?case by (cases s) auto
qed simp

lemma glob_star: "CHR ''/'' \<notin> set s \<Longrightarrow> glob ''*'' s"
  by (induction s) auto

definition hash_ok :: "string \<Rightarrow> bool" where \<comment> \<open>\<open>^[0-9a-f]{64}$\<close>\<close>
  "hash_ok s \<longleftrightarrow> length s = 64 \<and> list_all is_hex s"

subsection \<open>Numbers as text\<close>

definition digit_char :: "nat \<Rightarrow> char" where "digit_char d = char_of (48 + d)"
definition hex_char :: "nat \<Rightarrow> char" where "hex_char d = (if d < 10 then char_of (48 + d) else char_of (87 + d))"

fun dec_string :: "nat \<Rightarrow> string" where \<comment> \<open>\<open>%d\<close>\<close>
  "dec_string n = (if n < 10 then [digit_char n] else dec_string (n div 10) @ [digit_char (n mod 10)])"

definition two_digits :: "nat \<Rightarrow> string" where "two_digits n = [digit_char (n div 10), digit_char (n mod 10)]"

definition hex_string :: "nat list \<Rightarrow> string" where \<comment> \<open>\<open>hex.EncodeToString\<close>\<close>
  "hex_string bs = concat (map (\<lambda>b. [hex_char (b div 16), hex_char (b mod 16)]) bs)"

declare dec_string.simps [simp del]

lemma of_digit_char: "d < 10 \<Longrightarrow> (of_char (digit_char d) :: nat) = 48 + d"
  by (simp add: digit_char_def)

lemma is_digit_digit_char [simp]: "d < 10 \<Longrightarrow> is_digit (digit_char d)"
  by (simp add: is_digit_def in_range_def of_digit_char)

lemma dec_string_digits: "list_all is_digit (dec_string n)"
  by (induction n rule: dec_string.induct) (subst dec_string.simps, simp)

lemma dec_string_length: "0 < k \<Longrightarrow> length (dec_string n) \<le> k \<longleftrightarrow> n < 10 ^ k"
proof (induction n arbitrary: k rule: dec_string.induct)
  case (1 n)
  show ?case
  proof (cases "n < 10")
    case True
    have "(10::nat) ^ 1 \<le> 10 ^ k" using 1(2) by (intro power_increasing) auto
    then show ?thesis using True 1(2) by (subst dec_string.simps) auto
  next
    case False
    show ?thesis
    proof (cases "k = 1")
      case True
      have "dec_string (n div 10) \<noteq> []" by (subst dec_string.simps) simp
      then have "0 < length (dec_string (n div 10))" by simp
      then show ?thesis using False True
        by (subst dec_string.simps) simp
    next
      case k: False
      then obtain j where j: "k = Suc j" "0 < j" using 1(2) by (cases k) auto
      then show ?thesis using 1(1)[OF False, of j] False
        by (subst dec_string.simps) (auto simp: less_mult_imp_div_less div_less_iff_less_mult mult.commute)
    qed
  qed
qed

lemma digit_char_inj: "d < 10 \<Longrightarrow> d' < 10 \<Longrightarrow> digit_char d = digit_char d' \<longleftrightarrow> d = d'"
  by (metis of_digit_char add_left_cancel)

lemma dec_string_nonempty [simp]: "dec_string n \<noteq> []"
  by (subst dec_string.simps) simp

lemma dec_string_inj: "dec_string m = dec_string n \<longleftrightarrow> m = n"
proof
  show "dec_string m = dec_string n \<Longrightarrow> m = n"
  proof (induction m arbitrary: n rule: dec_string.induct)
    case (1 m)
    have m: "dec_string m = (if m < 10 then [digit_char m] else dec_string (m div 10) @ [digit_char (m mod 10)])"
      and n: "dec_string n = (if n < 10 then [digit_char n] else dec_string (n div 10) @ [digit_char (n mod 10)])"
      by (subst dec_string.simps, simp)+
    show ?case
    proof (cases "m < 10 \<or> n < 10")
      case True
      then have "m < 10 \<and> n < 10" using 1(2) m n dec_string_nonempty[of "n div 10"] dec_string_nonempty[of "m div 10"]
        by (auto split: if_splits simp: append_eq_Cons_conv simp del: dec_string_nonempty)
      then show ?thesis using 1(2) m n digit_char_inj by simp
    next
      case False
      then have "dec_string (m div 10) = dec_string (n div 10)" "m mod 10 = n mod 10"
        using 1(2) m n digit_char_inj[of "m mod 10" "n mod 10"] by auto
      then show ?thesis using 1(1)[of "n div 10"] False by (metis div_mult_mod_eq)
    qed
  qed
qed simp

lemma hex_char_is_hex [simp]: "d < 16 \<Longrightarrow> is_hex (hex_char d)"
  by (auto simp: hex_char_def is_hex_def is_digit_def in_range_def)

lemma hex_string_hex: "list_all (\<lambda>b. b < 256) bs \<Longrightarrow> list_all is_hex (hex_string bs) \<and> length (hex_string bs) = 2 * length bs"
  by (induction bs) (auto simp: hex_string_def)

subsection \<open>Reading numbers\<close>

definition digit_val :: "char \<Rightarrow> nat" where "digit_val c = of_char c - 48"

definition digits_val :: "string \<Rightarrow> nat" where
  "digits_val s = foldl (\<lambda>n c. 10 * n + digit_val c) 0 s"

text \<open>\<open>strconv.Atoi\<close>: an optional sign and decimal digits, in the 64 bits of an \<open>int\<close>.\<close>

definition atoi :: "string \<Rightarrow> int option" where
  "atoi s =
     (let neg = (s \<noteq> [] \<and> hd s = CHR ''-'');
          ds = (if s \<noteq> [] \<and> (hd s = CHR ''-'' \<or> hd s = CHR ''+'') then tl s else s);
          v = (if neg then - int (digits_val ds) else int (digits_val ds))
      in if ds = [] \<or> \<not> list_all is_digit ds \<or> v < - (2 ^ 63) \<or> v \<ge> 2 ^ 63 then None else Some v)"

lemma digits_val_snoc: "digits_val (s @ [c]) = 10 * digits_val s + digit_val c"
  by (simp add: digits_val_def)

lemma digit_val_digit_char: "d < 10 \<Longrightarrow> digit_val (digit_char d) = d"
  by (simp add: digit_val_def of_digit_char)

lemma digits_val_dec_string: "digits_val (dec_string n) = n"
proof (induction n rule: dec_string.induct)
  case (1 n)
  show ?case
  proof (cases "n < 10")
    case True
    then show ?thesis by (subst dec_string.simps) (simp add: digits_val_def digit_val_digit_char)
  next
    case False
    then have "digits_val (dec_string n) = 10 * (n div 10) + n mod 10"
      using 1 by (subst dec_string.simps) (simp add: digits_val_snoc digit_val_digit_char)
    then show ?thesis by simp
  qed
qed

lemma atoi_dec_string: "n < 2 ^ 63 \<Longrightarrow> atoi (dec_string n) = Some (int n)"
proof -
  assume n: "n < 2 ^ 63"
  have d: "list_all is_digit (dec_string n)" by (rule dec_string_digits)
  then have "is_digit (hd (dec_string n))"
    using dec_string_nonempty[of n] by (cases "dec_string n") simp_all
  then have "hd (dec_string n) \<noteq> CHR ''-'' \<and> hd (dec_string n) \<noteq> CHR ''+''"
    by (auto simp: is_digit_def in_range_def)
  then show ?thesis using d n by (simp add: atoi_def Let_def digits_val_dec_string)
qed

text \<open>\<open>strings.LastIndex\<close> of one character, as the text before and after it.\<close>

definition cut_last :: "char \<Rightarrow> string \<Rightarrow> (string \<times> string) option" where
  "cut_last sep s = (case cut sep (rev s) of None \<Rightarrow> None | Some (b, a) \<Rightarrow> Some (rev a, rev b))"

text \<open>\<open>strconv.Itoa\<close> and \<open>FormatInt\<close> in base 10.\<close>

definition int_string :: "int \<Rightarrow> string" where
  "int_string n = (if n < 0 then ''-'' @ dec_string (nat (- n)) else dec_string (nat n))"

lemma atoi_int_string: "0 \<le> n \<Longrightarrow> n < 2 ^ 63 \<Longrightarrow> atoi (int_string n) = Some n"
  by (simp add: int_string_def atoi_dec_string)

lemma dot_not_in_int_string: "CHR ''.'' \<notin> set (int_string n)"
proof -
  have "CHR ''.'' \<notin> set (dec_string k)" for k
    using dec_string_digits[of k] by (auto simp: list_all_iff is_digit_def in_range_def)
  then show ?thesis by (simp add: int_string_def)
qed

end
