(* ===== verification/Host_Queue.thy ===== *)
theory Host_Queue
  imports Go_Strings
begin

text \<open>
  The host's queue (\<open>pkg/server/queue.go\<close>): the host runs one change at a time, and changes wait in
  line for it. Tickets are shared by pointer between the queue and the request that holds them, so they
  live in a store \<open>q_tickets\<close> addressed by the order they were issued in. A ticket's channel has room
  for one value: \<open>tk_ch\<close> is the value sent and not yet received.
\<close>

definition maxQueuedJobs :: nat where "maxQueuedJobs = 20"

datatype queue_error = QueueFull | QueueClosed

record ticket =
  tk_id :: string
  tk_granted :: bool
  tk_ch :: "bool option"

record host_queue =
  q_busy :: bool
  q_closed :: bool
  q_waiting :: "nat list"
  q_tickets :: "nat \<Rightarrow> ticket"
  q_next :: nat

definition new_queue :: host_queue where
  "new_queue = \<lparr>q_busy = False, q_closed = False, q_waiting = [],
     q_tickets = (\<lambda>_. \<lparr>tk_id = [], tk_granted = False, tk_ch = None\<rparr>), q_next = 0\<rparr>"

definition set_ticket :: "nat \<Rightarrow> ticket \<Rightarrow> host_queue \<Rightarrow> host_queue" where
  "set_ticket r t q = q\<lparr>q_tickets := (q_tickets q)(r := t)\<rparr>"

text \<open>\<open>&ticket\{granted: g, ch: make(chan bool, 1)\}\<close>, with true already sent when it is granted.\<close>

definition new_ticket :: "bool \<Rightarrow> host_queue \<Rightarrow> nat \<times> host_queue" where
  "new_ticket g q =
     (q_next q, (set_ticket (q_next q) \<lparr>tk_id = [], tk_granted = g, tk_ch = (if g then Some True else None)\<rparr> q)
        \<lparr>q_next := Suc (q_next q)\<rparr>)"

definition send :: "nat \<Rightarrow> bool \<Rightarrow> host_queue \<Rightarrow> host_queue" where
  "send r v q = set_ticket r ((q_tickets q r)\<lparr>tk_ch := Some v\<rparr>) q"

definition try_ticket :: "host_queue \<Rightarrow> (nat \<times> host_queue) option" where
  "try_ticket q =
     (if q_closed q \<or> q_busy q \<or> 0 < length (q_waiting q) then None
      else Some (new_ticket True (q\<lparr>q_busy := True\<rparr>)))"

definition enqueue :: "host_queue \<Rightarrow> queue_error + (nat \<times> host_queue)" where
  "enqueue q =
     (if q_closed q then Inl QueueClosed
      else if \<not> q_busy q then Inr (new_ticket True (q\<lparr>q_busy := True\<rparr>))
      else if length (q_waiting q) \<ge> maxQueuedJobs then Inl QueueFull
      else let (r, q') = new_ticket False q in Inr (r, q'\<lparr>q_waiting := q_waiting q' @ [r]\<rparr>))"

definition name_ticket :: "nat \<Rightarrow> string \<Rightarrow> host_queue \<Rightarrow> host_queue" where
  "name_ticket r i q = set_ticket r ((q_tickets q r)\<lparr>tk_id := i\<rparr>) q"

definition release :: "host_queue \<Rightarrow> host_queue" where
  "release q =
     (if q_closed q \<or> length (q_waiting q) = 0 then q\<lparr>q_busy := False\<rparr>
      else let w = hd (q_waiting q) in send w True (q\<lparr>q_waiting := tl (q_waiting q)\<rparr>))"

definition abandon :: "nat \<Rightarrow> host_queue \<Rightarrow> host_queue" where
  "abandon r q =
     (if r \<in> set (q_waiting q) then q\<lparr>q_waiting := remove1 r (q_waiting q)\<rparr> else release q)"

definition close_queue :: "host_queue \<Rightarrow> host_queue" where
  "close_queue q = (fold (\<lambda>r. send r False) (q_waiting q) (q\<lparr>q_closed := True\<rparr>))\<lparr>q_waiting := []\<rparr>"

fun position_in :: "(nat \<Rightarrow> ticket) \<Rightarrow> string \<Rightarrow> nat \<Rightarrow> nat list \<Rightarrow> nat" where
  "position_in tk i n [] = 0"
| "position_in tk i n (r # rs) = (if tk_id (tk r) = i then Suc n else position_in tk i (Suc n) rs)"

definition position :: "host_queue \<Rightarrow> string \<Rightarrow> nat" where
  "position q i = position_in (q_tickets q) i 0 (q_waiting q)"

definition waiting_count :: "host_queue \<Rightarrow> nat" where
  "waiting_count q = length (q_waiting q)"

subsection \<open>The queue's own invariant\<close>

text \<open>
  The line is in the order the tickets were issued, is bounded, and holds only tickets nobody has
  answered yet; somebody has the host while anybody waits; a stopped daemon has no line.
\<close>

definition queue_inv :: "host_queue \<Rightarrow> bool" where
  "queue_inv q \<longleftrightarrow>
     sorted_wrt (<) (q_waiting q) \<and> (\<forall>r \<in> set (q_waiting q). r < q_next q)
   \<and> length (q_waiting q) \<le> maxQueuedJobs
   \<and> (\<forall>r \<in> set (q_waiting q). \<not> tk_granted (q_tickets q r) \<and> tk_ch (q_tickets q r) = None)
   \<and> (q_waiting q \<noteq> [] \<longrightarrow> q_busy q) \<and> (q_closed q \<longrightarrow> q_waiting q = [])"

lemma queue_inv_new: "queue_inv new_queue"
  by (simp add: queue_inv_def new_queue_def)

lemma set_ticket_simps [simp]:
  "q_busy (set_ticket r t q) = q_busy q" "q_closed (set_ticket r t q) = q_closed q"
  "q_waiting (set_ticket r t q) = q_waiting q" "q_next (set_ticket r t q) = q_next q"
  "q_tickets (set_ticket r t q) = (q_tickets q)(r := t)"
  by (simp_all add: set_ticket_def)

lemma send_simps [simp]:
  "q_busy (send r v q) = q_busy q" "q_closed (send r v q) = q_closed q"
  "q_waiting (send r v q) = q_waiting q" "q_next (send r v q) = q_next q"
  "q_tickets (send r v q) = (q_tickets q)(r := (q_tickets q r)\<lparr>tk_ch := Some v\<rparr>)"
  by (simp_all add: send_def)

lemma fold_send_simps [simp]:
  "q_busy (fold (\<lambda>r. send r v) rs q) = q_busy q" "q_closed (fold (\<lambda>r. send r v) rs q) = q_closed q"
  "q_waiting (fold (\<lambda>r. send r v) rs q) = q_waiting q" "q_next (fold (\<lambda>r. send r v) rs q) = q_next q"
  by (induction rs arbitrary: q) auto

lemma fold_send_tickets:
  "q_tickets (fold (\<lambda>r. send r v) rs q) r =
     (if r \<in> set rs then (q_tickets q r)\<lparr>tk_ch := Some v\<rparr> else q_tickets q r)"
  by (induction rs arbitrary: q) auto

lemma close_queue_simps [simp]:
  "q_busy (close_queue q) = q_busy q" "q_closed (close_queue q)"
  "q_waiting (close_queue q) = []" "q_next (close_queue q) = q_next q"
  "q_tickets (close_queue q) r =
     (if r \<in> set (q_waiting q) then (q_tickets q r)\<lparr>tk_ch := Some False\<rparr> else q_tickets q r)"
  by (simp_all add: close_queue_def fold_send_tickets)

lemma new_ticket_simps [simp]:
  "fst (new_ticket g q) = q_next q"
  "q_busy (snd (new_ticket g q)) = q_busy q" "q_closed (snd (new_ticket g q)) = q_closed q"
  "q_waiting (snd (new_ticket g q)) = q_waiting q" "q_next (snd (new_ticket g q)) = Suc (q_next q)"
  "q_tickets (snd (new_ticket g q)) = (q_tickets q)(q_next q :=
     \<lparr>tk_id = [], tk_granted = g, tk_ch = (if g then Some True else None)\<rparr>)"
  by (simp_all add: new_ticket_def)

lemma try_ticket_Some: "try_ticket q = Some (r, q') \<longleftrightarrow>
    \<not> q_closed q \<and> \<not> q_busy q \<and> q_waiting q = [] \<and> (r, q') = new_ticket True (q\<lparr>q_busy := True\<rparr>)"
  by (auto simp: try_ticket_def)

lemma enqueue_Inr: "enqueue q = Inr (r, q') \<longleftrightarrow> \<not> q_closed q \<and>
    ((\<not> q_busy q \<and> (r, q') = new_ticket True (q\<lparr>q_busy := True\<rparr>))
     \<or> (q_busy q \<and> length (q_waiting q) < maxQueuedJobs \<and> r = q_next q
        \<and> q' = (snd (new_ticket False q))\<lparr>q_waiting := q_waiting q @ [q_next q]\<rparr>))"
  by (auto simp: enqueue_def split_beta Let_def)

lemma queue_inv_try [inv_intros]: "queue_inv q \<Longrightarrow> try_ticket q = Some (r, q') \<Longrightarrow> queue_inv q'"
  by (auto simp: try_ticket_Some queue_inv_def prod_eq_iff)

lemma queue_inv_enqueue [inv_intros]: "queue_inv q \<Longrightarrow> enqueue q = Inr (r, q') \<Longrightarrow> queue_inv q'"
  by (fastforce simp: enqueue_Inr queue_inv_def prod_eq_iff sorted_wrt_append)

lemma queue_inv_name [inv_intros]: "queue_inv q \<Longrightarrow> queue_inv (name_ticket r i q)"
  by (auto simp: queue_inv_def name_ticket_def)

lemma queue_inv_release [inv_intros]: "queue_inv q \<Longrightarrow> queue_inv (release q)"
proof (cases "q_waiting q")
  case (Cons w ws)
  assume "queue_inv q"
  then show ?thesis using Cons by (auto simp: queue_inv_def release_def Let_def)
qed (auto simp: queue_inv_def release_def)

lemma sorted_wrt_less_remove1: "sorted_wrt (<) (xs :: nat list) \<Longrightarrow> sorted_wrt (<) (remove1 x xs)"
  by (induction xs) (auto dest: notin_set_remove1 set_remove1_subset[THEN subsetD])

lemma queue_inv_abandon [inv_intros]: "queue_inv q \<Longrightarrow> queue_inv (abandon r q)"
proof (cases "r \<in> set (q_waiting q)")
  case True
  assume inv: "queue_inv q"
  have sub: "set (remove1 r (q_waiting q)) \<subseteq> set (q_waiting q)" by (rule set_remove1_subset)
  have "length (remove1 r (q_waiting q)) \<le> length (q_waiting q)" by (simp add: length_remove1)
  then show ?thesis
    using True inv sub by (auto simp: queue_inv_def abandon_def sorted_wrt_less_remove1)
qed (simp add: abandon_def queue_inv_release)

lemma queue_inv_close [inv_intros]: "queue_inv q \<Longrightarrow> queue_inv (close_queue q)"
  by (simp add: queue_inv_def)

lemma position_in_bound: "position_in tk i n rs = 0 \<or> (n < position_in tk i n rs \<and> position_in tk i n rs \<le> n + length rs)"
proof (induction rs arbitrary: n)
  case (Cons r rs)
  show ?case using Cons.IH[of "Suc n"] by auto
qed simp

lemma position_in_nth: "position_in tk i n rs = Suc (n + k) \<Longrightarrow> k < length rs \<and> tk_id (tk (rs ! k)) = i"
proof (induction rs arbitrary: n k)
  case (Cons r rs)
  show ?case
  proof (cases "tk_id (tk r) = i")
    case False
    then have p: "position_in tk i (Suc n) rs = Suc (n + k)" using Cons.prems by simp
    then have "Suc n < Suc (n + k)" using position_in_bound[of tk i "Suc n" rs] by auto
    then obtain k' where k: "k = Suc k'" by (cases k) auto
    then show ?thesis using Cons.IH[of "Suc n" k'] p by simp
  qed (use Cons.prems in simp)
qed simp

end
