(* ===== verification/Jobs.thy ===== *)
theory Jobs
  imports Go_Strings
begin

text \<open>
  The store of apply jobs (\<open>pkg/server/jobs.go\<close>): in memory (\<open>js_jobs\<close>) and one JSON file per job
  (\<open>js_disk\<close>: the decoded content of each \<open><id>.json\<close>). A change made through the pointer the map
  holds stands in memory whatever the outcome of the write that follows it.
\<close>

subsection \<open>Records\<close>

datatype job_status = JobQueued | JobRunning | JobSucceeded | JobFailed | JobInterrupted

record job =
  j_id :: string
  j_kind :: string
  j_status :: job_status
  j_actor :: string
  j_sha :: string
  j_service :: string
  j_plan_hash :: string
  j_created :: time
  j_started :: "time option"
  j_finished :: "time option"
  j_error :: string
  j_result :: string
  j_log :: string
  j_log_truncated :: bool
  j_position :: nat
  j_next :: string

definition valid_job_id :: "string \<Rightarrow> bool" where \<comment> \<open>\<open>^j-[0-9]{9,12}-[0-9a-f]{8}$\<close>\<close>
  "valid_job_id s \<longleftrightarrow> prefix ''j-'' s \<and>
     (case cut CHR ''-'' (drop 2 s) of None \<Rightarrow> False
      | Some (d, h) \<Rightarrow> 9 \<le> length d \<and> length d \<le> 12 \<and> list_all is_digit d
                       \<and> length h = 8 \<and> list_all is_hex h)"

definition maxJobLogBytes :: nat where "maxJobLogBytes = 256 * 1024"
definition keepJobs :: nat where "keepJobs = 200"

record jobs =
  js_jobs :: "string \<rightharpoonup> job"
  js_disk :: "string \<rightharpoonup> job"

definition job_pending :: "job \<Rightarrow> bool" where
  "job_pending j \<longleftrightarrow> j_status j = JobQueued \<or> j_status j = JobRunning"

definition notStarted :: string where
  "notStarted = ''the daemon stopped before this job's turn came, so nothing was done. Run it again.''"

definition wasRunning :: string where
  "wasRunning = ''the daemon stopped while this was running; the host may be part-way through it. Run the apply again: it converges and is safe to repeat.''"

subsection \<open>Operations\<close>

definition persist_job :: "bool \<Rightarrow> job \<Rightarrow> jobs \<Rightarrow> jobs" where
  "persist_job ok j js = (if ok then js\<lparr>js_disk := (js_disk js)(j_id j \<mapsto> j)\<rparr> else js)"

definition prune_jobs :: "env \<Rightarrow> jobs \<Rightarrow> jobs" where
  "prune_jobs e js =
     (if length (e_order e) \<le> keepJobs then js
      else let all = newest_first (\<lambda>(k, j). j_created j) (map_values (js_jobs js) (e_order e));
               victims = filter (\<lambda>(k, j). \<not> (j_status j = JobRunning \<or> j_status j = JobQueued)) (drop keepJobs all);
               ids = map (\<lambda>(k, j). j_id j) victims
           in js\<lparr>js_jobs := delete_keys (js_jobs js) ids,
                 js_disk := delete_keys (js_disk js) (filter (\<lambda>i. i \<in> set (e_removed e)) ids)\<rparr>)"

text \<open>\<open>OpenJobs\<close>: \<open>clk\<close> is the clock as each file is read, \<open>written\<close> whether its rewrite succeeded.\<close>

definition reopened_job :: "time \<Rightarrow> job \<Rightarrow> job" where
  "reopened_job now j =
     (case j_status j of
        JobRunning \<Rightarrow> j\<lparr>j_status := JobInterrupted, j_finished := Some now, j_error := wasRunning\<rparr>
      | JobQueued \<Rightarrow> j\<lparr>j_status := JobInterrupted, j_finished := Some now, j_error := notStarted\<rparr>
      | _ \<Rightarrow> j)"

definition open_jobs ::
  "bool \<Rightarrow> env \<Rightarrow> (string \<Rightarrow> time) \<Rightarrow> (string \<Rightarrow> bool) \<Rightarrow> (string \<rightharpoonup> job) \<Rightarrow> jobs option" where
  "open_jobs dir_ok e clk written disk =
     (let loaded = (\<lambda>name. case disk name of None \<Rightarrow> None
                      | Some j \<Rightarrow> if valid_job_id name \<and> j_id j = name then Some (reopened_job (clk name) j) else None)
      in if \<not> dir_ok then None
         else Some (prune_jobs e
           \<lparr>js_jobs = loaded,
            js_disk = (\<lambda>name. case loaded name of None \<Rightarrow> disk name
              | Some j \<Rightarrow> if job_pending (the (disk name)) \<and> written name then Some j else disk name)\<rparr>))"

text \<open>The four random bytes are an argument.\<close>

definition new_job_id :: "time \<Rightarrow> nat list \<Rightarrow> string" where
  "new_job_id now rnd = ''j-'' @ dec_string (nat (now div second)) @ ''-'' @ hex_string rnd"

definition create_job ::
  "env \<Rightarrow> nat list \<Rightarrow> job_status \<Rightarrow> string \<Rightarrow> string \<Rightarrow> string \<Rightarrow> string \<Rightarrow> string \<Rightarrow> jobs \<Rightarrow> jobs \<times> job option" where
  "create_job e rnd status kind actor sha service planHash js =
     (let now = e_now e;
          j = \<lparr>j_id = new_job_id now rnd, j_kind = kind, j_status = status, j_actor = actor, j_sha = sha,
               j_service = service, j_plan_hash = planHash, j_created = now,
               j_started = (if status = JobRunning then Some now else None), j_finished = None,
               j_error = [], j_result = [], j_log = [], j_log_truncated = False, j_position = 0, j_next = []\<rparr>
      in if \<not> e_write e then (js, None)
         else (prune_jobs e (let js' = persist_job True j js in js'\<lparr>js_jobs := (js_jobs js')(j_id j \<mapsto> j)\<rparr>), Some j))"

definition update_job :: "env \<Rightarrow> string \<Rightarrow> (job \<Rightarrow> job) \<Rightarrow> jobs \<Rightarrow> jobs" where
  "update_job e i change js =
     (case js_jobs js i of None \<Rightarrow> js
      | Some j \<Rightarrow> persist_job (e_write e) (change j) (js\<lparr>js_jobs := (js_jobs js)(i \<mapsto> change j)\<rparr>))"

definition start_job :: "env \<Rightarrow> string \<Rightarrow> jobs \<Rightarrow> jobs" where
  "start_job e i = update_job e i (\<lambda>j. j\<lparr>j_status := JobRunning, j_started := Some (e_now e)\<rparr>)"

definition interrupt_job :: "env \<Rightarrow> string \<Rightarrow> string \<Rightarrow> jobs \<Rightarrow> jobs" where
  "interrupt_job e i reason =
     update_job e i (\<lambda>j. j\<lparr>j_status := JobInterrupted, j_finished := Some (e_now e), j_error := reason\<rparr>)"

definition finish_job :: "env \<Rightarrow> string \<Rightarrow> string option \<Rightarrow> jobs \<Rightarrow> jobs" where
  "finish_job e i err js =
     (case js_jobs js i of None \<Rightarrow> js
      | Some j \<Rightarrow>
          let j1 = j\<lparr>j_finished := Some (e_now e)\<rparr>;
              j2 = (case err of Some msg \<Rightarrow> j1\<lparr>j_status := JobFailed, j_error := msg\<rparr>
                    | None \<Rightarrow> j1\<lparr>j_status := JobSucceeded\<rparr>)
          in persist_job (e_write e) j2 (js\<lparr>js_jobs := (js_jobs js)(i \<mapsto> j2)\<rparr>))"

definition clock_prefix :: "time \<Rightarrow> string" where \<comment> \<open>\<open>Format("15:04:05 ")\<close>\<close>
  "clock_prefix now =
     (let s = nat (now div second mod 86400)
      in two_digits (s div 3600) @ '':'' @ two_digits (s div 60 mod 60) @ '':'' @ two_digits (s mod 60) @ '' '')"

definition log_truncated_line :: string where "log_truncated_line = ''... log truncated ...'' @ [CHR 0x0A]"

definition logf_job :: "env \<Rightarrow> string \<Rightarrow> string \<Rightarrow> jobs \<Rightarrow> jobs" where
  "logf_job e i msg js =
     (case js_jobs js i of None \<Rightarrow> js
      | Some j \<Rightarrow>
          if j_log_truncated j then js
          else let line = clock_prefix (e_now e) @ trim_right (\<lambda>c. c = CHR 0x0A) msg @ [CHR 0x0A];
                   j' = (if length (j_log j) + length line > maxJobLogBytes
                         then j\<lparr>j_log_truncated := True, j_log := j_log j @ log_truncated_line\<rparr>
                         else j\<lparr>j_log := j_log j @ line\<rparr>)
               in persist_job (e_write e) j' (js\<lparr>js_jobs := (js_jobs js)(i \<mapsto> j')\<rparr>))"

definition get_job :: "jobs \<Rightarrow> string \<Rightarrow> job option" where
  "get_job js i = js_jobs js i"

definition list_jobs :: "env \<Rightarrow> jobs \<Rightarrow> job list" where
  "list_jobs e js =
     newest_first j_created (map (\<lambda>(k, j). j\<lparr>j_log := []\<rparr>) (map_values (js_jobs js) (e_order e)))"

definition running_job :: "env \<Rightarrow> jobs \<Rightarrow> job option" where
  "running_job e js =
     map_option (\<lambda>(k, j). j\<lparr>j_log := []\<rparr>)
       (List.find (\<lambda>(k, j). j_status j = JobRunning) (map_values (js_jobs js) (e_order e)))"

text \<open>The changes the callers of \<open>update\<close> make: a deploy's commit, plan and result, and the job that
  carries it on (\<open>deploy.go\<close>, \<open>migrate.go\<close>, \<open>pin.go\<close>).\<close>

datatype job_change = SetResult string | SetSha string | SetPlanHash string | SetNext string

fun change_job :: "job_change \<Rightarrow> job \<Rightarrow> job" where
  "change_job (SetResult r) j = j\<lparr>j_result := r\<rparr>"
| "change_job (SetSha s) j = j\<lparr>j_sha := s\<rparr>"
| "change_job (SetPlanHash h) j = j\<lparr>j_plan_hash := h\<rparr>"
| "change_job (SetNext i) j = j\<lparr>j_next := i\<rparr>"

datatype job_op =
    JCreate env "nat list" job_status string string string string string
  | JStart env string
  | JChange env string job_change
  | JLogf env string string
  | JInterrupt env string string
  | JFinish env string "string option"

fun job_step :: "job_op \<Rightarrow> jobs \<Rightarrow> jobs" where
  "job_step (JCreate e rnd st kind actor sha service h) js = fst (create_job e rnd st kind actor sha service h js)"
| "job_step (JStart e i) js = start_job e i js"
| "job_step (JChange e i c) js = update_job e i (change_job c) js"
| "job_step (JLogf e i msg) js = logf_job e i msg js"
| "job_step (JInterrupt e i reason) js = interrupt_job e i reason js"
| "job_step (JFinish e i err) js = finish_job e i err js"

subsection \<open>What the operations leave alone\<close>

definition jobs_wf :: "(string \<rightharpoonup> job) \<Rightarrow> bool" where
  "jobs_wf m \<longleftrightarrow> (\<forall>i j. m i = Some j \<longrightarrow> j_id j = i)"

lemma jobs_wfD: "jobs_wf m \<Longrightarrow> m i = Some j \<Longrightarrow> j_id j = i"
  by (simp add: jobs_wf_def)

lemma jobs_wf_upd [intro]: "jobs_wf m \<Longrightarrow> j_id j = i \<Longrightarrow> jobs_wf (m(i \<mapsto> j))"
  by (simp add: jobs_wf_def)

lemma jobs_persist [simp]: "js_jobs (persist_job ok j js) = js_jobs js"
  by (simp add: persist_job_def)

lemma disk_persist [simp]:
  "js_disk (persist_job ok j js) = (if ok then (js_disk js)(j_id j \<mapsto> j) else js_disk js)"
  by (simp add: persist_job_def)

lemma jobs_prune_sub: "js_jobs (prune_jobs e js) i = Some j \<Longrightarrow> js_jobs js i = Some j"
  by (auto simp: prune_jobs_def Let_def delete_keys_Some split: if_splits)

lemma jobs_wf_prune [inv_intros]: "jobs_wf (js_jobs js) \<Longrightarrow> jobs_wf (js_jobs (prune_jobs e js))"
  by (meson jobs_prune_sub jobs_wf_def)

lemma create_job_jobs:
  "create_job e rnd st kind actor sha service h js = (js', Some j) \<Longrightarrow>
     j_id j = new_job_id (e_now e) rnd \<and> j_status j = st \<and> j_created j = e_now e \<and> j_log j = []
   \<and> \<not> j_log_truncated j
   \<and> js' = prune_jobs e (persist_job True j (js\<lparr>js_jobs := (js_jobs js)(j_id j \<mapsto> j)\<rparr>))"
  by (cases js) (auto simp: create_job_def persist_job_def Let_def split: if_splits)

lemma create_job_failed: "create_job e rnd st kind actor sha service h js = (js', None) \<Longrightarrow> js' = js"
  by (simp add: create_job_def Let_def split: if_splits)

lemma create_job_sub:
  assumes "create_job e rnd st kind actor sha service h js = (js', r)" "js_jobs js' i = Some j"
  shows "js_jobs js i = Some j \<or> (r = Some j \<and> j_id j = i)"
proof (cases r)
  case (Some j')
  note j' = create_job_jobs[OF assms(1)[unfolded Some]]
  have "js_jobs (prune_jobs e (persist_job True j' (js\<lparr>js_jobs := (js_jobs js)(j_id j' \<mapsto> j')\<rparr>))) i = Some j"
    using assms(2) j' by blast
  from jobs_prune_sub[OF this] show ?thesis using Some by (auto split: if_splits)
qed (use assms create_job_failed in fastforce)

text \<open>Everything but a creation changes one job's record in place.\<close>

fun job_edit :: "job_op \<Rightarrow> (env \<times> string \<times> (job \<Rightarrow> job option)) option" where
  "job_edit (JCreate _ _ _ _ _ _ _ _) = None"
| "job_edit (JStart e i) = Some (e, i, \<lambda>j. Some (j\<lparr>j_status := JobRunning, j_started := Some (e_now e)\<rparr>))"
| "job_edit (JChange e i c) = Some (e, i, \<lambda>j. Some (change_job c j))"
| "job_edit (JLogf e i msg) = Some (e, i, \<lambda>j. if j_log_truncated j then None else
     let line = clock_prefix (e_now e) @ trim_right (\<lambda>c. c = CHR 0x0A) msg @ [CHR 0x0A] in
     Some (if length (j_log j) + length line > maxJobLogBytes
           then j\<lparr>j_log_truncated := True, j_log := j_log j @ log_truncated_line\<rparr>
           else j\<lparr>j_log := j_log j @ line\<rparr>))"
| "job_edit (JInterrupt e i reason) =
     Some (e, i, \<lambda>j. Some (j\<lparr>j_status := JobInterrupted, j_finished := Some (e_now e), j_error := reason\<rparr>))"
| "job_edit (JFinish e i err) = Some (e, i, \<lambda>j. Some (case err of
     Some msg \<Rightarrow> j\<lparr>j_finished := Some (e_now e), j_status := JobFailed, j_error := msg\<rparr>
   | None \<Rightarrow> j\<lparr>j_finished := Some (e_now e), j_status := JobSucceeded\<rparr>))"

lemma job_step_edit:
  assumes "job_edit op = Some (e, i, f)"
  shows "job_step op js = (case js_jobs js i of None \<Rightarrow> js
    | Some j \<Rightarrow> (case f j of None \<Rightarrow> js
        | Some j' \<Rightarrow> persist_job (e_write e) j' (js\<lparr>js_jobs := (js_jobs js)(i \<mapsto> j')\<rparr>)))"
  using assms
  by (cases op)
     (auto simp: start_job_def update_job_def interrupt_job_def finish_job_def logf_job_def Let_def
           split: option.splits)

lemma job_edit_id:
  assumes "job_edit op = Some (e, i, f)" "f j = Some j'"
  shows "j_id j' = j_id j \<and> prefix (j_log j) (j_log j')"
proof (cases op)
  case (JChange e' i' c)
  then show ?thesis using assms by (cases c) auto
next
  case (JFinish e' i' err)
  then show ?thesis using assms by (cases err) auto
qed (use assms in \<open>auto simp: Let_def split: if_splits\<close>)

lemma job_edit_None: "job_edit op = None \<longleftrightarrow> (\<exists>e rnd st kind actor sha service h.
    op = JCreate e rnd st kind actor sha service h)"
  by (cases op) auto

lemma jobs_wf_step [inv_intros]:
  assumes "jobs_wf (js_jobs js)" shows "jobs_wf (js_jobs (job_step op js))"
proof (cases "job_edit op")
  case None
  then obtain e rnd st kind actor sha service h where op: "op = JCreate e rnd st kind actor sha service h"
    using job_edit_None by blast
  obtain js' r where c: "create_job e rnd st kind actor sha service h js = (js', r)" by force
  then show ?thesis
    using assms op create_job_sub[OF c] by (auto simp: jobs_wf_def)
next
  case (Some ed)
  obtain e i f where ed: "ed = (e, i, f)" by (cases ed)
  show ?thesis
    using assms job_edit_id[OF Some[unfolded ed]]
    by (auto simp: job_step_edit[OF Some[unfolded ed]] jobs_wfD split: option.splits)
qed

subsection \<open>Retention\<close>

definition pruned_jobs :: "string list \<Rightarrow> (string \<rightharpoonup> job) \<Rightarrow> (string \<rightharpoonup> job)" where
  "pruned_jobs ks m =
     js_jobs (prune_jobs \<lparr>e_now = 0, e_write = True, e_order = ks, e_removed = []\<rparr> \<lparr>js_jobs = m, js_disk = Map.empty\<rparr>)"

lemma js_jobs_prune: "js_jobs (prune_jobs e js) = pruned_jobs (e_order e) (js_jobs js)"
  by (simp add: pruned_jobs_def prune_jobs_def Let_def)

lemma pruned_jobs_prune_map:
  assumes "jobs_wf m"
  shows "pruned_jobs ks m = prune_map j_created job_pending keepJobs ks m"
proof (cases "length ks \<le> keepJobs")
  case True
  then have "length (map_values m ks) \<le> keepJobs"
    by (metis (no_types, lifting) fst_map_values le_trans length_filter_le length_map)
  then show ?thesis
    using True by (simp add: pruned_jobs_def prune_jobs_def prune_map_def prune_victims_def)
next
  case False
  let ?v = "prune_victims j_created job_pending keepJobs (map_values m ks)"
  have eq: "map (\<lambda>(k, j). j_id j) ?v = map fst ?v"
    using assms by (intro map_cong) (auto dest!: prune_victims_in jobs_wfD)
  have p: "(\<lambda>(k :: string, j). \<not> (j_status j = JobRunning \<or> j_status j = JobQueued)) = (\<lambda>(k, j). \<not> job_pending j)"
    by (auto simp: job_pending_def)
  have "pruned_jobs ks m = delete_keys m (map (\<lambda>(k, j). j_id j) ?v)"
    using False by (simp add: pruned_jobs_def prune_jobs_def prune_victims_def Let_def p[simplified])
  then show ?thesis by (simp only: eq prune_map_def)
qed

interpretation job_retention: retention jobs_wf j_created job_pending keepJobs pruned_jobs
proof (unfold_locales, goal_cases)
  case 1
  show ?case by (simp add: keepJobs_def)
next
  case (2 ks m k v)
  then show ?case by (auto simp: pruned_jobs_def dest: jobs_prune_sub)
next
  case (3 m ks k v)
  show ?case
  proof (cases "pruned_jobs ks m k")
    case None
    then show ?thesis
      using 3 prune_map_None[of m k v] by (auto simp: pruned_jobs_prune_map dest!: prune_victims_in)
  next
    case (Some v')
    then show ?thesis using 3 by (auto simp: pruned_jobs_def dest: jobs_prune_sub)
  qed
next
  case (4 m ks k v)
  then show ?case using prune_map_dropped[of m ks k v] by (simp add: pruned_jobs_prune_map)
next
  case (5 m ks)
  then show ?case using prune_map_bound[of m ks] by (simp add: pruned_jobs_prune_map)
qed

subsection \<open>Properties\<close>

definition log_bounded :: "job \<Rightarrow> bool" where
  "log_bounded j \<longleftrightarrow>
     length (j_log j) \<le> maxJobLogBytes + (if j_log_truncated j then length log_truncated_line else 0)"

lemma log_bounded_edit:
  assumes "job_edit op = Some (e, i, f)" "f j = Some j'" "log_bounded j"
  shows "log_bounded j'"
proof (cases op)
  case (JChange e' i' c)
  then show ?thesis using assms by (cases c) (auto simp: log_bounded_def)
next
  case (JFinish e' i' err)
  then show ?thesis using assms by (cases err) (auto simp: log_bounded_def)
qed (use assms in \<open>auto simp: log_bounded_def Let_def split: if_splits\<close>)

lemma log_bounded_step:
  assumes "\<forall>i j. js_jobs js i = Some j \<longrightarrow> log_bounded j"
  shows "\<forall>i j. js_jobs (job_step op js) i = Some j \<longrightarrow> log_bounded j"
proof (cases "job_edit op")
  case None
  then obtain e rnd st kind actor sha service h where op: "op = JCreate e rnd st kind actor sha service h"
    using job_edit_None by blast
  obtain js' r where c: "create_job e rnd st kind actor sha service h js = (js', r)" by force
  have "r = Some j \<Longrightarrow> log_bounded j" for j
    using create_job_jobs[of e rnd st kind actor sha service h js js' j] c by (simp add: log_bounded_def)
  moreover have "js_jobs js' i = Some j \<Longrightarrow> js_jobs js i = Some j \<or> r = Some j" for i j
    using create_job_sub[OF c, of i j] by blast
  ultimately show ?thesis using assms by (simp add: op c) blast
next
  case (Some ed)
  obtain e i f where ed: "ed = (e, i, f)" by (cases ed)
  show ?thesis
    using assms log_bounded_edit[OF Some[unfolded ed]]
    by (auto simp: job_step_edit[OF Some[unfolded ed]] split: option.splits)
qed

text \<open>A job's log is bounded: whatever a job writes, in any run of the store from an empty one, no
  log is ever longer than the limit and the one line that says it was cut off.\<close>
theorem job_log_bounded:
  assumes "get_job (run_ops job_step ops \<lparr>js_jobs = Map.empty, js_disk = Map.empty\<rparr>) i = Some j"
  shows "length (j_log j) \<le> maxJobLogBytes + length log_truncated_line"
proof -
  let ?js = "run_ops job_step ops \<lparr>js_jobs = Map.empty, js_disk = Map.empty\<rparr>"
  have "\<forall>i j. js_jobs ?js i = Some j \<longrightarrow> log_bounded j"
    by (rule run_ops_invariant[where P = "\<lambda>js. \<forall>i j. js_jobs js i = Some j \<longrightarrow> log_bounded j"])
       (auto simp: log_bounded_step)
  then have "log_bounded j" using assms by (simp add: get_job_def)
  then show ?thesis by (simp add: log_bounded_def split: if_splits)
qed

definition job_env :: "time \<Rightarrow> string list \<Rightarrow> env" where
  "job_env t ks = \<lparr>e_now = t * second, e_write = True, e_order = ks, e_removed = ks\<rparr>"

definition demo_id :: string where "demo_id = ''j-1700000000-0000002a''"

lemma demo_id_valid: "valid_job_id demo_id"
  by (simp add: valid_job_id_def demo_id_def is_hex_def is_digit_def in_range_def)

lemma demo_new_job_id: "new_job_id (1700000000 * second) [0, 0, 0, 42] = demo_id"
  by (simp add: new_job_id_def dec_string.simps hex_string_def hex_char_def digit_char_def demo_id_def char_of_def bit_Suc_0_iff)

definition demo_job_ops :: "job_op list" where
  "demo_job_ops =
    [JCreate (job_env 1700000000 []) [0, 0, 0, 42] JobQueued ''apply'' ''ci'' ''beef'' [] [],
     JStart (job_env 1700000001 []) demo_id, JLogf (job_env 1700000002 []) demo_id ''done'']"

definition demo_jobs :: jobs where
  "demo_jobs = run_ops job_step demo_job_ops \<lparr>js_jobs = Map.empty, js_disk = Map.empty\<rparr>"

definition demo_job :: job where "demo_job = the (get_job demo_jobs demo_id)"

lemmas demo_job_defs = demo_jobs_def demo_job_ops_def job_env_def get_job_def create_job_def start_job_def
  logf_job_def update_job_def prune_jobs_def persist_job_def keepJobs_def Let_def

lemma demo_jobs_map: "js_jobs demo_jobs = [demo_id \<mapsto> demo_job]"
  by (simp add: demo_job_def demo_job_defs demo_new_job_id[simplified])

lemma demo_job: "get_job demo_jobs demo_id = Some demo_job"
  by (simp add: demo_jobs_map get_job_def)

lemma demo_job_running: "j_status demo_job = JobRunning \<and> j_id demo_job = demo_id"
  by (simp add: demo_job_def demo_job_defs demo_new_job_id[simplified])

theorem job_log_bounded_witness: "length (j_log demo_job) \<le> maxJobLogBytes + length log_truncated_line"
  by (rule job_log_bounded[where ops = demo_job_ops and i = demo_id])
     (use demo_job in \<open>simp add: demo_jobs_def\<close>)

text \<open>A new job's id is always one the daemon would load again after a restart: the file name built
  from it matches the pattern every other reader of the store insists on, until the year 33658.\<close>
theorem new_job_id_valid:
  assumes "100000000 * second \<le> now" "now < 1000000000000 * second" "length rnd = 4" "list_all (\<lambda>b. b < 256) rnd"
  shows "valid_job_id (new_job_id now rnd)"
proof -
  let ?d = "dec_string (nat (now div second))"
  have d: "list_all is_digit ?d" by (rule dec_string_digits)
  then have no: "CHR ''-'' \<notin> set ?d"
    by (auto simp: list_all_iff is_digit_def in_range_def)
  have "nat (now div second) < 10 ^ 12" "\<not> nat (now div second) < 10 ^ 8"
    using assms(1,2) by auto
  then have "length ?d \<le> 12" "\<not> length ?d \<le> 8"
    by (simp_all only: dec_string_length zero_less_numeral not_False_eq_True)
  moreover have "list_all is_hex (hex_string rnd) \<and> length (hex_string rnd) = 8"
    using hex_string_hex[OF assms(4)] assms(3) by simp
  ultimately show ?thesis
    using d cut_append[OF no, of "hex_string rnd"] by (simp add: valid_job_id_def new_job_id_def)
qed

theorem new_job_id_valid_witness: "valid_job_id demo_id"
  using new_job_id_valid[of "1700000000 * second" "[0, 0, 0, 42]"] demo_new_job_id by simp

text \<open>Recording a job never loses one that has not ended, nor the new one; an ended job is dropped
  only when 200 other jobs at least as new are kept.\<close>
theorem create_job_retention:
  assumes "jobs_wf (js_jobs js)" "create_job e rnd st kind actor sha service h js = (js', Some new)"
    and "get_job js (j_id new) = None" "get_job js i = Some j"
    and "map_order ((js_jobs js)(j_id new \<mapsto> new)) (e_order e)"
  shows "(job_pending j \<longrightarrow> get_job js' i = Some j) \<and> (job_pending new \<longrightarrow> get_job js' (j_id new) = Some new)
    \<and> (get_job js' i = Some j \<or>
       (\<exists>newer. distinct newer \<and> length newer = keepJobs \<and> i \<notin> set newer
          \<and> (\<forall>i' \<in> set newer. \<exists>j'. get_job js' i' = Some j' \<and> j_created j \<le> j_created j')))"
proof -
  let ?m = "(js_jobs js)(j_id new \<mapsto> new)"
  have js': "js_jobs js' = pruned_jobs (e_order e) ?m"
    using create_job_jobs[OF assms(2)] by (simp add: js_jobs_prune)
  have wf: "jobs_wf ?m" using assms(1) by auto
  have j: "?m i = Some j" using assms(3,4) by (auto simp: get_job_def)
  have new: "?m (j_id new) = Some new" by simp
  note pend = job_retention.prune_protected[OF wf assms(5)]
  have "get_job js' i = Some j \<or> get_job js' i = None"
    using job_retention.prune_sub[of "e_order e" ?m i] j by (cases "get_job js' i") (auto simp: get_job_def js')
  moreover have "get_job js' i = None \<Longrightarrow> \<exists>newer. distinct newer \<and> length newer = keepJobs \<and> i \<notin> set newer
      \<and> (\<forall>i' \<in> set newer. \<exists>j'. get_job js' i' = Some j' \<and> j_created j \<le> j_created j')"
    using job_retention.prune_dropped[OF wf assms(5) j] by (fastforce simp: get_job_def js')
  ultimately show ?thesis
    using pend[OF j] pend[OF new] by (simp add: get_job_def js') blast
qed

theorem create_job_retention_witness:
  "\<exists>js' new. create_job (job_env 1700000003 [new_job_id (1700000003 * second) [0, 0, 0, 1], demo_id]) [0, 0, 0, 1]
        JobQueued ''deploy'' ''bob'' [] [] [] demo_jobs = (js', Some new)
     \<and> get_job js' demo_id = Some demo_job"
proof -
  let ?i = "new_job_id (1700000003 * second) [0, 0, 0, 1]"
  let ?e = "job_env 1700000003 [?i, demo_id]"
  have ne: "?i \<noteq> demo_id"
    by (simp add: new_job_id_def dec_string.simps hex_string_def hex_char_def digit_char_def demo_id_def char_of_def bit_Suc_0_iff)
  obtain js' new where c: "create_job ?e [0, 0, 0, 1] JobQueued ''deploy'' ''bob'' [] [] [] demo_jobs = (js', Some new)"
    by (simp add: create_job_def job_env_def Let_def)
  have id: "j_id new = ?i" using create_job_jobs[OF c] by (simp add: job_env_def)
  have "get_job js' demo_id = Some demo_job"
  proof (rule create_job_retention[OF _ c, of demo_id demo_job, THEN conjunct1, rule_format])
    show "jobs_wf (js_jobs demo_jobs)" using demo_job_running by (simp add: demo_jobs_map jobs_wf_def)
    show "get_job demo_jobs (j_id new) = None" by (simp add: get_job_def demo_jobs_map id ne[simplified])
    show "get_job demo_jobs demo_id = Some demo_job" by (rule demo_job)
    show "map_order ((js_jobs demo_jobs)(j_id new \<mapsto> new)) (e_order ?e)"
      using ne by (simp add: map_order_def demo_jobs_map id job_env_def insert_commute)
    show "job_pending demo_job" using demo_job_running by (simp add: job_pending_def)
  qed
  then show ?thesis using c by blast
qed

subsection \<open>A restart of the daemon\<close>

fun job_op_env :: "job_op \<Rightarrow> env" where
  "job_op_env (JCreate e _ _ _ _ _ _ _) = e"
| "job_op_env (JStart e _) = e"
| "job_op_env (JChange e _ _) = e"
| "job_op_env (JLogf e _ _) = e"
| "job_op_env (JInterrupt e _ _) = e"
| "job_op_env (JFinish e _ _) = e"

fun creates_valid_id :: "job_op \<Rightarrow> bool" where
  "creates_valid_id (JCreate e rnd _ _ _ _ _ _) = valid_job_id (new_job_id (e_now e) rnd)"
| "creates_valid_id _ = True"

definition durable_job_op :: "job_op \<Rightarrow> bool" where
  "durable_job_op op \<longleftrightarrow> e_write (job_op_env op) \<and> set (e_order (job_op_env op)) \<subseteq> set (e_removed (job_op_env op))
     \<and> creates_valid_id op"

definition jobs_sync :: "jobs \<Rightarrow> bool" where
  "jobs_sync js \<longleftrightarrow> jobs_wf (js_jobs js) \<and> js_disk js = js_jobs js \<and> (\<forall>i \<in> dom (js_jobs js). valid_job_id i)"

lemma jobs_sync_upd:
  assumes "jobs_sync js" "valid_job_id i" "j_id j = i"
  shows "jobs_sync (persist_job True j (js\<lparr>js_jobs := (js_jobs js)(i \<mapsto> j)\<rparr>))"
  using assms by (auto simp: jobs_sync_def)

lemma jobs_sync_prune:
  assumes "jobs_sync js" "set (e_order e) \<subseteq> set (e_removed e)"
  shows "jobs_sync (prune_jobs e js)"
proof (cases "length (e_order e) \<le> keepJobs")
  case True
  then show ?thesis using assms by (simp add: prune_jobs_def)
next
  case False
  let ?all = "newest_first (\<lambda>(k, j). j_created j) (map_values (js_jobs js) (e_order e))"
  let ?victims = "filter (\<lambda>(k, j). \<not> (j_status j = JobRunning \<or> j_status j = JobQueued)) (drop keepJobs ?all)"
  let ?is = "map (\<lambda>(k, j). j_id j) ?victims"
  have "i \<in> set (e_removed e)" if "i \<in> set ?is" for i
  proof -
    have "i \<in> (\<lambda>(k, j). j_id j) ` set ?victims" using that by (simp only: set_map)
    then obtain kj where kj: "kj \<in> set ?victims" "i = j_id (snd kj)" by (auto simp: split_beta)
    then have "kj \<in> set ?all" by (auto dest: in_set_dropD)
    then have "fst kj \<in> set (e_order e)" "js_jobs js (fst kj) = Some (snd kj)"
      by (simp_all add: set_map_values split_beta)
    then show ?thesis
      using assms kj(2) jobs_wfD[of "js_jobs js" "fst kj" "snd kj"] by (auto simp: jobs_sync_def)
  qed
  then have "filter (\<lambda>i. i \<in> set (e_removed e)) ?is = ?is" by (simp add: filter_id_conv)
  then show ?thesis
    using False assms(1) by (auto simp: prune_jobs_def Let_def jobs_sync_def dom_delete_keys jobs_wf_def delete_keys_Some)
qed

lemma jobs_sync_step:
  assumes "jobs_sync js" "durable_job_op op"
  shows "jobs_sync (job_step op js)"
proof (cases "job_edit op")
  case None
  then obtain e rnd st kind actor sha service h where op: "op = JCreate e rnd st kind actor sha service h"
    using job_edit_None by blast
  obtain js' r where c: "create_job e rnd st kind actor sha service h js = (js', r)" by force
  have "r \<noteq> None" using assms(2) c by (auto simp: durable_job_op_def op create_job_def Let_def)
  then obtain j where j: "r = Some j" by blast
  show ?thesis
    using create_job_jobs[OF c[unfolded j]] assms(2) jobs_sync_upd[OF assms(1), of "j_id j" j] jobs_sync_prune
    by (auto simp: op c durable_job_op_def)
next
  case (Some ed)
  obtain e i f where ed: "ed = (e, i, f)" by (cases ed)
  have w: "e_write e" using Some assms(2) by (cases op) (auto simp: ed durable_job_op_def)
  show ?thesis
  proof (cases "js_jobs js i")
    case (Some j)
    then have "valid_job_id i" "j_id j = i"
      using assms(1) by (auto simp: jobs_sync_def dest: jobs_wfD)
    then show ?thesis
      using Some w assms(1) job_edit_id[OF \<open>job_edit op = Some ed\<close>[unfolded ed]]
      by (auto simp: job_step_edit[OF \<open>job_edit op = Some ed\<close>[unfolded ed]]
            simp del: jobs_persist disk_persist split: option.splits intro!: jobs_sync_upd)
  qed (use assms(1) in \<open>simp add: job_step_edit[OF Some[unfolded ed]]\<close>)
qed

lemma reopened_not_pending [simp]: "\<not> job_pending (reopened_job now j)"
  by (auto simp: reopened_job_def job_pending_def split: job_status.splits)

text \<open>C20: A restart tells the truth about every job. After any run whose disk writes succeeded, a daemon that opens the same
  directory shows no job that was not there, and every job it shows is as it was, except that one that was running or queued is
  now interrupted, with the reason; none is pending. A job is no longer shown only if 200 other jobs at least as new are.\<close>
theorem jobs_survive_restart:
  assumes "\<forall>op \<in> set ops. durable_job_op op"
    and "js = run_ops job_step ops \<lparr>js_jobs = Map.empty, js_disk = Map.empty\<rparr>"
    and "open_jobs True e clk written (js_disk js) = Some js'" "map_order (js_jobs js) (e_order e)"
  shows "(\<forall>j'. get_job js' i = Some j' \<longrightarrow> (\<exists>j. get_job js i = Some j \<and> j' = reopened_job (clk i) j) \<and> \<not> job_pending j')
    \<and> (\<forall>j. get_job js i = Some j \<longrightarrow> get_job js' i = Some (reopened_job (clk i) j)
        \<or> (\<exists>newer. distinct newer \<and> length newer = keepJobs \<and> i \<notin> set newer
             \<and> (\<forall>i' \<in> set newer. \<exists>j'. get_job js' i' = Some j' \<and> j_created j \<le> j_created j')))"
proof -
  have "jobs_sync js"
    unfolding assms(2)
  proof (rule run_ops_invariant[where P = jobs_sync])
    show "jobs_sync (job_step op s)" if "jobs_sync s" "op \<in> set ops" for op s
      using that assms(1) by (simp add: jobs_sync_step)
  qed (simp add: jobs_sync_def jobs_wf_def)
  then have d: "js_disk js = js_jobs js" and v: "\<And>i j. js_jobs js i = Some j \<Longrightarrow> valid_job_id i \<and> j_id j = i"
    by (auto simp: jobs_sync_def dest: jobs_wfD)
  define m where "m = (\<lambda>i. map_option (reopened_job (clk i)) (js_jobs js i))"
  have "(\<lambda>name. case js_jobs js name of None \<Rightarrow> None
      | Some j \<Rightarrow> if valid_job_id name \<and> j_id j = name then Some (reopened_job (clk name) j) else None) = m"
    using v by (auto simp: m_def fun_eq_iff split: option.split)
  then have js': "js_jobs js' = pruned_jobs (e_order e) m"
    using assms(3) by (auto simp: open_jobs_def Let_def d js_jobs_prune)
  have "j_id (reopened_job t j) = j_id j" for t j by (cases "j_status j") (simp_all add: reopened_job_def)
  then have wf: "jobs_wf m" using v by (auto simp: jobs_wf_def m_def)
  have ord: "map_order m (e_order e)" using assms(4) by (auto simp: map_order_def m_def dom_def)
  have created: "j_created (reopened_job t j) = j_created j" for t j by (simp add: reopened_job_def split: job_status.split)
  have sub: "\<exists>j. js_jobs js i = Some j \<and> j' = reopened_job (clk i) j" if "js_jobs js' i = Some j'" for j'
    using job_retention.prune_sub[OF that[unfolded js']] by (auto simp: m_def)
  have "js_jobs js' i = Some (reopened_job (clk i) j) \<or> (\<exists>newer. distinct newer \<and> length newer = keepJobs \<and> i \<notin> set newer
      \<and> (\<forall>i' \<in> set newer. \<exists>j'. js_jobs js' i' = Some j' \<and> j_created j \<le> j_created j'))" if j: "js_jobs js i = Some j" for j
  proof (cases "js_jobs js' i")
    case None
    have "m i = Some (reopened_job (clk i) j)" using j by (simp add: m_def)
    from job_retention.prune_dropped[OF wf ord this None[unfolded js']] show ?thesis by (fastforce simp: js' created)
  next
    case (Some j')
    then show ?thesis using sub[OF Some] j by simp
  qed
  then show ?thesis using sub by (auto simp: get_job_def)
qed

theorem jobs_survive_restart_witness:
  "get_job (the (open_jobs True (job_env 1700000009 [demo_id]) (\<lambda>_. 5) (\<lambda>_. True) (js_disk demo_jobs))) demo_id
     = Some (reopened_job 5 demo_job)"
proof -
  define js' where "js' = the (open_jobs True (job_env 1700000009 [demo_id]) (\<lambda>_. 5) (\<lambda>_. True) (js_disk demo_jobs))"
  have op: "open_jobs True (job_env 1700000009 [demo_id]) (\<lambda>_. 5) (\<lambda>_. True) (js_disk demo_jobs) = Some js'"
    by (simp add: js'_def open_jobs_def Let_def)
  have dur: "\<forall>op \<in> set demo_job_ops. durable_job_op op"
    by (simp add: demo_job_ops_def durable_job_op_def job_env_def demo_new_job_id[simplified] demo_id_valid)
  have ord: "map_order (js_jobs demo_jobs) (e_order (job_env 1700000009 [demo_id]))"
    by (simp add: map_order_def demo_jobs_map job_env_def)
  note shown = jobs_survive_restart[OF dur demo_jobs_def op ord]
  have one: "i = demo_id" if "get_job js' i = Some j'" for i j'
    using shown[of i, THEN conjunct1] that by (auto simp: get_job_def demo_jobs_map split: if_splits)
  have "\<not> (\<exists>newer. distinct newer \<and> length newer = keepJobs \<and> demo_id \<notin> set newer
      \<and> (\<forall>i' \<in> set newer. \<exists>j'. get_job js' i' = Some j' \<and> j_created demo_job \<le> j_created j'))"
  proof
    assume "\<exists>newer. distinct newer \<and> length newer = keepJobs \<and> demo_id \<notin> set newer
      \<and> (\<forall>i' \<in> set newer. \<exists>j'. get_job js' i' = Some j' \<and> j_created demo_job \<le> j_created j')"
    then obtain newer i' where "length newer = keepJobs" "demo_id \<notin> set newer" "\<forall>i' \<in> set newer. \<exists>j'. get_job js' i' = Some j'"
      "newer = i' # tl newer" by (metis keepJobs_def length_0_conv list.collapse zero_neq_numeral)
    then show False using one by (metis list.set_intros(1))
  qed
  moreover have "get_job js' demo_id = Some (reopened_job 5 demo_job) \<or> (\<exists>newer. distinct newer \<and> length newer = keepJobs \<and> demo_id \<notin> set newer
      \<and> (\<forall>i' \<in> set newer. \<exists>j'. get_job js' i' = Some j' \<and> j_created demo_job \<le> j_created j'))"
    using shown[of demo_id, THEN conjunct2] demo_job by blast
  ultimately show ?thesis unfolding js'_def by blast
qed

end
