(* ===== verification/Plans.thy ===== *)
theory Plans
  imports Go_Strings
begin

text \<open>
  The plan store and its approvals (\<open>pkg/server/plans.go\<close>): a plan the daemon made is recorded under
  its hash; an admin approves it for a limited time; one apply job consumes the approval. The store is
  in memory (\<open>ps_byid\<close>) and on disk (\<open>ps_disk\<close>: the decoded content of each \<open><hash>.json\<close>).
  Every operation is one atomic step (it holds the store's mutex) and returns the new store and the
  error the Go method returns.
\<close>

subsection \<open>Records\<close>

datatype plan_state =
  PlanNothing | PlanBlocked | PlanPending | PlanApproved | PlanExpired | PlanUsed | PlanStale

record approval =
  ap_by :: string
  ap_at :: time
  ap_expires :: time

record plan_use =
  pu_job :: string
  pu_at :: time

record plan_record =
  pr_hash :: string
  pr_created :: time
  pr_last_seen :: time
  pr_actor :: string
  pr_sha :: string
  pr_service :: string
  pr_exit :: int
  pr_counts :: "(string \<times> nat) list"
  pr_text :: string
  pr_approval :: "approval option"
  pr_used :: "plan_use option"

definition plan_state_of :: "plan_record \<Rightarrow> time \<Rightarrow> plan_state" where
  "plan_state_of p now =
     (if pr_exit p = 1 then PlanBlocked
      else if pr_exit p = 0 then PlanNothing
      else if pr_used p \<noteq> None then PlanUsed
      else case pr_approval p of
          None \<Rightarrow> PlanPending
        | Some a \<Rightarrow> if \<not> now < ap_expires a then PlanExpired else PlanApproved)"

datatype plan_error =
  ErrNoSuchPlan | ErrNotApprovable | ErrNotApproved | ErrApprovalUsed | ErrApprovalExpiry | ErrPlanWrite

definition keepPlans :: nat where "keepPlans = 200"

record plans =
  ps_byid :: "string \<rightharpoonup> plan_record"
  ps_disk :: "string \<rightharpoonup> plan_record"
  ps_ttl :: time

subsection \<open>Operations\<close>

text \<open>\<open>persist\<close>: write the record's file, or leave the disk as it was and report the error.\<close>

definition persist_plan :: "bool \<Rightarrow> plan_record \<Rightarrow> plans \<Rightarrow> plans \<times> plan_error option" where
  "persist_plan ok rec ps =
     (if ok then (ps\<lparr>ps_disk := (ps_disk ps)(pr_hash rec \<mapsto> rec)\<rparr>, None) else (ps, Some ErrPlanWrite))"

definition prune_plans :: "env \<Rightarrow> plans \<Rightarrow> plans" where
  "prune_plans e ps =
     (if length (e_order e) \<le> keepPlans then ps
      else let all = newest_first (\<lambda>(k, rec). pr_last_seen rec) (map_values (ps_byid ps) (e_order e));
               victims = filter (\<lambda>(k, rec). plan_state_of rec (e_now e) \<noteq> PlanApproved) (drop keepPlans all);
               hashes = map (\<lambda>(k, rec). pr_hash rec) victims
           in ps\<lparr>ps_byid := delete_keys (ps_byid ps) hashes,
                 ps_disk := delete_keys (ps_disk ps) (filter (\<lambda>h. h \<in> set (e_removed e)) hashes)\<rparr>)"

text \<open>\<open>OpenPlans\<close>: a file is loaded when its name is a plan hash and the record in it says the same
  hash. \<open>dir_ok\<close>: the directory could be made, protected and read.\<close>

definition open_plans :: "bool \<Rightarrow> env \<Rightarrow> (string \<rightharpoonup> plan_record) \<Rightarrow> time \<Rightarrow> plans option" where
  "open_plans dir_ok e disk ttl =
     (if \<not> dir_ok then None
      else Some (prune_plans e
        \<lparr>ps_byid = (\<lambda>name. case disk name of None \<Rightarrow> None
                    | Some rec \<Rightarrow> if hash_ok name \<and> pr_hash rec = name then Some rec else None),
         ps_disk = disk, ps_ttl = (if ttl \<le> 0 then hour else ttl)\<rparr>))"

record plan_seen =
  sn_hash :: string
  sn_actor :: string
  sn_sha :: string
  sn_service :: string
  sn_exit :: int
  sn_counts :: "(string \<times> nat) list"
  sn_text :: string

definition fresh_plan :: "string \<Rightarrow> time \<Rightarrow> plan_record" where
  "fresh_plan hash now =
     \<lparr>pr_hash = hash, pr_created = now, pr_last_seen = 0, pr_actor = [], pr_sha = [], pr_service = [],
      pr_exit = 0, pr_counts = [], pr_text = [], pr_approval = None, pr_used = None\<rparr>"

definition seen_plan :: "time \<Rightarrow> plan_seen \<Rightarrow> plan_record \<Rightarrow> plan_record" where
  "seen_plan now s rec0 =
     (let rec = (if pr_used rec0 \<noteq> None
                 then rec0\<lparr>pr_used := None, pr_approval := None, pr_created := now\<rparr> else rec0)
      in rec\<lparr>pr_last_seen := now, pr_actor := sn_actor s, pr_sha := sn_sha s, pr_service := sn_service s,
             pr_exit := sn_exit s, pr_counts := sn_counts s, pr_text := sn_text s\<rparr>)"

definition record_plan :: "env \<Rightarrow> plan_seen \<Rightarrow> plans \<Rightarrow> plans \<times> plan_record" where
  "record_plan e s ps =
     (let rec0 = (case ps_byid ps (sn_hash s) of None \<Rightarrow> fresh_plan (sn_hash s) (e_now e) | Some r \<Rightarrow> r);
          rec = seen_plan (e_now e) s rec0;
          ps1 = ps\<lparr>ps_byid := (ps_byid ps)(sn_hash s \<mapsto> rec)\<rparr>;
          (ps2, _) = persist_plan (e_write e) rec ps1
      in (prune_plans e ps2, rec))"

text \<open>\<open>set_plan\<close> is the change through the pointer \<open>p.byID[hash]\<close>, then \<open>persist\<close>: the record in memory
  has changed whatever the write's outcome.\<close>

definition set_plan :: "env \<Rightarrow> string \<Rightarrow> plan_record \<Rightarrow> plans \<Rightarrow> plans \<times> plan_error option" where
  "set_plan e hash rec ps = persist_plan (e_write e) rec (ps\<lparr>ps_byid := (ps_byid ps)(hash \<mapsto> rec)\<rparr>)"

definition approve_plan :: "env \<Rightarrow> string \<Rightarrow> string \<Rightarrow> plans \<Rightarrow> plans \<times> plan_error option" where
  "approve_plan e hash by ps =
     (case ps_byid ps hash of
        None \<Rightarrow> (ps, Some ErrNoSuchPlan)
      | Some rec \<Rightarrow>
          if pr_exit rec \<noteq> 2 then (ps, Some ErrNotApprovable)
          else if pr_used rec \<noteq> None then (ps, Some ErrApprovalUsed)
          else set_plan e hash (rec\<lparr>pr_approval :=
                 Some \<lparr>ap_by = by, ap_at = e_now e, ap_expires = e_now e + ps_ttl ps\<rparr>\<rparr>) ps)"

definition revoke_plan :: "env \<Rightarrow> string \<Rightarrow> plans \<Rightarrow> plans \<times> plan_error option" where
  "revoke_plan e hash ps =
     (case ps_byid ps hash of
        None \<Rightarrow> (ps, Some ErrNoSuchPlan)
      | Some rec \<Rightarrow>
          if pr_used rec \<noteq> None then (ps, Some ErrApprovalUsed)
          else set_plan e hash (rec\<lparr>pr_approval := None\<rparr>) ps)"

definition check_plan :: "time \<Rightarrow> plans \<Rightarrow> string \<Rightarrow> plan_error option" where
  "check_plan now ps hash =
     (case ps_byid ps hash of
        None \<Rightarrow> Some ErrNotApproved
      | Some rec \<Rightarrow>
         (case pr_approval rec of
            None \<Rightarrow> Some ErrNotApproved
          | Some a \<Rightarrow>
              if pr_used rec \<noteq> None then Some ErrApprovalUsed
              else if \<not> now < ap_expires a then Some ErrApprovalExpiry
              else None))"

definition consume_plan :: "env \<Rightarrow> string \<Rightarrow> string \<Rightarrow> plans \<Rightarrow> plans \<times> plan_error option" where
  "consume_plan e hash job ps =
     (case check_plan (e_now e) ps hash of
        Some err \<Rightarrow> (ps, Some err)
      | None \<Rightarrow>
         (case ps_byid ps hash of
            None \<Rightarrow> (ps, Some ErrNotApproved)
          | Some rec \<Rightarrow> set_plan e hash (rec\<lparr>pr_used := Some \<lparr>pu_job = job, pu_at = e_now e\<rparr>\<rparr>) ps))"

definition use_for_deploy :: "env \<Rightarrow> string \<Rightarrow> string \<Rightarrow> string \<Rightarrow> plans \<Rightarrow> plans \<times> plan_error option" where
  "use_for_deploy e hash by job ps =
     (case ps_byid ps hash of
        None \<Rightarrow> (ps, Some ErrNoSuchPlan)
      | Some rec \<Rightarrow>
          set_plan e hash (rec\<lparr>pr_approval := Some \<lparr>ap_by = by, ap_at = e_now e, ap_expires = e_now e\<rparr>,
                               pr_used := Some \<lparr>pu_job = job, pu_at = e_now e\<rparr>\<rparr>) ps)"

definition get_plan :: "plans \<Rightarrow> string \<Rightarrow> plan_record option" where
  "get_plan ps hash = ps_byid ps hash"

definition list_plans :: "env \<Rightarrow> plans \<Rightarrow> plan_record list" where
  "list_plans e ps =
     newest_first pr_last_seen (map (\<lambda>(k, rec). rec\<lparr>pr_text := []\<rparr>) (map_values (ps_byid ps) (e_order e)))"

datatype plan_op =
    OpRecord env plan_seen
  | OpApprove env string string
  | OpRevoke env string
  | OpConsume env string string
  | OpDeploy env string string string

fun plan_step :: "plan_op \<Rightarrow> plans \<Rightarrow> plans" where
  "plan_step (OpRecord e s) ps = fst (record_plan e s ps)"
| "plan_step (OpApprove e h by) ps = fst (approve_plan e h by ps)"
| "plan_step (OpRevoke e h) ps = fst (revoke_plan e h ps)"
| "plan_step (OpConsume e h job) ps = fst (consume_plan e h job ps)"
| "plan_step (OpDeploy e h by job) ps = fst (use_for_deploy e h by job ps)"

subsection \<open>What the operations leave alone\<close>

definition plans_wf :: "(string \<rightharpoonup> plan_record) \<Rightarrow> bool" where
  "plans_wf m \<longleftrightarrow> (\<forall>h rec. m h = Some rec \<longrightarrow> pr_hash rec = h)"

lemma plans_wfD: "plans_wf m \<Longrightarrow> m h = Some rec \<Longrightarrow> pr_hash rec = h"
  by (simp add: plans_wf_def)

lemma plans_wf_upd [intro]: "plans_wf m \<Longrightarrow> pr_hash rec = h \<Longrightarrow> plans_wf (m(h \<mapsto> rec))"
  by (simp add: plans_wf_def)

lemma plans_wf_delete [intro]: "plans_wf m \<Longrightarrow> plans_wf (delete_keys m ks)"
  by (auto simp: plans_wf_def delete_keys_Some)

lemma byid_persist [frame]: "ps_byid (fst (persist_plan ok rec ps)) = ps_byid ps"
  by (simp add: persist_plan_def)

lemma ttl_persist [frame]: "ps_ttl (fst (persist_plan ok rec ps)) = ps_ttl ps"
  by (simp add: persist_plan_def)

lemma byid_set_plan [simp]: "ps_byid (fst (set_plan e h rec ps)) = (ps_byid ps)(h \<mapsto> rec)"
  by (simp add: set_plan_def frame)

lemma snd_set_plan [simp]: "snd (set_plan e h rec ps) = (if e_write e then None else Some ErrPlanWrite)"
  by (simp add: set_plan_def persist_plan_def)

lemma ttl_prune [frame]: "ps_ttl (prune_plans e ps) = ps_ttl ps"
  by (simp add: prune_plans_def Let_def)

lemma byid_prune_sub: "ps_byid (prune_plans e ps) k = Some r \<Longrightarrow> ps_byid ps k = Some r"
  by (auto simp: prune_plans_def Let_def delete_keys_Some split: if_splits)

lemma byid_record_plan:
  "ps_byid (fst (record_plan e s ps)) =
     ps_byid (prune_plans e (fst (persist_plan (e_write e) (snd (record_plan e s ps))
        (ps\<lparr>ps_byid := (ps_byid ps)(sn_hash s \<mapsto> snd (record_plan e s ps))\<rparr>))))"
  by (simp add: record_plan_def Let_def split_beta)

lemma record_plan_sub:
  "ps_byid (fst (record_plan e s ps)) k = Some r \<Longrightarrow>
     (if k = sn_hash s then r = snd (record_plan e s ps) else ps_byid ps k = Some r)"
  using byid_prune_sub[of e _ k r]
  by (fastforce simp: byid_record_plan frame split: if_splits)

lemma seen_plan_fields [simp]:
  "pr_hash (seen_plan now s rec) = pr_hash rec"
  "pr_used (seen_plan now s rec) = None"
  "pr_approval (seen_plan now s rec) = (if pr_used rec = None then pr_approval rec else None)"
  "pr_exit (seen_plan now s rec) = sn_exit s"
  "pr_last_seen (seen_plan now s rec) = now"
  by (auto simp: seen_plan_def Let_def)

lemma fresh_plan_fields [simp]:
  "pr_hash (fresh_plan h now) = h" "pr_used (fresh_plan h now) = None" "pr_approval (fresh_plan h now) = None"
  by (simp_all add: fresh_plan_def)

lemma recorded_plan:
  "snd (record_plan e s ps) = seen_plan (e_now e) s
     (case ps_byid ps (sn_hash s) of None \<Rightarrow> fresh_plan (sn_hash s) (e_now e) | Some r \<Rightarrow> r)"
  by (simp add: record_plan_def Let_def split_beta)

text \<open>Every record stays filed under its own hash.\<close>

lemma prune_plans_wf [inv_intros]: "plans_wf (ps_byid ps) \<Longrightarrow> plans_wf (ps_byid (prune_plans e ps))"
  by (meson byid_prune_sub plans_wf_def)

lemma record_plan_wf [inv_intros]: "plans_wf (ps_byid ps) \<Longrightarrow> plans_wf (ps_byid (fst (record_plan e s ps)))"
  by (auto simp: byid_record_plan frame recorded_plan plans_wfD split: option.splits
        intro!: plans_wf_upd prune_plans_wf)

lemma plan_step_wf [inv_intros]: "plans_wf (ps_byid ps) \<Longrightarrow> plans_wf (ps_byid (plan_step op ps))"
  by (cases op)
     (auto simp: approve_plan_def revoke_plan_def consume_plan_def use_for_deploy_def plans_wfD
           intro: record_plan_wf split: option.splits)

subsection \<open>Retention\<close>

definition pruned_byid :: "time \<Rightarrow> string list \<Rightarrow> (string \<rightharpoonup> plan_record) \<Rightarrow> (string \<rightharpoonup> plan_record)" where
  "pruned_byid now ks m =
     ps_byid (prune_plans \<lparr>e_now = now, e_write = True, e_order = ks, e_removed = []\<rparr>
       \<lparr>ps_byid = m, ps_disk = Map.empty, ps_ttl = hour\<rparr>)"

lemma byid_prune_plans: "ps_byid (prune_plans e ps) = pruned_byid (e_now e) (e_order e) (ps_byid ps)"
  by (simp add: pruned_byid_def prune_plans_def Let_def)

lemma pruned_byid_prune_map:
  assumes "plans_wf m"
  shows "pruned_byid now ks m = prune_map pr_last_seen (\<lambda>r. plan_state_of r now = PlanApproved) keepPlans ks m"
proof (cases "length ks \<le> keepPlans")
  case True
  then have "length (map_values m ks) \<le> keepPlans"
    by (metis (no_types, lifting) fst_map_values le_trans length_filter_le length_map)
  then show ?thesis
    using True by (simp add: pruned_byid_def prune_plans_def prune_map_def prune_victims_def)
next
  case False
  let ?v = "prune_victims pr_last_seen (\<lambda>r. plan_state_of r now = PlanApproved) keepPlans (map_values m ks)"
  have eq: "map (\<lambda>(k, r). pr_hash r) ?v = map fst ?v"
    using assms by (intro map_cong) (auto dest!: prune_victims_in plans_wfD)
  have "pruned_byid now ks m = delete_keys m (map (\<lambda>(k, r). pr_hash r) ?v)"
    using False by (simp add: pruned_byid_def prune_plans_def prune_victims_def Let_def)
  then show ?thesis by (simp only: eq prune_map_def)
qed

interpretation plan_retention:
  retention plans_wf pr_last_seen "\<lambda>r. plan_state_of r now = PlanApproved" keepPlans "pruned_byid now"
  for now
proof (unfold_locales, goal_cases)
  case 1
  show ?case by (simp add: keepPlans_def)
next
  case (2 ks m k v)
  then show ?case by (auto simp: pruned_byid_def dest: byid_prune_sub)
next
  case (3 m ks k v)
  show ?case
  proof (cases "pruned_byid now ks m k")
    case None
    then show ?thesis
      using 3 prune_map_None[of m k v] by (auto simp: pruned_byid_prune_map dest!: prune_victims_in)
  next
    case (Some v')
    then show ?thesis using 3 by (auto simp: pruned_byid_def dest: byid_prune_sub)
  qed
next
  case (4 m ks k v)
  then show ?case using prune_map_dropped[of m ks k v] by (simp add: pruned_byid_prune_map)
next
  case (5 m ks)
  then show ?case using prune_map_bound[of m ks] by (simp add: pruned_byid_prune_map)
qed

subsection \<open>An approval is used once\<close>

definition plan_live :: "plans \<Rightarrow> string \<Rightarrow> bool" where
  "plan_live ps h \<longleftrightarrow> (case ps_byid ps h of None \<Rightarrow> False | Some r \<Rightarrow> pr_approval r \<noteq> None \<and> pr_used r = None)"

fun applies_plan :: "string \<Rightarrow> plan_op \<Rightarrow> plans \<Rightarrow> bool" where
  "applies_plan h (OpConsume e h' job) ps = (h' = h \<and> snd (consume_plan e h job ps) = None)"
| "applies_plan h _ ps = False"

text \<open>An approval is given when \<open>Approve\<close> answers without an error. One whose record cannot be written is answered
  with an error and in force all the same (\<open>plan_approve_failed_write\<close>): it is counted apart.\<close>

fun approves_plan :: "string \<Rightarrow> plan_op \<Rightarrow> plans \<Rightarrow> bool" where
  "approves_plan h (OpApprove e h' by) ps = (h' = h \<and> snd (approve_plan e h' by ps) = None)"
| "approves_plan h _ ps = False"

fun approves_unwritten :: "string \<Rightarrow> plan_op \<Rightarrow> plans \<Rightarrow> bool" where
  "approves_unwritten h (OpApprove e h' by) ps = (h' = h \<and> \<not> e_write e \<and> snd (approve_plan e h' by ps) = Some ErrPlanWrite)"
| "approves_unwritten h _ ps = False"

lemma check_plan_None: "check_plan now ps h = None \<longleftrightarrow>
    (\<exists>r a. ps_byid ps h = Some r \<and> pr_approval r = Some a \<and> pr_used r = None \<and> now < ap_expires a)"
  by (auto simp: check_plan_def split: option.splits)

lemma check_plan_live: "check_plan now ps h = None \<Longrightarrow> plan_live ps h"
  by (auto simp: check_plan_None plan_live_def)

lemma plan_live_prune: "plan_live (prune_plans e ps) h \<Longrightarrow> plan_live ps h"
  by (auto simp: plan_live_def dest: byid_prune_sub split: option.splits)

lemma plan_live_record: "plan_live (fst (record_plan e s ps)) h \<Longrightarrow> plan_live ps h"
  by (auto simp: plan_live_def recorded_plan dest!: record_plan_sub split: option.splits if_splits)

interpretation plan_grant: single_use plan_live plan_step applies_plan "\<lambda>h op ps. approves_plan h op ps \<or> approves_unwritten h op ps"
proof (unfold_locales, goal_cases)
  case (1 h op ps)
  then show ?case
    by (cases op) (auto simp: consume_plan_def check_plan_live split: option.splits)
next
  case (2 h op ps)
  then show ?case
    by (cases op) (auto simp: consume_plan_def plan_live_def split: option.splits)
next
  case (3 op ps h)
  show ?case
  proof (cases op)
    case (OpRecord e s)
    then show ?thesis using 3 plan_live_record by auto
  qed (use 3 in \<open>auto simp: approve_plan_def set_plan_def persist_plan_def revoke_plan_def consume_plan_def use_for_deploy_def plan_live_def
                     split: option.splits if_splits\<close>)
qed

subsection \<open>Properties\<close>

text \<open>An approval check passes for a plan with changes exactly when the record's state, as the
  API shows it, is "approved": the gate of an apply and what an admin sees never disagree.\<close>
theorem plan_check_iff_approved:
  assumes "get_plan ps h = Some r" "pr_exit r \<noteq> 0" "pr_exit r \<noteq> 1"
  shows "check_plan now ps h = None \<longleftrightarrow> plan_state_of r now = PlanApproved"
  using assms by (auto simp: get_plan_def check_plan_None plan_state_of_def split: option.splits)

definition demo_seen :: plan_seen where
  "demo_seen = \<lparr>sn_hash = replicate 64 CHR ''a'', sn_actor = ''ci'', sn_sha = ''beef'', sn_service = [],
     sn_exit = 2, sn_counts = [], sn_text = ''plan''\<rparr>"

definition demo_env :: "time \<Rightarrow> env" where
  "demo_env t = \<lparr>e_now = t, e_write = True, e_order = [sn_hash demo_seen], e_removed = [sn_hash demo_seen]\<rparr>"

definition demo_plans :: plans where
  "demo_plans = fst (approve_plan (demo_env 10) (sn_hash demo_seen) ''ann''
     (fst (record_plan (demo_env 5) demo_seen \<lparr>ps_byid = Map.empty, ps_disk = Map.empty, ps_ttl = hour\<rparr>)))"

lemmas demo_plan_defs = demo_plans_def demo_seen_def demo_env_def record_plan_def approve_plan_def set_plan_def
  persist_plan_def prune_plans_def seen_plan_def fresh_plan_def keepPlans_def get_plan_def Let_def

definition demo_record :: plan_record where
  "demo_record = the (get_plan demo_plans (sn_hash demo_seen))"

lemma demo_get: "get_plan demo_plans (sn_hash demo_seen) = Some demo_record"
  by (simp add: demo_record_def demo_plan_defs)

lemma demo_state: "plan_state_of demo_record 20 = PlanApproved" "pr_exit demo_record = 2"
  by (simp_all add: demo_record_def demo_plan_defs plan_state_of_def)

theorem plan_check_iff_approved_witness: "check_plan 20 demo_plans (sn_hash demo_seen) = None"
  using plan_check_iff_approved[OF demo_get, of 20] demo_state by simp

text \<open>C2: One approval, one apply. Over any run of the store (plans made, approvals given, withdrawn
  and used, deploys, in any order), the applies of a plan that got through never outnumber the calls of
  \<open>Approve\<close> for that plan that were answered without an error, and one more if an approval was there at
  the start. A refused approval counts for nothing; only one whose record could not be written to disk
  is in force although it was answered with an error, and such calls are counted apart.\<close>
theorem plan_applies_le_approvals:
  "count_ops plan_step (applies_plan h) ops ps
     \<le> count_ops plan_step (approves_plan h) ops ps + count_ops plan_step (approves_unwritten h) ops ps + (if plan_live ps h then 1 else 0)"
  using plan_grant.uses_le_grants[of h ops ps] count_ops_or[of plan_step "approves_plan h" "approves_unwritten h" ops ps] by linarith

fun plan_op_env :: "plan_op \<Rightarrow> env" where
  "plan_op_env (OpRecord e s) = e"
| "plan_op_env (OpApprove e h by) = e"
| "plan_op_env (OpRevoke e h) = e"
| "plan_op_env (OpConsume e h job) = e"
| "plan_op_env (OpDeploy e h by job) = e"

fun ends_approval :: "string \<Rightarrow> plan_op \<Rightarrow> bool" where
  "ends_approval h (OpRecord e s) = (sn_hash s = h \<and> sn_exit s \<noteq> 2)"
| "ends_approval h (OpApprove e h' by) = False"
| "ends_approval h (OpRevoke e h') = (h' = h)"
| "ends_approval h (OpConsume e h' job) = (h' = h)"
| "ends_approval h (OpDeploy e h' by job) = (h' = h)"

lemma plan_state_Approved: "plan_state_of r now = PlanApproved \<longleftrightarrow>
    pr_exit r \<noteq> 1 \<and> pr_exit r \<noteq> 0 \<and> pr_used r = None \<and> (\<exists>a. pr_approval r = Some a \<and> now < ap_expires a)"
  by (auto simp: plan_state_of_def split: option.splits)

lemma prune_keeps_approved:
  assumes "plans_wf (ps_byid ps)" "ps_byid ps h = Some r" "plan_state_of r (e_now e) = PlanApproved"
  shows "ps_byid (prune_plans e ps) h = Some r"
proof (cases "ps_byid (prune_plans e ps) h")
  case None
  then have "(h, r) \<in> set (prune_victims pr_last_seen (\<lambda>r. plan_state_of r (e_now e) = PlanApproved)
      keepPlans (map_values (ps_byid ps) (e_order e)))"
    using assms by (intro prune_map_None) (auto simp: byid_prune_plans pruned_byid_prune_map)
  then show ?thesis using assms by (auto dest: prune_victims_in)
next
  case (Some r')
  then show ?thesis using assms(2) byid_prune_sub[OF Some] by simp
qed

lemma record_keeps_approved:
  assumes "plans_wf (ps_byid ps)" "ps_byid ps h = Some r" "plan_state_of r (e_now e) = PlanApproved"
    and "sn_hash s = h \<Longrightarrow> sn_exit s = 2"
  shows "\<exists>r'. ps_byid (fst (record_plan e s ps)) h = Some r' \<and> plan_state_of r' (e_now e) = PlanApproved"
proof -
  let ?rec = "snd (record_plan e s ps)"
  let ?ps = "fst (persist_plan (e_write e) ?rec (ps\<lparr>ps_byid := (ps_byid ps)(sn_hash s \<mapsto> ?rec)\<rparr>))"
  have wf: "plans_wf (ps_byid ?ps)"
    using assms(1) by (auto simp: frame recorded_plan plans_wfD split: option.splits)
  obtain r' where "ps_byid ?ps h = Some r'" "plan_state_of r' (e_now e) = PlanApproved"
    using assms by (cases "sn_hash s = h") (auto simp: frame recorded_plan plan_state_Approved)
  then show ?thesis
    using prune_keeps_approved[OF wf] by (simp add: byid_record_plan)
qed

text \<open>C18: A usable approval is lost only by being used, withdrawn or expiring (or by the same plan
  being made again with another outcome): recording plans, approving, and pruning the store to its
  newest 200 records never drop it.\<close>
theorem plan_approval_kept:
  assumes "plans_wf (ps_byid ps)" "get_plan ps h = Some r"
    and "plan_state_of r (e_now (plan_op_env op)) = PlanApproved" "0 < ps_ttl ps"
    and "\<not> ends_approval h op"
  shows "\<exists>r'. get_plan (plan_step op ps) h = Some r'
    \<and> plan_state_of r' (e_now (plan_op_env op)) = PlanApproved"
proof (cases op)
  case (OpRecord e s)
  then show ?thesis using record_keeps_approved[of ps h r e s] assms by (auto simp: get_plan_def)
next
  case (OpApprove e h' who)
  then show ?thesis using assms
    by (auto simp: approve_plan_def get_plan_def plan_state_Approved split: option.splits)
qed (use assms in \<open>auto simp: revoke_plan_def consume_plan_def use_for_deploy_def get_plan_def split: option.splits\<close>)

theorem plan_approval_kept_witness:
  "\<exists>r'. get_plan (plan_step (OpRecord (demo_env 30) demo_seen) demo_plans) (sn_hash demo_seen) = Some r'
     \<and> plan_state_of r' (e_now (plan_op_env (OpRecord (demo_env 30) demo_seen))) = PlanApproved"
proof (rule plan_approval_kept)
  show "plans_wf (ps_byid demo_plans)"
    by (simp add: plans_wf_def demo_plan_defs)
  show "get_plan demo_plans (sn_hash demo_seen) = Some demo_record" by (rule demo_get)
qed (simp_all add: demo_record_def demo_plan_defs plan_state_of_def)

text \<open>An approval whose record could not be written is refused to the admin with an error, but is in
  force all the same: the change to the record in memory is not taken back, so an apply of the plan
  passes the check until the daemon restarts.\<close>
theorem plan_approve_failed_write:
  assumes "get_plan ps h = Some r" "pr_exit r = 2" "pr_used r = None" "0 < ps_ttl ps" "\<not> e_write e"
  shows "snd (approve_plan e h by ps) = Some ErrPlanWrite
    \<and> check_plan (e_now e) (fst (approve_plan e h by ps)) h = None
    \<and> ps_disk (fst (approve_plan e h by ps)) = ps_disk ps"
  using assms by (auto simp: approve_plan_def get_plan_def check_plan_None set_plan_def persist_plan_def)

theorem plan_approve_failed_write_witness:
  "let e = (demo_env 40)\<lparr>e_write := False\<rparr>
   in snd (approve_plan e (sn_hash demo_seen) ''ann'' demo_plans) = Some ErrPlanWrite
    \<and> check_plan (e_now e) (fst (approve_plan e (sn_hash demo_seen) ''ann'' demo_plans)) (sn_hash demo_seen) = None
    \<and> ps_disk (fst (approve_plan e (sn_hash demo_seen) ''ann'' demo_plans)) = ps_disk demo_plans"
  unfolding Let_def
  by (rule plan_approve_failed_write[OF demo_get])
     (simp_all add: demo_record_def demo_plan_defs)

subsection \<open>A restart of the daemon\<close>

text \<open>An operation is durable when its disk writes succeed: the record's file is written, and the files
  of pruned records are removed.\<close>

definition durable :: "plan_op \<Rightarrow> bool" where
  "durable op \<longleftrightarrow> e_write (plan_op_env op) \<and> set (e_order (plan_op_env op)) \<subseteq> set (e_removed (plan_op_env op))"

fun records_hash_ok :: "plan_op \<Rightarrow> bool" where
  "records_hash_ok (OpRecord e s) = hash_ok (sn_hash s)"
| "records_hash_ok _ = True"

definition plan_sync :: "plans \<Rightarrow> bool" where
  "plan_sync ps \<longleftrightarrow> plans_wf (ps_byid ps) \<and> ps_disk ps = ps_byid ps \<and> (\<forall>h \<in> dom (ps_byid ps). hash_ok h)"

lemma plan_sync_lookup: "plan_sync ps \<Longrightarrow> ps_byid ps h = Some r \<Longrightarrow> pr_hash r = h \<and> hash_ok h"
  by (auto simp: plan_sync_def dest: plans_wfD)

lemma plan_sync_set:
  assumes "plan_sync ps" "e_write e" "pr_hash rec = h" "hash_ok h"
  shows "plan_sync (fst (set_plan e h rec ps))"
  using assms by (auto simp: plan_sync_def set_plan_def persist_plan_def)

lemma plan_sync_prune:
  assumes "plan_sync ps" "set (e_order e) \<subseteq> set (e_removed e)"
  shows "plan_sync (prune_plans e ps)"
proof (cases "length (e_order e) \<le> keepPlans")
  case True
  then show ?thesis using assms by (simp add: prune_plans_def)
next
  case False
  let ?all = "newest_first (\<lambda>(k, rec). pr_last_seen rec) (map_values (ps_byid ps) (e_order e))"
  let ?victims = "filter (\<lambda>(k, rec). plan_state_of rec (e_now e) \<noteq> PlanApproved) (drop keepPlans ?all)"
  let ?hs = "map (\<lambda>(k, rec). pr_hash rec) ?victims"
  have "h \<in> set (e_removed e)" if "h \<in> set ?hs" for h
  proof -
    have "h \<in> (\<lambda>(k, rec). pr_hash rec) ` set ?victims" using that by (simp only: set_map)
    then obtain kr where kr: "kr \<in> set ?victims" "h = pr_hash (snd kr)" by (auto simp: split_beta)
    then have "kr \<in> set ?all" by (auto dest: in_set_dropD)
    then have "fst kr \<in> set (e_order e)" "ps_byid ps (fst kr) = Some (snd kr)" by (simp_all add: set_map_values split_beta)
    then show ?thesis
      using assms kr(2) plans_wfD[of "ps_byid ps" "fst kr" "snd kr"] by (auto simp: plan_sync_def)
  qed
  then have "filter (\<lambda>h. h \<in> set (e_removed e)) ?hs = ?hs" by (simp add: filter_id_conv)
  then show ?thesis
    using False assms(1)
    by (auto simp: prune_plans_def Let_def plan_sync_def dom_delete_keys)
qed

lemma plan_sync_record:
  assumes "plan_sync ps" "hash_ok (sn_hash s)" "e_write e" "set (e_order e) \<subseteq> set (e_removed e)"
  shows "plan_sync (fst (record_plan e s ps))"
proof -
  let ?rec = "snd (record_plan e s ps)"
  have "pr_hash ?rec = sn_hash s"
    using assms(1) by (auto simp: recorded_plan plan_sync_def plans_wfD split: option.splits)
  then have "plan_sync (fst (set_plan e (sn_hash s) ?rec ps))"
    using assms by (intro plan_sync_set)
  moreover have "fst (record_plan e s ps) = prune_plans e (fst (set_plan e (sn_hash s) ?rec ps))"
    by (simp add: record_plan_def set_plan_def Let_def split_beta)
  ultimately show ?thesis using assms(4) by (simp add: plan_sync_prune)
qed

lemma plan_sync_step:
  assumes "plan_sync ps" "durable op" "records_hash_ok op"
  shows "plan_sync (plan_step op ps)"
proof (cases op)
  case (OpRecord e s)
  then show ?thesis using assms plan_sync_record[of ps s e] by (simp add: durable_def)
qed (use assms in \<open>auto simp: durable_def approve_plan_def revoke_plan_def consume_plan_def use_for_deploy_def
       plan_sync_lookup split: option.splits intro!: plan_sync_set\<close>)

text \<open>C16: An approval survives a restart of the daemon. After any run of a new store whose disk writes
  succeeded, a daemon that opens the same directory has every plan whose approval is usable, with the
  approval as it was given.\<close>
theorem plan_approval_survives_restart:
  assumes "\<forall>op \<in> set ops. durable op \<and> records_hash_ok op"
    and "ps = run_ops plan_step ops \<lparr>ps_byid = Map.empty, ps_disk = Map.empty, ps_ttl = ttl\<rparr>"
    and "get_plan ps h = Some r" "plan_state_of r (e_now e) = PlanApproved"
    and "open_plans True e (ps_disk ps) ttl' = Some ps'"
  shows "get_plan ps' h = Some r"
proof -
  let ?empty = "\<lparr>ps_byid = Map.empty, ps_disk = Map.empty, ps_ttl = ttl\<rparr>"
  have "plan_sync (run_ops plan_step ops ?empty)"
  proof (rule run_ops_invariant[where P = plan_sync])
    show "plan_sync (plan_step op s)" if "plan_sync s" "op \<in> set ops" for op s
      using that assms(1) by (simp add: plan_sync_step)
  qed (simp add: plan_sync_def plans_wf_def)
  then have sync: "plan_sync ps" using assms(2) by simp
  let ?open = "\<lparr>ps_byid = ps_byid ps, ps_disk = ps_disk ps, ps_ttl = (if ttl' \<le> 0 then hour else ttl')\<rparr>"
  have "(\<lambda>name. case ps_disk ps name of None \<Rightarrow> None
           | Some rec \<Rightarrow> if hash_ok name \<and> pr_hash rec = name then Some rec else None) = ps_byid ps"
    using sync by (auto simp: plan_sync_def fun_eq_iff dest: plans_wfD split: option.splits)
  then have "ps' = prune_plans e ?open"
    using assms(5) by (simp add: open_plans_def)
  moreover have "ps_byid (prune_plans e ?open) h = Some r"
    by (rule prune_keeps_approved) (use sync assms(3,4) in \<open>auto simp: plan_sync_def get_plan_def\<close>)
  ultimately show ?thesis by (simp add: get_plan_def)
qed

theorem plan_approval_survives_restart_witness:
  "get_plan (the (open_plans True (demo_env 50) (ps_disk demo_plans) hour)) (sn_hash demo_seen) = Some demo_record"
proof (rule plan_approval_survives_restart[where
    ops = "[OpRecord (demo_env 5) demo_seen, OpApprove (demo_env 10) (sn_hash demo_seen) ''ann'']"
    and ttl = hour and ps = demo_plans and e = "demo_env 50" and ttl' = hour])
  show "\<forall>op \<in> set [OpRecord (demo_env 5) demo_seen, OpApprove (demo_env 10) (sn_hash demo_seen) ''ann''].
      durable op \<and> records_hash_ok op"
    by (simp add: durable_def demo_env_def demo_seen_def hash_ok_def list_all_iff char_class_defs)
  show "demo_plans = run_ops plan_step
      [OpRecord (demo_env 5) demo_seen, OpApprove (demo_env 10) (sn_hash demo_seen) ''ann'']
      \<lparr>ps_byid = Map.empty, ps_disk = Map.empty, ps_ttl = hour\<rparr>"
    by (simp add: demo_plans_def)
  show "get_plan demo_plans (sn_hash demo_seen) = Some demo_record" by (rule demo_get)
  show "plan_state_of demo_record (e_now (demo_env 50)) = PlanApproved"
    by (simp add: demo_record_def demo_plan_defs plan_state_of_def)
  show "open_plans True (demo_env 50) (ps_disk demo_plans) hour
      = Some (the (open_plans True (demo_env 50) (ps_disk demo_plans) hour))"
    by (simp add: open_plans_def)
qed

end
