(* ===== verification/Job_Runner.thy ===== *)
theory Job_Runner
  imports Host_Queue Jobs Plans
begin

text \<open>
  How a change becomes a job and gets the host (\<open>launch\<close>, \<open>queueJob\<close>, \<open>runJobNow\<close> and the frame of
  \<open>handleApply\<close> in \<open>pkg/server/apply.go\<close>), as a step relation: any number of requests run at once, each
  a thread of its own named by the ticket it holds, and a step is one of them performing its next call
  on the queue, the job store or the plan store (each call is atomic: it holds that store's mutex), or
  something arriving from outside. The steps of a thread are in the order of the statements of the code.

  \<^item> The new job's id is random: the model takes it to be one not in use.
  \<^item> \<open>cleanup\<close>, the audit log and the UI's events touch none of this state and are left out.
  \<^item> \<open>work\<close> is any computation; what it does to the stores meanwhile (log lines, changes of its job's
    record, plans made and used by a deploy) are steps of their own, taken at any moment.
\<close>

subsection \<open>Threads\<close>

record job_spec =
  sp_kind :: string
  sp_actor :: string
  sp_sha :: string
  sp_subject :: string
  sp_plan_hash :: string
  sp_prepare :: bool \<comment> \<open>an apply: its \<open>prepare\<close> uses the plan's approval up\<close>

datatype pc =
    PcPlanning                 \<comment> \<open>\<open>handleApply\<close> holds the host and makes its plan\<close>
  | PcTicket                   \<comment> \<open>\<open>launch\<close>: before \<open>CreateQueued\<close>\<close>
  | PcRecorded                 \<comment> \<open>before \<open>queue.name\<close>\<close>
  | PcNamed                    \<comment> \<open>before \<open>if t.granted \{ Start \}\<close>\<close>
  | PcPreparing                \<comment> \<open>before \<open>spec.prepare\<close>\<close>
  | PcAwaiting                 \<comment> \<open>the goroutine, before \<open><-t.ch\<close>\<close>
  | PcCalled                   \<comment> \<open>it received true, before \<open>if !t.granted \{ Start \}\<close>\<close>
  | PcWorking                  \<comment> \<open>in \<open>spec.work\<close>\<close>
  | PcEnding "string option" bool \<comment> \<open>in \<open>end(err, release)\<close>, before \<open>Finish\<close>\<close>
  | PcReleasing                \<comment> \<open>in \<open>end\<close>, before \<open>queue.release\<close>\<close>
  | PcAbandoning "string option" \<comment> \<open>before \<open>queue.abandon\<close>: the job was not recorded, or prepare failed\<close>
  | PcCancelled                \<comment> \<open>it received false, before \<open>Interrupt\<close>\<close>
  | PcOver

record thread =
  th_spec :: job_spec
  th_job :: "string option"
  th_pc :: pc

datatype event = Approved string | ApprovedUnwritten string | Consumed string string | Worked string string

record world =
  w_now :: time
  w_queue :: host_queue
  w_jobs :: jobs
  w_plans :: plans
  w_threads :: "nat \<rightharpoonup> thread"
  w_trace :: "event list" \<comment> \<open>what happened, newest first\<close>

definition granted :: "host_queue \<Rightarrow> nat \<Rightarrow> bool" where
  "granted q r = tk_granted (q_tickets q r)"

definition receive :: "nat \<Rightarrow> host_queue \<Rightarrow> host_queue" where
  "receive r q = set_ticket r ((q_tickets q r)\<lparr>tk_ch := None\<rparr>) q"

definition goto :: "nat \<Rightarrow> thread \<Rightarrow> pc \<Rightarrow> world \<Rightarrow> world" where
  "goto r t pc w = w\<lparr>w_threads := (w_threads w)(r \<mapsto> t\<lparr>th_pc := pc\<rparr>)\<rparr>"

definition busy_job_ids :: "world \<Rightarrow> string set" where
  "busy_job_ids w = {i. \<exists>r t. w_threads w r = Some t \<and> th_job t = Some i}"

fun job_op_target :: "job_op \<Rightarrow> string" where
  "job_op_target (JCreate e rnd _ _ _ _ _ _) = new_job_id (e_now e) rnd"
| "job_op_target (JStart e i) = i"
| "job_op_target (JChange e i c) = i"
| "job_op_target (JLogf e i msg) = i"
| "job_op_target (JInterrupt e i reason) = i"
| "job_op_target (JFinish e i err) = i"

fun only_annotates :: "job_op \<Rightarrow> bool" where
  "only_annotates (JChange e i c) = True"
| "only_annotates (JLogf e i msg) = True"
| "only_annotates _ = False"

fun is_consume :: "plan_op \<Rightarrow> bool" where
  "is_consume (OpConsume e h job) = True"
| "is_consume _ = False"

text \<open>What a request to the plan store leaves in the trace: an approval that \<open>Approve\<close> gave, or one it failed to write.\<close>

fun approval_events :: "plan_op \<Rightarrow> plans \<Rightarrow> event list" where
  "approval_events (OpApprove e h by) ps =
     (if approves_plan h (OpApprove e h by) ps then [Approved h]
      else if approves_unwritten h (OpApprove e h by) ps then [ApprovedUnwritten h] else [])"
| "approval_events _ ps = []"

subsection \<open>Steps\<close>

text \<open>\<open>step w l w'\<close>: \<open>l\<close> is the thread that moves, or None for what comes from outside.\<close>

inductive step :: "world \<Rightarrow> nat option \<Rightarrow> world \<Rightarrow> bool" where
  queue_job: "enqueue (w_queue w) = Inr (r, q) \<Longrightarrow>
    step w None (w\<lparr>w_queue := q, w_threads := (w_threads w)(r \<mapsto> \<lparr>th_spec = sp, th_job = None, th_pc = PcTicket\<rparr>)\<rparr>)"
| run_job_now: "try_ticket (w_queue w) = Some (r, q) \<Longrightarrow>
    step w None (w\<lparr>w_queue := q, w_threads := (w_threads w)(r \<mapsto> \<lparr>th_spec = sp, th_job = None, th_pc = PcTicket\<rparr>)\<rparr>)"
| handle_apply: "try_ticket (w_queue w) = Some (r, q) \<Longrightarrow> sp_prepare sp \<Longrightarrow>
    step w None (w\<lparr>w_queue := q, w_threads := (w_threads w)(r \<mapsto> \<lparr>th_spec = sp, th_job = None, th_pc = PcPlanning\<rparr>)\<rparr>)"
| apply_refused: "w_threads w r = Some t \<Longrightarrow> th_pc t = PcPlanning \<Longrightarrow>
    step w (Some r) (goto r t PcOver (w\<lparr>w_queue := release (w_queue w)\<rparr>))"
| apply_launched: "w_threads w r = Some t \<Longrightarrow> th_pc t = PcPlanning \<Longrightarrow> w_now w \<le> now \<Longrightarrow>
    check_plan now (w_plans w) (sp_plan_hash (th_spec t)) = None \<Longrightarrow>
    step w (Some r) (goto r t PcTicket (w\<lparr>w_now := now\<rparr>))"
| recorded: "w_threads w r = Some t \<Longrightarrow> th_pc t = PcTicket \<Longrightarrow> th_spec t = sp \<Longrightarrow> w_now w \<le> e_now e \<Longrightarrow>
    create_job e rnd JobQueued (sp_kind sp) (sp_actor sp) (sp_sha sp) (sp_subject sp) (sp_plan_hash sp) (w_jobs w)
      = (js, Some j) \<Longrightarrow>
    j_id j \<notin> dom (js_jobs (w_jobs w)) \<Longrightarrow> j_id j \<notin> busy_job_ids w \<Longrightarrow>
    step w (Some r) (goto r (t\<lparr>th_job := Some (j_id j)\<rparr>) PcRecorded (w\<lparr>w_now := e_now e, w_jobs := js\<rparr>))"
| not_recorded: "w_threads w r = Some t \<Longrightarrow> th_pc t = PcTicket \<Longrightarrow> th_spec t = sp \<Longrightarrow> w_now w \<le> e_now e \<Longrightarrow>
    create_job e rnd JobQueued (sp_kind sp) (sp_actor sp) (sp_sha sp) (sp_subject sp) (sp_plan_hash sp) (w_jobs w)
      = (js, None) \<Longrightarrow>
    step w (Some r) (goto r t (PcAbandoning None) (w\<lparr>w_now := e_now e, w_jobs := js\<rparr>))"
| named: "w_threads w r = Some t \<Longrightarrow> th_pc t = PcRecorded \<Longrightarrow> th_job t = Some i \<Longrightarrow>
    step w (Some r) (goto r t PcNamed (w\<lparr>w_queue := name_ticket r i (w_queue w)\<rparr>))"
| start_granted: "w_threads w r = Some t \<Longrightarrow> th_pc t = PcNamed \<Longrightarrow> th_job t = Some i \<Longrightarrow>
    granted (w_queue w) r \<Longrightarrow> w_now w \<le> e_now e \<Longrightarrow>
    step w (Some r) (goto r t PcPreparing (w\<lparr>w_now := e_now e, w_jobs := start_job e i (w_jobs w)\<rparr>))"
| still_queued: "w_threads w r = Some t \<Longrightarrow> th_pc t = PcNamed \<Longrightarrow> \<not> granted (w_queue w) r \<Longrightarrow>
    step w (Some r) (goto r t PcPreparing w)"
| no_prepare: "w_threads w r = Some t \<Longrightarrow> th_pc t = PcPreparing \<Longrightarrow> \<not> sp_prepare (th_spec t) \<Longrightarrow>
    step w (Some r) (goto r t PcAwaiting w)"
| prepared: "w_threads w r = Some t \<Longrightarrow> th_pc t = PcPreparing \<Longrightarrow> sp_prepare (th_spec t) \<Longrightarrow> th_job t = Some i \<Longrightarrow>
    w_now w \<le> e_now e \<Longrightarrow> consume_plan e (sp_plan_hash (th_spec t)) i (w_plans w) = (ps, None) \<Longrightarrow>
    step w (Some r) (goto r t PcAwaiting (w\<lparr>w_now := e_now e, w_plans := ps,
        w_trace := Consumed (sp_plan_hash (th_spec t)) i # w_trace w\<rparr>))"
| prepare_failed: "w_threads w r = Some t \<Longrightarrow> th_pc t = PcPreparing \<Longrightarrow> sp_prepare (th_spec t) \<Longrightarrow> th_job t = Some i \<Longrightarrow>
    w_now w \<le> e_now e \<Longrightarrow> consume_plan e (sp_plan_hash (th_spec t)) i (w_plans w) = (ps, Some err) \<Longrightarrow>
    step w (Some r) (goto r t (if granted (w_queue w) r then PcEnding (Some msg) True else PcAbandoning (Some msg))
      (w\<lparr>w_now := e_now e, w_plans := ps\<rparr>))"
| called: "w_threads w r = Some t \<Longrightarrow> th_pc t = PcAwaiting \<Longrightarrow> tk_ch (q_tickets (w_queue w) r) = Some True \<Longrightarrow>
    step w (Some r) (goto r t PcCalled (w\<lparr>w_queue := receive r (w_queue w)\<rparr>))"
| turned_away: "w_threads w r = Some t \<Longrightarrow> th_pc t = PcAwaiting \<Longrightarrow> tk_ch (q_tickets (w_queue w) r) = Some False \<Longrightarrow>
    step w (Some r) (goto r t PcCancelled (w\<lparr>w_queue := receive r (w_queue w)\<rparr>))"
| start_work: "w_threads w r = Some t \<Longrightarrow> th_pc t = PcCalled \<Longrightarrow> th_job t = Some i \<Longrightarrow> w_now w \<le> e_now e \<Longrightarrow>
    step w (Some r) (goto r t PcWorking
      (w\<lparr>w_now := e_now e, w_jobs := (if granted (w_queue w) r then w_jobs w else start_job e i (w_jobs w)),
         w_trace := (if sp_prepare (th_spec t) then [Worked (sp_plan_hash (th_spec t)) i] else []) @ w_trace w\<rparr>))"
| work_over: "w_threads w r = Some t \<Longrightarrow> th_pc t = PcWorking \<Longrightarrow>
    step w (Some r) (goto r t (PcEnding err True) w)"
| finished: "w_threads w r = Some t \<Longrightarrow> th_pc t = PcEnding err rel \<Longrightarrow> th_job t = Some i \<Longrightarrow> w_now w \<le> e_now e \<Longrightarrow>
    step w (Some r) (goto r t (if rel then PcReleasing else PcOver)
      (w\<lparr>w_now := e_now e, w_jobs := finish_job e i err (w_jobs w)\<rparr>))"
| released: "w_threads w r = Some t \<Longrightarrow> th_pc t = PcReleasing \<Longrightarrow>
    step w (Some r) (goto r t PcOver (w\<lparr>w_queue := release (w_queue w)\<rparr>))"
| abandoned: "w_threads w r = Some t \<Longrightarrow> th_pc t = PcAbandoning err \<Longrightarrow>
    step w (Some r) (goto r t (if err = None then PcOver else PcEnding err False) (w\<lparr>w_queue := abandon r (w_queue w)\<rparr>))"
| interrupted: "w_threads w r = Some t \<Longrightarrow> th_pc t = PcCancelled \<Longrightarrow> th_job t = Some i \<Longrightarrow> w_now w \<le> e_now e \<Longrightarrow>
    step w (Some r) (goto r t PcOver (w\<lparr>w_now := e_now e, w_jobs := interrupt_job e i notStarted (w_jobs w)\<rparr>))"
| stopping: "step w None (w\<lparr>w_queue := close_queue (w_queue w)\<rparr>)"
| plan_request: "\<not> is_consume op \<Longrightarrow>
    step w None (w\<lparr>w_plans := plan_step op (w_plans w), w_trace := approval_events op (w_plans w) @ w_trace w\<rparr>)"
| annotated: "only_annotates op \<Longrightarrow> step w None (w\<lparr>w_jobs := job_step op (w_jobs w)\<rparr>)"
| other_job: "job_op_target op \<notin> busy_job_ids w \<Longrightarrow> step w None (w\<lparr>w_jobs := job_step op (w_jobs w)\<rparr>)"

inductive reachable :: "world \<Rightarrow> world \<Rightarrow> bool" for w0 where
  start: "reachable w0 w0"
| move: "reachable w0 w \<Longrightarrow> step w l w' \<Longrightarrow> reachable w0 w'"

text \<open>The daemon starts with an empty queue and no threads; its stores are whatever it loaded.\<close>

definition init_world :: "world \<Rightarrow> bool" where
  "init_world w \<longleftrightarrow> w_queue w = new_queue \<and> w_threads w = Map.empty \<and> w_trace w = []"

subsection \<open>Who holds the host\<close>

text \<open>For the queue only three things matter of a thread: it has not read its channel yet (\<open>Pre\<close>), it
  has the host (\<open>Own\<close>), or neither.\<close>

datatype grip = Pre | Own | Off

fun grip_of :: "pc \<Rightarrow> grip" where
  "grip_of PcPlanning = Pre"
| "grip_of PcTicket = Pre"
| "grip_of PcRecorded = Pre"
| "grip_of PcNamed = Pre"
| "grip_of PcPreparing = Pre"
| "grip_of PcAwaiting = Pre"
| "grip_of PcCalled = Own"
| "grip_of PcWorking = Own"
| "grip_of (PcEnding err rel) = (if rel then Own else Off)"
| "grip_of PcReleasing = Own"
| "grip_of (PcAbandoning err) = Pre"
| "grip_of PcCancelled = Off"
| "grip_of PcOver = Off"

definition grips :: "world \<Rightarrow> nat \<Rightarrow> grip option" where
  "grips w r = map_option (grip_of \<circ> th_pc) (w_threads w r)"

definition holder :: "host_queue \<Rightarrow> (nat \<Rightarrow> grip option) \<Rightarrow> nat \<Rightarrow> bool" where
  "holder q g r \<longleftrightarrow> g r = Some Own \<or> (g r = Some Pre \<and> tk_ch (q_tickets q r) = Some True)"

definition host_ok :: "host_queue \<Rightarrow> (nat \<Rightarrow> grip option) \<Rightarrow> bool" where
  "host_ok q g \<longleftrightarrow> queue_inv q
   \<and> (\<forall>r. g r \<noteq> None \<longrightarrow> r < q_next q)
   \<and> (\<forall>r \<in> set (q_waiting q). g r = Some Pre)
   \<and> (\<forall>r. g r = Some Pre \<longrightarrow> (tk_ch (q_tickets q r) = None \<longleftrightarrow> r \<in> set (q_waiting q))
        \<and> (granted q r \<longrightarrow> tk_ch (q_tickets q r) = Some True)
        \<and> (tk_ch (q_tickets q r) = Some False \<longrightarrow> q_closed q))
   \<and> (\<forall>r r'. holder q g r \<longrightarrow> holder q g r' \<longrightarrow> r = r')
   \<and> (\<not> q_closed q \<longrightarrow> q_busy q = (\<exists>r. holder q g r))
   \<and> (\<forall>r r'. holder q g r \<longrightarrow> r' \<in> set (q_waiting q) \<longrightarrow> r < r')"

lemma host_ok_parts:
  assumes "host_ok q g"
  shows host_ok_inv: "queue_inv q"
    and host_ok_old: "g r \<noteq> None \<Longrightarrow> r < q_next q"
    and host_ok_waiting: "r \<in> set (q_waiting q) \<Longrightarrow> g r = Some Pre"
    and host_ok_ch: "g r = Some Pre \<Longrightarrow> tk_ch (q_tickets q r) = None \<longleftrightarrow> r \<in> set (q_waiting q)"
    and host_ok_granted: "g r = Some Pre \<Longrightarrow> granted q r \<Longrightarrow> tk_ch (q_tickets q r) = Some True"
    and host_ok_false: "g r = Some Pre \<Longrightarrow> tk_ch (q_tickets q r) = Some False \<Longrightarrow> q_closed q"
    and host_ok_one: "holder q g r \<Longrightarrow> holder q g r' \<Longrightarrow> r = r'"
    and host_ok_busy: "\<not> q_closed q \<Longrightarrow> q_busy q = (\<exists>r. holder q g r)"
    and host_ok_fifo: "holder q g r \<Longrightarrow> r' \<in> set (q_waiting q) \<Longrightarrow> r < r'"
  using assms by (unfold host_ok_def) blast+

lemma holder_old: "host_ok q g \<Longrightarrow> holder q g r \<Longrightarrow> r < q_next q"
  by (rule host_ok_old) (auto simp: holder_def)

lemma name_ticket_simps [simp]:
  "q_busy (name_ticket r i q) = q_busy q" "q_closed (name_ticket r i q) = q_closed q"
  "q_waiting (name_ticket r i q) = q_waiting q" "q_next (name_ticket r i q) = q_next q"
  "q_tickets (name_ticket r i q) = (q_tickets q)(r := (q_tickets q r)\<lparr>tk_id := i\<rparr>)"
  by (simp_all add: name_ticket_def)

lemma receive_simps [simp]:
  "q_busy (receive r q) = q_busy q" "q_closed (receive r q) = q_closed q"
  "q_waiting (receive r q) = q_waiting q" "q_next (receive r q) = q_next q"
  "q_tickets (receive r q) = (q_tickets q)(r := (q_tickets q r)\<lparr>tk_ch := None\<rparr>)"
  by (simp_all add: receive_def)

lemma host_ok_new: "host_ok new_queue (\<lambda>_. None)"
  by (simp add: host_ok_def queue_inv_new holder_def) (simp add: new_queue_def)

text \<open>The host was free: the newcomer has it.\<close>

lemma host_ok_take:
  assumes ok: "host_ok q g" and free: "\<not> q_closed q" "\<not> q_busy q"
    and rq: "(r, q') = new_ticket True (q\<lparr>q_busy := True\<rparr>)"
  shows "host_ok q' (g(r \<mapsto> Pre))"
proof -
  have r: "r = q_next q" and q': "q' = snd (new_ticket True (q\<lparr>q_busy := True\<rparr>))"
    using rq by (simp_all add: prod_eq_iff)
  have none: "\<not> holder q g x" for x using host_ok_busy[OF ok] free by auto
  have w: "q_waiting q = []" using host_ok_inv[OF ok] free by (auto simp: queue_inv_def)
  have hold: "holder q' (g(r \<mapsto> Pre)) x \<longleftrightarrow> x = r" for x
    using none[of x] by (auto simp: holder_def q' r)
  have inv: "queue_inv q'" using host_ok_inv[OF ok] w free by (auto simp: q' queue_inv_def)
  show ?thesis
    using ok w free
    by (auto simp: host_ok_def inv hold) (auto simp: q' r granted_def less_Suc_eq dest: host_ok_old[OF ok])
qed

lemma host_ok_line:
  assumes ok: "host_ok q g" and st: "\<not> q_closed q" "q_busy q" "length (q_waiting q) < maxQueuedJobs"
    and q': "q' = (snd (new_ticket False q))\<lparr>q_waiting := q_waiting q @ [q_next q]\<rparr>"
  shows "host_ok q' (g(q_next q \<mapsto> Pre))"
proof -
  have gn: "g (q_next q) = None" using host_ok_old[OF ok, of "q_next q"] by (cases "g (q_next q)") auto
  have hold: "holder q' (g(q_next q \<mapsto> Pre)) x \<longleftrightarrow> holder q g x" for x
    using gn by (auto simp: holder_def q')
  have e: "enqueue q = Inr (q_next q, q')" using st q' by (simp add: enqueue_Inr)
  have inv: "queue_inv q'" by (rule queue_inv_enqueue[OF host_ok_inv[OF ok] e])
  have busy: "\<exists>x. holder q g x" using host_ok_busy[OF ok] st by simp
  have wn: "q_next q \<notin> set (q_waiting q)" using host_ok_inv[OF ok] by (auto simp: queue_inv_def)
  show ?thesis
    using busy wn st gn host_ok_one[OF ok] host_ok_fifo[OF ok] holder_old[OF ok]
      host_ok_old[OF ok] host_ok_waiting[OF ok] host_ok_ch[OF ok] host_ok_granted[OF ok] host_ok_false[OF ok]
    by (unfold host_ok_def hold) (auto simp: inv[unfolded q'] q' granted_def less_Suc_eq)
qed

lemma host_ok_regrip:
  assumes ok: "host_ok q g" and "g r = Some Pre" "tk_ch (q_tickets q r) = Some True"
  shows "host_ok q (g(r \<mapsto> Own))"
proof -
  have hold: "holder q (g(r \<mapsto> Own)) x \<longleftrightarrow> holder q g x" for x
    using assms by (auto simp: holder_def)
  have "r \<notin> set (q_waiting q)" using host_ok_ch[OF ok assms(2)] assms(3) by auto
  then show ?thesis
    using assms by (unfold host_ok_def hold) auto
qed

lemma host_ok_receive:
  assumes ok: "host_ok q g" and p: "g r = Some Pre" and c: "tk_ch (q_tickets q r) = Some b"
  shows "host_ok (receive r q) (g(r \<mapsto> (if b then Own else Off)))"
proof -
  have hold: "holder (receive r q) (g(r \<mapsto> (if b then Own else Off))) x \<longleftrightarrow> holder q g x" for x
    using p c by (auto simp: holder_def)
  have w: "r \<notin> set (q_waiting q)" using host_ok_ch[OF ok p] c by auto
  have inv: "queue_inv (receive r q)" using host_ok_inv[OF ok] w by (auto simp: queue_inv_def)
  show ?thesis
    using ok w p by (unfold host_ok_def hold) (auto simp: inv granted_def)
qed

lemma host_ok_name:
  assumes ok: "host_ok q g" shows "host_ok (name_ticket r i q) g"
proof -
  have hold: "holder (name_ticket r i q) g x \<longleftrightarrow> holder q g x" for x
    by (auto simp: holder_def)
  have inv: "queue_inv (name_ticket r i q)" by (rule queue_inv_name[OF host_ok_inv[OF ok]])
  show ?thesis
    using ok by (unfold host_ok_def hold) (auto simp: inv granted_def)
qed

lemma host_ok_close:
  assumes ok: "host_ok q g" shows "host_ok (close_queue q) g"
proof -
  have hold: "holder (close_queue q) g x \<longleftrightarrow> holder q g x" for x
    using host_ok_ch[OF ok, of x] by (auto simp: holder_def)
  have inv: "queue_inv (close_queue q)" by (rule queue_inv_close[OF host_ok_inv[OF ok]])
  have gr: "r \<in> set (q_waiting q) \<Longrightarrow> \<not> tk_granted (q_tickets q r)" for r
    using host_ok_inv[OF ok] by (auto simp: queue_inv_def)
  show ?thesis
    using ok gr by (unfold host_ok_def hold) (auto simp: inv granted_def)
qed

text \<open>Giving the host up: the first in line has it now.\<close>

lemma release_simps:
  "q_closed (release q) = q_closed q" "q_next (release q) = q_next q"
  "q_waiting (release q) = (if q_closed q then q_waiting q else tl (q_waiting q))"
  "q_busy (release q) = (if q_closed q \<or> q_waiting q = [] then False else q_busy q)"
  "q_tickets (release q) = (if q_closed q \<or> q_waiting q = [] then q_tickets q else
     (q_tickets q)(hd (q_waiting q) := (q_tickets q (hd (q_waiting q)))\<lparr>tk_ch := Some True\<rparr>))"
  by (auto simp: release_def Let_def)

lemma host_ok_release:
  assumes ok: "host_ok q g" and h: "holder q g r \<or> q_closed q"
    and off: "\<not> holder q (g(r \<mapsto> Off)) r" and r: "g r \<noteq> None" "r \<notin> set (q_waiting q)"
  shows "host_ok (release q) (g(r \<mapsto> Off))"
proof (cases "q_closed q \<or> q_waiting q = []")
  case True
  have w: "q_waiting q = []" using True host_ok_inv[OF ok] by (auto simp: queue_inv_def)
  have hold: "holder (release q) (g(r \<mapsto> Off)) x \<longleftrightarrow> holder q g x \<and> x \<noteq> r" for x
    using True by (auto simp: holder_def release_simps)
  have none: "\<not> q_closed q \<Longrightarrow> \<not> (holder q g x \<and> x \<noteq> r)" for x
    using h host_ok_one[OF ok] by blast
  have inv: "queue_inv (release q)" by (rule queue_inv_release[OF host_ok_inv[OF ok]])
  show ?thesis
    using True w none host_ok_one[OF ok] host_ok_old[OF ok] host_ok_ch[OF ok] host_ok_granted[OF ok] host_ok_false[OF ok] r
    by (unfold host_ok_def hold) (auto simp: inv release_simps granted_def)
next
  case False
  then obtain n ws where w: "q_waiting q = n # ws" and opn: "\<not> q_closed q" by (cases "q_waiting q") auto
  have n: "g n = Some Pre" using host_ok_waiting[OF ok, of n] w by simp
  have nr: "n \<noteq> r" using r w by auto
  have rest: "\<not> (holder q g x \<and> x \<noteq> r)" for x using h opn host_ok_one[OF ok] by blast
  have hold: "holder (release q) (g(r \<mapsto> Off)) x \<longleftrightarrow> x = n" for x
    using rest[of x] n nr opn w by (auto simp: holder_def release_simps)
  have sorted: "sorted_wrt (<) (n # ws)" using host_ok_inv[OF ok] w by (simp add: queue_inv_def)
  then have nws: "n \<notin> set ws" "\<And>x. x \<in> set ws \<Longrightarrow> n < x" by auto
  have busy: "q_busy q" using host_ok_inv[OF ok] w by (simp add: queue_inv_def)
  have inv: "queue_inv (release q)" by (rule queue_inv_release[OF host_ok_inv[OF ok]])
  show ?thesis
    using w opn n nr nws busy host_ok_old[OF ok] host_ok_ch[OF ok] host_ok_waiting[OF ok] host_ok_granted[OF ok] host_ok_false[OF ok] r
    by (unfold host_ok_def hold) (auto simp: inv release_simps granted_def)
qed

lemma host_ok_abandon:
  assumes ok: "host_ok q g" and p: "g r = Some Pre"
  shows "host_ok (abandon r q) (g(r \<mapsto> Off))"
proof (cases "r \<in> set (q_waiting q)")
  case True
  have ch: "tk_ch (q_tickets q r) = None" using True host_ok_ch[OF ok p] by simp
  have opn: "\<not> q_closed q" using True host_ok_inv[OF ok] by (auto simp: queue_inv_def)
  have ab: "abandon r q = q\<lparr>q_waiting := remove1 r (q_waiting q)\<rparr>" using True by (simp add: abandon_def)
  have hold: "holder (abandon r q) (g(r \<mapsto> Off)) x \<longleftrightarrow> holder q g x" for x
    using p ch by (auto simp: holder_def ab)
  have dist: "distinct (q_waiting q)"
    using host_ok_inv[OF ok] by (simp add: queue_inv_def strict_sorted_iff)
  have inv: "queue_inv (abandon r q)" by (rule queue_inv_abandon[OF host_ok_inv[OF ok]])
  show ?thesis
    using dist p host_ok_busy[OF ok] host_ok_one[OF ok] host_ok_fifo[OF ok] host_ok_old[OF ok] host_ok_ch[OF ok]
      host_ok_waiting[OF ok] host_ok_granted[OF ok] host_ok_false[OF ok] opn
    by (unfold host_ok_def hold) (auto simp: inv[unfolded ab] ab granted_def set_remove1_eq)
next
  case False
  have "tk_ch (q_tickets q r) \<noteq> None" using False host_ok_ch[OF ok p] by simp
  then have "holder q g r \<or> q_closed q"
    using host_ok_false[OF ok p] p by (cases "tk_ch (q_tickets q r)") (auto simp: holder_def)
  then have "host_ok (release q) (g(r \<mapsto> Off))"
    by (rule host_ok_release[OF ok]) (use False p in \<open>auto simp: holder_def\<close>)
  then show ?thesis using False by (simp add: abandon_def)
qed

lemma grips_goto [simp]: "grips (goto r t pc w) = (grips w)(r \<mapsto> grip_of pc)"
  by (auto simp: grips_def goto_def fun_eq_iff)

lemma grips_simps [simp]:
  "grips (w\<lparr>w_now := n\<rparr>) = grips w" "grips (w\<lparr>w_jobs := js\<rparr>) = grips w" "grips (w\<lparr>w_plans := ps\<rparr>) = grips w"
  "grips (w\<lparr>w_trace := tr\<rparr>) = grips w" "grips (w\<lparr>w_queue := q\<rparr>) = grips w"
  by (auto simp: grips_def fun_eq_iff)

lemma goto_simps [simp]:
  "w_queue (goto r t pc w) = w_queue w" "w_jobs (goto r t pc w) = w_jobs w" "w_plans (goto r t pc w) = w_plans w"
  "w_now (goto r t pc w) = w_now w" "w_trace (goto r t pc w) = w_trace w"
  "w_threads (goto r t pc w) = (w_threads w)(r \<mapsto> t\<lparr>th_pc := pc\<rparr>)"
  by (simp_all add: goto_def)

lemma grips_at: "w_threads w r = Some t \<Longrightarrow> grips w r = Some (grip_of (th_pc t))"
  by (simp add: grips_def)

lemma grips_same: "w_threads w r = Some t \<Longrightarrow> grip_of (th_pc t) = x \<Longrightarrow> (grips w)(r \<mapsto> x) = grips w"
  by (auto simp: fun_eq_iff grips_def)

lemma grips_new: "grips (w\<lparr>w_threads := (w_threads w)(r \<mapsto> t)\<rparr>) = (grips w)(r \<mapsto> grip_of (th_pc t))"
  by (auto simp: fun_eq_iff grips_def)

lemma host_ok_own_release:
  assumes ok: "host_ok q g" and own: "g r = Some Own"
  shows "host_ok (release q) (g(r \<mapsto> Off))"
  by (rule host_ok_release[OF ok]) (use own host_ok_waiting[OF ok, of r] in \<open>auto simp: holder_def\<close>)

lemma host_ok_pre_release:
  assumes ok: "host_ok q g" and pre: "g r = Some Pre" and gr: "granted q r"
  shows "host_ok (release q) (g(r \<mapsto> Off))"
  by (rule host_ok_release[OF ok])
     (use pre host_ok_granted[OF ok pre gr] host_ok_ch[OF ok pre] in \<open>auto simp: holder_def\<close>)

lemma host_ok_try:
  "host_ok q g \<Longrightarrow> try_ticket q = Some (r, q') \<Longrightarrow> host_ok q' (g(r \<mapsto> Pre))"
  by (rule host_ok_take) (auto simp: try_ticket_Some)

lemma host_ok_enqueue:
  assumes "host_ok q g" "enqueue q = Inr (r, q')"
  shows "host_ok q' (g(r \<mapsto> Pre))"
  using assms(2) host_ok_take[OF assms(1), of r q'] host_ok_line[OF assms(1), of q'] by (auto simp: enqueue_Inr)

text \<open>An apply that is still planning was granted the host on arrival.\<close>

definition planning_ok :: "world \<Rightarrow> bool" where
  "planning_ok w \<longleftrightarrow> (\<forall>r t. w_threads w r = Some t \<longrightarrow> th_pc t = PcPlanning \<longrightarrow> granted (w_queue w) r)"

definition queue_ok :: "world \<Rightarrow> bool" where
  "queue_ok w \<longleftrightarrow> host_ok (w_queue w) (grips w) \<and> planning_ok w"

lemma queue_ok_thread_old: "queue_ok w \<Longrightarrow> w_threads w r = Some t \<Longrightarrow> r < q_next (w_queue w)"
  by (auto simp: queue_ok_def grips_def dest!: host_ok_old[of _ "grips w" r])

text \<open>What was said on issuing a ticket never changes.\<close>

lemma granted_stable [simp]:
  "granted (release q) x = granted q x" "granted (abandon r q) x = granted q x" "granted (close_queue q) x = granted q x"
  "granted (name_ticket r i q) x = granted q x" "granted (receive r q) x = granted q x"
  by (auto simp: granted_def release_simps abandon_def)

lemma granted_new: "x \<noteq> q_next q \<Longrightarrow> (r, q') = new_ticket g q \<Longrightarrow> granted q' x = granted q x"
  by (simp add: prod_eq_iff granted_def)

lemma granted_arrive:
  "try_ticket q = Some (r, q') \<or> enqueue q = Inr (r, q') \<Longrightarrow>
     r = q_next q \<and> (x \<noteq> r \<longrightarrow> granted q' x = granted q x) \<and> (try_ticket q = Some (r, q') \<longrightarrow> granted q' r)"
  by (auto simp: try_ticket_Some enqueue_Inr prod_eq_iff granted_def)

lemma planning_arrive:
  assumes "planning_ok w" "try_ticket (w_queue w) = Some (r, q) \<or> enqueue (w_queue w) = Inr (r, q)"
    and "th_pc t = PcPlanning \<longrightarrow> try_ticket (w_queue w) = Some (r, q)"
  shows "planning_ok (w\<lparr>w_queue := q, w_threads := (w_threads w)(r \<mapsto> t)\<rparr>)"
  using assms granted_arrive[OF assms(2)] by (auto simp: planning_ok_def)

lemma host_ok_new_thread:
  assumes "host_ok q ((grips w)(r \<mapsto> Pre))" "grip_of (th_pc t) = Pre"
  shows "host_ok (w_queue (w\<lparr>w_queue := q, w_threads := (w_threads w)(r \<mapsto> t)\<rparr>))
     (grips (w\<lparr>w_queue := q, w_threads := (w_threads w)(r \<mapsto> t)\<rparr>))"
proof -
  have "grips (w\<lparr>w_queue := q, w_threads := (w_threads w)(r \<mapsto> t)\<rparr>) = (grips w)(r \<mapsto> Pre)"
    using assms(2) by (auto simp: fun_eq_iff grips_def)
  then show ?thesis using assms(1) by simp
qed

lemma queue_ok_step:
  assumes "queue_ok w" "step w l w'"
  shows "queue_ok w'"
proof -
  have ok: "host_ok (w_queue w) (grips w)" and pl: "planning_ok w" using assms(1) by (auto simp: queue_ok_def)
  have gr: "w_threads w r = Some t \<Longrightarrow> th_pc t = PcPlanning \<Longrightarrow> granted (w_queue w) r" for r t
    using pl by (simp add: planning_ok_def)
  from assms(2) have "host_ok (w_queue w') (grips w')"
  proof cases
    case (queue_job r q sp)
    then show ?thesis using host_ok_enqueue[OF ok] by (simp only: queue_job) (rule host_ok_new_thread, simp_all)
  next
    case (run_job_now r q sp)
    then show ?thesis using host_ok_try[OF ok] by (simp only: run_job_now) (rule host_ok_new_thread, simp_all)
  next
    case (handle_apply r q sp)
    then show ?thesis using host_ok_try[OF ok] by (simp only: handle_apply) (rule host_ok_new_thread, simp_all)
  next
    case (apply_refused r t)
    then show ?thesis using host_ok_pre_release[OF ok, of r] gr[of r t] by (simp add: grips_at)
  next
    case (named r t i)
    then show ?thesis using host_ok_name[OF ok, of r i] by (simp add: grips_same)
  next
    case (called r t)
    then show ?thesis using host_ok_receive[OF ok, of r True] by (simp add: grips_at)
  next
    case (turned_away r t)
    then show ?thesis using host_ok_receive[OF ok, of r False] by (simp add: grips_at)
  next
    case (prepare_failed r t i e ps err msg)
    then show ?thesis
      using host_ok_regrip[OF ok, of r] host_ok_granted[OF ok, of r] ok
      by (simp add: grips_at grips_same)
  next
    case (released r t)
    then show ?thesis using host_ok_own_release[OF ok, of r] by (simp add: grips_at)
  next
    case (abandoned r t err)
    then show ?thesis using host_ok_abandon[OF ok, of r] by (simp add: grips_at)
  next
    case (finished r t err rel i e)
    then show ?thesis using ok by (cases rel) (simp_all add: grips_same)
  next
    case stopping
    then show ?thesis using host_ok_close[OF ok] by simp
  qed (use ok in \<open>simp_all add: grips_same\<close>)
  moreover from assms(2) have "planning_ok w'"
  proof cases
    case (queue_job r q sp)
    then show ?thesis using planning_arrive[OF pl, of r q] by simp
  next
    case (run_job_now r q sp)
    then show ?thesis using planning_arrive[OF pl, of r q] by simp
  next
    case (handle_apply r q sp)
    then show ?thesis using planning_arrive[OF pl, of r q] by simp
  qed (use pl in \<open>simp_all add: planning_ok_def\<close>)
  ultimately show ?thesis by (simp add: queue_ok_def)
qed

subsection \<open>What the job store shows of the threads\<close>

datatype phase = Unborn | Waiting | Going | Done

fun phase_of :: "bool \<Rightarrow> pc \<Rightarrow> phase" where
  "phase_of g PcPlanning = Unborn"
| "phase_of g PcTicket = Unborn"
| "phase_of g (PcAbandoning None) = Unborn"
| "phase_of g PcRecorded = Waiting"
| "phase_of g PcNamed = Waiting"
| "phase_of g PcPreparing = (if g then Going else Waiting)"
| "phase_of g PcAwaiting = (if g then Going else Waiting)"
| "phase_of g PcCalled = (if g then Going else Waiting)"
| "phase_of g PcWorking = Going"
| "phase_of g (PcEnding err rel) = (if rel then Going else Waiting)"
| "phase_of g PcReleasing = Done"
| "phase_of g (PcAbandoning (Some err)) = Waiting"
| "phase_of g PcCancelled = Waiting"
| "phase_of g PcOver = Done"

type_synonym stamps = "job_status \<times> time option \<times> time option"

definition stamps_of :: "jobs \<Rightarrow> string \<Rightarrow> stamps option" where
  "stamps_of js i = map_option (\<lambda>j. (j_status j, j_started j, j_finished j)) (js_jobs js i)"

fun stamps_ok :: "time \<Rightarrow> phase \<Rightarrow> stamps \<Rightarrow> bool" where
  "stamps_ok now Unborn (st, s, f) = True"
| "stamps_ok now Waiting (st, s, f) = (st = JobQueued \<and> s = None \<and> f = None)"
| "stamps_ok now Going (st, s, f) = (st = JobRunning \<and> f = None \<and> s \<noteq> None \<and> the s \<le> now)"
| "stamps_ok now Done (st, s, f) = (st \<noteq> JobQueued \<and> st \<noteq> JobRunning \<and> f \<noteq> None \<and> the f \<le> now \<and> (s = None \<or> the s \<le> now))"

definition apart :: "stamps \<Rightarrow> stamps \<Rightarrow> bool" where
  "apart x y \<longleftrightarrow> (case (x, y) of ((_, Some s, f), (_, Some s', f')) \<Rightarrow>
     (f \<noteq> None \<and> the f \<le> s') \<or> (f' \<noteq> None \<and> the f' \<le> s) | _ \<Rightarrow> True)"

definition jobs_ok :: "time \<Rightarrow> (nat \<Rightarrow> bool) \<Rightarrow> (nat \<rightharpoonup> thread) \<Rightarrow> (string \<Rightarrow> stamps option) \<Rightarrow> bool" where
  "jobs_ok now g th v \<longleftrightarrow>
     (\<forall>r t. th r = Some t \<longrightarrow> phase_of (g r) (th_pc t) = Unborn \<longrightarrow> th_job t = None)
   \<and> (\<forall>r t r' t' i. th r = Some t \<longrightarrow> th r' = Some t' \<longrightarrow> th_job t = Some i \<longrightarrow> th_job t' = Some i \<longrightarrow> r = r')
   \<and> (\<forall>r t i x. th r = Some t \<longrightarrow> th_job t = Some i \<longrightarrow> v i = Some x \<longrightarrow> stamps_ok now (phase_of (g r) (th_pc t)) x)
   \<and> (\<forall>r t i x r' t' i' x'. th r = Some t \<longrightarrow> th_job t = Some i \<longrightarrow> v i = Some x \<longrightarrow>
        th r' = Some t' \<longrightarrow> th_job t' = Some i' \<longrightarrow> v i' = Some x' \<longrightarrow> r \<noteq> r' \<longrightarrow> apart x x')"

lemma jobs_okD:
  assumes "jobs_ok now g th v"
  shows jobs_ok_unborn: "th r = Some t \<Longrightarrow> phase_of (g r) (th_pc t) = Unborn \<Longrightarrow> th_job t = None"
    and jobs_ok_inj: "th r = Some t \<Longrightarrow> th r' = Some t' \<Longrightarrow> th_job t = Some i \<Longrightarrow> th_job t' = Some i \<Longrightarrow> r = r'"
    and jobs_ok_stamps: "th r = Some t \<Longrightarrow> th_job t = Some i \<Longrightarrow> v i = Some x \<Longrightarrow> stamps_ok now (phase_of (g r) (th_pc t)) x"
    and jobs_ok_apart: "th r = Some t \<Longrightarrow> th_job t = Some i \<Longrightarrow> v i = Some x \<Longrightarrow>
        th r' = Some t' \<Longrightarrow> th_job t' = Some i' \<Longrightarrow> v i' = Some x' \<Longrightarrow> r \<noteq> r' \<Longrightarrow> apart x x'"
  using assms by (unfold jobs_ok_def) blast+

lemma stamps_ok_later: "stamps_ok now p x \<Longrightarrow> now \<le> now' \<Longrightarrow> stamps_ok now' p x"
  by (cases x; cases p) auto

lemma apart_sym: "apart x y = apart y x"
  by (auto simp: apart_def split: prod.splits option.splits)

text \<open>The store loses records, time passes: nothing a thread relies on changes.\<close>

lemma jobs_ok_less:
  assumes ok: "jobs_ok now g th v" and "now \<le> now'"
    and "\<And>i x. i \<in> \<Union> {set_option (th_job t) |t. t \<in> ran th} \<Longrightarrow> v' i = Some x \<Longrightarrow> v i = Some x"
    and "\<And>r. th r \<noteq> None \<Longrightarrow> g' r = g r"
  shows "jobs_ok now' g' th v'"
proof -
  have less: "v' i = Some x \<Longrightarrow> v i = Some x" if "th r = Some t" "th_job t = Some i" for r t i x
    using assms(3)[of i x] that by (auto simp: ran_def)
  have 1: "phase_of (g' r) (th_pc t) = Unborn \<Longrightarrow> th_job t = None" if "th r = Some t" for r t
    using that jobs_ok_unborn[OF ok that] assms(4)[of r] by simp
  have 2: "r = r'" if "th r = Some t" "th r' = Some t'" "th_job t = Some i" "th_job t' = Some i" for r t r' t' i
    using jobs_ok_inj[OF ok that] .
  have 3: "stamps_ok now' (phase_of (g' r) (th_pc t)) x" if "th r = Some t" "th_job t = Some i" "v' i = Some x" for r t i x
    using stamps_ok_later[OF jobs_ok_stamps[OF ok that(1,2) less[OF that]] assms(2)] assms(4)[of r] that(1) by simp
  have 4: "apart x x'" if "th r = Some t" "th_job t = Some i" "v' i = Some x"
    "th r' = Some t'" "th_job t' = Some i'" "v' i' = Some x'" "r \<noteq> r'" for r t i x r' t' i' x'
    using jobs_ok_apart[OF ok that(1,2) less[OF that(1,2,3)] that(4,5) less[OF that(4,5,6)] that(7)] .
  show ?thesis
    unfolding jobs_ok_def
    by (intro conjI allI impI) (erule (1) 1, erule (3) 2, erule (2) 3, erule (6) 4)
qed

text \<open>Thread \<open>r\<close> moves on, and at most its own job changes.\<close>

lemma jobs_ok_move:
  assumes ok: "jobs_ok now g th v" and "now \<le> now'" and t: "th r = Some t" "th_job t' = th_job t"
    and unborn: "phase_of (g r) (th_pc t') = Unborn \<Longrightarrow> th_job t = None"
    and others: "\<And>i. th_job t \<noteq> Some i \<Longrightarrow> v' i = v i"
    and own: "\<And>i x'. th_job t = Some i \<Longrightarrow> v' i = Some x' \<Longrightarrow>
       stamps_ok now' (phase_of (g r) (th_pc t')) x'
     \<and> (\<forall>r1 t1 i1 x1. r1 \<noteq> r \<longrightarrow> th r1 = Some t1 \<longrightarrow> th_job t1 = Some i1 \<longrightarrow> v i1 = Some x1 \<longrightarrow> apart x' x1)"
    and g: "\<And>r. th r \<noteq> None \<Longrightarrow> g' r = g r"
  shows "jobs_ok now' g' (th(r \<mapsto> t')) v'"
proof -
  have gr: "g' r = g r" using g t(1) by simp
  have oth: "v' i1 = v i1" if "r1 \<noteq> r" "th r1 = Some t1" "th_job t1 = Some i1" for r1 t1 i1
    using others[of i1] jobs_ok_inj[OF ok that(2) t(1) that(3)] that(1) by blast
  have 1: "phase_of (g' r1) (th_pc t1) = Unborn \<Longrightarrow> th_job t1 = None" if "(th(r \<mapsto> t')) r1 = Some t1" for r1 t1
    using that jobs_ok_unborn[OF ok, of r1 t1] unborn gr g[of r1] t(2) by (cases "r1 = r") auto
  have 2: "r1 = r2" if "(th(r \<mapsto> t')) r1 = Some t1" "(th(r \<mapsto> t')) r2 = Some t2" "th_job t1 = Some i" "th_job t2 = Some i"
    for r1 t1 r2 t2 i
  proof -
    note asm = that
    have orig: "(th(r \<mapsto> t')) x = Some tx \<Longrightarrow> th_job tx = Some i \<Longrightarrow> \<exists>t0. th x = Some t0 \<and> th_job t0 = Some i" for x tx
      using t by (cases "x = r") auto
    obtain u1 u2 where "th r1 = Some u1" "th_job u1 = Some i" "th r2 = Some u2" "th_job u2 = Some i"
      using orig[OF asm(1,3)] orig[OF asm(2,4)] by blast
    then show ?thesis by (intro jobs_ok_inj[OF ok, of r1 u1 r2 u2 i])
  qed
  have 3: "stamps_ok now' (phase_of (g' r1) (th_pc t1)) x"
    if "(th(r \<mapsto> t')) r1 = Some t1" "th_job t1 = Some i" "v' i = Some x" for r1 t1 i x
  proof (cases "r1 = r")
    case True
    then show ?thesis using that own[of i x] t(2) gr by auto
  next
    case False
    then have "th r1 = Some t1" "v i = Some x" using that oth[of r1 t1 i] by auto
    then show ?thesis
      using stamps_ok_later[OF jobs_ok_stamps[OF ok] assms(2)] that(2) g[of r1] by simp
  qed
  have own_apart: "apart x' x1" if "th_job t = Some i" "v' i = Some x'" "r1 \<noteq> r" "th r1 = Some t1" "th_job t1 = Some i1"
    "v' i1 = Some x1" for i x' r1 t1 i1 x1
    using own[OF that(1,2), THEN conjunct2, rule_format, OF that(3,4,5)] that(6) oth[OF that(3,4,5)] by simp
  have 4: "apart x x'" if "(th(r \<mapsto> t')) r1 = Some t1" "th_job t1 = Some i" "v' i = Some x"
    "(th(r \<mapsto> t')) r2 = Some t2" "th_job t2 = Some i'" "v' i' = Some x'" "r1 \<noteq> r2" for r1 t1 i x r2 t2 i' x'
  proof (cases "r1 = r"; cases "r2 = r")
    assume "r1 = r" "r2 \<noteq> r"
    then show ?thesis using that own_apart[of i x r2 t2 i' x'] t(2) by auto
  next
    assume "r1 \<noteq> r" "r2 = r"
    then show ?thesis using that own_apart[of i' x' r1 t1 i x] t(2) apart_sym[of x x'] by auto
  next
    assume "r1 \<noteq> r" "r2 \<noteq> r"
    then show ?thesis
      using that jobs_ok_apart[OF ok, of r1 t1 i x r2 t2 i' x'] oth[of r1 t1 i] oth[of r2 t2 i'] by auto
  qed (use that in simp)
  show ?thesis
    unfolding jobs_ok_def
    by (intro conjI allI impI) (erule (1) 1, erule (3) 2, erule (2) 3, erule (6) 4)
qed

lemma jobs_ok_move_apart:
  assumes ok: "jobs_ok now g th v" and "now \<le> now'" and t: "th r = Some t" "th_job t' = th_job t"
    and unborn: "phase_of (g r) (th_pc t') = Unborn \<Longrightarrow> th_job t = None"
    and others: "\<And>i. th_job t \<noteq> Some i \<Longrightarrow> v' i = v i"
    and own: "\<And>i st s f. th_job t = Some i \<Longrightarrow> v' i = Some (st, s, f) \<Longrightarrow>
       stamps_ok now' (phase_of (g r) (th_pc t')) (st, s, f)
     \<and> (\<exists>st0 f0. v i = Some (st0, s, f0) \<and> (f0 = None \<or> f0 = f))"
    and g: "\<And>r. th r \<noteq> None \<Longrightarrow> g' r = g r"
  shows "jobs_ok now' g' (th(r \<mapsto> t')) v'"
proof (rule jobs_ok_move[OF ok assms(2) t unborn others _ g])
  fix i x' assume i: "th_job t = Some i" and x': "v' i = Some x'"
  obtain st s f where x: "x' = (st, s, f)" by (cases x')
  obtain st0 f0 where v: "v i = Some (st0, s, f0)" "f0 = None \<or> f0 = f"
    using own[OF i x'[unfolded x]] by blast
  have "apart x' x1" if "r1 \<noteq> r" "th r1 = Some t1" "th_job t1 = Some i1" "v i1 = Some x1" for r1 t1 i1 x1
    using jobs_ok_apart[OF ok t(1) i v(1) that(2,3,4)] that(1) v(2)
    by (auto simp: apart_def x split: prod.splits option.splits)
  then show "stamps_ok now' (phase_of (g r) (th_pc t')) x'
     \<and> (\<forall>r1 t1 i1 x1. r1 \<noteq> r \<longrightarrow> th r1 = Some t1 \<longrightarrow> th_job t1 = Some i1 \<longrightarrow> v i1 = Some x1 \<longrightarrow> apart x' x1)"
    using own[OF i x'[unfolded x]] by (simp add: x)
qed

lemma stamps_start: "stamps_of (start_job e i js) k =
    (if k = i then map_option (\<lambda>(st, s, f). (JobRunning, Some (e_now e), f)) (stamps_of js i) else stamps_of js k)"
  by (auto simp: stamps_of_def start_job_def update_job_def split: option.splits)

lemma stamps_interrupt: "stamps_of (interrupt_job e i reason js) k =
    (if k = i then map_option (\<lambda>(st, s, f). (JobInterrupted, s, Some (e_now e))) (stamps_of js i) else stamps_of js k)"
  by (auto simp: stamps_of_def interrupt_job_def update_job_def split: option.splits)

lemma stamps_finish: "stamps_of (finish_job e i err js) k =
    (if k = i then map_option (\<lambda>(st, s, f). (if err = None then JobSucceeded else JobFailed, s, Some (e_now e)))
       (stamps_of js i) else stamps_of js k)"
  by (auto simp: stamps_of_def finish_job_def Let_def split: option.splits)

lemma stamps_create:
  assumes "create_job e rnd JobQueued kind actor sha service h js = (js', r)" "stamps_of js' k = Some x"
  shows "stamps_of js k = Some x \<or> (\<exists>j. r = Some j \<and> j_id j = k \<and> x = (JobQueued, None, None))"
proof -
  obtain j where j: "js_jobs js' k = Some j" "x = (j_status j, j_started j, j_finished j)"
    using assms(2) by (auto simp: stamps_of_def)
  have new: "r = Some j \<Longrightarrow> j_status j = JobQueued \<and> j_started j = None \<and> j_finished j = None"
    using assms(1) by (auto simp: create_job_def Let_def split: if_splits)
  show ?thesis using create_job_sub[OF assms(1) j(1)] new j(2) by (auto simp: stamps_of_def)
qed

lemma stamps_annotate: "only_annotates op \<Longrightarrow> stamps_of (job_step op js) = stamps_of js"
proof (cases op)
  case (JChange e i c)
  then show ?thesis by (cases c) (auto simp: stamps_of_def update_job_def fun_eq_iff split: option.splits)
next
  case (JLogf e i msg)
  then show ?thesis by (auto simp: stamps_of_def logf_job_def Let_def fun_eq_iff split: option.splits)
qed auto

lemma stamps_elsewhere:
  assumes "k \<noteq> job_op_target op" "stamps_of (job_step op js) k = Some x"
  shows "stamps_of js k = Some x"
proof (cases "job_edit op")
  case None
  then obtain e rnd st kind actor sha service h where op: "op = JCreate e rnd st kind actor sha service h"
    using job_edit_None by blast
  obtain js' r where c: "create_job e rnd st kind actor sha service h js = (js', r)" by force
  obtain j where j: "js_jobs js' k = Some j" "x = (j_status j, j_started j, j_finished j)"
    using assms(2) by (auto simp: stamps_of_def op c)
  have "r = Some j \<Longrightarrow> j_id j = job_op_target op" using create_job_jobs c by (simp add: op)
  then show ?thesis using create_job_sub[OF c j(1)] j(2) assms(1) by (auto simp: stamps_of_def)
next
  case (Some ed)
  obtain e i f where ed: "ed = (e, i, f)" by (cases ed)
  have "i = job_op_target op" using Some ed by (cases op) auto
  then have "js_jobs (job_step op js) k = js_jobs js k"
    using assms(1) by (auto simp: job_step_edit[OF Some[unfolded ed]] split: option.splits)
  then show ?thesis using assms(2) by (simp add: stamps_of_def)
qed

subsection \<open>The runner's invariant\<close>

definition runner_ok :: "world \<Rightarrow> bool" where
  "runner_ok w \<longleftrightarrow> queue_ok w \<and> jobs_ok (w_now w) (granted (w_queue w)) (w_threads w) (stamps_of (w_jobs w))"

lemma going_pre: "phase_of g pc = Going \<Longrightarrow> grip_of pc \<noteq> Own \<Longrightarrow> g \<and> grip_of pc = Pre"
  by (cases "(g, pc)" rule: phase_of.cases) (simp_all split: if_splits)

lemma going_holds:
  assumes "queue_ok w" "w_threads w r = Some t" "phase_of (granted (w_queue w) r) (th_pc t) = Going \<or> grip_of (th_pc t) = Own"
  shows "holder (w_queue w) (grips w) r"
proof (cases "grip_of (th_pc t) = Own")
  case True
  then show ?thesis using assms(2) by (simp add: holder_def grips_at)
next
  case False
  then have "granted (w_queue w) r" "grip_of (th_pc t) = Pre"
    using assms(3) going_pre by blast+
  then show ?thesis
    using assms(1,2) host_ok_granted[of "w_queue w" "grips w" r] by (simp add: queue_ok_def holder_def grips_at)
qed

text \<open>Only the job of the thread that holds the host is running, so a job that starts now starts after
  every other one has finished.\<close>

lemma starts_apart:
  assumes ok: "queue_ok w" and j: "jobs_ok (w_now w) (granted (w_queue w)) (w_threads w) v"
    and h: "holder (w_queue w) (grips w) r" and now: "w_now w \<le> now"
    and t1: "r1 \<noteq> r" "w_threads w r1 = Some t1" "th_job t1 = Some i1" "v i1 = Some x1"
  shows "apart (JobRunning, Some now, None) x1"
proof -
  let ?p = "phase_of (granted (w_queue w) r1) (th_pc t1)"
  have st: "stamps_ok (w_now w) ?p x1" by (rule jobs_ok_stamps[OF j t1(2,3,4)])
  have "?p \<noteq> Going"
    using going_holds[OF ok t1(2)] host_ok_one[of "w_queue w" "grips w" r r1] h ok t1(1) by (auto simp: queue_ok_def)
  moreover have "?p \<noteq> Unborn" using jobs_ok_unborn[OF j t1(2)] t1(3) by auto
  ultimately consider "?p = Waiting" | "?p = Done" by (cases ?p) auto
  then show ?thesis using st now by cases (cases x1, auto simp: apart_def split: option.splits)+
qed

lemma jobs_ok_start:
  assumes ok: "queue_ok w" and j: "jobs_ok (w_now w) (granted (w_queue w)) (w_threads w) (stamps_of js)"
    and t: "w_threads w r = Some t" "th_job t = Some i" "phase_of (granted (w_queue w) r) (th_pc t) = Waiting"
    and h: "holder (w_queue w) (grips w) r" and now: "w_now w \<le> e_now e"
    and p: "phase_of (granted (w_queue w) r) pc = Going"
  shows "jobs_ok (e_now e) (granted (w_queue w)) ((w_threads w)(r \<mapsto> t\<lparr>th_pc := pc\<rparr>)) (stamps_of (start_job e i js))"
proof (rule jobs_ok_move[OF j now t(1)])
  fix i' x' assume i': "th_job t = Some i'" and x': "stamps_of (start_job e i js) i' = Some x'"
  then have eq: "i' = i" using t(2) by simp
  then obtain st s f where v: "stamps_of js i = Some (st, s, f)" and x: "x' = (JobRunning, Some (e_now e), f)"
    using x' by (auto simp: stamps_start)
  have "stamps_ok (w_now w) Waiting (st, s, f)" using jobs_ok_stamps[OF j t(1,2) v] t(3) by simp
  then have f: "f = None" by simp
  show "stamps_ok (e_now e) (phase_of (granted (w_queue w) r) (th_pc (t\<lparr>th_pc := pc\<rparr>))) x' \<and>
       (\<forall>r1 t1 i1 x1. r1 \<noteq> r \<longrightarrow> w_threads w r1 = Some t1 \<longrightarrow> th_job t1 = Some i1 \<longrightarrow>
          stamps_of js i1 = Some x1 \<longrightarrow> apart x' x1)"
    using p starts_apart[OF ok j h now] by (simp add: x f)
qed (use t p in \<open>auto simp: stamps_start\<close>)

lemma jobs_ok_pc:
  assumes j: "jobs_ok now g th v" and t: "th r = Some t" and n: "now \<le> now'"
    and p: "phase_of (g r) pc = phase_of (g r) (th_pc t)" and g: "\<And>r. th r \<noteq> None \<Longrightarrow> g' r = g r"
  shows "jobs_ok now' g' (th(r \<mapsto> t\<lparr>th_pc := pc\<rparr>)) v"
proof (rule jobs_ok_move[OF j n t])
  fix i x' assume "th_job t = Some i" "v i = Some x'"
  then show "stamps_ok now' (phase_of (g r) (th_pc (t\<lparr>th_pc := pc\<rparr>))) x' \<and>
       (\<forall>r1 t1 i1 x1. r1 \<noteq> r \<longrightarrow> th r1 = Some t1 \<longrightarrow> th_job t1 = Some i1 \<longrightarrow> v i1 = Some x1 \<longrightarrow> apart x' x1)"
    using stamps_ok_later[OF jobs_ok_stamps[OF j t] n] jobs_ok_apart[OF j t] p by simp
qed (use jobs_ok_unborn[OF j t] p g in auto)

lemma jobs_ok_jobless:
  assumes j: "jobs_ok now g th v" and t: "th r = Some t" "th_job t = None" and g: "\<And>r. th r \<noteq> None \<Longrightarrow> g' r = g r"
  shows "jobs_ok now g' (th(r \<mapsto> t\<lparr>th_pc := pc\<rparr>)) v"
  by (rule jobs_ok_move[OF j order_refl t(1)]) (use t g in auto)

lemma jobs_ok_end:
  assumes j: "jobs_ok now g th v" and t: "th r = Some t" "th_job t = Some i" and n: "now \<le> now'"
    and p: "phase_of (g r) (th_pc t) = Waiting \<or> phase_of (g r) (th_pc t) = Going" and d: "phase_of (g r) pc = Done"
    and v': "\<And>k. v' k = (if k = i then map_option (\<lambda>(st, s, f). (st', s, Some now')) (v i) else v k)"
    and st': "st' \<noteq> JobQueued" "st' \<noteq> JobRunning"
  shows "jobs_ok now' g (th(r \<mapsto> t\<lparr>th_pc := pc\<rparr>)) v'"
proof (rule jobs_ok_move_apart[OF j n t(1)])
  fix i' st s f assume i': "th_job t = Some i'" and x': "v' i' = Some (st, s, f)"
  then have eq: "i' = i" using t(2) by simp
  then obtain st0 f0 where v: "v i = Some (st0, s, f0)" and st: "st = st'" "f = Some now'"
    using x' by (auto simp: v')
  have "stamps_ok now (phase_of (g r) (th_pc t)) (st0, s, f0)" by (rule jobs_ok_stamps[OF j t v])
  then have "f0 = None" "s = None \<or> the s \<le> now'" using p n by auto
  then show "stamps_ok now' (phase_of (g r) (th_pc (t\<lparr>th_pc := pc\<rparr>))) (st, s, f) \<and>
       (\<exists>st0 f0. v i' = Some (st0, s, f0) \<and> (f0 = None \<or> f0 = f))"
    using v st st' d eq by simp
qed (use d t v' in auto)

lemma jobs_ok_arrive:
  assumes j: "jobs_ok now g th v" and r: "th r = None" "th_job t = None"
    and g: "\<And>x. x \<noteq> r \<Longrightarrow> g' x = g x"
  shows "jobs_ok now g' (th(r \<mapsto> t)) v"
proof -
  have old: "th x = Some u" "g' x = g x" if "(th(r \<mapsto> t)) x = Some u" "th_job u = Some i" for x u i
    using that r g[of x] by (auto split: if_splits)
  have 1: "phase_of (g' x) (th_pc u) = Unborn \<Longrightarrow> th_job u = None" if "(th(r \<mapsto> t)) x = Some u" for x u
    using that r g[of x] jobs_ok_unborn[OF j, of x u] by (cases "x = r") auto
  have 2: "x = y" if "(th(r \<mapsto> t)) x = Some u" "(th(r \<mapsto> t)) y = Some u'" "th_job u = Some i" "th_job u' = Some i" for x u y u' i
    using jobs_ok_inj[OF j old(1)[OF that(1,3)] old(1)[OF that(2,4)] that(3,4)] .
  have 3: "stamps_ok now (phase_of (g' x) (th_pc u)) s" if "(th(r \<mapsto> t)) x = Some u" "th_job u = Some i" "v i = Some s" for x u i s
    using jobs_ok_stamps[OF j old(1)[OF that(1,2)] that(2,3)] old(2)[OF that(1,2)] by simp
  have 4: "apart s s'" if "(th(r \<mapsto> t)) x = Some u" "th_job u = Some i" "v i = Some s"
    "(th(r \<mapsto> t)) y = Some u'" "th_job u' = Some i'" "v i' = Some s'" "x \<noteq> y" for x u i s y u' i' s'
    using jobs_ok_apart[OF j old(1)[OF that(1,2)] that(2,3) old(1)[OF that(4,5)] that(5,6,7)] .
  show ?thesis
    unfolding jobs_ok_def
    by (intro conjI allI impI) (erule (1) 1, erule (3) 2, erule (2) 3, erule (6) 4)
qed

lemma jobs_ok_recorded:
  assumes j: "jobs_ok now g th v" and t: "th r = Some t" "th_pc t = PcTicket" and n: "now \<le> now'"
    and i: "\<And>x u. th x = Some u \<Longrightarrow> th_job u \<noteq> Some i"
    and v': "\<And>k x. v' k = Some x \<Longrightarrow> v k = Some x \<and> k \<noteq> i \<or> k = i \<and> x = (JobQueued, None, None)"
  shows "jobs_ok now' g (th(r \<mapsto> t\<lparr>th_job := Some i, th_pc := PcRecorded\<rparr>)) v'"
proof -
  let ?t = "t\<lparr>th_job := Some i, th_pc := PcRecorded\<rparr>"
  have old: "(x = r \<and> u = ?t \<and> k = i) \<or> (x \<noteq> r \<and> th x = Some u \<and> k \<noteq> i)"
    if "(th(r \<mapsto> ?t)) x = Some u" "th_job u = Some k" for x u k
    using that i[of x u] by (auto split: if_splits)
  have oldv: "v k = Some s" if "(th(r \<mapsto> ?t)) x = Some u" "th_job u = Some k" "v' k = Some s" "x \<noteq> r" for x u k s
    using old[OF that(1,2)] v'[OF that(3)] that(4) by blast
  have new: "s = (JobQueued, None, None)" if "(th(r \<mapsto> ?t)) r = Some u" "th_job u = Some k" "v' k = Some s" for u k s
    using old[OF that(1,2)] v'[OF that(3)] by blast
  have 1: "phase_of (g x) (th_pc u) = Unborn \<Longrightarrow> th_job u = None" if "(th(r \<mapsto> ?t)) x = Some u" for x u
    using that jobs_ok_unborn[OF j, of x u] by (cases "x = r") auto
  have 2: "x = y" if "(th(r \<mapsto> ?t)) x = Some u" "(th(r \<mapsto> ?t)) y = Some u'" "th_job u = Some k" "th_job u' = Some k" for x u y u' k
    using old[OF that(1,3)] old[OF that(2,4)] jobs_ok_inj[OF j _ _ that(3,4), of x y] by auto
  have 3: "stamps_ok now' (phase_of (g x) (th_pc u)) s" if "(th(r \<mapsto> ?t)) x = Some u" "th_job u = Some k" "v' k = Some s" for x u k s
  proof (cases "x = r")
    case True
    then show ?thesis using new[of u k s] that by auto
  next
    case False
    then show ?thesis
      using old[OF that(1,2)] stamps_ok_later[OF jobs_ok_stamps[OF j _ that(2) oldv[OF that False]] n] by auto
  qed
  have 4: "apart s s'" if "(th(r \<mapsto> ?t)) x = Some u" "th_job u = Some k" "v' k = Some s"
    "(th(r \<mapsto> ?t)) y = Some u'" "th_job u' = Some k'" "v' k' = Some s'" "x \<noteq> y" for x u k s y u' k' s'
  proof (cases "x = r \<or> y = r")
    case True
    then have "s = (JobQueued, None, None) \<or> s' = (JobQueued, None, None)"
      using new[of u k s] new[of u' k' s'] that by auto
    then show ?thesis by (auto simp: apart_def split: prod.splits option.splits)
  next
    case False
    then show ?thesis
      using old[OF that(1,2)] old[OF that(4,5)]
        jobs_ok_apart[OF j _ that(2) oldv[OF that(1,2,3)] _ that(5) oldv[OF that(4,5,6)] that(7)] by blast
  qed
  show ?thesis
    unfolding jobs_ok_def
    by (intro conjI allI impI) (erule (1) 1, erule (3) 2, erule (2) 3, erule (6) 4)
qed

lemma jobs_ok_lose:
  assumes j: "jobs_ok now (granted q) (w_threads w) (stamps_of js)"
    and "\<And>k x. k \<in> busy_job_ids w \<Longrightarrow> stamps_of js' k = Some x \<Longrightarrow> stamps_of js k = Some x"
  shows "jobs_ok now (granted q) (w_threads w) (stamps_of js')"
proof (rule jobs_ok_less[OF j order_refl])
  fix i x assume i: "i \<in> \<Union> {set_option (th_job t) |t. t \<in> ran (w_threads w)}" and x: "stamps_of js' i = Some x"
  from i obtain r t where "w_threads w r = Some t" "th_job t = Some i" by (auto simp: ran_def)
  then have "i \<in> busy_job_ids w" unfolding busy_job_ids_def by blast
  then show "stamps_of js i = Some x" using assms(2) x by blast
qed simp

lemma granted_old_arrive:
  assumes "queue_ok w" "try_ticket (w_queue w) = Some (r, q) \<or> enqueue (w_queue w) = Inr (r, q)"
  shows "w_threads w r = None" "x \<noteq> r \<Longrightarrow> granted q x = granted (w_queue w) x"
  using granted_arrive[OF assms(2)] queue_ok_thread_old[OF assms(1), of r] by (cases "w_threads w r"; force)+

lemma runner_jobs_step:
  assumes ok: "queue_ok w" and j: "jobs_ok (w_now w) (granted (w_queue w)) (w_threads w) (stamps_of (w_jobs w))"
    and "step w l w'"
  shows "jobs_ok (w_now w') (granted (w_queue w')) (w_threads w') (stamps_of (w_jobs w'))"
proof -
  have host: "host_ok (w_queue w) (grips w)" using ok by (simp add: queue_ok_def)
  from assms(3) show ?thesis
  proof cases
    case (queue_job r q sp)
    then show ?thesis using jobs_ok_arrive[OF j, of r _ "granted q"] granted_old_arrive[OF ok, of r q] by simp
  next
    case (run_job_now r q sp)
    then show ?thesis using jobs_ok_arrive[OF j, of r _ "granted q"] granted_old_arrive[OF ok, of r q] by simp
  next
    case (handle_apply r q sp)
    then show ?thesis using jobs_ok_arrive[OF j, of r _ "granted q"] granted_old_arrive[OF ok, of r q] by simp
  next
    case (apply_refused r t)
    then have "th_job t = None" using jobs_ok_unborn[OF j, of r t] by simp
    then show ?thesis using apply_refused
      by simp (rule jobs_ok_jobless[OF j], simp_all)
  next
    case (apply_launched r t now)
    then show ?thesis by simp (rule jobs_ok_pc[OF j], simp_all)
  next
    case (recorded r t sp e rnd js jb)
    have 1: "th_job u \<noteq> Some (j_id jb)" if "w_threads w x = Some u" for x u
      using recorded that by (auto simp: busy_job_ids_def)
    have 2: "stamps_of (w_jobs w) k = Some x \<and> k \<noteq> j_id jb \<or> k = j_id jb \<and> x = (JobQueued, None, None)"
      if "stamps_of js k = Some x" for k x
    proof -
      have "stamps_of (w_jobs w) (j_id jb) = None" using recorded by (auto simp: stamps_of_def domIff)
      then show ?thesis using stamps_create[OF recorded(7) that] by auto
    qed
    show ?thesis using recorded jobs_ok_recorded[OF j, of r t "e_now e" "j_id jb" "stamps_of js"] 1 2 by simp
  next
    case (not_recorded r t sp e rnd js)
    then show ?thesis
      using create_job_failed[OF not_recorded(7)] by simp (rule jobs_ok_pc[OF j], simp_all)
  next
    case (named r t i)
    then show ?thesis by simp (rule jobs_ok_pc[OF j], simp_all)
  next
    case (start_granted r t i e)
    have "holder (w_queue w) (grips w) r"
      using start_granted host_ok_granted[OF host, of r] by (simp add: holder_def grips_at)
    then show ?thesis using start_granted jobs_ok_start[OF ok j, of r t i e PcPreparing] by simp
  next
    case (still_queued r t)
    then show ?thesis by simp (rule jobs_ok_pc[OF j], simp_all)
  next
    case (no_prepare r t)
    then show ?thesis by simp (rule jobs_ok_pc[OF j], simp_all)
  next
    case (prepared r t i e ps)
    then show ?thesis by simp (rule jobs_ok_pc[OF j], simp_all)
  next
    case (prepare_failed r t i e ps err msg)
    then show ?thesis by simp (intro conjI impI; rule jobs_ok_pc[OF j], simp_all)
  next
    case (called r t)
    then show ?thesis by simp (rule jobs_ok_pc[OF j], simp_all)
  next
    case (turned_away r t)
    then have "\<not> granted (w_queue w) r" using host_ok_granted[OF host, of r] by (auto simp: grips_at)
    then show ?thesis using turned_away by simp (rule jobs_ok_pc[OF j], simp_all)
  next
    case (start_work r t i e)
    have h: "holder (w_queue w) (grips w) r" using start_work by (simp add: holder_def grips_at)
    show ?thesis
    proof (cases "granted (w_queue w) r")
      case True
      then show ?thesis using start_work by simp (rule jobs_ok_pc[OF j], simp_all)
    next
      case False
      then show ?thesis using start_work h jobs_ok_start[OF ok j, of r t i e PcWorking] by simp
    qed
  next
    case (work_over r t err)
    then show ?thesis by simp (rule jobs_ok_pc[OF j], simp_all)
  next
    case (finished r t err rel i e)
    have v: "stamps_of (finish_job e i err (w_jobs w)) k = (if k = i then
        map_option (\<lambda>(st, s, f). (if err = None then JobSucceeded else JobFailed, s, Some (e_now e))) (stamps_of (w_jobs w) i)
        else stamps_of (w_jobs w) k)" for k by (simp add: stamps_finish)
    show ?thesis
      using finished jobs_ok_end[OF j, of r t i "e_now e" "if rel then PcReleasing else PcOver", OF _ _ _ _ _ v] by simp
  next
    case (released r t)
    then show ?thesis by simp (rule jobs_ok_pc[OF j], simp_all)
  next
    case (abandoned r t err)
    show ?thesis
    proof (cases err)
      case None
      then have "th_job t = None" using abandoned jobs_ok_unborn[OF j, of r t] by simp
      then show ?thesis using abandoned None by simp (rule jobs_ok_jobless[OF j], simp_all)
    next
      case (Some m)
      then show ?thesis using abandoned by simp (rule jobs_ok_pc[OF j], simp_all)
    qed
  next
    case (interrupted r t i e)
    have v: "stamps_of (interrupt_job e i notStarted (w_jobs w)) k = (if k = i then
        map_option (\<lambda>(st, s, f). (JobInterrupted, s, Some (e_now e))) (stamps_of (w_jobs w) i)
        else stamps_of (w_jobs w) k)" for k by (simp add: stamps_interrupt)
    show ?thesis using interrupted jobs_ok_end[OF j, of r t i "e_now e" PcOver, OF _ _ _ _ _ v] by simp
  next
    case stopping
    then show ?thesis using j by (simp add: jobs_ok_less[OF j])
  next
    case (plan_request op)
    then show ?thesis using j by simp
  next
    case (annotated op)
    then show ?thesis using j by (simp add: stamps_annotate)
  next
    case (other_job op)
    then show ?thesis by simp (rule jobs_ok_lose[OF j], metis stamps_elsewhere)
  qed
qed

lemma runner_ok_step: "runner_ok w \<Longrightarrow> step w l w' \<Longrightarrow> runner_ok w'"
  using queue_ok_step runner_jobs_step by (auto simp: runner_ok_def)

lemma runner_ok_init: "init_world w \<Longrightarrow> runner_ok w"
  using host_ok_new
  by (auto simp: init_world_def runner_ok_def queue_ok_def planning_ok_def jobs_ok_def grips_def[abs_def] cong: option.map_cong)

lemma runner_ok_reachable: "init_world w0 \<Longrightarrow> reachable w0 w \<Longrightarrow> runner_ok w"
  by (erule reachable.induct) (auto intro: runner_ok_init runner_ok_step)

subsection \<open>Approvals and work\<close>

fun is_consumed :: "string \<Rightarrow> event \<Rightarrow> bool" where
  "is_consumed h (Consumed h' i) = (h' = h)" | "is_consumed h _ = False"
fun is_worked :: "string \<Rightarrow> event \<Rightarrow> bool" where
  "is_worked h (Worked h' i) = (h' = h)" | "is_worked h _ = False"
fun is_approved :: "string \<Rightarrow> event \<Rightarrow> bool" where
  "is_approved h (Approved h') = (h' = h)" | "is_approved h _ = False"
fun is_unwritten :: "string \<Rightarrow> event \<Rightarrow> bool" where
  "is_unwritten h (ApprovedUnwritten h') = (h' = h)" | "is_unwritten h _ = False"

abbreviation is_granted :: "string \<Rightarrow> event \<Rightarrow> bool" where
  "is_granted h e \<equiv> is_approved h e \<or> is_unwritten h e"

lemma is_granted_simps [simp]:
  "is_granted h (Consumed k i) = False" "is_granted h (Worked k i) = False"
  by simp_all

fun worked_pc :: "pc \<Rightarrow> bool" where
  "worked_pc PcWorking = True" | "worked_pc PcReleasing = True" | "worked_pc PcOver = True"
| "worked_pc (PcEnding err rel) = rel" | "worked_pc _ = False"

fun prepared_pc :: "pc \<Rightarrow> bool" where
  "prepared_pc PcAwaiting = True" | "prepared_pc PcCalled = True" | "prepared_pc _ = False"

definition count_events :: "(event \<Rightarrow> bool) \<Rightarrow> event list \<Rightarrow> nat" where
  "count_events p tr = length (filter p tr)"

definition trace_ok :: "(string \<Rightarrow> bool) \<Rightarrow> world \<Rightarrow> bool" where
  "trace_ok live0 w \<longleftrightarrow>
     (\<forall>r t i. w_threads w r = Some t \<longrightarrow> prepared_pc (th_pc t) \<longrightarrow> sp_prepare (th_spec t) \<longrightarrow> th_job t = Some i \<longrightarrow>
        Consumed (sp_plan_hash (th_spec t)) i \<in> set (w_trace w))
   \<and> (\<forall>h i. Worked h i \<in> set (w_trace w) \<longrightarrow> Consumed h i \<in> set (w_trace w)
        \<and> (\<exists>r t. w_threads w r = Some t \<and> th_job t = Some i \<and> worked_pc (th_pc t)))
   \<and> (\<forall>h. distinct (filter (is_worked h) (w_trace w)))
   \<and> (\<forall>h. count_events (is_consumed h) (w_trace w) + (if plan_live (w_plans w) h then 1 else 0)
        \<le> count_events (is_granted h) (w_trace w) + (if live0 h then 1 else 0))"

lemma trace_okD:
  assumes "trace_ok live0 w"
  shows trace_ok_prepared: "w_threads w r = Some t \<Longrightarrow> prepared_pc (th_pc t) \<Longrightarrow> sp_prepare (th_spec t) \<Longrightarrow>
      th_job t = Some i \<Longrightarrow> Consumed (sp_plan_hash (th_spec t)) i \<in> set (w_trace w)"
    and trace_ok_consumed: "Worked h i \<in> set (w_trace w) \<Longrightarrow> Consumed h i \<in> set (w_trace w)"
    and trace_ok_worked: "Worked h i \<in> set (w_trace w) \<Longrightarrow>
      \<exists>r t. w_threads w r = Some t \<and> th_job t = Some i \<and> worked_pc (th_pc t)"
    and trace_ok_distinct: "distinct (filter (is_worked h) (w_trace w))"
    and trace_ok_count: "count_events (is_consumed h) (w_trace w) + (if plan_live (w_plans w) h then 1 else 0)
        \<le> count_events (is_granted h) (w_trace w) + (if live0 h then 1 else 0)"
  using assms by (unfold trace_ok_def) blast+

text \<open>A step that only moves threads, none of them back from having worked nor forward past its preparation.\<close>

lemma trace_ok_move:
  assumes ok: "trace_ok live0 w" and same: "w_trace w' = w_trace w" "w_plans w' = w_plans w"
    and keep: "\<And>x u. w_threads w x = Some u \<Longrightarrow> worked_pc (th_pc u) \<Longrightarrow>
       \<exists>u'. w_threads w' x = Some u' \<and> th_job u' = th_job u \<and> worked_pc (th_pc u')"
    and prep: "\<And>x u'. w_threads w' x = Some u' \<Longrightarrow> prepared_pc (th_pc u') \<Longrightarrow> sp_prepare (th_spec u') \<Longrightarrow>
       \<exists>u. w_threads w x = Some u \<and> prepared_pc (th_pc u) \<and> th_spec u' = th_spec u \<and> th_job u' = th_job u"
  shows "trace_ok live0 w'"
proof -
  have 1: "Consumed (sp_plan_hash (th_spec u')) i \<in> set (w_trace w')"
    if u': "w_threads w' x = Some u'" "prepared_pc (th_pc u')" "sp_prepare (th_spec u')" "th_job u' = Some i" for x u' i
  proof -
    obtain u where "w_threads w x = Some u" "prepared_pc (th_pc u)" "th_spec u' = th_spec u" "th_job u' = th_job u"
      using prep[OF u'(1,2,3)] by blast
    then show ?thesis using trace_ok_prepared[OF ok, of x u i] u' same by simp
  qed
  have 2: "\<exists>x u'. w_threads w' x = Some u' \<and> th_job u' = Some i \<and> worked_pc (th_pc u')"
    if worked: "Worked h i \<in> set (w_trace w')" for h i
  proof -
    obtain x u where "w_threads w x = Some u" "th_job u = Some i" "worked_pc (th_pc u)"
      using trace_ok_worked[OF ok, of h i] worked same by auto
    then show ?thesis using keep[of x u] by auto
  qed
  show ?thesis
    unfolding trace_ok_def
    using 1 2 trace_ok_consumed[OF ok] trace_ok_distinct[OF ok] trace_ok_count[OF ok] by (simp add: same)
qed

lemma trace_ok_goto:
  assumes ok: "trace_ok live0 w" and t: "w_threads w r = Some t"
    and w0: "w_threads w0 = w_threads w" "w_trace w0 = w_trace w" "w_plans w0 = w_plans w"
    and pc: "worked_pc (th_pc t) \<Longrightarrow> worked_pc pc"
    and prep: "prepared_pc pc \<Longrightarrow> prepared_pc (th_pc t) \<or> \<not> sp_prepare (th_spec t)"
    and job: "th_job t' = th_job t \<or> \<not> worked_pc (th_pc t) \<and> \<not> prepared_pc pc" "th_spec t' = th_spec t"
  shows "trace_ok live0 (goto r t' pc w0)"
proof (rule trace_ok_move[OF ok])
  show "\<exists>u'. w_threads (goto r t' pc w0) x = Some u' \<and> th_job u' = th_job u \<and> worked_pc (th_pc u')"
    if "w_threads w x = Some u" "worked_pc (th_pc u)" for x u
    using that t pc job w0 by (cases "x = r") auto
  show "\<exists>u. w_threads w x = Some u \<and> prepared_pc (th_pc u) \<and> th_spec u' = th_spec u \<and> th_job u' = th_job u"
    if "w_threads (goto r t' pc w0) x = Some u'" "prepared_pc (th_pc u')" "sp_prepare (th_spec u')" for x u'
    using that t prep job w0 by (cases "x = r") auto
qed (use w0 in simp_all)

lemma trace_ok_arrive:
  assumes ok: "trace_ok live0 w" and "w_threads w r = None" "\<not> prepared_pc (th_pc t)"
  shows "trace_ok live0 (w\<lparr>w_queue := q, w_threads := (w_threads w)(r \<mapsto> t)\<rparr>)"
  by (rule trace_ok_move[OF ok]) (use assms(2,3) in \<open>auto split: if_splits\<close>)

lemma live_step:
  "(if applies_plan h op ps then 1 else 0) + (if plan_live (plan_step op ps) h then 1 else 0)
     \<le> (if approves_plan h op ps \<or> approves_unwritten h op ps then 1 else 0) + (if plan_live ps h then 1 else (0 :: nat))"
  using plan_grant.uses_le_grants[of h "[op]" ps] by simp

lemma count_events_simps [simp]:
  "count_events p [] = 0" "count_events p (e # tr) = (if p e then Suc (count_events p tr) else count_events p tr)"
  by (simp_all add: count_events_def)

lemma consume_step: "consume_plan e h i ps = (ps', r) \<Longrightarrow> plan_step (OpConsume e h i) ps = ps'"
  by simp

lemma consume_failed_live:
  assumes "consume_plan e h i ps = (ps', Some err)" "plan_live ps' k" shows "plan_live ps k"
  using live_step[of k "OpConsume e h i" ps] assms by (auto split: if_splits)

lemma approvals_add: "\<not> is_consume op \<Longrightarrow>
  count_events (is_consumed h) (approval_events op ps @ tr) = count_events (is_consumed h) tr
  \<and> count_events (is_granted h) (approval_events op ps @ tr) = (if approves_plan h op ps \<or> approves_unwritten h op ps then 1 else 0) + count_events (is_granted h) tr
  \<and> filter (is_worked h) (approval_events op ps @ tr) = filter (is_worked h) tr
  \<and> (Worked h i \<in> set (approval_events op ps @ tr)) = (Worked h i \<in> set tr)
  \<and> (Consumed h i \<in> set (approval_events op ps @ tr)) = (Consumed h i \<in> set tr)"
  by (cases op) auto

lemma trace_ok_pc:
  assumes "trace_ok live0 w" "w_threads w r = Some t"
    and "w_threads w0 = w_threads w" "w_trace w0 = w_trace w" "w_plans w0 = w_plans w"
    and "worked_pc (th_pc t) \<Longrightarrow> worked_pc pc"
    and "prepared_pc pc \<Longrightarrow> prepared_pc (th_pc t) \<or> \<not> sp_prepare (th_spec t)"
  shows "trace_ok live0 (goto r t pc w0)"
  by (rule trace_ok_goto[OF assms]) simp_all

lemma trace_ok_plans:
  assumes ok: "trace_ok live0 w" and less: "\<And>k. plan_live ps k \<longrightarrow> plan_live (w_plans w) k"
  shows "trace_ok live0 (w\<lparr>w_plans := ps\<rparr>)"
proof -
  have "count_events (is_consumed h) (w_trace w) + (if plan_live ps h then 1 else 0)
      \<le> count_events (is_granted h) (w_trace w) + (if live0 h then 1 else 0)" for h
    using trace_ok_count[OF ok, of h] less[of h] by (auto split: if_splits)
  then show ?thesis
    unfolding trace_ok_def
    using trace_ok_prepared[OF ok] trace_ok_consumed[OF ok] trace_ok_worked[OF ok] trace_ok_distinct[OF ok] by simp
qed

lemma trace_ok_step:
  assumes tr: "trace_ok live0 w" and run: "runner_ok w" and s: "step w l w'"
  shows "trace_ok live0 w'"
proof -
  have q: "queue_ok w" and j: "jobs_ok (w_now w) (granted (w_queue w)) (w_threads w) (stamps_of (w_jobs w))"
    using run by (simp_all add: runner_ok_def)
  from s show ?thesis
  proof cases
    case (queue_job r q' sp)
    then show ?thesis using trace_ok_arrive[OF tr] granted_old_arrive(1)[OF q, of r q'] by simp
  next
    case (run_job_now r q' sp)
    then show ?thesis using trace_ok_arrive[OF tr] granted_old_arrive(1)[OF q, of r q'] by simp
  next
    case (handle_apply r q' sp)
    then show ?thesis using trace_ok_arrive[OF tr] granted_old_arrive(1)[OF q, of r q'] by simp
  next
    case (prepared r t i e ps)
    let ?h = "sp_plan_hash (th_spec t)"
    have a: "applies_plan ?h (OpConsume e ?h i) (w_plans w)" using prepared by simp
    have live: "(if k = ?h then 1 else 0) + (if plan_live ps k then 1 else 0) \<le> (if plan_live (w_plans w) k then 1 else (0::nat))" for k
      using live_step[of k "OpConsume e ?h i" "w_plans w"] prepared a by (auto split: if_splits)
    have old: "x = r \<or> (w_threads w x = Some u)" if "w_threads w' x = Some u" for x u
      using that prepared(2) by (auto split: if_splits)
    have thr: "w_threads w' r = Some (t\<lparr>th_pc := PcAwaiting\<rparr>)" using prepared by simp
    have tre: "w_trace w' = Consumed ?h i # w_trace w" "w_plans w' = ps" using prepared by simp_all
    have 1: "Consumed (sp_plan_hash (th_spec u)) k \<in> set (w_trace w')"
      if "w_threads w' x = Some u" "prepared_pc (th_pc u)" "sp_prepare (th_spec u)" "th_job u = Some k" for x u k
    proof (cases "x = r")
      case True
      then show ?thesis using that thr prepared(6) tre by auto
    next
      case False
      then show ?thesis using old[OF that(1)] trace_ok_prepared[OF tr _ that(2,3,4), of x] tre by auto
    qed
    have 2: "\<exists>x u. w_threads w' x = Some u \<and> th_job u = Some k \<and> worked_pc (th_pc u)" if wk: "Worked h k \<in> set (w_trace w)" for h k
    proof -
      obtain x u where u: "w_threads w x = Some u" "th_job u = Some k" "worked_pc (th_pc u)"
        using trace_ok_worked[OF tr wk] by blast
      then have "x \<noteq> r" using prepared(3,4) by auto
      then show ?thesis using u prepared(2) by (intro exI[of _ x] exI[of _ u]) simp
    qed
    have 3: "count_events (is_consumed k) (w_trace w') + (if plan_live (w_plans w') k then 1 else 0)
        \<le> count_events (is_granted k) (w_trace w') + (if live0 k then 1 else 0)" for k
      using trace_ok_count[OF tr, of k] live[of k] by (auto simp: tre split: if_splits)
    show ?thesis
      unfolding trace_ok_def using 1 2 3 trace_ok_consumed[OF tr] trace_ok_distinct[OF tr] by (simp add: tre)
  next
    case (prepare_failed r t i e ps err msg)
    have 0: "trace_ok live0 (goto r t (if granted (w_queue w) r then PcEnding (Some msg) True else PcAbandoning (Some msg))
        (w\<lparr>w_now := e_now e\<rparr>))"
      by (rule trace_ok_goto[OF tr prepare_failed(3)]) (use prepare_failed in \<open>auto split: if_splits\<close>)
    have "plan_live ps k \<longrightarrow> plan_live (w_plans w) k" for k
      using consume_failed_live[OF prepare_failed(8)] by blast
    then have "trace_ok live0 ((goto r t (if granted (w_queue w) r then PcEnding (Some msg) True else PcAbandoning (Some msg))
        (w\<lparr>w_now := e_now e\<rparr>))\<lparr>w_plans := ps\<rparr>)"
      by (intro trace_ok_plans[OF 0]) simp
    moreover have "w' = (goto r t (if granted (w_queue w) r then PcEnding (Some msg) True else PcAbandoning (Some msg))
        (w\<lparr>w_now := e_now e\<rparr>))\<lparr>w_plans := ps\<rparr>"
      using prepare_failed(2) by (cases w) (simp add: goto_def)
    ultimately show ?thesis by simp
  next
    case (start_work r t i e)
    let ?h = "sp_plan_hash (th_spec t)"
    let ?new = "if sp_prepare (th_spec t) then [Worked ?h i] else []"
    have tre: "w_trace w' = ?new @ w_trace w" "w_plans w' = w_plans w" using start_work by simp_all
    have thr: "w_threads w' = (w_threads w)(r \<mapsto> t\<lparr>th_pc := PcWorking\<rparr>)" using start_work by simp
    have fresh: "Worked h i \<notin> set (w_trace w)" for h
    proof
      assume "Worked h i \<in> set (w_trace w)"
      then obtain x u where u: "w_threads w x = Some u" "th_job u = Some i" "worked_pc (th_pc u)"
        using trace_ok_worked[OF tr] by blast
      then have "x = r" using jobs_ok_inj[OF j u(1) start_work(3) u(2)] start_work by simp
      then show False using u start_work by auto
    qed
    have cons: "sp_prepare (th_spec t) \<Longrightarrow> Consumed ?h i \<in> set (w_trace w)"
      using trace_ok_prepared[OF tr start_work(3)] start_work by simp
    have 1: "Consumed (sp_plan_hash (th_spec u)) k \<in> set (w_trace w')"
      if "w_threads w' x = Some u" "prepared_pc (th_pc u)" "sp_prepare (th_spec u)" "th_job u = Some k" for x u k
      using that trace_ok_prepared[OF tr, of x u k] by (auto simp: thr tre split: if_splits)
    have keep: "\<exists>x u. w_threads w' x = Some u \<and> th_job u = Some k \<and> worked_pc (th_pc u)" if wk: "Worked h k \<in> set (w_trace w')" for h k
    proof (cases "k = i")
      case True
      then show ?thesis using start_work by (intro exI[of _ r] exI[of _ "t\<lparr>th_pc := PcWorking\<rparr>"]) (simp add: thr)
    next
      case False
      then have "Worked h k \<in> set (w_trace w)" using wk by (auto simp: tre split: if_splits)
      then obtain x u where u: "w_threads w x = Some u" "th_job u = Some k" "worked_pc (th_pc u)"
        using trace_ok_worked[OF tr] by blast
      then have "x \<noteq> r" using start_work(3,4) by auto
      then show ?thesis using u by (intro exI[of _ x] exI[of _ u]) (simp add: thr)
    qed
    have 3: "Worked h k \<in> set (w_trace w') \<Longrightarrow> Consumed h k \<in> set (w_trace w')" for h k
      using trace_ok_consumed[OF tr, of h k] cons by (auto simp: tre split: if_splits)
    have 4: "distinct (filter (is_worked h) (w_trace w'))" for h
      using trace_ok_distinct[OF tr, of h] fresh by (auto simp: tre)
    have 5: "count_events (is_consumed k) (w_trace w') + (if plan_live (w_plans w') k then 1 else 0)
        \<le> count_events (is_granted k) (w_trace w') + (if live0 k then 1 else 0)" for k
      using trace_ok_count[OF tr, of k] by (auto simp: tre)
    show ?thesis unfolding trace_ok_def using 1 keep 3 4 5 by blast
  next
    case (plan_request op)
    note add = approvals_add[OF plan_request(3), of _ "w_plans w" "w_trace w"]
    have na: "\<not> applies_plan h op (w_plans w)" for h using plan_request(3) by (cases op) auto
    have live: "(if plan_live (plan_step op (w_plans w)) h then 1 else 0)
        \<le> (if approves_plan h op (w_plans w) \<or> approves_unwritten h op (w_plans w) then 1 else 0) + (if plan_live (w_plans w) h then 1 else (0::nat))" for h
      using live_step[of h op "w_plans w"] na[of h] by simp
    have c: "count_events (is_consumed h) (w_trace w') + (if plan_live (w_plans w') h then 1 else 0)
        \<le> count_events (is_granted h) (w_trace w') + (if live0 h then 1 else 0)" for h
      using trace_ok_count[OF tr, of h] live[of h] add[of h] by (simp add: plan_request(2))
    show ?thesis
      unfolding trace_ok_def
      using c trace_ok_prepared[OF tr] trace_ok_consumed[OF tr] trace_ok_worked[OF tr] trace_ok_distinct[OF tr] add
      by (simp add: plan_request(2))
  next
    case (recorded r t sp e rnd js jb)
    show ?thesis unfolding recorded(2) by (rule trace_ok_goto[OF tr recorded(3)]) (use recorded in auto)
  next
    case (finished r t err rel i e)
    show ?thesis unfolding finished(2) by (rule trace_ok_goto[OF tr finished(3)]) (use finished in \<open>auto split: if_splits\<close>)
  next
    case stopping
    then show ?thesis using tr by (simp add: trace_ok_def)
  next
    case (annotated op)
    then show ?thesis using tr by (simp add: trace_ok_def)
  next
    case (other_job op)
    then show ?thesis using tr by (simp add: trace_ok_def)
  next
    case (abandoned r t err)
    show ?thesis unfolding abandoned(2) by (rule trace_ok_pc[OF tr abandoned(3)]) (use abandoned in \<open>auto split: if_splits\<close>)
  qed (simp, (rule trace_ok_pc[OF tr]; simp split: if_splits))+
qed

lemma trace_ok_init: "init_world w \<Longrightarrow> trace_ok (plan_live (w_plans w)) w"
  by (simp add: init_world_def trace_ok_def)

lemma trace_ok_reachable:
  assumes "init_world w0" "reachable w0 w"
  shows "trace_ok (plan_live (w_plans w0)) w"
  using assms(2,1)
proof (induction rule: reachable.induct)
  case start
  then show ?case by (rule trace_ok_init)
next
  case (move w l w')
  then show ?case using trace_ok_step runner_ok_reachable by blast
qed

subsection \<open>Progress\<close>

fun needs_job :: "pc \<Rightarrow> bool" where
  "needs_job PcPlanning = False" | "needs_job PcTicket = False" | "needs_job (PcAbandoning None) = False"
| "needs_job PcOver = False" | "needs_job _ = True"

definition jobs_named :: "world \<Rightarrow> bool" where
  "jobs_named w \<longleftrightarrow> (\<forall>r t. w_threads w r = Some t \<longrightarrow> needs_job (th_pc t) \<longrightarrow> th_job t \<noteq> None)"

lemma jobs_named_step:
  assumes "jobs_named w" "step w l w'" shows "jobs_named w'"
  using assms(2)
proof cases
  case (abandoned r t err)
  then show ?thesis using assms(1) by (cases err) (auto simp: jobs_named_def)
qed (use assms(1) in \<open>auto simp: jobs_named_def split: if_splits\<close>)

lemma jobs_named_reachable: "init_world w0 \<Longrightarrow> reachable w0 w \<Longrightarrow> jobs_named w"
  by (erule reachable.induct) (auto simp: jobs_named_def[of w0] init_world_def intro: jobs_named_step)

text \<open>How many steps a thread has left, at most.\<close>

fun rank :: "pc \<Rightarrow> nat" where
  "rank PcPlanning = 12" | "rank PcTicket = 11" | "rank PcRecorded = 10" | "rank PcNamed = 9"
| "rank PcPreparing = 8" | "rank PcAwaiting = 7" | "rank PcCalled = 6" | "rank PcWorking = 5"
| "rank (PcAbandoning err) = 5" | "rank (PcEnding err rel) = 4" | "rank PcReleasing = 3"
| "rank PcCancelled = 3" | "rank PcOver = 0"

definition steps_left :: "world \<Rightarrow> nat" where
  "steps_left w = (\<Sum>r < q_next (w_queue w). case w_threads w r of None \<Rightarrow> 0 | Some t \<Rightarrow> rank (th_pc t))"

lemma thread_step_goto:
  assumes "step w (Some r) w'"
  shows "\<exists>t t' pc w0. w_threads w r = Some t \<and> w' = goto r t' pc w0 \<and> rank pc < rank (th_pc t)
     \<and> w_threads w0 = w_threads w \<and> q_next (w_queue w0) = q_next (w_queue w)"
  using assms
  by cases (fastforce simp: release_simps abandon_def split: if_splits)+

lemma steps_left_decreases:
  assumes ok: "queue_ok w" and s: "step w (Some r) w'"
  shows "steps_left w' < steps_left w"
proof -
  obtain t t' pc w0 where t: "w_threads w r = Some t" and w': "w' = goto r t' pc w0" and less: "rank pc < rank (th_pc t)"
    and same: "w_threads w0 = w_threads w" "q_next (w_queue w0) = q_next (w_queue w)"
    using thread_step_goto[OF s] by blast
  let ?n = "q_next (w_queue w)"
  have r: "r < ?n" by (rule queue_ok_thread_old[OF ok t])
  let ?f = "\<lambda>w x. case w_threads w x of None \<Rightarrow> 0 | Some t \<Rightarrow> rank (th_pc t)"
  have "(\<Sum>x < ?n. ?f w' x) < (\<Sum>x < ?n. ?f w x)"
    by (rule sum_strict_mono_ex1) (use r t less same in \<open>auto simp: w' split: option.splits\<close>)
  then show ?thesis by (simp add: steps_left_def w' same)
qed

lemma thread_can_move:
  assumes run: "runner_ok w" and nm: "jobs_named w" and t: "w_threads w r = Some t" "th_pc t \<noteq> PcOver"
    and line: "th_pc t = PcAwaiting \<Longrightarrow> r \<notin> set (q_waiting (w_queue w))"
  shows "\<exists>w'. step w (Some r) w'"
proof -
  define e where "e = \<lparr>e_now = w_now w, e_write = False, e_order = [], e_removed = []\<rparr>"
  have e: "w_now w \<le> e_now e" by (simp add: e_def)
  have host: "host_ok (w_queue w) (grips w)" using run by (simp add: runner_ok_def queue_ok_def)
  have j: "needs_job (th_pc t) \<Longrightarrow> \<exists>i. th_job t = Some i"
    using nm t(1) by (auto simp: jobs_named_def)
  show ?thesis
  proof (cases "th_pc t")
    case PcPlanning
    then show ?thesis using step.apply_refused[OF t(1)] by blast
  next
    case PcTicket
    have "create_job e [] JobQueued (sp_kind (th_spec t)) (sp_actor (th_spec t)) (sp_sha (th_spec t)) (sp_subject (th_spec t))
        (sp_plan_hash (th_spec t)) (w_jobs w) = (w_jobs w, None)" by (simp add: create_job_def e_def)
    then show ?thesis using step.not_recorded[OF t(1) PcTicket refl e] by blast
  next
    case PcRecorded
    then show ?thesis using j step.named[OF t(1)] by auto
  next
    case PcNamed
    then show ?thesis
      using j step.start_granted[OF t(1) PcNamed _ _ e] step.still_queued[OF t(1) PcNamed]
      by (cases "granted (w_queue w) r") auto
  next
    case PcPreparing
    then obtain i where i: "th_job t = Some i" using j by auto
    obtain ps res where c: "consume_plan e (sp_plan_hash (th_spec t)) i (w_plans w) = (ps, res)" by force
    show ?thesis
    proof (cases "sp_prepare (th_spec t)")
      case True
      then show ?thesis
        using step.prepared[OF t(1) PcPreparing True i e] step.prepare_failed[OF t(1) PcPreparing True i e] c
        by (cases res) blast+
    next
      case False
      then show ?thesis using step.no_prepare[OF t(1) PcPreparing] by blast
    qed
  next
    case PcAwaiting
    have "tk_ch (q_tickets (w_queue w) r) \<noteq> None"
      using host_ok_ch[OF host, of r] line[OF PcAwaiting] t(1) by (simp add: grips_at PcAwaiting)
    then obtain b where "tk_ch (q_tickets (w_queue w) r) = Some b" by auto
    then show ?thesis
      using step.called[OF t(1) PcAwaiting] step.turned_away[OF t(1) PcAwaiting] by (cases b) auto
  next
    case PcCalled
    then show ?thesis using j step.start_work[OF t(1) PcCalled _ e] by auto
  next
    case PcWorking
    then show ?thesis using step.work_over[OF t(1)] by blast
  next
    case (PcEnding err rel)
    then show ?thesis using j step.finished[OF t(1) PcEnding _ e] by auto
  next
    case PcReleasing
    then show ?thesis using step.released[OF t(1)] by blast
  next
    case (PcAbandoning err)
    then show ?thesis using step.abandoned[OF t(1)] by blast
  next
    case PcCancelled
    then show ?thesis using j step.interrupted[OF t(1) PcCancelled _ e] by auto
  qed (use t(2) in simp)
qed

text \<open>Nobody waits in line for ever: while anybody does, the holder of the host can move.\<close>

lemma someone_can_move:
  assumes run: "runner_ok w" and nm: "jobs_named w" and t: "w_threads w r = Some t" "th_pc t \<noteq> PcOver"
  shows "\<exists>r' w'. r' \<le> r \<and> step w (Some r') w'"
proof (cases "th_pc t = PcAwaiting \<and> r \<in> set (q_waiting (w_queue w))")
  case True
  have host: "host_ok (w_queue w) (grips w)" using run by (simp add: runner_ok_def queue_ok_def)
  have "q_busy (w_queue w)" "\<not> q_closed (w_queue w)"
    using host_ok_inv[OF host] True by (auto simp: queue_inv_def)
  then obtain h where h: "holder (w_queue w) (grips w) h" using host_ok_busy[OF host] by blast
  then have lt: "h < r" using host_ok_fifo[OF host h] True by simp
  obtain u where u: "w_threads w h = Some u" using h by (auto simp: holder_def grips_def)
  have "h \<notin> set (q_waiting (w_queue w))" using host_ok_fifo[OF host h, of h] by auto
  moreover have "th_pc u \<noteq> PcOver" using h u by (auto simp: holder_def grips_at)
  ultimately show ?thesis using thread_can_move[OF run nm u] lt by (meson less_imp_le)
next
  case False
  then show ?thesis using thread_can_move[OF run nm t] by blast
qed

subsection \<open>A run\<close>

text \<open>Two image builds arrive; the first gets the host and works, the second waits in line.\<close>

definition demo_spec :: job_spec where
  "demo_spec = \<lparr>sp_kind = ''image:build'', sp_actor = ''ci'', sp_sha = [], sp_subject = ''app'',
     sp_plan_hash = [], sp_prepare = False\<rparr>"

definition demo_w0 :: world where
  "demo_w0 = \<lparr>w_now = 0, w_queue = new_queue, w_jobs = \<lparr>js_jobs = Map.empty, js_disk = Map.empty\<rparr>,
     w_plans = demo_plans, w_threads = Map.empty, w_trace = []\<rparr>"

definition demo_tk :: "nat \<Rightarrow> bool \<Rightarrow> ticket" where
  "demo_tk i g = \<lparr>tk_id = (if i = 0 then demo_id else []), tk_granted = g, tk_ch = None\<rparr>"

definition demo_e :: "time \<Rightarrow> env" where
  "demo_e t = \<lparr>e_now = t * second, e_write = True, e_order = [], e_removed = []\<rparr>"

text \<open>A thread that was just told the host is its own, from its ticket to its work.\<close>

lemma run_ticket_prepared:
  fixes e :: env
  assumes reach: "reachable w0 w" and th: "w_threads w r = Some \<lparr>th_spec = sp, th_job = None, th_pc = PcTicket\<rparr>"
    and ch: "tk_ch (q_tickets (w_queue w) r) = Some True"
    and sp: "sp_prepare sp \<Longrightarrow> snd (consume_plan e (sp_plan_hash sp) i (w_plans w)) = None"
    and e: "w_now w \<le> e_now e" "e_write e" "e_order e = []"
    and i: "i = new_job_id (e_now e) rnd" "i \<notin> dom (js_jobs (w_jobs w))" "i \<notin> busy_job_ids w"
  obtains w' j where "reachable w0 w'" "w_threads w' = (w_threads w)(r \<mapsto> \<lparr>th_spec = sp, th_job = Some i, th_pc = PcWorking\<rparr>)"
    "w_queue w' = receive r (name_ticket r i (w_queue w))" "w_now w' = e_now e"
    "js_jobs (w_jobs w') = (js_jobs (w_jobs w))(i \<mapsto> j)" "j_status j = JobRunning" "j_started j = Some (e_now e)" "j_finished j = None"
    "w_trace w' = (if sp_prepare sp then [Worked (sp_plan_hash sp) i, Consumed (sp_plan_hash sp) i] else []) @ w_trace w"
proof -
  define t where "t pc = \<lparr>th_spec = sp, th_job = Some i, th_pc = pc\<rparr>" for pc
  have t_simps [simp]: "th_spec (t pc) = sp" "th_job (t pc) = Some i" "th_pc (t pc) = pc"
    "(t pc)\<lparr>th_pc := pc'\<rparr> = t pc'" for pc pc' by (simp_all add: t_def)
  let ?u = "\<lparr>th_spec = sp, th_job = None, th_pc = PcTicket\<rparr>"
  obtain js j where c: "create_job e rnd JobQueued (sp_kind sp) (sp_actor sp) (sp_sha sp)
      (sp_subject sp) (sp_plan_hash sp) (w_jobs w) = (js, Some j)"
    using e(2) by (simp add: create_job_def Let_def)
  have j: "j_id j = i" and js: "js_jobs js = (js_jobs (w_jobs w))(i \<mapsto> j)"
    using create_job_jobs[OF c] i e(3) by (simp_all add: prune_jobs_def)
  have jf: "j_finished j = None" using c by (auto simp: create_job_def Let_def split: if_splits)
  define w3 where "w3 = goto r (t PcTicket) PcRecorded (w\<lparr>w_now := e_now e, w_jobs := js\<rparr>)"
  have u: "?u\<lparr>th_job := Some (j_id j)\<rparr> = t PcTicket" by (simp add: t_def j)
  have "th_pc ?u = PcTicket" "th_spec ?u = sp" by simp_all
  then have "step w (Some r) w3"
    unfolding w3_def u[symmetric] by (rule step.recorded[OF th _ _ e(1) c i(2,3)[folded j]])
  then have r3: "reachable w0 w3" by (rule reachable.move[OF reach])
  have w3: "w_threads w3 r = Some (t PcRecorded)" by (simp add: w3_def)
  define w4 where "w4 = goto r (t PcRecorded) PcNamed (w3\<lparr>w_queue := name_ticket r i (w_queue w3)\<rparr>)"
  have r4: "reachable w0 w4" unfolding w4_def
    by (rule reachable.move[OF r3], rule step.named[OF w3(1)]) simp_all
  have w4: "w_threads w4 r = Some (t PcNamed)" "w_now w4 = e_now e" "w_jobs w4 = js" "w_queue w4 = name_ticket r i (w_queue w)"
    "w_threads w4 = (w_threads w)(r \<mapsto> t PcNamed)" "w_plans w4 = w_plans w" "w_trace w4 = w_trace w"
    by (simp_all add: w4_def w3_def)
  define js5 where "js5 = (if granted (w_queue w) r then start_job e i js else js)"
  have "\<exists>w5. reachable w0 w5 \<and> w_threads w5 = (w_threads w)(r \<mapsto> t PcPreparing) \<and> w_now w5 = e_now e
      \<and> w_queue w5 = w_queue w4 \<and> w_jobs w5 = js5 \<and> w_plans w5 = w_plans w \<and> w_trace w5 = w_trace w"
  proof (cases "granted (w_queue w) r")
    case True
    then have "step w4 (Some r) (goto r (t PcNamed) PcPreparing (w4\<lparr>w_now := e_now e, w_jobs := start_job e i (w_jobs w4)\<rparr>))"
      by (intro step.start_granted[OF w4(1)]) (simp_all add: w4)
    from reachable.move[OF r4 this] show ?thesis
      using True by (intro exI conjI) (assumption, simp_all add: w4 js5_def)
  next
    case False
    then have "step w4 (Some r) (goto r (t PcNamed) PcPreparing w4)"
      by (intro step.still_queued[OF w4(1)]) (simp_all add: w4)
    from reachable.move[OF r4 this] show ?thesis
      using False by (intro exI conjI) (assumption, simp_all add: w4 js5_def)
  qed
  then obtain w5 where w5: "reachable w0 w5" "w_threads w5 = (w_threads w)(r \<mapsto> t PcPreparing)" "w_now w5 = e_now e"
      "w_queue w5 = w_queue w4" "w_jobs w5 = js5" "w_plans w5 = w_plans w" "w_trace w5 = w_trace w" by blast
  have "\<exists>w6. reachable w0 w6 \<and> w_threads w6 = (w_threads w)(r \<mapsto> t PcAwaiting) \<and> w_now w6 = e_now e \<and> w_queue w6 = w_queue w5 \<and> w_jobs w6 = js5
      \<and> w_trace w6 = (if sp_prepare sp then [Consumed (sp_plan_hash sp) i] else []) @ w_trace w"
  proof (cases "sp_prepare sp")
    case False
    have "step w5 (Some r) (goto r (t PcPreparing) PcAwaiting w5)" by (rule step.no_prepare) (simp_all add: w5 False)
    from reachable.move[OF w5(1) this] show ?thesis using False by (intro exI conjI) (assumption, simp_all add: w5)
  next
    case True
    obtain ps where ps: "consume_plan e (sp_plan_hash (th_spec (t PcPreparing))) i (w_plans w5) = (ps, None)"
      using sp[OF True] w5(6) by (metis prod.collapse t_simps(1))
    have "step w5 (Some r) (goto r (t PcPreparing) PcAwaiting (w5\<lparr>w_now := e_now e, w_plans := ps,
        w_trace := Consumed (sp_plan_hash (th_spec (t PcPreparing))) i # w_trace w5\<rparr>))"
      by (rule step.prepared[OF _ _ _ _ _ ps]) (simp_all add: w5 True)
    from reachable.move[OF w5(1) this] show ?thesis using True by (intro exI conjI) (assumption, simp_all add: w5)
  qed
  then obtain w6 where r6: "reachable w0 w6" and w6s: "w_threads w6 = (w_threads w)(r \<mapsto> t PcAwaiting)" "w_now w6 = e_now e"
      "w_queue w6 = w_queue w5" "w_jobs w6 = js5" "w_trace w6 = (if sp_prepare sp then [Consumed (sp_plan_hash sp) i] else []) @ w_trace w" by blast
  have w6: "w_threads w6 r = Some (t PcAwaiting)" "w_queue w6 = name_ticket r i (w_queue w)"
    by (simp_all add: w6s w5 w4)
  define w7 where "w7 = goto r (t PcAwaiting) PcCalled (w6\<lparr>w_queue := receive r (w_queue w6)\<rparr>)"
  have r7: "reachable w0 w7" unfolding w7_def
    by (rule reachable.move[OF r6], rule step.called[OF w6(1)]) (simp_all add: w6 ch)
  have w7: "w_threads w7 r = Some (t PcCalled)" "w_now w7 = e_now e" "granted (w_queue w7) r = granted (w_queue w) r"
    "w_jobs w7 = js5" "w_queue w7 = receive r (name_ticket r i (w_queue w))" "w_threads w7 = (w_threads w)(r \<mapsto> t PcCalled)"
    by (simp_all add: w7_def w6) (simp_all add: w6s w5)
  have tr7: "w_trace w7 = (if sp_prepare sp then [Consumed (sp_plan_hash sp) i] else []) @ w_trace w" by (simp add: w7_def w6s)
  define w8 where "w8 = goto r (t PcCalled) PcWorking (w7\<lparr>w_now := e_now e,
      w_jobs := (if granted (w_queue w7) r then w_jobs w7 else start_job e i (w_jobs w7)),
      w_trace := (if sp_prepare (th_spec (t PcCalled)) then [Worked (sp_plan_hash (th_spec (t PcCalled))) i] else []) @ w_trace w7\<rparr>)"
  have r8: "reachable w0 w8" unfolding w8_def
    by (rule reachable.move[OF r7], rule step.start_work[OF w7(1)]) (simp_all add: w7)
  let ?j = "j\<lparr>j_status := JobRunning, j_started := Some (e_now e)\<rparr>"
  have "js_jobs (w_jobs w8) = (js_jobs (w_jobs w))(i \<mapsto> ?j)"
    by (simp add: w8_def w7 js5_def start_job_def update_job_def js)
  then show ?thesis
    by (intro that[OF r8, of ?j]) (simp_all add: w8_def w7 tr7 t_def[symmetric] jf)
qed

lemma run_ticket:
  fixes e :: env
  assumes reach: "reachable w0 w" and th: "w_threads w r = Some \<lparr>th_spec = sp, th_job = None, th_pc = PcTicket\<rparr>"
    and ch: "tk_ch (q_tickets (w_queue w) r) = Some True" and sp: "\<not> sp_prepare sp"
    and e: "w_now w \<le> e_now e" "e_write e" "e_order e = []"
    and i: "i = new_job_id (e_now e) rnd" "i \<notin> dom (js_jobs (w_jobs w))" "i \<notin> busy_job_ids w"
  obtains w' j where "reachable w0 w'" "w_threads w' = (w_threads w)(r \<mapsto> \<lparr>th_spec = sp, th_job = Some i, th_pc = PcWorking\<rparr>)"
    "w_queue w' = receive r (name_ticket r i (w_queue w))" "w_now w' = e_now e"
    "js_jobs (w_jobs w') = (js_jobs (w_jobs w))(i \<mapsto> j)" "j_status j = JobRunning" "j_started j = Some (e_now e)" "j_finished j = None"
proof -
  have "sp_prepare sp \<Longrightarrow> snd (consume_plan e (sp_plan_hash sp) i (w_plans w)) = None" using sp by simp
  from run_ticket_prepared[OF reach th ch this e i] show ?thesis using that by metis
qed

lemma demo_w1:
  obtains w where "reachable demo_w0 w" "w_now w = 0" "js_jobs (w_jobs w) = Map.empty"
    "w_threads w = [0 \<mapsto> \<lparr>th_spec = demo_spec, th_job = None, th_pc = PcTicket\<rparr>, 1 \<mapsto> \<lparr>th_spec = demo_spec, th_job = None, th_pc = PcTicket\<rparr>]"
    "q_waiting (w_queue w) = [1]" "tk_ch (q_tickets (w_queue w) 0) = Some True" "\<not> q_closed (w_queue w)"
proof -
  let ?t = "\<lparr>th_spec = demo_spec, th_job = None, th_pc = PcTicket\<rparr>"
  obtain q1 where q1: "enqueue new_queue = Inr (0, q1)" and q1s: "q_busy q1" "\<not> q_closed q1" "q_waiting q1 = []"
    "q_next q1 = 1" "tk_ch (q_tickets q1 0) = Some True"
    by (simp add: enqueue_def new_queue_def new_ticket_def set_ticket_def)
  define w1 where "w1 = demo_w0\<lparr>w_queue := q1, w_threads := (w_threads demo_w0)(0 \<mapsto> ?t)\<rparr>"
  have "step demo_w0 None w1" unfolding w1_def by (rule step.queue_job) (simp add: demo_w0_def q1)
  then have r1: "reachable demo_w0 w1" by (rule reachable.move[OF reachable.start])
  obtain q2 where q2: "enqueue q1 = Inr (1, q2)" and q2s: "q_waiting q2 = [1]" "tk_ch (q_tickets q2 0) = Some True" "\<not> q_closed q2"
    using q1s by (simp add: enqueue_def new_ticket_def set_ticket_def maxQueuedJobs_def Let_def)
  define w2 where "w2 = w1\<lparr>w_queue := q2, w_threads := (w_threads w1)(1 \<mapsto> ?t)\<rparr>"
  have "step w1 None w2" unfolding w2_def by (rule step.queue_job) (simp add: w1_def q2)
  then have "reachable demo_w0 w2" by (rule reachable.move[OF r1])
  then show ?thesis by (rule that) (simp_all add: w2_def w1_def demo_w0_def q2s)
qed

lemma demo_run:
  obtains w t j where "reachable demo_w0 w" "w_threads w 0 = Some t" "th_pc t = PcEnding None True"
    "th_job t = Some demo_id" "get_job (w_jobs w) demo_id = Some j" "j_status j = JobRunning"
    "1 \<in> set (q_waiting (w_queue w))" "j_started j = Some (1700000000 * second)" "w_now w = 1700000000 * second"
    "q_waiting (w_queue w) = [1]" "\<not> q_closed (w_queue w)" "js_jobs (w_jobs w) = [demo_id \<mapsto> j]"
    "w_threads w = [0 \<mapsto> t, 1 \<mapsto> \<lparr>th_spec = demo_spec, th_job = None, th_pc = PcTicket\<rparr>]"
proof -
  let ?e = "demo_e 1700000000" and ?u = "\<lparr>th_spec = demo_spec, th_job = None, th_pc = PcTicket\<rparr>"
  obtain w where w: "reachable demo_w0 w" "w_now w = 0" "js_jobs (w_jobs w) = Map.empty" "w_threads w = [0 \<mapsto> ?u, 1 \<mapsto> ?u]"
    "q_waiting (w_queue w) = [1]" "tk_ch (q_tickets (w_queue w) 0) = Some True" "\<not> q_closed (w_queue w)"
    by (rule demo_w1)
  have id: "demo_id = new_job_id (e_now ?e) [0, 0, 0, 42]" using demo_new_job_id by (simp add: demo_e_def)
  have pre: "w_threads w 0 = Some ?u" "\<not> sp_prepare demo_spec" "w_now w \<le> e_now ?e" "e_write ?e" "e_order ?e = []"
    "demo_id \<notin> dom (js_jobs (w_jobs w))" "demo_id \<notin> busy_job_ids w"
    by (auto simp: w demo_spec_def demo_e_def busy_job_ids_def split: if_splits)
  obtain w8 j where w8: "reachable demo_w0 w8"
    "w_threads w8 = (w_threads w)(0 \<mapsto> \<lparr>th_spec = demo_spec, th_job = Some demo_id, th_pc = PcWorking\<rparr>)"
    "w_queue w8 = receive 0 (name_ticket 0 demo_id (w_queue w))" "w_now w8 = e_now ?e"
    "js_jobs (w_jobs w8) = (js_jobs (w_jobs w))(demo_id \<mapsto> j)" "j_status j = JobRunning" "j_started j = Some (e_now ?e)" "j_finished j = None"
    by (rule run_ticket[OF w(1) pre(1) w(6) pre(2-5) id pre(6,7)])
  let ?t = "\<lparr>th_spec = demo_spec, th_job = Some demo_id, th_pc = PcEnding None True\<rparr>"
  define w9 where "w9 = goto 0 \<lparr>th_spec = demo_spec, th_job = Some demo_id, th_pc = PcWorking\<rparr> (PcEnding None True) w8"
  have "reachable demo_w0 w9" unfolding w9_def
    by (rule reachable.move[OF w8(1)], rule step.work_over) (simp_all add: w8)
  moreover have "w_threads w9 = [0 \<mapsto> ?t, 1 \<mapsto> ?u]" by (simp add: w9_def w8 w fun_upd_twist)
  ultimately show ?thesis
    using w8(6,7) w(5,7) by (intro that[of w9 ?t j]) (simp_all add: w9_def w8 w get_job_def demo_e_def)
qed

text \<open>The first build ends, the second gets the host and works.\<close>

lemma demo_run2:
  obtains w t t' j j' i' where "reachable demo_w0 w" "w_threads w 0 = Some t" "th_job t = Some demo_id"
    "get_job (w_jobs w) demo_id = Some j" "j_started j = Some (1700000000 * second)"
    "w_threads w 1 = Some t'" "th_job t' = Some i'" "get_job (w_jobs w) i' = Some j'" "j_started j' = Some (1700000010 * second)" "j_finished j' = None"
proof -
  obtain w t j where w: "reachable demo_w0 w" "w_threads w 0 = Some t" "th_pc t = PcEnding None True"
    "th_job t = Some demo_id" "get_job (w_jobs w) demo_id = Some j" "j_status j = JobRunning"
    "1 \<in> set (q_waiting (w_queue w))" "j_started j = Some (1700000000 * second)" "w_now w = 1700000000 * second"
    "q_waiting (w_queue w) = [1]" "\<not> q_closed (w_queue w)" "js_jobs (w_jobs w) = [demo_id \<mapsto> j]"
    "w_threads w = [0 \<mapsto> t, 1 \<mapsto> \<lparr>th_spec = demo_spec, th_job = None, th_pc = PcTicket\<rparr>]"
    by (rule demo_run)
  let ?e = "demo_e 1700000005" and ?e' = "demo_e 1700000010"
  define w1 where "w1 = goto 0 t (if True then PcReleasing else PcOver)
      (w\<lparr>w_now := e_now ?e, w_jobs := finish_job ?e demo_id None (w_jobs w)\<rparr>)"
  have r1: "reachable demo_w0 w1" unfolding w1_def
    by (rule reachable.move[OF w(1)], rule step.finished[OF w(2,3,4)]) (simp add: w(9) demo_e_def)
  define w2 where "w2 = goto 0 (t\<lparr>th_pc := PcReleasing\<rparr>) PcOver (w1\<lparr>w_queue := release (w_queue w1)\<rparr>)"
  have r2: "reachable demo_w0 w2" unfolding w2_def
    by (rule reachable.move[OF r1], rule step.released) (simp_all add: w1_def)
  define j2 where "j2 = j\<lparr>j_finished := Some (e_now ?e), j_status := JobSucceeded\<rparr>"
  have jobs2: "js_jobs (w_jobs w2) = [demo_id \<mapsto> j2]" by (simp add: w2_def w1_def finish_job_def w(12) Let_def j2_def)
  have th2: "w_threads w2 = [0 \<mapsto> t\<lparr>th_pc := PcOver\<rparr>, 1 \<mapsto> \<lparr>th_spec = demo_spec, th_job = None, th_pc = PcTicket\<rparr>]"
    by (simp add: w2_def w1_def w(13) fun_upd_twist)
  let ?i = "new_job_id (e_now ?e') [0, 0, 0, 7]"
  have ne: "?i \<noteq> demo_id"
    by (simp add: demo_e_def new_job_id_def dec_string.simps hex_string_def hex_char_def digit_char_def demo_id_def char_of_def bit_Suc_0_iff)
  have pre: "w_threads w2 1 = Some \<lparr>th_spec = demo_spec, th_job = None, th_pc = PcTicket\<rparr>"
    "tk_ch (q_tickets (w_queue w2) 1) = Some True" "\<not> sp_prepare demo_spec" "w_now w2 \<le> e_now ?e'" "e_write ?e'" "e_order ?e' = []"
    by (simp_all add: th2) (simp_all add: w2_def w1_def release_simps w(10,11) demo_spec_def demo_e_def)
  have fresh: "?i \<notin> dom (js_jobs (w_jobs w2))" "?i \<notin> busy_job_ids w2"
    using ne w(4) by (auto simp: jobs2 busy_job_ids_def th2 split: if_splits)
  obtain w3 j3 where w3: "reachable demo_w0 w3"
    "w_threads w3 = (w_threads w2)(1 \<mapsto> \<lparr>th_spec = demo_spec, th_job = Some ?i, th_pc = PcWorking\<rparr>)"
    "w_queue w3 = receive 1 (name_ticket 1 ?i (w_queue w2))" "w_now w3 = e_now ?e'"
    "js_jobs (w_jobs w3) = (js_jobs (w_jobs w2))(?i \<mapsto> j3)" "j_status j3 = JobRunning" "j_started j3 = Some (e_now ?e')" "j_finished j3 = None"
    by (rule run_ticket[OF r2 pre refl fresh])
  show ?thesis
    by (rule that[OF w3(1), of "t\<lparr>th_pc := PcOver\<rparr>" j2 "\<lparr>th_spec = demo_spec, th_job = Some ?i, th_pc = PcWorking\<rparr>" ?i j3])
       (use ne w(4,8) w3(7) in \<open>simp_all add: w3 th2 get_job_def jobs2 j2_def demo_e_def\<close>)
qed

lemma demo_w0_init: "init_world demo_w0"
  by (simp add: init_world_def demo_w0_def)

subsection \<open>Properties\<close>

definition working :: "world \<Rightarrow> nat set" where
  "working w = {r. \<exists>t. w_threads w r = Some t \<and> th_pc t = PcWorking}"

definition shown_running :: "world \<Rightarrow> nat set" where
  "shown_running w = {r. \<exists>t i j. w_threads w r = Some t \<and> th_job t = Some i \<and> get_job (w_jobs w) i = Some j \<and> j_status j = JobRunning}"

lemma shown_running_holds:
  assumes run: "runner_ok w" and r: "r \<in> shown_running w"
  shows "holder (w_queue w) (grips w) r"
proof -
  obtain t i j where t: "w_threads w r = Some t" "th_job t = Some i" and j: "get_job (w_jobs w) i = Some j" "j_status j = JobRunning"
    using r by (auto simp: shown_running_def)
  have jo: "jobs_ok (w_now w) (granted (w_queue w)) (w_threads w) (stamps_of (w_jobs w))" and q: "queue_ok w"
    using run by (simp_all add: runner_ok_def)
  have v: "stamps_of (w_jobs w) i = Some (JobRunning, j_started j, j_finished j)"
    using j by (simp add: stamps_of_def get_job_def)
  have "stamps_ok (w_now w) (phase_of (granted (w_queue w) r) (th_pc t)) (JobRunning, j_started j, j_finished j)"
    by (rule jobs_ok_stamps[OF jo t v])
  moreover have "phase_of (granted (w_queue w) r) (th_pc t) \<noteq> Unborn"
    using jobs_ok_unborn[OF jo t(1)] t(2) by auto
  ultimately have "phase_of (granted (w_queue w) r) (th_pc t) = Going"
    by (cases "phase_of (granted (w_queue w) r) (th_pc t)") auto
  then show ?thesis using going_holds[OF q t(1)] by simp
qed

text \<open>C1: The host runs one change at a time: in every state the daemon can reach, whatever requests
  arrive, fail, are refused or are cut off by a shutdown, at most one job's work is being done, and at
  most one of the jobs that wait or run shows as running.\<close>
theorem one_change_at_a_time:
  assumes "init_world w0" "reachable w0 w"
  shows "(r \<in> working w \<and> r' \<in> working w \<longrightarrow> r = r') \<and> (r \<in> shown_running w \<and> r' \<in> shown_running w \<longrightarrow> r = r')"
proof -
  have run: "runner_ok w" by (rule runner_ok_reachable[OF assms])
  then have host: "host_ok (w_queue w) (grips w)" by (simp add: runner_ok_def queue_ok_def)
  have "holder (w_queue w) (grips w) x" if "x \<in> working w" for x
    using that by (auto simp: working_def holder_def grips_at)
  then show ?thesis
    using host_ok_one[OF host] shown_running_holds[OF run] by blast
qed

theorem one_change_at_a_time_witness:
  "\<exists>w. reachable demo_w0 w \<and> 0 \<in> shown_running w \<and> (\<forall>r. r \<noteq> 0 \<longrightarrow> r \<notin> shown_running w)"
proof -
  obtain w t j where w: "reachable demo_w0 w" "w_threads w 0 = Some t" "th_pc t = PcEnding None True"
    "th_job t = Some demo_id" "get_job (w_jobs w) demo_id = Some j" "j_status j = JobRunning"
    "1 \<in> set (q_waiting (w_queue w))"
    using demo_run by metis
  have "0 \<in> shown_running w" using w(2,4-6) by (auto simp: shown_running_def)
  moreover have "r \<notin> shown_running w" if "r \<noteq> 0" for r
    using one_change_at_a_time[OF demo_w0_init w(1), of r 0] calculation that by blast
  ultimately show ?thesis using w(1) by (intro exI[of _ w]) simp
qed

text \<open>C4: First come, first served: whoever holds the host (its job runs, or was told to, or is ending)
  asked for it before everybody who waits in line.\<close>
theorem host_first_come_first_served:
  assumes "init_world w0" "reachable w0 w" "r' \<in> set (q_waiting (w_queue w))"
    and "w_threads w r = Some t" "th_pc t \<in> {PcCalled, PcWorking, PcReleasing} \<or> r \<in> shown_running w"
  shows "r < r'"
proof -
  have run: "runner_ok w" by (rule runner_ok_reachable[OF assms(1,2)])
  then have host: "host_ok (w_queue w) (grips w)" by (simp add: runner_ok_def queue_ok_def)
  have "holder (w_queue w) (grips w) r"
  proof (cases "r \<in> shown_running w")
    case True
    then show ?thesis by (rule shown_running_holds[OF run])
  next
    case False
    then show ?thesis using assms(4,5) by (auto simp: holder_def grips_at)
  qed
  then show ?thesis using host_ok_fifo[OF host] assms(3) by blast
qed

theorem host_first_come_first_served_witness:
  "\<exists>w. reachable demo_w0 w \<and> 0 \<in> shown_running w \<and> 1 \<in> set (q_waiting (w_queue w)) \<and> (0::nat) < 1"
proof -
  obtain w t j where w: "reachable demo_w0 w" "w_threads w 0 = Some t" "th_pc t = PcEnding None True"
    "th_job t = Some demo_id" "get_job (w_jobs w) demo_id = Some j" "j_status j = JobRunning"
    "1 \<in> set (q_waiting (w_queue w))"
    using demo_run by metis
  have run: "0 \<in> shown_running w" using w(2,4-6) by (auto simp: shown_running_def)
  have "(0::nat) < 1" by (rule host_first_come_first_served[OF demo_w0_init w(1,7,2)]) (simp add: run)
  then show ?thesis using run w(1,7) by (intro exI[of _ w]) simp
qed

text \<open>The times on the job records do not overlap: of two jobs that were both started, one had
  finished, by its own record, before the other started. (The order of \<open>Finish\<close> and \<open>release\<close> in \<open>launch\<close>
  is what makes this true.)\<close>
theorem job_times_disjoint:
  assumes "init_world w0" "reachable w0 w" "r \<noteq> r'"
    and "w_threads w r = Some t" "th_job t = Some i" "get_job (w_jobs w) i = Some j" "j_started j = Some s"
    and "w_threads w r' = Some t'" "th_job t' = Some i'" "get_job (w_jobs w) i' = Some j'" "j_started j' = Some s'"
  shows "(\<exists>f. j_finished j = Some f \<and> f \<le> s') \<or> (\<exists>f. j_finished j' = Some f \<and> f \<le> s)"
proof -
  have jo: "jobs_ok (w_now w) (granted (w_queue w)) (w_threads w) (stamps_of (w_jobs w))"
    using runner_ok_reachable[OF assms(1,2)] by (simp add: runner_ok_def)
  have "apart (j_status j, j_started j, j_finished j) (j_status j', j_started j', j_finished j')"
    by (rule jobs_ok_apart[OF jo assms(4,5) _ assms(8,9) _ assms(3)])
       (use assms in \<open>simp_all add: stamps_of_def get_job_def\<close>)
  then show ?thesis using assms(7,11) by (auto simp: apart_def)
qed

theorem job_times_disjoint_witness:
  "\<exists>w j. reachable demo_w0 w \<and> get_job (w_jobs w) demo_id = Some j
     \<and> (\<exists>f. j_finished j = Some f \<and> f \<le> 1700000010 * second)"
proof -
  obtain w t t' j j' i' where w: "reachable demo_w0 w" "w_threads w 0 = Some t" "th_job t = Some demo_id"
    "get_job (w_jobs w) demo_id = Some j" "j_started j = Some (1700000000 * second)"
    "w_threads w 1 = Some t'" "th_job t' = Some i'" "get_job (w_jobs w) i' = Some j'" "j_started j' = Some (1700000010 * second)"
    and nf: "j_finished j' = None"
    by (rule demo_run2)
  have "(\<exists>f. j_finished j = Some f \<and> f \<le> 1700000010 * second) \<or> (\<exists>f. j_finished j' = Some f \<and> f \<le> 1700000000 * second)"
    by (rule job_times_disjoint[OF demo_w0_init w(1) _ w(2-9)]) simp
  then show ?thesis using w(1,4) nf by (intro exI[of _ w] exI[of _ j]) simp
qed

lemma count_events_or: "count_events (\<lambda>e. p e \<or> q e) tr \<le> count_events p tr + count_events q tr"
  by (induction tr) simp_all

text \<open>C3: An apply's work never runs without an admin's approval of its plan, however requests interleave: the applies of a
  plan that were started never outnumber the calls of \<open>Approve\<close> that gave it an approval, answering without an error
  (counting one that was there when the daemon started). Only an approval whose record could not be written counts although
  it was answered with an error; a refused one never does.\<close>
theorem work_needs_approval:
  assumes "init_world w0" "reachable w0 w"
  shows "count_events (is_worked h) (w_trace w)
    \<le> count_events (is_approved h) (w_trace w) + count_events (is_unwritten h) (w_trace w) + (if plan_live (w_plans w0) h then 1 else 0)"
proof -
  have tr: "trace_ok (plan_live (w_plans w0)) w" by (rule trace_ok_reachable[OF assms])
  let ?wk = "filter (is_worked h) (w_trace w)" and ?cs = "filter (is_consumed h) (w_trace w)"
  have shape: "e \<in> set ?wk \<Longrightarrow> \<exists>i. e = Worked h i \<and> Consumed h i \<in> set ?cs" for e
    using trace_ok_consumed[OF tr] by (cases e) auto
  define f where "f e = (case e of Worked h i \<Rightarrow> Consumed h i | e \<Rightarrow> e)" for e
  have "inj_on f (set ?wk)"
  proof (rule inj_onI)
    fix x y assume "x \<in> set ?wk" "y \<in> set ?wk" "f x = f y"
    then show "x = y" using shape[of x] shape[of y] by (auto simp: f_def)
  qed
  then have "card (set ?wk) = card (f ` set ?wk)" by (simp add: card_image)
  also have "\<dots> \<le> card (set ?cs)"
  proof (rule card_mono)
    show "f ` set ?wk \<subseteq> set ?cs"
    proof
      fix x assume "x \<in> f ` set ?wk"
      then obtain e where "e \<in> set ?wk" "x = f e" by blast
      then show "x \<in> set ?cs" using shape[of e] by (auto simp: f_def)
    qed
  qed simp
  also have "\<dots> \<le> length ?cs" by (rule card_length)
  finally have "length ?wk \<le> length ?cs"
    using distinct_card[OF trace_ok_distinct[OF tr]] by simp
  then show ?thesis using trace_ok_count[OF tr, of h] count_events_or[of "is_approved h" "is_unwritten h" "w_trace w"] by (simp add: count_events_def)
qed

text \<open>A plan is seen, approved, and applied.\<close>

definition apply_spec :: job_spec where
  "apply_spec = \<lparr>sp_kind = ''apply'', sp_actor = ''ci'', sp_sha = [], sp_subject = [], sp_plan_hash = sn_hash demo_seen, sp_prepare = True\<rparr>"

definition unapproved_w0 :: world where
  "unapproved_w0 = demo_w0\<lparr>w_plans := fst (record_plan (demo_env 5) demo_seen \<lparr>ps_byid = Map.empty, ps_disk = Map.empty, ps_ttl = hour\<rparr>)\<rparr>"

lemma apply_run:
  obtains w i where "reachable unapproved_w0 w" "w_trace w = [Worked (sn_hash demo_seen) i, Consumed (sn_hash demo_seen) i, Approved (sn_hash demo_seen)]"
proof -
  let ?h = "sn_hash demo_seen" and ?t = "\<lparr>th_spec = apply_spec, th_job = None, th_pc = PcTicket\<rparr>" and ?e = "demo_e 20"
  let ?op = "OpApprove (demo_env 10) ?h ''ann''"
  have given: "approves_plan ?h ?op (w_plans unapproved_w0)"
    by (simp add: unapproved_w0_def demo_plan_defs)
  define w1 where "w1 = unapproved_w0\<lparr>w_plans := demo_plans, w_trace := [Approved ?h]\<rparr>"
  have "plan_step ?op (w_plans unapproved_w0) = demo_plans" by (simp add: unapproved_w0_def demo_plans_def)
  moreover have "approval_events ?op (w_plans unapproved_w0) @ w_trace unapproved_w0 = [Approved ?h]"
    using given by (simp add: unapproved_w0_def demo_w0_def)
  ultimately have "w1 = unapproved_w0\<lparr>w_plans := plan_step ?op (w_plans unapproved_w0), w_trace := approval_events ?op (w_plans unapproved_w0) @ w_trace unapproved_w0\<rparr>"
    by (simp only: w1_def)
  then have "step unapproved_w0 None w1" by (metis is_consume.simps(3) step.plan_request)
  then have r1: "reachable unapproved_w0 w1" by (rule reachable.move[OF reachable.start])
  have w1: "w_queue w1 = new_queue" "w_now w1 = 0" "js_jobs (w_jobs w1) = Map.empty" "w_threads w1 = Map.empty"
    by (simp_all add: w1_def unapproved_w0_def demo_w0_def)
  obtain q where q: "try_ticket new_queue = Some (0, q)" "tk_ch (q_tickets q 0) = Some True"
    by (simp add: try_ticket_def new_queue_def new_ticket_def set_ticket_def)
  define w2 where "w2 = w1\<lparr>w_queue := q, w_threads := (w_threads w1)(0 \<mapsto> ?t\<lparr>th_pc := PcPlanning\<rparr>)\<rparr>"
  have "step w1 None w2" unfolding w2_def using step.handle_apply[of w1 0 q apply_spec] by (simp add: w1 q(1) apply_spec_def)
  then have r2: "reachable unapproved_w0 w2" by (rule reachable.move[OF r1])
  have chk: "check_plan (e_now ?e) demo_plans ?h = None"
    by (simp add: check_plan_def demo_plan_defs demo_e_def)
  define w3 where "w3 = goto 0 (?t\<lparr>th_pc := PcPlanning\<rparr>) PcTicket (w2\<lparr>w_now := e_now ?e\<rparr>)"
  have "step w2 (Some 0) w3" unfolding w3_def
    by (rule step.apply_launched) (simp_all add: w2_def w1 chk apply_spec_def, simp_all add: w1_def demo_e_def chk[unfolded demo_e_def, simplified])
  then have r3: "reachable unapproved_w0 w3" by (rule reachable.move[OF r2])
  have w3: "w_threads w3 0 = Some ?t" "tk_ch (q_tickets (w_queue w3) 0) = Some True" "w_now w3 \<le> e_now ?e" "e_write ?e" "e_order ?e = []"
    "w_plans w3 = demo_plans" "w_trace w3 = [Approved ?h]" "js_jobs (w_jobs w3) = Map.empty" "w_threads w3 = [0 \<mapsto> ?t]"
    by (simp_all add: w3_def w2_def w1 q(2) demo_e_def) (simp_all add: w1_def unapproved_w0_def demo_w0_def)
  define i where "i = new_job_id (e_now ?e) []"
  have used: "snd (consume_plan ?e (sp_plan_hash apply_spec) i (w_plans w3)) = None"
    using chk by (auto simp: apply_spec_def w3(6) consume_plan_def demo_plan_defs demo_e_def)
  have free: "i \<notin> dom (js_jobs (w_jobs w3))" "i \<notin> busy_job_ids w3" by (simp_all add: w3(8,9) busy_job_ids_def)
  show ?thesis
    by (rule run_ticket_prepared[OF r3 w3(1,2) used w3(3-5) i_def free])
       (rule that[of _ i], assumption, simp add: w3(7) apply_spec_def)
qed

theorem work_needs_approval_witness:
  "\<exists>w. reachable unapproved_w0 w \<and> count_events (is_worked (sn_hash demo_seen)) (w_trace w) = 1 \<and> count_events (is_approved (sn_hash demo_seen)) (w_trace w) = 1
     \<and> \<not> plan_live (w_plans unapproved_w0) (sn_hash demo_seen)
     \<and> count_events (is_worked (sn_hash demo_seen)) (w_trace w) \<le> count_events (is_approved (sn_hash demo_seen)) (w_trace w)"
proof -
  obtain w i where w: "reachable unapproved_w0 w" "w_trace w = [Worked (sn_hash demo_seen) i, Consumed (sn_hash demo_seen) i, Approved (sn_hash demo_seen)]"
    by (rule apply_run)
  have ini: "init_world unapproved_w0" using demo_w0_init by (simp add: init_world_def unapproved_w0_def)
  have "\<not> plan_live (w_plans unapproved_w0) (sn_hash demo_seen)"
    by (simp add: unapproved_w0_def plan_live_def demo_plan_defs)
  then show ?thesis using work_needs_approval[OF ini w(1), of "sn_hash demo_seen"] w by (intro exI[of _ w]) (simp add: count_events_def)
qed

inductive thread_steps :: "world \<Rightarrow> world \<Rightarrow> bool" where
  none: "thread_steps w w"
| more: "step w (Some r) w1 \<Longrightarrow> thread_steps w1 w2 \<Longrightarrow> thread_steps w w2"

text \<open>C5: No change is stuck: whatever state the daemon is in, with nothing more arriving, every run of
  the threads comes to an end within a number of steps fixed by that state, and it ends only when every
  request is over; such a run exists. (A job's work is one step here: that it returns is the work's own
  affair.)\<close>
theorem queue_drains:
  assumes "init_world w0" "reachable w0 w"
  shows "\<exists>w'. thread_steps w w' \<and> (\<forall>r t. w_threads w' r = Some t \<longrightarrow> th_pc t = PcOver)"
  using assms(2)
proof (induction "steps_left w" arbitrary: w rule: less_induct)
  case less
  have run: "runner_ok w" by (rule runner_ok_reachable[OF assms(1) less.prems])
  have nm: "jobs_named w" by (rule jobs_named_reachable[OF assms(1) less.prems])
  show ?case
  proof (cases "\<exists>r t. w_threads w r = Some t \<and> th_pc t \<noteq> PcOver")
    case True
    then obtain r w1 where s: "step w (Some r) w1" using someone_can_move[OF run nm] by blast
    have "steps_left w1 < steps_left w" using steps_left_decreases[OF _ s] run by (simp add: runner_ok_def)
    then obtain w' where "thread_steps w1 w'" "\<forall>r t. w_threads w' r = Some t \<longrightarrow> th_pc t = PcOver"
      using less.hyps[of w1] reachable.move[OF less.prems s] by blast
    then show ?thesis using thread_steps.more[OF s] by blast
  next
    case False
    then show ?thesis using thread_steps.none by blast
  qed
qed

theorem queue_drains_witness:
  "\<exists>w w'. reachable demo_w0 w \<and> 1 \<in> set (q_waiting (w_queue w))
     \<and> thread_steps w w' \<and> (\<forall>r t. w_threads w' r = Some t \<longrightarrow> th_pc t = PcOver)"
proof -
  obtain w t j where w: "reachable demo_w0 w" "w_threads w 0 = Some t" "th_pc t = PcEnding None True"
    "th_job t = Some demo_id" "get_job (w_jobs w) demo_id = Some j" "j_status j = JobRunning"
    "1 \<in> set (q_waiting (w_queue w))"
    using demo_run by metis
  obtain w' where "thread_steps w w'" "\<forall>r t. w_threads w' r = Some t \<longrightarrow> th_pc t = PcOver"
    using queue_drains[OF demo_w0_init w(1)] by (elim exE conjE)
  then show ?thesis using w(1,7) by (intro exI[of _ w] exI[of _ w']) simp
qed

text \<open>A job is recorded as finished BEFORE the host is released: the step that records the end of a
  job that held the host leaves the host taken, so a client that sees "succeeded" and at once asks for
  the host can still be answered "busy".\<close>
theorem finished_before_released:
  assumes "init_world w0" "reachable w0 w" "w_threads w r = Some t" "th_pc t = PcEnding err True"
    and "step w (Some r) w'" "th_job t = Some i" "get_job (w_jobs w) i = Some j"
  shows "(\<exists>j'. get_job (w_jobs w') i = Some j' \<and> j_status j' = (if err = None then JobSucceeded else JobFailed))
    \<and> try_ticket (w_queue w') = None"
proof -
  have host: "host_ok (w_queue w) (grips w)"
    using runner_ok_reachable[OF assms(1,2)] by (simp add: runner_ok_def queue_ok_def)
  have "holder (w_queue w) (grips w) r" using assms(3,4) by (simp add: holder_def grips_at)
  then have "try_ticket (w_queue w) = None" using host_ok_busy[OF host] by (auto simp: try_ticket_def)
  moreover obtain e where "w' = goto r t PcReleasing (w\<lparr>w_now := e_now e, w_jobs := finish_job e i err (w_jobs w)\<rparr>)"
    using assms(5) by cases (use assms(3,4,6) in auto)
  ultimately show ?thesis
    using assms(7) by (cases err) (auto simp: get_job_def finish_job_def Let_def)
qed

theorem finished_before_released_witness:
  "\<exists>w w' j'. reachable demo_w0 w \<and> step w (Some 0) w' \<and> get_job (w_jobs w') demo_id = Some j'
     \<and> j_status j' = JobSucceeded \<and> try_ticket (w_queue w') = None"
proof -
  obtain w t j where w: "reachable demo_w0 w" "w_threads w 0 = Some t" "th_pc t = PcEnding None True"
    "th_job t = Some demo_id" "get_job (w_jobs w) demo_id = Some j" "j_status j = JobRunning"
    "1 \<in> set (q_waiting (w_queue w))"
    using demo_run by metis
  obtain w' where s: "step w (Some 0) w'"
    using thread_can_move[OF runner_ok_reachable[OF demo_w0_init w(1)] jobs_named_reachable[OF demo_w0_init w(1)] w(2)] w(3) by auto
  obtain j' where "get_job (w_jobs w') demo_id = Some j'" "j_status j' = JobSucceeded" "try_ticket (w_queue w') = None"
    using finished_before_released[OF demo_w0_init w(1,2,3) s w(4,5)] by (elim exE conjE) simp
  then show ?thesis using w(1) s by (intro exI[of _ w] exI[of _ w'] exI[of _ j']) simp
qed

end
