(* ===== verification/Labels.thy ===== *)
theory Labels
  imports Go_Strings "HOL-Library.AList" "HOL-Library.List_Lexorder" "HOL-Library.Char_ord"
begin

text \<open>
  The label vocabulary (\<open>pkg/labels/labels.go\<close>), where labels live in an instance's configuration
  (\<open>pkg/incus/labels.go\<close>), and the plan/apply pair that keeps an instance's labels as declared
  (\<open>pkg/engine/labels.go\<close>).

  A Go \<open>map[string]string\<close> is an association list here, in any order; looking a key up is \<open>map_of\<close>.
  \<open>sort.Strings\<close> is \<open>sort\<close> at the lexicographic order of byte strings. A call to Incus may fail:
  \<open>fail k\<close> says the call about label \<open>k\<close> returns an error, having changed nothing.
\<close>

type_synonym smap = "(string \<times> string) list"

subsection \<open>The vocabulary\<close>

definition environments :: "string list" where
  "environments = [''production'', ''staging'', ''testing'', ''development'', ''demo'']"

definition environment_label :: string where "environment_label = ''environment''"

definition max_labels :: nat where "max_labels = 16"

definition valid_label_key :: "string \<Rightarrow> bool" where \<comment> \<open>\<open>^[a-z][a-z0-9-]{0,31}$\<close>\<close>
  "valid_label_key k \<longleftrightarrow> (case k of [] \<Rightarrow> False
     | c # cs \<Rightarrow> is_lower c \<and> length cs \<le> 31 \<and> list_all (\<lambda>c. is_lower c \<or> is_digit c \<or> c = CHR ''-'') cs)"

definition valid_label_value :: "string \<Rightarrow> bool" where \<comment> \<open>\<open>^[A-Za-z0-9][A-Za-z0-9._-]{0,62}$\<close>\<close>
  "valid_label_value v \<longleftrightarrow> (case v of [] \<Rightarrow> False
     | c # cs \<Rightarrow> is_alnum c \<and> length cs \<le> 62 \<and> list_all (\<lambda>c. is_alnum c \<or> c \<in> set ''._-'') cs)"

datatype label_error = TooManyLabels | BadLabelName string | BadLabelValue string | BadEnvironment string

fun validate_each :: "smap \<Rightarrow> label_error option" where
  "validate_each [] = None"
| "validate_each ((k, v) # rest) =
     (if \<not> valid_label_key k then Some (BadLabelName k)
      else if \<not> valid_label_value v then Some (BadLabelValue k)
      else if k = environment_label \<and> v \<notin> set environments then Some (BadEnvironment v)
      else validate_each rest)"

definition validate_labels :: "smap \<Rightarrow> label_error option" where
  "validate_labels labels = (if length labels > max_labels then Some TooManyLabels else validate_each labels)"

subsection \<open>Labels in an instance's configuration\<close>

definition label_prefix :: string where "label_prefix = ''user.native-ops.label.''"

definition label_key :: "string \<Rightarrow> string" where "label_key k = label_prefix @ k"

definition labels_of :: "smap \<Rightarrow> smap" where
  "labels_of cfg = map (\<lambda>(k, v). (trim_prefix k label_prefix, v)) (filter (\<lambda>(k, v). prefix label_prefix k) cfg)"

definition sorted_keys :: "smap \<Rightarrow> string list" where "sorted_keys m = sort (map fst m)"

fun set_wanted :: "(string \<Rightarrow> bool) \<Rightarrow> smap \<Rightarrow> smap \<Rightarrow> string list \<Rightarrow> smap \<Rightarrow> smap \<times> bool" where
  "set_wanted fail have_l want [] cfg = (cfg, True)"
| "set_wanted fail have_l want (k # ks) cfg =
     (if map_of have_l k = None \<or> map_of have_l k \<noteq> map_of want k
      then if fail k then (cfg, False)
           else set_wanted fail have_l want ks (AList.update (label_key k) (the (map_of want k)) cfg)
      else set_wanted fail have_l want ks cfg)"

fun unset_unwanted :: "(string \<Rightarrow> bool) \<Rightarrow> smap \<Rightarrow> string list \<Rightarrow> smap \<Rightarrow> smap \<times> bool" where
  "unset_unwanted fail want [] cfg = (cfg, True)"
| "unset_unwanted fail want (k # ks) cfg =
     (if map_of want k = None
      then if fail k then (cfg, False) else unset_unwanted fail want ks (AList.delete (label_key k) cfg)
      else unset_unwanted fail want ks cfg)"

definition reconcile_labels :: "(string \<Rightarrow> bool) \<Rightarrow> smap \<Rightarrow> smap \<Rightarrow> smap \<times> bool" where
  "reconcile_labels fail cfg want =
     (let have_l = labels_of cfg;
          (cfg1, ok) = set_wanted fail have_l want (sorted_keys want) cfg
      in if \<not> ok then (cfg1, False) else unset_unwanted fail want (sorted_keys have_l) cfg1)"

definition or_none :: "string \<Rightarrow> string" where "or_none s = (if s = [] then ''(unset)'' else s)"

definition value_or_empty :: "string option \<Rightarrow> string" where
  "value_or_empty v = (case v of None \<Rightarrow> [] | Some s \<Rightarrow> s)"

text \<open>\<open>want\<close> is None for a manifest without \<open>labels:\<close>.\<close>

definition labels_drift :: "smap \<Rightarrow> smap option \<Rightarrow> string list" where
  "labels_drift cfg w = (case w of None \<Rightarrow> []
     | Some want \<Rightarrow>
        (let have_l = labels_of cfg in
         map (\<lambda>k. k @ '': '' @ or_none (value_or_empty (map_of have_l k)) @ '' -> '' @ value_or_empty (map_of want k))
           (filter (\<lambda>k. map_of have_l k = None \<or> map_of have_l k \<noteq> map_of want k) (sorted_keys want))
       @ map (\<lambda>k. k @ '': '' @ value_or_empty (map_of have_l k) @ '' -> (removed)'')
           (filter (\<lambda>k. map_of want k = None) (sorted_keys have_l))))"

text \<open>\<open>SetLabels\<close> on the configuration \<open>cfg\<close> the instance has. The order the new set is visited in is
  an argument of the validation only through the error it names first.\<close>

definition set_labels :: "(string \<Rightarrow> bool) \<Rightarrow> smap \<Rightarrow> smap \<Rightarrow> string list \<Rightarrow> smap \<times> label_error option \<times> bool" where
  "set_labels fail cfg set_l remove =
     (let want = fold (\<lambda>(k, v). AList.update k v) set_l (fold AList.delete remove (labels_of cfg))
      in case validate_labels want of
           Some e \<Rightarrow> (cfg, Some e, False)
         | None \<Rightarrow> (let (cfg', ok) = reconcile_labels fail cfg want in (cfg', None, ok)))"

definition format_labels :: "smap \<Rightarrow> string" where
  "format_labels l =
     (if l = [] then ''(none)''
      else join_with '' '' (map (\<lambda>k. k @ ''='' @ value_or_empty (map_of l k)) (sorted_keys l)))"

subsection \<open>Reading labels back\<close>

lemma label_key_inj [simp]: "label_key a = label_key b \<longleftrightarrow> a = b"
  by (simp add: label_key_def)

lemma trim_label_key [simp]: "trim_prefix (label_key k) label_prefix = k"
  by (simp add: trim_prefix_def label_key_def)

lemma prefix_label: "prefix label_prefix k \<longleftrightarrow> (\<exists>l. k = label_key l)"
  by (auto simp: label_key_def prefix_def)

lemma labels_of_simps [simp]:
  "labels_of [] = []"
  "labels_of ((label_key k, v) # cfg) = (k, v) # labels_of cfg"
  "\<not> prefix label_prefix x \<Longrightarrow> labels_of ((x, v) # cfg) = labels_of cfg"
  by (simp_all add: labels_of_def prefix_label)

lemma map_of_labels: "map_of (labels_of cfg) k = map_of cfg (label_key k)"
proof (induction cfg)
  case (Cons kv cfg)
  obtain x v where kv: "kv = (x, v)" by force
  show ?case
  proof (cases "prefix label_prefix x")
    case True
    then obtain l where "x = label_key l" by (auto simp: prefix_label)
    then show ?thesis using Cons kv by simp
  next
    case False
    then have "x \<noteq> label_key k" by (auto simp: prefix_label)
    then show ?thesis using Cons kv False by simp
  qed
qed simp

lemma set_sorted_keys [simp]: "set (sorted_keys m) = dom (map_of m)"
  by (simp add: sorted_keys_def dom_map_of_conv_image_fst)

lemma map_of_update [simp]: "map_of (AList.update k v m) = (map_of m)(k \<mapsto> v)"
  by (rule update_conv')

lemma map_of_delete [simp]: "map_of (AList.delete k m) = (map_of m)(k := None)"
  by (rule delete_conv')

text \<open>What a pass of calls leaves, whether or not it got to its end: the labels in some set \<open>D\<close> are as
  declared, everything else is as it was, and a pass that ended left nothing to do.\<close>

lemma set_wanted_done:
  assumes "set_wanted fail have_l want ks cfg = (cfg', ok)" "set ks \<subseteq> dom (map_of want)"
  shows "\<exists>D \<subseteq> set ks. (\<forall>k. map_of cfg' (label_key k) = (if k \<in> D then map_of want k else map_of cfg (label_key k)))
    \<and> (\<forall>x. \<not> prefix label_prefix x \<longrightarrow> map_of cfg' x = map_of cfg x)
    \<and> (ok \<longrightarrow> (\<forall>k \<in> set ks - D. map_of have_l k = map_of want k))
    \<and> (\<not> ok \<longrightarrow> (\<exists>k \<in> set ks. fail k \<and> map_of have_l k \<noteq> map_of want k))"
  using assms
proof (induction ks arbitrary: cfg)
  case Nil
  then show ?case by (intro exI[of _ "{}"]) auto
next
  case (Cons k ks)
  obtain v where v: "map_of want k = Some v" using Cons.prems(2) by auto
  have sub: "set ks \<subseteq> dom (map_of want)" using Cons.prems(2) by simp
  consider (same) "map_of have_l k = Some v" | (fails) "map_of have_l k \<noteq> Some v" "fail k"
    | (sets) "map_of have_l k \<noteq> Some v" "\<not> fail k" by blast
  then show ?case
  proof cases
    case same
    then have c: "set_wanted fail have_l want ks cfg = (cfg', ok)" using Cons.prems(1) v by simp
    obtain D where "D \<subseteq> set ks" "\<forall>k. map_of cfg' (label_key k) = (if k \<in> D then map_of want k else map_of cfg (label_key k))"
      "\<forall>x. \<not> prefix label_prefix x \<longrightarrow> map_of cfg' x = map_of cfg x"
      "ok \<longrightarrow> (\<forall>k \<in> set ks - D. map_of have_l k = map_of want k)"
      "\<not> ok \<longrightarrow> (\<exists>k \<in> set ks. fail k \<and> map_of have_l k \<noteq> map_of want k)"
      using Cons.IH[OF c sub] by blast
    then show ?thesis using same v by (intro exI[of _ D]) auto
  next
    case fails
    then have "cfg' = cfg" "\<not> ok" using Cons.prems(1) v by auto
    then show ?thesis using fails v by (intro exI[of _ "{}"]) auto
  next
    case sets
    then have c: "set_wanted fail have_l want ks (AList.update (label_key k) v cfg) = (cfg', ok)"
      using Cons.prems(1) v by auto
    obtain D where D: "D \<subseteq> set ks"
      "\<forall>l. map_of cfg' (label_key l) = (if l \<in> D then map_of want l else map_of (AList.update (label_key k) v cfg) (label_key l))"
      "\<forall>x. \<not> prefix label_prefix x \<longrightarrow> map_of cfg' x = map_of (AList.update (label_key k) v cfg) x"
      "ok \<longrightarrow> (\<forall>k \<in> set ks - D. map_of have_l k = map_of want k)"
      "\<not> ok \<longrightarrow> (\<exists>k \<in> set ks. fail k \<and> map_of have_l k \<noteq> map_of want k)"
      using Cons.IH[OF c sub] by blast
    have "map_of cfg' (label_key l) = (if l \<in> insert k D then map_of want l else map_of cfg (label_key l))" for l
      using D(2) v by simp
    moreover have "\<not> prefix label_prefix x \<longrightarrow> map_of cfg' x = map_of cfg x" for x
      using D(3) by (auto simp: prefix_label)
    ultimately show ?thesis using D by (intro exI[of _ "insert k D"]) auto
  qed
qed

lemma unset_unwanted_done:
  assumes "unset_unwanted fail want ks cfg = (cfg', ok)"
  shows "\<exists>D \<subseteq> set ks. (\<forall>k. map_of cfg' (label_key k) = (if k \<in> D then None else map_of cfg (label_key k)))
    \<and> (\<forall>x. \<not> prefix label_prefix x \<longrightarrow> map_of cfg' x = map_of cfg x)
    \<and> (\<forall>k \<in> D. map_of want k = None)
    \<and> (ok \<longrightarrow> (\<forall>k \<in> set ks - D. map_of want k \<noteq> None))
    \<and> (\<not> ok \<longrightarrow> (\<exists>k \<in> set ks. fail k \<and> map_of want k = None))"
  using assms
proof (induction ks arbitrary: cfg)
  case Nil
  then show ?case by (intro exI[of _ "{}"]) auto
next
  case (Cons k ks)
  consider (same) "map_of want k \<noteq> None" | (fails) "map_of want k = None" "fail k" | (unsets) "map_of want k = None" "\<not> fail k"
    by blast
  then show ?case
  proof cases
    case same
    then have c: "unset_unwanted fail want ks cfg = (cfg', ok)" using Cons.prems(1) by auto
    obtain D where "D \<subseteq> set ks" "\<forall>k. map_of cfg' (label_key k) = (if k \<in> D then None else map_of cfg (label_key k))"
      "\<forall>x. \<not> prefix label_prefix x \<longrightarrow> map_of cfg' x = map_of cfg x" "\<forall>k \<in> D. map_of want k = None"
      "ok \<longrightarrow> (\<forall>k \<in> set ks - D. map_of want k \<noteq> None)" "\<not> ok \<longrightarrow> (\<exists>k \<in> set ks. fail k \<and> map_of want k = None)"
      using Cons.IH[OF c] by blast
    then show ?thesis using same by (intro exI[of _ D]) auto
  next
    case fails
    then have "cfg' = cfg" "\<not> ok" using Cons.prems(1) by auto
    then show ?thesis using fails by (intro exI[of _ "{}"]) auto
  next
    case unsets
    then have c: "unset_unwanted fail want ks (AList.delete (label_key k) cfg) = (cfg', ok)"
      using Cons.prems(1) by simp
    obtain D where D: "D \<subseteq> set ks"
      "\<forall>l. map_of cfg' (label_key l) = (if l \<in> D then None else map_of (AList.delete (label_key k) cfg) (label_key l))"
      "\<forall>x. \<not> prefix label_prefix x \<longrightarrow> map_of cfg' x = map_of (AList.delete (label_key k) cfg) x"
      "\<forall>k \<in> D. map_of want k = None"
      "ok \<longrightarrow> (\<forall>k \<in> set ks - D. map_of want k \<noteq> None)" "\<not> ok \<longrightarrow> (\<exists>k \<in> set ks. fail k \<and> map_of want k = None)"
      using Cons.IH[OF c] by blast
    have "map_of cfg' (label_key l) = (if l \<in> insert k D then None else map_of cfg (label_key l))" for l
      using D(2) by simp
    moreover have "\<not> prefix label_prefix x \<longrightarrow> map_of cfg' x = map_of cfg x" for x
      using D(3) by (auto simp: prefix_label)
    ultimately show ?thesis using D unsets by (intro exI[of _ "insert k D"]) auto
  qed
qed

lemma reconcile_result:
  assumes "reconcile_labels fail cfg want = (cfg', ok)"
  shows "(\<forall>k. map_of (labels_of cfg') k = map_of (labels_of cfg) k \<or> map_of (labels_of cfg') k = map_of want k)
    \<and> (\<forall>x. \<not> prefix label_prefix x \<longrightarrow> map_of cfg' x = map_of cfg x)
    \<and> (ok \<longrightarrow> map_of (labels_of cfg') = map_of want)
    \<and> (\<not> ok \<longrightarrow> (\<exists>k. fail k \<and> map_of (labels_of cfg) k \<noteq> map_of want k))"
proof -
  obtain cfg1 ok1 where s: "set_wanted fail (labels_of cfg) want (sorted_keys want) cfg = (cfg1, ok1)" by force
  obtain D where D: "D \<subseteq> dom (map_of want)"
    "\<forall>k. map_of cfg1 (label_key k) = (if k \<in> D then map_of want k else map_of cfg (label_key k))"
    "\<forall>x. \<not> prefix label_prefix x \<longrightarrow> map_of cfg1 x = map_of cfg x"
    "ok1 \<longrightarrow> (\<forall>k \<in> dom (map_of want) - D. map_of (labels_of cfg) k = map_of want k)"
    "\<not> ok1 \<longrightarrow> (\<exists>k \<in> dom (map_of want). fail k \<and> map_of (labels_of cfg) k \<noteq> map_of want k)"
    using set_wanted_done[OF s] by auto
  show ?thesis
  proof (cases ok1)
    case False
    then have "cfg' = cfg1" "\<not> ok" using assms s by (auto simp: reconcile_labels_def)
    then show ?thesis using D False by (auto simp: map_of_labels)
  next
    case True
    then have u: "unset_unwanted fail want (sorted_keys (labels_of cfg)) cfg1 = (cfg', ok)"
      using assms s by (auto simp: reconcile_labels_def)
    obtain E where E: "E \<subseteq> dom (map_of (labels_of cfg))"
      "\<forall>k. map_of cfg' (label_key k) = (if k \<in> E then None else map_of cfg1 (label_key k))"
      "\<forall>x. \<not> prefix label_prefix x \<longrightarrow> map_of cfg' x = map_of cfg1 x" "\<forall>k \<in> E. map_of want k = None"
      "ok \<longrightarrow> (\<forall>k \<in> dom (map_of (labels_of cfg)) - E. map_of want k \<noteq> None)"
      "\<not> ok \<longrightarrow> (\<exists>k \<in> dom (map_of (labels_of cfg)). fail k \<and> map_of want k = None)"
      using unset_unwanted_done[OF u] by auto
    have "map_of (labels_of cfg') k = map_of want k" if ok for k
    proof (cases "map_of want k")
      case None
      then have "k \<notin> D" using D(1) by auto
      moreover have "map_of cfg (label_key k) \<noteq> None \<longrightarrow> k \<in> E"
        using E(5) that None map_of_labels[of cfg k] by (metis DiffI domIff)
      ultimately show ?thesis using D(2) E(2) None by (auto simp: map_of_labels)
    next
      case (Some v)
      then have "k \<notin> E" using E(4) by auto
      moreover have "k \<in> D \<or> map_of cfg (label_key k) = Some v"
        using D(4) True Some map_of_labels[of cfg k] by (metis DiffI domI)
      ultimately
      show ?thesis using D(2) E(2) Some by (auto simp: map_of_labels)
    qed
    moreover have "map_of (labels_of cfg') k = map_of (labels_of cfg) k \<or> map_of (labels_of cfg') k = map_of want k" for k
      using D(2) E(2,4) by (auto simp: map_of_labels)
    moreover have "\<not> ok \<longrightarrow> (\<exists>k. fail k \<and> map_of (labels_of cfg) k \<noteq> map_of want k)" using E(6) by fastforce
    ultimately show ?thesis using D(3) E(3) by auto
  qed
qed

subsection \<open>Plan and apply\<close>

lemma labels_drift_None [simp]: "labels_drift cfg None = []"
  by (simp add: labels_drift_def)

lemma labels_drift_Nil: "labels_drift cfg (Some want) = [] \<longleftrightarrow> map_of (labels_of cfg) = map_of want"
proof
  assume d: "labels_drift cfg (Some want) = []"
  show "map_of (labels_of cfg) = map_of want"
  proof
    fix k
    show "map_of (labels_of cfg) k = map_of want k"
    proof (cases "map_of want k")
      case (Some v)
      then have "k \<in> set (sorted_keys want)" by auto
      then show ?thesis using d by (auto simp: labels_drift_def Let_def filter_empty_conv)
    next
      case None
      have "k \<notin> set (sorted_keys (labels_of cfg))"
        using d None by (auto simp: labels_drift_def Let_def filter_empty_conv simp del: set_sorted_keys)
      then show ?thesis using None by (simp add: domIff)
    qed
  qed
next
  assume "map_of (labels_of cfg) = map_of want"
  then show "labels_drift cfg (Some want) = []"
    by (auto simp: labels_drift_def Let_def filter_empty_conv)
qed

lemma set_wanted_same:
  "\<forall>k \<in> set ks. map_of have_l k \<noteq> None \<and> map_of have_l k = map_of want k \<Longrightarrow> set_wanted fail have_l want ks cfg = (cfg, True)"
proof (induction ks)
  case (Cons a ks)
  then have "map_of have_l a \<noteq> None" "map_of have_l a = map_of want a" "set_wanted fail have_l want ks cfg = (cfg, True)"
    by (metis list.set_intros)+
  then show ?case by auto
qed simp

lemma unset_unwanted_same:
  "\<forall>k \<in> set ks. map_of want k \<noteq> None \<Longrightarrow> unset_unwanted fail want ks cfg = (cfg, True)"
  by (induction ks) auto

lemma reconcile_same:
  assumes "map_of (labels_of cfg) = map_of want"
  shows "reconcile_labels fail cfg want = (cfg, True)"
proof -
  have "set_wanted fail (labels_of cfg) want (sorted_keys want) cfg = (cfg, True)"
    by (rule set_wanted_same) (use assms in auto)
  moreover have "unset_unwanted fail want (sorted_keys (labels_of cfg)) cfg = (cfg, True)"
    by (rule unset_unwanted_same) (use assms in auto)
  ultimately show ?thesis by (simp add: reconcile_labels_def)
qed

lemma reconcile_no_failure: "snd (reconcile_labels (\<lambda>_. False) cfg want)"
  using reconcile_result[of "\<lambda>_. False" cfg want] by (cases "reconcile_labels (\<lambda>_. False) cfg want") auto

definition converge_labels :: "smap option \<Rightarrow> smap \<Rightarrow> smap" where
  "converge_labels w cfg = (case w of None \<Rightarrow> cfg | Some want \<Rightarrow> fst (reconcile_labels (\<lambda>_. False) cfg want))"

interpretation labels_conv: convergence "\<lambda>w cfg. labels_drift cfg w" converge_labels "\<lambda>_. True"
proof (unfold_locales, goal_cases)
  case (1 w l)
  then show ?case by (cases w) (simp_all add: converge_labels_def labels_drift_Nil reconcile_same)
next
  case (2 w l)
  show ?case
  proof (cases w)
    case (Some want)
    obtain cfg' ok where r: "reconcile_labels (\<lambda>_. False) l want = (cfg', ok)" by force
    then show ?thesis
      using reconcile_result[OF r] by (simp add: Some converge_labels_def labels_drift_Nil)
  qed (simp add: converge_labels_def)
qed

subsection \<open>Properties\<close>

text \<open>C29: What a plan shows is what an apply changes. Planning again after an apply shows no label drift;
  an apply after a plan that shows none calls nothing and changes nothing; applying twice is applying
  once.\<close>
theorem labels_plan_apply:
  "labels_drift (converge_labels w cfg) w = []
   \<and> (converge_labels w cfg \<noteq> cfg \<longrightarrow> labels_drift cfg w \<noteq> [])
   \<and> (converge_labels w ^^ Suc n) cfg = converge_labels w cfg"
  using labels_conv.converged labels_conv.drift_iff_change labels_conv.apply_twice by blast

theorem labels_plan_apply_witness:
  "labels_drift (converge_labels (Some [(''app'', ''crm'')]) [(label_key ''app'', ''git'')]) (Some [(''app'', ''crm'')]) = []"
  using labels_plan_apply[of "Some [(''app'', ''crm'')]" "[(label_key ''app'', ''git'')]" 0] by blast

text \<open>Setting an instance's labels does exactly that or says why not. A set that would not be valid
  changes nothing. Otherwise every other configuration key keeps its value and, when no call to Incus
  fails, the instance has the labels it had, less the removed ones, with the new ones set; when one
  fails, each label has its old value or its new one.\<close>
theorem set_labels_result:
  assumes "set_labels fail cfg set_l remove = (cfg', err, ok)" "distinct (map fst set_l)"
    and "want = (\<lambda>k. if map_of set_l k \<noteq> None then map_of set_l k
                     else if k \<in> set remove then None else map_of (labels_of cfg) k)"
  shows "(err \<noteq> None \<longrightarrow> cfg' = cfg \<and> \<not> ok)
    \<and> (\<forall>x. \<not> prefix label_prefix x \<longrightarrow> map_of cfg' x = map_of cfg x)
    \<and> (ok \<longrightarrow> map_of (labels_of cfg') = want)
    \<and> (\<forall>k. map_of (labels_of cfg') k = map_of (labels_of cfg) k \<or> map_of (labels_of cfg') k = want k)
    \<and> ((\<forall>k. \<not> fail k) \<longrightarrow> err = None \<longrightarrow> ok)"
proof -
  let ?want = "fold (\<lambda>(k, v). AList.update k v) set_l (fold AList.delete remove (labels_of cfg))"
  have del: "map_of (fold AList.delete ks m) k = (if k \<in> set ks then None else map_of m k)" for ks m and k :: string
    by (induction ks arbitrary: m) auto
  have upd: "distinct (map fst l) \<Longrightarrow> map_of (fold (\<lambda>(k, v). AList.update k v) l m) k
      = (if map_of l k \<noteq> None then map_of l k else map_of m k)" for l m and k :: string
  proof (induction l arbitrary: m)
    case (Cons kv l)
    obtain a b where kv: "kv = (a, b)" by force
    have "map_of l a = None" using Cons.prems kv by (simp add: map_of_eq_None_iff)
    then show ?case using Cons kv by auto
  qed simp
  have w: "map_of ?want = want"
    by (rule ext) (simp add: upd[OF assms(2)] del assms(3))
  show ?thesis
  proof (cases "validate_labels ?want")
    case (Some e)
    then have "cfg' = cfg" "err = Some e" "\<not> ok" using assms(1) by (auto simp: set_labels_def Let_def)
    then show ?thesis by simp
  next
    case None
    then have r: "reconcile_labels fail cfg ?want = (cfg', ok)" and e: "err = None"
      using assms(1) by (auto simp: set_labels_def Let_def split: prod.splits)
    show ?thesis using reconcile_result[OF r] e by (auto simp: w)
  qed
qed

theorem set_labels_result_witness:
  "let r = set_labels (\<lambda>_. False) [(label_key ''app'', ''git''), (''limits.cpu'', ''2'')] [(''environment'', ''staging'')] [''app'']
   in fst (snd r) = None \<and> map_of (fst r) ''limits.cpu'' = Some ''2''
    \<and> map_of (labels_of (fst r)) ''environment'' = Some ''staging'' \<and> map_of (labels_of (fst r)) ''app'' = None"
proof -
  let ?cfg = "[(label_key ''app'', ''git''), (''limits.cpu'', ''2'')]"
  obtain cfg' err ok where r: "set_labels (\<lambda>_. False) ?cfg [(''environment'', ''staging'')] [''app''] = (cfg', err, ok)"
    by (metis prod_cases3)
  have e: "err = None"
    using r by (auto simp: set_labels_def validate_labels_def max_labels_def valid_label_key_def valid_label_value_def
        environments_def environment_label_def char_class_defs Let_def label_key_def label_prefix_def labels_of_def trim_prefix_def
        split: prod.splits)
  have np: "\<not> prefix label_prefix ''limits.cpu''" by (simp add: label_prefix_def)
  note res = set_labels_result[OF r _ refl]
  have ok: ok using res e by simp
  have "map_of (labels_of cfg') = (\<lambda>k. if map_of [(''environment'', ''staging'')] k \<noteq> None then map_of [(''environment'', ''staging'')] k
      else if k \<in> set [''app''] then None else map_of (labels_of ?cfg) k)"
    using res ok by simp
  moreover have "map_of cfg' ''limits.cpu'' = map_of ?cfg ''limits.cpu''" using res np by simp
  ultimately show ?thesis
    unfolding Let_def r by (simp add: e map_of_labels label_key_def label_prefix_def)
qed

end
