(* ===== verification/Tokens.thy ===== *)
theory Tokens
  imports Labels
begin

text \<open>
  API tokens: roles, scopes and the token file (\<open>pkg/server/tokens.go\<close>).

  \<^item> SHA-256 in hex is an argument \<open>H\<close>; the random bytes of a new secret are an argument.
  \<^item> The token file is shared with \<open>native-ops token\<close> on the host, so it is part of the state: its
    content, a stamp standing for its identity, modification time and size (what \<open>reload\<close> compares),
    whether only its owner may read it, and whether it reads and parses.
  \<^item> A Go \<open>map[string][]string\<close> of label patterns is an association list in the order it is visited.
\<close>

subsection \<open>Roles\<close>

datatype role = RoleUnknown | RoleViewer | RolePlanner | RoleDeployer | RoleAdmin

fun role_rank :: "role \<Rightarrow> nat" where
  "role_rank RoleViewer = 1"
| "role_rank RolePlanner = 2"
| "role_rank RoleDeployer = 3"
| "role_rank RoleAdmin = 4"
| "role_rank RoleUnknown = 0"

definition allows :: "role \<Rightarrow> role \<Rightarrow> bool" where
  "allows r needed \<longleftrightarrow> role_rank r > 0 \<and> role_rank r \<ge> role_rank needed"

definition valid_role :: "role \<Rightarrow> bool" where "valid_role r \<longleftrightarrow> role_rank r > 0"

text \<open>The roles are linearly ordered by what they may do.\<close>

instantiation role :: linorder
begin

definition less_eq_role :: "role \<Rightarrow> role \<Rightarrow> bool" where "less_eq_role r s \<longleftrightarrow> role_rank r \<le> role_rank s"
definition less_role :: "role \<Rightarrow> role \<Rightarrow> bool" where "less_role r s \<longleftrightarrow> role_rank r < role_rank s"

instance
proof
  fix r s :: role
  show "r \<le> s \<Longrightarrow> s \<le> r \<Longrightarrow> r = s"
    by (cases r; cases s) (simp_all add: less_eq_role_def)
qed (auto simp: less_eq_role_def less_role_def)

end

lemma allows_iff: "allows r needed \<longleftrightarrow> r \<noteq> RoleUnknown \<and> needed \<le> r"
  by (cases r) (simp_all add: allows_def less_eq_role_def)

lemma allows_trans: "allows r s \<Longrightarrow> allows s t \<Longrightarrow> allows r t"
  by (auto simp: allows_iff)

lemma role_le_simps [simp]:
  "RoleViewer \<le> r \<longleftrightarrow> r \<noteq> RoleUnknown" "RoleAdmin \<le> r \<longleftrightarrow> r = RoleAdmin" "r \<le> RoleAdmin"
  by (cases r; simp add: less_eq_role_def)+

subsection \<open>Scopes\<close>

record scope =
  sc_names :: "string list"
  sc_images :: "string list"
  sc_domains :: "string list"
  sc_labels :: "(string \<times> string list) list"
  sc_secrets :: "string list"

definition no_scope :: scope where
  "no_scope = \<lparr>sc_names = [], sc_images = [], sc_domains = [], sc_labels = [], sc_secrets = []\<rparr>"

definition scope_any :: "scope \<Rightarrow> bool" where
  "scope_any s \<longleftrightarrow> 0 < length (sc_names s) + length (sc_images s) + length (sc_domains s) + length (sc_labels s) + length (sc_secrets s)"

definition secrets_only :: "scope option \<Rightarrow> bool" where
  "secrets_only s \<longleftrightarrow> (case s of None \<Rightarrow> False | Some sc \<Rightarrow> length (sc_secrets sc) > 0)"

definition service_prefix :: string where "service_prefix = ''SERVICE_''" \<comment> \<open>\<open>config.SecretPrefix\<close>\<close>

definition allows_secret :: "scope option \<Rightarrow> string \<Rightarrow> bool" where
  "allows_secret s name =
     (case s of None \<Rightarrow> False
      | Some sc \<Rightarrow> if \<not> secrets_only s \<or> \<not> prefix service_prefix name then False
                  else list_ex (\<lambda>p. glob p name) (sc_secrets sc))"

definition secret_pattern_ok :: "string \<Rightarrow> bool" where \<comment> \<open>\<open>^SERVICE_[A-Z0-9_*?]{1,56}$\<close>\<close>
  "secret_pattern_ok p \<longleftrightarrow> prefix service_prefix p
     \<and> (let r = drop (length service_prefix) p in 1 \<le> length r \<and> length r \<le> 56
          \<and> list_all (\<lambda>c. is_upper c \<or> is_digit c \<or> c \<in> set ''_*?'') r)"

definition pattern_ok :: "string \<Rightarrow> bool" where \<comment> \<open>\<open>^[A-Za-z0-9*?._:/@-]{1,100}$\<close>\<close>
  "pattern_ok p \<longleftrightarrow> 1 \<le> length p \<and> length p \<le> 100 \<and> list_all (\<lambda>c. is_alnum c \<or> c \<in> set ''*?._:/@-'') p"

datatype scope_error =
    MixedSecrets | BadSecretPattern string | NeedsNamesAndImages | BadPattern string
  | BadScopeLabel string | NoLabelValues string | BadLabelPattern string | BadScopeEnvironment string

fun first_error :: "('a \<Rightarrow> 'e option) \<Rightarrow> 'a list \<Rightarrow> 'e option" where
  "first_error check [] = None"
| "first_error check (x # xs) = (case check x of Some e \<Rightarrow> Some e | None \<Rightarrow> first_error check xs)"

text \<open>The patterns the two expressions admit hold no bracket and no backslash, so \<open>path.Match\<close> never
  reports one as malformed and the second check of each loop never fires.\<close>

definition validate_label_values :: "string \<times> string list \<Rightarrow> scope_error option" where
  "validate_label_values kv =
     (let (k, values) = kv in
      if \<not> valid_label_key k then Some (BadScopeLabel k)
      else if length values = 0 then Some (NoLabelValues k)
      else first_error (\<lambda>v. if \<not> pattern_ok v then Some (BadLabelPattern v)
                            else if k = environment_label \<and> \<not> contains_any v ''*?['' \<and> v \<notin> set environments
                                 then Some (BadScopeEnvironment v) else None) values)"

definition validate_scope :: "scope \<Rightarrow> scope_error option" where
  "validate_scope s =
     (if \<not> scope_any s then None
      else if length (sc_secrets s) > 0 then
        (if length (sc_names s) + length (sc_images s) + length (sc_domains s) + length (sc_labels s) > 0 then Some MixedSecrets
         else first_error (\<lambda>p. if \<not> secret_pattern_ok p then Some (BadSecretPattern p) else None) (sc_secrets s))
      else if length (sc_names s) = 0 \<or> length (sc_images s) = 0 then Some NeedsNamesAndImages
      else case first_error (\<lambda>p. if \<not> pattern_ok p then Some (BadPattern p) else None)
                  (sc_names s @ sc_images s @ sc_domains s) of
             Some e \<Rightarrow> Some e
           | None \<Rightarrow> first_error validate_label_values (sc_labels s))"

fun add_label_values :: "string \<Rightarrow> string list \<Rightarrow> (string \<times> string list) list \<Rightarrow> (string \<times> string list) list" where
  "add_label_values k [] m = m"
| "add_label_values k (v # vs) m =
     (let v' = trim_space v in
      if v' \<noteq> [] then add_label_values k vs (AList.update k ((case map_of m k of None \<Rightarrow> [] | Some l \<Rightarrow> l) @ [v']) m)
      else add_label_values k vs m)"

fun parse_label_parts :: "string list \<Rightarrow> (string \<times> string list) list \<Rightarrow> string + (string \<times> string list) list" where
  "parse_label_parts [] out = Inr out"
| "parse_label_parts (part # parts) out =
     (case cut CHR ''='' (trim_space part) of
        None \<Rightarrow> Inl part
      | Some (k0, vs) \<Rightarrow>
          (let k = trim_space k0 in
           if k = [] \<or> trim_space vs = [] then Inl part
           else parse_label_parts parts (add_label_values k (split_on CHR '','' vs) out)))"

definition parse_label_scope :: "string \<Rightarrow> string + (string \<times> string list) list" where
  "parse_label_scope text =
     (if trim_space text = [] then Inr [] else parse_label_parts (split_on CHR '';'' (trim_space text)) [])"

definition allows_name :: "scope \<Rightarrow> string \<Rightarrow> bool" where "allows_name s n = match_any (sc_names s) n"
definition allows_image :: "scope \<Rightarrow> string \<Rightarrow> bool" where "allows_image s i = match_any (sc_images s) i"
definition allows_domain :: "scope \<Rightarrow> string \<Rightarrow> bool" where "allows_domain s d = match_any (sc_domains s) d"

definition allows_labels :: "scope \<Rightarrow> smap \<Rightarrow> bool" where
  "allows_labels s labels =
     list_all (\<lambda>(k, allowed). case map_of labels k of None \<Rightarrow> False | Some v \<Rightarrow> match_any allowed v) (sc_labels s)"

definition scope_summary :: "scope \<Rightarrow> string" where
  "scope_summary s =
     ''names='' @ join_with '','' (sc_names s) @ '' images='' @ join_with '','' (sc_images s) @ '' domains='' @ join_with '','' (sc_domains s)
     @ concat (map (\<lambda>k. '' '' @ k @ ''='' @ join_with '','' (case map_of (sc_labels s) k of None \<Rightarrow> [] | Some l \<Rightarrow> l))
                   (sort (map fst (sc_labels s))))"

subsection \<open>The token store\<close>

record token =
  to_id :: string
  to_name :: string
  to_role :: role
  to_scope :: "scope option"
  to_hash :: string
  to_created :: time

definition scoped :: "token \<Rightarrow> bool" where
  "scoped t \<longleftrightarrow> (case to_scope t of None \<Rightarrow> False | Some s \<Rightarrow> scope_any s)"

definition secret_prefix :: string where "secret_prefix = ''nops_''"

definition valid_secret_format :: "string \<Rightarrow> bool" where
  "valid_secret_format s \<longleftrightarrow> prefix secret_prefix s \<and> length s \<ge> length secret_prefix + 32
     \<and> \<not> contains_any s [CHR '' '', CHR 0x09, CHR 0x0D, CHR 0x0A]"

record token_file =
  tf_tokens :: "token list"
  tf_stamp :: nat
  tf_private :: bool
  tf_readable :: bool

record token_store =
  ts_tokens :: "token list"
  ts_loaded :: "nat option"
  ts_bootstrap :: "token option"
  ts_file :: "token_file option"

datatype token_error =
    TokenFileMode | TokenFileRead | TokenSave | BootstrapFormat | TokenName | TokenRole | TokenScope scope_error
  | ScopedNeedsDeployer | NoSuchToken

definition reload_tokens :: "bool \<Rightarrow> token_store \<Rightarrow> token_store \<times> token_error option" where
  "reload_tokens force ts =
     (case ts_file ts of
        None \<Rightarrow> (ts\<lparr>ts_tokens := [], ts_loaded := None\<rparr>, None)
      | Some f \<Rightarrow>
          if \<not> force \<and> ts_loaded ts = Some (tf_stamp f) then (ts, None)
          else if \<not> tf_private f then (ts, Some TokenFileMode)
          else if \<not> tf_readable f then (ts, Some TokenFileRead)
          else (ts\<lparr>ts_tokens := tf_tokens f, ts_loaded := Some (tf_stamp f)\<rparr>, None))"

definition open_token_store :: "token_file option \<Rightarrow> token_error + token_store" where
  "open_token_store file =
     (case reload_tokens True \<lparr>ts_tokens = [], ts_loaded = None, ts_bootstrap = None, ts_file = file\<rparr> of
        (ts, None) \<Rightarrow> Inr ts | (_, Some err) \<Rightarrow> Inl err)"

text \<open>\<open>save\<close>: \<open>ok\<close> says the temporary file was written and renamed, \<open>stamp\<close> is the new file's.\<close>

definition save_tokens :: "bool \<Rightarrow> nat \<Rightarrow> token_store \<Rightarrow> token_store \<times> token_error option" where
  "save_tokens ok stamp ts =
     (if ok then (ts\<lparr>ts_file := Some \<lparr>tf_tokens = ts_tokens ts, tf_stamp = stamp, tf_private = True, tf_readable = True\<rparr>,
                     ts_loaded := Some stamp\<rparr>, None)
      else (ts, Some TokenSave))"

definition bootstrap_token :: "string \<Rightarrow> token" where
  "bootstrap_token h = \<lparr>to_id = ''bootstrap'', to_name = ''bootstrap'', to_role = RoleAdmin, to_scope = None, to_hash = h, to_created = 0\<rparr>"

definition set_bootstrap :: "(string \<Rightarrow> string) \<Rightarrow> string \<Rightarrow> token_store \<Rightarrow> token_store \<times> token_error option" where
  "set_bootstrap H secret ts =
     (if \<not> valid_secret_format secret then (ts, Some BootstrapFormat)
      else (ts\<lparr>ts_bootstrap := Some (bootstrap_token (H secret))\<rparr>, None))"

definition set_bootstrap_hash :: "string \<Rightarrow> token_store \<Rightarrow> token_store \<times> token_error option" where
  "set_bootstrap_hash sum0 ts =
     (let sum = to_lower (trim_space sum0) in
      if length sum \<noteq> 64 \<or> trim_right is_hex (trim_left is_hex sum) \<noteq> [] then (ts, Some BootstrapFormat)
      else (ts\<lparr>ts_bootstrap := Some (bootstrap_token sum)\<rparr>, None))"

definition new_token :: "string \<Rightarrow> string \<Rightarrow> role \<Rightarrow> scope \<Rightarrow> time \<Rightarrow> token" where
  "new_token h name r sc now =
     \<lparr>to_id = take 8 h, to_name = name, to_role = r, to_scope = (if scope_any sc then Some sc else None),
      to_hash = h, to_created = now\<rparr>"

definition create_scoped ::
  "(string \<Rightarrow> string) \<Rightarrow> time \<Rightarrow> nat list \<Rightarrow> bool \<Rightarrow> nat \<Rightarrow> string \<Rightarrow> role \<Rightarrow> scope \<Rightarrow> token_store
     \<Rightarrow> token_store \<times> (token_error + string \<times> token)" where
  "create_scoped H now rnd ok stamp name0 r sc ts =
     (let name = trim_space name0 in
      if name = [] \<or> length name > 60 \<or> contains_any name [CHR 0x0A, CHR 0x0D] then (ts, Inl TokenName)
      else if \<not> valid_role r then (ts, Inl TokenRole)
      else case validate_scope sc of
        Some e \<Rightarrow> (ts, Inl (TokenScope e))
      | None \<Rightarrow>
          if scope_any sc \<and> r \<noteq> RoleDeployer then (ts, Inl ScopedNeedsDeployer)
          else let secret = secret_prefix @ hex_string rnd;
                   h = H secret;
                   t = new_token h name r sc now
               in case reload_tokens True ts of
                    (ts1, Some e) \<Rightarrow> (ts1, Inl e)
                  | (ts1, None) \<Rightarrow>
                      (case save_tokens ok stamp (ts1\<lparr>ts_tokens := ts_tokens ts1 @ [t]\<rparr>) of
                         (ts2, Some e) \<Rightarrow> (ts2, Inl e)
                       | (ts2, None) \<Rightarrow> (ts2, Inr (secret, t))))"

fun remove_first :: "('a \<Rightarrow> bool) \<Rightarrow> 'a list \<Rightarrow> 'a list option" where
  "remove_first p [] = None"
| "remove_first p (x # xs) = (if p x then Some xs else map_option (Cons x) (remove_first p xs))"

definition revoke_token :: "bool \<Rightarrow> nat \<Rightarrow> string \<Rightarrow> token_store \<Rightarrow> token_store \<times> token_error option" where
  "revoke_token ok stamp i ts =
     (case reload_tokens True ts of
        (ts1, Some e) \<Rightarrow> (ts1, Some e)
      | (ts1, None) \<Rightarrow>
          (case remove_first (\<lambda>t. to_id t = i) (ts_tokens ts1) of
             Some rest \<Rightarrow> save_tokens ok stamp (ts1\<lparr>ts_tokens := rest\<rparr>)
           | None \<Rightarrow> (ts1, Some NoSuchToken)))"

definition list_tokens :: "token_store \<Rightarrow> token_store \<times> (token_error + token list)" where
  "list_tokens ts =
     (case reload_tokens True ts of
        (ts1, Some e) \<Rightarrow> (ts1, Inl e)
      | (ts1, None) \<Rightarrow> (ts1, Inr (map (\<lambda>t. t\<lparr>to_hash := []\<rparr>) (ts_tokens ts1))))"

definition consider_token :: "string \<Rightarrow> token \<Rightarrow> token option \<Rightarrow> token option" where
  "consider_token h t found = (if to_hash t = h then Some t else found)"

definition verify_token :: "(string \<Rightarrow> string) \<Rightarrow> string \<Rightarrow> token_store \<Rightarrow> token_store \<times> token option" where
  "verify_token H secret ts =
     (if \<not> valid_secret_format secret then (ts, None)
      else let h = H secret;
               ts1 = fst (reload_tokens False ts);
               found0 = (case ts_bootstrap ts1 of None \<Rightarrow> None | Some b \<Rightarrow> consider_token h b None)
           in (ts1, fold (consider_token h) (ts_tokens ts1) found0))"

subsection \<open>Facts\<close>

lemma reload_same [simp]:
  "ts_file (fst (reload_tokens f ts)) = ts_file ts" "ts_bootstrap (fst (reload_tokens f ts)) = ts_bootstrap ts"
  by (auto simp: reload_tokens_def split: option.splits)

lemma fold_consider: "fold (consider_token h) ts f =
    (let hits = filter (\<lambda>t. to_hash t = h) ts in if hits = [] then f else Some (last hits))"
  by (induction ts arbitrary: f) (auto simp: consider_token_def Let_def)

lemma save_reload:
  "save_tokens ok stamp ts = (ts', None) \<Longrightarrow> reload_tokens False ts' = (ts', None) \<and> ts_tokens ts' = ts_tokens ts
     \<and> ts_bootstrap ts' = ts_bootstrap ts \<and> ok \<and> ts_file ts' = Some \<lparr>tf_tokens = ts_tokens ts, tf_stamp = stamp, tf_private = True, tf_readable = True\<rparr>"
  by (auto simp: save_tokens_def reload_tokens_def split: if_splits)

lemma create_scoped_Inr:
  assumes "create_scoped H now rnd ok stamp name r sc ts = (ts', Inr (secret, t))"
  shows "secret = secret_prefix @ hex_string rnd \<and> to_hash t = H secret \<and> to_role t = r \<and> valid_role r \<and> validate_scope sc = None
     \<and> (scope_any sc \<longrightarrow> r = RoleDeployer) \<and> to_scope t = (if scope_any sc then Some sc else None) \<and> to_id t = take 8 (H secret)
     \<and> (\<exists>ts1. reload_tokens True ts = (ts1, None) \<and> save_tokens ok stamp (ts1\<lparr>ts_tokens := ts_tokens ts1 @ [t]\<rparr>) = (ts', None))"
  using assms by (auto simp: create_scoped_def new_token_def[abs_def] Let_def split: if_splits option.splits prod.splits)

lemma hex_string_plain: "list_all (\<lambda>b. b < 256) rnd \<Longrightarrow> c \<in> set (hex_string rnd) \<Longrightarrow> is_hex c"
  using hex_string_hex[of rnd] by (auto simp: list_all_iff)

lemma new_secret_format:
  assumes "length rnd = 32" "list_all (\<lambda>b. b < 256) rnd"
  shows "valid_secret_format (secret_prefix @ hex_string rnd)"
proof -
  have "\<not> contains_any (hex_string rnd) [CHR '' '', CHR 0x09, CHR 0x0D, CHR 0x0A]"
    using hex_string_plain[OF assms(2)]
    by (fastforce simp: contains_any_def list_ex_iff is_hex_def is_digit_def in_range_def)
  then show ?thesis
    using hex_string_hex[OF assms(2)] assms(1)
    by (simp add: valid_secret_format_def secret_prefix_def contains_any_def)
qed

lemma remove_first_Some:
  "remove_first p xs = Some ys \<Longrightarrow> \<exists>a x b. xs = a @ x # b \<and> p x \<and> (\<forall>y \<in> set a. \<not> p y) \<and> ys = a @ b"
proof (induction xs arbitrary: ys)
  case (Cons x xs)
  show ?case
  proof (cases "p x")
    case True
    then show ?thesis using Cons.prems by (intro exI[of _ "[]"]) auto
  next
    case False
    then obtain zs where z: "remove_first p xs = Some zs" "ys = x # zs" using Cons.prems by auto
    then obtain a y b where "xs = a @ y # b \<and> p y \<and> (\<forall>y \<in> set a. \<not> p y) \<and> zs = a @ b" using Cons.IH by blast
    then show ?thesis using z False by (intro exI[of _ "x # a"] exI[of _ y] exI[of _ b]) auto
  qed
qed simp

lemma first_error_None: "first_error check xs = None \<longleftrightarrow> (\<forall>x \<in> set xs. check x = None)"
  by (induction xs) (auto split: option.splits)

subsection \<open>Properties\<close>

text \<open>A new token works at once: the secret handed out with it verifies as exactly that token,
  whatever other tokens the file holds.\<close>
theorem create_then_verify:
  assumes "create_scoped H now rnd ok stamp name r sc ts = (ts', Inr (secret, t))"
    and "length rnd = 32" "list_all (\<lambda>b. b < 256) rnd"
  shows "verify_token H secret ts' = (ts', Some t)"
proof -
  obtain ts1 where ts1: "save_tokens ok stamp (ts1\<lparr>ts_tokens := ts_tokens ts1 @ [t]\<rparr>) = (ts', None)"
    and s: "secret = secret_prefix @ hex_string rnd" "to_hash t = H secret"
    using create_scoped_Inr[OF assms(1)] by blast
  have "valid_secret_format secret" using new_secret_format[OF assms(2,3)] s by simp
  moreover have "reload_tokens False ts' = (ts', None)" "ts_tokens ts' = ts_tokens ts1 @ [t]"
    using save_reload[OF ts1] by simp_all
  ultimately show ?thesis
    using s(2) by (simp add: verify_token_def fold_consider Let_def)
qed

definition demo_store :: token_store where
  "demo_store = \<lparr>ts_tokens = [], ts_loaded = None, ts_bootstrap = None, ts_file = None\<rparr>"

definition demo_rnd :: "nat list" where "demo_rnd = replicate 32 10"

definition demo_hash :: "string \<Rightarrow> string" where "demo_hash s = rev s"

lemma demo_create: "\<exists>ts' secret t. create_scoped demo_hash 5 demo_rnd True 7 ''ci'' RoleDeployer no_scope demo_store = (ts', Inr (secret, t))
    \<and> to_id t = take 8 (demo_hash secret) \<and> ts_tokens ts' = [t]"
  by (simp add: create_scoped_def trim_space_def trim_left_def trim_right_def char_class_defs contains_any_def valid_role_def
      validate_scope_def scope_any_def no_scope_def demo_store_def reload_tokens_def save_tokens_def new_token_def Let_def)

theorem create_then_verify_witness:
  "\<exists>ts' secret t. create_scoped demo_hash 5 demo_rnd True 7 ''ci'' RoleDeployer no_scope demo_store = (ts', Inr (secret, t))
     \<and> verify_token demo_hash secret ts' = (ts', Some t)"
proof -
  obtain ts' secret t where c: "create_scoped demo_hash 5 demo_rnd True 7 ''ci'' RoleDeployer no_scope demo_store = (ts', Inr (secret, t))"
    using demo_create by blast
  have "verify_token demo_hash secret ts' = (ts', Some t)"
    by (rule create_then_verify[OF c]) (simp_all add: demo_rnd_def list_all_iff)
  then show ?thesis using c by (intro exI[of _ ts'] exI[of _ secret] exI[of _ t]) simp
qed

text \<open>Revoking a token ends it: when the file holds one token for a secret, revoking that token's id
  (nobody else's) makes the secret worthless at once, and again after the file is read anew.\<close>
theorem revoke_ends_token:
  assumes "revoke_token ok stamp i ts = (ts', None)" "ts_file ts = Some f"
    and "filter (\<lambda>t. to_hash t = H secret) (tf_tokens f) = [t]" "filter (\<lambda>u. to_id u = i) (tf_tokens f) = [t]"
    and "\<forall>b. ts_bootstrap ts = Some b \<longrightarrow> to_hash b \<noteq> H secret"
  shows "snd (verify_token H secret ts') = None
    \<and> (\<forall>loaded. snd (verify_token H secret (ts'\<lparr>ts_tokens := [], ts_loaded := loaded\<rparr>)) = None)"
proof -
  obtain ts1 rest where ts1: "reload_tokens True ts = (ts1, None)" "remove_first (\<lambda>t. to_id t = i) (ts_tokens ts1) = Some rest"
    and sv: "save_tokens ok stamp (ts1\<lparr>ts_tokens := rest\<rparr>) = (ts', None)"
    using assms(1) by (auto simp: revoke_token_def split: prod.splits option.splits)
  have toks: "ts_tokens ts1 = tf_tokens f" "ts_bootstrap ts1 = ts_bootstrap ts"
    using ts1(1) assms(2) by (auto simp: reload_tokens_def split: if_splits)
  obtain a x b where x: "tf_tokens f = a @ x # b" "to_id x = i" "rest = a @ b"
    using remove_first_Some[OF ts1(2)] toks by auto
  have "x = t" using assms(4) x by (auto simp: append_eq_Cons_conv)
  moreover have "t \<in> set (filter (\<lambda>t. to_hash t = H secret) (tf_tokens f))" using assms(3) by simp
  then have "to_hash t = H secret" by simp
  ultimately have none: "filter (\<lambda>t. to_hash t = H secret) rest = []"
    using assms(3) x by (auto simp: append_eq_Cons_conv filter_empty_conv split: if_splits)
  have fin: "reload_tokens False ts' = (ts', None)" "ts_tokens ts' = rest" "ts_bootstrap ts' = ts_bootstrap ts"
    "ts_file ts' = Some \<lparr>tf_tokens = rest, tf_stamp = stamp, tf_private = True, tf_readable = True\<rparr>"
    using save_reload[OF sv] toks by simp_all
  have boot: "(case ts_bootstrap ts of None \<Rightarrow> None | Some b \<Rightarrow> consider_token (H secret) b None) = None"
    using assms(5) by (auto simp: consider_token_def split: option.splits)
  have "snd (verify_token H secret ts') = None"
    using fin none boot by (simp add: verify_token_def fold_consider Let_def)
  moreover have "snd (verify_token H secret (ts'\<lparr>ts_tokens := [], ts_loaded := loaded\<rparr>)) = None" for loaded
    using fin none boot by (simp add: verify_token_def fold_consider Let_def reload_tokens_def)
  ultimately show ?thesis by blast
qed

theorem revoke_ends_token_witness:
  "\<exists>ts' secret t ts''. create_scoped demo_hash 5 demo_rnd True 7 ''ci'' RoleDeployer no_scope demo_store = (ts', Inr (secret, t))
     \<and> revoke_token True 2 (to_id t) ts' = (ts'', None) \<and> snd (verify_token demo_hash secret ts'') = None"
proof -
  obtain ts' secret t where c: "create_scoped demo_hash 5 demo_rnd True 7 ''ci'' RoleDeployer no_scope demo_store = (ts', Inr (secret, t))"
    and toks: "ts_tokens ts' = [t]"
    using demo_create by blast
  obtain ts1 where sv: "save_tokens True 7 (ts1\<lparr>ts_tokens := ts_tokens ts1 @ [t]\<rparr>) = (ts', None)" and h: "to_hash t = demo_hash secret"
    and r1: "reload_tokens True demo_store = (ts1, None)"
    using create_scoped_Inr[OF c] by blast
  have f: "ts_file ts' = Some \<lparr>tf_tokens = [t], tf_stamp = 7, tf_private = True, tf_readable = True\<rparr>"
    using save_reload[OF sv] toks by simp
  have b: "ts_bootstrap ts' = None"
    using save_reload[OF sv] r1 by (auto simp: reload_tokens_def demo_store_def)
  obtain ts'' where rv: "revoke_token True 2 (to_id t) ts' = (ts'', None)"
    by (simp add: revoke_token_def reload_tokens_def f save_tokens_def)
  have "snd (verify_token demo_hash secret ts'') = None"
    using revoke_ends_token[OF rv f, of demo_hash secret t] h b by simp
  then show ?thesis using c rv by (intro exI[of _ ts'] exI[of _ secret] exI[of _ t] exI[of _ ts'']) simp
qed

datatype token_op = TCreate time "nat list" bool nat string role scope | TRevoke bool nat string

fun token_step :: "(string \<Rightarrow> string) \<Rightarrow> token_op \<Rightarrow> token_store \<Rightarrow> token_store" where
  "token_step H (TCreate now rnd ok stamp name r sc) ts = fst (create_scoped H now rnd ok stamp name r sc ts)"
| "token_step H (TRevoke ok stamp i) ts = fst (revoke_token ok stamp i ts)"

definition token_ok :: "token \<Rightarrow> bool" where
  "token_ok t \<longleftrightarrow> valid_role (to_role t)
     \<and> (\<forall>s. to_scope t = Some s \<longrightarrow> to_role t = RoleDeployer \<and> scope_any s \<and> validate_scope s = None)"

definition store_ok :: "token_store \<Rightarrow> bool" where
  "store_ok ts \<longleftrightarrow> (\<forall>t \<in> set (ts_tokens ts). token_ok t) \<and> (\<forall>f. ts_file ts = Some f \<longrightarrow> (\<forall>t \<in> set (tf_tokens f). token_ok t))"

lemma store_ok_reload: "store_ok ts \<Longrightarrow> store_ok (fst (reload_tokens f ts))"
  by (auto simp: store_ok_def reload_tokens_def split: option.splits)

lemma store_ok_save: "store_ok ts \<Longrightarrow> store_ok (fst (save_tokens ok stamp ts))"
  by (auto simp: store_ok_def save_tokens_def)

lemma store_ok_tokens: "store_ok ts \<Longrightarrow> \<forall>t \<in> set l. token_ok t \<Longrightarrow> store_ok (ts\<lparr>ts_tokens := l\<rparr>)"
  by (simp add: store_ok_def)

lemma store_ok_create: "store_ok ts \<Longrightarrow> store_ok (fst (create_scoped H now rnd ok stamp name r sc ts))"
proof -
  assume ok: "store_ok ts"
  obtain ts1 e1 where r1: "reload_tokens True ts = (ts1, e1)" by force
  have ok1: "store_ok ts1" using store_ok_reload[OF ok, of True] r1 by simp
  let ?t = "new_token (H (secret_prefix @ hex_string rnd)) (trim_space name) r sc now"
  obtain ts2 e2 where sv: "save_tokens ok stamp (ts1\<lparr>ts_tokens := ts_tokens ts1 @ [?t]\<rparr>) = (ts2, e2)" by force
  have ok2: "store_ok ts2" if t: "token_ok ?t"
  proof -
    have "\<forall>u \<in> set (ts_tokens ts1). token_ok u" using ok1 by (simp add: store_ok_def)
    then have "\<forall>u \<in> set (ts_tokens ts1 @ [?t]). token_ok u" using t by (simp only: set_append set_simps ball_Un ball_simps)
    from store_ok_save[OF store_ok_tokens[OF ok1 this], of ok stamp] show ?thesis by (simp only: sv fst_conv)
  qed
  show ?thesis
  proof (cases "valid_role r \<and> validate_scope sc = None \<and> (scope_any sc \<longrightarrow> r = RoleDeployer)")
    case True
    then have "token_ok ?t" by (simp add: token_ok_def new_token_def)
    then have "store_ok ts2" by (rule ok2)
    moreover have "fst (create_scoped H now rnd ok stamp name r sc ts) \<in> {ts, ts1, ts2}"
      using sv r1 True by (simp add: create_scoped_def Let_def split: option.splits)
    ultimately show ?thesis using ok ok1 by fastforce
  next
    case False
    then have "fst (create_scoped H now rnd ok stamp name r sc ts) = ts"
      by (auto simp: create_scoped_def Let_def split: option.splits)
    then show ?thesis using ok by simp
  qed
qed

lemma store_ok_revoke: "store_ok ts \<Longrightarrow> store_ok (fst (revoke_token ok stamp i ts))"
proof -
  assume ok: "store_ok ts"
  obtain ts1 e1 where r1: "reload_tokens True ts = (ts1, e1)" by force
  have ok1: "store_ok ts1" using store_ok_reload[OF ok, of True] r1 by simp
  have "store_ok (fst (save_tokens ok stamp (ts1\<lparr>ts_tokens := rest\<rparr>)))"
    if "remove_first (\<lambda>t. to_id t = i) (ts_tokens ts1) = Some rest" for rest
    using remove_first_Some[OF that] ok1 by (intro store_ok_save store_ok_tokens) (auto simp: store_ok_def)
  then show ?thesis using r1 ok1 by (auto simp: revoke_token_def split: option.splits)
qed

text \<open>C37: A token that carries a scope is a deployer token, never a viewer or an admin (the code asks for exactly that role), and
  its scope is a valid one that limits something: in every run of the token commands from an empty file, for every token the
  file holds.\<close>
theorem scoped_tokens_are_deployers:
  assumes "ts = run_ops (token_step H) ops \<lparr>ts_tokens = [], ts_loaded = None, ts_bootstrap = b, ts_file = None\<rparr>"
    and "ts_file ts = Some f" "t \<in> set (tf_tokens f)"
  shows "valid_role (to_role t)
    \<and> (\<forall>s. to_scope t = Some s \<longrightarrow> to_role t = RoleDeployer \<and> scope_any s \<and> validate_scope s = None)"
proof -
  have "store_ok ts" unfolding assms(1)
  proof (rule run_ops_invariant[where P = store_ok])
    show "store_ok (token_step H op s)" if "store_ok s" for op s
      using that by (cases op) (simp_all add: store_ok_create store_ok_revoke)
  qed (simp add: store_ok_def)
  then show ?thesis using assms(2,3) by (auto simp: store_ok_def token_ok_def)
qed

definition tenant_scope :: scope where
  "tenant_scope = no_scope\<lparr>sc_names := [''tenant-*''], sc_images := [''platform*'']\<rparr>"

lemma demo_scoped:
  "case create_scoped demo_hash 5 demo_rnd True 7 ''ci'' RoleDeployer tenant_scope demo_store of
     (ts', Inr (secret, t)) \<Rightarrow> ts_tokens ts' = [t] \<and> to_scope t = Some tenant_scope | _ \<Rightarrow> False"
  by code_simp

theorem scoped_tokens_are_deployers_witness:
  "\<exists>ts t. ts = run_ops (token_step demo_hash) [TCreate 5 demo_rnd True 7 ''ci'' RoleDeployer tenant_scope] demo_store
     \<and> ts_tokens ts = [t] \<and> to_scope t = Some tenant_scope \<and> to_role t = RoleDeployer \<and> scope_any tenant_scope"
proof -
  obtain ts' secret t where c: "create_scoped demo_hash 5 demo_rnd True 7 ''ci'' RoleDeployer tenant_scope demo_store = (ts', Inr (secret, t))"
    and toks: "ts_tokens ts' = [t]" "to_scope t = Some tenant_scope"
    using demo_scoped by (auto split: prod.splits sum.splits)
  obtain ts1 where sv: "save_tokens True 7 (ts1\<lparr>ts_tokens := ts_tokens ts1 @ [t]\<rparr>) = (ts', None)"
    using create_scoped_Inr[OF c] by blast
  have f: "ts_file ts' = Some \<lparr>tf_tokens = [t], tf_stamp = 7, tf_private = True, tf_readable = True\<rparr>"
    using save_reload[OF sv] toks by simp
  have run: "ts' = run_ops (token_step demo_hash) [TCreate 5 demo_rnd True 7 ''ci'' RoleDeployer tenant_scope] demo_store"
    by (simp add: c)
  have "to_role t = RoleDeployer \<and> scope_any tenant_scope"
    using scoped_tokens_are_deployers[OF run[unfolded demo_store_def] f, of t] toks by simp
  then show ?thesis using run toks by blast
qed

text \<open>An admin cannot make a token that is limited and an admin's: the comment of \<open>CreateScoped\<close> says at least the deployer role.\<close>

lemma scoped_admin_refused:
  "trim_space name0 \<noteq> [] \<Longrightarrow> length (trim_space name0) \<le> 60 \<Longrightarrow> \<not> contains_any (trim_space name0) [CHR 0x0A, CHR 0x0D] \<Longrightarrow> validate_scope sc = None \<Longrightarrow> scope_any sc \<Longrightarrow>
    create_scoped H now rnd ok stamp name0 RoleAdmin sc ts = (ts, Inl ScopedNeedsDeployer)"
  by (simp add: create_scoped_def Let_def valid_role_def)

text \<open>A label scope whose values are only commas is dropped without a word: such a text parses, and the
  scope it gives names no label, so a token made with it is not limited by label at all.\<close>
theorem label_scope_of_commas_dropped:
  assumes "k \<noteq> []" "list_all is_lower k" "0 < n"
  shows "parse_label_scope (k @ ''='' @ replicate n (CHR '','')) = Inr []"
proof -
  let ?t = "k @ CHR ''='' # replicate n (CHR '','')"
  obtain c cs where k: "k = c # cs" using assms(1) by (cases k) auto
  have sp: "\<not> is_space (CHR '','')" "\<not> is_space (CHR ''='')" by (simp_all add: is_space_def)
  have low: "\<not> is_space x" "x \<noteq> CHR '';''" "x \<noteq> CHR ''=''" if "x \<in> set k" for x
    using that assms(2) by (auto simp: list_all_iff is_space_def is_lower_def in_range_def)
  have trim: "trim_space s = s" if "s \<noteq> []" "\<not> is_space (hd s)" "\<not> is_space (last s)" for s
    using that by (simp add: trim_space_def trim_left_id[of is_space s, THEN iffD2] trim_right_id[of is_space s, THEN iffD2])
  have t: "trim_space ?t = ?t"
    by (rule trim) (use assms(3) low sp in \<open>auto simp: k\<close>)
  have kt: "trim_space k = k" by (rule trim) (use low in \<open>auto simp: k\<close>)
  have vt: "trim_space (replicate n (CHR '','')) \<noteq> []"
    using assms(3) sp by (subst trim) auto
  have semi: "split_on CHR '';'' ?t = [?t]" by (rule split_on_single) (use low in auto)
  have c1: "cut CHR ''='' ?t = Some (k, replicate n (CHR '',''))" by (rule cut_append) (use low in auto)
  have parts: "split_on CHR '','' (replicate n (CHR '','')) = replicate (Suc n) []" for n
    by (induction n) auto
  have add: "add_label_values k (replicate m []) out = out" for m out
    by (induction m) (simp_all add: trim_space_def trim_left_def trim_right_def)
  show ?thesis
    using assms(1) by (simp add: parse_label_scope_def t semi c1 kt vt parts add del: split_on.simps replicate.simps)
qed

theorem label_scope_of_commas_dropped_witness: "parse_label_scope ''environment=,'' = Inr []"
  using label_scope_of_commas_dropped[of "''environment''" 1]
  by (simp add: is_lower_def in_range_def)

end
