(* ===== verification/Http.thy ===== *)
theory Http
  imports Tokens
begin

text \<open>
  The parts of \<open>net/http\<close> and \<open>net/url\<close> the handlers read, and the helpers over them in
  \<open>pkg/server/server.go\<close> and \<open>sessions.go\<close>.

  \<^item> A request is its method, path, host, headers (\<open>Header.Get\<close>: empty when absent), cookies, query and form
    values (\<open>Values.Get\<close>: empty when absent); \<open>rq_form\<close> is None when \<open>ParseForm\<close> fails.
  \<^item> \<open>url.Parse\<close> is an argument, \<open>parse\<close>, from a string to the parts of the URL the code looks at.
\<close>

record request =
  rq_method :: string
  rq_path :: string
  rq_host :: string
  rq_tls :: bool
  rq_header :: "string \<Rightarrow> string"
  rq_cookie :: "string \<Rightarrow> string option"
  rq_query :: "string \<Rightarrow> string"
  rq_form :: "(string \<Rightarrow> string) option"
  rq_first :: string \<comment> \<open>the token of a WebSocket's first message, empty when there is none\<close>

record url =
  ur_scheme :: string
  ur_user :: bool
  ur_host :: string
  ur_hostname :: string
  ur_path :: string
  ur_fragment :: string

type_synonym url_parser = "string \<Rightarrow> url option"

definition equal_fold :: "string \<Rightarrow> string \<Rightarrow> bool" where "equal_fold a b \<longleftrightarrow> to_lower a = to_lower b"

definition is_https :: "request \<Rightarrow> bool" where
  "is_https r \<longleftrightarrow> rq_tls r \<or> equal_fold (rq_header r ''X-Forwarded-Proto'') ''https''"

definition bearer :: "request \<Rightarrow> string" where
  "bearer r = (let h = rq_header r ''Authorization'' in
     if length h > 7 \<and> equal_fold (take 7 h) ''bearer '' then trim_space (drop 7 h) else [])"

definition same_origin :: "url_parser \<Rightarrow> request \<Rightarrow> bool" where
  "same_origin parse r \<longleftrightarrow>
     (if rq_method r \<in> {''GET'', ''HEAD'', ''OPTIONS''} then True
      else let site = rq_header r ''Sec-Fetch-Site''; orig = rq_header r ''Origin'' in
        if site \<noteq> [] then site = ''same-origin'' \<or> site = ''none''
        else if orig \<noteq> [] then (case parse orig of None \<Rightarrow> False | Some u \<Rightarrow> ur_host u = rq_host r)
        else True)"

definition public_base :: "string \<Rightarrow> request \<Rightarrow> string" where
  "public_base public_url r =
     (if public_url \<noteq> [] then trim_right (\<lambda>c. c = CHR ''/'') public_url
      else (if is_https r then ''https'' else ''http'') @ ''://'' @ rq_host r)"

definition mcp_resource :: "string \<Rightarrow> request \<Rightarrow> string" where
  "mcp_resource public_url r = public_base public_url r @ ''/mcp''"

text \<open>\<open>mcpChallenge\<close>; \<open>oauth\<close>: OAuth is on.\<close>

definition mcp_challenge :: "string \<Rightarrow> bool \<Rightarrow> request \<Rightarrow> string \<Rightarrow> string" where
  "mcp_challenge public_url oauth r err =
     ''Bearer realm=\"native-ops\"'' @
     (if oauth then '', resource_metadata=\"'' @ public_base public_url r @ ''/.well-known/oauth-protected-resource\"''
        @ (if err \<noteq> [] then '', error=\"'' @ err @ ''\"'' else [])
      else [])"

text \<open>\<open>safeNext\<close>: the only place a sign-in for an OAuth client may return to.\<close>

definition safe_next :: "url_parser \<Rightarrow> string \<Rightarrow> bool" where
  "safe_next parse next \<longleftrightarrow>
     (case parse next of None \<Rightarrow> False
      | Some u \<Rightarrow> ur_scheme u = [] \<and> ur_host u = [] \<and> ur_path u = ''/oauth/authorize'' \<and>
          prefix ''/oauth/authorize?'' next \<and> \<not> contains_any next [CHR 0x5C, CHR 0x0D, CHR 0x0A])"

lemma safe_next_prefix: "safe_next parse next \<Longrightarrow> prefix ''/oauth/authorize?'' next"
  by (simp add: safe_next_def split: option.splits)

end
