(* ===== verification/Users.thy ===== *)
theory Users
  imports Tokens
begin

text \<open>
  The people who sign in (\<open>pkg/server/users.go\<close>): the user file, local passwords, and the accounts an
  OIDC sign-in or an admin creates by email.

  \<^item> bcrypt is two arguments: \<open>gen salt pw\<close> is \<open>GenerateFromPassword\<close> with the salt it drew, \<open>cmp hash pw\<close>
    is \<open>CompareHashAndPassword\<close>; where a property relies on them it says so (\<open>bcrypt_law\<close>).
  \<^item> The file is shared with \<open>native-ops user\<close> on the host and treated as the token file is.
  \<^item> Letters are ASCII: a letter outside it counts as one character per byte in \<open>username_for_email\<close>.
\<close>

subsection \<open>Records\<close>

datatype provider = NoProvider | ProviderLocal | ProviderOIDC

record user =
  us_username :: string
  us_name :: string
  us_role :: role
  us_provider :: provider
  us_email :: string
  us_hash :: string
  us_disabled :: bool
  us_created :: time
  us_last_login :: "time option"

definition valid_username :: "string \<Rightarrow> bool" where \<comment> \<open>\<open>^[a-z0-9][a-z0-9._-]{2,39}$\<close>\<close>
  "valid_username u \<longleftrightarrow> (case u of [] \<Rightarrow> False
     | c # cs \<Rightarrow> (is_lower c \<or> is_digit c) \<and> 2 \<le> length cs \<and> length cs \<le> 39
         \<and> list_all (\<lambda>c. is_lower c \<or> is_digit c \<or> c \<in> set ''._-'') cs)"

record user_file =
  uf_users :: "user list"
  uf_stamp :: nat
  uf_private :: bool
  uf_readable :: bool

record user_store =
  ut_users :: "user list"
  ut_loaded :: "nat option"
  ut_file :: "user_file option"

datatype user_error =
    UserFileMode | UserFileRead | UserSave | BadUsername | BadRole | BadPassword | UserExists | NoSuchUser
  | NoAccount | BadEmail

definition reload_users :: "bool \<Rightarrow> user_store \<Rightarrow> user_store \<times> user_error option" where
  "reload_users force us =
     (case ut_file us of
        None \<Rightarrow> (us\<lparr>ut_users := [], ut_loaded := None\<rparr>, None)
      | Some f \<Rightarrow>
          if \<not> force \<and> ut_loaded us = Some (uf_stamp f) then (us, None)
          else if \<not> uf_private f then (us, Some UserFileMode)
          else if \<not> uf_readable f then (us, Some UserFileRead)
          else (us\<lparr>ut_users := uf_users f, ut_loaded := Some (uf_stamp f)\<rparr>, None))"

definition open_user_store :: "user_file option \<Rightarrow> user_error + user_store" where
  "open_user_store file =
     (case reload_users True \<lparr>ut_users = [], ut_loaded = None, ut_file = file\<rparr> of
        (us, None) \<Rightarrow> Inr us | (_, Some e) \<Rightarrow> Inl e)"

definition save_users :: "write_result \<Rightarrow> user_store \<Rightarrow> user_store \<times> user_error option" where
  "save_users wr us =
     (if fst wr then (us\<lparr>ut_file := Some \<lparr>uf_users = ut_users us, uf_stamp = snd wr, uf_private = True, uf_readable = True\<rparr>,
                         ut_loaded := Some (snd wr)\<rparr>, None)
      else (us, Some UserSave))"

definition find_user :: "user list \<Rightarrow> string \<Rightarrow> nat option" where
  "find_user users username = index_of (\<lambda>u. us_username u = to_lower (trim_space username)) users"

definition valid_password :: "string \<Rightarrow> bool" where
  "valid_password pw \<longleftrightarrow> \<not> (length pw < 12 \<or> length pw > 72) \<and> \<not> contains_any pw [CHR 0x0D, CHR 0x0A, CHR 0x00]"

definition list_users :: "user_store \<Rightarrow> user_store \<times> (user_error + user list)" where
  "list_users us = (case reload_users False us of (us1, Some e) \<Rightarrow> (us1, Inl e)
     | (us1, None) \<Rightarrow> (us1, Inr (map (\<lambda>u. u\<lparr>us_hash := []\<rparr>) (ut_users us1))))"

definition get_user :: "string \<Rightarrow> user_store \<Rightarrow> user_store \<times> (user_error + user option)" where
  "get_user username us = (case reload_users False us of (us1, Some e) \<Rightarrow> (us1, Inl e)
     | (us1, None) \<Rightarrow> (us1, Inr (case find_user (ut_users us1) username of None \<Rightarrow> None
          | Some i \<Rightarrow> Some ((ut_users us1 ! i)\<lparr>us_hash := []\<rparr>))))"

subsection \<open>Making and changing users\<close>

definition create_local ::
  "(string \<Rightarrow> string \<Rightarrow> string) \<Rightarrow> string \<Rightarrow> time \<Rightarrow> write_result \<Rightarrow> string \<Rightarrow> string \<Rightarrow> role \<Rightarrow> string \<Rightarrow> user_store
     \<Rightarrow> user_store \<times> (user_error + user)" where
  "create_local gen salt now wr username0 name r password us =
     (let username = to_lower (trim_space username0) in
      if \<not> valid_username username then (us, Inl BadUsername)
      else if \<not> valid_role r then (us, Inl BadRole)
      else if \<not> valid_password password then (us, Inl BadPassword)
      else let hash = gen salt password in
        case reload_users False us of
          (us1, Some e) \<Rightarrow> (us1, Inl e)
        | (us1, None) \<Rightarrow>
            if find_user (ut_users us1) username \<noteq> None then (us1, Inl UserExists)
            else let u = \<lparr>us_username = username, us_name = trim_space name, us_role = r, us_provider = ProviderLocal,
                          us_email = [], us_hash = hash, us_disabled = False, us_created = now, us_last_login = None\<rparr>
                 in case save_users wr (us1\<lparr>ut_users := ut_users us1 @ [u]\<rparr>) of
                      (us2, Some e) \<Rightarrow> (us2, Inl e)
                    | (us2, None) \<Rightarrow> (us2, Inr (u\<lparr>us_hash := []\<rparr>)))"

text \<open>The shape \<open>SetPassword\<close>, \<open>SetRole\<close>, \<open>SetDisabled\<close> and \<open>TouchLogin\<close> share: reload, find, change the
  element in place, save. \<open>missing\<close> is what an unknown name answers.\<close>

definition change_user ::
  "write_result \<Rightarrow> string \<Rightarrow> user_error option \<Rightarrow> (user \<Rightarrow> user) \<Rightarrow> user_store \<Rightarrow> user_store \<times> user_error option" where
  "change_user wr username missing change us =
     (case reload_users False us of
        (us1, Some e) \<Rightarrow> (us1, Some e)
      | (us1, None) \<Rightarrow>
          (case find_user (ut_users us1) username of
             None \<Rightarrow> (us1, missing)
           | Some i \<Rightarrow> save_users wr (us1\<lparr>ut_users := (ut_users us1)[i := change (ut_users us1 ! i)]\<rparr>)))"

definition set_password ::
  "(string \<Rightarrow> string \<Rightarrow> string) \<Rightarrow> string \<Rightarrow> write_result \<Rightarrow> string \<Rightarrow> string \<Rightarrow> user_store \<Rightarrow> user_store \<times> user_error option" where
  "set_password gen salt wr username password us =
     (if \<not> valid_password password then (us, Some BadPassword)
      else change_user wr username (Some NoSuchUser)
             (\<lambda>u. let u' = u\<lparr>us_hash := gen salt password\<rparr> in
                  if us_provider u' = NoProvider then u'\<lparr>us_provider := ProviderLocal\<rparr> else u') us)"

definition set_role :: "write_result \<Rightarrow> string \<Rightarrow> role \<Rightarrow> user_store \<Rightarrow> user_store \<times> user_error option" where
  "set_role wr username r us =
     (if \<not> valid_role r then (us, Some BadRole)
      else change_user wr username (Some NoSuchUser) (\<lambda>u. u\<lparr>us_role := r\<rparr>) us)"

definition set_disabled :: "write_result \<Rightarrow> string \<Rightarrow> bool \<Rightarrow> user_store \<Rightarrow> user_store \<times> user_error option" where
  "set_disabled wr username d us = change_user wr username (Some NoSuchUser) (\<lambda>u. u\<lparr>us_disabled := d\<rparr>) us"

definition touch_login :: "time \<Rightarrow> write_result \<Rightarrow> string \<Rightarrow> user_store \<Rightarrow> user_store \<times> user_error option" where
  "touch_login now wr username us = change_user wr username None (\<lambda>u. u\<lparr>us_last_login := Some now\<rparr>) us"

text \<open>\<open>freeUsername\<close>: the loop is bounded by nothing in the code; \<open>None\<close> would be a loop that never ends.\<close>

partial_function (option) free_from :: "user list \<Rightarrow> string \<Rightarrow> nat \<Rightarrow> string \<Rightarrow> string option" where
  "free_from users base n name =
     (if find_user users name \<noteq> None then free_from users base (Suc n) (base @ ''-'' @ dec_string n) else Some name)"

definition free_username :: "user list \<Rightarrow> string \<Rightarrow> string option" where
  "free_username users base = free_from users base 2 base"

definition email_char :: "char \<Rightarrow> bool" where
  "email_char c \<longleftrightarrow> is_lower c \<or> is_digit c \<or> c = CHR ''.'' \<or> c = CHR ''-'' \<or> c = CHR ''_''"

definition username_for_email :: "string \<Rightarrow> string" where
  "username_for_email email =
     (let local_part = (case cut CHR ''@'' email of Some (a, _) \<Rightarrow> if a \<noteq> [] then a else email | None \<Rightarrow> email);
          b = map (\<lambda>c. if email_char c then c else CHR ''.'') (to_lower local_part);
          dots = (\<lambda>c. c \<in> set ''.-_'');
          s1 = trim_right dots (trim_left dots b);
          s2 = (if length s1 > 40 then take 40 s1 else s1);
          s3 = (if s2 = [] then ''oidc-user'' else s2)
      in if length s3 < 3 then s3 @ ''-user'' else s3)"

text \<open>\<open>new_role\<close> None is the OIDC role \<open>none\<close>: nobody is created.\<close>

definition find_or_create_oidc ::
  "time \<Rightarrow> write_result \<Rightarrow> string \<Rightarrow> string \<Rightarrow> role option \<Rightarrow> user_store \<Rightarrow> (user_store \<times> (user_error + user)) option" where
  "find_or_create_oidc now wr email0 name new_role us =
     (let email = to_lower (trim_space email0); username = username_for_email email in
      case reload_users False us of
        (us1, Some e) \<Rightarrow> Some (us1, Inl e)
      | (us1, None) \<Rightarrow>
          (case index_of (\<lambda>u. us_email u \<noteq> [] \<and> us_email u = email) (ut_users us1) of
             Some i \<Rightarrow>
               (let u0 = (ut_users us1 ! i)\<lparr>us_provider := ProviderOIDC\<rparr>;
                    u = (if name \<noteq> [] then u0\<lparr>us_name := name\<rparr> else u0)
                in case save_users wr (us1\<lparr>ut_users := (ut_users us1)[i := u]\<rparr>) of
                     (us2, Some e) \<Rightarrow> Some (us2, Inl e)
                   | (us2, None) \<Rightarrow> Some (us2, Inr (u\<lparr>us_hash := []\<rparr>)))
           | None \<Rightarrow>
               (case new_role of
                  None \<Rightarrow> Some (us1, Inl NoAccount)
                | Some r \<Rightarrow>
                    (case free_username (ut_users us1) username of
                       None \<Rightarrow> None
                     | Some un \<Rightarrow>
                        (let u = \<lparr>us_username = un, us_name = name, us_role = r, us_provider = ProviderOIDC, us_email = email,
                                  us_hash = [], us_disabled = False, us_created = now, us_last_login = None\<rparr>
                         in case save_users wr (us1\<lparr>ut_users := ut_users us1 @ [u]\<rparr>) of
                              (us2, Some e) \<Rightarrow> Some (us2, Inl e)
                            | (us2, None) \<Rightarrow> Some (us2, Inr u))))))"

definition space_char :: "char \<Rightarrow> bool" where \<comment> \<open>\<open>\s\<close> of a Go regular expression\<close>
  "space_char c \<longleftrightarrow> c \<in> {CHR '' '', CHR 0x09, CHR 0x0A, CHR 0x0C, CHR 0x0D}"

definition valid_email :: "string \<Rightarrow> bool" where \<comment> \<open>\<open>^[^@\s]{1,64}@[a-z0-9.-]{1,190}\.[a-z]{2,}$\<close>\<close>
  "valid_email s \<longleftrightarrow>
     (case cut CHR ''@'' s of None \<Rightarrow> False
      | Some (l, d) \<Rightarrow> 1 \<le> length l \<and> length l \<le> 64 \<and> list_all (\<lambda>c. \<not> space_char c) l
          \<and> list_ex (\<lambda>i. d ! i = CHR ''.'' \<and> 1 \<le> i \<and> i \<le> 190
               \<and> list_all (\<lambda>c. is_lower c \<or> is_digit c \<or> c = CHR ''.'' \<or> c = CHR ''-'') (take i d)
               \<and> 2 \<le> length (drop (Suc i) d) \<and> list_all is_lower (drop (Suc i) d)) [0..<length d])"

definition upsert_by_email ::
  "time \<Rightarrow> write_result \<Rightarrow> string \<Rightarrow> string \<Rightarrow> role \<Rightarrow> bool option \<Rightarrow> user_store
     \<Rightarrow> (user_store \<times> (user_error + user \<times> bool)) option" where
  "upsert_by_email now wr email0 name0 r disabled us =
     (let email = to_lower (trim_space email0) in
      if \<not> valid_email email then Some (us, Inl BadEmail)
      else if \<not> valid_role r then Some (us, Inl BadRole)
      else case reload_users False us of
        (us1, Some e) \<Rightarrow> Some (us1, Inl e)
      | (us1, None) \<Rightarrow>
          (let i0 = index_of (\<lambda>u. us_email u = email) (ut_users us1);
               users_i = (case i0 of Some i \<Rightarrow> Some (ut_users us1, i)
                  | None \<Rightarrow> map_option (\<lambda>un. (ut_users us1 @ [\<lparr>us_username = un, us_name = trim_space name0,
                        us_role = RoleUnknown, us_provider = ProviderOIDC, us_email = email, us_hash = [], us_disabled = False,
                        us_created = now, us_last_login = None\<rparr>], length (ut_users us1)))
                      (free_username (ut_users us1) (username_for_email email)))
           in case users_i of None \<Rightarrow> None
              | Some (users, i) \<Rightarrow>
                 (let u1 = (users ! i)\<lparr>us_role := r\<rparr>;
                      name = trim_space name0;
                      u2 = (if name \<noteq> [] then u1\<lparr>us_name := name\<rparr> else u1);
                      u3 = (case disabled of Some d \<Rightarrow> u2\<lparr>us_disabled := d\<rparr> | None \<Rightarrow> u2)
                  in case save_users wr (us1\<lparr>ut_users := users[i := u3]\<rparr>) of
                       (us2, Some e) \<Rightarrow> Some (us2, Inl e)
                     | (us2, None) \<Rightarrow> Some (us2, Inr (u3\<lparr>us_hash := []\<rparr>, i0 = None)))))"

subsection \<open>Signing in with a password\<close>

text \<open>\<open>dummy\<close> is \<open>dummyHash\<close>, compared against when there is nothing to compare with.\<close>

definition authenticate ::
  "(string \<Rightarrow> string \<Rightarrow> bool) \<Rightarrow> string \<Rightarrow> string \<Rightarrow> string \<Rightarrow> user_store \<Rightarrow> user_store \<times> user option" where
  "authenticate cmp dummy username password us =
     (case reload_users False us of
        (us1, Some e) \<Rightarrow> (us1, None)
      | (us1, None) \<Rightarrow>
          (let found = map_option (\<lambda>i. ut_users us1 ! i) (find_user (ut_users us1) username);
               hash = (case found of Some u \<Rightarrow> if us_hash u \<noteq> [] then us_hash u else dummy | None \<Rightarrow> dummy);
               ok = cmp hash password
           in (us1, case found of None \<Rightarrow> None
                  | Some u \<Rightarrow> if \<not> ok \<or> us_disabled u \<or> us_hash u = [] then None else Some (u\<lparr>us_hash := []\<rparr>))))"

text \<open>What the code relies on bcrypt for: a hash is not empty, and of the passwords the store accepts
  (12 to 72 bytes, no NUL) only the hashed one matches it.\<close>

definition bcrypt_law :: "(string \<Rightarrow> string \<Rightarrow> string) \<Rightarrow> (string \<Rightarrow> string \<Rightarrow> bool) \<Rightarrow> bool" where
  "bcrypt_law gen cmp \<longleftrightarrow> (\<forall>salt pw. valid_password pw \<longrightarrow> gen salt pw \<noteq> [] \<and>
     (\<forall>pw'. valid_password pw' \<longrightarrow> cmp (gen salt pw) pw' = (pw' = pw)))"

subsection \<open>Facts\<close>

definition normal :: "string \<Rightarrow> bool" where "normal u \<longleftrightarrow> to_lower (trim_space u) = u"

lemma normal_fold: "normal (to_lower (trim_space u))"
  by (simp add: normal_def trim_space_lower)

lemma find_user_None: "normal name \<Longrightarrow> find_user users name = None \<longleftrightarrow> name \<notin> set (map us_username users)"
  by (auto simp: find_user_def index_of_None normal_def)

lemma find_user_Some: "find_user users name = Some i \<Longrightarrow> i < length users \<and> us_username (users ! i) = to_lower (trim_space name)"
  by (auto simp: find_user_def dest: index_of_Some)

declare free_from.simps [code]

lemma free_from_ends:
  "\<exists>name. free_from users base n nm = Some name \<and> find_user users name = None \<and> (name = nm \<or> (\<exists>k. name = base @ ''-'' @ dec_string k))"
proof -
  define f where "f k = base @ ''-'' @ dec_string k" for k
  define taken where "taken = {k. find_user users (f k) \<noteq> None}"
  have "finite ((\<lambda>k. to_lower (trim_space (f k))) ` taken)"
  proof (rule finite_subset[of _ "set (map us_username users)"])
    show "(\<lambda>k. to_lower (trim_space (f k))) ` taken \<subseteq> set (map us_username users)"
    proof
      fix x assume "x \<in> (\<lambda>k. to_lower (trim_space (f k))) ` taken"
      then obtain k i where "x = to_lower (trim_space (f k))" "find_user users (f k) = Some i" by (auto simp: taken_def)
      then show "x \<in> set (map us_username users)" using find_user_Some[of users "f k" i] by (metis length_map nth_map nth_mem)
    qed
  qed simp
  moreover have digits: "\<forall>c \<in> set (dec_string k). is_digit c" for k
    using dec_string_digits[of k] by (simp add: list_all_iff)
  have trim: "trim_space (f k) = trim_left is_space base @ ''-'' @ dec_string k" for k
  proof -
    have last: "\<not> is_space (last (dec_string k))"
      using bspec[OF digits[of k] last_in_set[OF dec_string_nonempty]] by (auto simp: is_digit_def in_range_def is_space_def)
    have sp: "\<not> is_space (CHR ''-'')" by (simp add: is_space_def)
    have "trim_left is_space (b @ CHR ''-'' # x) = trim_left is_space b @ CHR ''-'' # x" for b x
      using sp by (induction b) (simp_all add: trim_left_def)
    then have "trim_left is_space (f k) = trim_left is_space base @ ''-'' @ dec_string k" by (simp add: f_def)
    then show ?thesis using last by (simp add: trim_space_def trim_right_id[THEN iffD2])
  qed
  have low: "to_lower (dec_string k) = dec_string k" for k
    unfolding to_lower_def by (rule map_idI) (use digits[of k] in \<open>auto simp: is_digit_def is_upper_def in_range_def\<close>)
  have "inj_on (\<lambda>k. to_lower (trim_space (f k))) taken"
    by (rule inj_onI) (simp add: trim to_lower_def[of "_ @ _"] to_lower_def[symmetric] low dec_string_inj)
  ultimately have fin: "finite taken" by (rule finite_imageD)
  show ?thesis
  proof (induction "card (taken \<inter> {n..})" arbitrary: n nm rule: less_induct)
    case less
    show ?case
    proof (cases "find_user users nm")
      case None
      then show ?thesis by (subst free_from.simps) simp
    next
      case (Some i)
      then have step: "free_from users base n nm = free_from users base (Suc n) (f n)"
        by (subst free_from.simps) (simp add: f_def)
      show ?thesis
      proof (cases "n \<in> taken")
        case True
        have "taken \<inter> {Suc n..} \<subseteq> taken \<inter> {n..}" by (intro Int_mono order_refl) simp
        moreover have "n \<in> taken \<inter> {n..}" "n \<notin> taken \<inter> {Suc n..}" using True by simp_all
        ultimately have "taken \<inter> {Suc n..} \<subset> taken \<inter> {n..}" by blast
        then have less_card: "card (taken \<inter> {Suc n..}) < card (taken \<inter> {n..})"
          by (rule psubset_card_mono[rotated]) (simp add: fin)
        from less[OF less_card, of "f n"] obtain name where
          name: "free_from users base (Suc n) (f n) = Some name" "find_user users name = None"
            "name = f n \<or> (\<exists>k. name = base @ ''-'' @ dec_string k)"
          by (elim exE conjE)
        have "\<exists>k. name = base @ ''-'' @ dec_string k" using name(3) by (auto simp: f_def)
        then show ?thesis using name(1,2) by (simp add: step)
      next
        case False
        then have "free_from users base (Suc n) (f n) = Some (f n)" by (subst free_from.simps) (simp add: taken_def)
        then show ?thesis using False unfolding step by (auto simp: taken_def f_def)
      qed
    qed
  qed
qed

lemma normal_plain: "\<forall>c \<in> set u. \<not> is_space c \<and> \<not> is_upper c \<Longrightarrow> normal u"
proof -
  assume p: "\<forall>c \<in> set u. \<not> is_space c \<and> \<not> is_upper c"
  have "trim_left is_space u = u" "trim_right is_space u = u"
    using p by (cases "u = []"; simp add: trim_left_id trim_right_id)+
  then have "trim_space u = u" by (simp add: trim_space_def)
  moreover have "to_lower u = u" unfolding to_lower_def by (rule map_idI) (use p in simp)
  ultimately show ?thesis by (simp add: normal_def)
qed

lemma email_char_plain: "email_char c \<Longrightarrow> \<not> is_space c \<and> \<not> is_upper c"
  by (auto simp: email_char_def is_lower_def is_digit_def is_space_def is_upper_def in_range_def)

lemma username_for_email_chars: "c \<in> set (username_for_email e) \<Longrightarrow> email_char c"
proof -
  assume c: "c \<in> set (username_for_email e)"
  define b where "b = map (\<lambda>c. if email_char c then c else CHR ''.'')
     (to_lower (case cut CHR ''@'' e of Some (a, _) \<Rightarrow> if a \<noteq> [] then a else e | None \<Rightarrow> e))"
  have dot: "email_char (CHR ''.'')" by (simp add: email_char_def)
  have "list_all email_char ''oidc-user''" "list_all email_char ''-user''"
    by (simp_all add: email_char_def is_lower_def in_range_def)
  then have lit: "x \<in> set ''oidc-user'' \<Longrightarrow> email_char x" "x \<in> set ''-user'' \<Longrightarrow> email_char x" for x
    by (simp_all only: list_all_iff)
  have tl: "x \<in> set (trim_left p y) \<Longrightarrow> x \<in> set y" for x p and y :: string
    unfolding trim_left_def using set_dropWhileD[of x p y] by blast
  have tr: "x \<in> set (trim_right p y) \<Longrightarrow> x \<in> set y" for x p and y :: string
    using set_dropWhileD[of x p "rev y"] unfolding trim_right_def by simp
  have "x \<in> set b \<Longrightarrow> email_char x" for x using dot by (auto simp: b_def)
  then have s1: "x \<in> set (trim_right p (trim_left p b)) \<Longrightarrow> email_char x" for x p
    using tl[of x p b] tr[of x p "trim_left p b"] by blast
  define t where "t = trim_right (\<lambda>c. c \<in> set ''.-_'') (trim_left (\<lambda>c. c \<in> set ''.-_'') b)"
  define t2 where "t2 = (if length t > 40 then take 40 t else t)"
  define t3 where "t3 = (if t2 = [] then ''oidc-user'' else t2)"
  have "username_for_email e = (if length t3 < 3 then t3 @ ''-user'' else t3)"
    by (simp only: username_for_email_def Let_def b_def[symmetric] t_def[symmetric] t2_def[symmetric] t3_def[symmetric])
  then have "c \<in> set t3 \<or> c \<in> set ''-user''" using c by (cases "length t3 < 3") (simp_all, blast)
  moreover have "c \<in> set t3 \<Longrightarrow> c \<in> set ''oidc-user'' \<or> c \<in> set t2" by (cases "t2 = []") (simp_all only: t3_def if_True if_False simp_thms)
  moreover have "c \<in> set t2 \<Longrightarrow> c \<in> set t" by (auto simp: t2_def split: if_splits dest: in_set_takeD)
  moreover have "c \<in> set t \<Longrightarrow> email_char c" unfolding t_def by (rule s1)
  ultimately show ?thesis using lit by blast
qed

lemma free_username_total:
  "\<exists>name. free_username users (username_for_email e) = Some name \<and> normal name \<and> name \<notin> set (map us_username users)"
proof -
  obtain name where n: "free_username users (username_for_email e) = Some name" "find_user users name = None"
    "name = username_for_email e \<or> (\<exists>k. name = username_for_email e @ ''-'' @ dec_string k)"
    using free_from_ends[of users "username_for_email e" 2 "username_for_email e"] by (auto simp: free_username_def)
  have "is_digit c \<Longrightarrow> email_char c" for c by (simp add: email_char_def)
  then have "\<forall>c \<in> set name. email_char c"
    using n(3) username_for_email_chars dec_string_digits by (fastforce simp: list_all_iff email_char_def[of "CHR ''-''"])
  then have "normal name" using normal_plain email_char_plain by blast
  then show ?thesis using n find_user_None by blast
qed

definition users_ok :: "user list \<Rightarrow> bool" where
  "users_ok l \<longleftrightarrow> distinct (map us_username l) \<and> (\<forall>u \<in> set l. normal (us_username u))"

definition user_store_ok :: "user_store \<Rightarrow> bool" where
  "user_store_ok us \<longleftrightarrow> users_ok (ut_users us) \<and> (\<forall>f. ut_file us = Some f \<longrightarrow> users_ok (uf_users f))"

lemma users_ok_snoc: "users_ok l \<Longrightarrow> normal (us_username u) \<Longrightarrow> us_username u \<notin> set (map us_username l) \<Longrightarrow> users_ok (l @ [u])"
  by (auto simp: users_ok_def)

lemma users_ok_update:
  assumes "users_ok l" "us_username u = us_username (l ! i)"
  shows "users_ok (l[i := u])"
proof (cases "i < length l")
  case True
  have "map us_username (l[i := u]) = map us_username l"
    using assms(2) True by (simp add: map_update list_update_same_conv)
  moreover have "\<forall>x \<in> set (l[i := u]). normal (us_username x)"
    using assms True by (metis (no_types, lifting) insert_iff nth_mem set_update_subset_insert subsetD users_ok_def)
  ultimately show ?thesis using assms(1) by (simp add: users_ok_def)
qed (use assms in \<open>simp add: list_update_beyond\<close>)

lemma user_store_ok_reload [inv_intros]: "user_store_ok us \<Longrightarrow> user_store_ok (fst (reload_users f us))"
  by (auto simp: user_store_ok_def reload_users_def users_ok_def split: option.splits)

lemma user_store_ok_save:
  "user_store_ok us \<Longrightarrow> users_ok l \<Longrightarrow> user_store_ok (fst (save_users wr (us\<lparr>ut_users := l\<rparr>)))"
  by (auto simp: user_store_ok_def save_users_def)

lemma users_ok_changed:
  "users_ok l \<Longrightarrow> (\<And>u. us_username (ch u) = us_username u) \<Longrightarrow> users_ok (l[i := ch (l ! i)])"
  by (rule users_ok_update) simp_all

lemma user_store_ok_users: "user_store_ok us \<Longrightarrow> users_ok (ut_users us)"
  by (simp add: user_store_ok_def)

lemma reload_users_ok:
  "user_store_ok us \<Longrightarrow> reload_users f us = (us1, e) \<Longrightarrow> user_store_ok us1"
  using user_store_ok_reload[of us f] by simp

lemma user_store_ok_change:
  assumes "user_store_ok us" "\<And>u. us_username (ch u) = us_username u"
  shows "user_store_ok (fst (change_user wr un missing ch us))"
  using reload_users_ok[OF assms(1), of False] assms(2)
  by (auto simp: change_user_def intro!: user_store_ok_save users_ok_changed user_store_ok_users split: prod.splits option.splits)

lemma set_password_ok [inv_intros]: "user_store_ok us \<Longrightarrow> user_store_ok (fst (set_password gen salt wr un pw us))"
  by (simp add: set_password_def user_store_ok_change Let_def)

lemma set_role_ok [inv_intros]: "user_store_ok us \<Longrightarrow> user_store_ok (fst (set_role wr un r us))"
  by (simp add: set_role_def user_store_ok_change)

lemma set_disabled_ok [inv_intros]: "user_store_ok us \<Longrightarrow> user_store_ok (fst (set_disabled wr un d us))"
  by (simp add: set_disabled_def user_store_ok_change)

lemma touch_login_ok [inv_intros]: "user_store_ok us \<Longrightarrow> user_store_ok (fst (touch_login now wr un us))"
  by (simp add: touch_login_def user_store_ok_change)

lemma save_users_fst:
  "user_store_ok us \<Longrightarrow> users_ok l \<Longrightarrow> save_users wr (us\<lparr>ut_users := l\<rparr>) = (us2, e) \<Longrightarrow> user_store_ok us2"
  using user_store_ok_save[of us l wr] by simp

lemma create_local_ok [inv_intros]:
  assumes "user_store_ok us"
  shows "user_store_ok (fst (create_local gen salt now wr un nm r pw us))"
proof -
  define username where "username = to_lower (trim_space un)"
  obtain us1 er where r: "reload_users False us = (us1, er)" by (cases "reload_users False us")
  have ok: "user_store_ok us1" using reload_users_ok[OF assms r] .
  define u where "u = \<lparr>us_username = username, us_name = trim_space nm, us_role = r, us_provider = ProviderLocal,
      us_email = [], us_hash = gen salt pw, us_disabled = False, us_created = now, us_last_login = None\<rparr>"
  have n: "normal username" "us_username u = username" by (simp_all add: username_def normal_fold u_def)
  have "user_store_ok (fst (save_users wr (us1\<lparr>ut_users := ut_users us1 @ [u]\<rparr>)))" if "find_user (ut_users us1) username = None"
    using that n find_user_None[OF n(1), of "ut_users us1"]
    by (intro user_store_ok_save[OF ok] users_ok_snoc[OF user_store_ok_users[OF ok]]) simp_all
  then show ?thesis
    using assms ok
    by (auto simp add: create_local_def Let_def username_def[symmetric] r u_def[symmetric] split: option.splits prod.splits)
qed

lemma oidc_ok:
  assumes "user_store_ok us" "find_or_create_oidc now wr e nm r us = Some (us', res)"
  shows "user_store_ok us'"
proof -
  obtain us1 er where r: "reload_users False us = (us1, er)" by (cases "reload_users False us")
  have ok: "user_store_ok us1" using reload_users_ok[OF assms(1) r] .
  have ok1: "users_ok (ut_users us1)" using ok by (rule user_store_ok_users)
  define mail where "mail = to_lower (trim_space e)"
  show ?thesis
  proof (cases er)
    case (Some err)
    then show ?thesis using assms(2) ok by (simp add: find_or_create_oidc_def Let_def r)
  next
    case None
    show ?thesis
    proof (cases "index_of (\<lambda>u. us_email u \<noteq> [] \<and> us_email u = mail) (ut_users us1)")
      case (Some i)
      define u where "u = (let u0 = (ut_users us1 ! i)\<lparr>us_provider := ProviderOIDC\<rparr> in if nm \<noteq> [] then u0\<lparr>us_name := nm\<rparr> else u0)"
      have "users_ok ((ut_users us1)[i := u])" by (rule users_ok_update[OF ok1]) (simp add: u_def Let_def)
      then have "user_store_ok (fst (save_users wr (us1\<lparr>ut_users := (ut_users us1)[i := u]\<rparr>)))" by (rule user_store_ok_save[OF ok])
      moreover have "us' = fst (save_users wr (us1\<lparr>ut_users := (ut_users us1)[i := u]\<rparr>))"
        using assms(2) None Some
        by (simp add: find_or_create_oidc_def Let_def r mail_def[symmetric] u_def split: option.splits prod.splits if_splits)
      ultimately show ?thesis by simp
    next
      case no: None
      obtain un where un: "free_username (ut_users us1) (username_for_email mail) = Some un" "normal un"
        "un \<notin> set (map us_username (ut_users us1))" using free_username_total[of "ut_users us1" mail] by blast
      show ?thesis
      proof (cases r)
        case None
        then show ?thesis using assms(2) \<open>er = None\<close> no ok
          by (simp add: find_or_create_oidc_def Let_def r mail_def[symmetric])
      next
        case (Some rl)
        define u where "u = \<lparr>us_username = un, us_name = nm, us_role = rl, us_provider = ProviderOIDC, us_email = mail,
          us_hash = [], us_disabled = False, us_created = now, us_last_login = None\<rparr>"
        have "users_ok (ut_users us1 @ [u])" by (rule users_ok_snoc[OF ok1]) (use un in \<open>simp_all add: u_def\<close>)
        then have "user_store_ok (fst (save_users wr (us1\<lparr>ut_users := ut_users us1 @ [u]\<rparr>)))" by (rule user_store_ok_save[OF ok])
        moreover have "us' = fst (save_users wr (us1\<lparr>ut_users := ut_users us1 @ [u]\<rparr>))"
          using assms(2) \<open>er = None\<close> no Some un(1)
          by (simp add: find_or_create_oidc_def Let_def \<open>reload_users False us = (us1, er)\<close> mail_def[symmetric] u_def[symmetric]
              split: option.splits prod.splits)
        ultimately show ?thesis by simp
      qed
    qed
  qed
qed

lemma upsert_ok:
  assumes "user_store_ok us" "upsert_by_email now wr e nm rl dis us = Some (us', res)"
  shows "user_store_ok us'"
proof -
  obtain us1 er where r: "reload_users False us = (us1, er)" by (cases "reload_users False us")
  have ok: "user_store_ok us1" using reload_users_ok[OF assms(1) r] .
  have ok1: "users_ok (ut_users us1)" using ok by (rule user_store_ok_users)
  define mail where "mail = to_lower (trim_space e)"
  define upd where "upd u = (let u1 = u\<lparr>us_role := rl\<rparr>; n = trim_space nm; u2 = (if n \<noteq> [] then u1\<lparr>us_name := n\<rparr> else u1)
      in case dis of Some d \<Rightarrow> u2\<lparr>us_disabled := d\<rparr> | None \<Rightarrow> u2)" for u :: user
  have name: "us_username (upd u) = us_username u" for u by (simp add: upd_def Let_def split: option.splits)
  have out: "us' = us \<or> us' = us1 \<or> (\<exists>users i. us' = fst (save_users wr (us1\<lparr>ut_users := users[i := upd (users ! i)]\<rparr>)) \<and>
     (users = ut_users us1 \<or> (\<exists>u. free_username (ut_users us1) (username_for_email mail) = Some (us_username u) \<and> users = ut_users us1 @ [u])))"
  proof (cases "er = None \<and> valid_email mail \<and> valid_role rl")
    case False
    then show ?thesis using assms(2)
      by (auto simp: upsert_by_email_def Let_def mail_def[symmetric] r split: if_splits option.splits)
  next
    case True
    obtain un where un: "free_username (ut_users us1) (username_for_email mail) = Some un"
      using free_username_total[of "ut_users us1" mail] by blast
    define u0 where "u0 = \<lparr>us_username = un, us_name = trim_space nm, us_role = RoleUnknown, us_provider = ProviderOIDC, us_email = mail,
       us_hash = [], us_disabled = False, us_created = now, us_last_login = None\<rparr>"
    define users where "users = (case index_of (\<lambda>u. us_email u = mail) (ut_users us1) of Some i \<Rightarrow> ut_users us1 | None \<Rightarrow> ut_users us1 @ [u0])"
    define i where "i = (case index_of (\<lambda>u. us_email u = mail) (ut_users us1) of Some i \<Rightarrow> i | None \<Rightarrow> length (ut_users us1))"
    have "us' = fst (save_users wr (us1\<lparr>ut_users := users[i := upd (users ! i)]\<rparr>))"
      using assms(2) True
      by (cases "index_of (\<lambda>u. us_email u = mail) (ut_users us1)")
        (simp_all add: upsert_by_email_def Let_def mail_def[symmetric] r un users_def i_def upd_def u0_def split: option.splits prod.splits if_splits)
    moreover have "users = ut_users us1 \<or> users = ut_users us1 @ [u0]" by (simp add: users_def split: option.splits)
    moreover have "us_username u0 = un" by (simp add: u0_def)
    ultimately show ?thesis using un by metis
  qed
  have new: "users_ok (ut_users us1 @ [u])"
    if "free_username (ut_users us1) (username_for_email mail) = Some (us_username u)" for u
    using free_username_total[of "ut_users us1" mail] that by (auto intro: users_ok_snoc[OF ok1])
  have s: "user_store_ok (fst (save_users wr (us1\<lparr>ut_users := users[i := upd (users ! i)]\<rparr>)))" if "users_ok users" for users i
    by (rule user_store_ok_save[OF ok users_ok_changed[OF that name]])
  from out show ?thesis using assms(1) ok s[OF ok1] s[OF new] by (elim disjE exE conjE) simp_all
qed

text \<open>The operations of the store, run one after another; a user file edited from outside is read at the next call.\<close>

datatype user_op =
    UCreate string time write_result string string role string
  | USetPassword string write_result string string
  | USetRole write_result string role
  | USetDisabled write_result string bool
  | UTouch time write_result string
  | UOidc time write_result string string "role option"
  | UUpsert time write_result string string role "bool option"
  | UList

definition user_step :: "(string \<Rightarrow> string \<Rightarrow> string) \<Rightarrow> user_op \<Rightarrow> user_store \<Rightarrow> user_store" where
  "user_step gen op us = (case op of
     UCreate salt now wr un nm r pw \<Rightarrow> fst (create_local gen salt now wr un nm r pw us)
   | USetPassword salt wr un pw \<Rightarrow> fst (set_password gen salt wr un pw us)
   | USetRole wr un r \<Rightarrow> fst (set_role wr un r us)
   | USetDisabled wr un d \<Rightarrow> fst (set_disabled wr un d us)
   | UTouch now wr un \<Rightarrow> fst (touch_login now wr un us)
   | UOidc now wr e nm r \<Rightarrow> (case find_or_create_oidc now wr e nm r us of Some (us', _) \<Rightarrow> us' | None \<Rightarrow> us)
   | UUpsert now wr e nm r d \<Rightarrow> (case upsert_by_email now wr e nm r d us of Some (us', _) \<Rightarrow> us' | None \<Rightarrow> us)
   | UList \<Rightarrow> fst (list_users us))"

lemma list_users_fst: "fst (list_users us) = fst (reload_users False us)"
  by (simp add: list_users_def split: prod.splits option.splits)

lemma user_step_ok: "user_store_ok us \<Longrightarrow> user_store_ok (user_step gen op us)"
proof (cases op)
  case (UOidc now wr e nm r)
  assume ok: "user_store_ok us"
  show ?thesis
    using oidc_ok[OF ok, of now wr e nm r] ok
    by (cases "find_or_create_oidc now wr e nm r us") (auto simp: user_step_def UOidc)
next
  case (UUpsert now wr e nm r d)
  assume ok: "user_store_ok us"
  show ?thesis
    using upsert_ok[OF ok, of now wr e nm r d] ok
    by (cases "upsert_by_email now wr e nm r d us") (auto simp: user_step_def UUpsert)
qed (simp_all add: user_step_def inv_intros list_users_fst)

subsection \<open>Properties\<close>

text \<open>Usernames stay unique and normalised: whatever the operations of the store are run with (local
  and OIDC creation, upserts by email, password, role and disabled changes, failed writes included), no two
  users of the store share a username, and every username is already trimmed and in lower case, so that a
  lookup by name finds at most one of them.\<close>
theorem usernames_unique:
  assumes "user_store_ok us"
  shows "distinct (map us_username (ut_users (run_ops (user_step gen) ops us)))
    \<and> (\<forall>i < length (ut_users (run_ops (user_step gen) ops us)).
         find_user (ut_users (run_ops (user_step gen) ops us)) (us_username (ut_users (run_ops (user_step gen) ops us) ! i)) = Some i)"
proof -
  have "user_store_ok (run_ops (user_step gen) ops us)"
    by (rule run_ops_invariant) (use assms user_step_ok in auto)
  then have ok: "users_ok (ut_users (run_ops (user_step gen) ops us))" by (rule user_store_ok_users)
  have idx: "find_user l (us_username (l ! i)) = Some i" if l: "users_ok l" and i: "i < length l" for l i
  proof (cases "find_user l (us_username (l ! i))")
    case None
    then show ?thesis using l i find_user_None[of "us_username (l ! i)" l] by (auto simp: users_ok_def)
  next
    case (Some j)
    have n: "normal (us_username (l ! i))" using l i by (simp add: users_ok_def)
    have "j < length l" "us_username (l ! j) = us_username (l ! i)" using find_user_Some[OF Some] n by (simp_all add: normal_def)
    then have "j = i" using l i by (simp add: users_ok_def distinct_conv_nth) metis
    then show ?thesis using Some by simp
  qed
  show ?thesis using ok idx[OF ok] by (simp add: users_ok_def)
qed

theorem usernames_unique_witness:
  "let us = run_ops (user_step (\<lambda>salt pw. salt @ pw)) [UOidc 1 (True, 1) ''ann@x.org'' ''Ann'' (Some RolePlanner), UOidc 2 (False, 2) ''ann@y.org'' ''Ann'' (Some RolePlanner)]
     \<lparr>ut_users = [], ut_loaded = None, ut_file = None\<rparr>
   in distinct (map us_username (ut_users us)) \<and> (\<forall>i < length (ut_users us). find_user (ut_users us) (us_username (ut_users us ! i)) = Some i)"
  unfolding Let_def by (rule usernames_unique) (simp add: user_store_ok_def users_ok_def)

text \<open>C40: The search for a free username ends, for every email and every user list, with a name that no
  user has, made of the email's local part: only lower-case letters, digits, dots, dashes and
  underscores, and at most 40 of them before the number that tells it from the names already taken.\<close>
theorem free_username_ends:
  "\<exists>name. free_username users (username_for_email email) = Some name \<and> name \<notin> set (map us_username users)
     \<and> list_all email_char name \<and> length (username_for_email email) \<le> 40
     \<and> (name = username_for_email email \<or> (\<exists>k. name = username_for_email email @ ''-'' @ dec_string k))"
proof -
  obtain name where n: "free_username users (username_for_email email) = Some name" "find_user users name = None"
    "name = username_for_email email \<or> (\<exists>k. name = username_for_email email @ ''-'' @ dec_string k)"
    using free_from_ends[of users "username_for_email email" 2 "username_for_email email"] by (auto simp: free_username_def)
  have "is_digit c \<Longrightarrow> email_char c" for c by (simp add: email_char_def)
  then have "\<forall>c \<in> set name. email_char c"
    using n(3) username_for_email_chars dec_string_digits by (fastforce simp: list_all_iff email_char_def[of "CHR ''-''"])
  moreover have "name \<notin> set (map us_username users)"
    using n(1) free_username_total[of users email] by auto
  moreover have "length (username_for_email email) \<le> 40" by (simp add: username_for_email_def Let_def)
  ultimately show ?thesis using n(1,3) by (auto simp: list_all_iff)
qed

text \<open>A new password replaces the old one: after \<open>SetPassword\<close> succeeds for a user, signing in as that
  user succeeds with exactly the new password, and with none at all while the user is disabled, whatever
  password the user had before.\<close>
theorem password_exact:
  assumes "bcrypt_law gen cmp" "set_password gen salt wr name pw us = (us', None)" "valid_password pw'"
  shows "\<exists>u \<in> set (ut_users us'). us_username u = to_lower (trim_space name) \<and>
     (snd (authenticate cmp dummy name pw' us') \<noteq> None \<longleftrightarrow> pw' = pw \<and> \<not> us_disabled u)"
proof -
  obtain us1 er where r: "reload_users False us = (us1, er)" by (cases "reload_users False us")
  have v: "valid_password pw" and er: "er = None"
    using assms(2) r by (auto simp: set_password_def change_user_def split: if_splits option.splits)
  obtain i where i: "find_user (ut_users us1) name = Some i"
    using assms(2) r er v by (auto simp: set_password_def change_user_def split: option.splits)
  define u where "u = (let u' = (ut_users us1 ! i)\<lparr>us_hash := gen salt pw\<rparr> in
     if us_provider u' = NoProvider then u'\<lparr>us_provider := ProviderLocal\<rparr> else u')"
  define l where "l = (ut_users us1)[i := u]"
  have sv: "save_users wr (us1\<lparr>ut_users := l\<rparr>) = (us', None)"
    using assms(2) r er v i by (simp add: set_password_def change_user_def l_def u_def)
  have us': "us' = us1\<lparr>ut_users := l, ut_file := Some \<lparr>uf_users = l, uf_stamp = snd wr, uf_private = True, uf_readable = True\<rparr>,
      ut_loaded := Some (snd wr)\<rparr>"
    using sv by (simp add: save_users_def split: if_splits)
  have il: "i < length (ut_users us1)" and nm: "us_username (ut_users us1 ! i) = to_lower (trim_space name)"
    using find_user_Some[OF i] by simp_all
  have un: "us_username u = to_lower (trim_space name)" using nm by (simp add: u_def Let_def)
  have "index_of p (xs[k := y]) = Some k" if "index_of p xs = Some k" "p y" for p and xs :: "user list" and k y
    using that by (induction xs arbitrary: k) (auto split: if_splits nat.splits)
  then have fi: "find_user l name = Some i" using i un by (simp add: find_user_def l_def)
  have "gen salt pw \<noteq> []" "cmp (gen salt pw) pw' = (pw' = pw)" using assms(1,3) v by (simp_all add: bcrypt_law_def)
  moreover have "us_hash u = gen salt pw" by (simp add: u_def Let_def)
  moreover have "reload_users False us' = (us', None)" by (simp add: reload_users_def us')
  moreover have "ut_users us' = l" "l ! i = u" using il by (simp_all add: us' l_def)
  ultimately have "snd (authenticate cmp dummy name pw' us') \<noteq> None \<longleftrightarrow> pw' = pw \<and> \<not> us_disabled u"
    using fi by (simp add: authenticate_def)
  moreover have "u \<in> set (ut_users us')" using \<open>ut_users us' = l\<close> il by (simp add: l_def set_update_memI)
  ultimately show ?thesis using un by blast
qed

definition demo_user :: user where
  "demo_user = \<lparr>us_username = ''ann'', us_name = [], us_role = RoleAdmin, us_provider = ProviderOIDC, us_email = ''ann@x.org'',
     us_hash = [], us_disabled = False, us_created = 0, us_last_login = None\<rparr>"

definition demo_users :: user_store where
  "demo_users = \<lparr>ut_users = [demo_user], ut_loaded = Some 1, ut_file = Some \<lparr>uf_users = [demo_user], uf_stamp = 1, uf_private = True, uf_readable = True\<rparr>\<rparr>"

theorem password_exact_witness:
  "let us' = fst (set_password (\<lambda>salt pw. CHR ''$'' # pw) ''s'' (True, 2) ''Ann'' ''correct horse'' demo_users)
   in \<exists>u \<in> set (ut_users us'). us_username u = to_lower (trim_space ''Ann'') \<and>
     (snd (authenticate (\<lambda>h pw. h = CHR ''$'' # pw) ''dummy'' ''Ann'' ''wrong password'' us') \<noteq> None
        \<longleftrightarrow> ''wrong password'' = ''correct horse'' \<and> \<not> us_disabled u)"
proof -
  have v: "valid_password ''correct horse''" "valid_password ''wrong password''"
    by (simp_all add: valid_password_def contains_any_def)
  have f: "find_user [demo_user] ''Ann'' = Some 0"
    by code_simp
  have "set_password (\<lambda>salt pw. CHR ''$'' # pw) ''s'' (True, 2) ''Ann'' ''correct horse'' demo_users
      = (fst (set_password (\<lambda>salt pw. CHR ''$'' # pw) ''s'' (True, 2) ''Ann'' ''correct horse'' demo_users), None)"
    using v f by (simp add: set_password_def change_user_def demo_users_def reload_users_def save_users_def)
  moreover have "bcrypt_law (\<lambda>salt pw. CHR ''$'' # pw) (\<lambda>h pw. h = CHR ''$'' # pw)" by (auto simp: bcrypt_law_def)
  ultimately show ?thesis using password_exact v(2) unfolding Let_def by blast
qed

end
