(* ===== verification/Sessions.thy ===== *)
theory Sessions
  imports Http Users
begin

text \<open>
  Signed session cookies (\<open>pkg/server/sessions.go\<close>) and \<open>currentSession\<close> of \<open>server.go\<close>, which checks
  them against the user store at every request.

  \<^item> HMAC-SHA256 is the argument \<open>hm key text\<close>; \<open>encoding/json\<close> on the payload and \<open>RawURLEncoding\<close> are the
    fields of a \<open>codec\<close>, whose documented behaviour is \<open>codec_ok\<close>. The payload's expiry is in seconds.
\<close>

record sessions =
  se_key :: string
  se_ttl :: time
  se_secure :: bool

definition new_sessions :: "string \<Rightarrow> time \<Rightarrow> bool \<Rightarrow> sessions option" where
  "new_sessions key ttl secure =
     (if length key < 16 then None
      else Some \<lparr>se_key = key, se_ttl = (if ttl \<le> 0 then 12 * hour else ttl), se_secure = secure\<rparr>)"

type_synonym session_payload = "string \<times> role \<times> int"

record codec =
  cd_encode :: "session_payload \<Rightarrow> string"
  cd_decode :: "string \<Rightarrow> session_payload option"
  cd_base64 :: "string \<Rightarrow> string"
  cd_unbase64 :: "string \<Rightarrow> string option"

type_synonym hmac = "string \<Rightarrow> string \<Rightarrow> string"

definition unix_time :: "time \<Rightarrow> int" where "unix_time t = t div second"

definition issue_session :: "hmac \<Rightarrow> codec \<Rightarrow> sessions \<Rightarrow> time \<Rightarrow> string \<Rightarrow> role \<Rightarrow> string" where
  "issue_session hm cd se now username r =
     (let body = cd_base64 cd (cd_encode cd (username, r, unix_time (now + se_ttl se)))
      in body @ ''.'' @ cd_base64 cd (hm (se_key se) body))"

definition verify_session :: "hmac \<Rightarrow> codec \<Rightarrow> sessions \<Rightarrow> time \<Rightarrow> string \<Rightarrow> (string \<times> role) option" where
  "verify_session hm cd se now tok =
     (case cut CHR ''.'' tok of
        None \<Rightarrow> None
      | Some (body, sig) \<Rightarrow>
          if cd_unbase64 cd sig \<noteq> Some (hm (se_key se) body) then None
          else (case cd_unbase64 cd body of
              None \<Rightarrow> None
            | Some pb \<Rightarrow>
                (case cd_decode cd pb of
                   None \<Rightarrow> None
                 | Some (u, r, e) \<Rightarrow>
                     if e \<le> unix_time now \<or> \<not> valid_role r \<or> u = [] then None else Some (u, r))))"

definition session_cookie_name :: string where "session_cookie_name = ''nops_session''"

definition session_from_request :: "hmac \<Rightarrow> codec \<Rightarrow> sessions \<Rightarrow> time \<Rightarrow> request \<Rightarrow> (string \<times> role) option" where
  "session_from_request hm cd se now r =
     (case rq_cookie r session_cookie_name of None \<Rightarrow> None | Some v \<Rightarrow> verify_session hm cd se now v)"

record cookie =
  ck_name :: string
  ck_value :: string
  ck_path :: string
  ck_http_only :: bool
  ck_secure :: bool
  ck_same_site_lax :: bool
  ck_max_age :: int

definition session_cookie :: "sessions \<Rightarrow> request \<Rightarrow> string \<Rightarrow> cookie" where
  "session_cookie se r tok =
     \<lparr>ck_name = session_cookie_name, ck_value = tok, ck_path = ''/'', ck_http_only = True,
      ck_secure = se_secure se \<or> is_https r, ck_same_site_lax = True, ck_max_age = se_ttl se div second\<rparr>"

definition clear_cookie :: "sessions \<Rightarrow> request \<Rightarrow> cookie" where
  "clear_cookie se r =
     \<lparr>ck_name = session_cookie_name, ck_value = [], ck_path = ''/'', ck_http_only = True,
      ck_secure = se_secure se \<or> is_https r, ck_same_site_lax = True, ck_max_age = - 1\<rparr>"

text \<open>Who a name stands for now: what \<open>currentSession\<close> and \<open>oauthUser\<close> ask the user store.\<close>

definition live_user :: "string \<Rightarrow> user_store \<Rightarrow> user_store \<times> (string \<times> role) option" where
  "live_user username us =
     (case get_user username us of
        (us1, Inr (Some u)) \<Rightarrow> (us1, if us_disabled u \<or> \<not> valid_role (us_role u) then None else Some (us_username u, us_role u))
      | (us1, _) \<Rightarrow> (us1, None))"

text \<open>\<open>users\<close> None: the daemon runs without a user store.\<close>

definition current_session ::
  "hmac \<Rightarrow> codec \<Rightarrow> sessions \<Rightarrow> time \<Rightarrow> request \<Rightarrow> user_store option \<Rightarrow> user_store option \<times> (string \<times> role) option" where
  "current_session hm cd se now r users =
     (case (session_from_request hm cd se now r, users) of
        (None, _) \<Rightarrow> (users, None)
      | (Some ur, None) \<Rightarrow> (None, Some ur)
      | (Some (username, _), Some us) \<Rightarrow> (case live_user username us of (us1, res) \<Rightarrow> (Some us1, res)))"

text \<open>What the cookie relies on: decoding undoes encoding, and the encoding has no dot.\<close>

definition codec_ok :: "codec \<Rightarrow> bool" where
  "codec_ok cd \<longleftrightarrow>
     (\<forall>u r e. valid_username u \<longrightarrow> valid_role r \<longrightarrow> 0 \<le> e \<longrightarrow> cd_decode cd (cd_encode cd (u, r, e)) = Some (u, r, e))
     \<and> (\<forall>x. cd_unbase64 cd (cd_base64 cd x) = Some x) \<and> (\<forall>x. CHR ''.'' \<notin> set (cd_base64 cd x))"

subsection \<open>Facts\<close>

lemma verify_issued:
  assumes "codec_ok cd" "valid_username u" "valid_role r" "0 \<le> now + se_ttl se"
  shows "verify_session hm cd se later (issue_session hm cd se now u r) =
    (if unix_time (now + se_ttl se) \<le> unix_time later then None else Some (u, r))"
proof -
  have "u \<noteq> []" using assms(2) by (auto simp: valid_username_def)
  moreover have "0 \<le> unix_time (now + se_ttl se)" using assms(4) by (simp add: unix_time_def)
  ultimately show ?thesis
    using assms(1,2,3) by (simp add: verify_session_def issue_session_def Let_def codec_ok_def)
qed

lemma live_user_Some:
  assumes "live_user name us = (us1, Some (u, r))"
  shows "\<exists>i. find_user (ut_users us1) name = Some i \<and> us_username (ut_users us1 ! i) = u \<and> us_role (ut_users us1 ! i) = r
    \<and> \<not> us_disabled (ut_users us1 ! i) \<and> valid_role r"
proof -
  obtain us2 e where r: "reload_users False us = (us2, e)" by (cases "reload_users False us")
  have e: "e = None" using assms unfolding live_user_def get_user_def r by (cases e) simp_all
  obtain i where i: "find_user (ut_users us2) name = Some i"
    using assms unfolding live_user_def get_user_def r e by (cases "find_user (ut_users us2) name") simp_all
  have "us1 = us2 \<and> (if us_disabled (ut_users us2 ! i) \<or> \<not> valid_role (us_role (ut_users us2 ! i)) then None
      else Some (us_username (ut_users us2 ! i), us_role (ut_users us2 ! i))) = Some (u, r)"
    using assms unfolding live_user_def get_user_def r e by (auto simp: i split: if_splits)
  then show ?thesis using i by (auto split: if_splits)
qed

text \<open>A codec with the laws: the dot escaped for base64, a time in unary for JSON.\<close>

definition escape_dot :: "string \<Rightarrow> string" where
  "escape_dot s = concat (map (\<lambda>c. if c = CHR ''.'' then ''_d'' else if c = CHR ''_'' then ''__'' else [c]) s)"

fun unescape_dot :: "string \<Rightarrow> string option" where
  "unescape_dot [] = Some []"
| "unescape_dot [c] = (if c = CHR ''_'' then None else Some [c])"
| "unescape_dot (c # d # s) = (if c = CHR ''_''
     then map_option (Cons (if d = CHR ''d'' then CHR ''.'' else CHR ''_'')) (unescape_dot s)
     else map_option (Cons c) (unescape_dot (d # s)))"

lemma unescape_escape: "unescape_dot (escape_dot s) = Some s"
proof (induction s)
  case (Cons c s)
  have "unescape_dot (c # x) = map_option (Cons c) (unescape_dot x)" if "c \<noteq> CHR ''_''" for x
    using that by (cases x) simp_all
  then show ?case using Cons by (simp add: escape_dot_def)
qed (simp add: escape_dot_def)

lemma escape_no_dot: "CHR ''.'' \<notin> set (escape_dot s)"
  by (auto simp: escape_dot_def)

definition demo_codec :: codec where
  "demo_codec = \<lparr>
     cd_encode = (\<lambda>(u, r, e). (case r of RoleViewer \<Rightarrow> CHR ''v'' | RolePlanner \<Rightarrow> CHR ''p'' | RoleDeployer \<Rightarrow> CHR ''d'' | _ \<Rightarrow> CHR ''a'')
        # replicate (nat e) CHR ''#'' @ ''|'' @ u),
     cd_decode = (\<lambda>s. case s of [] \<Rightarrow> None
        | c # cs \<Rightarrow> (case cut CHR ''|'' cs of None \<Rightarrow> None
            | Some (t, u) \<Rightarrow> Some (u, if c = CHR ''v'' then RoleViewer else if c = CHR ''p'' then RolePlanner
                else if c = CHR ''d'' then RoleDeployer else RoleAdmin, int (length t)))),
     cd_base64 = escape_dot, cd_unbase64 = unescape_dot\<rparr>"

lemma demo_codec_ok: "codec_ok demo_codec"
proof -
  have c: "cut CHR ''|'' (replicate n CHR ''#'' @ CHR ''|'' # u) = Some (replicate n CHR ''#'', u)" for n u
    by (rule cut_append) simp
  have "cd_decode demo_codec (cd_encode demo_codec (u, r, e)) = Some (u, r, e)" if "valid_role r" "0 \<le> e" for u r e
    using that by (cases r) (simp_all add: demo_codec_def valid_role_def c[simplified])
  then show ?thesis
    by (simp add: codec_ok_def demo_codec_def unescape_escape escape_no_dot)
qed

end
