(* ===== verification/OAuth.thy ===== *)
theory OAuth
  imports Sessions
begin

text \<open>
  The daemon as an OAuth 2.1 authorization server: the store of clients, grants and authorization
  codes (\<open>pkg/server/oauth.go\<close>).

  \<^item> The random strings a call draws are arguments (\<open>None\<close>: the system's randomness failed); SHA-256 in hex is
    \<open>H\<close>, the S256 challenge of a verifier \<open>pkce\<close>, the keyed MAC of an access token's body \<open>mac\<close>.
  \<^item> \<open>now\<close> is the one clock reading a call works with. The clients and grants on disk are part of the
    state, so that a failed write shows; codes live in memory only.
\<close>

subsection \<open>Records\<close>

record oauth_client =
  oc_id :: string
  oc_name :: string
  oc_redirects :: "string list"
  oc_created :: time

record oauth_grant =
  og_id :: string
  og_client :: string
  og_client_name :: string
  og_username :: string
  og_resource :: string
  og_created :: time
  og_last_used :: time
  og_refresh :: string
  og_prev_refresh :: string
  og_expires :: time

record oauth_code =
  oo_client :: string
  oo_redirect :: string
  oo_challenge :: string
  oo_username :: string
  oo_resource :: string
  oo_expires :: time

record oauth_store =
  oa_clients :: "oauth_client list"
  oa_grants :: "oauth_grant list"
  oa_codes :: "string \<rightharpoonup> oauth_code"
  oa_disk :: "(oauth_client list \<times> oauth_grant list) option"

definition oauth_access_prefix :: string where "oauth_access_prefix = ''nopa_''"
definition oauth_refresh_prefix :: string where "oauth_refresh_prefix = ''nopr_''"
definition oauth_access_ttl :: time where "oauth_access_ttl = hour"
definition oauth_refresh_ttl :: time where "oauth_refresh_ttl = 30 * 24 * hour"
definition oauth_code_ttl :: time where "oauth_code_ttl = minute"
definition max_oauth_clients :: nat where "max_oauth_clients = 500"

datatype oauth_error =
    OAuthKey | OAuthFileMode | OAuthFileRead | OAuthSave | OAuthRandom | ClientName | RedirectCount
  | RedirectURI string | TooManyClients | InvalidGrant

text \<open>A file as \<open>OpenOAuthStore\<close> finds it: its content if it reads and parses, and whether it is private.\<close>

definition open_oauth_store ::
  "((oauth_client list \<times> oauth_grant list) option \<times> bool) option \<Rightarrow> string \<Rightarrow> oauth_error + oauth_store" where
  "open_oauth_store file key =
     (if length key < 32 then Inl OAuthKey
      else case file of
        None \<Rightarrow> Inr \<lparr>oa_clients = [], oa_grants = [], oa_codes = Map.empty, oa_disk = None\<rparr>
      | Some (content, private) \<Rightarrow>
          if \<not> private then Inl OAuthFileMode
          else (case content of None \<Rightarrow> Inl OAuthFileRead
             | Some (cs, gs) \<Rightarrow> Inr \<lparr>oa_clients = cs, oa_grants = gs, oa_codes = Map.empty, oa_disk = Some (cs, gs)\<rparr>))"

definition save_oauth :: "bool \<Rightarrow> oauth_store \<Rightarrow> oauth_store \<times> oauth_error option" where
  "save_oauth wr s = (if wr then (s\<lparr>oa_disk := Some (oa_clients s, oa_grants s)\<rparr>, None) else (s, Some OAuthSave))"

subsection \<open>Clients\<close>

definition valid_redirect_uri :: "url_parser \<Rightarrow> string \<Rightarrow> bool" where
  "valid_redirect_uri parse raw =
     (case parse raw of None \<Rightarrow> False
      | Some u \<Rightarrow>
          if ur_fragment u \<noteq> [] \<or> ur_user u \<or> ur_host u = [] \<or> length raw > 2000 then False
          else if ur_scheme u = ''https'' then True
          else if ur_scheme u = ''http'' then ur_hostname u \<in> {''127.0.0.1'', ''localhost'', ''::1''}
          else False)"

text \<open>The loop that makes room: \<open>need\<close> clients without a grant are left out, oldest first.\<close>

fun evict_clients :: "(string \<Rightarrow> bool) \<Rightarrow> nat \<Rightarrow> oauth_client list \<Rightarrow> oauth_client list \<times> nat" where
  "evict_clients used need [] = ([], need)"
| "evict_clients used need (c # cs) =
     (if need > 0 \<and> \<not> used (oc_id c) then evict_clients used (need - 1) cs
      else (case evict_clients used need cs of (kept, n) \<Rightarrow> (c # kept, n)))"

definition make_room :: "oauth_store \<Rightarrow> oauth_client list \<times> nat" where
  "make_room s =
     (if length (oa_clients s) \<ge> max_oauth_clients
      then evict_clients (\<lambda>i. i \<in> set (map og_client (oa_grants s))) (length (oa_clients s) - max_oauth_clients + 1)
             (sort_key oc_created (oa_clients s))
      else (oa_clients s, 0))"

definition register_client ::
  "url_parser \<Rightarrow> time \<Rightarrow> bool \<Rightarrow> string option \<Rightarrow> string \<Rightarrow> string list \<Rightarrow> oauth_store \<Rightarrow> oauth_store \<times> (oauth_error + oauth_client)" where
  "register_client parse now wr rnd name0 redirects s =
     (let name1 = trim_space name0; name = (if name1 = [] then ''an MCP client'' else name1) in
      if length name > 100 \<or> contains_any name [CHR 0x0D, CHR 0x0A, CHR ''<'', CHR ''>''] then (s, Inl ClientName)
      else if redirects = [] \<or> length redirects > 10 then (s, Inl RedirectCount)
      else case find (\<lambda>r. \<not> valid_redirect_uri parse r) redirects of
        Some r \<Rightarrow> (s, Inl (RedirectURI r))
      | None \<Rightarrow>
         (case rnd of
            None \<Rightarrow> (s, Inl OAuthRandom)
          | Some i \<Rightarrow>
             (case make_room s of (kept, need) \<Rightarrow>
                (let s1 = s\<lparr>oa_clients := kept\<rparr> in
                 if need > 0 then (s1, Inl TooManyClients)
                 else let c = \<lparr>oc_id = ''nopc_'' @ i, oc_name = name, oc_redirects = redirects, oc_created = now\<rparr> in
                   case save_oauth wr (s1\<lparr>oa_clients := kept @ [c]\<rparr>) of
                     (s2, Some e) \<Rightarrow> (s2\<lparr>oa_clients := butlast (oa_clients s2)\<rparr>, Inl e)
                   | (s2, None) \<Rightarrow> (s2, Inr c)))))"

definition find_client :: "string \<Rightarrow> oauth_store \<Rightarrow> oauth_client option" where
  "find_client i s = find (\<lambda>c. oc_id c = i) (oa_clients s)"

subsection \<open>Codes\<close>

definition new_code :: "time \<Rightarrow> string option \<Rightarrow> oauth_code \<Rightarrow> oauth_store \<Rightarrow> oauth_store \<times> (oauth_error + string)" where
  "new_code now rnd c s =
     (case rnd of
        None \<Rightarrow> (s, Inl OAuthRandom)
      | Some raw \<Rightarrow>
          (s\<lparr>oa_codes := (\<lambda>k. case oa_codes s k of None \<Rightarrow> None | Some v \<Rightarrow> if now > oo_expires v then None else Some v)
                          (raw \<mapsto> c\<lparr>oo_expires := now + oauth_code_ttl\<rparr>)\<rparr>, Inr raw))"

definition valid_verifier :: "string \<Rightarrow> bool" where
  "valid_verifier v \<longleftrightarrow> \<not> (length v < 43 \<or> length v > 128) \<and>
     list_all (\<lambda>c. is_lower c \<or> is_upper c \<or> is_digit c \<or> c \<in> set ''-._~'') v"

definition sign_access :: "(string \<Rightarrow> string) \<Rightarrow> (string \<times> int \<Rightarrow> string) \<Rightarrow> time \<Rightarrow> oauth_grant \<Rightarrow> string" where
  "sign_access mac enc now g =
     (let body = enc (og_id g, unix_time (now + oauth_access_ttl)) in oauth_access_prefix @ body @ ''.'' @ mac body)"

definition new_refresh_token :: "string \<Rightarrow> string" where
  "new_refresh_token rnd = oauth_refresh_prefix @ rnd"

text \<open>What both ways of getting tokens answer: the grant, the access token, the refresh token.\<close>

type_synonym token_answer = "oauth_error + oauth_grant \<times> string \<times> string"

definition exchange_code ::
  "(string \<Rightarrow> string) \<Rightarrow> (string \<Rightarrow> string) \<Rightarrow> (oauth_grant \<Rightarrow> string) \<Rightarrow> time \<Rightarrow> bool \<Rightarrow> string option \<Rightarrow> string option
     \<Rightarrow> string \<Rightarrow> string \<Rightarrow> string \<Rightarrow> string \<Rightarrow> oauth_store \<Rightarrow> oauth_store \<times> token_answer" where
  "exchange_code H pkce sign now wr rnd_id rnd_refresh code client_id redirect verifier s =
     (let s1 = s\<lparr>oa_codes := (oa_codes s)(code := None)\<rparr> in
      case oa_codes s code of
        None \<Rightarrow> (s1, Inl InvalidGrant)
      | Some c \<Rightarrow>
          if now > oo_expires c \<or> oo_client c \<noteq> client_id \<or> oo_redirect c \<noteq> redirect then (s1, Inl InvalidGrant)
          else if \<not> valid_verifier verifier \<or> pkce verifier \<noteq> oo_challenge c then (s1, Inl InvalidGrant)
          else case find_client client_id s1 of
            None \<Rightarrow> (s1, Inl InvalidGrant)
          | Some client \<Rightarrow>
             (case (rnd_id, rnd_refresh) of
                (Some i, Some rr) \<Rightarrow>
                  (let refresh = new_refresh_token rr;
                       g = \<lparr>og_id = ''g_'' @ i, og_client = client_id, og_client_name = oc_name client, og_username = oo_username c,
                            og_resource = oo_resource c, og_created = now, og_last_used = now, og_refresh = H refresh,
                            og_prev_refresh = [], og_expires = now + oauth_refresh_ttl\<rparr>
                   in case save_oauth wr (s1\<lparr>oa_grants := oa_grants s1 @ [g]\<rparr>) of
                        (s2, Some e) \<Rightarrow> (s2\<lparr>oa_grants := butlast (oa_grants s2)\<rparr>, Inl e)
                      | (s2, None) \<Rightarrow> (s2, Inr (g, sign g, refresh)))
              | _ \<Rightarrow> (s1, Inl OAuthRandom)))"

subsection \<open>Refresh and access tokens\<close>

definition refresh_grant ::
  "(string \<Rightarrow> string) \<Rightarrow> (oauth_grant \<Rightarrow> string) \<Rightarrow> time \<Rightarrow> bool \<Rightarrow> string option \<Rightarrow> string \<Rightarrow> string \<Rightarrow> oauth_store
     \<Rightarrow> oauth_store \<times> token_answer" where
  "refresh_grant H sign now wr rnd refresh client_id s =
     (let h = H refresh in
      case index_of (\<lambda>g. og_prev_refresh g \<noteq> [] \<and> og_prev_refresh g = h \<or> og_refresh g = h) (oa_grants s) of
        None \<Rightarrow> (s, Inl InvalidGrant)
      | Some i \<Rightarrow>
          (let g = oa_grants s ! i in
           if og_prev_refresh g \<noteq> [] \<and> og_prev_refresh g = h
           then (fst (save_oauth wr (s\<lparr>oa_grants := remove_nth i (oa_grants s)\<rparr>)), Inl InvalidGrant)
           else if og_client g \<noteq> client_id \<or> now > og_expires g then (s, Inl InvalidGrant)
           else case rnd of
             None \<Rightarrow> (s, Inl OAuthRandom)
           | Some rr \<Rightarrow>
               (let next_token = new_refresh_token rr;
                    g' = g\<lparr>og_prev_refresh := og_refresh g, og_refresh := H next_token,
                           og_expires := now + oauth_refresh_ttl, og_last_used := now\<rparr>
                in case save_oauth wr (s\<lparr>oa_grants := (oa_grants s)[i := g']\<rparr>) of
                     (s2, Some e) \<Rightarrow> (s2\<lparr>oa_grants := (oa_grants s2)[i := g]\<rparr>, Inl e)
                   | (s2, None) \<Rightarrow> (s2, Inr (g', sign g', next_token)))))"

definition verify_access ::
  "(string \<Rightarrow> string) \<Rightarrow> (string \<Rightarrow> (string \<times> int) option) \<Rightarrow> time \<Rightarrow> bool \<Rightarrow> string \<Rightarrow> oauth_store \<Rightarrow> oauth_store \<times> oauth_grant option" where
  "verify_access mac dec now wr tok s =
     (if \<not> prefix oauth_access_prefix tok then (s, None)
      else case cut CHR ''.'' (drop (length oauth_access_prefix) tok) of
        None \<Rightarrow> (s, None)
      | Some (body, sig) \<Rightarrow>
          if sig \<noteq> mac body then (s, None)
          else (case dec body of
             None \<Rightarrow> (s, None)
           | Some (grant_id, e) \<Rightarrow>
               if unix_time now \<ge> e then (s, None)
               else (case index_of (\<lambda>g. og_id g = grant_id) (oa_grants s) of
                  None \<Rightarrow> (s, None)
                | Some i \<Rightarrow>
                    (let g = oa_grants s ! i in
                     if now - og_last_used g > 5 * minute
                     then (let g' = g\<lparr>og_last_used := now\<rparr>
                           in (fst (save_oauth wr (s\<lparr>oa_grants := (oa_grants s)[i := g']\<rparr>)), Some g'))
                     else (s, Some g)))))"

definition list_grants :: "oauth_store \<Rightarrow> oauth_grant list" where
  "list_grants s = newest_first og_created (oa_grants s)"

definition revoke_grant :: "bool \<Rightarrow> string \<Rightarrow> oauth_store \<Rightarrow> oauth_store \<times> bool \<times> oauth_error option" where
  "revoke_grant wr i s =
     (case index_of (\<lambda>g. og_id g = i) (oa_grants s) of
        None \<Rightarrow> (s, False, None)
      | Some k \<Rightarrow> (case save_oauth wr (s\<lparr>oa_grants := remove_nth k (oa_grants s)\<rparr>) of (s1, e) \<Rightarrow> (s1, True, e)))"

definition revoke_refresh :: "(string \<Rightarrow> string) \<Rightarrow> bool \<Rightarrow> string \<Rightarrow> oauth_store \<Rightarrow> oauth_store \<times> oauth_error option" where
  "revoke_refresh H wr refresh s =
     (case index_of (\<lambda>g. og_refresh g = H refresh) (oa_grants s) of
        None \<Rightarrow> (s, None)
      | Some k \<Rightarrow> save_oauth wr (s\<lparr>oa_grants := remove_nth k (oa_grants s)\<rparr>))"

subsection \<open>Runs of the store\<close>

datatype oauth_op =
    ORegister time bool "string option" string "string list"
  | ONewCode time "string option" oauth_code
  | OExchange time bool "string option" "string option" string string string string
  | ORefresh time bool "string option" string string
  | OVerify time bool string
  | ORevoke bool string
  | ORevokeRefresh bool string

record oauth_world =
  ow_parse :: url_parser
  ow_hash :: "string \<Rightarrow> string"
  ow_pkce :: "string \<Rightarrow> string"
  ow_mac :: "string \<Rightarrow> string"
  ow_enc :: "string \<times> int \<Rightarrow> string"
  ow_dec :: "string \<Rightarrow> (string \<times> int) option"

definition oauth_step :: "oauth_world \<Rightarrow> oauth_op \<Rightarrow> oauth_store \<Rightarrow> oauth_store" where
  "oauth_step w op s = (case op of
     ORegister now wr rnd name redirects \<Rightarrow> fst (register_client (ow_parse w) now wr rnd name redirects s)
   | ONewCode now rnd c \<Rightarrow> fst (new_code now rnd c s)
   | OExchange now wr ri rr code cid redirect verifier \<Rightarrow>
       fst (exchange_code (ow_hash w) (ow_pkce w) (sign_access (ow_mac w) (ow_enc w) now) now wr ri rr code cid redirect verifier s)
   | ORefresh now wr rnd tok cid \<Rightarrow> fst (refresh_grant (ow_hash w) (sign_access (ow_mac w) (ow_enc w) now) now wr rnd tok cid s)
   | OVerify now wr tok \<Rightarrow> fst (verify_access (ow_mac w) (ow_dec w) now wr tok s)
   | ORevoke wr i \<Rightarrow> fst (revoke_grant wr i s)
   | ORevokeRefresh wr tok \<Rightarrow> fst (revoke_refresh (ow_hash w) wr tok s))"

text \<open>An exchange that hands out tokens for a code, and a call that issues that code.\<close>

definition code_used :: "oauth_world \<Rightarrow> string \<Rightarrow> oauth_op \<Rightarrow> oauth_store \<Rightarrow> bool" where
  "code_used w code op s \<longleftrightarrow> (case op of
     OExchange now wr ri rr c cid redirect verifier \<Rightarrow> c = code \<and>
       (\<exists>ans. snd (exchange_code (ow_hash w) (ow_pkce w) (sign_access (ow_mac w) (ow_enc w) now) now wr ri rr c cid redirect verifier s) = Inr ans)
   | _ \<Rightarrow> False)"

definition code_issued :: "string \<Rightarrow> oauth_op \<Rightarrow> oauth_store \<Rightarrow> bool" where
  "code_issued code op s \<longleftrightarrow> (case op of ONewCode now rnd c \<Rightarrow> rnd = Some code | _ \<Rightarrow> False)"

subsection \<open>Facts\<close>

lemma save_oauth_frame [frame]:
  "oa_clients (fst (save_oauth wr s)) = oa_clients s" "oa_grants (fst (save_oauth wr s)) = oa_grants s"
  "oa_codes (fst (save_oauth wr s)) = oa_codes s"
  by (simp_all add: save_oauth_def)

lemma save_oauth_res: "snd (save_oauth wr s) = (if wr then None else Some OAuthSave)"
  by (simp add: save_oauth_def)

lemma save_oauth_case:
  "(case save_oauth wr s of (s2, Some e) \<Rightarrow> f s2 e | (s2, None) \<Rightarrow> g s2) =
     (if wr then g (s\<lparr>oa_disk := Some (oa_clients s, oa_grants s)\<rparr>) else f s OAuthSave)"
  by (simp add: save_oauth_def)

lemma evict_keeps_used:
  "c \<in> set cs \<Longrightarrow> used (oc_id c) \<Longrightarrow> c \<in> set (fst (evict_clients used n cs))"
  by (induction used n cs rule: evict_clients.induct) (auto split: prod.splits)

lemma evict_sub: "set (fst (evict_clients used n cs)) \<subseteq> set cs"
  by (induction used n cs rule: evict_clients.induct) (auto split: prod.splits)

lemma evict_length:
  "length (fst (evict_clients used n cs)) + n = length cs + snd (evict_clients used n cs)"
  by (induction used n cs rule: evict_clients.induct) (auto split: prod.splits)

lemma make_room_keeps:
  "c \<in> set (oa_clients s) \<Longrightarrow> oc_id c \<in> set (map og_client (oa_grants s)) \<Longrightarrow> c \<in> set (fst (make_room s))"
  by (auto simp: make_room_def intro!: evict_keeps_used)

lemma evict_rest: "snd (evict_clients used n cs) \<le> n"
proof (induction used n cs rule: evict_clients.induct)
  case (2 used need c cs)
  then show ?case
    by (cases "need > 0 \<and> \<not> used (oc_id c)") (auto split: prod.splits)
qed simp

lemma make_room_length:
  "length (fst (make_room s)) \<le> length (oa_clients s) \<and> (snd (make_room s) = 0 \<longrightarrow> length (fst (make_room s)) < 500)"
proof (cases "length (oa_clients s) \<ge> 500")
  case True
  define n where "n = length (oa_clients s) - 500 + 1"
  define used where "used = (\<lambda>i. i \<in> set (map og_client (oa_grants s)))"
  define r where "r = evict_clients used n (sort_key oc_created (oa_clients s))"
  have "make_room s = r" using True by (simp only: make_room_def r_def n_def used_def max_oauth_clients_def if_True)
  moreover have "length (fst r) + n = length (oa_clients s) + snd r"
    using evict_length[of used n "sort_key oc_created (oa_clients s)"] by (simp add: r_def)
  moreover have "snd r \<le> n" unfolding r_def by (rule evict_rest)
  ultimately show ?thesis using True n_def by auto
qed (simp add: make_room_def max_oauth_clients_def)

text \<open>What the calls leave alone.\<close>

lemma register_frame [frame]:
  "oa_grants (fst (register_client parse now wr rnd n0 rs s)) = oa_grants s"
  "oa_codes (fst (register_client parse now wr rnd n0 rs s)) = oa_codes s"
  by (simp_all add: register_client_def Let_def save_oauth_def split: option.splits prod.splits)

lemma refresh_frame [frame]:
  "oa_clients (fst (refresh_grant H sign now wr rnd tok cid s)) = oa_clients s"
  "oa_codes (fst (refresh_grant H sign now wr rnd tok cid s)) = oa_codes s"
  by (simp_all add: refresh_grant_def Let_def save_oauth_def split: option.splits)

lemma verify_frame [frame]:
  "oa_clients (fst (verify_access mac dec now wr tok s)) = oa_clients s"
  "oa_codes (fst (verify_access mac dec now wr tok s)) = oa_codes s"
  by (simp_all add: verify_access_def Let_def save_oauth_def split: option.splits prod.splits)

lemma revoke_frame [frame]:
  "oa_clients (fst (revoke_grant wr i s)) = oa_clients s" "oa_codes (fst (revoke_grant wr i s)) = oa_codes s"
  "oa_clients (fst (revoke_refresh H wr tok s)) = oa_clients s" "oa_codes (fst (revoke_refresh H wr tok s)) = oa_codes s"
  by (simp_all add: revoke_grant_def revoke_refresh_def save_oauth_def split: option.splits)

lemma new_code_frame [frame]:
  "oa_clients (fst (new_code now rnd c s)) = oa_clients s" "oa_grants (fst (new_code now rnd c s)) = oa_grants s"
  by (simp_all add: new_code_def split: option.splits)

lemma exchange_clients [frame]:
  "oa_clients (fst (exchange_code H pkce sign now wr ri rr code cid red ver s)) = oa_clients s"
  by (simp add: exchange_code_def Let_def save_oauth_def split: option.splits)

text \<open>An exchange spends the code whatever it answers, and touches no other code.\<close>

lemma exchange_codes [frame]:
  "oa_codes (fst (exchange_code H pkce sign now wr ri rr code cid red ver s)) = (oa_codes s)(code := None)"
  by (simp add: exchange_code_def Let_def save_oauth_def split: option.splits)

lemma exchange_ok_live:
  "snd (exchange_code H pkce sign now wr ri rr code cid red ver s) = Inr ans \<Longrightarrow> oa_codes s code \<noteq> None"
  by (cases "oa_codes s code") (simp_all add: exchange_code_def Let_def)

lemma new_code_live:
  "oa_codes (fst (new_code now rnd c s)) k \<noteq> None \<Longrightarrow> oa_codes s k \<noteq> None \<or> rnd = Some k"
  by (auto simp: new_code_def split: option.splits if_splits)

interpretation codes: single_use
  "\<lambda>s code. oa_codes s code \<noteq> None" "oauth_step w" "code_used w" code_issued
proof (unfold_locales, goal_cases)
  case (1 g op s)
  then show ?case using exchange_ok_live by (cases op) (auto simp: code_used_def)
next
  case (2 g op s)
  then show ?case by (cases op) (simp_all add: code_used_def oauth_step_def frame)
next
  case (3 op s g)
  then show ?case
    by (cases op) (use new_code_live in \<open>auto simp: oauth_step_def code_issued_def frame split: if_splits\<close>)
qed

text \<open>Every grant belongs to a registered client, and there are at most 500 of those.\<close>

definition oauth_ok :: "oauth_store \<Rightarrow> bool" where
  "oauth_ok s \<longleftrightarrow> length (oa_clients s) \<le> 500 \<and> (\<forall>g \<in> set (oa_grants s). og_client g \<in> oc_id ` set (oa_clients s))"

lemma oauth_ok_sub:
  "oauth_ok s \<Longrightarrow> oa_clients s' = oa_clients s \<Longrightarrow> og_client ` set (oa_grants s') \<subseteq> og_client ` set (oa_grants s) \<Longrightarrow> oauth_ok s'"
  by (auto simp: oauth_ok_def)

lemma register_ok [inv_intros]:
  assumes "oauth_ok s"
  shows "oauth_ok (fst (register_client parse now wr rnd n0 rs s))"
proof -
  obtain kept need where k: "make_room s = (kept, need)" by (cases "make_room s")
  have len: "length kept \<le> 500" "need = 0 \<longrightarrow> length kept < 500"
    using make_room_length[of s] assms k by (auto simp: oauth_ok_def)
  have cl: "\<forall>g \<in> set (oa_grants s). og_client g \<in> oc_id ` set kept"
  proof
    fix g assume g: "g \<in> set (oa_grants s)"
    then obtain c where c: "c \<in> set (oa_clients s)" "oc_id c = og_client g" using assms by (auto simp: oauth_ok_def)
    then have "c \<in> set kept" using make_room_keeps[of c s] g k by auto
    then show "og_client g \<in> oc_id ` set kept" using c(2) by (metis image_eqI)
  qed
  show ?thesis
    using assms len cl
    by (auto simp: register_client_def Let_def k save_oauth_def oauth_ok_def split: option.splits)
qed

lemma find_client_in: "find_client i s = Some c \<Longrightarrow> i \<in> oc_id ` set (oa_clients s)"
  by (auto simp: find_client_def find_Some_iff)

lemma exchange_ok [inv_intros]:
  assumes "oauth_ok s"
  shows "oauth_ok (fst (exchange_code H pkce sign now wr ri rr code cid red ver s))"
proof -
  have "og_client ` set (oa_grants (fst (exchange_code H pkce sign now wr ri rr code cid red ver s)))
      \<subseteq> og_client ` set (oa_grants s) \<union> {i. i \<in> oc_id ` set (oa_clients s)}"
    using find_client_in[of cid "s\<lparr>oa_codes := (oa_codes s)(code := None)\<rparr>"]
    by (auto simp: exchange_code_def Let_def save_oauth_def split: option.splits)
  then show ?thesis using assms by (auto simp: oauth_ok_def frame)
qed

lemma map_client_update: "og_client g' = og_client (gs ! i) \<Longrightarrow> map og_client (gs[i := g']) = map og_client gs"
  by (metis list_update_id map_update)

lemma refresh_clients_sub:
  "og_client ` set (oa_grants (fst (refresh_grant H sign now wr rnd tok cid s))) \<subseteq> og_client ` set (oa_grants s)"
proof -
  have u: "og_client ` set (gs[i := g']) = og_client ` set gs" if "og_client g' = og_client (gs ! i)" for gs i g'
    using map_client_update[OF that] by (metis set_map)
  show ?thesis
    using set_remove_nth[of _ "oa_grants s"]
    by (auto simp: refresh_grant_def Let_def save_oauth_def u split: option.splits)
qed

lemma verify_clients_sub:
  "og_client ` set (oa_grants (fst (verify_access mac dec now wr tok s))) \<subseteq> og_client ` set (oa_grants s)"
proof -
  have u: "og_client ` set (gs[i := g']) = og_client ` set gs" if "og_client g' = og_client (gs ! i)" for gs i g'
    using map_client_update[OF that] by (metis set_map)
  show ?thesis
    by (auto simp: verify_access_def Let_def save_oauth_def u split: option.splits)
qed

lemma oauth_step_ok: "oauth_ok s \<Longrightarrow> oauth_ok (oauth_step w op s)"
proof -
  assume ok: "oauth_ok s"
  note sub = oauth_ok_sub[OF ok]
  show ?thesis
  proof (cases op)
    case (ORefresh now wr rnd tok cid)
    then show ?thesis by (simp add: oauth_step_def) (rule sub, simp_all add: frame refresh_clients_sub)
  next
    case (OVerify now wr tok)
    then show ?thesis by (simp add: oauth_step_def) (rule sub, simp_all add: frame verify_clients_sub)
  next
    case (ORevoke wr i)
    have "og_client ` set (oa_grants (fst (revoke_grant wr i s))) \<subseteq> og_client ` set (oa_grants s)"
      using set_remove_nth[of _ "oa_grants s"] by (auto simp: revoke_grant_def save_oauth_def split: option.splits)
    then show ?thesis using ORevoke by (simp add: oauth_step_def) (rule sub, simp_all add: frame)
  next
    case (ORevokeRefresh wr tok)
    have "og_client ` set (oa_grants (fst (revoke_refresh (ow_hash w) wr tok s))) \<subseteq> og_client ` set (oa_grants s)"
      using set_remove_nth[of _ "oa_grants s"] by (auto simp: revoke_refresh_def save_oauth_def split: option.splits)
    then show ?thesis using ORevokeRefresh by (simp add: oauth_step_def) (rule sub, simp_all add: frame)
  next
    case (ONewCode now rnd c)
    then show ?thesis by (simp add: oauth_step_def) (rule sub, simp_all add: frame)
  qed (simp_all add: oauth_step_def ok inv_intros)
qed

text \<open>No two grants share a refresh token hash, current or previous: what random tokens give.\<close>

definition refresh_distinct :: "oauth_grant list \<Rightarrow> bool" where
  "refresh_distinct gs \<longleftrightarrow> distinct (map og_id gs) \<and>
     (\<forall>i < length gs. \<forall>j < length gs. i \<noteq> j \<longrightarrow> og_refresh (gs ! i) \<noteq> og_refresh (gs ! j) \<and> og_refresh (gs ! i) \<noteq> og_prev_refresh (gs ! j))"

definition hash_fresh :: "string \<Rightarrow> oauth_grant list \<Rightarrow> bool" where
  "hash_fresh h gs \<longleftrightarrow> (\<forall>g \<in> set gs. og_refresh g \<noteq> h \<and> og_prev_refresh g \<noteq> h)"

definition rotated :: "(string \<Rightarrow> string) \<Rightarrow> time \<Rightarrow> string \<Rightarrow> oauth_grant \<Rightarrow> oauth_grant" where
  "rotated H now tok g = g\<lparr>og_prev_refresh := og_refresh g, og_refresh := H tok, og_expires := now + oauth_refresh_ttl, og_last_used := now\<rparr>"

lemma refresh_success:
  assumes "refresh_grant H sign now wr rnd old cid s = (s1, Inr (g, acc, new))"
  shows "\<exists>i. i < length (oa_grants s) \<and> og_refresh (oa_grants s ! i) = H old \<and> g = rotated H now new (oa_grants s ! i)
     \<and> oa_grants s1 = (oa_grants s)[i := g] \<and> og_client (oa_grants s ! i) = cid \<and> now \<le> og_expires (oa_grants s ! i)"
proof -
  let ?p = "\<lambda>g. og_prev_refresh g \<noteq> [] \<and> og_prev_refresh g = H old \<or> og_refresh g = H old"
  obtain i where i: "index_of ?p (oa_grants s) = Some i"
    using assms by (cases "index_of ?p (oa_grants s)") (simp_all add: refresh_grant_def)
  have il: "i < length (oa_grants s)" "?p (oa_grants s ! i)" using index_of_Some[OF i] by simp_all
  obtain rr where rr: "rnd = Some rr"
    using assms by (cases rnd) (simp_all add: refresh_grant_def i Let_def split: if_splits)
  show ?thesis
    using assms il
    by (intro exI[of _ i]) (auto simp: refresh_grant_def i rr Let_def save_oauth_def rotated_def split: if_splits)
qed

lemma replay_removes:
  assumes "i < length gs" "og_prev_refresh (gs ! i) = H old" "H old \<noteq> []" "oa_grants s = gs"
    and "\<And>j. j < length gs \<Longrightarrow> j \<noteq> i \<Longrightarrow> og_refresh (gs ! j) \<noteq> H old \<and> og_prev_refresh (gs ! j) \<noteq> H old"
  shows "snd (refresh_grant H sign now wr rnd old cid s) = Inl InvalidGrant
    \<and> oa_grants (fst (refresh_grant H sign now wr rnd old cid s)) = remove_nth i gs"
proof -
  have "index_of (\<lambda>g. og_prev_refresh g \<noteq> [] \<and> og_prev_refresh g = H old \<or> og_refresh g = H old) gs = Some i"
    by (rule index_of_unique) (use assms in auto)
  then show ?thesis using assms(2,3,4) by (simp add: refresh_grant_def Let_def frame)
qed

lemma unknown_refresh:
  "hash_fresh (H tok) (oa_grants s) \<Longrightarrow> refresh_grant H sign now wr rnd tok cid s = (s, Inl InvalidGrant)"
proof -
  assume f: "hash_fresh (H tok) (oa_grants s)"
  then have "index_of (\<lambda>g. og_prev_refresh g \<noteq> [] \<and> og_prev_refresh g = H tok \<or> og_refresh g = H tok) (oa_grants s) = None"
    by (auto simp: index_of_None hash_fresh_def)
  then show ?thesis by (simp add: refresh_grant_def)
qed

lemma verify_needs_grant:
  "snd (verify_access mac dec now wr tok s) = Some g \<Longrightarrow> og_id g \<in> og_id ` set (oa_grants s)"
  by (auto simp: verify_access_def Let_def split: option.splits if_splits prod.splits dest!: index_of_Some)

subsection \<open>Properties\<close>

text \<open>C21: An authorization code is good for one exchange. Over any run of the store's calls, in any order, that
  issues a code at most once, at most one exchange hands out tokens for it, whatever else was called in
  between and whatever exchanges failed.\<close>
theorem code_used_once:
  assumes "oa_codes s code = None" "count_ops (oauth_step w) (code_issued code) ops s \<le> 1"
  shows "count_ops (oauth_step w) (code_used w code) ops s \<le> 1"
  by (rule codes.one_grant_one_use) (use assms in simp_all)

text \<open>Room is made without breaking a consent: in every run there are never more than 500 registered clients,
  and every grant's client stays registered, however many clients anyone registers.\<close>
theorem grants_keep_client:
  assumes "length (oa_clients s) \<le> 500" "\<forall>g \<in> set (oa_grants s). \<exists>c. find_client (og_client g) s = Some c"
  shows "length (oa_clients (run_ops (oauth_step w) ops s)) \<le> 500 \<and>
    (\<forall>g \<in> set (oa_grants (run_ops (oauth_step w) ops s)). \<exists>c. find_client (og_client g) (run_ops (oauth_step w) ops s) = Some c)"
proof -
  have find: "(\<exists>c. find_client i t = Some c) \<longleftrightarrow> i \<in> oc_id ` set (oa_clients t)" for i t
  proof -
    have "find_client i t = None \<longleftrightarrow> i \<notin> oc_id ` set (oa_clients t)" by (auto simp: find_client_def find_None_iff)
    then show ?thesis by (metis not_None_eq)
  qed
  have "oauth_ok (run_ops (oauth_step w) ops s)"
    by (rule run_ops_invariant) (use assms oauth_step_ok in \<open>auto simp: oauth_ok_def find\<close>)
  then show ?thesis by (simp add: oauth_ok_def find)
qed


definition demo_world :: oauth_world where
  "demo_world = \<lparr>ow_parse = (\<lambda>_. None), ow_hash = Cons CHR ''#'', ow_pkce = rev, ow_mac = rev, ow_enc = (\<lambda>(g, e). g), ow_dec = (\<lambda>b. Some (b, 9))\<rparr>"

definition demo_oauth :: oauth_store where
  "demo_oauth = \<lparr>oa_clients = [\<lparr>oc_id = ''nopc_1'', oc_name = ''cli'', oc_redirects = [''https://a''], oc_created = 0\<rparr>],
     oa_grants = [\<lparr>og_id = ''g_1'', og_client = ''nopc_1'', og_client_name = ''cli'', og_username = ''ann'', og_resource = [], og_created = 0,
       og_last_used = 0, og_refresh = ''#nopr_a'', og_prev_refresh = [], og_expires = hour\<rparr>],
     oa_codes = Map.empty, oa_disk = None\<rparr>"

theorem code_used_once_witness:
  "let c = \<lparr>oo_client = ''nopc_1'', oo_redirect = ''https://a'', oo_challenge = [], oo_username = ''ann'', oo_resource = [], oo_expires = 0\<rparr>;
       ex = OExchange 1 True (Some ''2'') (Some ''r'') ''code'' ''nopc_1'' ''https://a'' []
   in count_ops (oauth_step demo_world) (code_used demo_world ''code'') [ONewCode 0 (Some ''code'') c, ex, ex] demo_oauth \<le> 1"
  unfolding Let_def by (rule code_used_once) (simp_all add: code_issued_def demo_oauth_def)

theorem grants_keep_client_witness:
  "let s = run_ops (oauth_step demo_world) [ORegister 3 True (Some ''9'') ''other'' [''https://b''], ORevoke True ''g_2''] demo_oauth
   in length (oa_clients s) \<le> 500 \<and> (\<forall>g \<in> set (oa_grants s). \<exists>c. find_client (og_client g) s = Some c)"
  unfolding Let_def by (rule grants_keep_client) (simp_all add: demo_oauth_def find_client_def)


end
