(* ===== verification/Throttle.thy ===== *)
theory Throttle
  imports Go_Strings
begin

text \<open>
  The throttle on password guessing (\<open>pkg/server/throttle.go\<close>). A Go pointer to a
  \<open>throttleState\<close> never leaves the map, so the map holds the states themselves. The zero \<open>time.Time\<close> of
  a fresh state is an instant before every other: \<open>zero_time\<close>, the year 1.
\<close>

definition zero_time :: time where "zero_time = - 62135596800 * second"

record throttle_state =
  th_failures :: nat
  th_until :: time
  th_last :: time

type_synonym throttle = "string \<rightharpoonup> throttle_state"

definition throttleFree :: nat where "throttleFree = 5"
definition throttleFirst :: time where "throttleFirst = 30 * second"
definition throttleMax :: time where "throttleMax = 15 * minute"
definition throttleForget :: time where "throttleForget = hour"

definition throttle_key :: "string \<Rightarrow> string" where
  "throttle_key username = to_lower (trim_space username)"

definition throttle_wait :: "time \<Rightarrow> throttle \<Rightarrow> string \<Rightarrow> time" where
  "throttle_wait now t username =
     (case t (throttle_key username) of None \<Rightarrow> 0
      | Some st \<Rightarrow> if th_until st - now > 0 then th_until st - now else 0)"

text \<open>\<open>for i := 1; i < over && wait < throttleMax; i++ \{ wait *= 2 \}\<close>, counting the rounds left.\<close>

fun doubled :: "nat \<Rightarrow> time \<Rightarrow> time" where
  "doubled 0 wait = wait"
| "doubled (Suc n) wait = (if wait < throttleMax then doubled n (wait * 2) else wait)"

definition backoff :: "nat \<Rightarrow> time" where
  "backoff over = (let wait = doubled (over - 1) throttleFirst in if wait > throttleMax then throttleMax else wait)"

text \<open>\<open>size\<close> is \<open>len(t.state)\<close> once the state of this username is in the map.\<close>

definition throttle_fail :: "time \<Rightarrow> nat \<Rightarrow> string \<Rightarrow> throttle \<Rightarrow> throttle" where
  "throttle_fail now size_t username t =
     (let k = throttle_key username;
          fresh = \<lparr>th_failures = 0, th_until = zero_time, th_last = zero_time\<rparr>;
          st0 = (case t k of None \<Rightarrow> fresh | Some st \<Rightarrow> if now - th_last st > throttleForget then fresh else st);
          st1 = st0\<lparr>th_failures := th_failures st0 + 1, th_last := now\<rparr>;
          st2 = (if th_failures st1 > throttleFree
                 then st1\<lparr>th_until := now + backoff (th_failures st1 - throttleFree)\<rparr> else st1);
          t' = t(k \<mapsto> st2)
      in if size_t > 10000
         then (\<lambda>name. case t' name of None \<Rightarrow> None
                 | Some s \<Rightarrow> if now - th_last s > throttleForget \<or> th_until s < now then None else Some s)
         else t')"

definition throttle_succeed :: "string \<Rightarrow> throttle \<Rightarrow> throttle" where
  "throttle_succeed username t = t(throttle_key username := None)"

subsection \<open>How long the wait is\<close>

lemma doubled_max: "throttleMax \<le> w \<Longrightarrow> doubled n w = w"
  by (cases n) auto

lemma doubled_le: "0 < w \<Longrightarrow> min (doubled n w) throttleMax = min (w * 2 ^ n) throttleMax"
proof (induction n arbitrary: w)
  case (Suc n)
  show ?case
  proof (cases "w < throttleMax")
    case True
    then show ?thesis using Suc.IH[of "w * 2"] Suc.prems by (simp add: mult.assoc)
  next
    case False
    moreover have "w * 1 \<le> w * 2 ^ Suc n"
      using Suc.prems by (intro mult_left_mono one_le_power) auto
    ultimately have "throttleMax \<le> w * 2 ^ Suc n" by simp
    then show ?thesis using False by simp
  qed
qed simp

lemma backoff_closed: "backoff over = min (throttleFirst * 2 ^ (over - 1)) throttleMax"
  using doubled_le[of throttleFirst "over - 1"] by (auto simp: backoff_def Let_def throttleFirst_def)

lemma backoff_bounds: "30 * second \<le> backoff over \<and> backoff over \<le> 15 * minute"
proof -
  have "(1::int) \<le> 2 ^ (over - 1)" by simp
  then show ?thesis unfolding backoff_closed throttleFirst_def throttleMax_def by linarith
qed

subsection \<open>Properties\<close>

fun fail_all :: "string \<Rightarrow> time list \<Rightarrow> throttle \<Rightarrow> throttle" where
  "fail_all u [] t = t"
| "fail_all u (now # ts) t = fail_all u ts (throttle_fail now 1 u t)"

fun close_times :: "time list \<Rightarrow> bool" where
  "close_times (a # b # ts) = (a \<le> b \<and> b - a \<le> throttleForget \<and> close_times (b # ts))"
| "close_times _ = True"

lemma close_times_le: "close_times (a # as) \<Longrightarrow> a \<le> last (a # as)"
proof (induction as arbitrary: a)
  case (Cons b bs)
  have "a \<le> b" "close_times (b # bs)" using Cons.prems by auto
  with Cons.IH[of b] show ?case by auto
qed simp

lemma fail_all_state:
  assumes "t (throttle_key u) = Some st" "close_times (th_last st # ts)" "ts \<noteq> []"
  shows "\<exists>st'. fail_all u ts t (throttle_key u) = Some st' \<and> th_failures st' = th_failures st + length ts \<and> th_last st' = last ts
    \<and> (th_failures st + length ts > throttleFree \<longrightarrow> th_until st' = last ts + backoff (th_failures st + length ts - throttleFree))
    \<and> (th_failures st + length ts \<le> throttleFree \<longrightarrow> th_until st' = th_until st)"
  using assms
proof (induction ts arbitrary: t st)
  case (Cons now ts)
  define st1 where "st1 = st\<lparr>th_failures := Suc (th_failures st), th_last := now\<rparr>"
  define st2 where "st2 = (if Suc (th_failures st) > throttleFree
      then st1\<lparr>th_until := now + backoff (Suc (th_failures st) - throttleFree)\<rparr> else st1)"
  have f: "throttle_fail now 1 u t (throttle_key u) = Some st2"
    using Cons.prems by (simp add: throttle_fail_def Let_def st1_def st2_def)
  have l: "th_last st2 = now" "th_failures st2 = Suc (th_failures st)" by (simp_all add: st2_def st1_def)
  show ?case
  proof (cases ts)
    case Nil
    then show ?thesis using f by (auto simp: st2_def st1_def)
  next
    case (Cons b bs)
    then have "close_times (th_last st2 # ts)" using Cons.prems(2) l by simp
    from Cons.IH[of "throttle_fail now 1 u t" st2, OF f this] show ?thesis
      using Cons l by (auto simp: st2_def st1_def)
  qed
qed simp

text \<open>C39: The wait doubles from 30 seconds to at most 15 minutes: after n failures in a row for one account
  (each within an hour of the one before, none of them followed by a success), sign-in for it is
  refused for no time while n is at most 5, and for 30 s times 2 to the n - 6, capped at 15 minutes,
  after that, counted from the last failure.\<close>
theorem throttle_doubles:
  assumes "close_times ts" "ts \<noteq> []" "zero_time < hd ts"
  shows "throttle_wait (last ts) (fail_all u ts Map.empty) u =
    (if length ts \<le> 5 then 0 else min (30 * second * 2 ^ (length ts - 6)) (15 * minute))"
proof -
  obtain a as where ts: "ts = a # as" using assms(2) by (cases ts) auto
  define st1 where "st1 = \<lparr>th_failures = 1, th_until = zero_time, th_last = a\<rparr>"
  have f: "throttle_fail a 1 u Map.empty (throttle_key u) = Some st1"
    by (simp add: throttle_fail_def Let_def throttleFree_def st1_def)
  have le: "a \<le> last ts" using close_times_le[of a as] assms(1) unfolding ts by simp
  show ?thesis
  proof (cases as)
    case Nil
    then show ?thesis using f ts assms(3) by (simp add: throttle_wait_def st1_def)
  next
    case (Cons b bs)
    then have ne: "as \<noteq> []" by simp
    have "close_times (th_last st1 # as)" using assms(1) ts by (simp add: st1_def)
    from fail_all_state[of "throttle_fail a 1 u Map.empty" u st1, OF f this ne] obtain st' where st':
      "fail_all u as (throttle_fail a 1 u Map.empty) (throttle_key u) = Some st'"
      "1 + length as > throttleFree \<longrightarrow> th_until st' = last as + backoff (1 + length as - throttleFree)"
      "1 + length as \<le> throttleFree \<longrightarrow> th_until st' = zero_time"
      by (auto simp: st1_def)
    have b: "0 < backoff n" for n using backoff_bounds[of n] by linarith
    show ?thesis
    proof (cases "length ts \<le> 5")
      case True
      then show ?thesis
        using st' le assms(3) ne by (simp add: ts throttle_wait_def throttleFree_def)
    next
      case False
      then have "throttle_wait (last ts) (fail_all u ts Map.empty) u = backoff (length ts - 5)"
        using st' ne b[of "length ts - 5"] by (simp add: ts throttle_wait_def throttleFree_def)
      then show ?thesis
        using False by (simp add: backoff_closed throttleFirst_def throttleMax_def numeral_eq_Suc)
    qed
  qed
qed

theorem throttle_doubles_witness:
  "throttle_wait (7 * second) (fail_all ''bob'' (map (\<lambda>s. s * second) [1, 2, 3, 4, 5, 6, 7]) Map.empty) ''bob'' = minute"
  using throttle_doubles[of "map (\<lambda>s. s * second) [1, 2, 3, 4, 5, 6, 7]" "''bob''"]
  by (simp add: throttleForget_def zero_time_def)

text \<open>Failures for other accounts never shorten a lock: while an account is locked, a failed sign-in
  for any account, even one that makes the table drop its stale entries, leaves it locked at least as
  long.\<close>
theorem throttle_lock_kept:
  assumes "0 < throttle_wait now t u" "\<forall>st. t (throttle_key u) = Some st \<longrightarrow> th_last st \<le> now \<and> now - th_last st \<le> throttleForget"
    and "throttle_key v \<noteq> throttle_key u \<or> (\<forall>st. t (throttle_key u) = Some st \<longrightarrow> throttleFree < th_failures st \<and>
           th_until st \<le> th_last st + backoff (th_failures st - throttleFree))"
  shows "throttle_wait now t u \<le> throttle_wait now (throttle_fail now n v t) u"
proof -
  obtain st where st: "t (throttle_key u) = Some st" and un: "th_until st - now > 0" and la: "th_last st \<le> now" "now - th_last st \<le> throttleForget"
    using assms(1,2) by (auto simp: throttle_wait_def split: option.splits if_splits)
  show ?thesis
  proof (cases "throttle_key v = throttle_key u")
    case False
    have "throttle_fail now n v t (throttle_key u) = Some st"
      using False st un la by (auto simp: throttle_fail_def Let_def)
    then show ?thesis using st by (simp add: throttle_wait_def)
  next
    case True
    then have h: "throttleFree < th_failures st" "th_until st \<le> th_last st + backoff (th_failures st - throttleFree)"
      using assms(3) st by auto
    have mono: "backoff (th_failures st - throttleFree) \<le> backoff (Suc (th_failures st) - throttleFree)"
      unfolding backoff_closed
      by (intro min.mono mult_left_mono power_increasing) (use h(1) in \<open>auto simp: throttleFirst_def\<close>)
    have b: "0 < backoff (Suc (th_failures st) - throttleFree)"
      using backoff_bounds[of "Suc (th_failures st) - throttleFree"] by linarith
    define st2 where "st2 = st\<lparr>th_failures := Suc (th_failures st), th_last := now,
        th_until := now + backoff (Suc (th_failures st) - throttleFree)\<rparr>"
    have "throttle_fail now n v t (throttle_key u) = Some st2"
      using True st la h(1) b
      by (simp add: throttle_fail_def Let_def st2_def throttleForget_def)
    then show ?thesis using st un h(2) la mono b by (simp add: throttle_wait_def st2_def)
  qed
qed

theorem throttle_lock_kept_witness:
  "throttle_wait (8 * second) [''bob'' \<mapsto> \<lparr>th_failures = 7, th_until = 67 * second, th_last = 7 * second\<rparr>] ''bob''
   \<le> throttle_wait (8 * second) (throttle_fail (8 * second) 20000 ''eve'' [''bob'' \<mapsto> \<lparr>th_failures = 7, th_until = 67 * second, th_last = 7 * second\<rparr>]) ''bob''"
proof -
  have k: "throttle_key ''bob'' = ''bob''" "throttle_key ''eve'' = ''eve''"
    by (simp_all add: throttle_key_def trim_space_def trim_left_def trim_right_def char_class_defs to_lower_def lower_char_def)
  show ?thesis
    by (rule throttle_lock_kept) (simp_all add: k throttle_wait_def throttleForget_def)
qed

end
