(* ===== verification/Access.thy ===== *)
theory Access
  imports OAuth Throttle
begin

text \<open>
  Who may call what: the middleware of \<open>pkg/server/server.go\<close> (\<open>authWith\<close> and its variants), the routes it
  guards, and the gate and tools of the MCP endpoint (\<open>mcp.go\<close>).

  \<^item> A request that passes is answered by its handler with an \<open>actor\<close> (\<open>actorHolder\<close>): the name, role and scope
    it acts with. A refusal is the HTTP status and the error code.
  \<^item> \<open>routes\<close> is the table \<open>Handler\<close> registers; which parts of the daemon are configured are \<open>options\<close>.
    The dispatch of a path to its pattern is \<open>http.ServeMux\<close>, so a route is named by its pattern here.
\<close>

subsection \<open>The daemon\<close>

record crypto = oauth_world +
  cr_hmac :: hmac
  cr_codec :: codec
  cr_gen :: "string \<Rightarrow> string \<Rightarrow> string"
  cr_cmp :: "string \<Rightarrow> string \<Rightarrow> bool"
  cr_dummy :: string

record daemon =
  da_sessions :: "sessions option"
  da_users :: "user_store option"
  da_tokens :: token_store
  da_oauth :: "oauth_store option"
  da_throttle :: throttle

record actor =
  ac_name :: string
  ac_role :: role
  ac_scope :: "scope option"

datatype refusal = Refusal nat string

subsection \<open>The middleware\<close>

definition secrets_only_refused :: "scope option \<Rightarrow> bool \<Rightarrow> bool" where
  "secrets_only_refused sc allow_secrets \<longleftrightarrow> secrets_only sc \<and> \<not> allow_secrets"

definition request_session :: "crypto \<Rightarrow> time \<Rightarrow> request \<Rightarrow> daemon \<Rightarrow> daemon \<times> (string \<times> role) option" where
  "request_session cr now r d =
     (case da_sessions d of None \<Rightarrow> (d, None)
      | Some se \<Rightarrow> (case current_session (cr_hmac cr) (cr_codec cr) se now r (da_users d) of
          (users, res) \<Rightarrow> (d\<lparr>da_users := users\<rparr>, res)))"

definition auth_with ::
  "crypto \<Rightarrow> time \<Rightarrow> role \<Rightarrow> bool \<Rightarrow> bool \<Rightarrow> actor option \<Rightarrow> request \<Rightarrow> daemon \<Rightarrow> daemon \<times> (refusal + actor)" where
  "auth_with cr now needed allow_scoped allow_secrets mcp_caller r d =
     (case mcp_caller of
        Some c \<Rightarrow>
          (d, if \<not> allows (ac_role c) needed then Inl (Refusal 403 ''forbidden'')
              else if secrets_only_refused (ac_scope c) allow_secrets then Inl (Refusal 403 ''forbidden'')
              else if ac_scope c \<noteq> None \<and> \<not> allow_scoped then Inl (Refusal 403 ''forbidden'')
              else Inr c)
      | None \<Rightarrow>
         (case request_session cr now r d of
            (d1, Some (username, role)) \<Rightarrow>
              (d1, if \<not> same_origin (ow_parse cr) r then Inl (Refusal 403 ''cross_origin'')
                   else if \<not> allows role needed then Inl (Refusal 403 ''forbidden'')
                   else Inr \<lparr>ac_name = username, ac_role = role, ac_scope = None\<rparr>)
          | (d1, None) \<Rightarrow>
              (case verify_token (ow_hash cr) (bearer r) (da_tokens d1) of (ts, found) \<Rightarrow>
                 (d1\<lparr>da_tokens := ts\<rparr>,
                  case found of
                    None \<Rightarrow> Inl (Refusal 401 ''unauthorized'')
                  | Some t \<Rightarrow>
                      if \<not> allows (to_role t) needed then Inl (Refusal 403 ''forbidden'')
                      else if scoped t \<and> secrets_only_refused (to_scope t) allow_secrets then Inl (Refusal 403 ''forbidden'')
                      else if scoped t \<and> \<not> allow_scoped then Inl (Refusal 403 ''forbidden'')
                      else Inr \<lparr>ac_name = to_name t, ac_role = to_role t,
                                ac_scope = (if scoped t then to_scope t else None)\<rparr>))))"

text \<open>What stands before a handler.\<close>

datatype gate = Public | Auth role | AuthScoped role | AuthSecretSync | AuthMigrate | McpGate | Events

definition secret_sync_allowed :: "actor \<Rightarrow> bool" where
  "secret_sync_allowed a \<longleftrightarrow> secrets_only (ac_scope a) \<or> (ac_scope a = None \<and> allows (ac_role a) RoleDeployer)"

definition migrate_allowed :: "actor \<Rightarrow> bool" where
  "migrate_allowed a \<longleftrightarrow> \<not> (ac_scope a = None \<and> \<not> allows (ac_role a) RoleAdmin)"

definition then_check :: "(actor \<Rightarrow> bool) \<Rightarrow> daemon \<times> (refusal + actor) \<Rightarrow> daemon \<times> (refusal + actor)" where
  "then_check ok res = (case res of (d, Inr a) \<Rightarrow> (d, if ok a then Inr a else Inl (Refusal 403 ''forbidden'')) | _ \<Rightarrow> res)"

definition auth_secret_sync :: "crypto \<Rightarrow> time \<Rightarrow> actor option \<Rightarrow> request \<Rightarrow> daemon \<Rightarrow> daemon \<times> (refusal + actor)" where
  "auth_secret_sync cr now c r d = then_check secret_sync_allowed (auth_with cr now RoleDeployer True True c r d)"

definition auth_migrate :: "crypto \<Rightarrow> time \<Rightarrow> actor option \<Rightarrow> request \<Rightarrow> daemon \<Rightarrow> daemon \<times> (refusal + actor)" where
  "auth_migrate cr now c r d = then_check migrate_allowed (auth_with cr now RoleDeployer True False c r d)"

text \<open>\<open>oauthUser\<close>: the person a grant acts for, as the user store has them now.\<close>

definition oauth_user :: "oauth_grant \<Rightarrow> daemon \<Rightarrow> daemon \<times> (string \<times> role) option" where
  "oauth_user g d =
     (case da_users d of None \<Rightarrow> (d, None)
      | Some us \<Rightarrow> (case live_user (og_username g) us of (us1, res) \<Rightarrow> (d\<lparr>da_users := Some us1\<rparr>, res)))"

text \<open>\<open>mcpHandler\<close>: a bearer token only, never the session cookie.\<close>

definition drop_cookies :: "request \<Rightarrow> request" where "drop_cookies r = r\<lparr>rq_cookie := \<lambda>_. None\<rparr>"

definition foreign_origin :: "url_parser \<Rightarrow> request \<Rightarrow> bool" where
  "foreign_origin parse r \<longleftrightarrow> (let orig = rq_header r ''Origin'' in
     orig \<noteq> [] \<and> (case parse orig of None \<Rightarrow> True | Some u \<Rightarrow> ur_host u \<noteq> rq_host r))"

definition mcp_gate :: "crypto \<Rightarrow> time \<Rightarrow> bool \<Rightarrow> request \<Rightarrow> daemon \<Rightarrow> daemon \<times> (refusal + actor)" where
  "mcp_gate cr now wr r d =
     (let tok = bearer r in
      if foreign_origin (ow_parse cr) r then (d, Inl (Refusal 403 ''forbidden''))
      else if tok = [] then (d, Inl (Refusal 401 ''unauthorized''))
      else case (prefix oauth_access_prefix tok, da_oauth d) of
        (True, Some oa) \<Rightarrow>
          (case verify_access (ow_mac cr) (ow_dec cr) now wr tok oa of
             (oa1, None) \<Rightarrow> (d\<lparr>da_oauth := Some oa1\<rparr>, Inl (Refusal 401 ''unauthorized''))
           | (oa1, Some g) \<Rightarrow>
               (case oauth_user g (d\<lparr>da_oauth := Some oa1\<rparr>) of
                  (d1, None) \<Rightarrow> (d1, Inl (Refusal 401 ''unauthorized''))
                | (d1, Some (username, role)) \<Rightarrow>
                    (d1, Inr \<lparr>ac_name = username @ '' (via '' @ og_client_name g @ '')'', ac_role = role, ac_scope = None\<rparr>)))
      | _ \<Rightarrow>
          (case verify_token (ow_hash cr) tok (da_tokens d) of
             (ts, None) \<Rightarrow> (d\<lparr>da_tokens := ts\<rparr>, Inl (Refusal 401 ''unauthorized''))
           | (ts, Some _) \<Rightarrow> auth_with cr now RoleViewer True False None (drop_cookies r) (d\<lparr>da_tokens := ts\<rparr>)))"

text \<open>
  The feed of the UI checks its caller itself (\<open>events.go\<close>): a browser's session from the daemon's own pages, a bearer token, or
  the token of the connection's first message. The codes from 4001 are those the connection is closed with; how many connections
  may be open is left out.
\<close>

definition event_caller_by_token :: "crypto \<Rightarrow> string \<Rightarrow> daemon \<Rightarrow> daemon \<times> (refusal + actor)" where
  "event_caller_by_token cr secret d =
     (case verify_token (ow_hash cr) secret (da_tokens d) of (ts, found) \<Rightarrow>
        (d\<lparr>da_tokens := ts\<rparr>,
         case found of
           None \<Rightarrow> Inl (Refusal 403 ''forbidden'')
         | Some t \<Rightarrow>
             if scoped t then Inl (Refusal 403 ''forbidden'')
             else if \<not> allows (to_role t) RoleViewer then Inl (Refusal 403 ''forbidden'')
             else Inr \<lparr>ac_name = to_name t, ac_role = to_role t, ac_scope = None\<rparr>))"

definition events_gate :: "crypto \<Rightarrow> time \<Rightarrow> request \<Rightarrow> daemon \<Rightarrow> daemon \<times> (refusal + actor)" where
  "events_gate cr now r d =
     (case request_session cr now r d of
        (d1, Some (username, role)) \<Rightarrow>
          (d1, if foreign_origin (ow_parse cr) r then Inl (Refusal 403 ''forbidden'')
               else Inr \<lparr>ac_name = username, ac_role = role, ac_scope = None\<rparr>)
      | (d1, None) \<Rightarrow>
          if bearer r \<noteq> [] then event_caller_by_token cr (bearer r) d1
          else if rq_first r = [] then (d1, Inl (Refusal 4001 ''unauthorized''))
          else (case event_caller_by_token cr (rq_first r) d1 of (d2, res) \<Rightarrow> (d2, map_sum (\<lambda>_. Refusal 4003 ''forbidden'') id res)))"

definition pass_gate :: "crypto \<Rightarrow> time \<Rightarrow> bool \<Rightarrow> gate \<Rightarrow> actor option \<Rightarrow> request \<Rightarrow> daemon \<Rightarrow> daemon \<times> (refusal + actor)" where
  "pass_gate cr now wr g c r d = (case g of
     Public \<Rightarrow> (d, Inr \<lparr>ac_name = ''-'', ac_role = RoleUnknown, ac_scope = None\<rparr>)
   | Auth needed \<Rightarrow> auth_with cr now needed False False c r d
   | AuthScoped needed \<Rightarrow> auth_with cr now needed True False c r d
   | AuthSecretSync \<Rightarrow> auth_secret_sync cr now c r d
   | AuthMigrate \<Rightarrow> auth_migrate cr now c r d
   | McpGate \<Rightarrow> mcp_gate cr now wr r d
   | Events \<Rightarrow> events_gate cr now r d)"

subsection \<open>The routes\<close>

record options =
  op_users :: bool
  op_oidc :: bool
  op_secrets :: bool
  op_plan :: bool
  op_plans :: bool
  op_instances :: bool
  op_jobs :: bool
  op_apply :: bool
  op_deploy :: bool
  op_image_build :: bool
  op_image_prune :: bool
  op_upgrade :: bool
  op_backup :: bool
  op_restore :: bool
  op_oauth :: bool

type_synonym route = "string \<times> string \<times> gate"

abbreviation when_on :: "bool \<Rightarrow> 'a list \<Rightarrow> 'a list" where "when_on b xs \<equiv> (if b then xs else [])"

definition routes :: "options \<Rightarrow> route list" where
  "routes o' =
     [(''GET'', ''/healthz'', Public), (''GET'', ''/openapi.yaml'', Public), (''GET'', ''/openapi.json'', Public)]
     @ when_on (op_users o' \<or> op_oidc o')
         [(''GET'', ''/api/session'', Public), (''POST'', ''/api/login'', Public), (''POST'', ''/api/logout'', Public)]
     @ when_on (op_oidc o') [(''GET'', ''/auth/oidc'', Public), (''GET'', ''/auth/oidc/callback'', Public)]
     @ [(''GET'', ''/v1/whoami'', AuthScoped RoleViewer), (''GET'', ''/v1/events'', Events), (''GET'', ''/v1/status'', Auth RoleViewer)]
     @ when_on (op_secrets o')
         [(''GET'', ''/v1/secrets'', Auth RoleAdmin), (''PUT'', ''/v1/secrets'', AuthSecretSync),
          (''DELETE'', ''/v1/secrets/{name}'', Auth RoleAdmin)]
     @ [(''GET'', ''/v1/tokens'', Auth RoleAdmin), (''POST'', ''/v1/tokens'', Auth RoleAdmin),
        (''DELETE'', ''/v1/tokens/{id}'', Auth RoleAdmin)]
     @ when_on (op_users o')
         [(''GET'', ''/v1/users'', Auth RoleAdmin), (''POST'', ''/v1/users'', Auth RoleAdmin),
          (''PATCH'', ''/v1/users/{username}'', Auth RoleAdmin), (''PUT'', ''/v1/users/by-email/{email}'', Auth RoleAdmin)]
     @ when_on (op_plan o') [(''POST'', ''/v1/plan'', Auth RolePlanner)]
     @ when_on (op_plans o')
         [(''GET'', ''/v1/plans'', Auth RoleViewer), (''GET'', ''/v1/plans/{hash}'', Auth RoleViewer),
          (''POST'', ''/v1/plans/{hash}/approve'', Auth RoleAdmin), (''DELETE'', ''/v1/plans/{hash}/approval'', Auth RoleAdmin)]
     @ when_on (op_instances o')
         [(''GET'', ''/v1/instances'', AuthScoped RoleViewer), (''GET'', ''/v1/instances/{name}'', AuthScoped RoleViewer),
          (''PUT'', ''/v1/instances/{name}'', AuthScoped RoleDeployer), (''POST'', ''/v1/instances/{name}/update'', AuthScoped RoleDeployer),
          (''POST'', ''/v1/instances/{name}/resize'', AuthScoped RoleDeployer), (''POST'', ''/v1/instances/{name}/suspend'', AuthScoped RoleDeployer),
          (''DELETE'', ''/v1/instances/{name}'', AuthScoped RoleDeployer), (''PATCH'', ''/v1/instances/{name}/labels'', AuthScoped RoleDeployer),
          (''POST'', ''/v1/instances/{name}/migrate'', AuthMigrate), (''GET'', ''/v1/instances/{name}/export-spec'', AuthScoped RoleViewer),
          (''POST'', ''/v1/instances/{name}/adopt'', AuthMigrate), (''POST'', ''/v1/instances/{name}/finalize-migration'', AuthMigrate)]
     @ when_on (op_jobs o')
         [(''GET'', ''/v1/jobs'', AuthScoped RoleViewer), (''GET'', ''/v1/jobs/{id}'', AuthScoped RoleViewer)]
     @ when_on (op_apply o') [(''POST'', ''/v1/apply'', Auth RoleDeployer)]
     @ when_on (op_apply o' \<and> op_deploy o')
         [(''POST'', ''/v1/deploy'', Auth RoleDeployer), (''POST'', ''/v1/deploy/plan'', Auth RolePlanner), (''GET'', ''/v1/deploys'', Auth RoleViewer)]
     @ when_on (op_image_build o')
         [(''POST'', ''/v1/images/build'', AuthScoped RoleDeployer), (''GET'', ''/v1/images/recipes'', Auth RoleAdmin),
          (''POST'', ''/v1/images/recipes/{digest}/approve'', Auth RoleAdmin), (''DELETE'', ''/v1/images/recipes/{digest}/approval'', Auth RoleAdmin)]
     @ when_on (op_image_prune o') [(''POST'', ''/v1/images/prune'', Auth RoleDeployer)]
     @ when_on (op_upgrade o') [(''POST'', ''/v1/daemon/upgrade'', Auth RoleAdmin)]
     @ when_on (op_backup o') [(''POST'', ''/v1/backups'', Auth RoleDeployer)]
     @ when_on (op_restore o') [(''POST'', ''/v1/backups/restore'', Auth RoleAdmin)]
     @ [(''POST'', ''/v1/edge/apply'', Public), (''POST'', ''/v1/dns/sync'', Public)]
     @ when_on (op_oauth o')
         [(''GET'', ''/.well-known/oauth-protected-resource'', Public), (''GET'', ''/.well-known/oauth-protected-resource/mcp'', Public),
          (''GET'', ''/.well-known/oauth-authorization-server'', Public), (''OPTIONS'', ''/.well-known/'', Public),
          (''POST'', ''/oauth/register'', Public), (''POST'', ''/oauth/token'', Public), (''POST'', ''/oauth/revoke'', Public),
          (''OPTIONS'', ''/oauth/'', Public), (''GET'', ''/oauth/authorize'', Public), (''POST'', ''/oauth/authorize'', Public),
          (''POST'', ''/oauth/login'', Public), (''GET'', ''/v1/oauth/grants'', Auth RoleAdmin), (''DELETE'', ''/v1/oauth/grants/{id}'', Auth RoleAdmin)]
     @ [(''POST'', ''/mcp'', McpGate), (''GET'', ''/mcp'', Public), (''DELETE'', ''/mcp'', Public),
        (''GET'', ''/{$}'', Public), (''GET'', ''/index.html'', Public), (''GET'', ''/docs'', Public),
        (''GET'', ''/static/'', Public), (''GET'', ''/static-modules/'', Public),
        ([], ''/v1/'', Auth RoleViewer), ([], ''/'', Public)]"

subsection \<open>The MCP tools\<close>

text \<open>A tool: its name, least role, whether a scoped token may use it, when it is on, and the request it makes.
  \<open>startAndWait\<close> may follow with a GET of the job it started.\<close>

record mcp_tool =
  mt_name :: string
  mt_needed :: role
  mt_scoped :: bool
  mt_enabled :: "options \<Rightarrow> bool"
  mt_method :: string
  mt_path :: string
  mt_read_only :: bool

definition deploy_on :: "options \<Rightarrow> bool" where "deploy_on o' \<longleftrightarrow> op_deploy o' \<and> op_apply o'"

definition mcp_tools :: "mcp_tool list" where
  "mcp_tools =
     [\<lparr>mt_name = ''whoami'', mt_needed = RoleViewer, mt_scoped = True, mt_enabled = (\<lambda>_. True), mt_method = ''GET'', mt_path = ''/v1/whoami'', mt_read_only = True\<rparr>,
      \<lparr>mt_name = ''host_status'', mt_needed = RoleViewer, mt_scoped = False, mt_enabled = (\<lambda>_. True), mt_method = ''GET'', mt_path = ''/v1/status'', mt_read_only = True\<rparr>,
      \<lparr>mt_name = ''list_deploys'', mt_needed = RoleViewer, mt_scoped = False, mt_enabled = deploy_on, mt_method = ''GET'', mt_path = ''/v1/deploys'', mt_read_only = True\<rparr>,
      \<lparr>mt_name = ''plan_deploy'', mt_needed = RolePlanner, mt_scoped = False, mt_enabled = deploy_on, mt_method = ''POST'', mt_path = ''/v1/deploy/plan'', mt_read_only = True\<rparr>,
      \<lparr>mt_name = ''deploy'', mt_needed = RoleDeployer, mt_scoped = False, mt_enabled = deploy_on, mt_method = ''POST'', mt_path = ''/v1/deploy'', mt_read_only = False\<rparr>,
      \<lparr>mt_name = ''list_jobs'', mt_needed = RoleViewer, mt_scoped = True, mt_enabled = op_jobs, mt_method = ''GET'', mt_path = ''/v1/jobs'', mt_read_only = True\<rparr>,
      \<lparr>mt_name = ''get_job'', mt_needed = RoleViewer, mt_scoped = True, mt_enabled = op_jobs, mt_method = ''GET'', mt_path = ''/v1/jobs/{id}'', mt_read_only = True\<rparr>,
      \<lparr>mt_name = ''list_plans'', mt_needed = RoleViewer, mt_scoped = False, mt_enabled = op_plans, mt_method = ''GET'', mt_path = ''/v1/plans'', mt_read_only = True\<rparr>,
      \<lparr>mt_name = ''get_plan'', mt_needed = RoleViewer, mt_scoped = False, mt_enabled = op_plans, mt_method = ''GET'', mt_path = ''/v1/plans/{hash}'', mt_read_only = True\<rparr>,
      \<lparr>mt_name = ''list_instances'', mt_needed = RoleViewer, mt_scoped = True, mt_enabled = op_instances, mt_method = ''GET'', mt_path = ''/v1/instances'', mt_read_only = True\<rparr>,
      \<lparr>mt_name = ''get_instance'', mt_needed = RoleViewer, mt_scoped = True, mt_enabled = op_instances, mt_method = ''GET'', mt_path = ''/v1/instances/{name}'', mt_read_only = True\<rparr>,
      \<lparr>mt_name = ''prune_images'', mt_needed = RoleDeployer, mt_scoped = False, mt_enabled = op_image_prune, mt_method = ''POST'', mt_path = ''/v1/images/prune'', mt_read_only = False\<rparr>]"

definition mcp_allows :: "options \<Rightarrow> mcp_tool \<Rightarrow> actor \<Rightarrow> bool" where
  "mcp_allows o' t a \<longleftrightarrow> \<not> secrets_only (ac_scope a) \<and> mt_enabled t o' \<and> allows (ac_role a) (mt_needed t)
     \<and> (ac_scope a = None \<or> mt_scoped t)"

text \<open>\<open>tools/call\<close>: the tool by that name, if the caller may use it (the last of the name, as the loop finds it).\<close>

definition find_tool :: "options \<Rightarrow> string \<Rightarrow> actor \<Rightarrow> mcp_tool option" where
  "find_tool o' name a = find (\<lambda>t. mt_name t = name \<and> mcp_allows o' t a) (rev mcp_tools)"

definition listed_tools :: "options \<Rightarrow> actor \<Rightarrow> string list" where
  "listed_tools o' a = map mt_name (filter (\<lambda>t. mcp_allows o' t a) mcp_tools)"

subsection \<open>Facts\<close>

lemma auth_with_scope:
  assumes "auth_with cr now needed sc sec c r d = (d', Inr a)"
  shows "allows (ac_role a) needed \<and> (ac_scope a \<noteq> None \<longrightarrow> sc \<and> (secrets_only (ac_scope a) \<longrightarrow> sec))"
proof (cases c)
  case None
  obtain d1 su where s: "request_session cr now r d = (d1, su)" by (cases "request_session cr now r d")
  show ?thesis
  proof (cases su)
    case None
    obtain ts f where t: "verify_token (ow_hash cr) (bearer r) (da_tokens d1) = (ts, f)"
      by (cases "verify_token (ow_hash cr) (bearer r) (da_tokens d1)")
    obtain tk where f: "f = Some tk"
      using assms \<open>c = None\<close> s None t by (cases f) (simp_all add: auth_with_def)
    show ?thesis
      using assms \<open>c = None\<close> s None t f
      by (auto simp: auth_with_def secrets_only_refused_def split: if_splits)
  next
    case (Some ur)
    then show ?thesis using assms \<open>c = None\<close> s by (cases ur) (auto simp: auth_with_def split: if_splits)
  qed
next
  case (Some b)
  then show ?thesis using assms by (auto simp: auth_with_def secrets_only_refused_def split: if_splits)
qed

lemma then_check_Inr: "then_check ok res = (d, Inr a) \<longleftrightarrow> res = (d, Inr a) \<and> ok a"
  by (auto simp: then_check_def split: prod.splits sum.splits if_splits)

text \<open>What a gate lets through, when it lets a scoped token through.\<close>

fun lets_scoped :: "gate \<Rightarrow> bool" where
  "lets_scoped Public = False"
| "lets_scoped (Auth _) = False"
| "lets_scoped Events = False"
| "lets_scoped _ = True"

lemma mcp_gate_scope:
  assumes "mcp_gate cr now wr r d = (d', Inr a)"
  shows "\<not> secrets_only (ac_scope a)"
proof -
  have none: "\<not> secrets_only None" by (simp add: secrets_only_def)
  have auth: "\<not> secrets_only (ac_scope a)" if "auth_with cr now RoleViewer True False None r' d'' = (d', Inr a)" for r' d''
    using auth_with_scope[OF that] none by (cases "ac_scope a") auto
  obtain ts f where t: "verify_token (ow_hash cr) (bearer r) (da_tokens d) = (ts, f)"
    by (cases "verify_token (ow_hash cr) (bearer r) (da_tokens d)")
  show ?thesis
  proof (cases "prefix oauth_access_prefix (bearer r) \<and> da_oauth d \<noteq> None")
    case False
    then have "auth_with cr now RoleViewer True False None (drop_cookies r) (d\<lparr>da_tokens := ts\<rparr>) = (d', Inr a)"
      using assms t by (cases f) (auto simp: mcp_gate_def Let_def split: if_splits bool.splits option.splits)
    then show ?thesis by (rule auth)
  next
    case True
    then obtain oa where oa: "da_oauth d = Some oa" "prefix oauth_access_prefix (bearer r)" by blast
    have "ac_scope a = None"
      using assms oa
      by (cases "verify_access (ow_mac cr) (ow_dec cr) now wr (bearer r) oa")
        (auto simp: mcp_gate_def Let_def split: if_splits option.splits prod.splits)
    then show ?thesis using none by simp
  qed
qed

lemma events_gate_scope: "events_gate cr now r d = (d', Inr a) \<Longrightarrow> ac_scope a = None"
  by (auto simp: events_gate_def event_caller_by_token_def split: prod.splits option.splits if_splits sum.splits)

lemma pass_gate_scope:
  assumes "pass_gate cr now wr g c r d = (d', Inr a)" "ac_scope a = Some sc"
  shows "lets_scoped g \<and> (secrets_only (Some sc) \<longleftrightarrow> g = AuthSecretSync)"
proof (cases g)
  case Public
  then show ?thesis using assms by (auto simp: pass_gate_def)
next
  case (Auth needed)
  then show ?thesis using assms auth_with_scope[of cr now needed False False c r d d' a] by (simp add: pass_gate_def)
next
  case (AuthScoped needed)
  then show ?thesis using assms auth_with_scope[of cr now needed True False c r d d' a] by (simp add: pass_gate_def)
next
  case AuthSecretSync
  then show ?thesis using assms by (auto simp: pass_gate_def auth_secret_sync_def then_check_Inr secret_sync_allowed_def)
next
  case AuthMigrate
  then show ?thesis using assms auth_with_scope[of cr now RoleDeployer True False c r d d' a]
    by (auto simp: pass_gate_def auth_migrate_def then_check_Inr)
next
  case McpGate
  then show ?thesis using assms mcp_gate_scope[of cr now wr r d d' a] by (simp add: pass_gate_def)
next
  case Events
  then show ?thesis using assms events_gate_scope[of cr now r d d' a] by (simp add: pass_gate_def)
qed

definition all_on :: options where
  "all_on = \<lparr>op_users = True, op_oidc = True, op_secrets = True, op_plan = True, op_plans = True, op_instances = True, op_jobs = True,
     op_apply = True, op_deploy = True, op_image_build = True, op_image_prune = True, op_upgrade = True, op_backup = True,
     op_restore = True, op_oauth = True\<rparr>"

lemma set_when_on: "set (when_on b xs) = {x \<in> set xs. b}"
  by auto

lemma routes_sub: "set (routes o') \<subseteq> set (routes all_on)"
  unfolding routes_def set_append set_when_on all_on_def by (intro Un_mono subset_refl) auto

definition scoped_endpoints :: "(string \<times> string) list" where
  "scoped_endpoints =
     [(''GET'', ''/v1/whoami''), (''PUT'', ''/v1/secrets''), (''GET'', ''/v1/instances''), (''GET'', ''/v1/instances/{name}''),
      (''PUT'', ''/v1/instances/{name}''), (''POST'', ''/v1/instances/{name}/update''), (''POST'', ''/v1/instances/{name}/resize''),
      (''POST'', ''/v1/instances/{name}/suspend''), (''DELETE'', ''/v1/instances/{name}''), (''PATCH'', ''/v1/instances/{name}/labels''),
      (''POST'', ''/v1/instances/{name}/migrate''), (''GET'', ''/v1/instances/{name}/export-spec''), (''POST'', ''/v1/instances/{name}/adopt''),
      (''POST'', ''/v1/instances/{name}/finalize-migration''), (''GET'', ''/v1/jobs''), (''GET'', ''/v1/jobs/{id}''),
      (''POST'', ''/v1/images/build''), (''POST'', ''/mcp'')]"

lemma routes_scoped: "list_all (\<lambda>(m, p, g). lets_scoped g \<longrightarrow> (m, p) \<in> set scoped_endpoints \<and> (g = AuthSecretSync \<longrightarrow> (m, p) = (''PUT'', ''/v1/secrets''))) (routes all_on)"
  by code_simp

lemma routes_distinct: "distinct (map (\<lambda>(m, p, g). (m, p)) (routes all_on))"
  by code_simp

lemma route_gate_unique: "(m, p, g) \<in> set (routes o') \<Longrightarrow> (m, p, g') \<in> set (routes o') \<Longrightarrow> g = g'"
proof -
  assume "(m, p, g) \<in> set (routes o')" "(m, p, g') \<in> set (routes o')"
  then have m: "(m, p, g) \<in> set (routes all_on)" "(m, p, g') \<in> set (routes all_on)" using routes_sub by blast+
  have "inj_on (\<lambda>(m, p, g). (m, p)) (set (routes all_on))" using routes_distinct by (simp add: distinct_map)
  from inj_onD[OF this _ m] show ?thesis by simp
qed

definition tool_gate :: "mcp_tool \<Rightarrow> gate" where
  "tool_gate t = (if mt_scoped t then AuthScoped (mt_needed t) else Auth (mt_needed t))"

lemma tool_routes: "list_all (\<lambda>t. mt_enabled t o' \<longleftrightarrow> (mt_method t, mt_path t, tool_gate t) \<in> set (routes o')) mcp_tools"
  by (simp add: mcp_tools_def tool_gate_def routes_def deploy_on_def set_when_on) blast

lemma tool_routes_all_on: "list_all (\<lambda>t. (mt_method t, mt_path t, tool_gate t) \<in> set (routes all_on)) mcp_tools"
  by code_simp

lemma caller_passes:
  "auth_with cr now needed sc sec (Some a) r d = (d, Inr a) \<longleftrightarrow>
     allows (ac_role a) needed \<and> (ac_scope a = None \<or> sc) \<and> \<not> (secrets_only (ac_scope a) \<and> \<not> sec)"
  by (auto simp: auth_with_def secrets_only_refused_def)

lemma secrets_only_scoped [simp]: "\<not> secrets_only None"
  by (simp add: secrets_only_def)

subsection \<open>Properties\<close>

text \<open>A request with a token and no session cookie acts with the token, or with no one's rights.\<close>

definition presented :: "gate \<Rightarrow> request \<Rightarrow> string" where
  "presented g r = (if g = Events \<and> bearer r = [] then rq_first r else bearer r)"

lemma no_cookie_no_session: "rq_cookie r session_cookie_name = None \<Longrightarrow> request_session cr now r d = (d, None)"
  by (auto simp: request_session_def current_session_def session_from_request_def split: option.splits)

lemma verify_again: "verify_token H secret ts = (ts', res) \<Longrightarrow> verify_token H secret ts' = (ts', res)"
  by (auto simp: verify_token_def reload_tokens_def Let_def split: if_splits option.splits)

lemma auth_with_token:
  assumes "auth_with cr now needed sc sec None r d = (d', Inr a)" and "rq_cookie r session_cookie_name = None"
    and "verify_token (ow_hash cr) (bearer r) (da_tokens d) = (ts, Some t)" and "scoped t"
  shows "a = \<lparr>ac_name = to_name t, ac_role = to_role t, ac_scope = to_scope t\<rparr>"
  using assms by (auto simp: auth_with_def no_cookie_no_session split: if_splits)

lemma token_acts:
  assumes "pass_gate cr now wr g None r d = (d', Inr a)" and cookie: "rq_cookie r session_cookie_name = None"
    and v: "verify_token (ow_hash cr) (presented g r) (da_tokens d) = (ts, Some t)" and sc: "scoped t"
  shows "g = Public \<or> a = \<lparr>ac_name = to_name t, ac_role = to_role t, ac_scope = to_scope t\<rparr>"
proof (cases g)
  case McpGate
  have p: "presented g r = bearer r" by (simp add: presented_def McpGate)
  have f: "valid_secret_format (bearer r)" using v unfolding p by (auto simp: verify_token_def split: if_splits)
  have "bearer r \<noteq> [] \<and> \<not> prefix oauth_access_prefix (bearer r)" using f by (auto simp: valid_secret_format_def secret_prefix_def oauth_access_prefix_def prefix_def)
  then have auth: "auth_with cr now RoleViewer True False None (drop_cookies r) (d\<lparr>da_tokens := ts\<rparr>) = (d', Inr a)"
    using assms(1) v unfolding p by (auto simp: pass_gate_def McpGate mcp_gate_def Let_def split: if_splits)
  have same: "bearer (drop_cookies r) = bearer r" "rq_cookie (drop_cookies r) session_cookie_name = None" by (simp_all add: drop_cookies_def bearer_def)
  have again: "verify_token (ow_hash cr) (bearer (drop_cookies r)) (da_tokens (d\<lparr>da_tokens := ts\<rparr>)) = (ts, Some t)"
    using verify_again[OF v] p same by simp
  show ?thesis using auth_with_token[OF auth same(2) again sc] by simp
next
  case Events
  have "False" using assms(1) v sc cookie
    by (auto simp: pass_gate_def Events events_gate_def event_caller_by_token_def no_cookie_no_session presented_def split: if_splits)
  then show ?thesis ..
next
  case (Auth needed)
  then have v': "verify_token (ow_hash cr) (bearer r) (da_tokens d) = (ts, Some t)" using v by (simp add: presented_def)
  show ?thesis using assms(1) auth_with_token[OF _ cookie v' sc, of now needed] by (auto simp: pass_gate_def Auth)
next
  case (AuthScoped needed)
  then have v': "verify_token (ow_hash cr) (bearer r) (da_tokens d) = (ts, Some t)" using v by (simp add: presented_def)
  show ?thesis using assms(1) auth_with_token[OF _ cookie v' sc, of now needed] by (auto simp: pass_gate_def AuthScoped)
next
  case AuthSecretSync
  then have v': "verify_token (ow_hash cr) (bearer r) (da_tokens d) = (ts, Some t)" using v by (simp add: presented_def)
  show ?thesis using assms(1) auth_with_token[OF _ cookie v' sc, of now RoleDeployer]
    by (auto simp: pass_gate_def AuthSecretSync auth_secret_sync_def then_check_Inr)
next
  case AuthMigrate
  then have v': "verify_token (ow_hash cr) (bearer r) (da_tokens d) = (ts, Some t)" using v by (simp add: presented_def)
  show ?thesis using assms(1) auth_with_token[OF _ cookie v' sc, of now RoleDeployer]
    by (auto simp: pass_gate_def AuthMigrate auth_migrate_def then_check_Inr)
qed simp

text \<open>The endpoints that look at no token: health and the API's description, the pages, sign-in, and what says that it is gone.\<close>

definition open_endpoints :: "(string \<times> string) list" where
  "open_endpoints =
     [(''GET'', ''/healthz''), (''GET'', ''/openapi.yaml''), (''GET'', ''/openapi.json''),
      (''GET'', ''/api/session''), (''POST'', ''/api/login''), (''POST'', ''/api/logout''), (''GET'', ''/auth/oidc''), (''GET'', ''/auth/oidc/callback''),
      (''POST'', ''/v1/edge/apply''), (''POST'', ''/v1/dns/sync''),
      (''GET'', ''/.well-known/oauth-protected-resource''), (''GET'', ''/.well-known/oauth-protected-resource/mcp''),
      (''GET'', ''/.well-known/oauth-authorization-server''), (''OPTIONS'', ''/.well-known/''),
      (''POST'', ''/oauth/register''), (''POST'', ''/oauth/token''), (''POST'', ''/oauth/revoke''), (''OPTIONS'', ''/oauth/''),
      (''GET'', ''/oauth/authorize''), (''POST'', ''/oauth/authorize''), (''POST'', ''/oauth/login''),
      (''GET'', ''/mcp''), (''DELETE'', ''/mcp''), (''GET'', ''/{$}''), (''GET'', ''/index.html''), (''GET'', ''/docs''),
      (''GET'', ''/static/''), (''GET'', ''/static-modules/''), ([], ''/'')]"

lemma routes_open: "list_all (\<lambda>(m, p, g). g = Public \<longrightarrow> (m, p) \<in> set open_endpoints) (routes all_on)"
  by code_simp

lemma scoped_stays:
  assumes "(m, p, g) \<in> set (routes opts)" "pass_gate cr now wr g c r d = (d', Inr a)" "ac_scope a = Some sc"
  shows "(m, p) \<in> set scoped_endpoints \<and> (secrets_only (Some sc) \<longleftrightarrow> (m, p) = (''PUT'', ''/v1/secrets''))"
proof -
  have g: "lets_scoped g" "secrets_only (Some sc) \<longleftrightarrow> g = AuthSecretSync"
    using pass_gate_scope[OF assms(2,3)] by blast+
  have in_all: "(m, p, g) \<in> set (routes all_on)" using assms(1) routes_sub by blast
  then have s: "(m, p) \<in> set scoped_endpoints" "g = AuthSecretSync \<Longrightarrow> (m, p) = (''PUT'', ''/v1/secrets'')"
    using routes_scoped g(1) by (auto simp: list_all_iff)
  have "(''PUT'', ''/v1/secrets'', AuthSecretSync) \<in> set (routes all_on)" by code_simp
  then have "(m, p) = (''PUT'', ''/v1/secrets'') \<Longrightarrow> g = AuthSecretSync"
    using route_gate_unique[of m p g all_on AuthSecretSync] in_all by simp
  then show ?thesis using g(2) s by blast
qed

text \<open>C13: A token limited to a scope stays inside it at every route. A request that presents it (and no browser's session) gets past
  the gate of a route only where no one needs a token (health, pages, sign-in), or with the token's own role and scope at the
  endpoints for instances, jobs and image builds, \<open>whoami\<close> and the MCP server, and for a secrets token at \<open>PUT /v1/secrets\<close>
  alone; a caller of the MCP tools with a scope is held to the same endpoints.\<close>
theorem scoped_token_confined:
  assumes "(m, p, g) \<in> set (routes opts)"
  shows "(rq_cookie r session_cookie_name = None \<and> verify_token (ow_hash cr) (presented g r) (da_tokens d) = (ts, Some t) \<and> scoped t
       \<and> pass_gate cr now wr g None r d = (d', Inr a) \<longrightarrow>
         (m, p) \<in> set open_endpoints
       \<or> a = \<lparr>ac_name = to_name t, ac_role = to_role t, ac_scope = to_scope t\<rparr>
         \<and> (m, p) \<in> set scoped_endpoints \<and> (secrets_only (to_scope t) \<longleftrightarrow> (m, p) = (''PUT'', ''/v1/secrets'')))
     \<and> (ac_scope c = Some sc \<and> pass_gate cr now wr g (Some c) r d = (d', Inr c) \<longrightarrow>
         (m, p) \<in> set scoped_endpoints \<and> (secrets_only (Some sc) \<longleftrightarrow> (m, p) = (''PUT'', ''/v1/secrets'')))"
proof (intro conjI impI, elim conjE)
  assume *: "rq_cookie r session_cookie_name = None" "verify_token (ow_hash cr) (presented g r) (da_tokens d) = (ts, Some t)" "scoped t"
    "pass_gate cr now wr g None r d = (d', Inr a)"
  have "(m, p, g) \<in> set (routes all_on)" using assms routes_sub by blast
  then have "g = Public \<Longrightarrow> (m, p) \<in> set open_endpoints" using routes_open by (auto simp: list_all_iff)
  moreover obtain s where s: "to_scope t = Some s" using *(3) by (auto simp: scoped_def split: option.splits)
  ultimately show "(m, p) \<in> set open_endpoints \<or> a = \<lparr>ac_name = to_name t, ac_role = to_role t, ac_scope = to_scope t\<rparr>
         \<and> (m, p) \<in> set scoped_endpoints \<and> (secrets_only (to_scope t) \<longleftrightarrow> (m, p) = (''PUT'', ''/v1/secrets''))"
    using token_acts[OF *(4,1,2,3)] scoped_stays[OF assms *(4), of s] by auto
qed (use scoped_stays[OF assms] in blast)+

text \<open>C24: The MCP endpoint adds no power and hides none: a tool is listed to a caller exactly when the daemon
  has the endpoint the tool calls and that endpoint's own gate lets this caller through, whatever the
  daemon's options, the caller's role and the caller's scope.\<close>
theorem mcp_tools_match_routes:
  "list_all (\<lambda>t. mcp_allows opts t a \<longleftrightarrow>
     (\<exists>g. (mt_method t, mt_path t, g) \<in> set (routes opts) \<and> pass_gate cr now wr g (Some a) r d = (d, Inr a))) mcp_tools"
  unfolding list_all_iff
proof
  fix t assume t: "t \<in> set mcp_tools"
  have en: "mt_enabled t opts \<longleftrightarrow> (mt_method t, mt_path t, tool_gate t) \<in> set (routes opts)"
    using tool_routes[of opts] t by (auto simp: list_all_iff)
  have on: "(mt_method t, mt_path t, tool_gate t) \<in> set (routes all_on)"
    using tool_routes_all_on t by (auto simp: list_all_iff)
  have only: "g = tool_gate t" if "(mt_method t, mt_path t, g) \<in> set (routes opts)" for g
    using route_gate_unique[OF subsetD[OF routes_sub that] on] .
  have "pass_gate cr now wr (tool_gate t) (Some a) r d = (d, Inr a) \<longleftrightarrow>
      allows (ac_role a) (mt_needed t) \<and> (ac_scope a = None \<or> mt_scoped t) \<and> \<not> secrets_only (ac_scope a)"
    by (auto simp: pass_gate_def tool_gate_def caller_passes)
  then have "mcp_allows opts t a \<longleftrightarrow> (mt_method t, mt_path t, tool_gate t) \<in> set (routes opts)
      \<and> pass_gate cr now wr (tool_gate t) (Some a) r d = (d, Inr a)"
    unfolding mcp_allows_def en by blast
  also have "\<dots> \<longleftrightarrow> (\<exists>g. (mt_method t, mt_path t, g) \<in> set (routes opts) \<and> pass_gate cr now wr g (Some a) r d = (d, Inr a))"
    by (metis only)
  finally show "mcp_allows opts t a \<longleftrightarrow>
     (\<exists>g. (mt_method t, mt_path t, g) \<in> set (routes opts) \<and> pass_gate cr now wr g (Some a) r d = (d, Inr a))" .
qed

definition same_name :: "string \<Rightarrow> string \<Rightarrow> bool" where
  "same_name a b \<longleftrightarrow> to_lower (trim_space a) = to_lower (trim_space b)"

lemma set_disabled_found:
  assumes "set_disabled wr name True us = (us', None)" "same_name n name"
  shows "\<exists>i. reload_users False us' = (us', None) \<and> find_user (ut_users us') n = Some i \<and> us_disabled (ut_users us' ! i)"
proof -
  obtain us1 er where r: "reload_users False us = (us1, er)" by (cases "reload_users False us")
  obtain i where i: "find_user (ut_users us1) name = Some i" and er: "er = None"
    using assms(1) r by (auto simp: set_disabled_def change_user_def split: option.splits)
  define l where "l = (ut_users us1)[i := (ut_users us1 ! i)\<lparr>us_disabled := True\<rparr>]"
  have "save_users wr (us1\<lparr>ut_users := l\<rparr>) = (us', None)"
    using assms(1) r er i by (simp add: set_disabled_def change_user_def l_def)
  then have us': "ut_users us' = l" "reload_users False us' = (us', None)"
    by (auto simp: save_users_def reload_users_def split: if_splits)
  have il: "i < length (ut_users us1)" using find_user_Some[OF i] by simp
  have "index_of p (xs[k := y]) = Some k" if "index_of p xs = Some k" "p y" for p and xs :: "user list" and k y
    using that by (induction xs arbitrary: k) (auto split: if_splits nat.splits)
  then have "find_user l name = Some i" using i find_user_Some[OF i] by (simp add: find_user_def l_def)
  moreover have "find_user l n = find_user l name" using assms(2) by (simp add: find_user_def same_name_def)
  ultimately show ?thesis using us' il by (simp add: l_def)
qed

lemma live_user_disabled:
  assumes "set_disabled wr name True us = (us', None)" "same_name n name"
  shows "live_user n us' = (us', None)"
  using set_disabled_found[OF assms] by (auto simp: live_user_def get_user_def)

text \<open>C17: Disabling an account shuts its person out at once, cookie and agents included: after
  \<open>SetDisabled\<close> succeeds, a request that carries that person's still valid session cookie is answered 401 at
  every guarded route, and an unexpired access token of any grant of theirs no longer opens the MCP endpoint.\<close>
theorem disabled_user_shut_out:
  assumes "set_disabled wr name True us = (us', None)" "da_users d = Some us'"
    and "da_sessions d = Some se" "session_from_request (cr_hmac cr) (cr_codec cr) se now r = Some (u, ro)" "same_name u name" "bearer r = []"
    and "da_oauth d = Some oa" "verify_access (ow_mac cr) (ow_dec cr) now wr2 (bearer r2) oa = (oa1, Some gr)" "same_name (og_username gr) name"
  shows "snd (auth_with cr now needed scp sec None r d) = Inl (Refusal 401 ''unauthorized'')
    \<and> (\<exists>why. snd (mcp_gate cr now wr2 r2 d) = Inl why)"
proof
  have l: "live_user u us' = (us', None)" by (rule live_user_disabled[OF assms(1,5)])
  have "request_session cr now r d = (d\<lparr>da_users := Some us'\<rparr>, None)"
    using assms(2,3,4) l by (simp add: request_session_def current_session_def)
  moreover have "verify_token H [] ts = (ts, None)" for H ts
    by (simp add: verify_token_def valid_secret_format_def secret_prefix_def)
  ultimately show "snd (auth_with cr now needed scp sec None r d) = Inl (Refusal 401 ''unauthorized'')"
    using assms(6) by (simp add: auth_with_def)
next
  have l: "live_user (og_username gr) us' = (us', None)"
    using live_user_disabled[OF assms(1)] assms(9) by blast
  have "prefix oauth_access_prefix (bearer r2)" using assms(8) by (auto simp: verify_access_def split: if_splits)
  moreover have "oauth_user gr (d\<lparr>da_oauth := Some oa1\<rparr>) = (d\<lparr>da_oauth := Some oa1, da_users := Some us'\<rparr>, None)"
    using assms(2) l by (simp add: oauth_user_def)
  ultimately show "\<exists>why. snd (mcp_gate cr now wr2 r2 d) = Inl why"
    using assms(7,8) by (simp add: mcp_gate_def Let_def)
qed

definition demo_crypto :: crypto where
  "demo_crypto = \<lparr>ow_parse = (\<lambda>_. None), ow_hash = rev, ow_pkce = rev, ow_mac = rev, ow_enc = (\<lambda>(g, e). g), ow_dec = (\<lambda>b. Some (b, 9)),
     cr_hmac = (\<lambda>k b. k), cr_codec = demo_codec, cr_gen = (\<lambda>salt pw. CHR ''$'' # pw), cr_cmp = (\<lambda>h pw. h = CHR ''$'' # pw), cr_dummy = ''$''\<rparr>"

definition demo_secret :: string where "demo_secret = ''nops_0123456789abcdef0123456789abcdef''"

definition demo_scope :: scope where
  "demo_scope = \<lparr>sc_names = [''tenant-*''], sc_images = [''platform*''], sc_domains = [], sc_labels = [], sc_secrets = []\<rparr>"

definition demo_request :: "string \<Rightarrow> string option \<Rightarrow> request" where
  "demo_request auth ck = \<lparr>rq_method = ''GET'', rq_path = ''/v1/jobs'', rq_host = ''h'', rq_tls = True,
     rq_header = (\<lambda>h. if h = ''Authorization'' then auth else []), rq_cookie = (\<lambda>c. if c = session_cookie_name then ck else None),
     rq_query = (\<lambda>_. []), rq_form = None, rq_first = []\<rparr>"

definition demo_daemon :: daemon where
  "demo_daemon = \<lparr>da_sessions = None, da_users = None,
     da_tokens = \<lparr>ts_tokens = [], ts_loaded = None,
       ts_bootstrap = Some \<lparr>to_id = ''1'', to_name = ''ci'', to_role = RoleDeployer, to_scope = Some demo_scope, to_hash = rev demo_secret, to_created = 0\<rparr>,
       ts_file = None\<rparr>,
     da_oauth = None, da_throttle = Map.empty\<rparr>"

theorem scoped_token_confined_witness:
  "snd (pass_gate demo_crypto 0 True (AuthScoped RoleViewer) None (demo_request (''Bearer '' @ demo_secret) None) demo_daemon)
     = Inr \<lparr>ac_name = ''ci'', ac_role = RoleDeployer, ac_scope = Some demo_scope\<rparr>
   \<and> (''GET'', ''/v1/jobs'') \<in> set scoped_endpoints
   \<and> (\<forall>a. snd (pass_gate demo_crypto 0 True Events None (demo_request (''Bearer '' @ demo_secret) None) demo_daemon) \<noteq> Inr a)"
proof -
  let ?r = "demo_request (''Bearer '' @ demo_secret) None"
  let ?t = "the (ts_bootstrap (da_tokens demo_daemon))"
  have b: "bearer ?r = demo_secret \<and> demo_secret \<noteq> []" by code_simp
  have v: "verify_token rev demo_secret (da_tokens demo_daemon) = (da_tokens demo_daemon, Some ?t)" by code_simp
  have sc: "scope_any demo_scope" "\<not> secrets_only (Some demo_scope)" by code_simp+
  have t: "?t = \<lparr>to_id = ''1'', to_name = ''ci'', to_role = RoleDeployer, to_scope = Some demo_scope, to_hash = rev demo_secret, to_created = 0\<rparr>"
    by (simp add: demo_daemon_def)
  have p: "pass_gate demo_crypto 0 True (AuthScoped RoleViewer) None ?r demo_daemon
      = (demo_daemon, Inr \<lparr>ac_name = ''ci'', ac_role = RoleDeployer, ac_scope = Some demo_scope\<rparr>)"
    using b v sc t by (simp add: pass_gate_def auth_with_def request_session_def demo_crypto_def demo_daemon_def allows_def
        scoped_def secrets_only_refused_def)
  have no: "rq_cookie ?r session_cookie_name = None" by (simp add: demo_request_def)
  have ver: "verify_token (ow_hash demo_crypto) (presented g ?r) (da_tokens demo_daemon) = (da_tokens demo_daemon, Some ?t)" for g
    using v b by (simp add: presented_def demo_crypto_def)
  have scd: "scoped ?t" using sc(1) t by (simp add: scoped_def)
  have jobs: "(''GET'', ''/v1/jobs'', AuthScoped RoleViewer) \<in> set (routes all_on) \<and> (''GET'', ''/v1/events'', Events) \<in> set (routes all_on)
     \<and> (''GET'', ''/v1/jobs'') \<notin> set open_endpoints \<and> (''GET'', ''/v1/events'') \<notin> set open_endpoints \<and> (''GET'', ''/v1/events'') \<notin> set scoped_endpoints" by code_simp
  have "(''GET'', ''/v1/jobs'') \<in> set scoped_endpoints"
    using scoped_token_confined[OF jobs[THEN conjunct1], THEN conjunct1, rule_format, OF conjI[OF no conjI[OF ver conjI[OF scd p]]]] jobs by blast
  moreover have "snd (pass_gate demo_crypto 0 True Events None ?r demo_daemon) \<noteq> Inr a" for a
  proof
    assume "snd (pass_gate demo_crypto 0 True Events None ?r demo_daemon) = Inr a"
    then obtain d' where "pass_gate demo_crypto 0 True Events None ?r demo_daemon = (d', Inr a)" by (metis prod.collapse)
    from scoped_token_confined[OF jobs[THEN conjunct2, THEN conjunct1], THEN conjunct1, rule_format, OF conjI[OF no conjI[OF ver conjI[OF scd this]]]] jobs
    show False by blast
  qed
  ultimately show ?thesis using p by simp
qed

theorem disabled_user_shut_out_witness:
  "let se = \<lparr>se_key = ''0123456789abcdef'', se_ttl = hour, se_secure = True\<rparr>;
       us' = fst (set_disabled (True, 2) ''Ann'' True demo_users);
       d = demo_daemon\<lparr>da_sessions := Some se, da_users := Some us', da_oauth := Some demo_oauth\<rparr>;
       ck = issue_session (cr_hmac demo_crypto) demo_codec se 0 ''ann'' RoleAdmin
   in snd (auth_with demo_crypto 1 RoleViewer False False None (demo_request [] (Some ck)) d) = Inl (Refusal 401 ''unauthorized'')
     \<and> (\<exists>why. snd (mcp_gate demo_crypto 1 True (demo_request ''Bearer nopa_g_1.1_g'' None) d) = Inl why)"
proof -
  define se where "se = \<lparr>se_key = ''0123456789abcdef'', se_ttl = hour, se_secure = True\<rparr>"
  define us' where "us' = fst (set_disabled (True, 2) ''Ann'' True demo_users)"
  define d where "d = demo_daemon\<lparr>da_sessions := Some se, da_users := Some us', da_oauth := Some demo_oauth\<rparr>"
  define ck where "ck = issue_session (cr_hmac demo_crypto) demo_codec se 0 ''ann'' RoleAdmin"
  have "find_user [demo_user] ''Ann'' = Some 0" by code_simp
  then have 1: "set_disabled (True, 2) ''Ann'' True demo_users = (us', None)"
    by (simp add: us'_def set_disabled_def change_user_def demo_users_def reload_users_def save_users_def)
  have 2: "da_users d = Some us'" "da_sessions d = Some se" "da_oauth d = Some demo_oauth" by (simp_all add: d_def)
  have "valid_username ''ann''" "valid_role RoleAdmin" by code_simp+
  from verify_issued[OF demo_codec_ok this, of 0 se "cr_hmac demo_crypto" 1]
  have 3: "session_from_request (cr_hmac demo_crypto) (cr_codec demo_crypto) se 1 (demo_request [] (Some ck)) = Some (''ann'', RoleAdmin)"
    by (simp add: session_from_request_def demo_request_def ck_def demo_crypto_def se_def unix_time_def)
  have 4: "same_name ''ann'' ''Ann''" "same_name (og_username (oa_grants demo_oauth ! 0)) ''Ann''" by code_simp+
  have 5: "bearer (demo_request [] (Some ck)) = []" by (simp add: bearer_def demo_request_def)
  have 6: "bearer (demo_request ''Bearer nopa_g_1.1_g'' None) = ''nopa_g_1.1_g''" by code_simp
  have 7: "verify_access rev (\<lambda>b. Some (b, 9)) 1 True ''nopa_g_1.1_g'' demo_oauth = (demo_oauth, Some (oa_grants demo_oauth ! 0))"
    by (simp add: verify_access_def oauth_access_prefix_def demo_oauth_def unix_time_def Let_def)
  have 8: "verify_access (ow_mac demo_crypto) (ow_dec demo_crypto) 1 True (bearer (demo_request ''Bearer nopa_g_1.1_g'' None)) demo_oauth
      = (demo_oauth, Some (oa_grants demo_oauth ! 0))" using 7 by (simp add: 6 demo_crypto_def)
  show ?thesis
    using disabled_user_shut_out[OF 1 2(1,2) 3 4(1) 5 2(3) 8 4(2), of RoleViewer False False]
    by (simp only: Let_def se_def us'_def d_def ck_def)
qed

end
