(* ===== verification/Sign_In.thy ===== *)
theory Sign_In
  imports Access
begin

text \<open>
  Signing in: the handlers of \<open>pkg/server/auth.go\<close> and the OpenID Connect client of \<open>oidc.go\<close>, over the
  sessions, the users and the throttle of a \<open>daemon\<close>.

  \<^item> A handler takes the daemon and the request and answers a \<open>web_answer\<close>: the status and what of the body
    or headers the caller can tell apart. \<open>NoAnswer\<close>: the handler panics or never returns.
  \<^item> What a request draws from outside is in a \<open>web_env\<close>: the clock, random strings, the outcome of writes.
    What the identity provider answers is in an \<open>oidc_env\<close>, an error as its message.
  \<^item> \<open>url.Values.Encode\<close> and \<open>url.QueryEscape\<close> are arguments. The audit log is not modelled.
\<close>

subsection \<open>Answers\<close>

record web = crypto +
  wb_public_url :: string
  wb_encode :: "(string \<times> string) list \<Rightarrow> string"
  wb_escape :: "string \<Rightarrow> string"

record web_env =
  we_now :: time
  we_oauth_wr :: bool
  we_user_wr :: write_result
  we_touch_wr :: write_result
  we_throttle_size :: nat
  we_rnd :: "string option"
  we_rnd2 :: "string option"

datatype web_answer =
    Err nat string
  | Done
  | SessionInfo bool "string option" "(string \<times> role) option"
  | TooMany int
  | SignedIn user cookie
  | SignedOut "cookie option"
  | GoTo nat string "cookie list"
  | PageError nat string
  | SignInPage nat string string bool "(string \<times> string) option"
  | ConsentPage string string role string "(string \<times> string) list" string
  | OAuthErr nat string
  | Registered oauth_client
  | TokensFor oauth_grant string string
  | GrantList "oauth_grant list"
  | TokenList "token list"
  | TokenMade string token
  | UserList "user list"
  | UserMade user
  | UserUpserted user bool
  | UserChanged user
  | NoAnswer

subsection \<open>Signing in with a password\<close>

definition session_info :: "web \<Rightarrow> time \<Rightarrow> bool \<Rightarrow> string \<Rightarrow> request \<Rightarrow> daemon \<Rightarrow> daemon \<times> web_answer" where
  "session_info w now oidc label r d =
     (case request_session (crypto.truncate w) now r d of
        (d1, who) \<Rightarrow> (d1, SessionInfo (da_users d \<noteq> None) (if oidc then Some label else None) who))"

text \<open>What \<open>handleLogin\<close> and \<open>handleOAuthLogin\<close> share: the throttle, the password, the throttle again.\<close>

datatype login = Throttled time | WrongLogin | RightLogin user

definition check_login :: "web \<Rightarrow> web_env \<Rightarrow> string \<Rightarrow> string \<Rightarrow> user_store \<Rightarrow> daemon \<Rightarrow> daemon \<times> login" where
  "check_login w e username password us d =
     (let wait = throttle_wait (we_now e) (da_throttle d) username in
      if wait > 0 then (d, Throttled wait)
      else case authenticate (cr_cmp w) (cr_dummy w) username password us of
        (us1, None) \<Rightarrow>
          (d\<lparr>da_users := Some us1, da_throttle := throttle_fail (we_now e) (we_throttle_size e) username (da_throttle d)\<rparr>, WrongLogin)
      | (us1, Some u) \<Rightarrow>
          (d\<lparr>da_users := Some us1, da_throttle := throttle_succeed username (da_throttle d)\<rparr>, RightLogin u))"

text \<open>And what every sign-in ends with: the cookie, and the time of the last sign-in, whose failed write
  is ignored. None: there are no sessions.\<close>

definition start_session :: "web \<Rightarrow> web_env \<Rightarrow> request \<Rightarrow> user \<Rightarrow> daemon \<Rightarrow> (daemon \<times> cookie) option" where
  "start_session w e r u d =
     (case (da_sessions d, da_users d) of
        (Some se, Some us) \<Rightarrow>
          Some (d\<lparr>da_users := Some (fst (touch_login (we_now e) (we_touch_wr e) (us_username u) us))\<rparr>,
                session_cookie se r (issue_session (cr_hmac w) (cr_codec w) se (we_now e) (us_username u) (us_role u)))
      | _ \<Rightarrow> None)"

text \<open>\<open>body\<close> None: \<open>readJSON\<close> refused it.\<close>

definition handle_login :: "web \<Rightarrow> web_env \<Rightarrow> (string \<times> string) option \<Rightarrow> request \<Rightarrow> daemon \<Rightarrow> daemon \<times> web_answer" where
  "handle_login w e body r d =
     (case da_users d of None \<Rightarrow> (d, Err 400 ''local_signin_off'')
      | Some us \<Rightarrow>
          if \<not> same_origin (ow_parse w) r then (d, Err 403 ''cross_origin'')
          else case body of None \<Rightarrow> (d, Err 400 ''bad_request'')
          | Some (username, password) \<Rightarrow>
              (case check_login w e username password us d of
                 (d1, Throttled wait) \<Rightarrow> (d1, TooMany (wait div second + 1))
               | (d1, WrongLogin) \<Rightarrow> (d1, Err 401 ''bad_login'')
               | (d1, RightLogin u) \<Rightarrow>
                   (case start_session w e r u d1 of None \<Rightarrow> (d1, NoAnswer) | Some (d2, ck) \<Rightarrow> (d2, SignedIn u ck))))"

definition handle_logout :: "request \<Rightarrow> daemon \<Rightarrow> web_answer" where
  "handle_logout r d = (case da_sessions d of None \<Rightarrow> (if rq_cookie r session_cookie_name = None then SignedOut None else NoAnswer)
     | Some se \<Rightarrow> SignedOut (Some (clear_cookie se r)))"

subsection \<open>OpenID Connect\<close>

record oidc =
  oi_issuer :: string
  oi_client_id :: string
  oi_client_secret :: string
  oi_redirect_url :: string
  oi_allowed_domain :: string
  oi_role :: "role option"
  oi_scopes :: "string list"
  oi_label :: string
  oi_secret_from :: bool

text \<open>\<open>NewOIDC\<close>; \<open>oi_role\<close> None is \<open>OIDCRoleNone\<close>.\<close>

definition new_oidc :: "oidc \<Rightarrow> oidc option" where
  "new_oidc s =
     (if trim_space (oi_issuer s) = [] \<or> oi_client_id s = [] \<or> (oi_client_secret s = [] \<and> \<not> oi_secret_from s) \<or> oi_redirect_url s = []
      then None
      else let s1 = (case oi_role s of Some r \<Rightarrow> if valid_role r then s else s\<lparr>oi_role := Some RoleViewer\<rparr> | None \<Rightarrow> s);
               s2 = (if length (oi_scopes s1) = 0 then s1\<lparr>oi_scopes := [''openid'', ''email'', ''profile'']\<rparr> else s1)
           in Some (if oi_label s2 = [] then s2\<lparr>oi_label := ''single sign-on''\<rparr> else s2))"

record provider_doc =
  pd_issuer :: string
  pd_authorization :: string
  pd_token :: string
  pd_userinfo :: string

text \<open>\<open>Provider\<close>: the cached discovery document for an hour, else the one fetched now.\<close>

definition oidc_provider :: "time \<Rightarrow> (string + provider_doc) \<Rightarrow> (provider_doc \<times> time) option
    \<Rightarrow> (provider_doc \<times> time) option \<times> (string + provider_doc)" where
  "oidc_provider now fetched cache =
     (case cache of
        Some (p, at) \<Rightarrow> if now - at < hour then (cache, Inr p) else
          (case fetched of Inl err \<Rightarrow> (cache, Inl err)
           | Inr q \<Rightarrow> if pd_authorization q = [] \<or> pd_token q = []
               then (cache, Inl ''oidc discovery did not name an authorization and token endpoint'') else (Some (q, now), Inr q))
      | None \<Rightarrow>
          (case fetched of Inl err \<Rightarrow> (cache, Inl err)
           | Inr q \<Rightarrow> if pd_authorization q = [] \<or> pd_token q = []
               then (cache, Inl ''oidc discovery did not name an authorization and token endpoint'') else (Some (q, now), Inr q)))"

definition authorize_url :: "web \<Rightarrow> oidc \<Rightarrow> (string + provider_doc) \<Rightarrow> string \<Rightarrow> string \<Rightarrow> string + string" where
  "authorize_url w o' prov state challenge =
     (case prov of Inl err \<Rightarrow> Inl err
      | Inr p \<Rightarrow> Inr (pd_authorization p @ ''?'' @ wb_encode w
          ([(''client_id'', oi_client_id o')]
           @ (if challenge \<noteq> [] then [(''code_challenge'', challenge), (''code_challenge_method'', ''S256'')] else [])
           @ [(''redirect_uri'', oi_redirect_url o'), (''response_type'', ''code''), (''scope'', join_with '' '' (oi_scopes o')), (''state'', state)])))"

text \<open>\<open>secret_from\<close> is what \<open>ClientSecretFrom\<close> answers now; \<open>reply\<close> the access token the token endpoint
  sends for this code, secret and verifier (empty when it sends none).\<close>

definition oidc_exchange :: "oidc \<Rightarrow> (string + provider_doc) \<Rightarrow> string \<Rightarrow> (string \<Rightarrow> string \<Rightarrow> string \<Rightarrow> string + string)
    \<Rightarrow> string \<Rightarrow> string \<Rightarrow> string + string" where
  "oidc_exchange o' prov secret_from reply code verifier =
     (case prov of Inl err \<Rightarrow> Inl err
      | Inr p \<Rightarrow>
          (let secret = (if oi_client_secret o' = [] \<and> oi_secret_from o' then secret_from else oi_client_secret o') in
           if secret = [] then Inl ''the OIDC client secret is not set on this daemon (sync NATIVE_OPS_OIDC_CLIENT_SECRET)''
           else case reply code secret verifier of
             Inl err \<Rightarrow> Inl err
           | Inr t \<Rightarrow> if t = [] then Inl ''oidc token exchange returned no access token'' else Inr t))"

datatype claim = ClaimBool bool | ClaimString string | ClaimOther

fun truthy :: "claim \<Rightarrow> bool" where
  "truthy (ClaimBool b) = b"
| "truthy (ClaimString s) = (s = ''true'')"
| "truthy ClaimOther = False"

record userinfo =
  ui_email :: string
  ui_email_verified :: claim
  ui_name :: string
  ui_hd :: string

definition is_google :: "string \<Rightarrow> bool" where
  "is_google issuer = (let i = trim_right (\<lambda>c. c = CHR ''/'') issuer in
     i = ''https://accounts.google.com'' \<or> i = ''accounts.google.com'')"

definition in_allowed_domain :: "string \<Rightarrow> string \<Rightarrow> string \<Rightarrow> string \<Rightarrow> string option" where
  "in_allowed_domain email hd0 issuer allowed =
     (let domain = to_lower allowed in
      if domain = [] then None
      else if \<not> suffix (CHR ''@'' # domain) email then Some (''email '' @ email @ '' is not at '' @ allowed)
      else let h = to_lower hd0 in
        if (h \<noteq> [] \<or> is_google issuer) \<and> h \<noteq> domain
        then Some (email @ '' is not an account of the '' @ allowed @ '' organization'') else None)"

definition oidc_identity :: "oidc \<Rightarrow> (string + provider_doc) \<Rightarrow> (string \<Rightarrow> string + userinfo) \<Rightarrow> string \<Rightarrow> string + string \<times> string" where
  "oidc_identity o' prov reply access =
     (case prov of Inl err \<Rightarrow> Inl err
      | Inr p \<Rightarrow>
          if pd_userinfo p = [] then Inl ''the provider publishes no userinfo endpoint''
          else case reply access of
            Inl err \<Rightarrow> Inl err
          | Inr u \<Rightarrow>
              (let email = to_lower (trim_space (ui_email u)) in
               if email = [] then Inl ''the provider returned no email''
               else if \<not> truthy (ui_email_verified u) then Inl ''the provider says the email is not verified''
               else case in_allowed_domain email (ui_hd u) (pd_issuer p) (oi_allowed_domain o') of
                 Some err \<Rightarrow> Inl err
               | None \<Rightarrow> Inr (email, ui_name u)))"

subsection \<open>Signing in over OpenID Connect\<close>

definition oidc_state_cookie :: string where "oidc_state_cookie = ''nops_oidc_state''"
definition oidc_verifier_cookie :: string where "oidc_verifier_cookie = ''nops_oidc_pkce''"
definition oidc_next_cookie :: string where "oidc_next_cookie = ''nops_oidc_next''"

definition oidc_cookie :: "request \<Rightarrow> int \<Rightarrow> string \<Rightarrow> string \<Rightarrow> cookie" where
  "oidc_cookie r age name v =
     \<lparr>ck_name = name, ck_value = v, ck_path = ''/auth/oidc'', ck_http_only = True, ck_secure = is_https r,
      ck_same_site_lax = True, ck_max_age = age\<rparr>"

definition clear_state :: "request \<Rightarrow> cookie list" where
  "clear_state r = map (\<lambda>n. oidc_cookie r (- 1) n []) [oidc_state_cookie, oidc_verifier_cookie, oidc_next_cookie]"

definition handle_oidc_start :: "web \<Rightarrow> web_env \<Rightarrow> oidc \<Rightarrow> (string + provider_doc) \<Rightarrow> request \<Rightarrow> web_answer \<times> cookie list" where
  "handle_oidc_start w e o' prov r =
     (case (we_rnd e, we_rnd2 e) of
        (Some state, Some verifier) \<Rightarrow>
          (let next = rq_query r ''next'';
               cks = map (\<lambda>(n, v). oidc_cookie r 600 n v)
                 ([(oidc_state_cookie, state), (oidc_verifier_cookie, verifier)]
                  @ (if next \<noteq> [] \<and> safe_next (ow_parse w) next then [(oidc_next_cookie, next)] else []))
           in case authorize_url w o' prov state (ow_pkce w verifier) of
                Inl _ \<Rightarrow> (Err 502 ''oidc'', cks)
              | Inr target \<Rightarrow> (GoTo 302 target cks, cks))
      | _ \<Rightarrow> (Err 500 ''internal'', []))"

record oidc_env =
  oe_provider :: "string + provider_doc"
  oe_secret :: string
  oe_token :: "string \<Rightarrow> string \<Rightarrow> string \<Rightarrow> string + string"
  oe_userinfo :: "string \<Rightarrow> string + userinfo"

text \<open>\<open>fail\<close>: back to the sign-in page with a message, the flow's cookies cleared.\<close>

definition oidc_fail :: "web \<Rightarrow> request \<Rightarrow> string \<Rightarrow> web_answer" where
  "oidc_fail w r msg = GoTo 302 (''/?error='' @ wb_escape w msg) (clear_state r)"

definition handle_oidc_callback :: "web \<Rightarrow> web_env \<Rightarrow> oidc_env \<Rightarrow> oidc \<Rightarrow> request \<Rightarrow> daemon \<Rightarrow> daemon \<times> web_answer" where
  "handle_oidc_callback w e oe o' r d =
     (case da_users d of None \<Rightarrow> (d, oidc_fail w r ''no user store is configured'')
      | Some us \<Rightarrow>
          if rq_cookie r oidc_state_cookie \<noteq> Some (rq_query r ''state'') \<or> rq_query r ''state'' = []
          then (d, oidc_fail w r ''invalid state, try again'')
          else if rq_query r ''code'' = [] then (d, oidc_fail w r ''sign-in was cancelled'')
          else let verifier = (case rq_cookie r oidc_verifier_cookie of Some v \<Rightarrow> v | None \<Rightarrow> []) in
            case oidc_exchange o' (oe_provider oe) (oe_secret oe) (oe_token oe) (rq_query r ''code'') verifier of
              Inl _ \<Rightarrow> (d, oidc_fail w r ''could not complete the sign-in'')
            | Inr access \<Rightarrow>
               (case oidc_identity o' (oe_provider oe) (oe_userinfo oe) access of
                  Inl msg \<Rightarrow> (d, oidc_fail w r msg)
                | Inr (email, name) \<Rightarrow>
                   (case find_or_create_oidc (we_now e) (we_user_wr e) email name (oi_role o') us of
                      None \<Rightarrow> (d, NoAnswer)
                    | Some (us1, Inl NoAccount) \<Rightarrow>
                        (d\<lparr>da_users := Some us1\<rparr>, oidc_fail w r ''you have no account here yet: ask an admin to grant you access'')
                    | Some (us1, Inl _) \<Rightarrow> (d\<lparr>da_users := Some us1\<rparr>, oidc_fail w r ''could not record the user'')
                    | Some (us1, Inr u) \<Rightarrow>
                        if us_disabled u then (d\<lparr>da_users := Some us1\<rparr>, oidc_fail w r ''this account is disabled'')
                        else (case start_session w e r u (d\<lparr>da_users := Some us1\<rparr>) of
                            None \<Rightarrow> (d\<lparr>da_users := Some us1\<rparr>, NoAnswer)
                          | Some (d1, ck) \<Rightarrow>
                             (let back = (case rq_cookie r oidc_next_cookie of
                                    Some n \<Rightarrow> if safe_next (ow_parse w) n then n else ''/'' | None \<Rightarrow> ''/'')
                              in (d1, GoTo 302 back (ck # clear_state r)))))))"

subsection \<open>Facts\<close>

lemma right_login:
  assumes "check_login w e username password us d = (d1, RightLogin u)"
  shows "throttle_wait (we_now e) (da_throttle d) username \<le> 0"
    and "\<exists>us1. authenticate (cr_cmp w) (cr_dummy w) username password us = (us1, Some u) \<and> da_users d1 = Some us1"
    and "da_oauth d1 = da_oauth d" "da_sessions d1 = da_sessions d" "da_tokens d1 = da_tokens d"
  using assms by (auto simp: check_login_def Let_def split: if_splits prod.splits option.splits)

lemma check_login_frame:
  assumes "check_login w e username password us d = (d1, l)"
  shows "da_oauth d1 = da_oauth d" "da_sessions d1 = da_sessions d" "da_tokens d1 = da_tokens d"
  using assms by (auto simp: check_login_def Let_def split: if_splits prod.splits option.splits)

lemma start_session_frame:
  assumes "start_session w e r u d = Some (d1, ck)"
  shows "da_oauth d1 = da_oauth d" "da_sessions d1 = da_sessions d" "da_tokens d1 = da_tokens d" "da_throttle d1 = da_throttle d"
  using assms by (auto simp: start_session_def split: option.splits)

text \<open>The cookie a sign-in sets is the person's session until it runs out.\<close>

lemma session_cookie_works:
  assumes "start_session w e r u d = Some (d1, ck)" "da_sessions d = Some se" "codec_ok (cr_codec w)"
    and "valid_username (us_username u)" "valid_role (us_role u)" "0 \<le> we_now e + se_ttl se"
    and "rq_cookie r2 session_cookie_name = Some (ck_value ck)"
  shows "session_from_request (cr_hmac w) (cr_codec w) se later r2
    = (if unix_time (we_now e + se_ttl se) \<le> unix_time later then None else Some (us_username u, us_role u))"
proof -
  have "ck_value ck = issue_session (cr_hmac w) (cr_codec w) se (we_now e) (us_username u) (us_role u)"
    using assms(1,2) by (auto simp: start_session_def session_cookie_def split: option.splits)
  then show ?thesis
    using assms(7) verify_issued[OF assms(3,4,5,6)] by (simp add: session_from_request_def)
qed

lemma oidc_identity_checked:
  assumes "oidc_identity o' prov reply access = Inr (email, name)"
  shows "\<exists>p u. prov = Inr p \<and> reply access = Inr u \<and> email = to_lower (trim_space (ui_email u)) \<and> email \<noteq> []
    \<and> truthy (ui_email_verified u)
    \<and> (oi_allowed_domain o' \<noteq> [] \<longrightarrow> suffix (CHR ''@'' # to_lower (oi_allowed_domain o')) email
        \<and> (is_google (pd_issuer p) \<longrightarrow> to_lower (ui_hd u) = to_lower (oi_allowed_domain o')))"
proof -
  obtain p where p: "prov = Inr p" using assms by (cases prov) (simp_all add: oidc_identity_def)
  obtain u where u: "reply access = Inr u" and ui: "pd_userinfo p \<noteq> []"
    using assms p by (cases "reply access") (auto simp: oidc_identity_def split: if_splits)
  define em where "em = to_lower (trim_space (ui_email u))"
  have d: "in_allowed_domain em (ui_hd u) (pd_issuer p) (oi_allowed_domain o') = None" "em = email" "em \<noteq> []"
      "truthy (ui_email_verified u)"
    using assms p u ui by (auto simp: oidc_identity_def Let_def em_def split: if_splits option.splits)
  have "to_lower (oi_allowed_domain o') \<noteq> []" if "oi_allowed_domain o' \<noteq> []"
    using that by (simp add: to_lower_def)
  then show ?thesis
    using p u d em_def by (auto simp: in_allowed_domain_def Let_def split: if_splits)
qed

end
