(* ===== verification/OAuth_Handlers.thy ===== *)
theory OAuth_Handlers
  imports Sign_In
begin

text \<open>
  The OAuth endpoints (\<open>pkg/server/oauth_handlers.go\<close>): registration, the authorize page and its consent,
  the token and revocation endpoints, over the store of \<open>OAuth\<close>, the sessions and the users.

  \<^item> The routes exist only with an OAuth store; without one a handler would panic (\<open>NoAnswer\<close>).
  \<^item> \<open>rq_form\<close> is the posted form, None when it does not parse; \<open>url.Values\<close> are encoded in key order.
\<close>

subsection \<open>The authorization request\<close>

record authz =
  az_client :: string
  az_redirect :: string
  az_state :: string
  az_challenge :: string
  az_method :: string
  az_resource :: string
  az_response_type :: string

definition read_authz :: "(string \<Rightarrow> string) \<Rightarrow> authz" where
  "read_authz v =
     \<lparr>az_client = v ''client_id'', az_redirect = v ''redirect_uri'', az_state = v ''state'', az_challenge = v ''code_challenge'',
      az_method = v ''code_challenge_method'', az_resource = v ''resource'', az_response_type = v ''response_type''\<rparr>"

definition authz_query :: "authz \<Rightarrow> (string \<times> string) list" where
  "authz_query a =
     [(''client_id'', az_client a), (''code_challenge'', az_challenge a), (''code_challenge_method'', az_method a),
      (''redirect_uri'', az_redirect a)]
     @ (if az_resource a \<noteq> [] then [(''resource'', az_resource a)] else [])
     @ [(''response_type'', az_response_type a)]
     @ (if az_state a \<noteq> [] then [(''state'', az_state a)] else [])"

definition with_query :: "web \<Rightarrow> string \<Rightarrow> (string \<times> string) list \<Rightarrow> string" where
  "with_query w raw q = raw @ (if CHR ''?'' \<in> set raw then ''&'' else ''?'') @ wb_encode w q"

definition redirect_error :: "web \<Rightarrow> authz \<Rightarrow> string \<Rightarrow> string \<Rightarrow> web_answer" where
  "redirect_error w a kind desc =
     GoTo 302 (with_query w (az_redirect a)
       ([(''error'', kind), (''error_description'', desc)] @ (if az_state a \<noteq> [] then [(''state'', az_state a)] else []))) []"

definition check_authz :: "web \<Rightarrow> request \<Rightarrow> authz \<Rightarrow> oauth_store \<Rightarrow> web_answer + oauth_client" where
  "check_authz w r a oa =
     (let resource = mcp_resource (wb_public_url w) r in
      case find_client (az_client a) oa of
        None \<Rightarrow> Inl (PageError 400 ''Unknown client'')
      | Some c \<Rightarrow>
          if az_redirect a \<notin> set (oc_redirects c) then Inl (PageError 400 ''Wrong redirect'')
          else if az_response_type a \<noteq> ''code''
          then Inl (redirect_error w a ''unsupported_response_type'' ''only response_type=code is supported'')
          else if az_challenge a = [] \<or> az_method a \<noteq> ''S256''
          then Inl (redirect_error w a ''invalid_request'' ''PKCE is required: code_challenge with code_challenge_method=S256'')
          else if az_resource a \<noteq> [] \<and> trim_right (\<lambda>c. c = CHR ''/'') (az_resource a) \<noteq> resource
          then Inl (redirect_error w a ''invalid_target'' (''resource must be '' @ resource))
          else Inr c)"

subsection \<open>Consent\<close>

definition consent_ttl :: time where "consent_ttl = 10 * minute"

definition consent_token :: "web \<Rightarrow> string \<Rightarrow> authz \<Rightarrow> int \<Rightarrow> string" where
  "consent_token w username a unix =
     (let t = int_string unix in
      t @ ''.'' @ ow_mac w (''consent'' @ [CHR 0x00] @ username @ [CHR 0x00] @ wb_encode w (authz_query a) @ [CHR 0x00] @ t))"

text \<open>\<open>time.Unix\<close> and \<open>Sub\<close> of a far-off time wrap or saturate in Go; the age is outside the ten minutes there
  as it is here.\<close>

definition valid_consent :: "web \<Rightarrow> time \<Rightarrow> string \<Rightarrow> string \<Rightarrow> authz \<Rightarrow> bool" where
  "valid_consent w now token username a \<longleftrightarrow>
     (case cut CHR ''.'' token of None \<Rightarrow> False
      | Some (t, _) \<Rightarrow>
         (case atoi t of None \<Rightarrow> False
          | Some n \<Rightarrow> (let age = now - n * second in
              \<not> (age < 0 \<or> age > consent_ttl) \<and> token = consent_token w username a n)))"

definition handle_oauth_authorize :: "web \<Rightarrow> web_env \<Rightarrow> string option \<Rightarrow> request \<Rightarrow> daemon \<Rightarrow> daemon \<times> web_answer" where
  "handle_oauth_authorize w e oidc_label r d =
     (case da_oauth d of None \<Rightarrow> (d, NoAnswer)
      | Some oa \<Rightarrow>
         (let a = read_authz (rq_query r) in
          case check_authz w r a oa of
            Inl ans \<Rightarrow> (d, ans)
          | Inr client \<Rightarrow>
             (case request_session (crypto.truncate w) (we_now e) r d of
                (d1, None) \<Rightarrow>
                  (let next = ''/oauth/authorize?'' @ wb_encode w (authz_query a)
                   in (d1, SignInPage 200 (oc_name client) next (da_users d \<noteq> None)
                        (map_option (\<lambda>l. (l, ''/auth/oidc?next='' @ wb_escape w next)) oidc_label)))
              | (d1, Some (username, role)) \<Rightarrow>
                  (d1, ConsentPage (oc_name client) username role (public_base (wb_public_url w) r) (authz_query a)
                         (consent_token w username a (unix_time (we_now e)))))))"

definition consent_code :: "web \<Rightarrow> request \<Rightarrow> authz \<Rightarrow> oauth_client \<Rightarrow> string \<Rightarrow> oauth_code" where
  "consent_code w r a client username =
     \<lparr>oo_client = oc_id client, oo_redirect = az_redirect a, oo_challenge = az_challenge a, oo_username = username,
      oo_resource = (if az_resource a = [] then mcp_resource (wb_public_url w) r else az_resource a), oo_expires = zero_time\<rparr>"

text \<open>The consent form: a code back to the client's redirect URI.\<close>

definition handle_oauth_consent :: "web \<Rightarrow> web_env \<Rightarrow> request \<Rightarrow> daemon \<Rightarrow> daemon \<times> web_answer" where
  "handle_oauth_consent w e r d =
     (case rq_form r of None \<Rightarrow> (d, PageError 400 ''Bad request'')
      | Some f \<Rightarrow>
        (case da_oauth d of None \<Rightarrow> (d, NoAnswer)
         | Some oa \<Rightarrow>
            (let a = read_authz f in
             case check_authz w r a oa of
               Inl ans \<Rightarrow> (d, ans)
             | Inr client \<Rightarrow>
                (case request_session (crypto.truncate w) (we_now e) r d of
                   (d1, None) \<Rightarrow> (d1, PageError 403 ''Start again'')
                 | (d1, Some (username, role)) \<Rightarrow>
                     if \<not> valid_consent w (we_now e) (f ''consent'') username a then (d1, PageError 403 ''Start again'')
                     else if f ''decision'' \<noteq> ''allow'' then (d1, redirect_error w a ''access_denied'' ''the person declined'')
                     else (case new_code (we_now e) (we_rnd e) (consent_code w r a client username) oa of
                               (oa1, Inl _) \<Rightarrow> (d1\<lparr>da_oauth := Some oa1\<rparr>, redirect_error w a ''server_error'' ''could not issue a code'')
                             | (oa1, Inr code) \<Rightarrow>
                                 (d1\<lparr>da_oauth := Some oa1\<rparr>,
                                  GoTo 302 (with_query w (az_redirect a)
                                    ([(''code'', code)] @ (if az_state a \<noteq> [] then [(''state'', az_state a)] else []))) []))))))"

subsection \<open>Registration and signing in from the page\<close>

text \<open>The error messages that contain the word \<open>redirect\<close> are those about the URIs.\<close>

definition handle_oauth_register :: "web \<Rightarrow> web_env \<Rightarrow> (string \<times> string list) option \<Rightarrow> daemon \<Rightarrow> daemon \<times> web_answer" where
  "handle_oauth_register w e body d =
     (case body of None \<Rightarrow> (d, OAuthErr 400 ''invalid_client_metadata'')
      | Some (name, redirects) \<Rightarrow>
        (case da_oauth d of None \<Rightarrow> (d, NoAnswer)
         | Some oa \<Rightarrow>
            (case register_client (ow_parse w) (we_now e) (we_oauth_wr e) (we_rnd e) name redirects oa of
               (oa1, res) \<Rightarrow>
                 (d\<lparr>da_oauth := Some oa1\<rparr>,
                  case res of Inr c \<Rightarrow> Registered c
                  | Inl RedirectCount \<Rightarrow> OAuthErr 400 ''invalid_redirect_uri''
                  | Inl (RedirectURI _) \<Rightarrow> OAuthErr 400 ''invalid_redirect_uri''
                  | Inl _ \<Rightarrow> OAuthErr 400 ''invalid_client_metadata''))))"

definition handle_oauth_login :: "web \<Rightarrow> web_env \<Rightarrow> string option \<Rightarrow> request \<Rightarrow> daemon \<Rightarrow> daemon \<times> web_answer" where
  "handle_oauth_login w e oidc_label r d =
     (case rq_form r of None \<Rightarrow> (d, PageError 400 ''Bad request'')
      | Some f \<Rightarrow>
         (let next = f ''next'';
              again = (\<lambda>code. SignInPage code [] next True (map_option (\<lambda>l. (l, ''/auth/oidc?next='' @ wb_escape w next)) oidc_label)) in
          case (safe_next (ow_parse w) next, da_users d) of
            (True, Some us) \<Rightarrow>
              (case check_login w e (f ''username'') (f ''password'') us d of
                 (d1, Throttled _) \<Rightarrow> (d1, again 429)
               | (d1, WrongLogin) \<Rightarrow> (d1, again 401)
               | (d1, RightLogin u) \<Rightarrow>
                   (case start_session w e r u d1 of None \<Rightarrow> (d1, NoAnswer) | Some (d2, ck) \<Rightarrow> (d2, GoTo 303 next [ck])))
          | _ \<Rightarrow> (d, PageError 400 ''Start again'')))"

subsection \<open>Tokens\<close>

text \<open>The switch over the grant type (None: not supported), and what is made of its result.\<close>

definition token_request :: "web \<Rightarrow> web_env \<Rightarrow> (string \<Rightarrow> string) \<Rightarrow> oauth_store \<Rightarrow> (oauth_store \<times> token_answer) option" where
  "token_request w e f oa =
     (let now = we_now e; sign = sign_access (ow_mac w) (ow_enc w) now in
      if f ''grant_type'' = ''authorization_code''
      then Some (exchange_code (ow_hash w) (ow_pkce w) sign now (we_oauth_wr e) (we_rnd e) (we_rnd2 e)
                   (f ''code'') (f ''client_id'') (f ''redirect_uri'') (f ''code_verifier'') oa)
      else if f ''grant_type'' = ''refresh_token''
      then Some (refresh_grant (ow_hash w) sign now (we_oauth_wr e) (we_rnd e) (f ''refresh_token'') (f ''client_id'') oa)
      else None)"

definition token_reply :: "web_env \<Rightarrow> token_answer \<Rightarrow> oauth_store \<Rightarrow> daemon \<Rightarrow> daemon \<times> web_answer" where
  "token_reply e res oa1 d =
     (case res of
        Inl InvalidGrant \<Rightarrow> (d\<lparr>da_oauth := Some oa1\<rparr>, OAuthErr 400 ''invalid_grant'')
      | Inl _ \<Rightarrow> (d\<lparr>da_oauth := Some oa1\<rparr>, OAuthErr 500 ''server_error'')
      | Inr (g, access, refresh) \<Rightarrow>
          (case oauth_user g (d\<lparr>da_oauth := Some oa1\<rparr>) of
             (d1, None) \<Rightarrow>
               (d1\<lparr>da_oauth := Some (fst (revoke_grant (we_oauth_wr e) (og_id g) oa1))\<rparr>, OAuthErr 400 ''invalid_grant'')
           | (d1, Some _) \<Rightarrow> (d1, TokensFor g access refresh)))"

definition handle_oauth_token :: "web \<Rightarrow> web_env \<Rightarrow> request \<Rightarrow> daemon \<Rightarrow> daemon \<times> web_answer" where
  "handle_oauth_token w e r d =
     (case rq_form r of None \<Rightarrow> (d, OAuthErr 400 ''invalid_request'')
      | Some f \<Rightarrow>
        (case da_oauth d of None \<Rightarrow> (d, NoAnswer)
         | Some oa \<Rightarrow>
             if find_client (f ''client_id'') oa = None then (d, OAuthErr 401 ''invalid_client'')
             else if f ''resource'' \<noteq> [] \<and> trim_right (\<lambda>c. c = CHR ''/'') (f ''resource'') \<noteq> mcp_resource (wb_public_url w) r
             then (d, OAuthErr 400 ''invalid_target'')
             else case token_request w e f oa of
               None \<Rightarrow> (d, OAuthErr 400 ''unsupported_grant_type'')
             | Some (oa1, res) \<Rightarrow> token_reply e res oa1 d))"

definition handle_oauth_revoke :: "web \<Rightarrow> web_env \<Rightarrow> request \<Rightarrow> daemon \<Rightarrow> daemon \<times> web_answer" where
  "handle_oauth_revoke w e r d =
     (case rq_form r of None \<Rightarrow> (d, OAuthErr 400 ''invalid_request'')
      | Some f \<Rightarrow>
        (case da_oauth d of None \<Rightarrow> (d, NoAnswer)
         | Some oa \<Rightarrow>
            (let t = f ''token'' in
             if prefix oauth_refresh_prefix t
             then (d\<lparr>da_oauth := Some (fst (revoke_refresh (ow_hash w) (we_oauth_wr e) t oa))\<rparr>, Done)
             else case verify_access (ow_mac w) (ow_dec w) (we_now e) (we_oauth_wr e) t oa of
               (oa1, Some g) \<Rightarrow> (d\<lparr>da_oauth := Some (fst (revoke_grant (we_oauth_wr e) (og_id g) oa1))\<rparr>, Done)
             | (oa1, None) \<Rightarrow> (d\<lparr>da_oauth := Some oa1\<rparr>, Done))))"

definition handle_oauth_grants :: "daemon \<Rightarrow> web_answer" where
  "handle_oauth_grants d = (case da_oauth d of None \<Rightarrow> NoAnswer | Some oa \<Rightarrow> GrantList (list_grants oa))"

definition handle_oauth_grant_revoke :: "web_env \<Rightarrow> string \<Rightarrow> daemon \<Rightarrow> daemon \<times> web_answer" where
  "handle_oauth_grant_revoke e i d =
     (case da_oauth d of None \<Rightarrow> (d, NoAnswer)
      | Some oa \<Rightarrow>
         (case revoke_grant (we_oauth_wr e) i oa of
            (oa1, _, Some _) \<Rightarrow> (d\<lparr>da_oauth := Some oa1\<rparr>, Err 500 ''internal'')
          | (oa1, False, None) \<Rightarrow> (d\<lparr>da_oauth := Some oa1\<rparr>, Err 404 ''not_found'')
          | (oa1, True, None) \<Rightarrow> (d\<lparr>da_oauth := Some oa1\<rparr>, Done)))"

end
