(* ===== verification/Admin_Api.thy ===== *)
theory Admin_Api
  imports OAuth_Handlers
begin

text \<open>
  The endpoints that manage the daemon's own tokens and users (\<open>pkg/server/admin.go\<close>). Their gate, the
  admin role without a scope, is a row of \<open>routes\<close> in \<open>Access\<close>; \<open>readJSON\<close> refusing a body is a None here.
\<close>

subsection \<open>Tokens\<close>

definition handle_token_list :: "daemon \<Rightarrow> daemon \<times> web_answer" where
  "handle_token_list d = (case list_tokens (da_tokens d) of
     (ts, Inl _) \<Rightarrow> (d\<lparr>da_tokens := ts\<rparr>, Err 500 ''internal'') | (ts, Inr l) \<Rightarrow> (d\<lparr>da_tokens := ts\<rparr>, TokenList l))"

definition handle_token_create ::
  "web \<Rightarrow> web_env \<Rightarrow> nat list \<Rightarrow> (string \<times> role \<times> scope option) option \<Rightarrow> daemon \<Rightarrow> daemon \<times> web_answer" where
  "handle_token_create w e rnd body d =
     (case body of None \<Rightarrow> (d, Err 400 ''bad_request'')
      | Some (name, r, sc) \<Rightarrow>
         (case create_scoped (ow_hash w) (we_now e) rnd (fst (we_user_wr e)) (snd (we_user_wr e)) name r
                 (case sc of Some s \<Rightarrow> s | None \<Rightarrow> no_scope) (da_tokens d) of
            (ts, Inl _) \<Rightarrow> (d\<lparr>da_tokens := ts\<rparr>, Err 400 ''bad_request'')
          | (ts, Inr (secret, t)) \<Rightarrow> (d\<lparr>da_tokens := ts\<rparr>, TokenMade secret (t\<lparr>to_hash := []\<rparr>))))"

definition handle_token_revoke :: "web_env \<Rightarrow> string \<Rightarrow> daemon \<Rightarrow> daemon \<times> web_answer" where
  "handle_token_revoke e i d =
     (case revoke_token (fst (we_user_wr e)) (snd (we_user_wr e)) i (da_tokens d) of
        (ts, Some _) \<Rightarrow> (d\<lparr>da_tokens := ts\<rparr>, Err 404 ''not_found'') | (ts, None) \<Rightarrow> (d\<lparr>da_tokens := ts\<rparr>, Done))"

subsection \<open>Users\<close>

text \<open>The routes exist only with a user store.\<close>

definition on_users :: "daemon \<Rightarrow> (user_store \<Rightarrow> user_store \<times> web_answer) \<Rightarrow> daemon \<times> web_answer" where
  "on_users d f = (case da_users d of None \<Rightarrow> (d, NoAnswer)
     | Some us \<Rightarrow> (case f us of (us1, ans) \<Rightarrow> (d\<lparr>da_users := Some us1\<rparr>, ans)))"

definition handle_user_list :: "daemon \<Rightarrow> daemon \<times> web_answer" where
  "handle_user_list d = on_users d (\<lambda>us. case list_users us of (us1, Inl _) \<Rightarrow> (us1, Err 500 ''internal'') | (us1, Inr l) \<Rightarrow> (us1, UserList l))"

definition handle_user_create ::
  "web \<Rightarrow> web_env \<Rightarrow> string \<Rightarrow> (string \<times> string \<times> role \<times> string) option \<Rightarrow> daemon \<Rightarrow> daemon \<times> web_answer" where
  "handle_user_create w e salt body d = (case body of None \<Rightarrow> (d, Err 400 ''bad_request'')
     | Some (username, name, r, password) \<Rightarrow> on_users d (\<lambda>us.
         case create_local (cr_gen w) salt (we_now e) (we_user_wr e) username name r password us of
           (us1, Inl _) \<Rightarrow> (us1, Err 400 ''bad_request'') | (us1, Inr u) \<Rightarrow> (us1, UserMade u)))"

definition session_user :: "web \<Rightarrow> web_env \<Rightarrow> request \<Rightarrow> daemon \<Rightarrow> daemon \<times> (string \<times> role) option" where
  "session_user w e r d = request_session (crypto.truncate w) (we_now e) r d"

record upsert_body =
  ub_role :: role
  ub_name :: string
  ub_disabled :: "bool option"

definition do_upsert :: "web_env \<Rightarrow> string \<Rightarrow> upsert_body \<Rightarrow> user_store \<Rightarrow> user_store \<times> web_answer" where
  "do_upsert e email b us =
     (case upsert_by_email (we_now e) (we_user_wr e) email (ub_name b) (ub_role b) (ub_disabled b) us of
        None \<Rightarrow> (us, NoAnswer)
      | Some (us1, Inl _) \<Rightarrow> (us1, Err 400 ''bad_request'')
      | Some (us1, Inr (u, created)) \<Rightarrow> (us1, UserUpserted u created))"

definition handle_user_upsert :: "web \<Rightarrow> web_env \<Rightarrow> string \<Rightarrow> upsert_body option \<Rightarrow> request \<Rightarrow> daemon \<Rightarrow> daemon \<times> web_answer" where
  "handle_user_upsert w e email0 body r d =
     (let email = to_lower (trim_space email0) in
      case body of None \<Rightarrow> (d, Err 400 ''bad_request'')
      | Some b \<Rightarrow>
         (case session_user w e r d of (d1, self) \<Rightarrow>
            on_users d1 (\<lambda>us.
              case self of
                Some (name, _) \<Rightarrow>
                  if ub_role b \<noteq> RoleAdmin \<or> ub_disabled b = Some True
                  then (case list_users us of
                     (us1, Inl _) \<Rightarrow> do_upsert e email b us1
                   | (us1, Inr l) \<Rightarrow>
                       if list_ex (\<lambda>u. us_username u = name \<and> us_email u = email) l then (us1, Err 409 ''self'')
                       else do_upsert e email b us1)
                  else do_upsert e email b us
              | None \<Rightarrow> do_upsert e email b us)))"

text \<open>What \<open>Get\<close> returns beside \<open>false\<close>.\<close>

definition zero_user :: user where
  "zero_user = \<lparr>us_username = [], us_name = [], us_role = RoleUnknown, us_provider = NoProvider, us_email = [], us_hash = [],
     us_disabled = False, us_created = zero_time, us_last_login = None\<rparr>"

record update_body =
  pb_role :: "role option"
  pb_disabled :: "bool option"
  pb_password :: "(string \<times> string) option"

text \<open>\<open>pb_password\<close>: the new password with the salt its hash draws. The three changes run in this order, each
  writing the file with its own outcome; the first that fails ends the request.\<close>

definition try_change :: "('a \<Rightarrow> user_store \<Rightarrow> user_store \<times> user_error option) \<Rightarrow> 'a option \<Rightarrow> user_store \<times> bool \<Rightarrow> user_store \<times> bool" where
  "try_change f v st = (case (v, st) of
     (Some x, (us, True)) \<Rightarrow> (case f x us of (us1, err) \<Rightarrow> (us1, err = None))
   | _ \<Rightarrow> st)"

text \<open>\<open>wrs\<close>: the outcomes of the three writes.\<close>

definition do_changes ::
  "web \<Rightarrow> write_result \<times> write_result \<times> write_result \<Rightarrow> string \<Rightarrow> update_body \<Rightarrow> user_store \<Rightarrow> user_store \<times> bool" where
  "do_changes w wrs username b us =
     try_change (\<lambda>(salt, pw). set_password (cr_gen w) salt (snd (snd wrs)) username pw) (pb_password b)
       (try_change (set_disabled (fst (snd wrs)) username) (pb_disabled b)
         (try_change (set_role (fst wrs) username) (pb_role b) (us, True)))"

definition do_update ::
  "web \<Rightarrow> write_result \<times> write_result \<times> write_result \<Rightarrow> string \<Rightarrow> update_body \<Rightarrow> user_store \<Rightarrow> user_store \<times> web_answer" where
  "do_update w wrs username b us =
     (case do_changes w wrs username b us of
        (us3, False) \<Rightarrow> (us3, Err 400 ''bad_request'')
      | (us3, True) \<Rightarrow>
          (case get_user username us3 of
             (us4, Inl _) \<Rightarrow> (us4, Err 500 ''internal'')
           | (us4, Inr (Some u)) \<Rightarrow> (us4, UserChanged u)
           | (us4, Inr None) \<Rightarrow> (us4, UserChanged zero_user)))"

definition handle_user_update ::
  "web \<Rightarrow> web_env \<Rightarrow> write_result \<times> write_result \<times> write_result \<Rightarrow> string \<Rightarrow> update_body option \<Rightarrow> request \<Rightarrow> daemon \<Rightarrow> daemon \<times> web_answer" where
  "handle_user_update w e wrs username0 body r d =
     (let username = to_lower (trim_space username0) in
      case body of None \<Rightarrow> (d, Err 400 ''bad_request'')
      | Some b \<Rightarrow>
          if pb_role b = None \<and> pb_disabled b = None \<and> pb_password b = None then (d, Err 400 ''bad_request'')
          else case da_users d of None \<Rightarrow> (d, NoAnswer)
          | Some us \<Rightarrow>
             (case get_user username us of
                (us1, Inr (Some _)) \<Rightarrow>
                  (case session_user w e r (d\<lparr>da_users := Some us1\<rparr>) of (d1, self) \<Rightarrow>
                     if (case self of None \<Rightarrow> False
                         | Some (name, _) \<Rightarrow> name = username \<and> (pb_role b \<notin> {None, Some RoleAdmin} \<or> pb_disabled b = Some True))
                     then (d1, Err 409 ''self'')
                     else on_users d1 (do_update w wrs username b))
              | (us1, _) \<Rightarrow> (d\<lparr>da_users := Some us1\<rparr>, Err 404 ''not_found'')))"

subsection \<open>Facts\<close>

text \<open>A store that is up to date with its file and has \<open>name\<close> as an enabled admin.\<close>

definition has_admin :: "string \<Rightarrow> user_store \<Rightarrow> bool" where
  "has_admin name us \<longleftrightarrow> user_store_ok us \<and> (\<exists>f. ut_file us = Some f \<and> ut_loaded us = Some (uf_stamp f))
     \<and> (\<exists>u \<in> set (ut_users us). us_username u = name \<and> us_role u = RoleAdmin \<and> \<not> us_disabled u)"

lemma has_admin_reload: "has_admin name us \<Longrightarrow> reload_users False us = (us, None)"
  by (auto simp: has_admin_def reload_users_def)

lemma users_ok_same: "users_ok l \<Longrightarrow> u \<in> set l \<Longrightarrow> v \<in> set l \<Longrightarrow> us_username u = us_username v \<Longrightarrow> u = v"
  by (auto simp: users_ok_def distinct_map dest: inj_onD)

lemma has_admin_live:
  assumes "has_admin name us"
  shows "live_user name us = (us, Some (name, RoleAdmin))"
proof -
  have ok: "users_ok (ut_users us)" using assms by (simp add: has_admin_def user_store_ok_def)
  obtain u where u: "u \<in> set (ut_users us)" "us_username u = name" "us_role u = RoleAdmin" "\<not> us_disabled u"
    using assms by (auto simp: has_admin_def)
  then have n: "normal name" using ok by (auto simp: users_ok_def)
  then obtain i where i: "find_user (ut_users us) name = Some i"
    using find_user_None[OF n, of "ut_users us"] u(1,2) by fastforce
  have "i < length (ut_users us)" "us_username (ut_users us ! i) = name" using find_user_Some[OF i] n by (simp_all add: normal_def)
  then have "ut_users us ! i = u" using users_ok_same[OF ok _ u(1)] u(2) by simp
  then show ?thesis using u i has_admin_reload[OF assms] by (simp add: live_user_def get_user_def valid_role_def)
qed

lemma has_admin_save:
  assumes "has_admin name us" "users_ok l" "u \<in> set l" "us_username u = name" "us_role u = RoleAdmin" "\<not> us_disabled u"
  shows "has_admin name (fst (save_users wr (us\<lparr>ut_users := l\<rparr>)))"
proof -
  have "user_store_ok (fst (save_users wr (us\<lparr>ut_users := l\<rparr>)))"
    using assms(1,2) by (intro user_store_ok_save) (simp_all add: has_admin_def)
  then show ?thesis using assms by (auto simp: has_admin_def save_users_def)
qed

lemma has_admin_replace:
  assumes "has_admin name us" "users_ok (l[i := v])" "i < length l" "set (ut_users us) \<subseteq> set l"
    and "us_username (l ! i) = name \<Longrightarrow> us_role (l ! i) = RoleAdmin \<Longrightarrow> \<not> us_disabled (l ! i)
       \<Longrightarrow> us_username v = name \<and> us_role v = RoleAdmin \<and> \<not> us_disabled v"
  shows "has_admin name (fst (save_users wr (us\<lparr>ut_users := l[i := v]\<rparr>)))"
proof -
  obtain u where u: "u \<in> set l" "us_username u = name" "us_role u = RoleAdmin" "\<not> us_disabled u"
    using assms(1,4) by (auto simp: has_admin_def)
  show ?thesis
  proof (cases "l ! i = u")
    case True
    then show ?thesis
      using has_admin_save[OF assms(1,2), of v wr] assms(5) u assms(3) by (simp add: set_update_memI)
  next
    case False
    obtain k where k: "k < length l" "l ! k = u" using u(1) by (auto simp: in_set_conv_nth)
    have "k \<noteq> i" using False k(2) by auto
    then have "l[i := v] ! k = u" "k < length (l[i := v])" using k by simp_all
    then have "u \<in> set (l[i := v])" by (metis nth_mem)
    then show ?thesis using has_admin_save[OF assms(1,2) _ u(2,3,4)] by blast
  qed
qed

lemma has_admin_change:
  assumes "has_admin name us" "\<And>u. us_username (ch u) = us_username u"
    and "\<And>u. to_lower (trim_space un) = name \<Longrightarrow> us_role u = RoleAdmin \<Longrightarrow> \<not> us_disabled u \<Longrightarrow> us_role (ch u) = RoleAdmin \<and> \<not> us_disabled (ch u)"
  shows "has_admin name (fst (change_user wr un missing ch us))"
proof (cases "find_user (ut_users us) un")
  case None
  then show ?thesis using assms(1) has_admin_reload[OF assms(1)] by (simp add: change_user_def)
next
  case (Some i)
  have i: "i < length (ut_users us)" "us_username (ut_users us ! i) = to_lower (trim_space un)" using find_user_Some[OF Some] by simp_all
  have ok: "users_ok ((ut_users us)[i := ch (ut_users us ! i)])"
    using assms(1,2) by (intro users_ok_changed) (simp_all add: has_admin_def user_store_ok_def)
  have "has_admin name (fst (save_users wr (us\<lparr>ut_users := (ut_users us)[i := ch (ut_users us ! i)]\<rparr>)))"
    using assms(2,3) i by (intro has_admin_replace[OF assms(1) ok i(1)]) simp_all
  then show ?thesis using has_admin_reload[OF assms(1)] Some by (simp add: change_user_def)
qed

text \<open>The session of an admin, as the store has them.\<close>

lemma session_has_admin:
  assumes "session_user w e r d = (d1, Some (name, RoleAdmin))" "da_users d = Some us"
    and "user_store_ok us" "ut_file us = Some f" "ut_loaded us = Some (uf_stamp f)"
  shows "has_admin name us \<and> d1 = d"
proof -
  obtain se where se: "da_sessions d = Some se"
    using assms(1) by (cases "da_sessions d") (simp_all add: session_user_def request_session_def)
  obtain ur where ur: "session_from_request (cr_hmac w) (cr_codec w) se (we_now e) r = Some ur"
    using assms(1,2) se
    by (cases "session_from_request (cr_hmac w) (cr_codec w) se (we_now e) r")
      (simp_all add: session_user_def request_session_def current_session_def crypto.truncate_def)
  obtain us1 res where lu: "live_user (fst ur) us = (us1, res)" by (cases "live_user (fst ur) us")
  have res: "res = Some (name, RoleAdmin)" "d1 = d\<lparr>da_users := Some us1\<rparr>"
    using assms(1,2) se ur lu
    by (auto simp: session_user_def request_session_def current_session_def crypto.truncate_def split: prod.splits)
  have rl: "reload_users False us = (us, None)" using assms(4,5) by (simp add: reload_users_def)
  then have us1: "us1 = us" using lu by (auto simp: live_user_def get_user_def split: option.splits)
  obtain i where i: "find_user (ut_users us1) (fst ur) = Some i" "us_username (ut_users us1 ! i) = name"
      "us_role (ut_users us1 ! i) = RoleAdmin" "\<not> us_disabled (ut_users us1 ! i)"
    using live_user_Some[of "fst ur" us us1 name RoleAdmin] lu res(1) by auto
  have "i < length (ut_users us)" using find_user_Some[OF i(1)] us1 by simp
  then have "has_admin name us" using assms(3,4,5) i us1 by (auto simp: has_admin_def)
  moreover have "d1 = d" using res(2) us1 assms(2) by simp
  ultimately show ?thesis by simp
qed

lemma create_keeps_admin:
  assumes "has_admin name us"
  shows "has_admin name (fst (create_local gen salt now wr un nm ro pw us))"
proof -
  have "user_store_ok (fst (create_local gen salt now wr un nm ro pw us))"
    using assms by (intro create_local_ok) (simp add: has_admin_def)
  then show ?thesis
    using assms has_admin_reload[OF assms]
    by (auto simp: has_admin_def create_local_def Let_def save_users_def split: if_splits)
qed

lemma upsert_keeps_admin:
  assumes "has_admin name us" "upsert_by_email now wr e nm ro dis us = Some (us', res)"
    and "\<And>u. u \<in> set (ut_users us) \<Longrightarrow> us_username u = name \<Longrightarrow> us_email u = to_lower (trim_space e) \<Longrightarrow> ro = RoleAdmin \<and> dis \<noteq> Some True"
  shows "has_admin name us'"
proof -
  have ok: "user_store_ok us'" by (rule upsert_ok[OF _ assms(2)]) (use assms(1) in \<open>simp add: has_admin_def\<close>)
  define mail where "mail = to_lower (trim_space e)"
  define upd where "upd u = (let u1 = u\<lparr>us_role := ro\<rparr>; n = trim_space nm; u2 = (if n \<noteq> [] then u1\<lparr>us_name := n\<rparr> else u1)
      in case dis of Some d \<Rightarrow> u2\<lparr>us_disabled := d\<rparr> | None \<Rightarrow> u2)" for u :: user
  have keep: "us_username (upd u) = us_username u \<and> us_role (upd u) = ro \<and> (dis \<noteq> Some True \<longrightarrow> \<not> us_disabled u \<longrightarrow> \<not> us_disabled (upd u))" for u
    by (auto simp: upd_def Let_def split: option.splits)
  show ?thesis
  proof (cases "valid_email mail \<and> valid_role ro")
    case False
    then show ?thesis using assms(1,2) by (auto simp: upsert_by_email_def Let_def mail_def split: if_splits)
  next
    case True
    show ?thesis
    proof (cases "index_of (\<lambda>u. us_email u = mail) (ut_users us)")
      case (Some i)
      have us': "us' = fst (save_users wr (us\<lparr>ut_users := (ut_users us)[i := upd (ut_users us ! i)]\<rparr>))"
        using assms(2) True Some has_admin_reload[OF assms(1)]
        by (auto simp: upsert_by_email_def Let_def mail_def[symmetric] upd_def[unfolded Let_def, symmetric] split: prod.splits option.splits)
      have i: "i < length (ut_users us)" "us_email (ut_users us ! i) = mail" using index_of_Some[OF Some] by auto
      have "users_ok ((ut_users us)[i := upd (ut_users us ! i)])"
        using ok unfolding us' by (simp add: user_store_ok_def save_users_def split: if_splits)
      then show ?thesis
        unfolding us' using i keep assms(3)[of "ut_users us ! i"]
        by (intro has_admin_replace[OF assms(1)]) (auto simp: mail_def)
    next
      case None
      obtain un where un: "free_username (ut_users us) (username_for_email mail) = Some un"
        "un \<notin> set (map us_username (ut_users us))" using free_username_total[of "ut_users us" mail] by blast
      define u0 where "u0 = \<lparr>us_username = un, us_name = trim_space nm, us_role = RoleUnknown, us_provider = ProviderOIDC,
        us_email = mail, us_hash = [], us_disabled = False, us_created = now, us_last_login = None\<rparr>"
      have us': "us' = fst (save_users wr (us\<lparr>ut_users := (ut_users us @ [u0])[length (ut_users us) := upd u0]\<rparr>))"
        using assms(2) True None un has_admin_reload[OF assms(1)]
        by (auto simp: upsert_by_email_def Let_def mail_def[symmetric] upd_def[unfolded Let_def, symmetric] u0_def[symmetric]
            split: prod.splits option.splits)
      have "users_ok ((ut_users us @ [u0])[length (ut_users us) := upd u0])"
        using ok unfolding us' by (simp add: user_store_ok_def save_users_def split: if_splits)
      moreover have "us_role u0 \<noteq> RoleAdmin" by (simp add: u0_def)
      ultimately show ?thesis
        unfolding us' by (intro has_admin_replace[OF assms(1)]) auto
    qed
  qed
qed

lemma try_change_keeps:
  assumes "has_admin name (fst st)" "\<And>x us. v = Some x \<Longrightarrow> has_admin name us \<Longrightarrow> has_admin name (fst (f x us))"
  shows "has_admin name (fst (try_change f v st))"
proof -
  have "fst (try_change f v st) = fst st \<or> (\<exists>x. v = Some x \<and> fst (try_change f v st) = fst (f x (fst st)))"
    by (cases v; cases st; cases "snd st") (auto simp: try_change_def split: prod.splits)
  then show ?thesis using assms by auto
qed

lemma get_user_keeps: "has_admin name us \<Longrightarrow> fst (get_user un us) = us"
  using has_admin_reload[of name us] by (simp add: get_user_def)

lemma on_users_keeps:
  assumes "da_users d = Some us" "has_admin name (fst (f us))"
  shows "\<exists>us'. da_users (fst (on_users d f)) = Some us' \<and> has_admin name us'"
  using assms by (cases "f us") (simp add: on_users_def)

lemma handle_create_keeps:
  assumes "da_users d = Some us" "has_admin name us"
  shows "\<exists>us'. da_users (fst (handle_user_create w e salt body d)) = Some us' \<and> has_admin name us'"
proof (cases body)
  case (Some b)
  obtain u n ro pw where b: "b = (u, n, ro, pw)" by (metis prod_cases4)
  obtain us1 res where c: "create_local (cr_gen w) salt (we_now e) (we_user_wr e) u n ro pw us = (us1, res)"
    by (cases "create_local (cr_gen w) salt (we_now e) (we_user_wr e) u n ro pw us")
  have "has_admin name us1"
    using create_keeps_admin[OF assms(2), of "cr_gen w" salt "we_now e" "we_user_wr e" u n ro pw] c by simp
  then show ?thesis
    unfolding handle_user_create_def Some option.case b prod.case
    by (intro on_users_keeps[OF assms(1)]) (simp add: c split: sum.split)
qed (use assms in \<open>simp add: handle_user_create_def\<close>)

lemma do_upsert_keeps:
  assumes "has_admin name us"
    and "\<And>u. u \<in> set (ut_users us) \<Longrightarrow> us_username u = name \<Longrightarrow> us_email u = to_lower (trim_space email)
       \<Longrightarrow> ub_role b = RoleAdmin \<and> ub_disabled b \<noteq> Some True"
  shows "has_admin name (fst (do_upsert e email b us))"
proof (cases "upsert_by_email (we_now e) (we_user_wr e) email (ub_name b) (ub_role b) (ub_disabled b) us")
  case (Some p)
  obtain us' res where p: "p = (us', res)" by (cases p)
  have "has_admin name us'" using upsert_keeps_admin[OF assms(1) Some[unfolded p]] assms(2) by blast
  then show ?thesis by (simp add: do_upsert_def Some p split: sum.split prod.split)
qed (use assms(1) in \<open>simp add: do_upsert_def\<close>)

lemma handle_upsert_keeps:
  assumes "da_users d = Some us" "has_admin name us" "session_user w e r d = (d, Some (name, ro))"
  shows "\<exists>us'. da_users (fst (handle_user_upsert w e email body r d)) = Some us' \<and> has_admin name us'"
proof (cases body)
  case (Some b)
  define mail where "mail = to_lower (trim_space email)"
  have l: "list_users us = (us, Inr (map (\<lambda>u. u\<lparr>us_hash := []\<rparr>) (ut_users us)))"
    by (simp add: list_users_def has_admin_reload[OF assms(2)])
  have ex: "list_ex (\<lambda>u. us_username u = name \<and> us_email u = mail) (map (\<lambda>u. u\<lparr>us_hash := []\<rparr>) (ut_users us))
      \<longleftrightarrow> (\<exists>u \<in> set (ut_users us). us_username u = name \<and> us_email u = mail)" by (simp add: list_ex_iff)
  have idem: "to_lower (trim_space mail) = mail" by (simp add: mail_def trim_space_lower)
  have k: "has_admin name (fst (do_upsert e mail b us))"
    if "\<not> (ub_role b \<noteq> RoleAdmin \<or> ub_disabled b = Some True) \<or> \<not> (\<exists>u \<in> set (ut_users us). us_username u = name \<and> us_email u = mail)"
    by (rule do_upsert_keeps[OF assms(2)]) (use that idem in auto)
  show ?thesis
    unfolding handle_user_upsert_def Let_def Some option.case assms(3) prod.case mail_def[symmetric]
    by (rule on_users_keeps[OF assms(1)]) (use k assms(2) in \<open>simp add: l ex\<close>)
qed (use assms in \<open>simp add: handle_user_upsert_def Let_def\<close>)

lemma do_changes_keeps:
  assumes "has_admin name us" "\<not> (name = to_lower (trim_space un) \<and> (pb_role b \<notin> {None, Some RoleAdmin} \<or> pb_disabled b = Some True))"
  shows "has_admin name (fst (do_changes w wrs un b us))"
proof -
  have role: "has_admin name (fst (set_role wr un x s))" if "pb_role b = Some x" "has_admin name s" for wr x s
    using that assms(2) by (auto simp: set_role_def intro!: has_admin_change)
  have dis: "has_admin name (fst (set_disabled wr un x s))" if "pb_disabled b = Some x" "has_admin name s" for wr x s
    using that assms(2) by (auto simp: set_disabled_def intro!: has_admin_change)
  have pw: "has_admin name (fst (set_password gen salt wr un x s))" if "has_admin name s" for gen salt wr x s
    using that by (auto simp: set_password_def Let_def intro!: has_admin_change split: if_splits)
  show ?thesis
    unfolding do_changes_def
    by (intro try_change_keeps) (simp_all add: assms(1) role dis pw split: prod.split)
qed

lemma do_update_keeps:
  assumes "has_admin name us" "\<not> (name = to_lower (trim_space un) \<and> (pb_role b \<notin> {None, Some RoleAdmin} \<or> pb_disabled b = Some True))"
  shows "has_admin name (fst (do_update w wrs un b us))"
proof -
  obtain us3 ok where c: "do_changes w wrs un b us = (us3, ok)" by (cases "do_changes w wrs un b us")
  have k: "has_admin name us3" using do_changes_keeps[OF assms, of w wrs] c by simp
  obtain us4 res where g: "get_user un us3 = (us4, res)" by (cases "get_user un us3")
  then have "us4 = us3" using get_user_keeps[OF k, of un] by simp
  then show ?thesis using k by (cases ok) (simp_all add: do_update_def c g split: sum.split option.split)
qed

lemma handle_update_keeps:
  assumes "da_users d = Some us" "has_admin name us" "session_user w e r d = (d, Some (name, ro))"
  shows "\<exists>us'. da_users (fst (handle_user_update w e wrs un body r d)) = Some us' \<and> has_admin name us'"
proof (cases body)
  case (Some b)
  define username where "username = to_lower (trim_space un)"
  have idem: "to_lower (trim_space username) = username" by (simp add: username_def trim_space_lower)
  have same: "d\<lparr>da_users := Some us\<rparr> = d" using assms(1) by simp
  obtain found where g: "get_user username us = (us, found)"
    using get_user_keeps[OF assms(2), of username] by (cases "get_user username us") simp
  define refused where "refused \<longleftrightarrow> name = username \<and> (pb_role b \<notin> {None, Some RoleAdmin} \<or> pb_disabled b = Some True)"
  have after: "\<exists>us'. da_users (fst (on_users d (do_update w wrs username b))) = Some us' \<and> has_admin name us'" if "\<not> refused"
    by (rule on_users_keeps[OF assms(1)], rule do_update_keeps[OF assms(2)]) (use that in \<open>simp add: refused_def idem\<close>)
  define nothing where "nothing \<longleftrightarrow> pb_role b = None \<and> pb_disabled b = None \<and> pb_password b = None"
  have eq: "handle_user_update w e wrs un body r d =
      (if nothing then (d, Err 400 ''bad_request'')
       else case found of
         Inr (Some _) \<Rightarrow> (if refused then (d, Err 409 ''self'') else on_users d (do_update w wrs username b))
       | _ \<Rightarrow> (d, Err 404 ''not_found''))"
    unfolding handle_user_update_def Let_def Some option.case username_def[symmetric] assms(1) g prod.case same assms(3)
      nothing_def refused_def by (rule refl)
  show ?thesis
  proof (cases "\<not> nothing \<and> \<not> refused \<and> (\<exists>u. found = Inr (Some u))")
    case True
    then show ?thesis using after eq by auto
  next
    case False
    then have "fst (handle_user_update w e wrs un body r d) = d"
      unfolding eq by (simp split: sum.split option.split) blast
    then show ?thesis using assms(1,2) by simp
  qed
qed (use assms in \<open>simp add: handle_user_update_def Let_def\<close>)

subsection \<open>Properties\<close>

text \<open>C36: No admin closes the way in behind themselves: whatever user management request (create, put by email, patch)
  is made with an admin's session, with any body and any of its writes failing, that admin is still an enabled
  admin to the daemon afterwards.\<close>
theorem acting_admin_stays:
  assumes "session_user w e r d = (d1, Some (name, RoleAdmin))" "da_users d = Some us"
    and "user_store_ok us" "ut_file us = Some f" "ut_loaded us = Some (uf_stamp f)"
    and "d' \<in> {fst (handle_user_create w e salt cbody d), fst (handle_user_upsert w e email ubody r d), fst (handle_user_update w e wrs un pbody r d)}"
  shows "\<exists>us'. da_users d' = Some us' \<and> live_user name us' = (us', Some (name, RoleAdmin))"
proof -
  have adm: "has_admin name us" and self: "session_user w e r d = (d, Some (name, RoleAdmin))"
    using session_has_admin[OF assms(1-5)] assms(1) by simp_all
  have "\<exists>us'. da_users d' = Some us' \<and> has_admin name us'"
    using assms(6) handle_create_keeps[OF assms(2) adm, of w e salt cbody] handle_upsert_keeps[OF assms(2) adm self, of email ubody]
      handle_update_keeps[OF assms(2) adm self, of wrs un pbody]
    by (elim insertE emptyE) (simp_all only:)
  then show ?thesis using has_admin_live by blast
qed

definition demo_web :: web where
  "demo_web = crypto.extend demo_crypto \<lparr>wb_public_url = [], wb_encode = (\<lambda>q. concat (map (\<lambda>(k, v). k @ ''='' @ v @ ''&'') q)), wb_escape = id\<rparr>"

definition demo_web_env :: web_env where
  "demo_web_env = \<lparr>we_now = 1, we_oauth_wr = True, we_user_wr = (True, 2), we_touch_wr = (True, 3), we_throttle_size = 1,
     we_rnd = Some ''r1'', we_rnd2 = Some ''r2''\<rparr>"

definition demo_sessions :: sessions where
  "demo_sessions = \<lparr>se_key = ''0123456789abcdef'', se_ttl = hour, se_secure = True\<rparr>"

definition demo_cookie :: string where
  "demo_cookie = issue_session (cr_hmac demo_crypto) demo_codec demo_sessions 0 ''ann'' RoleAdmin"

definition demo_admin :: "daemon \<times> request" where
  "demo_admin = (demo_daemon\<lparr>da_sessions := Some demo_sessions, da_users := Some demo_users\<rparr>, demo_request [] (Some demo_cookie))"

lemma demo_web_crypto: "crypto.truncate demo_web = demo_crypto"
  by (simp add: demo_web_def crypto.defs)

lemma demo_cookie_session:
  "rq_cookie r session_cookie_name = Some demo_cookie \<Longrightarrow>
     session_from_request (cr_hmac demo_crypto) (cr_codec demo_crypto) demo_sessions 1 r = Some (''ann'', RoleAdmin)"
proof -
  assume r: "rq_cookie r session_cookie_name = Some demo_cookie"
  have "valid_username ''ann''" "valid_role RoleAdmin" by code_simp+
  from verify_issued[OF demo_codec_ok this, of 0 demo_sessions "cr_hmac demo_crypto" 1]
  have "verify_session (cr_hmac demo_crypto) demo_codec demo_sessions 1 demo_cookie = Some (''ann'', RoleAdmin)"
    by (simp add: demo_cookie_def demo_sessions_def unix_time_def)
  moreover have "cr_codec demo_crypto = demo_codec" by (simp add: demo_crypto_def)
  ultimately show ?thesis using r by (simp add: session_from_request_def)
qed

lemma demo_user_live: "live_user ''ann'' demo_users = (demo_users, Some (''ann'', RoleAdmin))"
  by code_simp

lemma demo_admin_session: "session_user demo_web demo_web_env (snd demo_admin) (fst demo_admin) = (fst demo_admin, Some (''ann'', RoleAdmin))"
proof -
  have "rq_cookie (snd demo_admin) session_cookie_name = Some demo_cookie" by (simp add: demo_admin_def demo_request_def)
  from demo_cookie_session[OF this] show ?thesis
    by (simp add: session_user_def request_session_def demo_admin_def current_session_def demo_web_env_def demo_web_crypto demo_user_live)
qed

theorem acting_admin_stays_witness:
  "let b = \<lparr>ub_role = RoleViewer, ub_name = [], ub_disabled = Some True\<rparr>;
       d' = fst (handle_user_upsert demo_web demo_web_env ''Ann@X.org'' (Some b) (snd demo_admin) (fst demo_admin))
   in \<exists>us'. da_users d' = Some us' \<and> live_user ''ann'' us' = (us', Some (''ann'', RoleAdmin))"
proof -
  define b where "b = \<lparr>ub_role = RoleViewer, ub_name = [], ub_disabled = Some True\<rparr>"
  define d' where "d' = fst (handle_user_upsert demo_web demo_web_env ''Ann@X.org'' (Some b) (snd demo_admin) (fst demo_admin))"
  have 1: "da_users (fst demo_admin) = Some demo_users" by (simp add: demo_admin_def)
  have n: "normal ''ann''" by code_simp
  have 2: "user_store_ok demo_users" using n by (simp add: user_store_ok_def users_ok_def demo_users_def demo_user_def)
  have 3: "ut_file demo_users = Some \<lparr>uf_users = [demo_user], uf_stamp = 1, uf_private = True, uf_readable = True\<rparr>"
    "ut_loaded demo_users = Some 1" by (simp_all add: demo_users_def)
  have 4: "ut_loaded demo_users = Some (uf_stamp \<lparr>uf_users = [demo_user], uf_stamp = 1, uf_private = True, uf_readable = True\<rparr>)"
    using 3(2) by simp
  have 5: "d' \<in> {fst (handle_user_create demo_web demo_web_env [] None (fst demo_admin)),
      fst (handle_user_upsert demo_web demo_web_env ''Ann@X.org'' (Some b) (snd demo_admin) (fst demo_admin)),
      fst (handle_user_update demo_web demo_web_env ((True, 1), (True, 2), True, 3) [] None (snd demo_admin) (fst demo_admin))}"
    by (simp add: d'_def)
  from acting_admin_stays[OF demo_admin_session 1 2 3(1) 4 5] show ?thesis
    by (simp only: Let_def d'_def b_def)
qed

end
