(* ===== verification/Web_Runs.thy ===== *)
theory Web_Runs
  imports Admin_Api
begin

text \<open>
  Runs of the whole web side of the daemon: sign-in, OAuth, user and token management and the gates of
  every other route, in any order and from any number of clients. The agents' access (OAuth grants) is
  traced through such runs to the consents that people gave.
\<close>

subsection \<open>Requests\<close>

datatype web_event =
    WSession time bool string request
  | WLogin web_env "(string \<times> string) option" request
  | WOidcCallback web_env oidc_env oidc request
  | WRegister web_env "(string \<times> string list) option"
  | WAuthorize web_env "string option" request
  | WConsent web_env request
  | WOAuthLogin web_env "string option" request
  | WToken web_env request
  | WRevoke web_env request
  | WGrantRevoke web_env string
  | WUserCreate web_env string "(string \<times> string \<times> role \<times> string) option"
  | WUserUpsert web_env string "upsert_body option" request
  | WUserUpdate web_env "write_result \<times> write_result \<times> write_result" string "update_body option" request
  | WUserList
  | WTokenCreate web_env "nat list" "(string \<times> role \<times> scope option) option"
  | WTokenRevoke web_env string
  | WTokenList
  | WGuarded time bool gate "actor option" request

definition web_step :: "web \<Rightarrow> web_event \<Rightarrow> daemon \<Rightarrow> daemon" where
  "web_step w ev d = (case ev of
     WSession now oidc label r \<Rightarrow> fst (session_info w now oidc label r d)
   | WLogin e body r \<Rightarrow> fst (handle_login w e body r d)
   | WOidcCallback e oe o' r \<Rightarrow> fst (handle_oidc_callback w e oe o' r d)
   | WRegister e body \<Rightarrow> fst (handle_oauth_register w e body d)
   | WAuthorize e label r \<Rightarrow> fst (handle_oauth_authorize w e label r d)
   | WConsent e r \<Rightarrow> fst (handle_oauth_consent w e r d)
   | WOAuthLogin e label r \<Rightarrow> fst (handle_oauth_login w e label r d)
   | WToken e r \<Rightarrow> fst (handle_oauth_token w e r d)
   | WRevoke e r \<Rightarrow> fst (handle_oauth_revoke w e r d)
   | WGrantRevoke e i \<Rightarrow> fst (handle_oauth_grant_revoke e i d)
   | WUserCreate e salt body \<Rightarrow> fst (handle_user_create w e salt body d)
   | WUserUpsert e email body r \<Rightarrow> fst (handle_user_upsert w e email body r d)
   | WUserUpdate e wrs un body r \<Rightarrow> fst (handle_user_update w e wrs un body r d)
   | WUserList \<Rightarrow> fst (handle_user_list d)
   | WTokenCreate e rnd body \<Rightarrow> fst (handle_token_create w e rnd body d)
   | WTokenRevoke e i \<Rightarrow> fst (handle_token_revoke e i d)
   | WTokenList \<Rightarrow> fst (handle_token_list d)
   | WGuarded now wr g c r \<Rightarrow> fst (pass_gate (crypto.truncate w) now wr g c r d))"

text \<open>A person's consent: \<open>who\<close> is signed in, the form carries the consent token made for them and this very
  request, they pressed Allow, and \<open>client\<close> registered the redirect URI the code goes to.\<close>

definition consents :: "web \<Rightarrow> web_env \<Rightarrow> request \<Rightarrow> daemon \<Rightarrow> string \<Rightarrow> string \<Rightarrow> bool" where
  "consents w e r d who client \<longleftrightarrow>
     (case (rq_form r, da_oauth d, snd (request_session (crypto.truncate w) (we_now e) r d)) of
        (Some f, Some oa, Some (username, _)) \<Rightarrow>
          username = who \<and> f ''decision'' = ''allow'' \<and> valid_consent w (we_now e) (f ''consent'') who (read_authz f)
          \<and> (case check_authz w r (read_authz f) oa of Inl _ \<Rightarrow> False
             | Inr c \<Rightarrow> oc_id c = client \<and> az_redirect (read_authz f) \<in> set (oc_redirects c))
      | _ \<Rightarrow> False)"

subsection \<open>Where access comes from\<close>

text \<open>Who a grant or a code acts for, and through which client.\<close>

definition origins :: "oauth_store \<Rightarrow> (string \<times> string) set" where
  "origins oa = (\<lambda>g. (og_username g, og_client g)) ` set (oa_grants oa) \<union> (\<lambda>c. (oo_username c, oo_client c)) ` ran (oa_codes oa)"

definition access_of :: "daemon \<Rightarrow> (string \<times> string) set" where
  "access_of d = (case da_oauth d of None \<Rightarrow> {} | Some oa \<Rightarrow> origins oa)"

lemma origins_mono:
  "set (oa_grants s') \<subseteq> set (oa_grants s) \<Longrightarrow> oa_codes s' = oa_codes s \<Longrightarrow> origins s' \<subseteq> origins s"
  by (auto simp: origins_def)

lemma origins_register: "origins (fst (register_client parse now wr rnd n rs s)) = origins s"
  by (simp add: origins_def frame)

lemma origins_same_grants:
  "(\<lambda>g. (og_username g, og_client g)) ` set (oa_grants s') \<subseteq> (\<lambda>g. (og_username g, og_client g)) ` set (oa_grants s)
     \<Longrightarrow> oa_codes s' = oa_codes s \<Longrightarrow> origins s' \<subseteq> origins s"
  by (auto simp: origins_def)

lemma image_update: "f g' = f (gs ! i) \<Longrightarrow> f ` set (gs[i := g']) \<subseteq> f ` set gs"
  by (metis list_update_id map_update order_refl set_map)

lemma origins_revoke: "origins (fst (revoke_grant wr i s)) \<subseteq> origins s" "origins (fst (revoke_refresh H wr tok s)) \<subseteq> origins s"
proof -
  have "set (oa_grants (fst (revoke_grant wr i s))) \<subseteq> set (oa_grants s)"
    using set_remove_nth[of _ "oa_grants s"] by (simp add: revoke_grant_def save_oauth_def split: option.splits)
  then show "origins (fst (revoke_grant wr i s)) \<subseteq> origins s" by (rule origins_mono) (simp add: frame)
  have "set (oa_grants (fst (revoke_refresh H wr tok s))) \<subseteq> set (oa_grants s)"
    using set_remove_nth[of _ "oa_grants s"] by (simp add: revoke_refresh_def save_oauth_def split: option.splits)
  then show "origins (fst (revoke_refresh H wr tok s)) \<subseteq> origins s" by (rule origins_mono) (simp add: frame)
qed

lemma origins_verify: "origins (fst (verify_access mac dec now wr tok s)) \<subseteq> origins s"
proof (rule origins_same_grants)
  show "(\<lambda>g. (og_username g, og_client g)) ` set (oa_grants (fst (verify_access mac dec now wr tok s)))
      \<subseteq> (\<lambda>g. (og_username g, og_client g)) ` set (oa_grants s)"
    using image_update[of "\<lambda>g. (og_username g, og_client g)" _ "oa_grants s"]
    by (simp add: verify_access_def Let_def save_oauth_def split: option.splits prod.splits)
qed (simp add: frame)

lemma origins_new_code:
  "origins (fst (new_code now rnd c s)) \<subseteq> origins s \<union> {(oo_username c, oo_client c)}"
proof (cases rnd)
  case (Some raw)
  have "ran (oa_codes (fst (new_code now rnd c s))) \<subseteq> ran (oa_codes s) \<union> {c\<lparr>oo_expires := now + oauth_code_ttl\<rparr>}"
    by (auto simp: new_code_def Some ran_def split: option.splits if_splits)
  then have "(\<lambda>c. (oo_username c, oo_client c)) ` ran (oa_codes (fst (new_code now rnd c s)))
      \<subseteq> (\<lambda>c. (oo_username c, oo_client c)) ` ran (oa_codes s) \<union> {(oo_username c, oo_client c)}"
    by (auto dest: subsetD)
  then show ?thesis by (auto simp: origins_def frame)
qed (auto simp: new_code_def)

lemma origins_refresh: "origins (fst (refresh_grant H sign now wr rnd tok cid s)) \<subseteq> origins s"
proof (rule origins_same_grants)
  show "(\<lambda>g. (og_username g, og_client g)) ` set (oa_grants (fst (refresh_grant H sign now wr rnd tok cid s)))
      \<subseteq> (\<lambda>g. (og_username g, og_client g)) ` set (oa_grants s)"
    using image_update[of "\<lambda>g. (og_username g, og_client g)" _ "oa_grants s"] set_remove_nth[of _ "oa_grants s"]
    by (simp add: refresh_grant_def Let_def save_oauth_def image_mono split: option.splits)
qed (simp add: frame)

lemma refresh_answer_origin:
  assumes "refresh_grant H sign now wr rnd tok cid s = (s', Inr (g, acc, ref))"
  shows "(og_username g, og_client g) \<in> origins s"
proof -
  define h where "h = H tok"
  obtain i where i: "index_of (\<lambda>g. og_prev_refresh g \<noteq> [] \<and> og_prev_refresh g = h \<or> og_refresh g = h) (oa_grants s) = Some i"
    using assms by (cases "index_of (\<lambda>g. og_prev_refresh g \<noteq> [] \<and> og_prev_refresh g = h \<or> og_refresh g = h) (oa_grants s)")
      (simp_all add: refresh_grant_def Let_def h_def)
  have "og_username g = og_username (oa_grants s ! i)" "og_client g = og_client (oa_grants s ! i)"
    using assms i by (auto simp: refresh_grant_def Let_def h_def[symmetric] save_oauth_def split: option.splits if_splits)
  moreover have "oa_grants s ! i \<in> set (oa_grants s)" using index_of_Some[OF i] by simp
  ultimately show ?thesis by (auto simp: origins_def)
qed

lemma exchange_origins:
  assumes "exchange_code H pkce sign now wr ri rr code cid red ver s = (s', res)"
  shows "origins s' \<subseteq> origins s \<and> (\<forall>g acc ref. res = Inr (g, acc, ref) \<longrightarrow> (og_username g, og_client g) \<in> origins s)"
proof (cases "oa_codes s code")
  case None
  then have "s' = s\<lparr>oa_codes := (oa_codes s)(code := None)\<rparr>" "res = Inl InvalidGrant"
    using assms by (auto simp: exchange_code_def Let_def)
  then show ?thesis by (auto simp: origins_def ran_def split: if_splits)
next
  case (Some c)
  define s1 where "s1 = s\<lparr>oa_codes := (oa_codes s)(code := None)\<rparr>"
  have s1: "origins s1 \<subseteq> origins s" by (auto simp: s1_def origins_def ran_def split: if_splits)
  have c: "(oo_username c, oo_client c) \<in> origins s" using Some by (auto simp: origins_def ran_def)
  show ?thesis
  proof (cases "\<exists>g acc ref. res = Inr (g, acc, ref)")
    case True
    then obtain g acc ref where res: "res = Inr (g, acc, ref)" by blast
    have g: "oo_client c = cid" "og_username g = oo_username c" "og_client g = cid"
        "oa_grants s' = oa_grants s @ [g]" "oa_codes s' = oa_codes s1"
      using assms Some res
      by (auto simp: exchange_code_def Let_def s1_def save_oauth_def split: option.splits if_splits)
    then have "origins s' \<subseteq> origins s1 \<union> {(oo_username c, oo_client c)}"
      by (auto simp: origins_def s1_def)
    then show ?thesis using s1 c res g by auto
  next
    case False
    then have "oa_grants s' = oa_grants s" "oa_codes s' = oa_codes s1"
      using assms Some
      by (auto simp: exchange_code_def Let_def s1_def save_oauth_def split: option.splits if_splits)
    then have "origins s' = origins s1" by (simp add: origins_def s1_def)
    then show ?thesis using s1 False by auto
  qed
qed

subsection \<open>What the handlers leave alone\<close>

lemma session_oauth [frame]: "da_oauth (fst (request_session cr now r d)) = da_oauth d"
  by (simp add: request_session_def split: option.splits prod.splits)

lemma auth_with_oauth [frame]: "da_oauth (fst (auth_with cr now needed sc sec c r d)) = da_oauth d"
proof (cases c)
  case None
  obtain d1 who where s: "request_session cr now r d = (d1, who)" by (cases "request_session cr now r d")
  have "da_oauth d1 = da_oauth d" using session_oauth[of cr now r d] s by simp
  then show ?thesis by (cases who) (simp_all add: auth_with_def None s split: prod.splits)
qed (simp add: auth_with_def)

lemma then_check_fst: "fst (then_check ok res) = fst res"
  by (cases res; cases "snd res") (simp_all add: then_check_def)

lemma oauth_user_oauth [frame]: "da_oauth (fst (oauth_user g d)) = da_oauth d"
  by (simp add: oauth_user_def split: option.splits prod.splits)

lemma session_info_oauth [frame]: "da_oauth (fst (session_info w now oidc label r d)) = da_oauth d"
  by (simp add: session_info_def prod.case_eq_if frame)

lemma login_oauth [frame]: "da_oauth (fst (handle_login w e body r d)) = da_oauth d"
proof (cases "da_users d")
  case (Some us)
  show ?thesis
  proof (cases body)
    case (Some b)
    obtain u p where b: "b = (u, p)" by (cases b)
    obtain d1 l where c: "check_login w e u p us d = (d1, l)" by (cases "check_login w e u p us d")
    have f: "da_oauth d1 = da_oauth d" by (rule check_login_frame(1)[OF c])
    have "start_session w e r v d1 = Some (d2, ck) \<Longrightarrow> da_oauth d2 = da_oauth d" for v d2 ck
      using start_session_frame(1)[of w e r v d1 d2 ck] f by simp
    then show ?thesis
      using f by (cases l) (auto simp: handle_login_def \<open>da_users d = Some us\<close> Some b c split: option.splits)
  qed (simp add: handle_login_def Some)
qed (simp add: handle_login_def)

lemma oauth_login_oauth [frame]: "da_oauth (fst (handle_oauth_login w e label r d)) = da_oauth d"
proof (cases "rq_form r")
  case (Some f)
  show ?thesis
  proof (cases "safe_next (ow_parse w) (f ''next'') \<and> da_users d \<noteq> None")
    case True
    then obtain us where us: "da_users d = Some us" "safe_next (ow_parse w) (f ''next'')" by blast
    obtain d1 l where c: "check_login w e (f ''username'') (f ''password'') us d = (d1, l)"
      by (cases "check_login w e (f ''username'') (f ''password'') us d")
    have fr: "da_oauth d1 = da_oauth d" by (rule check_login_frame(1)[OF c])
    have "start_session w e r v d1 = Some (d2, ck) \<Longrightarrow> da_oauth d2 = da_oauth d" for v d2 ck
      using start_session_frame(1)[of w e r v d1 d2 ck] fr by simp
    then show ?thesis
      using fr by (cases l) (auto simp: handle_oauth_login_def Let_def us Some c split: option.splits)
  qed (auto simp: handle_oauth_login_def Let_def Some split: option.splits bool.splits)
qed (simp add: handle_oauth_login_def)

lemma oidc_callback_oauth [frame]: "da_oauth (fst (handle_oidc_callback w e oe o' r d)) = da_oauth d"
proof -
  have "start_session w e r v d1 = Some (d2, ck) \<Longrightarrow> da_oauth d2 = da_oauth d1" for v d1 d2 ck
    using start_session_frame(1)[of w e r v d1 d2 ck] by simp
  note st = this[of _ "d\<lparr>da_users := _\<rparr>"]
  show ?thesis
    unfolding handle_oidc_callback_def Let_def
    by (auto dest: st split: option.split sum.split prod.split user_error.split)
qed

lemma authorize_oauth [frame]: "da_oauth (fst (handle_oauth_authorize w e label r d)) = da_oauth d"
  using session_oauth[of "crypto.truncate w" "we_now e" r d]
  by (auto simp: handle_oauth_authorize_def Let_def split: option.splits sum.splits prod.splits)

lemma on_users_oauth [frame]: "da_oauth (fst (on_users d f)) = da_oauth d"
  by (simp add: on_users_def split: option.splits prod.splits)

lemma user_handlers_oauth [frame]:
  "da_oauth (fst (handle_user_create w e salt body d)) = da_oauth d"
  "da_oauth (fst (handle_user_list d)) = da_oauth d"
  by (simp_all add: handle_user_create_def handle_user_list_def frame split: option.split prod.split)

lemma user_upsert_oauth [frame]: "da_oauth (fst (handle_user_upsert w e email ubody r d)) = da_oauth d"
  by (cases ubody) (simp_all add: handle_user_upsert_def Let_def session_user_def frame prod.case_eq_if)

lemma user_update_oauth [frame]: "da_oauth (fst (handle_user_update w e wrs un pbody r d)) = da_oauth d"
proof -
  have "da_oauth (fst (request_session (crypto.truncate w) (we_now e) r (d\<lparr>da_users := u\<rparr>))) = da_oauth d" for u
    by (simp add: frame)
  then have s: "session_user w e r (d\<lparr>da_users := u\<rparr>) = (d1, self) \<Longrightarrow> da_oauth d1 = da_oauth d" for u d1 self
    by (metis fst_conv session_user_def)
  show ?thesis
    unfolding handle_user_update_def Let_def
    by (auto simp: frame dest: s split: option.split prod.split sum.split)
qed

lemma token_handlers_oauth [frame]:
  "da_oauth (fst (handle_token_list d)) = da_oauth d"
  "da_oauth (fst (handle_token_create w e rnd tbody d)) = da_oauth d"
  "da_oauth (fst (handle_token_revoke e i d)) = da_oauth d"
  by (simp_all add: handle_token_list_def handle_token_create_def handle_token_revoke_def split: option.split prod.split sum.split)

subsection \<open>Tracing access to consents\<close>

lemma access_of_same: "da_oauth d' = da_oauth d \<Longrightarrow> access_of d' = access_of d"
  by (simp add: access_of_def)

lemma access_of_set: "da_oauth d = Some oa \<Longrightarrow> origins oa' \<subseteq> origins oa \<union> A \<Longrightarrow> da_oauth d' = Some oa' \<Longrightarrow> access_of d' \<subseteq> access_of d \<union> A"
  by (simp add: access_of_def)

lemma register_access: "access_of (fst (handle_oauth_register w e body d)) \<subseteq> access_of d"
proof (cases "body = None \<or> da_oauth d = None")
  case False
  then obtain n rs oa where b: "body = Some (n, rs)" "da_oauth d = Some oa" by (cases body; cases "da_oauth d") auto
  then show ?thesis
    using origins_register[of "ow_parse w" "we_now e" "we_oauth_wr e" "we_rnd e" n rs oa]
    by (simp add: handle_oauth_register_def access_of_def prod.case_eq_if)
qed (auto simp: handle_oauth_register_def split: option.splits prod.splits)

lemma consent_access:
  "access_of (fst (handle_oauth_consent w e r d)) \<subseteq> access_of d \<union> {x. consents w e r d (fst x) (snd x)}"
proof (cases "rq_form r = None \<or> da_oauth d = None")
  case False
  then obtain f oa where f: "rq_form r = Some f" and oa: "da_oauth d = Some oa" by (cases "rq_form r"; cases "da_oauth d") auto
  define a where "a = read_authz f"
  obtain d1 who where s: "request_session (crypto.truncate w) (we_now e) r d = (d1, who)"
    by (cases "request_session (crypto.truncate w) (we_now e) r d")
  have d1: "da_oauth d1 = da_oauth d" using session_oauth[of "crypto.truncate w" "we_now e" r d] s by simp
  show ?thesis
  proof (cases "(\<exists>c. check_authz w r a oa = Inr c) \<and> (\<exists>u ro. who = Some (u, ro)
        \<and> valid_consent w (we_now e) (f ''consent'') u a) \<and> f ''decision'' = ''allow''")
    case True
    then obtain c u ro where c: "check_authz w r a oa = Inr c" "who = Some (u, ro)"
      "valid_consent w (we_now e) (f ''consent'') u a" "f ''decision'' = ''allow''" by blast
    have reg: "az_redirect a \<in> set (oc_redirects c)"
      using c(1) by (auto simp: check_authz_def Let_def split: option.splits if_splits)
    have con: "consents w e r d u (oc_id c)"
      using c reg by (simp add: consents_def f oa s a_def)
    define oc where "oc = consent_code w r a c u"
    have "da_oauth (fst (handle_oauth_consent w e r d)) = Some (fst (new_code (we_now e) (we_rnd e) oc oa))"
      using c by (simp add: handle_oauth_consent_def f oa a_def[symmetric] s Let_def oc_def[symmetric] prod.case_eq_if split: sum.split)
    moreover have "origins (fst (new_code (we_now e) (we_rnd e) oc oa)) \<subseteq> origins oa \<union> {(u, oc_id c)}"
      using origins_new_code[of "we_now e" "we_rnd e" oc oa] by (simp add: oc_def consent_code_def)
    ultimately show ?thesis using con by (auto simp: access_of_def oa)
  next
    case False
    then have "da_oauth (fst (handle_oauth_consent w e r d)) = da_oauth d"
      using d1 by (auto simp: handle_oauth_consent_def f oa a_def[symmetric] s Let_def split: sum.split option.split)
    then show ?thesis using access_of_same by blast
  qed
qed (auto simp: handle_oauth_consent_def split: option.splits)

text \<open>The token endpoint: no new access, and what it answers with was there before.\<close>

lemma token_request_origins:
  assumes "token_request w e f oa = Some (oa1, res)"
  shows "origins oa1 \<subseteq> origins oa \<and> (\<forall>g acc ref. res = Inr (g, acc, ref) \<longrightarrow> (og_username g, og_client g) \<in> origins oa)"
proof (cases "f ''grant_type'' = ''authorization_code''")
  case True
  then show ?thesis using assms exchange_origins by (auto simp: token_request_def Let_def)
next
  case False
  then have "refresh_grant (ow_hash w) (sign_access (ow_mac w) (ow_enc w) (we_now e)) (we_now e) (we_oauth_wr e) (we_rnd e)
      (f ''refresh_token'') (f ''client_id'') oa = (oa1, res)"
    using assms by (simp add: token_request_def Let_def split: if_splits)
  then show ?thesis using origins_refresh refresh_answer_origin by (metis fst_conv)
qed

lemma oauth_user_users: "snd (oauth_user g (d\<lparr>da_oauth := oa\<rparr>)) = snd (oauth_user g d)"
  by (simp add: oauth_user_def split: option.split prod.split)

lemma token_reply_access:
  assumes "token_reply e res oa1 d = (d', ans)"
  shows "access_of d' \<subseteq> origins oa1 \<and> (\<forall>g acc ref. ans = TokensFor g acc ref \<longrightarrow> res = Inr (g, acc, ref)
    \<and> snd (oauth_user g d) \<noteq> None)"
proof (cases res)
  case (Inl err)
  then have "da_oauth d' = Some oa1" "\<nexists>g acc ref. ans = TokensFor g acc ref"
    using assms by (cases err; auto simp: token_reply_def)+
  then show ?thesis by (simp add: access_of_def)
next
  case (Inr t)
  obtain g acc ref where t: "t = (g, acc, ref)" by (cases t)
  obtain d1 who where u: "oauth_user g (d\<lparr>da_oauth := Some oa1\<rparr>) = (d1, who)" by (cases "oauth_user g (d\<lparr>da_oauth := Some oa1\<rparr>)")
  have d1: "da_oauth d1 = Some oa1" using oauth_user_oauth[of g "d\<lparr>da_oauth := Some oa1\<rparr>"] u by simp
  show ?thesis
  proof (cases who)
    case None
    then have "da_oauth d' = Some (fst (revoke_grant (we_oauth_wr e) (og_id g) oa1))" "ans = OAuthErr 400 ''invalid_grant''"
      using assms Inr t u by (auto simp: token_reply_def)
    then show ?thesis using origins_revoke(1)[of "we_oauth_wr e" "og_id g" oa1] by (simp add: access_of_def)
  next
    case (Some x)
    then have "d' = d1" "ans = TokensFor g acc ref" using assms Inr t u by (auto simp: token_reply_def)
    moreover have "snd (oauth_user g d) = Some x" using oauth_user_users[of g "Some oa1" d] u Some by simp
    ultimately show ?thesis using d1 Inr t by (simp add: access_of_def)
  qed
qed

lemma token_access:
  assumes "handle_oauth_token w e r d = (d', ans)"
  shows "access_of d' \<subseteq> access_of d
    \<and> (\<forall>g acc ref. ans = TokensFor g acc ref \<longrightarrow> (og_username g, og_client g) \<in> access_of d
        \<and> snd (oauth_user g d) \<noteq> None)"
proof (cases "\<exists>f oa oa1 res. rq_form r = Some f \<and> da_oauth d = Some oa \<and> token_request w e f oa = Some (oa1, res) \<and> token_reply e res oa1 d = (d', ans)")
  case True
  then obtain f oa oa1 res where f: "da_oauth d = Some oa" "token_request w e f oa = Some (oa1, res)" "token_reply e res oa1 d = (d', ans)"
    by blast
  then show ?thesis
    using token_request_origins[OF f(2)] token_reply_access[OF f(3)] by (auto simp: access_of_def)
next
  case False
  then have "d' = d" "\<nexists>g acc ref. ans = TokensFor g acc ref"
    using assms by (auto simp: handle_oauth_token_def split: option.splits if_splits)
  then show ?thesis by simp
qed

lemma revoke_access: "access_of (fst (handle_oauth_revoke w e r d)) \<subseteq> access_of d"
proof (cases "rq_form r = None \<or> da_oauth d = None")
  case False
  then obtain f oa where f: "rq_form r = Some f" and oa: "da_oauth d = Some oa" by (cases "rq_form r"; cases "da_oauth d") auto
  obtain oa1 g where v: "verify_access (ow_mac w) (ow_dec w) (we_now e) (we_oauth_wr e) (f ''token'') oa = (oa1, g)"
    by (cases "verify_access (ow_mac w) (ow_dec w) (we_now e) (we_oauth_wr e) (f ''token'') oa")
  have "origins oa1 \<subseteq> origins oa"
    using origins_verify[of "ow_mac w" "ow_dec w" "we_now e" "we_oauth_wr e" "f ''token''" oa] v by simp
  then have "origins (fst (revoke_grant (we_oauth_wr e) i oa1)) \<subseteq> origins oa" for i
    using origins_revoke(1)[of "we_oauth_wr e" i oa1] by blast
  then show ?thesis
    using origins_revoke(2)[of "ow_hash w" "we_oauth_wr e" "f ''token''" oa] \<open>origins oa1 \<subseteq> origins oa\<close>
    by (simp add: handle_oauth_revoke_def f oa Let_def v access_of_def split: option.split)
qed (auto simp: handle_oauth_revoke_def split: option.splits)

lemma grant_revoke_access: "access_of (fst (handle_oauth_grant_revoke e i d)) \<subseteq> access_of d"
proof (cases "da_oauth d")
  case (Some oa)
  obtain oa1 found err where v: "revoke_grant (we_oauth_wr e) i oa = (oa1, found, err)" by (metis prod_cases3)
  then have "origins oa1 \<subseteq> origins oa" using origins_revoke(1)[of "we_oauth_wr e" i oa] by simp
  then show ?thesis
    by (cases found; cases err) (simp_all add: handle_oauth_grant_revoke_def Some v access_of_def)
qed (simp add: handle_oauth_grant_revoke_def)

lemma mcp_gate_access: "access_of (fst (mcp_gate cr now wr r d)) \<subseteq> access_of d"
proof (cases "foreign_origin (ow_parse cr) r \<or> bearer r = [] \<or> \<not> prefix oauth_access_prefix (bearer r) \<or> da_oauth d = None")
  case False
  then obtain oa where oa: "da_oauth d = Some oa" by auto
  obtain oa1 g where v: "verify_access (ow_mac cr) (ow_dec cr) now wr (bearer r) oa = (oa1, g)"
    by (cases "verify_access (ow_mac cr) (ow_dec cr) now wr (bearer r) oa")
  have sub: "origins oa1 \<subseteq> origins oa"
    using origins_verify[of "ow_mac cr" "ow_dec cr" now wr "bearer r" oa] v by simp
  have "da_oauth (fst (mcp_gate cr now wr r d)) = Some oa1"
  proof (cases g)
    case (Some gr)
    obtain d1 who where u: "oauth_user gr (d\<lparr>da_oauth := Some oa1\<rparr>) = (d1, who)" by (cases "oauth_user gr (d\<lparr>da_oauth := Some oa1\<rparr>)")
    then have "da_oauth d1 = Some oa1" using oauth_user_oauth[of gr "d\<lparr>da_oauth := Some oa1\<rparr>"] by simp
    then show ?thesis using False u by (cases who) (auto simp: mcp_gate_def Let_def oa v Some)
  qed (use False in \<open>simp add: mcp_gate_def Let_def oa v\<close>)
  then show ?thesis using sub by (simp add: access_of_def oa)
next
  case True
  have "da_oauth (fst (mcp_gate cr now wr r d)) = da_oauth d"
    using True by (auto simp: mcp_gate_def Let_def frame split: option.split prod.split bool.split)
  then show ?thesis using access_of_same by blast
qed

lemma events_oauth [frame]: "da_oauth (fst (events_gate cr now r d)) = da_oauth d"
  by (auto simp: events_gate_def event_caller_by_token_def frame split: prod.split option.split) (metis fst_conv session_oauth)+

lemma pass_gate_access: "access_of (fst (pass_gate cr now wr g c r d)) \<subseteq> access_of d"
  using mcp_gate_access[of cr now wr r d] access_of_same[OF auth_with_oauth] access_of_same[OF events_oauth]
  by (cases g) (simp_all add: pass_gate_def auth_secret_sync_def auth_migrate_def then_check_fst)

text \<open>An operation of the web side brings a person's access into being only by that person's consent.\<close>

definition gives :: "web \<Rightarrow> web_event \<Rightarrow> daemon \<Rightarrow> string \<times> string \<Rightarrow> bool" where
  "gives w ev d x \<longleftrightarrow> (case ev of WConsent e r \<Rightarrow> consents w e r d (fst x) (snd x) | _ \<Rightarrow> False)"

interpretation web: provenance access_of "web_step w" "gives w"
proof (unfold_locales, goal_cases)
  case (1 x ev d)
  have same: "access_of d' \<subseteq> access_of d \<Longrightarrow> x \<in> access_of d' \<Longrightarrow> x \<in> access_of d" for d' by blast
  show ?case
  proof (cases ev)
    case (WConsent e r)
    then show ?thesis using 1 consent_access[of w e r d] by (auto simp: web_step_def gives_def)
  next
    case (WToken e r)
    then show ?thesis using 1 token_access[of w e r d] by (cases "handle_oauth_token w e r d") (auto simp: web_step_def)
  qed (use 1 same[OF register_access] same[OF revoke_access] same[OF grant_revoke_access] same[OF pass_gate_access]
       in \<open>auto simp: web_step_def access_of_def frame\<close>)
qed

subsection \<open>Properties\<close>

text \<open>C19: An agent acts for a person only because that person said so: in any run of the daemon's web side that
  starts without grants and codes, whenever the token endpoint hands out tokens, the person they act for
  consented earlier in the run, signed in with their own session, on a form bound to them and to that very
  request, for that client and to a redirect URI it registered; and the user store has them as an
  enabled user at this moment.\<close>
theorem tokens_need_consent:
  assumes "da_oauth d0 = Some oa0" "oa_grants oa0 = []" "oa_codes oa0 = Map.empty"
    and "handle_oauth_token w e r (run_ops (web_step w) evs d0) = (d', TokensFor g acc ref)"
  shows "(\<exists>before e' r' after. evs = before @ WConsent e' r' # after
      \<and> consents w e' r' (run_ops (web_step w) before d0) (og_username g) (og_client g))
    \<and> snd (oauth_user g (run_ops (web_step w) evs d0)) \<noteq> None"
proof -
  have "access_of d0 = {}" using assms(1-3) by (simp add: access_of_def origins_def)
  moreover have g: "(og_username g, og_client g) \<in> access_of (run_ops (web_step w) evs d0)"
    "snd (oauth_user g (run_ops (web_step w) evs d0)) \<noteq> None"
    using token_access[OF assms(4)] by simp_all
  ultimately obtain before ev after where ev: "evs = before @ ev # after"
    "gives w ev (run_ops (web_step w) before d0) (og_username g, og_client g)"
    using web.traced[of "(og_username g, og_client g)" w evs d0] by auto
  then obtain e' r' where "ev = WConsent e' r'"
    "consents w e' r' (run_ops (web_step w) before d0) (og_username g) (og_client g)"
    by (cases ev) (simp_all add: gives_def)
  then show ?thesis using ev(1) g(2) by blast
qed



definition demo_verifier :: string where "demo_verifier = replicate 43 CHR ''v''"

definition demo_authz :: "string \<Rightarrow> string" where
  "demo_authz k = (if k = ''client_id'' then ''nopc_1'' else if k = ''redirect_uri'' then ''https://a'' else if k = ''response_type'' then ''code''
     else if k = ''code_challenge'' then rev demo_verifier else if k = ''code_challenge_method'' then ''S256'' else [])"

definition demo_consent :: request where
  "demo_consent = (snd demo_admin)\<lparr>rq_form := Some (\<lambda>k. if k = ''decision'' then ''allow''
     else if k = ''consent'' then consent_token demo_web ''ann'' (read_authz demo_authz) 0 else demo_authz k)\<rparr>"

definition demo_token_request :: request where
  "demo_token_request = (demo_request [] None)\<lparr>rq_form := Some (\<lambda>k. if k = ''grant_type'' then ''authorization_code'' else if k = ''code'' then ''r1''
     else if k = ''code_verifier'' then demo_verifier else demo_authz k)\<rparr>"

definition demo_store0 :: oauth_store where
  "demo_store0 = demo_oauth\<lparr>oa_grants := [], oa_codes := Map.empty\<rparr>"

definition demo_start :: daemon where
  "demo_start = (fst demo_admin)\<lparr>da_oauth := Some demo_store0\<rparr>"

definition demo_client :: oauth_client where "demo_client = hd (oa_clients demo_oauth)"

definition demo_store1 :: oauth_store where
  "demo_store1 = fst (new_code 1 (Some ''r1'') (consent_code demo_web demo_consent (read_authz demo_authz) demo_client ''ann'') demo_store0)"

lemma demo_session: "request_session (crypto.truncate demo_web) 1 demo_consent demo_start = (demo_start, Some (''ann'', RoleAdmin))"
proof -
  have "rq_cookie demo_consent session_cookie_name = Some demo_cookie" by (simp add: demo_consent_def demo_admin_def demo_request_def)
  from demo_cookie_session[OF this] show ?thesis
    by (simp add: request_session_def demo_start_def demo_admin_def current_session_def demo_web_crypto demo_user_live)
qed

lemma demo_valid: "valid_consent demo_web 1 (consent_token demo_web ''ann'' (read_authz demo_authz) 0) ''ann'' (read_authz demo_authz)"
  by code_simp

lemma demo_check: "check_authz demo_web demo_consent (read_authz demo_authz) demo_store0 = Inr demo_client"
  by code_simp

lemma demo_read: "read_authz (the (rq_form demo_consent)) = read_authz demo_authz"
  by (simp add: demo_consent_def read_authz_def)

lemma demo_form:
  "\<exists>f. rq_form demo_consent = Some f \<and> read_authz f = read_authz demo_authz \<and> f ''decision'' = ''allow''
     \<and> f ''consent'' = consent_token demo_web ''ann'' (read_authz demo_authz) 0"
  by (simp add: demo_consent_def read_authz_def)

lemma demo_env: "we_now demo_web_env = 1" "we_rnd demo_web_env = Some ''r1''"
  by (simp_all add: demo_web_env_def)

lemma demo_oauth_start: "da_oauth demo_start = Some demo_store0"
  by (simp add: demo_start_def)

lemma demo_consented: "web_step demo_web (WConsent demo_web_env demo_consent) demo_start = demo_start\<lparr>da_oauth := Some demo_store1\<rparr>"
proof -
  obtain f where f: "rq_form demo_consent = Some f" "read_authz f = read_authz demo_authz" "f ''decision'' = ''allow''"
     "f ''consent'' = consent_token demo_web ''ann'' (read_authz demo_authz) 0" using demo_form by blast
  obtain code where c: "new_code 1 (Some ''r1'') (consent_code demo_web demo_consent (read_authz demo_authz) demo_client ''ann'') demo_store0
      = (demo_store1, Inr code)" by (simp add: demo_store1_def new_code_def)
  show ?thesis
    unfolding web_step_def web_event.case handle_oauth_consent_def f option.case demo_oauth_start Let_def demo_check sum.case demo_env
      demo_session prod.case c by (simp add: demo_valid)
qed

lemma demo_token_ok: "\<exists>oa1 g acc ref. token_request demo_web demo_web_env (the (rq_form demo_token_request)) demo_store1 = Some (oa1, Inr (g, acc, ref))
    \<and> og_username g = ''ann''"
proof -
  have "case token_request demo_web demo_web_env (the (rq_form demo_token_request)) demo_store1 of
      Some (oa1, Inr (g, acc, ref)) \<Rightarrow> og_username g = ''ann'' | _ \<Rightarrow> False" by code_simp
  then obtain oa1 res where t: "token_request demo_web demo_web_env (the (rq_form demo_token_request)) demo_store1 = Some (oa1, res)"
    "case res of Inr (g, acc, ref) \<Rightarrow> og_username g = ''ann'' | _ \<Rightarrow> False"
    by (cases "token_request demo_web demo_web_env (the (rq_form demo_token_request)) demo_store1") auto
  then obtain g acc ref where "res = Inr (g, acc, ref)" "og_username g = ''ann''" by (cases res) auto
  then show ?thesis using t(1) by blast
qed

text \<open>A run: Ann consents, the client redeems the code.\<close>

theorem tokens_need_consent_witness:
  "\<exists>d' g acc ref. handle_oauth_token demo_web demo_web_env demo_token_request
        (run_ops (web_step demo_web) [WConsent demo_web_env demo_consent] demo_start) = (d', TokensFor g acc ref)
     \<and> og_username g = ''ann''
     \<and> (\<exists>before e' r' after. [WConsent demo_web_env demo_consent] = before @ WConsent e' r' # after
          \<and> consents demo_web e' r' (run_ops (web_step demo_web) before demo_start) (og_username g) (og_client g))"
proof -
  define f where "f = the (rq_form demo_token_request)"
  define d1 where "d1 = demo_start\<lparr>da_oauth := Some demo_store1\<rparr>"
  have run: "run_ops (web_step demo_web) [WConsent demo_web_env demo_consent] demo_start = d1"
    by (simp add: demo_consented d1_def)
  obtain oa1 g acc ref where t: "token_request demo_web demo_web_env f demo_store1 = Some (oa1, Inr (g, acc, ref))" "og_username g = ''ann''"
    using demo_token_ok unfolding f_def by blast
  have form: "rq_form demo_token_request = Some f" by (simp add: demo_token_request_def f_def)
  have client: "find_client (f ''client_id'') demo_store1 \<noteq> None" "f ''resource'' = []"
    unfolding f_def by code_simp+
  have us: "da_users d1 = Some demo_users" by (simp add: d1_def demo_start_def demo_admin_def)
  have ans: "handle_oauth_token demo_web demo_web_env demo_token_request d1 = token_reply demo_web_env (Inr (g, acc, ref)) oa1 d1"
    using client by (auto simp: handle_oauth_token_def form d1_def t(1))
  have "\<exists>d'. handle_oauth_token demo_web demo_web_env demo_token_request d1 = (d', TokensFor g acc ref)"
    unfolding ans using us by (simp add: token_reply_def oauth_user_def t(2) demo_user_live)
  then obtain d' where fin: "handle_oauth_token demo_web demo_web_env demo_token_request
      (run_ops (web_step demo_web) [WConsent demo_web_env demo_consent] demo_start) = (d', TokensFor g acc ref)"
    unfolding run by blast
  have "oa_grants demo_store0 = []" "oa_codes demo_store0 = Map.empty" by (simp_all add: demo_store0_def)
  from tokens_need_consent[OF demo_oauth_start this fin] fin t(2) show ?thesis by blast
qed

end
