(* ===== verification/Fleet_Config.thy ===== *)
theory Fleet_Config
  imports Labels
begin

text \<open>
  The configuration repository's manifests (\<open>pkg/config/config.go\<close>) after YAML has been decoded: their
  fields, defaults and checks. Hosts, networks and the mesh are in \<open>Fleet_Hosts\<close>.

  \<^item> A pointer field (\<open>*T\<close>) is an option; a Go map whose order does not matter to the result is a partial
    function, one that is ranged over with an early return a list in the order it is visited.
  \<^item> The yaml decoder and the reading of files are left out: an operation gets the decoded value.
\<close>

subsection \<open>DNS records\<close>

record dns_record =
  dr_zone :: string
  dr_type :: string
  dr_name :: string
  dr_value :: string
  dr_ttl :: int
  dr_priority :: int
  dr_service :: string

text \<open>The first record without a zone is the error.\<close>

fun records_by_zone :: "string \<Rightarrow> dns_record list \<Rightarrow> (string \<rightharpoonup> dns_record list) \<Rightarrow> dns_record + (string \<rightharpoonup> dns_record list)" where
  "records_by_zone domain [] out = Inr out"
| "records_by_zone domain (r # rs) out =
     (let z0 = trim_space (dr_zone r); z = (if z0 = [] then trim_space domain else z0) in
      if z = [] then Inl r
      else records_by_zone domain rs (out(z \<mapsto> (case out z of None \<Rightarrow> [] | Some l \<Rightarrow> l) @ [r])))"

definition dns_records_by_zone :: "string \<Rightarrow> dns_record list \<Rightarrow> dns_record + (string \<rightharpoonup> dns_record list)" where
  "dns_records_by_zone domain rs = records_by_zone domain rs Map.empty"

subsection \<open>Backups\<close>

record backup_config =
  bc_provider :: string
  bc_endpoint :: string
  bc_region :: string
  bc_bucket :: string
  bc_prefix :: string
  bc_path_style :: "bool option"
  bc_access_env :: string
  bc_secret_env :: string
  bc_volumes :: "string list"
  bc_daily :: int
  bc_monthly :: int
  bc_days :: int
  bc_keep_local :: bool
  bc_schedule :: string
  bc_host :: string

text \<open>\<open>^([01][0-9]|2[0-3]):([0-5][0-9])$\<close>, as minutes after midnight.\<close>

definition schedule_time :: "string \<Rightarrow> nat option" where
  "schedule_time s = (case s of
     [a, b, c, d, e] \<Rightarrow>
       if c = CHR '':'' \<and> ((a = CHR ''0'' \<or> a = CHR ''1'') \<and> is_digit b \<or> a = CHR ''2'' \<and> in_range CHR ''0'' CHR ''3'' b)
          \<and> in_range CHR ''0'' CHR ''5'' d \<and> is_digit e
       then Some (digits_val [a, b] * 60 + digits_val [d, e]) else None
   | _ \<Rightarrow> None)"

fun parse_times :: "string list \<Rightarrow> nat list \<Rightarrow> string + nat list" where
  "parse_times [] out = Inr out"
| "parse_times (p # ps) out =
     (case schedule_time (trim_space p) of
        None \<Rightarrow> Inl (trim_space p)
      | Some t \<Rightarrow> parse_times ps (if t \<in> set out then out else out @ [t]))"

definition schedule_times :: "backup_config \<Rightarrow> string + nat list" where
  "schedule_times b =
     (if trim_space (bc_schedule b) = [] then Inr []
      else case parse_times (split_on CHR '','' (bc_schedule b)) [] of Inl e \<Rightarrow> Inl e | Inr out \<Rightarrow> Inr (sort out))"

datatype config_error =
    BackupSchedule string | NegativeRetention | MissingCredentials | MissingEndpoint | MissingBucket | MissingRegion
  | SnapshotControl | SnapshotSchedule string | SnapshotExpiry string | SnapshotPattern string | VolumeSnapshots string config_error
  | EnvFromKey string | EnvFromSecret string string | EnvFromDup string
  | EnvFilePath string | ServiceUnit string | ServiceLabels label_error

definition validate_backup :: "backup_config \<Rightarrow> config_error option" where
  "validate_backup b =
     (case schedule_times b of
        Inl e \<Rightarrow> Some (BackupSchedule e)
      | Inr _ \<Rightarrow> if bc_daily b < 0 \<or> bc_monthly b < 0 \<or> bc_days b < 0 then Some NegativeRetention else None)"

definition backup_defaults :: "backup_config \<Rightarrow> backup_config" where
  "backup_defaults b =
     (let b1 = (if bc_provider b = [] then b\<lparr>bc_provider := ''s3''\<rparr> else b);
          b2 = (if bc_access_env b1 = [] then b1\<lparr>bc_access_env := ''BACKUP_S3_ACCESS_KEY''\<rparr> else b1)
      in if bc_secret_env b2 = [] then b2\<lparr>bc_secret_env := ''BACKUP_S3_SECRET_KEY''\<rparr> else b2)"

definition s3_path_style :: "backup_config \<Rightarrow> bool" where
  "s3_path_style b \<longleftrightarrow> (case bc_path_style b of None \<Rightarrow> True | Some p \<Rightarrow> p)"

definition credentials_from :: "(string \<Rightarrow> string) \<Rightarrow> backup_config \<Rightarrow> config_error + string \<times> string" where
  "credentials_from get b =
     (let b1 = backup_defaults b; access = get (bc_access_env b1); secret = get (bc_secret_env b1)
      in if access = [] \<or> secret = [] then Inl MissingCredentials else Inr (access, secret))"

definition validate_for_backup :: "backup_config \<Rightarrow> config_error option" where
  "validate_for_backup b =
     (if bc_endpoint b = [] then Some MissingEndpoint else if bc_bucket b = [] then Some MissingBucket
      else if bc_region b = [] then Some MissingRegion else None)"

subsection \<open>Snapshot policies\<close>

record snapshot_policy =
  sn_schedule :: string
  sn_expiry :: string
  sn_pattern :: string

definition snapshot_keys :: "string list" where
  "snapshot_keys = [''snapshots.schedule'', ''snapshots.expiry'', ''snapshots.pattern'']"

definition volume_config :: "snapshot_policy \<Rightarrow> string \<Rightarrow> string" where
  "volume_config p k =
     (if k = ''snapshots.schedule'' then trim_space (sn_schedule p)
      else if k = ''snapshots.expiry'' then trim_space (sn_expiry p)
      else if k = ''snapshots.pattern'' then trim_space (sn_pattern p) else [])"

definition snapshot_schedule_ok :: "string \<Rightarrow> bool" where \<comment> \<open>\<open>^[A-Za-z0-9@*/,\- ]{1,200}$\<close>\<close>
  "snapshot_schedule_ok v \<longleftrightarrow> 1 \<le> length v \<and> length v \<le> 200 \<and> list_all (\<lambda>c. is_alnum c \<or> c \<in> set ''@*/,- '') v"

definition expiry_unit :: "string \<Rightarrow> bool" where \<comment> \<open>\<open>[0-9]+[MHdwmy]\<close>\<close>
  "expiry_unit t \<longleftrightarrow> t \<noteq> [] \<and> butlast t \<noteq> [] \<and> list_all is_digit (butlast t) \<and> last t \<in> set ''MHdwmy''"

definition snapshot_expiry_ok :: "string \<Rightarrow> bool" where \<comment> \<open>units separated by one or more spaces\<close>
  "snapshot_expiry_ok v \<longleftrightarrow> (let ts = split_on CHR '' '' v in
     hd ts \<noteq> [] \<and> last ts \<noteq> [] \<and> list_all (\<lambda>t. t = [] \<or> expiry_unit t) ts)"

definition control_char :: "char \<Rightarrow> bool" where
  "control_char c \<longleftrightarrow> (of_char c :: nat) < 0x20 \<or> (of_char c :: nat) = 0x7F"

definition validate_policy :: "snapshot_policy \<Rightarrow> config_error option" where
  "validate_policy p =
     (let v = volume_config p in
      if list_ex control_char (sn_schedule p @ sn_expiry p @ sn_pattern p) then Some SnapshotControl
      else if v ''snapshots.schedule'' \<noteq> [] \<and> \<not> snapshot_schedule_ok (v ''snapshots.schedule'')
        then Some (SnapshotSchedule (v ''snapshots.schedule''))
      else if v ''snapshots.expiry'' \<noteq> [] \<and> \<not> snapshot_expiry_ok (v ''snapshots.expiry'')
        then Some (SnapshotExpiry (v ''snapshots.expiry''))
      else if v ''snapshots.pattern'' \<noteq> [] \<and> (length (v ''snapshots.pattern'') > 200 \<or> contains_any (v ''snapshots.pattern'') ''/'')
        then Some (SnapshotPattern (v ''snapshots.pattern''))
      else None)"

record volume_mount =
  vm_name :: string
  vm_path :: string
  vm_pool :: string
  vm_shifted :: bool
  vm_read_only :: bool
  vm_owner :: string
  vm_snapshots :: "snapshot_policy option"

fun validate_volume_snapshots :: "volume_mount list \<Rightarrow> config_error option" where
  "validate_volume_snapshots [] = None"
| "validate_volume_snapshots (v # vs) =
     (case vm_snapshots v of None \<Rightarrow> validate_volume_snapshots vs
      | Some p \<Rightarrow> (case validate_policy p of None \<Rightarrow> validate_volume_snapshots vs
                    | Some e \<Rightarrow> Some (VolumeSnapshots (vm_name v) e)))"

definition snapshot_policy_for :: "volume_mount \<Rightarrow> snapshot_policy option \<Rightarrow> snapshot_policy option" where
  "snapshot_policy_for v fleet_default = (case vm_snapshots v of None \<Rightarrow> fleet_default | Some p \<Rightarrow> Some p)"

subsection \<open>Port forwards\<close>

record port_forward =
  pf_name :: string
  pf_protocol :: string
  pf_listen :: string
  pf_target :: string

datatype forward_error = BadProtocol string | BadListen string | BadTarget string | BadForwardName string | BadAddress string string

text \<open>\<open>splitPort\<close>; None stands for its error.\<close>

definition split_port :: "string \<Rightarrow> string \<Rightarrow> (string \<times> string) option" where
  "split_port value default_addr =
     (let v = trim_space value in
      if v = [] then None
      else let (addr, port) = (case cut_last CHR '':'' v of
                 None \<Rightarrow> (default_addr, v)
               | Some (a, p) \<Rightarrow> (if trim_space a = [] then default_addr else trim_space a, trim_space p))
           in case atoi port of None \<Rightarrow> None
              | Some n \<Rightarrow> if n < 1 \<or> n > 65535 then None else Some (addr, port))"

definition forward_protocol :: "port_forward \<Rightarrow> string" where
  "forward_protocol f = (let p = to_lower (trim_space (pf_protocol f)) in if p = [] then ''tcp'' else p)"

definition device_name :: "port_forward \<Rightarrow> string" where
  "device_name f =
     (let s = trim_space (pf_name f) in
      if s \<noteq> [] then s
      else case split_port (pf_listen f) ''0.0.0.0'' of None \<Rightarrow> [] | Some (_, port) \<Rightarrow> forward_protocol f @ ''-'' @ port)"

text \<open>\<open>^[A-Za-z0-9][A-Za-z0-9._-]\{0,62\}$\<close>: device, unit and remote names.\<close>

definition plain_name :: "string \<Rightarrow> bool" where
  "plain_name s \<longleftrightarrow> (case s of [] \<Rightarrow> False
     | c # cs \<Rightarrow> is_alnum c \<and> length cs \<le> 62 \<and> list_all (\<lambda>c. is_alnum c \<or> c \<in> set ''._-'') cs)"

definition proxy_addr_ok :: "string \<Rightarrow> bool" where \<comment> \<open>\<open>^[A-Za-z0-9_.:\[\]-]+$\<close>\<close>
  "proxy_addr_ok s \<longleftrightarrow> s \<noteq> [] \<and> list_all (\<lambda>c. is_alnum c \<or> c \<in> set ''_.:[]-'') s"

definition device_props :: "port_forward \<Rightarrow> forward_error + smap" where
  "device_props f =
     (let name0 = trim_space (pf_name f); protocol = forward_protocol f in
      if protocol \<noteq> ''tcp'' \<and> protocol \<noteq> ''udp'' then Inl (BadProtocol (pf_protocol f))
      else case split_port (pf_listen f) ''0.0.0.0'' of
        None \<Rightarrow> Inl (BadListen (pf_listen f))
      | Some (host_addr, host_port) \<Rightarrow>
         (case split_port (pf_target f) ''127.0.0.1'' of
            None \<Rightarrow> Inl (BadTarget (pf_target f))
          | Some (inst_addr, inst_port) \<Rightarrow>
              (let name = (if name0 = [] then device_name f else name0) in
               if \<not> plain_name name then Inl (BadForwardName name)
               else if \<not> proxy_addr_ok host_addr \<or> \<not> proxy_addr_ok inst_addr then Inl (BadAddress host_addr inst_addr)
               else Inr [(''type'', ''proxy''), (''listen'', protocol @ '':'' @ host_addr @ '':'' @ host_port),
                         (''connect'', protocol @ '':'' @ inst_addr @ '':'' @ inst_port)])))"

subsection \<open>Services\<close>

definition env_key_ok :: "string \<Rightarrow> bool" where \<comment> \<open>\<open>^[A-Z_][A-Z0-9_]{0,127}$\<close>\<close>
  "env_key_ok s \<longleftrightarrow> (case s of [] \<Rightarrow> False
     | c # cs \<Rightarrow> (is_upper c \<or> c = CHR ''_'') \<and> length cs \<le> 127 \<and> list_all (\<lambda>c. is_upper c \<or> is_digit c \<or> c = CHR ''_'') cs)"

definition service_secret_prefix :: string where "service_secret_prefix = ''SERVICE_''"

definition service_secret_ok :: "string \<Rightarrow> bool" where \<comment> \<open>\<open>^SERVICE_[A-Z0-9_]{1,56}$\<close>\<close>
  "service_secret_ok s \<longleftrightarrow> prefix service_secret_prefix s \<and>
     (let t = drop (length service_secret_prefix) s in
      1 \<le> length t \<and> length t \<le> 56 \<and> list_all (\<lambda>c. is_upper c \<or> is_digit c \<or> c = CHR ''_'') t)"

fun validate_env_from :: "smap \<Rightarrow> smap \<Rightarrow> config_error option" where
  "validate_env_from env [] = None"
| "validate_env_from env ((key, name) # rest) =
     (if \<not> env_key_ok key then Some (EnvFromKey key)
      else if \<not> service_secret_ok name then Some (EnvFromSecret key name)
      else if map_of env key \<noteq> None then Some (EnvFromDup key)
      else validate_env_from env rest)"

record service_config =
  sv_name :: string
  sv_image :: string
  sv_build_dir :: string
  sv_profiles :: "string list"
  sv_volumes :: "volume_mount list"
  sv_env :: smap
  sv_env_file :: string
  sv_env_from :: smap
  sv_service :: string
  sv_limits :: smap
  sv_forwards :: "port_forward list"
  sv_labels :: "smap option"
  sv_host :: string

definition service_unit :: "service_config \<Rightarrow> string" where
  "service_unit s = (if sv_service s \<noteq> [] then sv_service s else sv_name s)"

text \<open>\<open>filepath.Clean\<close> of a relative path, on its components: the stack of what remains, innermost first.\<close>

definition clean_step :: "string \<Rightarrow> string list \<Rightarrow> string list" where
  "clean_step c out =
     (if c = [] \<or> c = ''.'' then out
      else if c = ''..'' then (case out of [] \<Rightarrow> [''..''] | x # xs \<Rightarrow> if x = ''..'' then ''..'' # out else xs)
      else c # out)"

definition clean_relative :: "string \<Rightarrow> string" where
  "clean_relative rel =
     (let out = rev (fold clean_step (split_on CHR ''/'' rel) []) in if out = [] then ''.'' else join_with ''/'' out)"

definition relative_inside :: "string \<Rightarrow> bool" where
  "relative_inside rel \<longleftrightarrow>
     (if rel = [] \<or> hd rel = CHR ''/'' \<or> CHR 0x00 \<in> set rel then False
      else let c = clean_relative rel in c \<noteq> ''..'' \<and> \<not> prefix ''../'' c)"

text \<open>The checks \<open>LoadServiceConfig\<close> makes of a decoded \<open>service.yml\<close>.\<close>

definition check_service :: "service_config \<Rightarrow> config_error option" where
  "check_service s =
     (if sv_env_file s \<noteq> [] \<and> \<not> relative_inside (sv_env_file s) then Some (EnvFilePath (sv_env_file s))
      else if sv_service s \<noteq> [] \<and> \<not> plain_name (sv_service s) then Some (ServiceUnit (sv_service s))
      else case validate_labels (case sv_labels s of None \<Rightarrow> [] | Some l \<Rightarrow> l) of
        Some e \<Rightarrow> Some (ServiceLabels e)
      | None \<Rightarrow> (case validate_env_from (sv_env s) (sv_env_from s) of
          Some e \<Rightarrow> Some e
        | None \<Rightarrow> validate_volume_snapshots (sv_volumes s)))"

subsection \<open>Facts\<close>

text \<open>Walking down a path one component at a time, \<open>d\<close> levels below the directory it starts in.\<close>

definition comp_depth :: "string \<Rightarrow> int" where
  "comp_depth c = (if c = [] \<or> c = ''.'' then 0 else if c = ''..'' then - 1 else 1)"

fun walk_stays :: "int \<Rightarrow> string list \<Rightarrow> bool" where
  "walk_stays d [] = True"
| "walk_stays d (c # cs) = (0 \<le> d + comp_depth c \<and> walk_stays (d + comp_depth c) cs)"

lemma clean_escaped:
  "out \<noteq> [] \<Longrightarrow> last out = ''..'' \<Longrightarrow> fold clean_step cs out \<noteq> [] \<and> last (fold clean_step cs out) = ''..''"
proof (induction cs arbitrary: out)
  case (Cons c cs)
  have "clean_step c out \<noteq> [] \<and> last (clean_step c out) = ''..''"
    using Cons.prems by (cases out) (auto simp: clean_step_def)
  then show ?case using Cons.IH[of "clean_step c out"] by simp
qed simp

lemma clean_walk:
  "''..'' \<notin> set out \<Longrightarrow> (if walk_stays (int (length out)) cs then ''..'' \<notin> set (fold clean_step cs out)
     else fold clean_step cs out \<noteq> [] \<and> last (fold clean_step cs out) = ''..'')"
proof (induction cs arbitrary: out)
  case (Cons c cs)
  show ?case
  proof (cases "c = ''..'' \<and> out = []")
    case True
    then have eq: "fold clean_step (c # cs) out = fold clean_step cs [''..'']" by (simp add: clean_step_def)
    have "\<not> walk_stays (int (length out)) (c # cs)" using True by (simp add: comp_depth_def)
    then show ?thesis unfolding eq using clean_escaped[of "[''..'']" cs] by (simp del: walk_stays.simps)
  next
    case False
    have no: "''..'' \<notin> set (clean_step c out)" using Cons.prems False by (cases out) (auto simp: clean_step_def)
    have len: "int (length (clean_step c out)) = int (length out) + comp_depth c"
      using Cons.prems False by (cases out) (auto simp: clean_step_def comp_depth_def)
    have "0 \<le> int (length out) + comp_depth c" using len by (metis of_nat_0_le_iff)
    then show ?thesis using Cons.IH[OF no] by (simp add: len)
  qed
qed simp

lemma clean_step_set: "x \<in> set (clean_step c out) \<Longrightarrow> x = c \<or> x = ''..'' \<or> x \<in> set out"
  by (cases out) (auto simp: clean_step_def split: if_splits dest: in_set_butlastD)

lemma clean_invariant: "P ''..'' \<Longrightarrow> list_all P cs \<Longrightarrow> list_all P out \<Longrightarrow> list_all P (fold clean_step cs out)"
proof (induction cs arbitrary: out)
  case (Cons c cs)
  have "list_all P (clean_step c out)" using Cons.prems clean_step_set[of _ c out] unfolding list_all_iff by (metis list.set_intros(1))
  then show ?case using Cons.IH[of "clean_step c out"] Cons.prems by simp
qed simp

lemma clean_no_slash:
  "\<forall>c \<in> set cs. CHR ''/'' \<notin> set c \<Longrightarrow> \<forall>c \<in> set out. CHR ''/'' \<notin> set c \<Longrightarrow> \<forall>c \<in> set (fold clean_step cs out). CHR ''/'' \<notin> set c"
  using clean_invariant[of "\<lambda>c. CHR ''/'' \<notin> set c" cs out] by (simp add: list_all_iff)

lemma joined_up:
  assumes "xs \<noteq> []" "\<forall>c \<in> set xs. CHR ''/'' \<notin> set c"
  shows "join_with ''/'' xs = ''..'' \<or> prefix ''../'' (join_with ''/'' xs) \<longleftrightarrow> hd xs = ''..''"
proof -
  obtain x ys where xs: "xs = x # ys" using assms(1) by (cases xs) auto
  have x: "CHR ''/'' \<notin> set x" using assms(2) xs by simp
  show ?thesis
  proof (cases ys)
    case Nil
    have "\<not> prefix ''../'' x" using x by (auto simp: prefix_def)
    then show ?thesis using xs Nil by simp
  next
    case (Cons y zs)
    have "prefix ''../'' (x @ CHR ''/'' # r) \<longleftrightarrow> x = ''..''" for r
    proof
      assume "prefix ''../'' (x @ CHR ''/'' # r)"
      then obtain t where "x @ CHR ''/'' # r = ''..'' @ CHR ''/'' # t" by (auto simp: prefix_def)
      then have "cut CHR ''/'' (x @ CHR ''/'' # r) = cut CHR ''/'' (''..'' @ CHR ''/'' # t)" by simp
      then show "x = ''..''" using x cut_append[of "CHR ''/''" "''..''" t] by simp
    qed simp
    moreover have "x @ CHR ''/'' # r \<noteq> ''..''" for r
    proof
      assume e: "x @ CHR ''/'' # r = ''..''"
      have "CHR ''/'' \<in> set (x @ CHR ''/'' # r)" by simp
      then show False unfolding e by simp
    qed
    ultimately show ?thesis using xs Cons by simp
  qed
qed

text \<open>The schedule: sorted, without duplicates, exactly the times written, all within a day.\<close>

lemma digit_val_le: "is_digit c \<Longrightarrow> digit_val c \<le> 9"
  by (simp add: is_digit_def in_range_def digit_val_def le_diff_conv)

lemma schedule_time_bound: "schedule_time s = Some t \<Longrightarrow> t < 1440"
proof -
  assume t: "schedule_time s = Some t"
  then obtain a b c d e where s: "s = [a, b, c, d, e]"
    by (auto simp: schedule_time_def split: list.splits)
  have t': "t = (10 * digit_val a + digit_val b) * 60 + (10 * digit_val d + digit_val e)"
    and h: "(a = CHR ''0'' \<or> a = CHR ''1'') \<and> is_digit b \<or> a = CHR ''2'' \<and> in_range CHR ''0'' CHR ''3'' b"
    and m: "in_range CHR ''0'' CHR ''5'' d" "is_digit e"
    using t unfolding s schedule_time_def by (auto simp: digits_val_def split: if_splits)
  have "digit_val d \<le> 5" using m(1) by (simp add: in_range_def digit_val_def le_diff_conv)
  moreover have "digit_val e \<le> 9" using m(2) by (rule digit_val_le)
  moreover have "10 * digit_val a + digit_val b \<le> 23"
    using h digit_val_le[of b] by (auto simp: in_range_def digit_val_def le_diff_conv)
  ultimately show ?thesis unfolding t' by (simp add: algebra_simps)
qed

lemma parse_times_set:
  "parse_times ps out = Inr ts \<Longrightarrow> distinct out \<Longrightarrow>
     distinct ts \<and> set ts = set out \<union> {t. \<exists>p \<in> set ps. schedule_time (trim_space p) = Some t}
     \<and> (\<forall>p \<in> set ps. schedule_time (trim_space p) \<noteq> None)"
proof (induction ps arbitrary: out)
  case (Cons p ps)
  obtain t where t: "schedule_time (trim_space p) = Some t" using Cons.prems(1) by (cases "schedule_time (trim_space p)") simp_all
  let ?o = "if t \<in> set out then out else out @ [t]"
  have "distinct ts \<and> set ts = set ?o \<union> {t. \<exists>p \<in> set ps. schedule_time (trim_space p) = Some t}
     \<and> (\<forall>p \<in> set ps. schedule_time (trim_space p) \<noteq> None)"
    by (rule Cons.IH) (use Cons.prems t in simp_all)
  then show ?case using t by auto
qed auto

lemma schedule_times_ok:
  "schedule_times b = Inr ts \<Longrightarrow> sorted ts \<and> distinct ts \<and> (\<forall>t \<in> set ts. t < 1440)"
  by (auto simp: schedule_times_def split: if_splits sum.splits dest!: parse_times_set schedule_time_bound)

text \<open>A port may be written with a sign, which goes into the device as it is.\<close>

lemma forward_signed_port:
  "device_props \<lparr>pf_name = ''ssh'', pf_protocol = [], pf_listen = ''+22'', pf_target = ''22''\<rparr>
     = Inr [(''type'', ''proxy''), (''listen'', ''tcp:0.0.0.0:+22''), (''connect'', ''tcp:127.0.0.1:22'')]"
  by code_simp

subsection \<open>Properties\<close>

text \<open>A path from a manifest stays inside the configuration: \<open>RelativeInside\<close> accepts exactly the non-empty
  relative paths without a NUL whose walk, component by component, never steps above the directory it
  starts in, so an accepted path cannot name a file elsewhere and no harmless one is refused.\<close>
theorem relative_inside_stays:
  "relative_inside rel \<longleftrightarrow> rel \<noteq> [] \<and> hd rel \<noteq> CHR ''/'' \<and> CHR 0x00 \<notin> set rel \<and> walk_stays 0 (split_on CHR ''/'' rel)"
proof -
  define o' where "o' = fold clean_step (split_on CHR ''/'' rel) []"
  have ns: "\<forall>c \<in> set o'. CHR ''/'' \<notin> set c"
    unfolding o'_def by (rule clean_no_slash) (auto dest: split_on_no_sep)
  have w: "if walk_stays 0 (split_on CHR ''/'' rel) then ''..'' \<notin> set o' else o' \<noteq> [] \<and> last o' = ''..''"
    using clean_walk[of "[]" "split_on CHR ''/'' rel"] by (simp add: o'_def)
  have c: "clean_relative rel = (if o' = [] then ''.'' else join_with ''/'' (rev o'))"
    by (simp add: clean_relative_def o'_def Let_def)
  have "clean_relative rel = ''..'' \<or> prefix ''../'' (clean_relative rel) \<longleftrightarrow> \<not> walk_stays 0 (split_on CHR ''/'' rel)"
  proof (cases "o' = []")
    case True
    then show ?thesis using w c by (auto split: if_splits)
  next
    case False
    then have "clean_relative rel = ''..'' \<or> prefix ''../'' (clean_relative rel) \<longleftrightarrow> last o' = ''..''"
      using joined_up[of "rev o'"] ns c by (simp add: hd_rev)
    moreover have "last o' \<in> set o'" using False by simp
    ultimately show ?thesis using w by (auto split: if_splits)
  qed
  then show ?thesis by (auto simp: relative_inside_def Let_def)
qed

end
