(* ===== verification/Serve_Flags.thy ===== *)
theory Serve_Flags
  imports Go_Strings "HOL-Library.Word"
begin

text \<open>
  The daemon's own flags, set by a deploy (\<open>pkg/serveflags/serveflags.go\<close>): a set is staged, tried at the
  next starts, committed once it has served, and given up when it does not start.

  The state is the three files of the state directory. Outcomes of the file system are arguments: \<open>wr\<close> a
  write, \<open>mv\<close> a rename, \<open>rm\<close> a removal succeeds.
\<close>

subsection \<open>Command lines\<close>

text \<open>\<open>strings.Fields\<close>.\<close>

definition str_fields :: "string \<Rightarrow> string list" where
  "str_fields s = filter (\<lambda>p. p \<noteq> []) (split_on CHR '' '' (map (\<lambda>c. if is_space c then CHR '' '' else c) s))"

definition normalize_flags :: "string \<Rightarrow> string" where
  "normalize_flags s = join_with '' '' (str_fields s)"

definition is_dash :: "char \<Rightarrow> bool" where "is_dash c \<longleftrightarrow> c = CHR ''-''"

fun flag_value_from :: "string \<Rightarrow> string list \<Rightarrow> string option \<Rightarrow> string option" where
  "flag_value_from name [] found = found"
| "flag_value_from name (a # args) found =
     (let t = trim_left is_dash a in
      if \<not> prefix ''-'' a then flag_value_from name args found
      else if t = name \<and> args \<noteq> [] then flag_value_from name (tl args) (Some (hd args))
      else if prefix (name @ ''='') t then flag_value_from name args (Some (trim_prefix t (name @ ''='')))
      else flag_value_from name args found)"

definition flag_value :: "string list \<Rightarrow> string \<Rightarrow> string option" where
  "flag_value args name = flag_value_from name args None"

definition merge_flags :: "string list \<Rightarrow> string list \<Rightarrow> string \<Rightarrow> string list" where
  "merge_flags unit_args flags state_dir =
     (case flag_value unit_args ''addr'' of None \<Rightarrow> []
      | Some addr \<Rightarrow> if flag_value flags ''addr'' = None then [''--addr'', addr] else [])
     @ flags
     @ (case flag_value unit_args ''host-name'' of None \<Rightarrow> [] | Some h \<Rightarrow> [''--host-name'', h])
     @ [''--state-dir'', state_dir]"

subsection \<open>Files\<close>

datatype state_file = NoFile | Unreadable | Content string

record flag_files =
  ff_committed :: state_file
  ff_pending :: state_file
  ff_attempts :: state_file

definition max_attempts :: int where "max_attempts = 3"

record loaded =
  ld_managed :: bool
  ld_text :: string
  ld_args :: "string list"
  ld_pending :: bool
  ld_note :: bool \<comment> \<open>the note that the pending set did not start\<close>

definition unmanaged :: loaded where
  "unmanaged = \<lparr>ld_managed = False, ld_text = [], ld_args = [], ld_pending = False, ld_note = False\<rparr>"

text \<open>The value \<open>strconv.Atoi\<close> gives beside its error: 0 for what is no number, the nearest \<open>int\<close> for one that
  does not fit. Counting one up wraps around.\<close>

definition atoi_value :: "string \<Rightarrow> int" where
  "atoi_value s =
     (let neg = (s \<noteq> [] \<and> hd s = CHR ''-'');
          ds = (if s \<noteq> [] \<and> (hd s = CHR ''-'' \<or> hd s = CHR ''+'') then tl s else s);
          v = (if neg then - int (digits_val ds) else int (digits_val ds))
      in if ds = [] \<or> \<not> list_all is_digit ds then 0
         else if v < - (2 ^ 63) then - (2 ^ 63) else if v \<ge> 2 ^ 63 then 2 ^ 63 - 1 else v)"

definition int_succ :: "int \<Rightarrow> int" where "int_succ n = sint (word_of_int (n + 1) :: 64 word)"

definition committed_flags :: "flag_files \<Rightarrow> loaded option" where
  "committed_flags st = (case ff_committed st of
     NoFile \<Rightarrow> Some unmanaged
   | Unreadable \<Rightarrow> None
   | Content b \<Rightarrow> (let text = normalize_flags b in
       if text = [] then Some unmanaged
       else Some \<lparr>ld_managed = True, ld_text = text, ld_args = str_fields text, ld_pending = False, ld_note = False\<rparr>))"

definition remove_file :: "bool \<Rightarrow> state_file \<Rightarrow> state_file" where "remove_file rm f = (if rm then NoFile else f)"

text \<open>None is an error; the daemon then starts with the flags of its unit (\<open>serve.go\<close>).\<close>

definition load_flags :: "bool \<Rightarrow> bool \<Rightarrow> flag_files \<Rightarrow> flag_files \<times> loaded option" where
  "load_flags wr rm st = (case ff_pending st of
     Content b \<Rightarrow>
       (let n = int_succ (case ff_attempts st of Content a \<Rightarrow> atoi_value (trim_space a) | _ \<Rightarrow> 0) in
        if n > max_attempts
        then (st\<lparr>ff_pending := remove_file rm (ff_pending st), ff_attempts := remove_file rm (ff_attempts st)\<rparr>,
              map_option (\<lambda>l. l\<lparr>ld_note := True\<rparr>) (committed_flags st))
        else if \<not> wr then (st, None)
        else (st\<lparr>ff_attempts := Content (int_string n @ [CHR 0x0A])\<rparr>,
              let text = normalize_flags b in
              if text = [] then Some (unmanaged\<lparr>ld_pending := True\<rparr>)
              else Some \<lparr>ld_managed = True, ld_text = text, ld_args = str_fields text, ld_pending = True, ld_note = False\<rparr>))
   | Unreadable \<Rightarrow> (st, None)
   | NoFile \<Rightarrow> (st, committed_flags st))"

definition stage_flags :: "bool \<Rightarrow> bool \<Rightarrow> bool \<Rightarrow> string \<Rightarrow> flag_files \<Rightarrow> flag_files \<times> bool" where
  "stage_flags wr rm mv flags st =
     (if \<not> wr then (st, False)
      else let st1 = st\<lparr>ff_attempts := remove_file rm (ff_attempts st)\<rparr> in
        if mv then (st1\<lparr>ff_pending := Content (normalize_flags flags @ [CHR 0x0A])\<rparr>, True) else (st1, False))"

text \<open>\<open>Commit\<close> after its wait; \<open>cancelled\<close>: the daemon stops before.\<close>

definition commit_flags :: "bool \<Rightarrow> bool \<Rightarrow> bool \<Rightarrow> flag_files \<Rightarrow> flag_files" where
  "commit_flags cancelled mv rm st = (case ff_pending st of
     NoFile \<Rightarrow> st
   | Unreadable \<Rightarrow> st
   | Content b \<Rightarrow>
       if cancelled then st
       else if normalize_flags b = []
       then st\<lparr>ff_committed := remove_file rm (ff_committed st), ff_pending := remove_file rm (ff_pending st),
               ff_attempts := remove_file rm (ff_attempts st)\<rparr>
       else if mv then st\<lparr>ff_committed := Content b, ff_pending := NoFile, ff_attempts := remove_file rm (ff_attempts st)\<rparr>
       else st)"

subsection \<open>Facts\<close>

lemma split_on_snoc: "split_on sep (s @ sep # t) = split_on sep s @ split_on sep t"
proof (induction s)
  case (Cons c s)
  then show ?case by (cases "split_on sep s") (auto split: list.splits)
qed simp

lemma split_on_chars: "p \<in> set (split_on sep s) \<Longrightarrow> c \<in> set p \<Longrightarrow> c \<in> set s"
proof -
  have sub: "x \<in> set xs \<Longrightarrow> c \<in> set x \<Longrightarrow> c \<in> set (join_with [sep] xs)" for x xs
    by (induction "[sep]" xs rule: join_with.induct) auto
  assume "p \<in> set (split_on sep s)" "c \<in> set p"
  then have "c \<in> set (join_with [sep] (split_on sep s))" by (rule sub)
  then show ?thesis by (simp only: join_split)
qed

abbreviation blank :: "string \<Rightarrow> string" where
  "blank s \<equiv> map (\<lambda>c. if is_space c then CHR '' '' else c) s"

lemma str_fields_plain: "p \<in> set (str_fields s) \<Longrightarrow> p \<noteq> [] \<and> (\<forall>c \<in> set p. \<not> is_space c)"
proof -
  assume p: "p \<in> set (str_fields s)"
  then have n: "p \<noteq> []" and i: "p \<in> set (split_on CHR '' '' (blank s))" by (simp_all add: str_fields_def)
  have "\<not> is_space c" if c: "c \<in> set p" for c
  proof -
    have "c \<in> set (blank s)" "c \<noteq> CHR '' ''" using split_on_chars[OF i c] split_on_no_sep[OF i] c by auto
    then show ?thesis by (auto split: if_splits)
  qed
  then show ?thesis using n by blast
qed

lemma blank_id: "\<forall>c \<in> set s. is_space c \<longrightarrow> c = CHR '' '' \<Longrightarrow> blank s = s"
  by (induction s) auto

lemma join_chars: "c \<in> set (join_with sep xs) \<Longrightarrow> c \<in> set sep \<or> (\<exists>x \<in> set xs. c \<in> set x)"
  by (induction sep xs rule: join_with.induct) auto

lemma str_fields_normalized: "str_fields (normalize_flags s @ [CHR 0x0A]) = str_fields s"
proof -
  let ?ps = "str_fields s"
  have "blank (join_with '' '' ?ps) = join_with '' '' ?ps"
    by (rule blank_id) (use join_chars[of _ "'' ''" ?ps] str_fields_plain in fastforce)
  then have "blank (normalize_flags s @ [CHR 0x0A]) = join_with '' '' ?ps @ CHR '' '' # []"
    by (simp add: normalize_flags_def is_space_def)
  then have f: "str_fields (normalize_flags s @ [CHR 0x0A]) = filter (\<lambda>p. p \<noteq> []) (split_on CHR '' '' (join_with '' '' ?ps) @ [[]])"
    by (simp only: str_fields_def split_on_snoc split_on.simps)
  have sp: "is_space CHR '' ''" by (simp add: is_space_def)
  show ?thesis
  proof (cases "?ps = []")
    case False
    have "split_on CHR '' '' (join_with [CHR '' ''] ?ps) = ?ps"
      by (rule split_join[OF False]) (use str_fields_plain sp in blast)
    moreover have "filter (\<lambda>p. p \<noteq> []) ?ps = ?ps" using str_fields_plain by (intro filter_True) blast
    ultimately show ?thesis using f by simp
  qed (use f in simp)
qed

lemma normalize_staged: "normalize_flags (normalize_flags s @ [CHR 0x0A]) = normalize_flags s"
  by (simp add: normalize_flags_def[of "_ @ _"] str_fields_normalized) (simp add: normalize_flags_def)

lemma str_fields_normalize: "str_fields (normalize_flags s) = str_fields s"
proof -
  have "str_fields (x @ [CHR 0x0A]) = str_fields x" for x
    by (simp add: str_fields_def is_space_def split_on_snoc[of _ _ "[]", simplified])
  then show ?thesis using str_fields_normalized[of s] by metis
qed

text \<open>A set that ends in a flag \<open>name\<close> without its value would take the next argument for it.\<close>

fun dangling :: "string \<Rightarrow> string list \<Rightarrow> bool" where
  "dangling name [] = False"
| "dangling name (a # args) =
     (if prefix ''-'' a \<and> trim_left is_dash a = name
      then (case args of [] \<Rightarrow> True | _ # rest \<Rightarrow> dangling name rest) else dangling name args)"

lemma flag_value_append:
  "\<not> dangling name xs \<Longrightarrow> flag_value_from name (xs @ ys) found = flag_value_from name ys (flag_value_from name xs found)"
proof (induction name xs arbitrary: found rule: dangling.induct)
  case (2 name a args)
  then show ?case by (cases args) (auto simp: Let_def split: if_splits)
qed simp

lemma flag_value_pair:
  "t = name \<Longrightarrow> prefix ''-'' a \<Longrightarrow> trim_left is_dash a = t \<Longrightarrow> flag_value_from name [a, v] found = Some v"
  by simp

lemma flag_value_skip:
  assumes "prefix ''-'' a" "trim_left is_dash a \<noteq> name" "\<not> prefix (name @ ''='') (trim_left is_dash a)" "\<not> prefix ''-'' v"
  shows "flag_value_from name (a # v # rest) found = flag_value_from name rest found"
  using assms by (simp add: Let_def)

lemma start_counts: "int_succ 0 = 1" "int_succ 1 = 2" "int_succ 2 = 3" "int_succ 3 = 4"
  by code_simp+

lemma attempts_read:
  "atoi_value (trim_space (int_string 1 @ [CHR 0x0A])) = 1" "atoi_value (trim_space (int_string 2 @ [CHR 0x0A])) = 2"
  "atoi_value (trim_space (int_string 3 @ [CHR 0x0A])) = 3"
  by code_simp+

definition tried :: "string \<Rightarrow> bool \<Rightarrow> loaded" where
  "tried flags pending = \<lparr>ld_managed = normalize_flags flags \<noteq> [], ld_text = normalize_flags flags, ld_args = str_fields flags,
     ld_pending = pending, ld_note = False\<rparr>"

text \<open>The state after \<open>n\<close> starts that did not last.\<close>

definition starts :: "nat \<Rightarrow> flag_files \<Rightarrow> flag_files" where
  "starts n st = ((\<lambda>s. fst (load_flags True True s)) ^^ n) st"

lemma empty_set: "normalize_flags flags = [] \<Longrightarrow> str_fields flags = []"
proof -
  assume "normalize_flags flags = []"
  then have "str_fields [] = str_fields flags" using str_fields_normalize[of flags] by simp
  then show ?thesis by (simp add: str_fields_def[of "[]"])
qed

lemma load_pending:
  assumes "ff_pending s = Content (normalize_flags flags @ [CHR 0x0A])"
    and "int_succ (case ff_attempts s of Content a \<Rightarrow> atoi_value (trim_space a) | _ \<Rightarrow> 0) = n" "n \<le> 3"
  shows "load_flags True True s = (s\<lparr>ff_attempts := Content (int_string n @ [CHR 0x0A])\<rparr>, Some (tried flags True))"
  using assms empty_set[of flags]
  by (simp add: load_flags_def max_attempts_def Let_def normalize_staged tried_def str_fields_normalize unmanaged_def)

lemma starts_staged:
  assumes "st0 = fst (stage_flags True True True flags st)"
  shows "starts 0 st0 = st\<lparr>ff_attempts := NoFile, ff_pending := Content (normalize_flags flags @ [CHR 0x0A])\<rparr>"
    and "starts 1 st0 = st\<lparr>ff_attempts := Content (int_string 1 @ [CHR 0x0A]), ff_pending := Content (normalize_flags flags @ [CHR 0x0A])\<rparr>"
    and "starts 2 st0 = st\<lparr>ff_attempts := Content (int_string 2 @ [CHR 0x0A]), ff_pending := Content (normalize_flags flags @ [CHR 0x0A])\<rparr>"
    and "starts 3 st0 = st\<lparr>ff_attempts := Content (int_string 3 @ [CHR 0x0A]), ff_pending := Content (normalize_flags flags @ [CHR 0x0A])\<rparr>"
proof -
  show 0: "starts 0 st0 = st\<lparr>ff_attempts := NoFile, ff_pending := Content (normalize_flags flags @ [CHR 0x0A])\<rparr>"
    by (simp add: assms starts_def stage_flags_def remove_file_def Let_def)
  have suc: "starts (Suc n) s = fst (load_flags True True (starts n s))" for n s by (simp add: starts_def)
  show 1: "starts 1 st0 = st\<lparr>ff_attempts := Content (int_string 1 @ [CHR 0x0A]), ff_pending := Content (normalize_flags flags @ [CHR 0x0A])\<rparr>"
    using suc[of 0 st0] load_pending[of "starts 0 st0" flags 1] by (simp add: 0 start_counts)
  show 2: "starts 2 st0 = st\<lparr>ff_attempts := Content (int_string 2 @ [CHR 0x0A]), ff_pending := Content (normalize_flags flags @ [CHR 0x0A])\<rparr>"
    using suc[of 1 st0] load_pending[of "starts 1 st0" flags 2] by (simp add: 1[simplified] start_counts attempts_read numeral_2_eq_2[symmetric])
  show "starts 3 st0 = st\<lparr>ff_attempts := Content (int_string 3 @ [CHR 0x0A]), ff_pending := Content (normalize_flags flags @ [CHR 0x0A])\<rparr>"
    using suc[of 2 st0] load_pending[of "starts 2 st0" flags 3] by (simp add: 2 start_counts attempts_read numeral_3_eq_3[symmetric] numeral_2_eq_2[symmetric])
qed

subsection \<open>Properties\<close>

text \<open>C26: A flag set that does not start is given up after three starts, and one that served is kept: after a
  deploy staged a set, the next three starts run exactly that set as pending; the fourth runs the set the
  daemon had before and forgets the staged one, leaving the committed file untouched; and if any of the
  three starts lasts until \<open>Commit\<close>, every later start runs the new set, no longer pending.\<close>
theorem bad_flags_given_up:
  "list_all (\<lambda>n. snd (load_flags True True (starts n (fst (stage_flags True True True flags st)))) = Some (tried flags True)) [0, 1, 2]
    \<and> load_flags True True (starts 3 (fst (stage_flags True True True flags st)))
        = (st\<lparr>ff_pending := NoFile, ff_attempts := NoFile\<rparr>, map_option (\<lambda>l. l\<lparr>ld_note := True\<rparr>) (committed_flags st))
    \<and> list_all (\<lambda>n. snd (load_flags True True (commit_flags False True True (starts n (fst (stage_flags True True True flags st))))) = Some (tried flags False)) [1, 2, 3]"
proof -
  let ?s0 = "fst (stage_flags True True True flags st)"
  note s = starts_staged[of ?s0 flags st, OF refl]
  have 1: "snd (load_flags True True (starts 0 ?s0)) = Some (tried flags True)"
    using load_pending[of "starts 0 ?s0" flags 1] by (simp add: s(1) start_counts)
  have 2: "snd (load_flags True True (starts 1 ?s0)) = Some (tried flags True)"
    using load_pending[of "starts 1 ?s0" flags 2] by (simp add: s(2)[simplified] start_counts attempts_read)
  have 3: "snd (load_flags True True (starts 2 ?s0)) = Some (tried flags True)"
    using load_pending[of "starts 2 ?s0" flags 3] by (simp add: s(3) start_counts attempts_read)
  have 4: "load_flags True True (starts 3 ?s0)
      = (st\<lparr>ff_pending := NoFile, ff_attempts := NoFile\<rparr>, map_option (\<lambda>l. l\<lparr>ld_note := True\<rparr>) (committed_flags st))"
    by (simp add: s(4) load_flags_def attempts_read start_counts max_attempts_def remove_file_def committed_flags_def)
  have kept: "snd (load_flags True True (commit_flags False True True (st\<lparr>ff_attempts := a, ff_pending := Content (normalize_flags flags @ [CHR 0x0A])\<rparr>)))
      = Some (tried flags False)" for a
    using empty_set[of flags]
    by (simp add: commit_flags_def normalize_staged remove_file_def load_flags_def committed_flags_def Let_def tried_def
        str_fields_normalize unmanaged_def)
  show ?thesis
    using 1 2 3 4 kept by (simp add: s(2)[simplified] s(3,4))
qed

text \<open>A managed flag set changes neither where the state is nor which host the daemon is: on the command line
  \<open>Merge\<close> makes, \<open>--state-dir\<close> has the daemon's own value and \<open>--host-name\<close> the unit's, whatever the set
  says of them, as long as the set does not end in one of the two flags without a value and the unit's
  host name does not look like a flag.\<close>
theorem merge_keeps_state_dir:
  assumes "\<not> dangling ''state-dir'' flags" "\<not> dangling ''host-name'' flags" "flag_value unit ''host-name'' = Some h" "\<not> prefix ''-'' h"
    and "\<forall>addr. flag_value unit ''addr'' = Some addr \<longrightarrow> \<not> prefix ''-'' addr" "\<not> prefix ''-'' dir"
  shows "flag_value (merge_flags unit flags dir) ''state-dir'' = Some dir \<and> flag_value (merge_flags unit flags dir) ''host-name'' = Some h"
proof -
  define pre where "pre = (case flag_value unit ''addr'' of None \<Rightarrow> []
      | Some addr \<Rightarrow> if flag_value flags ''addr'' = None then [''--addr'', addr] else [])"
  have m: "merge_flags unit flags dir = pre @ flags @ [''--host-name'', h, ''--state-dir'', dir]"
    using assms(3) by (simp add: merge_flags_def pre_def)
  have t: "trim_left is_dash ''--addr'' = ''addr''" "trim_left is_dash ''--host-name'' = ''host-name''"
    "trim_left is_dash ''--state-dir'' = ''state-dir''"
    by (simp_all add: trim_left_def is_dash_def)
  have pre: "flag_value_from name (pre @ ys) found = flag_value_from name ys found"
    if "name = ''state-dir'' \<or> name = ''host-name''" for name ys found
    using that assms(5) by (auto simp: pre_def t Let_def split: option.splits)
  show ?thesis
    using assms(4,6)
    by (auto simp: m flag_value_def pre flag_value_append[OF assms(1)] flag_value_append[OF assms(2)] t Let_def)
qed

theorem merge_keeps_state_dir_witness:
  "let args = merge_flags [''--addr'', '':9000'', ''--host-name=a'', ''--state-dir'', ''/s''] [''--enable-apply'', ''--host-name'', ''b'', ''--state-dir=/t''] ''/s''
   in flag_value args ''state-dir'' = Some ''/s'' \<and> flag_value args ''host-name'' = Some ''a''"
proof -
  have "flag_value [''--addr'', '':9000'', ''--host-name=a'', ''--state-dir'', ''/s''] ''host-name'' = Some ''a''"
    "flag_value [''--addr'', '':9000'', ''--host-name=a'', ''--state-dir'', ''/s''] ''addr'' = Some '':9000''" by code_simp+
  then show ?thesis unfolding Let_def
    by (intro merge_keeps_state_dir) (simp_all add: trim_left_def is_dash_def)
qed

end
