(* ===== verification/Fleet_Hosts.thy ===== *)
theory Fleet_Hosts
  imports Fleet_Config Serve_Flags
begin

unbundle bit_operations_syntax

text \<open>
  The hosts of a fleet, their bridge subnets and the WireGuard mesh between them (\<open>pkg/config/hosts.go\<close>,
  \<open>network.go\<close>, \<open>mesh.go\<close>).

  \<^item> \<open>hosts:\<close> is an association list with distinct names, in any order (\<open>fleet_wf\<close>); the code ranges over it
    sorted by name.
  \<^item> An IPv4 address is a \<open>32 word\<close>, a prefix an address and its number of bits; the parts of
    \<open>net/netip\<close> the code uses are defined below. A text that is an IPv6 address or prefix gives None, as the
    code treats it like one that does not parse.
\<close>

type_synonym ip4 = "32 word"
type_synonym ip4_prefix = "32 word \<times> nat"

subsection \<open>Addresses\<close>

definition octet :: "string \<Rightarrow> nat option" where
  "octet s = (if s = [] \<or> length s > 3 \<or> \<not> list_all is_digit s \<or> (length s > 1 \<and> hd s = CHR ''0'') \<or> digits_val s > 255
     then None else Some (digits_val s))"

definition parse_ip4 :: "string \<Rightarrow> ip4 option" where
  "parse_ip4 s = (case map octet (split_on CHR ''.'' s) of
     [Some a, Some b, Some c, Some d] \<Rightarrow>
       Some (push_bit 24 (of_nat a) OR push_bit 16 (of_nat b) OR push_bit 8 (of_nat c) OR of_nat d)
   | _ \<Rightarrow> None)"

definition parse_prefix4 :: "string \<Rightarrow> ip4_prefix option" where
  "parse_prefix4 s = (case cut_last CHR ''/'' s of
     None \<Rightarrow> None
   | Some (a, b) \<Rightarrow>
       (case parse_ip4 a of None \<Rightarrow> None
        | Some ip \<Rightarrow>
            if b = [] \<or> \<not> list_all is_digit b \<or> (length b > 1 \<and> hd b = CHR ''0'') \<or> digits_val b > 32 then None
            else Some (ip, digits_val b)))"

definition net_mask :: "nat \<Rightarrow> ip4" where "net_mask n = push_bit (32 - n) (-1)"

definition masked :: "ip4_prefix \<Rightarrow> ip4_prefix" where "masked p = (fst p AND net_mask (snd p), snd p)"

definition prefix_contains :: "ip4_prefix \<Rightarrow> ip4 \<Rightarrow> bool" where
  "prefix_contains p a \<longleftrightarrow> (fst p XOR a) AND net_mask (snd p) = 0"

definition prefix_overlaps :: "ip4_prefix \<Rightarrow> ip4_prefix \<Rightarrow> bool" where
  "prefix_overlaps p q \<longleftrightarrow> (let n = min (snd p) (snd q) in fst p AND net_mask n = fst q AND net_mask n)"

definition next_ip :: "ip4 \<Rightarrow> ip4 option" where "next_ip a = (if a = - 1 then None else Some (a + 1))"

definition last_addr :: "ip4_prefix \<Rightarrow> ip4" where
  "last_addr p = fold (\<lambda>i b. b OR push_bit (31 - i) 1) [snd p..<32] (fst p)"

subsection \<open>The fleet\<close>

record network_config =
  nc_bridge :: string
  nc_cidr :: string

record host_mesh =
  hm_key :: string
  hm_address :: string
  hm_endpoint :: string

record host_config =
  hc_provider :: string
  hc_address :: string
  hc_remote :: string
  hc_network :: "network_config option"
  hc_mesh :: "host_mesh option"

record mesh_config =
  mc_enabled :: bool
  mc_interface :: string
  mc_port :: int
  mc_subnet :: string

record fleet =
  fl_domain :: string
  fl_network :: network_config
  fl_hosts :: "(string \<times> host_config) list"
  fl_default :: string
  fl_backup :: "backup_config option"
  fl_snapshots :: "snapshot_policy option"
  fl_flags :: "string option" \<comment> \<open>\<open>daemon.flags\<close>, with \<open>daemon:\<close> set\<close>
  fl_mesh :: "mesh_config option"

definition fleet_wf :: "fleet \<Rightarrow> bool" where "fleet_wf f \<longleftrightarrow> distinct (map fst (fl_hosts f))"

datatype fleet_error =
    DefaultHostUnknown string | NoDefaultHost nat | BadRemote string string | SharedRemote string string
  | FlagsHostName | ServiceHostUnknown string | NotThisHost string | HostNameRequired
  | BadBridgeName string | BadSubnet string | SubnetsOverlap string string
  | MeshInterface string | MeshPort int | MeshSubnet string | MeshNoHosts | MeshKey string | MeshAddress string
  | MeshUnusable string | MeshDuplicate string string | MeshOverlap string | MeshEndpoint string
  | FleetBackup config_error | FleetSnapshots config_error

definition host_names :: "fleet \<Rightarrow> string list" where "host_names f = sort (map fst (fl_hosts f))"

definition default_host_name :: "fleet \<Rightarrow> string" where
  "default_host_name f =
     (if fl_default f \<noteq> [] then fl_default f
      else case fl_hosts f of [(name, _)] \<Rightarrow> name | _ \<Rightarrow> [])"

definition host_of :: "fleet \<Rightarrow> service_config \<Rightarrow> string" where
  "host_of f s = (if sv_host s \<noteq> [] then sv_host s else default_host_name f)"

fun check_remotes :: "fleet \<Rightarrow> string list \<Rightarrow> (string \<rightharpoonup> string) \<Rightarrow> fleet_error option" where
  "check_remotes f [] seen = None"
| "check_remotes f (name # names) seen =
     (case map_of (fl_hosts f) name of None \<Rightarrow> check_remotes f names seen
      | Some h \<Rightarrow>
          (let r = hc_remote h in
           if r = [] then check_remotes f names seen
           else if \<not> plain_name r \<or> r = ''local'' then Some (BadRemote name r)
           else case seen r of Some other \<Rightarrow> Some (SharedRemote other name)
              | None \<Rightarrow> check_remotes f names (seen(r \<mapsto> name))))"

definition validate_hosts :: "fleet \<Rightarrow> fleet_error option" where
  "validate_hosts f =
     (let names = host_names f in
      if fl_default f \<noteq> [] \<and> map_of (fl_hosts f) (fl_default f) = None then Some (DefaultHostUnknown (fl_default f))
      else if length names \<ge> 2 \<and> fl_default f = [] then Some (NoDefaultHost (length names))
      else case check_remotes f names Map.empty of
        Some e \<Rightarrow> Some e
      | None \<Rightarrow>
         (case fl_flags f of None \<Rightarrow> None
          | Some flags \<Rightarrow>
             (case flag_value (str_fields flags) ''host-name'' of None \<Rightarrow> None
              | Some v \<Rightarrow> if length names \<ge> 2 \<or> (length names = 1 \<and> v \<noteq> hd names) \<or> length names = 0
                           then Some FlagsHostName else None)))"

definition validate_service_host :: "fleet \<Rightarrow> service_config \<Rightarrow> fleet_error option" where
  "validate_service_host f s =
     (if sv_host s = [] then None
      else if map_of (fl_hosts f) (sv_host s) = None then Some (ServiceHostUnknown (sv_host s)) else None)"

text \<open>Which host a daemon is, and whether its plans are only a share of the fleet.\<close>

definition daemon_host :: "fleet \<Rightarrow> string \<Rightarrow> fleet_error + string \<times> bool" where
  "daemon_host f host_name =
     (let names = host_names f in
      if length names = 0 then (if host_name \<noteq> [] then Inl (NotThisHost host_name) else Inr ([], False))
      else if length names = 1 then
        (if host_name \<noteq> [] \<and> host_name \<noteq> hd names then Inl (NotThisHost host_name) else Inr (hd names, False))
      else if host_name = [] then Inl HostNameRequired
      else if map_of (fl_hosts f) host_name = None then Inl (NotThisHost host_name)
      else Inr (host_name, True))"

text \<open>The services a daemon plans and applies: all of them, or its host's.\<close>

definition own_services :: "fleet \<Rightarrow> string \<times> bool \<Rightarrow> service_config list \<Rightarrow> service_config list" where
  "own_services f h svcs = (case h of (host, filtered) \<Rightarrow> if filtered then filter (\<lambda>s. host_of f s = host) svcs else svcs)"

subsection \<open>Bridge networks\<close>

definition bridge_name_ok :: "string \<Rightarrow> bool" where \<comment> \<open>\<open>^[A-Za-z0-9][A-Za-z0-9_-]{0,14}$\<close>\<close>
  "bridge_name_ok s \<longleftrightarrow> (case s of [] \<Rightarrow> False
     | c # cs \<Rightarrow> is_alnum c \<and> length cs \<le> 14 \<and> list_all (\<lambda>c. is_alnum c \<or> c = CHR ''_'' \<or> c = CHR ''-'') cs)"

definition host_network :: "fleet \<Rightarrow> string \<Rightarrow> network_config" where
  "host_network f host =
     (case map_of (fl_hosts f) host of
        Some h \<Rightarrow>
          (case hc_network h of None \<Rightarrow> fl_network f
           | Some o' \<Rightarrow>
               (let n1 = (if trim_space (nc_bridge o') \<noteq> [] then (fl_network f)\<lparr>nc_bridge := trim_space (nc_bridge o')\<rparr> else fl_network f)
                in if trim_space (nc_cidr o') \<noteq> [] then n1\<lparr>nc_cidr := trim_space (nc_cidr o')\<rparr> else n1))
      | None \<Rightarrow> fl_network f)"

definition local_network :: "fleet \<Rightarrow> string \<Rightarrow> network_config option" where
  "local_network f host_name =
     (if map_of (fl_hosts f) host_name \<noteq> None \<and> host_name \<noteq> [] then Some (host_network f host_name)
      else case fl_hosts f of [] \<Rightarrow> Some (fl_network f) | [(name, _)] \<Rightarrow> Some (host_network f name) | _ \<Rightarrow> None)"

definition subnet_of :: "network_config \<Rightarrow> ip4_prefix option" where
  "subnet_of n = (case parse_prefix4 (trim_space (nc_cidr n)) of
     None \<Rightarrow> None | Some p \<Rightarrow> if snd p > 30 then None else Some (masked p))"

definition bridge_address :: "network_config \<Rightarrow> ip4_prefix option" where
  "bridge_address n =
     (case subnet_of n of None \<Rightarrow> None
      | Some sub \<Rightarrow>
          (case parse_prefix4 (trim_space (nc_cidr n)) of None \<Rightarrow> None
           | Some p \<Rightarrow> if fst p = fst sub then map_option (\<lambda>a. (a, snd sub)) (next_ip (fst p)) else Some (fst p, snd sub)))"

definition bridge :: "network_config \<Rightarrow> fleet_error + string \<times> ip4_prefix" where
  "bridge n =
     (let name = trim_space (nc_bridge n) in
      if \<not> bridge_name_ok name then Inl (BadBridgeName (nc_bridge n))
      else case bridge_address n of None \<Rightarrow> Inl (BadSubnet (nc_cidr n)) | Some a \<Rightarrow> Inr (name, a))"

definition check_override :: "string \<Rightarrow> network_config option \<Rightarrow> fleet_error option" where
  "check_override name o' = (case o' of None \<Rightarrow> None
     | Some n \<Rightarrow>
         if trim_space (nc_bridge n) \<noteq> [] \<and> \<not> bridge_name_ok (trim_space (nc_bridge n)) then Some (BadBridgeName name)
         else if trim_space (nc_cidr n) \<noteq> [] \<and> subnet_of n = None then Some (BadSubnet name)
         else None)"

fun check_networks :: "fleet \<Rightarrow> string list \<Rightarrow> (string \<times> ip4_prefix) list \<Rightarrow> fleet_error option" where
  "check_networks f [] seen = None"
| "check_networks f (name # names) seen =
     (case check_override name (case map_of (fl_hosts f) name of None \<Rightarrow> None | Some h \<Rightarrow> hc_network h) of
        Some e \<Rightarrow> Some e
      | None \<Rightarrow>
         (case subnet_of (host_network f name) of
            None \<Rightarrow> check_networks f names seen
          | Some p \<Rightarrow>
              (case find (\<lambda>s. prefix_overlaps (snd s) p) seen of
                 Some s \<Rightarrow> Some (SubnetsOverlap (fst s) name)
               | None \<Rightarrow> check_networks f names (seen @ [(name, p)]))))"

definition validate_host_networks :: "fleet \<Rightarrow> fleet_error option" where
  "validate_host_networks f = check_networks f (host_names f) []"

subsection \<open>The mesh\<close>

record mesh_peer =
  mp_host :: string
  mp_key :: string
  mp_address :: ip4
  mp_endpoint :: string
  mp_bridge :: ip4_prefix

definition default_mesh_interface :: string where "default_mesh_interface = ''wg0''"
definition default_mesh_port :: int where "default_mesh_port = 51820"

definition mesh_iface_ok :: "string \<Rightarrow> bool" where \<comment> \<open>\<open>^[A-Za-z][A-Za-z0-9_-]{0,14}$\<close>\<close>
  "mesh_iface_ok s \<longleftrightarrow> (case s of [] \<Rightarrow> False
     | c # cs \<Rightarrow> (is_lower c \<or> is_upper c) \<and> length cs \<le> 14 \<and> list_all (\<lambda>c. is_alnum c \<or> c = CHR ''_'' \<or> c = CHR ''-'') cs)"

definition mesh_host_ok :: "string \<Rightarrow> bool" where \<comment> \<open>\<open>^[A-Za-z0-9]([A-Za-z0-9.-]{0,252}[A-Za-z0-9])?$\<close>\<close>
  "mesh_host_ok s \<longleftrightarrow> s \<noteq> [] \<and> length s \<le> 254 \<and> is_alnum (hd s) \<and> is_alnum (last s) \<and>
     list_all (\<lambda>c. is_alnum c \<or> c = CHR ''.'' \<or> c = CHR ''-'') s"

definition mesh_enabled :: "fleet \<Rightarrow> bool" where
  "mesh_enabled f \<longleftrightarrow> (case fl_mesh f of None \<Rightarrow> False | Some m \<Rightarrow> mc_enabled m)"

definition mesh_interface :: "mesh_config \<Rightarrow> string" where
  "mesh_interface m = (let s = trim_space (mc_interface m) in if s \<noteq> [] then s else default_mesh_interface)"

definition mesh_port :: "mesh_config \<Rightarrow> int" where
  "mesh_port m = (if mc_port m \<noteq> 0 then mc_port m else default_mesh_port)"

definition mesh_subnet :: "mesh_config \<Rightarrow> ip4_prefix option" where
  "mesh_subnet m = (case parse_prefix4 (trim_space (mc_subnet m)) of
     None \<Rightarrow> None | Some p \<Rightarrow> if snd p > 30 then None else Some (masked p))"

text \<open>32 bytes in base64: 43 characters and the padding.\<close>

definition valid_wireguard_key :: "string \<Rightarrow> bool" where
  "valid_wireguard_key s \<longleftrightarrow> length s = 44 \<and> last s = CHR ''='' \<and>
     list_all (\<lambda>c. is_alnum c \<or> c = CHR ''+'' \<or> c = CHR ''/'') (butlast s)"

text \<open>\<open>net.SplitHostPort\<close>; None is its error.\<close>

definition split_host_port :: "string \<Rightarrow> (string \<times> string) option" where
  "split_host_port s = (case cut_last CHR '':'' s of
     None \<Rightarrow> None
   | Some (h, p) \<Rightarrow>
       if s \<noteq> [] \<and> hd s = CHR ''['' then
         (case cut CHR '']'' s of None \<Rightarrow> None
          | Some (a, b) \<Rightarrow> if b \<noteq> CHR '':'' # p \<or> CHR ''['' \<in> set (tl s) \<or> CHR '']'' \<in> set b then None else Some (tl a, p))
       else if CHR '':'' \<in> set h \<or> CHR ''['' \<in> set s \<or> CHR '']'' \<in> set s then None
       else Some (h, p))"

definition join_host_port :: "string \<Rightarrow> string \<Rightarrow> string" where
  "join_host_port h p = (if CHR '':'' \<in> set h then ''['' @ h @ '']:'' @ p else h @ '':'' @ p)"

definition mesh_endpoint :: "string \<Rightarrow> string \<Rightarrow> string \<Rightarrow> int \<Rightarrow> fleet_error + string" where
  "mesh_endpoint name endpoint address port =
     (let e = trim_space endpoint in
      if e = [] then
        (let a = trim_space address in
         if a = [] \<or> a = ''auto'' then Inr []
         else if \<not> mesh_host_ok a then Inl (MeshEndpoint name)
         else Inr (join_host_port a (int_string port)))
      else
        (let (host, p) = (case split_host_port e of None \<Rightarrow> (e, int_string port) | Some hp \<Rightarrow> hp) in
         case atoi p of None \<Rightarrow> Inl (MeshEndpoint name)
         | Some n \<Rightarrow> if n < 1 \<or> n > 65535 \<or> \<not> mesh_host_ok host then Inl (MeshEndpoint name) else Inr (join_host_port host p)))"

text \<open>The address \<open>n\<close> steps after \<open>a\<close>; past the last one there is none.\<close>

fun nth_address :: "nat \<Rightarrow> ip4 \<Rightarrow> ip4 option" where
  "nth_address 0 a = Some a"
| "nth_address (Suc n) a = (case next_ip a of None \<Rightarrow> None | Some b \<Rightarrow> nth_address n b)"

definition tunnel_address :: "ip4_prefix \<Rightarrow> nat \<Rightarrow> string \<Rightarrow> host_mesh \<Rightarrow> fleet_error + ip4 option" where
  "tunnel_address subnet i name hm =
     (let s = trim_space (hm_address hm) in
      if s \<noteq> [] then (case parse_ip4 (trim_suffix s ''/32'') of None \<Rightarrow> Inl (MeshAddress name) | Some a \<Rightarrow> Inr (Some a))
      else Inr (nth_address (Suc i) (fst subnet)))"

definition peer_of :: "fleet \<Rightarrow> mesh_config \<Rightarrow> ip4_prefix \<Rightarrow> nat \<Rightarrow> string \<Rightarrow> (ip4 \<rightharpoonup> string) \<Rightarrow> fleet_error + mesh_peer" where
  "peer_of f m subnet i name used =
     (let h = map_of (fl_hosts f) name;
          hm = (case h of None \<Rightarrow> \<lparr>hm_key = [], hm_address = [], hm_endpoint = []\<rparr>
                | Some c \<Rightarrow> (case hc_mesh c of None \<Rightarrow> \<lparr>hm_key = [], hm_address = [], hm_endpoint = []\<rparr> | Some x \<Rightarrow> x));
          key = trim_space (hm_key hm)
      in if key \<noteq> [] \<and> \<not> valid_wireguard_key key then Inl (MeshKey name)
         else case tunnel_address subnet i name hm of
           Inl e \<Rightarrow> Inl e
         | Inr None \<Rightarrow> Inl (MeshUnusable name)
         | Inr (Some a) \<Rightarrow>
             if \<not> prefix_contains subnet a \<or> a = fst subnet \<or> a = last_addr subnet then Inl (MeshUnusable name)
             else case used a of Some other \<Rightarrow> Inl (MeshDuplicate other name)
             | None \<Rightarrow>
                (case subnet_of (host_network f name) of
                   None \<Rightarrow> Inl (BadSubnet name)
                 | Some b \<Rightarrow>
                     if prefix_overlaps b subnet then Inl (MeshOverlap name)
                     else case mesh_endpoint name (hm_endpoint hm) (case h of None \<Rightarrow> [] | Some c \<Rightarrow> hc_address c) (mesh_port m) of
                       Inl e \<Rightarrow> Inl e
                     | Inr ep \<Rightarrow> Inr \<lparr>mp_host = name, mp_key = key, mp_address = a, mp_endpoint = ep, mp_bridge = b\<rparr>))"

fun peers_from :: "fleet \<Rightarrow> mesh_config \<Rightarrow> ip4_prefix \<Rightarrow> nat \<Rightarrow> string list \<Rightarrow> (ip4 \<rightharpoonup> string) \<Rightarrow> fleet_error + mesh_peer list" where
  "peers_from f m subnet i [] used = Inr []"
| "peers_from f m subnet i (name # names) used =
     (case peer_of f m subnet i name used of
        Inl e \<Rightarrow> Inl e
      | Inr p \<Rightarrow> (case peers_from f m subnet (Suc i) names (used(mp_address p \<mapsto> name)) of
          Inl e \<Rightarrow> Inl e | Inr ps \<Rightarrow> Inr (p # ps)))"

definition mesh_peers :: "fleet \<Rightarrow> fleet_error + mesh_peer list" where
  "mesh_peers f =
     (case fl_mesh f of None \<Rightarrow> Inr []
      | Some m \<Rightarrow>
          if \<not> mesh_iface_ok (mesh_interface m) then Inl (MeshInterface (mc_interface m))
          else if mesh_port m < 1 \<or> mesh_port m > 65535 then Inl (MeshPort (mc_port m))
          else case mesh_subnet m of None \<Rightarrow> Inl (MeshSubnet (mc_subnet m))
          | Some subnet \<Rightarrow> if host_names f = [] then Inl MeshNoHosts else peers_from f m subnet 0 (host_names f) Map.empty)"

definition validate_mesh :: "fleet \<Rightarrow> fleet_error option" where
  "validate_mesh f = (if \<not> mesh_enabled f then None else case mesh_peers f of Inl e \<Rightarrow> Some e | Inr _ \<Rightarrow> None)"

definition mesh_missing :: "mesh_peer list \<Rightarrow> string list \<times> string list" where
  "mesh_missing ps = (map mp_host (filter (\<lambda>p. mp_key p = []) ps), map mp_host (filter (\<lambda>p. mp_endpoint p = []) ps))"

text \<open>\<open>LoadFleetConfig\<close> after decoding: the defaults, then the checks in the code's order.\<close>

definition default_network :: "network_config \<Rightarrow> network_config" where
  "default_network n =
     (let n1 = (if nc_bridge n = [] then n\<lparr>nc_bridge := ''incusbr0''\<rparr> else n)
      in if nc_cidr n1 = [] then n1\<lparr>nc_cidr := ''10.0.100.0/24''\<rparr> else n1)"

definition load_fleet :: "fleet \<Rightarrow> fleet_error + fleet" where
  "load_fleet f0 =
     (let f = f0\<lparr>fl_network := default_network (fl_network f0)\<rparr>;
          f2 = f\<lparr>fl_backup := map_option backup_defaults (fl_backup f)\<rparr>
      in case validate_host_networks f of
        Some e \<Rightarrow> Inl e
      | None \<Rightarrow>
         (case (case fl_backup f2 of None \<Rightarrow> None | Some b \<Rightarrow> validate_backup b) of
            Some e \<Rightarrow> Inl (FleetBackup e)
          | None \<Rightarrow>
             (case (case fl_snapshots f2 of None \<Rightarrow> None | Some p \<Rightarrow> validate_policy p) of
                Some e \<Rightarrow> Inl (FleetSnapshots e)
              | None \<Rightarrow>
                 (case validate_hosts f2 of Some e \<Rightarrow> Inl e
                  | None \<Rightarrow> (case validate_mesh f2 of Some e \<Rightarrow> Inl e | None \<Rightarrow> Inr f2)))))"

subsection \<open>Facts\<close>

lemma net_mask_bit: "bit (net_mask n) i \<longleftrightarrow> i < 32 \<and> 32 - n \<le> i"
  by (auto simp: net_mask_def bit_simps)

lemma net_mask_and: "m \<le> n \<Longrightarrow> net_mask n AND net_mask m = net_mask m"
  by (rule bit_word_eqI) (auto simp: bit_simps net_mask_bit)

lemma contains_iff: "prefix_contains p a \<longleftrightarrow> a AND net_mask (snd p) = fst p AND net_mask (snd p)"
proof -
  have "(x XOR y) AND m = 0 \<longleftrightarrow> y AND m = x AND m" for x y m :: ip4
    by (auto simp: bit_eq_iff bit_simps)
  then show ?thesis by (simp add: prefix_contains_def)
qed

lemma contains_both_overlap:
  assumes "prefix_contains p a" "prefix_contains q a"
  shows "prefix_overlaps p q"
proof -
  define n where "n = min (snd p) (snd q)"
  have m: "net_mask (snd p) AND net_mask n = net_mask n" "net_mask (snd q) AND net_mask n = net_mask n"
    by (simp_all add: net_mask_and n_def)
  have "x AND net_mask n = (x AND net_mask (snd p)) AND net_mask n" "x AND net_mask n = (x AND net_mask (snd q)) AND net_mask n" for x
    by (simp_all add: and.assoc m)
  then have "fst p AND net_mask n = fst q AND net_mask n"
    using assms by (metis contains_iff)
  then show ?thesis by (simp add: prefix_overlaps_def n_def Let_def)
qed

lemma peer_of_ok:
  assumes "peer_of f m subnet i name used = Inr p"
  shows "mp_host p = name \<and> used (mp_address p) = None \<and> prefix_contains subnet (mp_address p)
    \<and> mp_address p \<noteq> fst subnet \<and> mp_address p \<noteq> last_addr subnet
    \<and> subnet_of (host_network f name) = Some (mp_bridge p) \<and> \<not> prefix_overlaps (mp_bridge p) subnet"
proof -
  define h where "h = map_of (fl_hosts f) name"
  define hm where "hm = (case h of None \<Rightarrow> \<lparr>hm_key = [], hm_address = [], hm_endpoint = []\<rparr>
                | Some c \<Rightarrow> (case hc_mesh c of None \<Rightarrow> \<lparr>hm_key = [], hm_address = [], hm_endpoint = []\<rparr> | Some x \<Rightarrow> x))"
  note d = assms[unfolded peer_of_def Let_def, folded h_def, folded hm_def]
  obtain a where a: "tunnel_address subnet i name hm = Inr (Some a)"
    using d by (cases "tunnel_address subnet i name hm") (auto split: if_splits option.splits)
  have u: "prefix_contains subnet a" "a \<noteq> fst subnet" "a \<noteq> last_addr subnet" "used a = None"
    using d a by (auto split: if_splits option.splits)
  obtain b where b: "subnet_of (host_network f name) = Some b"
    using d a u by (cases "subnet_of (host_network f name)") (auto split: if_splits)
  have o': "\<not> prefix_overlaps b subnet" using d a u b by (auto split: if_splits)
  show ?thesis using d a u b o' by (auto split: if_splits sum.splits)
qed

lemma peers_from_ok:
  assumes "peers_from f m subnet i names used = Inr ps"
  shows "map mp_host ps = names \<and> distinct (map mp_address ps) \<and> (\<forall>p \<in> set ps. used (mp_address p) = None \<and>
    prefix_contains subnet (mp_address p) \<and> mp_address p \<noteq> fst subnet \<and> mp_address p \<noteq> last_addr subnet
    \<and> subnet_of (host_network f (mp_host p)) = Some (mp_bridge p) \<and> \<not> prefix_overlaps (mp_bridge p) subnet)"
  using assms
proof (induction names arbitrary: i used ps)
  case (Cons name names)
  obtain p where p: "peer_of f m subnet i name used = Inr p" using Cons.prems by (cases "peer_of f m subnet i name used") simp_all
  obtain qs where qs: "peers_from f m subnet (Suc i) names (used(mp_address p \<mapsto> name)) = Inr qs" "ps = p # qs"
    using Cons.prems p by (cases "peers_from f m subnet (Suc i) names (used(mp_address p \<mapsto> name))") simp_all
  note ih = Cons.IH[OF qs(1)]
  have "mp_address p \<notin> mp_address ` set qs" using ih by (auto split: if_splits)
  moreover have "used (mp_address q) = None" if "q \<in> set qs" for q using ih that by (auto split: if_splits)
  ultimately show ?case using peer_of_ok[OF p] ih by (simp add: qs(2))
qed simp

lemma check_networks_ok:
  assumes "check_networks f names seen = None" "x \<in> set names" "subnet_of (host_network f x) = Some p"
  shows "(\<forall>s \<in> set seen. \<not> prefix_overlaps (snd s) p) \<and>
    (\<forall>y q. y \<in> set names \<longrightarrow> y \<noteq> x \<longrightarrow> subnet_of (host_network f y) = Some q \<longrightarrow> \<not> prefix_overlaps p q \<or> \<not> prefix_overlaps q p)"
  using assms
proof (induction f names seen arbitrary: x p rule: check_networks.induct)
  case (2 f name names seen)
  have ov: "check_override name (case map_of (fl_hosts f) name of None \<Rightarrow> None | Some h \<Rightarrow> hc_network h) = None"
    using "2.prems"(1) by (simp split: option.splits)
  show ?case
  proof (cases "subnet_of (host_network f name)")
    case None
    have chk: "check_networks f names seen = None" using "2.prems"(1) ov None by simp
    have x: "x \<in> set names" using "2.prems"(2,3) None by auto
    show ?thesis using "2.IH"(1)[OF ov None chk x "2.prems"(3)] None by auto
  next
    case (Some p0)
    have nf: "find (\<lambda>s. prefix_overlaps (snd s) p0) seen = None"
      and chk: "check_networks f names (seen @ [(name, p0)]) = None"
      using "2.prems"(1) ov Some by (auto split: option.splits)
    have seen0: "\<forall>s \<in> set seen. \<not> prefix_overlaps (snd s) p0" using nf by (auto simp: find_None_iff)
    have ih: "(\<forall>s \<in> set (seen @ [(name, p0)]). \<not> prefix_overlaps (snd s) q) \<and>
      (\<forall>y r. y \<in> set names \<longrightarrow> y \<noteq> z \<longrightarrow> subnet_of (host_network f y) = Some r \<longrightarrow> \<not> prefix_overlaps q r \<or> \<not> prefix_overlaps r q)"
      if "z \<in> set names" "subnet_of (host_network f z) = Some q" for z q
      using "2.IH"(2)[OF ov Some nf chk that] .
    show ?thesis
    proof (cases "x = name")
      case True
      then have "p = p0" using "2.prems"(3) Some by simp
      then show ?thesis using seen0 ih True by (auto; metis)
    next
      case False
      then have x: "x \<in> set names" using "2.prems"(2) by simp
      show ?thesis using ih[OF x "2.prems"(3)] Some by auto
    qed
  qed
qed simp

lemma overlaps_sym: "prefix_overlaps p q \<longleftrightarrow> prefix_overlaps q p"
  by (auto simp: prefix_overlaps_def Let_def min.commute)

lemma mesh_peers_ok:
  assumes "mesh_peers f = Inr ps" "ps \<noteq> []"
  shows "\<exists>m subnet. fl_mesh f = Some m \<and> mesh_subnet m = Some subnet \<and> peers_from f m subnet 0 (host_names f) Map.empty = Inr ps"
  using assms by (auto simp: mesh_peers_def split: option.splits if_splits)

lemma set_host_names [simp]: "set (host_names f) = fst ` set (fl_hosts f)"
  by (simp add: host_names_def)

lemma length_host_names [simp]: "length (host_names f) = length (fl_hosts f)"
  by (simp add: host_names_def)

text \<open>The address the loop in \<open>lastAddr\<close> computes is the subnet's address with every host bit set.\<close>

lemma last_addr_bit: "bit (last_addr (a, n)) i \<longleftrightarrow> bit a i \<or> (i < 32 \<and> i < 32 - n)"
proof -
  have "bit (fold (\<lambda>i b. b OR push_bit (31 - i) 1) xs b) i \<longleftrightarrow> bit b i \<or> (\<exists>j \<in> set xs. i = 31 - j)"
    if "\<forall>j \<in> set xs. j < 32" for xs :: "nat list" and b :: ip4 and i
    using that by (induction xs arbitrary: b) (auto simp: bit_simps)
  then have "bit (last_addr (a, n)) i \<longleftrightarrow> bit a i \<or> (\<exists>j \<in> set [n..<32]. i = 31 - j)"
    by (simp add: last_addr_def)
  moreover have "(\<exists>j \<in> set [n..<32]. i = 31 - j) \<longleftrightarrow> i < 32 \<and> i < 32 - n"
  proof
    assume "i < 32 \<and> i < 32 - n"
    then have "31 - i \<in> set [n..<32]" "i = 31 - (31 - i)" by auto
    then show "\<exists>j \<in> set [n..<32]. i = 31 - j" by blast
  qed auto
  ultimately show ?thesis by simp
qed

lemma last_addr_broadcast: "last_addr (a, n) = a OR NOT (net_mask n)"
  by (rule bit_word_eqI) (auto simp: last_addr_bit bit_simps net_mask_bit)

subsection \<open>Properties\<close>

text \<open>C27: The mesh a checked fleet gives has no address twice: every host has its own tunnel address inside the
  mesh's range (neither its first nor its broadcast address, which is the range's address with all host
  bits set), no tunnel address lies in any host's bridge subnet, and no instance address lies in the
  bridge subnets of two hosts.\<close>
theorem mesh_addresses_sound:
  assumes "validate_host_networks f = None" "fl_mesh f = Some m" "mesh_subnet m = Some subnet" "mesh_peers f = Inr ps" "p \<in> set ps" "q \<in> set ps"
  shows "prefix_contains subnet (mp_address p) \<and> mp_address p \<noteq> fst subnet \<and> mp_address p \<noteq> fst subnet OR NOT (net_mask (snd subnet))
    \<and> \<not> prefix_contains (mp_bridge q) (mp_address p)
    \<and> (mp_host p = mp_host q \<or> mp_address p \<noteq> mp_address q \<and> \<not> (prefix_contains (mp_bridge p) a \<and> prefix_contains (mp_bridge q) a))"
proof -
  have "ps \<noteq> []" using assms(5) by auto
  then have pf: "peers_from f m subnet 0 (host_names f) Map.empty = Inr ps"
    using mesh_peers_ok[OF assms(4)] assms(2,3) by auto
  note ok = peers_from_ok[OF pf]
  have P: "prefix_contains subnet (mp_address p)" "mp_address p \<noteq> fst subnet" "mp_address p \<noteq> last_addr subnet"
    "subnet_of (host_network f (mp_host p)) = Some (mp_bridge p)" and Q: "subnet_of (host_network f (mp_host q)) = Some (mp_bridge q)"
    "\<not> prefix_overlaps (mp_bridge q) subnet"
    using ok assms(5,6) by blast+
  have hosts: "mp_host p \<in> set (host_names f)" "mp_host q \<in> set (host_names f)"
    using ok assms(5,6) by (metis image_eqI list.set_map)+
  have "\<not> prefix_contains (mp_bridge q) (mp_address p)"
    using contains_both_overlap[of "mp_bridge q" "mp_address p" subnet] P(1) Q(2) by blast
  moreover have "mp_address p \<noteq> mp_address q \<and> \<not> (prefix_contains (mp_bridge p) a \<and> prefix_contains (mp_bridge q) a)"
    if ne: "mp_host p \<noteq> mp_host q"
  proof
    have "inj_on mp_address (set ps)" using ok by (simp add: distinct_map)
    then show "mp_address p \<noteq> mp_address q" using assms(5,6) ne by (metis inj_onD)
    have "\<not> prefix_overlaps (mp_bridge p) (mp_bridge q)"
      using check_networks_ok[OF assms(1)[unfolded validate_host_networks_def] hosts(1) P(4)] hosts(2) Q(1) ne overlaps_sym by metis
    then show "\<not> (prefix_contains (mp_bridge p) a \<and> prefix_contains (mp_bridge q) a)"
      using contains_both_overlap by blast
  qed
  ultimately show ?thesis using P last_addr_broadcast[of "fst subnet" "snd subnet"] by auto
qed

definition demo_host :: "string \<Rightarrow> string \<Rightarrow> host_config" where
  "demo_host addr cidr = \<lparr>hc_provider = ''static'', hc_address = addr, hc_remote = [],
     hc_network = Some \<lparr>nc_bridge = [], nc_cidr = cidr\<rparr>, hc_mesh = None\<rparr>"

definition demo_fleet :: fleet where
  "demo_fleet = \<lparr>fl_domain = ''example.com'', fl_network = \<lparr>nc_bridge = ''incusbr0'', nc_cidr = ''10.0.100.0/24''\<rparr>,
     fl_hosts = [(''b'', demo_host ''192.0.2.2'' ''10.0.2.0/24''), (''a'', demo_host ''192.0.2.1'' ''10.0.1.0/24'')],
     fl_default = ''a'', fl_backup = None, fl_snapshots = None, fl_flags = None,
     fl_mesh = Some \<lparr>mc_enabled = True, mc_interface = [], mc_port = 9, mc_subnet = ''10.255.0.0/24''\<rparr>\<rparr>"

theorem mesh_addresses_sound_witness:
  "\<exists>p q. mesh_peers demo_fleet = Inr [p, q] \<and> mp_address p = 0x0AFF0001 \<and> mp_address q = 0x0AFF0002
     \<and> \<not> prefix_contains (mp_bridge q) (mp_address p) \<and> \<not> (prefix_contains (mp_bridge p) 0x0A000105 \<and> prefix_contains (mp_bridge q) 0x0A000105)"
proof -
  have v: "validate_host_networks demo_fleet = None" by code_simp
  define p where "p = \<lparr>mp_host = ''a'', mp_key = [], mp_address = 0x0AFF0001, mp_endpoint = ''192.0.2.1:9'', mp_bridge = (0x0A000100, 24)\<rparr>"
  define q where "q = \<lparr>mp_host = ''b'', mp_key = [], mp_address = 0x0AFF0002, mp_endpoint = ''192.0.2.2:9'', mp_bridge = (0x0A000200, 24)\<rparr>"
  have m: "mesh_peers demo_fleet = Inr [p, q]" unfolding p_def q_def by code_simp
  have s: "mesh_subnet (the (fl_mesh demo_fleet)) = Some (0x0AFF0000, 24)" by code_simp
  have f: "fl_mesh demo_fleet = Some (the (fl_mesh demo_fleet))" by (simp add: demo_fleet_def)
  show ?thesis
    using mesh_addresses_sound[OF v f s m, where p = p and q = q and a = "0x0A000105"] m
    by (intro exI[of _ p] exI[of _ q]) (simp add: p_def q_def)
qed

lemma host_of_known:
  assumes "validate_hosts f = None" "fl_hosts f \<noteq> []" "validate_service_host f s = None"
  shows "map_of (fl_hosts f) (host_of f s) \<noteq> None \<and> (length (fl_hosts f) = 1 \<or> host_of f s \<noteq> [])"
proof (cases "sv_host s = []")
  case False
  then show ?thesis using assms(3) by (auto simp: validate_service_host_def host_of_def split: if_splits)
next
  case True
  show ?thesis
  proof (cases "fl_default f = []")
    case False
    then show ?thesis using True assms(1)
      by (auto simp: validate_hosts_def Let_def host_of_def default_host_name_def split: if_splits)
  next
    case def: True
    then have "\<not> 2 \<le> length (fl_hosts f)" using assms(1) by (auto simp: validate_hosts_def Let_def split: if_splits)
    then obtain n c where "fl_hosts f = [(n, c)]"
      using assms(2) by (cases "fl_hosts f"; cases "tl (fl_hosts f)") auto
    then show ?thesis using True def by (simp add: host_of_def default_host_name_def)
  qed
qed

text \<open>C38: Every service of a checked fleet is planned by exactly one daemon: of the hosts in \<open>hosts:\<close>, exactly one
  has a daemon that takes the service as its own, and it is the host the service names, or the default host.\<close>
theorem one_daemon_per_service:
  assumes "validate_hosts f = None" "fl_hosts f \<noteq> []" "validate_service_host f s = None" "s \<in> set svcs"
    and "h \<in> set (host_names f)"
  shows "(\<exists>d. daemon_host f h = Inr d \<and> s \<in> set (own_services f d svcs)) \<longleftrightarrow> h = host_of f s"
proof -
  have k: "map_of (fl_hosts f) (host_of f s) \<noteq> None" "length (fl_hosts f) = 1 \<or> host_of f s \<noteq> []"
    using host_of_known[OF assms(1-3)] by blast+
  show ?thesis
  proof (cases "length (fl_hosts f) = 1")
    case True
    then obtain n c where n: "fl_hosts f = [(n, c)]" by (cases "fl_hosts f") auto
    then have "host_names f = [n]" by (simp add: host_names_def)
    moreover have "host_of f s = n" using k(1) n by (simp split: if_splits)
    moreover have "h = n" using assms(5) n by simp
    ultimately show ?thesis using assms(4) n by (auto simp: daemon_host_def own_services_def)
  next
    case False
    have len: "length (fl_hosts f) \<noteq> 0" "length (fl_hosts f) \<noteq> 1" using assms(2) False by simp_all
    have "map_of (fl_hosts f) h \<noteq> None" using assms(5) by (metis map_of_eq_None_iff set_host_names)
    moreover have "host_names f \<noteq> []" using len by (metis length_0_conv length_host_names)
    ultimately have "daemon_host f h = (if h = [] then Inl HostNameRequired else Inr (h, True))"
      using len by (auto simp: daemon_host_def Let_def)
    then show ?thesis using k(2) len assms(4) by (auto simp: own_services_def split: if_splits)
  qed
qed

definition demo_service :: "string \<Rightarrow> service_config" where
  "demo_service host = \<lparr>sv_name = ''git'', sv_image = [], sv_build_dir = [], sv_profiles = [], sv_volumes = [], sv_env = [], sv_env_file = [],
     sv_env_from = [], sv_service = [], sv_limits = [], sv_forwards = [], sv_labels = None, sv_host = host\<rparr>"

theorem one_daemon_per_service_witness:
  "(\<exists>d. daemon_host demo_fleet ''b'' = Inr d \<and> demo_service ''b'' \<in> set (own_services demo_fleet d [demo_service ''b''])) \<longleftrightarrow> ''b'' = host_of demo_fleet (demo_service ''b'')"
  by (rule one_daemon_per_service) (code_simp | simp add: demo_fleet_def)+

end
