(* ===== verification/Go_Time.thy ===== *)
theory Go_Time
  imports Go_Strings
begin

text \<open>
  What the code uses of Go's \<open>time\<close> in UTC: the civil date of an instant, and the compact stamp
  \<open>20060102T150405Z\<close> that snapshots and backup objects are named with, formatted and parsed.

  \<^item> A date is year, month and day of month; a day is its number from the 1st of January 1970.
  \<^item> \<open>time.Duration\<close> is a signed 64-bit number of nanoseconds and its arithmetic wraps (\<open>duration\<close>).
\<close>

subsection \<open>The calendar\<close>

definition leap :: "int \<Rightarrow> bool" where "leap y \<longleftrightarrow> y mod 4 = 0 \<and> y mod 100 \<noteq> 0 \<or> y mod 400 = 0"

definition year_len :: "int \<Rightarrow> int" where "year_len y = (if leap y then 366 else 365)"

definition month_lens :: "int \<Rightarrow> int list" where
  "month_lens y = [31, if leap y then 29 else 28, 31, 30, 31, 30, 31, 31, 30, 31, 30, 31]"

definition days_before_year :: "int \<Rightarrow> int" where
  "days_before_year y = 365 * (y - 1) + (y - 1) div 4 - (y - 1) div 100 + (y - 1) div 400 - 719162"

definition civil_day :: "int \<Rightarrow> nat \<Rightarrow> nat \<Rightarrow> int" where
  "civil_day y m d = days_before_year y + sum_list (take (m - 1) (month_lens y)) + int d - 1"

definition valid_date :: "int \<Rightarrow> nat \<Rightarrow> nat \<Rightarrow> bool" where
  "valid_date y m d \<longleftrightarrow> 1 \<le> m \<and> m \<le> 12 \<and> 1 \<le> d \<and> int d \<le> month_lens y ! (m - 1)"

function year_of :: "int \<Rightarrow> int \<Rightarrow> int \<times> int" where
  "year_of y k = (if k < 0 then year_of (y - 1) (k + year_len (y - 1))
     else if k < year_len y then (y, k) else year_of (y + 1) (k - year_len y))"
  by pat_completeness auto

termination
  by (relation "measure (\<lambda>(y, k). if k < 0 then nat (- k) + 1000 else nat k)") (auto simp: year_len_def split: if_splits)

fun month_of :: "int list \<Rightarrow> nat \<Rightarrow> int \<Rightarrow> nat \<times> nat" where
  "month_of [] m k = (m, nat k + 1)"
| "month_of (l # ls) m k = (if k < l then (m, nat k + 1) else month_of ls (m + 1) (k - l))"

definition civil_of_day :: "int \<Rightarrow> int \<times> nat \<times> nat" where
  "civil_of_day n = (case year_of 1970 n of (y, k) \<Rightarrow> (y, month_of (month_lens y) 1 k))"

declare year_of.simps [simp del]

lemma div_step: "0 < c \<Longrightarrow> y div c = (y - 1) div c + (if y mod c = 0 then 1 else 0)" for y c :: int
proof -
  assume c: "0 < c"
  have y: "y = c * (y div c) + y mod c" by simp
  have r: "0 \<le> y mod c" "y mod c < c" using c by simp_all
  show ?thesis
  proof (cases "y mod c = 0")
    case True
    have "y - 1 = c * (y div c - 1) + (c - 1)" using y True by (simp add: algebra_simps)
    then have "(y - 1) div c = y div c - 1" by (rule int_div_pos_eq) (use c in simp_all)
    then show ?thesis using True by simp
  next
    case False
    have "y - 1 = c * (y div c) + (y mod c - 1)" using y by simp
    then have "(y - 1) div c = y div c" by (rule int_div_pos_eq) (use r False in simp_all)
    then show ?thesis using False by simp
  qed
qed

lemma days_before_next: "days_before_year (y + 1) = days_before_year y + year_len y"
proof -
  define a b c where "a = y div 4" and "b = y div 100" and "c = y div 400"
  define a' b' c' where "a' = (y - 1) div 4" and "b' = (y - 1) div 100" and "c' = (y - 1) div 400"
  have e: "a = a' + (if y mod 4 = 0 then 1 else 0)" "b = b' + (if y mod 100 = 0 then 1 else 0)" "c = c' + (if y mod 400 = 0 then 1 else 0)"
    unfolding a_def a'_def b_def b'_def c_def c'_def by (rule div_step, simp)+
  have i4: "y mod 4 = 0" if "y mod 100 = 0"
    using dvd_trans[of 4 100 y] that by (simp add: dvd_eq_mod_eq_0)
  have i100: "y mod 100 = 0" if "y mod 400 = 0"
    using dvd_trans[of 100 400 y] that by (simp add: dvd_eq_mod_eq_0)
  have d: "days_before_year (y + 1) = 365 * y + a - b + c - 719162" "days_before_year y = 365 * (y - 1) + a' - b' + c' - 719162"
    unfolding days_before_year_def a_def b_def c_def a'_def b'_def c'_def by (simp only: add_diff_cancel_right')+
  define p q r where "p \<longleftrightarrow> y mod 4 = 0" and "q \<longleftrightarrow> y mod 100 = 0" and "r \<longleftrightarrow> y mod 400 = 0"
  have i: "r \<Longrightarrow> q" "q \<Longrightarrow> p" unfolding p_def q_def r_def by (erule i100, erule i4)
  show ?thesis
    unfolding d e year_len_def leap_def p_def[symmetric] q_def[symmetric] r_def[symmetric]
    using i by (cases p; cases q; cases r) simp_all
qed

lemma sum_month_lens: "sum_list (month_lens y) = year_len y"
  by (simp add: month_lens_def year_len_def)

lemma year_of_spec:
  "year_of y k = (y', k') \<Longrightarrow> 0 \<le> k' \<and> k' < year_len y' \<and> days_before_year y' + k' = days_before_year y + k"
proof (induction y k rule: year_of.induct)
  case (1 y k)
  have e: "year_of y k = (if k < 0 then year_of (y - 1) (k + year_len (y - 1))
     else if k < year_len y then (y, k) else year_of (y + 1) (k - year_len y))" by (rule year_of.simps)
  have d: "days_before_year y = days_before_year (y - 1) + year_len (y - 1)" using days_before_next[of "y - 1"] by simp
  show ?case
  proof (cases "k < 0 \<or> \<not> k < year_len y")
    case True
    then show ?thesis using 1 d days_before_next[of y] e by (cases "k < 0") simp_all
  next
    case False
    then show ?thesis using 1(3) e by simp
  qed
qed

lemma month_of_spec:
  assumes "month_of ls m k = (m', d)" "0 \<le> k" "k < sum_list ls"
  shows "m \<le> m' \<and> m' < m + length ls \<and> 1 \<le> d \<and> int d \<le> ls ! (m' - m) \<and> sum_list (take (m' - m) ls) + int d - 1 = k"
  using assms
proof (induction ls m k rule: month_of.induct)
  case (2 l ls m k)
  show ?case
  proof (cases "k < l")
    case True
    then show ?thesis using 2 by auto
  next
    case False
    then have "m + 1 \<le> m' \<and> m' < m + 1 + length ls \<and> 1 \<le> d \<and> int d \<le> ls ! (m' - (m + 1)) \<and> sum_list (take (m' - (m + 1)) ls) + int d - 1 = k - l"
      using 2 by simp
    moreover from this have "m' - m = Suc (m' - (m + 1))" by arith
    ultimately show ?thesis by simp
  qed
qed simp

lemma civil_of_day_spec:
  assumes "civil_of_day n = (y, m, d)"
  shows "valid_date y m d \<and> civil_day y m d = n"
proof -
  obtain y' k where yk: "year_of 1970 n = (y', k)" by (cases "year_of 1970 n")
  then have y: "y' = y" and md: "month_of (month_lens y) 1 k = (m, d)" using assms by (auto simp: civil_of_day_def)
  have k: "0 \<le> k" "k < year_len y" "days_before_year y + k = days_before_year 1970 + n" using year_of_spec[OF yk] y by simp_all
  have "days_before_year 1970 = 0" by (simp add: days_before_year_def)
  moreover have "length (month_lens y) = 12" by (simp add: month_lens_def)
  ultimately show ?thesis
    using month_of_spec[OF md k(1)] k(2,3) sum_month_lens[of y] by (auto simp: valid_date_def civil_day_def)
qed

subsection \<open>Stamps\<close>

record stamp =
  sm_year :: int
  sm_month :: nat
  sm_day :: nat
  sm_secs :: int

definition stamp_of :: "time \<Rightarrow> stamp" where
  "stamp_of t = (case civil_of_day (t div (24 * hour)) of (y, m, d) \<Rightarrow>
     \<lparr>sm_year = y, sm_month = m, sm_day = d, sm_secs = t div second mod 86400\<rparr>)"

definition stamp_time :: "stamp \<Rightarrow> time" where
  "stamp_time s = (civil_day (sm_year s) (sm_month s) (sm_day s) * 86400 + sm_secs s) * second"

text \<open>\<open>Format("20060102T150405Z")\<close>; a year has at least four digits.\<close>

definition four_digits :: "int \<Rightarrow> string" where
  "four_digits y = (let d = dec_string (nat y) in replicate (4 - length d) CHR ''0'' @ d)"

definition format_stamp :: "stamp \<Rightarrow> string" where
  "format_stamp s = four_digits (sm_year s) @ two_digits (sm_month s) @ two_digits (sm_day s) @ ''T''
     @ two_digits (nat (sm_secs s) div 3600) @ two_digits (nat (sm_secs s) div 60 mod 60) @ two_digits (nat (sm_secs s) mod 60) @ ''Z''"

text \<open>\<open>time.Parse\<close> with that layout, on sixteen characters.\<close>

definition parse_stamp :: "string \<Rightarrow> stamp option" where
  "parse_stamp b =
     (if length b \<noteq> 16 \<or> b ! 8 \<noteq> CHR ''T'' \<or> b ! 15 \<noteq> CHR ''Z''
         \<or> \<not> list_all is_digit (take 8 b) \<or> \<not> list_all is_digit (take 6 (drop 9 b)) then None
      else let num = (\<lambda>i n. digits_val (take n (drop i b)));
               y = int (num 0 4); m = num 4 2; d = num 6 2; h = num 9 2; mi = num 11 2; s = num 13 2 in
        if valid_date y m d \<and> h < 24 \<and> mi < 60 \<and> s < 60
        then Some \<lparr>sm_year = y, sm_month = m, sm_day = d, sm_secs = int (h * 3600 + mi * 60 + s)\<rparr> else None)"

lemma two_digits_val: "n < 100 \<Longrightarrow> digits_val (two_digits n) = n \<and> list_all is_digit (two_digits n) \<and> length (two_digits n) = 2"
  by (simp add: two_digits_def digits_val_def digit_val_digit_char)

lemma digits_val_zeros: "digits_val (replicate k CHR ''0'' @ s) = digits_val s"
  by (induction k) (simp_all add: digits_val_def digit_val_def)

lemma four_digits_val:
  assumes "0 \<le> y" "y \<le> 9999"
  shows "int (digits_val (four_digits y)) = y \<and> list_all is_digit (four_digits y) \<and> length (four_digits y) = 4"
proof -
  have "length (dec_string (nat y)) \<le> 4" using dec_string_length[of 4 "nat y"] assms by simp
  moreover have "is_digit CHR ''0''" by (simp add: is_digit_def in_range_def)
  ultimately show ?thesis
    using assms dec_string_digits[of "nat y"]
    by (auto simp: four_digits_def Let_def digits_val_zeros digits_val_dec_string list_all_iff)
qed

text \<open>Formatting and parsing are inverse to the second, in the years 0 to 9999.\<close>

lemma parse_format:
  assumes "valid_date (sm_year s) (sm_month s) (sm_day s)" "0 \<le> sm_secs s" "sm_secs s < 86400" "0 \<le> sm_year s" "sm_year s \<le> 9999"
  shows "parse_stamp (format_stamp s) = Some s"
proof -
  define n where "n = nat (sm_secs s)"
  define Y M D h mi se where "Y = four_digits (sm_year s)" and "M = two_digits (sm_month s)" and "D = two_digits (sm_day s)"
    and "h = two_digits (n div 3600)" and "mi = two_digits (n div 60 mod 60)" and "se = two_digits (n mod 60)"
  have "month_lens (sm_year s) ! (sm_month s - 1) \<le> 31"
    using assms(1) by (auto simp: valid_date_def month_lens_def nth_Cons split: nat.splits)
  then have b: "sm_month s < 100" "sm_day s < 100" "n div 3600 < 24" "n div 60 mod 60 < 100" "n mod 60 < 100"
    using assms by (auto simp: valid_date_def n_def)
  have Y: "int (digits_val Y) = sm_year s" "list_all is_digit Y" "length Y = 4" using four_digits_val[OF assms(4,5)] by (simp_all add: Y_def)
  have ds: "digits_val M = sm_month s" "digits_val D = sm_day s" "digits_val h = n div 3600" "digits_val mi = n div 60 mod 60" "digits_val se = n mod 60"
    and dd: "list_all is_digit M" "list_all is_digit D" "list_all is_digit h" "list_all is_digit mi" "list_all is_digit se"
    and dl: "length M = 2" "length D = 2" "length h = 2" "length mi = 2" "length se = 2"
    using b two_digits_val unfolding M_def D_def h_def mi_def se_def by simp_all
  have f: "format_stamp s = Y @ M @ D @ ''T'' @ h @ mi @ se @ ''Z''"
    by (simp add: format_stamp_def Y_def M_def D_def h_def mi_def se_def n_def)
  have "n div 3600 * 3600 + n div 60 mod 60 * 60 + n mod 60 = n"
  proof -
    have "n div 3600 = n div 60 div 60" by (simp add: div_mult2_eq[symmetric])
    then have "n div 3600 * 60 + n div 60 mod 60 = n div 60" by simp
    then have "(n div 3600 * 60 + n div 60 mod 60) * 60 + n mod 60 = n" by simp
    then show ?thesis by (simp add: algebra_simps)
  qed
  then have secs: "int (n div 3600 * 3600 + n div 60 mod 60 * 60 + n mod 60) = sm_secs s"
    using assms(2) by (simp only: n_def nat_0_le)
  show ?thesis
    unfolding parse_stamp_def f Let_def
    by (simp add: nth_append Y ds dd dl assms(1) b secs[simplified])
qed

lemma stamp_of_valid:
  "valid_date (sm_year (stamp_of t)) (sm_month (stamp_of t)) (sm_day (stamp_of t)) \<and> 0 \<le> sm_secs (stamp_of t) \<and> sm_secs (stamp_of t) < 86400"
  using civil_of_day_spec[of "t div (24 * hour)"] by (simp add: stamp_of_def split: prod.splits)

lemma stamp_time_of: "stamp_time (stamp_of t) = t div second * second"
proof -
  obtain y m d where c: "civil_of_day (t div (24 * hour)) = (y, m, d)" by (metis prod_cases3)
  have "t div (24 * hour) = t div second div 86400" by (simp add: zdiv_zmult2_eq[symmetric])
  moreover have "t div second div 86400 * 86400 + t div second mod 86400 = t div second" by simp
  ultimately show ?thesis using civil_of_day_spec[OF c] c by (simp add: stamp_time_def stamp_of_def)
qed

subsection \<open>Durations\<close>

text \<open>The signed 64-bit value an integer is congruent to.\<close>

definition duration :: "int \<Rightarrow> int" where "duration n = (n + 2 ^ 63) mod 2 ^ 64 - 2 ^ 63"

lemma duration_id: "- (2 ^ 63) \<le> n \<Longrightarrow> n < 2 ^ 63 \<Longrightarrow> duration n = n"
  by (simp add: duration_def)

text \<open>\<open>time.ParseDuration\<close>: a sign, then one or more decimal numbers each with a unit. Of a fraction the value is
  rounded down (the library computes it in floating point); None is any of its errors, overflow included.\<close>

definition duration_unit :: "string \<Rightarrow> int option" where
  "duration_unit u =
     (if u = ''ns'' then Some 1
      else if u = ''us'' \<or> u = [CHR 0xC2, CHR 0xB5, CHR ''s''] \<or> u = [CHR 0xCE, CHR 0xBC, CHR ''s''] then Some 1000
      else if u = ''ms'' then Some 1000000 else if u = ''s'' then Some second
      else if u = ''m'' then Some minute else if u = ''h'' then Some hour else None)"

definition num_char :: "char \<Rightarrow> bool" where "num_char c \<longleftrightarrow> c = CHR ''.'' \<or> is_digit c"

text \<open>One number and unit off the front: its value and the rest.\<close>

definition duration_part :: "string \<Rightarrow> (int \<times> string) option" where
  "duration_part s =
     (let pre = takeWhile is_digit s; s1 = dropWhile is_digit s;
          (frac, s2, dot) = (case s1 of c # cs \<Rightarrow> if c = CHR ''.'' then (takeWhile is_digit cs, dropWhile is_digit cs, True) else ([], s1, False)
                             | [] \<Rightarrow> ([], s1, False));
          u = takeWhile (\<lambda>c. \<not> num_char c) s2; rest = dropWhile (\<lambda>c. \<not> num_char c) s2
      in if pre = [] \<and> frac = [] then None
         else if u = [] then None
         else case duration_unit u of None \<Rightarrow> None
           | Some unit \<Rightarrow>
               let v = int (digits_val pre) * unit + int (digits_val frac) * unit div 10 ^ length frac
               in if int (digits_val pre) > 2 ^ 63 div unit \<or> v > 2 ^ 63 then None else Some (v, rest))"

lemma duration_part_shorter: "duration_part s = Some (v, rest) \<Longrightarrow> length rest < length s"
proof -
  assume d: "duration_part s = Some (v, rest)"
  define s1 where "s1 = dropWhile is_digit s"
  define s2 where "s2 = (case s1 of c # cs \<Rightarrow> if c = CHR ''.'' then dropWhile is_digit cs else s1 | [] \<Rightarrow> s1)"
  have l1: "length s1 \<le> length s" by (simp add: s1_def length_dropWhile_le)
  have l2: "length s2 \<le> length s1"
    using length_dropWhile_le[of is_digit "tl s1"] by (auto simp: s2_def split: list.splits)
  have r: "rest = dropWhile (\<lambda>c. \<not> num_char c) s2" and u: "takeWhile (\<lambda>c. \<not> num_char c) s2 \<noteq> []"
    using d by (auto simp: duration_part_def Let_def s1_def[symmetric] s2_def split: list.splits if_splits option.splits)
  have "length s2 = length (takeWhile (\<lambda>c. \<not> num_char c) s2) + length rest"
    unfolding r by (metis length_append takeWhile_dropWhile_id)
  then have "length rest < length s2" using u by (simp add: length_greater_0_conv[symmetric] del: length_greater_0_conv)
  then show "length rest < length s" using l1 l2 by simp
qed

function duration_sum :: "string \<Rightarrow> int \<Rightarrow> int option" where
  "duration_sum s d =
     (if s = [] then Some d
      else case duration_part s of None \<Rightarrow> None
        | Some (v, rest) \<Rightarrow> if d + v > 2 ^ 63 then None else duration_sum rest (d + v))"
  by pat_completeness auto

termination
  by (relation "measure (length \<circ> fst)") (auto simp: duration_part_shorter)

declare duration_sum.simps [simp del]

definition parse_duration :: "string \<Rightarrow> int option" where
  "parse_duration s0 =
     (let neg = (s0 \<noteq> [] \<and> hd s0 = CHR ''-''); s = (if s0 \<noteq> [] \<and> (hd s0 = CHR ''-'' \<or> hd s0 = CHR ''+'') then tl s0 else s0) in
      if s = ''0'' then Some 0
      else if s = [] then None
      else case duration_sum s 0 of None \<Rightarrow> None
        | Some d \<Rightarrow> if neg then Some (- d) else if d > 2 ^ 63 - 1 then None else Some d)"

end
