(* ===== verification/Backup_Schedule.thy ===== *)
theory Backup_Schedule
  imports Go_Time Fleet_Config
begin

text \<open>
  Scheduled backups (\<open>pkg/server/backup_schedule.go\<close>): which schedule the daemon follows, when it is due,
  and that two scheduled backups never pile up.

  \<^item> Instants are nanoseconds in UTC, so a day is a multiple of 24 hours; the schedule is minutes after
    midnight, as \<open>ScheduleTimes\<close> gives them (\<open>schedule_times\<close>).
  \<^item> The schedule file holds the \<open>backup:\<close> section last written to it; YAML of a record is the record.
\<close>

subsection \<open>When a backup is due\<close>

abbreviation day_ns :: time where "day_ns \<equiv> 24 * hour"

definition slot_in :: "time \<Rightarrow> time \<Rightarrow> time \<Rightarrow> time option \<Rightarrow> nat \<Rightarrow> time option" where
  "slot_in prev now day found m =
     (let slot = day + int m * minute in if slot > prev \<and> \<not> slot > now then Some slot else found)"

function due_days :: "nat list \<Rightarrow> time \<Rightarrow> time \<Rightarrow> time \<Rightarrow> time option \<Rightarrow> time option" where
  "due_days ms prev now day found =
     (if day > now then found else due_days ms prev now (day + day_ns) (foldl (slot_in prev now day) found ms))"
  by pat_completeness auto

termination
  by (relation "measure (\<lambda>(ms, prev, now, day, found). nat (now - day + 1))") auto

declare due_days.simps [simp del]

definition due_between :: "nat list \<Rightarrow> time \<Rightarrow> time \<Rightarrow> time option" where
  "due_between ms prev0 now =
     (if length ms = 0 then None
      else let prev = (if now - prev0 \<ge> day_ns then now - day_ns else prev0)
           in due_days ms prev now (prev div day_ns * day_ns) None)"

text \<open>An instant the schedule names.\<close>

definition scheduled :: "nat list \<Rightarrow> time \<Rightarrow> bool" where
  "scheduled ms s \<longleftrightarrow> s mod minute = 0 \<and> nat (s mod day_ns div minute) \<in> set ms"

lemma scheduled_iff:
  assumes "\<forall>m \<in> set ms. m < 1440"
  shows "scheduled ms s \<longleftrightarrow> (\<exists>k. \<exists>m \<in> set ms. s = k * day_ns + int m * minute)"
proof
  assume s: "scheduled ms s"
  define m where "m = nat (s mod day_ns div minute)"
  have "s mod day_ns mod minute = s mod minute" by (simp add: mod_mod_cancel)
  then have "s mod day_ns = s mod day_ns div minute * minute"
    using s by (metis div_mult_mod_eq add_cancel_right_right scheduled_def)
  moreover have "0 \<le> s mod day_ns div minute" by (simp add: pos_imp_zdiv_nonneg_iff)
  ultimately have "s mod day_ns = int m * minute" by (simp add: m_def)
  then have "s = s div day_ns * day_ns + int m * minute" by (metis div_mult_mod_eq)
  moreover have "m \<in> set ms" using s by (simp add: scheduled_def m_def)
  ultimately show "\<exists>k. \<exists>m \<in> set ms. s = k * day_ns + int m * minute" by blast
next
  assume "\<exists>k. \<exists>m \<in> set ms. s = k * day_ns + int m * minute"
  then obtain k m where s: "m \<in> set ms" "s = k * day_ns + int m * minute" by blast
  have lt: "int m * minute < day_ns" "0 \<le> int m * minute" using assms s(1) by auto
  have "s mod day_ns = int m * minute mod day_ns" unfolding s(2) by (rule mod_mult_self3)
  then have md: "s mod day_ns = int m * minute" using lt by (simp only: mod_pos_pos_trivial)
  have "s = (k * 1440 + int m) * minute" using s(2) by simp
  then have "s mod minute = 0" by (simp only: mod_mult_self2_is_0)
  moreover have "int m * minute div minute = int m" by simp
  ultimately show "scheduled ms s" using md s(1) by (simp add: scheduled_def)
qed

lemma fold_slots:
  "foldl (slot_in prev now day) found ms =
     (let q = filter (\<lambda>m. prev < day + int m * minute \<and> day + int m * minute \<le> now) ms in
      if q = [] then found else Some (day + int (last q) * minute))"
  by (induction ms rule: rev_induct) (simp_all add: slot_in_def Let_def not_less)

lemma last_filter_max: "sorted xs \<Longrightarrow> x \<in> set xs \<Longrightarrow> P x \<Longrightarrow> x \<le> last (filter P xs)" for x :: nat
proof -
  assume a: "sorted xs" "x \<in> set xs" "P x"
  then have s: "sorted (filter P xs)" "x \<in> set (filter P xs)" by (simp_all add: sorted_filter[of id, simplified])
  then have "filter P xs \<noteq> []" by (metis empty_iff empty_set)
  then obtain ys where "filter P xs = ys @ [last (filter P xs)]" by (metis append_butlast_last_id)
  then show ?thesis using s by (metis sorted_append Un_iff empty_iff empty_set list.set_intros(1) order_refl set_ConsD set_append)
qed

lemma in_day:
  assumes "\<forall>m \<in> set ms. m < 1440" "day = k * day_ns"
  shows "scheduled ms t \<and> day \<le> t \<and> t < day + day_ns \<longleftrightarrow> (\<exists>m \<in> set ms. t = day + int m * minute)"
proof
  assume t: "scheduled ms t \<and> day \<le> t \<and> t < day + day_ns"
  then obtain j m where m: "m \<in> set ms" "t = j * day_ns + int m * minute" using scheduled_iff[OF assms(1), of t] by blast
  have "int m < 1440" using assms(1) m(1) by auto
  then have "j = k" using t m(2) assms(2) by (simp only:) linarith
  then show "\<exists>m \<in> set ms. t = day + int m * minute" using m assms(2) by blast
next
  assume "\<exists>m \<in> set ms. t = day + int m * minute"
  then obtain m where m: "m \<in> set ms" "t = day + int m * minute" by blast
  have "int m < 1440" using assms(1) m(1) by auto
  moreover have "scheduled ms t" using scheduled_iff[OF assms(1), of t] m assms(2) by blast
  ultimately show "scheduled ms t \<and> day \<le> t \<and> t < day + day_ns" using m(2) by simp
qed

definition latest :: "(time \<Rightarrow> bool) \<Rightarrow> time option \<Rightarrow> bool" where
  "latest P r \<longleftrightarrow> (case r of None \<Rightarrow> \<forall>t. \<not> P t | Some s \<Rightarrow> P s \<and> (\<forall>t. P t \<longrightarrow> t \<le> s))"

lemma due_days_latest:
  assumes "sorted ms" "\<forall>m \<in> set ms. m < 1440" "day = k * day_ns"
    and "latest (\<lambda>t. scheduled ms t \<and> prev < t \<and> t \<le> now \<and> t < day) found"
  shows "latest (\<lambda>t. scheduled ms t \<and> prev < t \<and> t \<le> now) (due_days ms prev now day found)"
  using assms
proof (induction ms prev now day found arbitrary: k rule: due_days.induct)
  case (1 ms prev now day found)
  define Q where "Q t \<longleftrightarrow> scheduled ms t \<and> prev < t \<and> t \<le> now" for t
  show ?case
  proof (cases "day > now")
    case True
    then have "(\<lambda>t. scheduled ms t \<and> prev < t \<and> t \<le> now \<and> t < day) = Q" by (auto simp: Q_def fun_eq_iff)
    then show ?thesis using 1(5) True by (subst due_days.simps) (simp add: Q_def[abs_def])
  next
    case False
    define q where "q = filter (\<lambda>m. prev < day + int m * minute \<and> day + int m * minute \<le> now) ms"
    have f: "foldl (slot_in prev now day) found ms = (if q = [] then found else Some (day + int (last q) * minute))"
      unfolding fold_slots q_def Let_def ..
    have today: "Q t \<and> t < day + day_ns \<longleftrightarrow> (Q t \<and> t < day) \<or> (\<exists>m \<in> set q. t = day + int m * minute)" for t
      using in_day[OF 1(3,4), of t] by (auto simp: Q_def q_def)
    have "latest (\<lambda>t. Q t \<and> t < day + day_ns) (if q = [] then found else Some (day + int (last q) * minute))"
    proof (cases "q = []")
      case True
      then show ?thesis using 1(5) unfolding today by (simp add: Q_def conj_assoc)
    next
      case False
      have mx: "m \<le> last q" if "m \<in> set q" for m
        using last_filter_max[OF 1(2), of m] that by (simp add: q_def)
      have "last q \<in> set q" using False by simp
      then show ?thesis unfolding today latest_def using False mx by fastforce
    qed
    then have "latest (\<lambda>t. scheduled ms t \<and> prev < t \<and> t \<le> now \<and> t < day + day_ns) (foldl (slot_in prev now day) found ms)"
      unfolding f by (simp add: Q_def conj_assoc)
    moreover have "day + day_ns = (k + 1) * day_ns" using 1(4) by (simp add: algebra_simps)
    ultimately show ?thesis using 1(1)[OF False 1(2,3), of "k + 1"] False by (subst due_days.simps) simp
  qed
qed

lemma due_between_latest:
  assumes "sorted ms" "\<forall>m \<in> set ms. m < 1440" "prev < now"
  shows "latest (\<lambda>t. scheduled ms t \<and> prev < t \<and> t \<le> now) (due_between ms prev now)"
proof (cases "ms = []")
  case True
  then show ?thesis by (simp add: due_between_def latest_def scheduled_def)
next
  case False
  define p where "p = (if now - prev \<ge> day_ns then now - day_ns else prev)"
  define day where "day = p div day_ns * day_ns"
  have p: "prev \<le> p" "p < now" using assms(3) by (auto simp: p_def)
  have "day \<le> p" by (simp add: day_def minus_mod_eq_div_mult[symmetric])
  then have "latest (\<lambda>t. scheduled ms t \<and> p < t \<and> t \<le> now \<and> t < day) None" by (auto simp: latest_def)
  from due_days_latest[OF assms(1,2) day_def this]
  have "latest (\<lambda>t. scheduled ms t \<and> p < t \<and> t \<le> now) (due_days ms p now day None)" .
  moreover have "due_between ms prev now = due_days ms p now day None"
    using False unfolding due_between_def Let_def p_def[symmetric] day_def[symmetric] by simp
  ultimately have r: "latest (\<lambda>t. scheduled ms t \<and> p < t \<and> t \<le> now) (due_between ms prev now)" by simp
  show ?thesis
  proof (cases "p = prev")
    case False
    then have p': "p = now - day_ns" by (simp add: p_def split: if_splits)
    obtain m where m: "m \<in> set ms" using \<open>ms \<noteq> []\<close> by (cases ms) auto
    define t where "t = (now - int m * minute) div day_ns * day_ns + int m * minute"
    have "now - int m * minute - day_ns < (now - int m * minute) div day_ns * day_ns" "(now - int m * minute) div day_ns * day_ns \<le> now - int m * minute"
      using pos_mod_bound[of day_ns "now - int m * minute"] pos_mod_sign[of day_ns "now - int m * minute"]
      by (simp_all add: minus_mod_eq_div_mult[symmetric])
    then have "p < t" "t \<le> now" by (simp_all add: t_def p')
    moreover have "scheduled ms t" using scheduled_iff[OF assms(2), of t] m t_def by blast
    ultimately show ?thesis using r p(1) by (cases "due_between ms prev now") (fastforce simp: latest_def)+
  qed (use r in simp)
qed

subsection \<open>The scheduler\<close>

text \<open>\<open>sc_last\<close> None is the zero time: no check was made yet. The two atomic sections of
  \<open>startScheduledBackup\<close> are apart, because the job it queues may end between them.\<close>

record sched =
  sc_last :: "time option"
  sc_pending :: bool
  sc_in_flight :: string

definition new_sched :: sched where "new_sched = \<lparr>sc_last = None, sc_pending = False, sc_in_flight = []\<rparr>"

definition backup_tick :: "time \<Rightarrow> config_error + nat list \<Rightarrow> sched \<Rightarrow> sched \<times> time option" where
  "backup_tick now loaded st =
     (let after = (case sc_last st of None \<Rightarrow> True | Some l \<Rightarrow> now > l);
          st1 = (if after then st\<lparr>sc_last := Some now\<rparr> else st) in
      case sc_last st of
        None \<Rightarrow> (st1, None)
      | Some l \<Rightarrow>
          if \<not> now > l then (st1, None)
          else case loaded of Inl _ \<Rightarrow> (st1, None) | Inr ms \<Rightarrow> (st1, due_between ms l now))"

text \<open>None: the run is skipped, since the previous one is queued or running.\<close>

definition begin_backup :: "sched \<Rightarrow> sched option" where
  "begin_backup st = (if sc_pending st then None else Some (st\<lparr>sc_pending := True\<rparr>))"

definition backup_done :: "sched \<Rightarrow> sched" where "backup_done st = st\<lparr>sc_pending := False, sc_in_flight := []\<rparr>"

definition note_backup_job :: "string \<Rightarrow> sched \<Rightarrow> sched" where
  "note_backup_job i st = (if sc_pending st then st\<lparr>sc_in_flight := i\<rparr> else st)"

subsection \<open>Following the schedule of a deploy\<close>

definition describe_schedule :: "backup_config \<Rightarrow> string" where
  "describe_schedule b =
     (let what = (if length (bc_volumes b) > 0 then join_with '', '' (bc_volumes b) else ''every volume'');
          keep = (if bc_daily b > 0 then [''the newest '' @ int_string (bc_daily b)] else [])
               @ (if bc_monthly b > 0 then [''one a month for '' @ int_string (bc_monthly b) @ '' months''] else [])
               @ (if bc_days b > 0 then [''everything from the last '' @ int_string (bc_days b) @ '' days''] else []);
          retention = (if length keep > 0 then ''retention keeps '' @ join_with '', '' keep @ '' of this host's backups''
                       else ''no retention (every backup is kept)'')
      in ''back up '' @ what @ '' daily at '' @ filter (\<lambda>c. c \<noteq> CHR '' '') (trim_space (bc_schedule b)) @ '' UTC; '' @ retention)"

datatype follow_result = NotEnabled string | NoSchedule | Removed | Unchanged string | ScheduleSet string | FollowFailed

text \<open>\<open>enabled\<close>: the daemon runs with backups, jobs and a schedule directory; \<open>want\<close> is the commit's
  \<open>backup:\<close> section; \<open>ok\<close>: the file could be written or removed. None means no file.\<close>

definition follow_backup_schedule ::
  "bool \<Rightarrow> backup_config option \<Rightarrow> bool \<Rightarrow> backup_config option \<Rightarrow> backup_config option \<times> follow_result" where
  "follow_backup_schedule enabled fleet_backup ok file =
     (let want = (case fleet_backup of Some b \<Rightarrow> if trim_space (bc_schedule b) \<noteq> [] then Some b else None | None \<Rightarrow> None) in
      if \<not> enabled then (file, case want of Some b \<Rightarrow> NotEnabled (bc_schedule b) | None \<Rightarrow> NoSchedule)
      else case want of
        None \<Rightarrow> (case file of None \<Rightarrow> (file, NoSchedule) | Some _ \<Rightarrow> if ok then (None, Removed) else (file, FollowFailed))
      | Some b \<Rightarrow>
          if file = Some b then (file, Unchanged (describe_schedule b))
          else if ok then (Some b, ScheduleSet (describe_schedule b)) else (file, FollowFailed))"

text \<open>\<open>LoadFleetConfig\<close> checks the section it reads back.\<close>

definition load_backup_schedule :: "backup_config option \<Rightarrow> config_error + nat list" where
  "load_backup_schedule file =
     (case file of None \<Rightarrow> Inr []
      | Some b \<Rightarrow> (case validate_backup b of Some e \<Rightarrow> Inl e
          | None \<Rightarrow> (case schedule_times b of Inl e \<Rightarrow> Inl (BackupSchedule e) | Inr ms \<Rightarrow> Inr ms)))"

subsection \<open>Two scheduled backups never run at once\<close>

datatype sched_op = SBegin | SDone | SNote string

definition sched_step :: "sched_op \<Rightarrow> sched \<Rightarrow> sched" where
  "sched_step op st = (case op of
     SBegin \<Rightarrow> (case begin_backup st of None \<Rightarrow> st | Some st' \<Rightarrow> st')
   | SDone \<Rightarrow> backup_done st
   | SNote i \<Rightarrow> note_backup_job i st)"

interpretation turn: single_use
  "\<lambda>st (_ :: unit). \<not> sc_pending st" sched_step "\<lambda>_ op st. op = SBegin \<and> begin_backup st \<noteq> None" "\<lambda>_ op st. op = SDone"
  by unfold_locales
    (auto simp: sched_step_def begin_backup_def backup_done_def note_backup_job_def split: sched_op.splits if_splits)

lemma backups_one_at_a_time:
  "count_ops sched_step (\<lambda>op st. op = SBegin \<and> begin_backup st \<noteq> None) ops new_sched
     \<le> count_ops sched_step (\<lambda>op st. op = SDone) ops new_sched + 1"
  using turn.uses_le_grants[where ops = ops and s = new_sched] by (simp add: new_sched_def split: if_splits)

text \<open>What a daemon follows is what the last deploy it could record says.\<close>

lemma follow_then_load:
  assumes "follow_backup_schedule True fleet_backup ok file = (file', res)" "res \<noteq> FollowFailed"
  shows "file' = (case fleet_backup of Some b \<Rightarrow> if trim_space (bc_schedule b) \<noteq> [] then Some b else None | None \<Rightarrow> None)"
  using assms by (auto simp: follow_backup_schedule_def Let_def split: option.splits if_splits)

subsection \<open>Properties\<close>

text \<open>The instants for which ticks at the clock readings \<open>nows\<close> ask for a backup.\<close>

fun due_run :: "nat list \<Rightarrow> time list \<Rightarrow> sched \<Rightarrow> time list" where
  "due_run ms [] st = []"
| "due_run ms (now # nows) st =
     (case backup_tick now (Inr ms) st of (st', r) \<Rightarrow> (case r of None \<Rightarrow> [] | Some s \<Rightarrow> [s]) @ due_run ms nows st')"

declare due_run.simps(2) [simp del]

lemma tick_later: "sc_last st = Some l \<Longrightarrow> now > l \<Longrightarrow> backup_tick now (Inr ms) st = (st\<lparr>sc_last := Some now\<rparr>, due_between ms l now)"
  by (simp add: backup_tick_def)

lemma tick_earlier: "sc_last st = Some l \<Longrightarrow> \<not> now > l \<Longrightarrow> backup_tick now (Inr ms) st = (st, None)"
  by (simp add: backup_tick_def)

lemma due_run_spec:
  assumes "sorted ms" "\<forall>m \<in> set ms. m < 1440" "sc_last st = Some t0"
  shows "sorted_wrt (<) (due_run ms nows st) \<and> (\<forall>s \<in> set (due_run ms nows st). scheduled ms s \<and> t0 < s \<and> (\<exists>now \<in> set nows. s \<le> now))
    \<and> (\<forall>t. scheduled ms t \<and> t0 < t \<and> (\<exists>now \<in> set nows. t \<le> now) \<longrightarrow> (\<exists>s \<in> set (due_run ms nows st). t \<le> s))"
  using assms(3)
proof (induction nows arbitrary: st t0)
  case (Cons now nows)
  show ?case
  proof (cases "now > t0")
    case True
    define r where "r = due_between ms t0 now"
    define st' where "st' = st\<lparr>sc_last := Some now\<rparr>"
    have eq: "due_run ms (now # nows) st = (case r of None \<Rightarrow> [] | Some s \<Rightarrow> [s]) @ due_run ms nows st'"
      using tick_later[OF Cons.prems True, of ms] by (simp add: due_run.simps r_def st'_def)
    have r: "latest (\<lambda>t. scheduled ms t \<and> t0 < t \<and> t \<le> now) r"
      unfolding r_def by (rule due_between_latest[OF assms(1,2) True])
    have ih: "sorted_wrt (<) (due_run ms nows st')"
      "\<And>s. s \<in> set (due_run ms nows st') \<Longrightarrow> scheduled ms s \<and> now < s \<and> (\<exists>n \<in> set nows. s \<le> n)"
      "\<And>t n. scheduled ms t \<Longrightarrow> now < t \<Longrightarrow> n \<in> set nows \<Longrightarrow> t \<le> n \<Longrightarrow> \<exists>s \<in> set (due_run ms nows st'). t \<le> s"
      using Cons.IH[of st' now] by (auto simp: st'_def)
    have catch: "\<exists>s \<in> set (due_run ms (now # nows) st). t \<le> s"
      if t: "scheduled ms t" "t0 < t" "n \<in> set (now # nows)" "t \<le> n" for t n
    proof (cases "t \<le> now")
      case True
      then obtain s where "r = Some s" "t \<le> s" using r t(1,2) by (cases r) (auto simp: latest_def)
      then show ?thesis by (auto simp: eq)
    next
      case False
      then show ?thesis using ih(3)[of t n] t by (auto simp: eq)
    qed
    show ?thesis
    proof (cases r)
      case None
      then show ?thesis using ih(1,2) catch True by (fastforce simp: eq)
    next
      case (Some s)
      then have s: "scheduled ms s" "t0 < s" "s \<le> now" using r by (simp_all add: latest_def)
      have "sorted_wrt (<) (due_run ms (now # nows) st)" using ih(1,2) s(3) by (fastforce simp: eq Some)
      moreover have "\<forall>x \<in> set (due_run ms (now # nows) st). scheduled ms x \<and> t0 < x \<and> (\<exists>n \<in> set (now # nows). x \<le> n)"
        using ih(2) s True by (fastforce simp: eq Some)
      ultimately show ?thesis using catch by blast
    qed
  next
    case False
    then have "due_run ms (now # nows) st = due_run ms nows st" using tick_earlier[OF Cons.prems, of now ms] by (simp add: due_run.simps)
    then show ?thesis using Cons.IH[OF Cons.prems] False by (auto simp: not_less)
  qed
qed simp

text \<open>C31: A scheduled backup is asked for at every time the schedule names and never twice for the same one: for
  every schedule that parses and every sequence of clock readings, steps back and gaps of days included,
  the instants backups are started for are scheduled ones after the first check, strictly increasing,
  and every scheduled instant the clock has passed is followed by one at that instant or later.\<close>
theorem schedule_kept:
  assumes "schedule_times b = Inr ms" "sc_last st = Some t0"
  shows "sorted_wrt (<) (due_run ms nows st)
    \<and> (\<forall>s \<in> set (due_run ms nows st). scheduled ms s \<and> t0 < s \<and> (\<exists>now \<in> set nows. s \<le> now))
    \<and> (\<forall>t. scheduled ms t \<and> t0 < t \<and> (\<exists>now \<in> set nows. t \<le> now) \<longrightarrow> (\<exists>s \<in> set (due_run ms nows st). t \<le> s))"
proof -
  have "sorted ms" "\<forall>m \<in> set ms. m < 1440" using schedule_times_ok[OF assms(1)] by blast+
  from due_run_spec[OF this assms(2)] show ?thesis .
qed

definition demo_backup :: backup_config where
  "demo_backup = \<lparr>bc_provider = [], bc_endpoint = ''https://s3'', bc_region = ''r'', bc_bucket = ''b'', bc_prefix = ''incus/'', bc_path_style = None,
     bc_access_env = [], bc_secret_env = [], bc_volumes = [], bc_daily = 0, bc_monthly = 0, bc_days = 7, bc_keep_local = False,
     bc_schedule = ''14:30, 02:00'', bc_host = []\<rparr>"

theorem schedule_kept_witness:
  "let st = \<lparr>sc_last = Some 0, sc_pending = False, sc_in_flight = []\<rparr>; nows = [hour, 3 * hour, 2 * hour, 80 * hour] in
     due_run [120, 870] nows st = [2 * hour, 74 * hour] \<and> sorted_wrt (<) (due_run [120, 870] nows st)"
proof -
  define st where "st = \<lparr>sc_last = Some 0, sc_pending = False, sc_in_flight = []\<rparr>"
  have ms: "schedule_times demo_backup = Inr [120, 870]" by code_simp
  have "sc_last st = Some 0" by (simp add: st_def)
  from schedule_kept[OF ms this, of "[hour, 3 * hour, 2 * hour, 80 * hour]"]
  have "sorted_wrt (<) (due_run [120, 870] [hour, 3 * hour, 2 * hour, 80 * hour] st)" by blast
  moreover have "due_run [120, 870] [hour, 3 * hour, 2 * hour, 80 * hour] st = [2 * hour, 74 * hour]"
    unfolding st_def by code_simp
  ultimately show ?thesis by (simp only: Let_def st_def)
qed

end
