(* ===== verification/Incus.thy ===== *)
theory Incus
  imports Labels
begin

text \<open>
  What the Incus client itself decides (\<open>pkg/incus\<close>): which names are safe, what is read of an instance's
  configuration, when attaching a volume is safe, how an image reference is read, and the environment files
  of the services (\<open>env.go\<close>).

  \<^item> The YAML an instance's configuration is printed in is the record \<open>config_show\<close>; a Go map is an association
    list, a missing key reads as the empty text (\<open>at_key\<close>).
  \<^item> \<open>strings.Split\<close> at a newline and \<open>strings.TrimSpace\<close> are those of \<open>Go_Strings\<close>.
\<close>

subsection \<open>Names\<close>

definition name_chars :: "nat \<Rightarrow> string \<Rightarrow> bool" where \<comment> \<open>\<open>^[A-Za-z0-9][A-Za-z0-9._-]{0,n}$\<close>\<close>
  "name_chars n h \<longleftrightarrow> (case h of [] \<Rightarrow> False
     | c # cs \<Rightarrow> is_alnum c \<and> length cs \<le> n \<and> list_all (\<lambda>c. is_alnum c \<or> c \<in> set ''._-'') cs)"

definition valid_name :: "string \<Rightarrow> bool" where "valid_name s = name_chars 62 s"

definition valid_user_name :: "string \<Rightarrow> bool" where \<comment> \<open>\<open>^[a-z_][a-z0-9_-]{0,31}$\<close>\<close>
  "valid_user_name s \<longleftrightarrow> (case s of [] \<Rightarrow> False
     | c # cs \<Rightarrow> (is_lower c \<or> c = CHR ''_'') \<and> length cs \<le> 31 \<and> list_all (\<lambda>c. is_lower c \<or> is_digit c \<or> c \<in> set ''_-'') cs)"

definition image_key :: string where "image_key = ''user.native-ops.image''"
definition template_key :: string where "template_key = ''user.native-ops.template''"
definition spec_key :: string where "spec_key = ''user.native-ops.spec''"
definition migrated_to_key :: string where "migrated_to_key = ''user.native-ops.migrated-to''"

subsection \<open>An instance's configuration\<close>

definition at_key :: "smap \<Rightarrow> string \<Rightarrow> string" where "at_key m k = value_or_empty (map_of m k)"

record config_show =
  cs_config :: smap
  cs_devices :: "(string \<times> smap) list"
  cs_profiles :: "string list"

record instance_state =
  is_name :: string
  is_profiles :: "string list"
  is_config :: smap
  is_devices :: "(string \<times> smap) list"
  is_base_image :: string
  is_oci :: bool

definition parse_instance_state :: "string \<Rightarrow> config_show \<Rightarrow> instance_state" where
  "parse_instance_state name cs =
     \<lparr>is_name = name, is_profiles = cs_profiles cs,
      is_config = filter (\<lambda>(k, v). \<not> (prefix ''volatile.'' k \<or> prefix ''image.'' k)) (cs_config cs),
      is_devices = cs_devices cs, is_base_image = at_key (cs_config cs) ''volatile.base_image'',
      is_oci = (at_key (cs_config cs) ''volatile.container.oci'' = ''true'')\<rparr>"

definition device_names :: "instance_state \<Rightarrow> string list" where
  "device_names st = sort (map fst (is_devices st))"

definition device :: "instance_state \<Rightarrow> string \<Rightarrow> smap" where
  "device st n = (case map_of (is_devices st) n of None \<Rightarrow> [] | Some d \<Rightarrow> d)"

type_synonym volume_ref = "string \<times> string" \<comment> \<open>pool and name\<close>

definition disk_volume :: "smap \<Rightarrow> bool" where
  "disk_volume d \<longleftrightarrow> at_key d ''type'' = ''disk'' \<and> at_key d ''pool'' \<noteq> [] \<and> at_key d ''source'' \<noteq> []"

definition volumes :: "instance_state \<Rightarrow> volume_ref list" where
  "volumes st = map (\<lambda>n. (at_key (device st n) ''pool'', at_key (device st n) ''source''))
     (filter (\<lambda>n. disk_volume (device st n)) (device_names st))"

definition host_path_disk :: "smap \<Rightarrow> bool" where
  "host_path_disk d \<longleftrightarrow> at_key d ''type'' = ''disk'' \<and> at_key d ''pool'' = [] \<and> at_key d ''source'' \<noteq> []"

subsection \<open>Attaching a volume\<close>

definition replace_char :: "char \<Rightarrow> char \<Rightarrow> string \<Rightarrow> string" where
  "replace_char a b s = map (\<lambda>c. if c = a then b else c) s"

definition volume_device_name :: "string \<Rightarrow> string" where
  "volume_device_name mount = (let name = replace_char CHR ''/'' CHR ''-'' (trim_prefix mount ''/'') in if name = [] then ''data-vol'' else name)"

text \<open>\<open>VolumeAttachment\<close>: attached already, or the name of the device that makes attaching an error.\<close>

datatype attachment = Attached | Clash string | Free

definition volume_attachment :: "instance_state \<Rightarrow> string \<Rightarrow> string \<Rightarrow> string \<Rightarrow> attachment" where
  "volume_attachment st pool volume mount =
     (if list_ex (\<lambda>(n, d). at_key d ''type'' = ''disk'' \<and> at_key d ''pool'' = pool \<and> at_key d ''source'' = volume \<and> at_key d ''path'' = mount) (is_devices st)
      then Attached
      else case find (\<lambda>n. let d = device st n in \<not> (at_key d ''type'' \<noteq> ''disk'' \<or> at_key d ''source'' = [])
                 \<and> (at_key d ''path'' = mount \<or> (at_key d ''source'' = volume \<and> at_key d ''pool'' = pool))) (device_names st) of
        Some n \<Rightarrow> Clash n
      | None \<Rightarrow> if map_of (is_devices st) (volume_device_name mount) \<noteq> None then Clash (volume_device_name mount) else Free)"

subsection \<open>Images and profiles\<close>

text \<open>What \<open>ResolveImage\<close> passes on as it is; anything else is looked up as a local alias.\<close>

definition resolve_image :: "(string \<Rightarrow> string option) \<Rightarrow> string \<Rightarrow> string option" where
  "resolve_image alias ref =
     (if ref = [] then None
      else if list_ex (\<lambda>p. prefix p ref) [''images:'', ''docker:'', ''local:'', ''quay:''] then Some ref
      else if hash_ok ref then Some ref else alias ref)"

text \<open>The image \<open>LaunchContainer\<close> names on the command line.\<close>

definition launch_image :: "string \<Rightarrow> string" where
  "launch_image img =
     (if \<not> prefix ''images:'' img \<and> \<not> prefix ''docker:'' img \<and> \<not> prefix ''local:'' img \<and> length img \<noteq> 64
      then ''docker:'' @ trim_prefix img ''docker.io/'' else img)"

definition launch_profiles :: "string list \<Rightarrow> string list" where
  "launch_profiles profiles = (if ''default'' \<in> set profiles then [] else [''default'']) @ profiles"

lemma quay_relaunched_as_docker: "resolve_image alias (''quay:'' @ ref) = Some (''quay:'' @ ref) \<and> (length ref \<noteq> 59 \<longrightarrow> launch_image (''quay:'' @ ref) = ''docker:quay:'' @ ref)"
  by (simp add: resolve_image_def launch_image_def trim_prefix_def)

subsection \<open>Environment files\<close>

abbreviation newline :: char where "newline \<equiv> CHR 0x0A"

definition unquote :: "string \<Rightarrow> string" where
  "unquote v = (if length v \<ge> 2 \<and> (hd v = CHR 0x22 \<or> hd v = CHR 0x27) \<and> last v = hd v then butlast (tl v) else v)"

definition env_line :: "string \<Rightarrow> (string \<times> string) option" where
  "env_line line0 =
     (let line = trim_space line0 in
      if line = [] \<or> prefix ''#'' line then None
      else case cut CHR ''='' line of None \<Rightarrow> None
        | Some (k, v) \<Rightarrow> if trim_space k = [] then None else Some (trim_space k, unquote (trim_space v)))"

definition add_env_line :: "string \<Rightarrow> smap \<Rightarrow> smap" where
  "add_env_line line env = (case env_line line of None \<Rightarrow> env | Some (k, v) \<Rightarrow> AList.update k v env)"

definition parse_env :: "string \<Rightarrow> smap" where
  "parse_env text = fold add_env_line (split_on newline text) []"

definition render_env :: "string \<Rightarrow> smap \<Rightarrow> string" where
  "render_env service env =
     ''# Managed by native-ops for '' @ service @ [newline]
     @ concat (map (\<lambda>k. k @ ''='' @ at_key env k @ [newline]) (sorted_keys env))"

definition merge_env :: "smap \<Rightarrow> smap \<Rightarrow> smap \<times> bool" where
  "merge_env live declared =
     (fold (\<lambda>(k, v). AList.update k v) declared live, list_ex (\<lambda>(k, v). map_of live k \<noteq> Some v) declared)"

text \<open>The keys of \<open>set\<close> met so far, and the lines kept or replaced.\<close>

fun set_env_lines :: "smap \<Rightarrow> string list \<Rightarrow> string list \<Rightarrow> string list \<times> string list" where
  "set_env_lines st done [] = ([], done)"
| "set_env_lines st done (line # lines) =
     (let k = trim_space (case cut CHR ''='' (trim_space line) of None \<Rightarrow> trim_space line | Some (a, b) \<Rightarrow> a) in
      case map_of st k of
        Some v \<Rightarrow>
          if cut CHR ''='' (trim_space line) \<noteq> None \<and> \<not> prefix ''#'' (trim_space line) then
            if k \<in> set done then set_env_lines st done lines
            else (case set_env_lines st (k # done) lines of (out, done') \<Rightarrow> ((k @ ''='' @ v) # out, done'))
          else (case set_env_lines st done lines of (out, done') \<Rightarrow> (line # out, done'))
      | None \<Rightarrow> (case set_env_lines st done lines of (out, done') \<Rightarrow> (line # out, done')))"

definition set_env_keys :: "string \<Rightarrow> smap \<Rightarrow> string" where
  "set_env_keys text st =
     (if length st = 0 then text
      else let lines = (if text = [] then [] else split_on newline (trim_right (\<lambda>c. c = newline) text));
               (out, done) = set_env_lines st [] lines
           in join_with [newline] (out @ map (\<lambda>k. k @ ''='' @ at_key st k) (filter (\<lambda>k. k \<notin> set done) (sorted_keys st))) @ [newline])"

subsection \<open>What an environment file says\<close>

definition plain_value :: "string \<Rightarrow> bool" where
  "plain_value v \<longleftrightarrow> newline \<notin> set v \<and> trim_space v = v \<and> unquote v = v"

definition plain_key :: "string \<Rightarrow> bool" where
  "plain_key k \<longleftrightarrow> k \<noteq> [] \<and> list_all (\<lambda>c. is_alnum c \<or> c = CHR ''_'') k"

lemma plain_key_chars:
  assumes "plain_key k"
  shows "newline \<notin> set k" "CHR ''='' \<notin> set k" "trim_space k = k" "\<not> prefix ''#'' k" "\<not> is_space (hd k)"
proof -
  have p: "\<And>c. c \<in> set k \<Longrightarrow> is_alnum c \<or> c = CHR ''_''" using assms by (simp add: plain_key_def list_all_iff)
  have sp: "\<not> is_space c" if "c \<in> set k" for c using p[OF that] by (auto simp: char_class_defs)
  show "newline \<notin> set k" using sp[of newline] by (auto simp: is_space_def)
  show "CHR ''='' \<notin> set k" using p[of "CHR ''=''"] by (auto simp: char_class_defs)
  have ne: "k \<noteq> []" using assms by (simp add: plain_key_def)
  show h: "\<not> is_space (hd k)" using sp ne by simp
  have "\<not> is_space (last k)" using sp ne by simp
  then show "trim_space k = k" using h ne trim_left_id[of is_space k] trim_right_id[of is_space k] by (simp add: trim_space_def)
  show "\<not> prefix ''#'' k" using p[of "CHR ''#''"] ne by (cases k) (auto simp: char_class_defs)
qed

lemma trim_line:
  assumes "plain_key k" "trim_space v = v"
  shows "trim_space (k @ ''='' @ v) = k @ ''='' @ v"
proof -
  have k: "k \<noteq> []" "\<not> is_space (hd k)" using assms(1) plain_key_chars(5) by (auto simp: plain_key_def)
  have l: "trim_left is_space (k @ ''='' @ v) = k @ ''='' @ v" using k by (simp add: trim_left_id)
  have "v = [] \<or> \<not> is_space (last v)"
  proof (cases "v = []")
    case False
    have "trim_right is_space v = v"
    proof -
      have "length (trim_right is_space (trim_left is_space v)) \<le> length (trim_left is_space v)"
        using length_dropWhile_le[of is_space "rev (trim_left is_space v)"] by (simp add: trim_right_def)
      moreover have "length (trim_left is_space v) \<le> length v" by (simp add: trim_left_def length_dropWhile_le)
      ultimately have "length (trim_left is_space v) = length v" using assms(2) by (simp add: trim_space_def)
      then have "trim_left is_space v = v"
        unfolding trim_left_def by (metis append_same_eq suffix_dropWhile suffix_def append_Nil length_append add_cancel_left_left length_0_conv)
      then show ?thesis using assms(2) by (simp add: trim_space_def)
    qed
    then show ?thesis using False trim_right_id by blast
  qed simp
  then have "\<not> is_space (last (k @ ''='' @ v))" by (auto simp: is_space_def)
  then show ?thesis using l by (simp add: trim_space_def trim_right_id)
qed

lemma env_line_pair:
  assumes "plain_key k" "plain_value v"
  shows "env_line (k @ ''='' @ v) = Some (k, v)"
proof -
  note pk = plain_key_chars[OF assms(1)]
  have v: "trim_space v = v" "unquote v = v" using assms(2) by (simp_all add: plain_value_def)
  have t: "trim_space (k @ ''='' @ v) = k @ CHR ''='' # v" using trim_line[OF assms(1) v(1)] by simp
  have "k \<noteq> []" using assms(1) by (simp add: plain_key_def)
  moreover from this have "\<not> prefix ''#'' (k @ CHR ''='' # v)" using pk(4) by (cases k) simp_all
  ultimately show ?thesis unfolding env_line_def t Let_def using pk(2,3) v by (simp add: cut_append)
qed

lemma parse_rendered:
  "\<forall>k \<in> set ks. plain_key k \<and> plain_value (at_key env k) \<Longrightarrow>
   fold add_env_line (split_on newline (concat (map (\<lambda>k. k @ ''='' @ at_key env k @ [newline]) ks))) acc
     = fold (\<lambda>k. AList.update k (at_key env k)) ks acc"
proof (induction ks arbitrary: acc)
  case Nil
  then show ?case by (simp add: add_env_line_def env_line_def trim_space_def trim_left_def trim_right_def)
next
  case (Cons k ks)
  define l where "l = k @ ''='' @ at_key env k"
  have "newline \<notin> set l" using Cons.prems plain_key_chars(1) by (auto simp: l_def plain_value_def)
  then have "split_on newline (concat (map (\<lambda>k. k @ ''='' @ at_key env k @ [newline]) (k # ks)))
      = l # split_on newline (concat (map (\<lambda>k. k @ ''='' @ at_key env k @ [newline]) ks))"
    using split_on_append[of newline l] by (simp add: l_def)
  moreover have "add_env_line l acc = AList.update k (at_key env k) acc"
    using env_line_pair[of k "at_key env k"] Cons.prems by (simp add: add_env_line_def l_def)
  ultimately show ?case using Cons by simp
qed

lemma map_of_fold_update: "map_of (fold (\<lambda>k. AList.update k (f k)) ks acc) x = (if x \<in> set ks then Some (f x) else map_of acc x)"
  by (induction ks arbitrary: acc) auto

definition plain_env :: "smap \<Rightarrow> bool" where
  "plain_env env \<longleftrightarrow> (\<forall>k v. map_of env k = Some v \<longrightarrow> plain_key k \<and> plain_value v)"

lemma parse_render:
  assumes "valid_name service" "plain_env env"
  shows "map_of (parse_env (render_env service env)) = map_of env"
proof
  fix x
  define ls where "ls = concat (map (\<lambda>k. k @ ''='' @ at_key env k @ [newline]) (sorted_keys env))"
  define h where "h = ''# Managed by native-ops for '' @ service"
  have "newline \<notin> set service" using assms(1) by (auto simp: valid_name_def name_chars_def list_all_iff char_class_defs split: list.splits)
  then have h: "newline \<notin> set h" by (simp add: h_def)
  have "split_on newline (render_env service env) = h # split_on newline ls"
    using split_on_append[OF h, of ls] by (simp add: render_env_def h_def ls_def)
  moreover have "add_env_line h [] = []"
  proof -
    have "prefix ''#'' (trim_space h)"
    proof -
      have "trim_left is_space h = h" by (simp add: trim_left_id h_def is_space_def)
      moreover have "trim_right is_space h \<noteq> []"
      proof
        assume "trim_right is_space h = []"
        then have "\<forall>c \<in> set h. is_space c" by (simp add: trim_right_def dropWhile_eq_Nil_conv)
        then show False by (simp add: h_def is_space_def)
      qed
      ultimately have "hd (trim_space h) = CHR ''#''" "trim_space h \<noteq> []"
        using hd_trim_right[of is_space h] by (simp_all add: trim_space_def h_def)
      then show ?thesis by (cases "trim_space h") simp_all
    qed
    then show ?thesis by (simp add: add_env_line_def env_line_def)
  qed
  moreover have "\<forall>k \<in> set (sorted_keys env). plain_key k \<and> plain_value (at_key env k)"
    using assms(2) by (auto simp: plain_env_def at_key_def value_or_empty_def)
  ultimately have "parse_env (render_env service env) = fold (\<lambda>k. AList.update k (at_key env k)) (sorted_keys env) []"
    unfolding parse_env_def ls_def using parse_rendered by simp
  then show "map_of (parse_env (render_env service env)) x = map_of env x"
    by (auto simp: map_of_fold_update at_key_def value_or_empty_def domIff)
qed

lemma merge_env_map:
  assumes "distinct (map fst declared)"
  shows "map_of (fst (merge_env live declared)) x = (case map_of declared x of Some v \<Rightarrow> Some v | None \<Rightarrow> map_of live x)"
  using assms unfolding merge_env_def fst_conv
proof (induction declared arbitrary: live)
  case (Cons d ds)
  obtain k v where d: "d = (k, v)" by (cases d)
  have "map_of ds k = None" using Cons.prems d by (simp add: map_of_eq_None_iff)
  then show ?case using Cons.IH[of "AList.update k v live"] Cons.prems d by (auto split: option.split)
qed simp

lemma merge_env_same: "snd (merge_env live declared) \<longleftrightarrow> (\<exists>(k, v) \<in> set declared. map_of live k \<noteq> Some v)"
  by (simp add: merge_env_def list_ex_iff)

text \<open>An environment file converges and loses nothing: the file written for the merge of the live
  environment and the declared one reads back as exactly that merge (declared keys have their declared
  values, every other key keeps its own), and merging the declared environment again changes nothing, so the
  service is not restarted a second time.\<close>
theorem env_file_converges:
  assumes "valid_name service" "plain_env live" "plain_env declared" "distinct (map fst declared)"
  shows "(let merged = fst (merge_env live declared); file = parse_env (render_env service merged) in
      map_of file = (\<lambda>k. case map_of declared k of Some v \<Rightarrow> Some v | None \<Rightarrow> map_of live k) \<and> \<not> snd (merge_env file declared))"
proof -
  define merged where "merged = fst (merge_env live declared)"
  have m: "map_of merged k = (case map_of declared k of Some v \<Rightarrow> Some v | None \<Rightarrow> map_of live k)" for k
    unfolding merged_def by (rule merge_env_map[OF assms(4)])
  have "plain_env merged" using assms(2,3) m by (auto simp: plain_env_def split: option.splits)
  then have f: "map_of (parse_env (render_env service merged)) = map_of merged" by (rule parse_render[OF assms(1)])
  have "\<not> snd (merge_env (parse_env (render_env service merged)) declared)"
    using assms(4) by (auto simp: merge_env_same f m)
  then show ?thesis unfolding Let_def merged_def[symmetric] f using m by blast
qed

theorem env_file_converges_witness:
  "map_of (parse_env (render_env ''web'' (fst (merge_env [(''TOKEN'', ''t0'')] [(''PORT'', ''80'')])))) ''TOKEN'' = Some ''t0''"
proof -
  have p: "plain_key k \<and> plain_value v" if "(k, v) \<in> {(''TOKEN'', ''t0''), (''PORT'', ''80'')}" for k v
    using that by (auto simp: plain_key_def plain_value_def unquote_def char_class_defs trim_space_def trim_left_def trim_right_def)
  have "plain_env [(''TOKEN'', ''t0'')]" "plain_env [(''PORT'', ''80'')]" using p by (auto simp: plain_env_def)
  moreover have "valid_name ''web''" by (simp add: valid_name_def name_chars_def char_class_defs)
  ultimately show ?thesis
    using env_file_converges[of "''web''" "[(''TOKEN'', ''t0'')]" "[(''PORT'', ''80'')]"] by (simp add: Let_def)
qed

text \<open>A value in quotes does not converge: it is read back without them, so every run finds a change.\<close>

lemma quoted_value_never_converges:
  "snd (merge_env (parse_env (render_env ''web'' [(''MOTD'', [CHR 0x22, CHR ''a'', CHR 0x22])])) [(''MOTD'', [CHR 0x22, CHR ''a'', CHR 0x22])])"
  by code_simp

end
