(* ===== verification/Backups.thy ===== *)
theory Backups
  imports Go_Time Fleet_Config Incus
begin

text \<open>
  Off-host backups of volumes and their restore (\<open>pkg/backup/manager.go\<close>, with the volume commands of
  \<open>pkg/incus/volumes.go\<close>), over an object store and the Incus host.

  \<^item> Incus and the store are not under \<open>src/\<close>: each call is a function of the argument \<open>services\<close>, over a
    state \<open>'w\<close> of the outside world that nothing here looks into. What the restore relies on is stated as
    \<open>incus_documented\<close>, over what can be observed of that state: the data of a volume, and which containers run.
  \<^item> SHA-256 in hex is the argument \<open>H\<close>, the manifest's JSON the pair \<open>codec\<close>; \<open>backup_io\<close> says which of the
    local file operations succeed. Errors are named by what failed.
\<close>

subsection \<open>Object keys\<close>

record manager =
  mg_cfg :: backup_config
  mg_store :: bool
  mg_host :: string
  mg_host_ok :: bool

definition host_name_ok :: "string \<Rightarrow> bool" where
  "host_name_ok h \<longleftrightarrow> name_chars 252 h \<and> \<not> sublist ''..'' h"

text \<open>\<open>os_host\<close> is \<open>os.Hostname\<close>; \<open>store\<close>: an object store was given.\<close>

definition new_manager :: "bool \<Rightarrow> backup_config \<Rightarrow> string option \<Rightarrow> manager" where
  "new_manager store cfg os_host =
     (let own = trim_space (bc_host cfg) in
      if own = [] then (case os_host of None \<Rightarrow> \<lparr>mg_cfg = cfg, mg_store = store, mg_host = [], mg_host_ok = False\<rparr>
        | Some h \<Rightarrow> \<lparr>mg_cfg = cfg, mg_store = store, mg_host = h, mg_host_ok = host_name_ok h\<rparr>)
      else \<lparr>mg_cfg = cfg, mg_store = store, mg_host = own, mg_host_ok = host_name_ok own\<rparr>)"

definition key_base :: "manager \<Rightarrow> string" where
  "key_base m = (let p = trim_prefix (bc_prefix (mg_cfg m)) ''/'' in if p \<noteq> [] \<and> \<not> suffix ''/'' p then p @ ''/'' else p)"

definition key_prefix :: "manager \<Rightarrow> string \<Rightarrow> string" where
  "key_prefix m volume = key_base m @ mg_host m @ ''/'' @ volume @ ''/''"

definition legacy_key_prefix :: "manager \<Rightarrow> string \<Rightarrow> string" where
  "legacy_key_prefix m volume = trim_prefix (bc_prefix (mg_cfg m)) ''/'' @ volume @ ''/''"

definition object_key :: "manager \<Rightarrow> string \<Rightarrow> time \<Rightarrow> string" where
  "object_key m volume t = key_prefix m volume @ format_stamp (stamp_of t) @ ''.tar.gz''"

definition manifest_key :: "manager \<Rightarrow> string \<Rightarrow> string" where
  "manifest_key m volume = key_prefix m volume @ ''latest.json''"

definition legacy_manifest_key :: "manager \<Rightarrow> string \<Rightarrow> string" where
  "legacy_manifest_key m volume = legacy_key_prefix m volume @ ''latest.json''"

subsection \<open>Retention\<close>

text \<open>\<open>parseObjectTime\<close>: the stamp after the last slash.\<close>

definition parse_object_time :: "string \<Rightarrow> stamp option" where
  "parse_object_time key =
     (let base = trim_suffix (case cut_last CHR ''/'' key of Some (_, b) \<Rightarrow> b | None \<Rightarrow> key) ''.tar.gz'' in
      if length base < 16 then None else parse_stamp (take 16 base))"

text \<open>The months already claimed while walking the items, newest first: the first of each month is kept,
  until \<open>monthly\<close> months are claimed.\<close>

fun keep_monthly :: "nat \<Rightarrow> (int \<times> nat) list \<Rightarrow> (string \<times> stamp) list \<Rightarrow> string list" where
  "keep_monthly monthly months [] = []"
| "keep_monthly monthly months ((k, s) # items) =
     (if (sm_year s, sm_month s) \<in> set months then keep_monthly monthly months items
      else k # (if length months + 1 \<ge> monthly then [] else keep_monthly monthly ((sm_year s, sm_month s) # months) items))"

definition prune_items :: "string list \<Rightarrow> (string \<times> stamp) list" where
  "prune_items keys = newest_first (\<lambda>(k, s). stamp_time s)
     (concat (map (\<lambda>k. case parse_object_time k of None \<Rightarrow> [] | Some s \<Rightarrow> [(k, s)]) keys))"

definition prune_cutoff :: "int \<Rightarrow> time \<Rightarrow> time" where
  "prune_cutoff days now = now + duration (- days * 24 * hour)"

definition keep_set :: "(string \<times> stamp) list \<Rightarrow> int \<Rightarrow> int \<Rightarrow> int \<Rightarrow> time \<Rightarrow> string list" where
  "keep_set items daily monthly days now =
     (case items of [] \<Rightarrow> [] | (k, _) # _ \<Rightarrow> [k])
     @ (if days > 0 then map fst (filter (\<lambda>(k, s). stamp_time s > prune_cutoff days now) items) else [])
     @ map fst (take (nat daily) items)
     @ (if monthly > 0 then keep_monthly (nat monthly) [] items else [])"

definition select_prune :: "string list \<Rightarrow> int \<Rightarrow> int \<Rightarrow> int \<Rightarrow> time \<Rightarrow> string list" where
  "select_prune keys daily monthly days now =
     (let items = prune_items keys; keep = keep_set items daily monthly days now
      in map fst (filter (\<lambda>(k, s). k \<notin> set keep) items))"

subsection \<open>The services\<close>

datatype get_failure = NotFound | GetFailed
datatype run_result = RanOk | AlreadySo | RunFailed

record s3_object =
  so_key :: string
  so_size :: nat
  so_modified :: time

text \<open>An instance as \<open>incus list\<close> prints it: its devices as type and source.\<close>

record instance_row =
  ir_name :: string
  ir_devices :: "(string \<times> string) list"

record 'w services =
  sv_put :: "string \<Rightarrow> string \<Rightarrow> string \<Rightarrow> 'w \<Rightarrow> 'w \<times> bool"
  sv_get :: "string \<Rightarrow> 'w \<Rightarrow> get_failure + string"
  sv_head :: "string \<Rightarrow> 'w \<Rightarrow> nat option"
  sv_list :: "string \<Rightarrow> 'w \<Rightarrow> s3_object list option"
  sv_delete_object :: "string \<Rightarrow> 'w \<Rightarrow> 'w \<times> bool"
  sv_volumes :: "string \<Rightarrow> 'w \<Rightarrow> (string \<times> string) list option"
  sv_snapshot :: "string \<Rightarrow> string \<Rightarrow> string \<Rightarrow> 'w \<Rightarrow> 'w \<times> bool"
  sv_snapshot_delete :: "string \<Rightarrow> string \<Rightarrow> string \<Rightarrow> 'w \<Rightarrow> 'w \<times> bool"
  sv_export :: "string \<Rightarrow> string \<Rightarrow> 'w \<Rightarrow> 'w \<times> string option"
  sv_import :: "string \<Rightarrow> string \<Rightarrow> string \<Rightarrow> 'w \<Rightarrow> 'w \<times> bool"
  sv_copy :: "string \<Rightarrow> string \<Rightarrow> string \<Rightarrow> 'w \<Rightarrow> 'w \<times> bool"
  sv_delete_volume :: "string \<Rightarrow> string \<Rightarrow> 'w \<Rightarrow> 'w \<times> bool"
  sv_instances :: "'w \<Rightarrow> instance_row list option"
  sv_stop :: "string \<Rightarrow> 'w \<Rightarrow> 'w \<times> run_result"
  sv_start :: "string \<Rightarrow> 'w \<Rightarrow> 'w \<times> run_result"

record backup_io =
  bi_tmp :: bool
  bi_create :: bool
  bi_copied :: bool
  bi_hash :: bool
  bi_open :: bool

record backup_manifest =
  bm_volume :: string
  bm_pool :: string
  bm_created :: time
  bm_snapshot :: string
  bm_key :: string
  bm_size :: nat
  bm_sha :: string

type_synonym codec = "(backup_manifest \<Rightarrow> string) \<times> (string \<Rightarrow> backup_manifest option)"

datatype backup_error =
    NoStore | NoHostName | NoTempDir | LocalFile | NoManifest | BadManifest | StoreFailed | SizeMismatch
  | ChecksumMismatch | IncusFailed | InUse "string list"

definition or_default :: "string \<Rightarrow> string" where "or_default pool = (if pool = [] then ''default'' else pool)"

definition list_custom_volumes :: "'w services \<Rightarrow> string \<Rightarrow> 'w \<Rightarrow> string list option" where
  "list_custom_volumes sv pool w = map_option (\<lambda>rows. map fst (filter (\<lambda>(n, ty). ty = ''custom'') rows)) (sv_volumes sv (or_default pool) w)"

definition volume_dependents :: "'w services \<Rightarrow> string \<Rightarrow> 'w \<Rightarrow> string list option" where
  "volume_dependents sv volume w =
     map_option (\<lambda>rows. map ir_name (filter (\<lambda>r. list_ex (\<lambda>(ty, src). ty = ''disk'' \<and> src = volume) (ir_devices r)) rows)) (sv_instances sv w)"

definition stop_container :: "'w services \<Rightarrow> string \<Rightarrow> 'w \<Rightarrow> 'w \<times> bool" where
  "stop_container sv c w = (case sv_stop sv c w of (w', r) \<Rightarrow> (w', r \<noteq> RunFailed))"

definition start_container :: "'w services \<Rightarrow> string \<Rightarrow> 'w \<Rightarrow> 'w \<times> bool" where
  "start_container sv c w = (case sv_start sv c w of (w', r) \<Rightarrow> (w', r \<noteq> RunFailed))"

definition duplicate_volume :: "'w services \<Rightarrow> string \<Rightarrow> string \<Rightarrow> string \<Rightarrow> 'w \<Rightarrow> 'w \<times> bool" where
  "duplicate_volume sv pool volume copy w =
     (if \<not> valid_name (or_default pool) \<or> \<not> valid_name volume \<or> \<not> valid_name copy then (w, False)
      else sv_copy sv (or_default pool) volume copy w)"

definition delete_volume :: "'w services \<Rightarrow> string \<Rightarrow> string \<Rightarrow> 'w \<Rightarrow> 'w \<times> bool" where
  "delete_volume sv pool volume w =
     (if \<not> valid_name (or_default pool) \<or> \<not> valid_name volume then (w, False) else sv_delete_volume sv (or_default pool) volume w)"

subsection \<open>Pruning\<close>

definition prune_candidate :: "string \<Rightarrow> string \<Rightarrow> bool" where
  "prune_candidate pre key \<longleftrightarrow>
     \<not> (\<not> prefix pre key \<or> CHR ''/'' \<in> set (trim_prefix key pre) \<or> \<not> suffix ''.tar.gz'' key)"

fun delete_each :: "'w services \<Rightarrow> string list \<Rightarrow> 'w \<Rightarrow> 'w \<times> bool" where
  "delete_each sv [] w = (w, True)"
| "delete_each sv (k # ks) w = (case sv_delete_object sv k w of (w1, ok) \<Rightarrow> if ok then delete_each sv ks w1 else (w1, False))"

definition retains_all :: "backup_config \<Rightarrow> bool" where
  "retains_all cfg \<longleftrightarrow> bc_daily cfg = 0 \<and> bc_monthly cfg = 0 \<and> bc_days cfg = 0"

text \<open>What a prune at \<open>now\<close> of the listing \<open>objs\<close> deletes.\<close>

definition prune_plan :: "manager \<Rightarrow> string \<Rightarrow> s3_object list \<Rightarrow> time \<Rightarrow> string list" where
  "prune_plan m volume objs now =
     select_prune (filter (prune_candidate (key_prefix m volume)) (map so_key objs))
       (bc_daily (mg_cfg m)) (bc_monthly (mg_cfg m)) (bc_days (mg_cfg m)) now"

definition prune_volume :: "'w services \<Rightarrow> manager \<Rightarrow> string \<Rightarrow> time \<Rightarrow> 'w \<Rightarrow> 'w \<times> (backup_error + string list)" where
  "prune_volume sv m volume now w =
     (if retains_all (mg_cfg m) then (w, Inr [])
      else if \<not> mg_store m then (w, Inl NoStore)
      else if \<not> mg_host_ok m then (w, Inl NoHostName)
      else case sv_list sv (key_prefix m volume) w of
        None \<Rightarrow> (w, Inl StoreFailed)
      | Some objs \<Rightarrow>
          let del = prune_plan m volume objs now in
          case delete_each sv del w of (w1, ok) \<Rightarrow> (w1, if ok then Inr del else Inl StoreFailed))"

text \<open>\<open>nows i\<close> is the clock at the i-th volume's turn; the keys deleted before a failure are returned with it.\<close>

fun prune_each :: "'w services \<Rightarrow> manager \<Rightarrow> string list \<Rightarrow> (nat \<Rightarrow> time) \<Rightarrow> 'w \<Rightarrow> 'w \<times> string list \<times> backup_error option" where
  "prune_each sv m [] nows w = (w, [], None)"
| "prune_each sv m (v # vs) nows w = (case prune_volume sv m v (nows 0) w of
     (w1, Inl e) \<Rightarrow> (w1, [], Some e)
   | (w1, Inr del) \<Rightarrow> (case prune_each sv m vs (\<lambda>i. nows (Suc i)) w1 of (w2, rest, e) \<Rightarrow> (w2, del @ rest, e)))"

definition backup_names :: "'w services \<Rightarrow> manager \<Rightarrow> string \<Rightarrow> 'w \<Rightarrow> string list option" where
  "backup_names sv m pool w =
     (if length (bc_volumes (mg_cfg m)) = 0 then list_custom_volumes sv (or_default pool) w else Some (bc_volumes (mg_cfg m)))"

definition prune_all :: "'w services \<Rightarrow> manager \<Rightarrow> string \<Rightarrow> (nat \<Rightarrow> time) \<Rightarrow> 'w \<Rightarrow> 'w \<times> string list \<times> backup_error option" where
  "prune_all sv m pool nows w = (case backup_names sv m pool w of None \<Rightarrow> (w, [], Some IncusFailed) | Some vs \<Rightarrow> prune_each sv m vs nows w)"

subsection \<open>Backing up\<close>

definition write_manifest :: "'w services \<Rightarrow> manager \<Rightarrow> (string \<Rightarrow> string) \<Rightarrow> codec \<Rightarrow> backup_manifest \<Rightarrow> 'w \<Rightarrow> 'w \<times> bool" where
  "write_manifest sv m H js man w = (let buf = fst js man in sv_put sv (manifest_key m (bm_volume man)) buf (H buf) w)"

text \<open>After the export: hash, upload, check the size of what is there, record it, drop the snapshot.\<close>

definition upload_backup ::
  "'w services \<Rightarrow> manager \<Rightarrow> backup_io \<Rightarrow> (string \<Rightarrow> string) \<Rightarrow> codec \<Rightarrow> string \<Rightarrow> string \<Rightarrow> string \<Rightarrow> time \<Rightarrow> string \<Rightarrow> 'w
     \<Rightarrow> 'w \<times> (backup_error + backup_manifest)" where
  "upload_backup sv m io H js pool volume snap now artifact w =
     (if \<not> bi_hash io then (w, Inl LocalFile)
      else let sha = H artifact; size = length artifact; key = object_key m volume now in
      if \<not> bi_open io then (w, Inl LocalFile)
      else case sv_put sv key artifact sha w of (w1, put) \<Rightarrow>
      if \<not> put then (w1, Inl StoreFailed)
      else case sv_head sv key w1 of
        None \<Rightarrow> (w1, Inl StoreFailed)
      | Some there \<Rightarrow>
          if there \<noteq> size then (w1, Inl SizeMismatch)
          else let man = \<lparr>bm_volume = volume, bm_pool = pool, bm_created = now, bm_snapshot = snap, bm_key = key, bm_size = size, bm_sha = sha\<rparr> in
          case write_manifest sv m H js man w1 of (w2, wrote) \<Rightarrow>
          if \<not> wrote then (w2, Inl StoreFailed)
          else if bc_keep_local (mg_cfg m) then (w2, Inr man)
          else (fst (sv_snapshot_delete sv pool volume snap w2), Inr man))"

definition create_volume ::
  "'w services \<Rightarrow> manager \<Rightarrow> backup_io \<Rightarrow> (string \<Rightarrow> string) \<Rightarrow> codec \<Rightarrow> string \<Rightarrow> string \<Rightarrow> time \<Rightarrow> 'w
     \<Rightarrow> 'w \<times> (backup_error + backup_manifest)" where
  "create_volume sv m io H js pool0 volume now w =
     (if \<not> mg_store m then (w, Inl NoStore)
      else if \<not> mg_host_ok m then (w, Inl NoHostName)
      else let pool = or_default pool0; snap = ''backup-'' @ format_stamp (stamp_of now) in
      if \<not> bi_tmp io then (w, Inl NoTempDir)
      else case sv_snapshot sv pool volume snap w of (w1, snapped) \<Rightarrow>
      if \<not> snapped then (w1, Inl IncusFailed)
      else case sv_export sv pool (volume @ ''/'' @ snap) w1 of
        (w2, None) \<Rightarrow> (w2, Inl IncusFailed)
      | (w2, Some artifact) \<Rightarrow> upload_backup sv m io H js pool volume snap now artifact w2)"

fun create_each ::
  "'w services \<Rightarrow> manager \<Rightarrow> (nat \<Rightarrow> backup_io) \<Rightarrow> (string \<Rightarrow> string) \<Rightarrow> codec \<Rightarrow> string \<Rightarrow> string list \<Rightarrow> (nat \<Rightarrow> time) \<Rightarrow> 'w
     \<Rightarrow> 'w \<times> backup_manifest list \<times> backup_error option" where
  "create_each sv m io H js pool [] nows w = (w, [], None)"
| "create_each sv m io H js pool (v # vs) nows w = (case create_volume sv m (io 0) H js pool v (nows 0) w of
     (w1, Inl e) \<Rightarrow> (w1, [], Some e)
   | (w1, Inr man) \<Rightarrow> (case create_each sv m (\<lambda>i. io (Suc i)) H js pool vs (\<lambda>i. nows (Suc i)) w1 of (w2, out, e) \<Rightarrow> (w2, man # out, e)))"

definition create_volumes ::
  "'w services \<Rightarrow> manager \<Rightarrow> (nat \<Rightarrow> backup_io) \<Rightarrow> (string \<Rightarrow> string) \<Rightarrow> codec \<Rightarrow> string \<Rightarrow> (nat \<Rightarrow> time) \<Rightarrow> 'w
     \<Rightarrow> 'w \<times> backup_manifest list \<times> backup_error option" where
  "create_volumes sv m io H js pool nows w = (case backup_names sv m pool w of
     None \<Rightarrow> (w, [], Some IncusFailed) | Some vs \<Rightarrow> create_each sv m io H js (or_default pool) vs nows w)"

subsection \<open>Manifests and listings\<close>

definition read_manifest_at :: "'w services \<Rightarrow> codec \<Rightarrow> string \<Rightarrow> 'w \<Rightarrow> backup_error + backup_manifest" where
  "read_manifest_at sv js key w = (case sv_get sv key w of
     Inl NotFound \<Rightarrow> Inl NoManifest
   | Inl GetFailed \<Rightarrow> Inl StoreFailed
   | Inr body \<Rightarrow> (case snd js body of None \<Rightarrow> Inl BadManifest | Some man \<Rightarrow> Inr man))"

definition read_manifest :: "'w services \<Rightarrow> manager \<Rightarrow> codec \<Rightarrow> string \<Rightarrow> 'w \<Rightarrow> backup_error + backup_manifest" where
  "read_manifest sv m js volume w =
     (let legacy = read_manifest_at sv js (legacy_manifest_key m volume) w in
      if mg_host_ok m then (let r = read_manifest_at sv js (manifest_key m volume) w in if r \<noteq> Inl NoManifest then r else legacy)
      else legacy)"

text \<open>\<open>knownSHA\<close>; the empty text is no checksum.\<close>

fun sha_in :: "'w services \<Rightarrow> codec \<Rightarrow> string \<Rightarrow> 'w \<Rightarrow> string list \<Rightarrow> string" where
  "sha_in sv js key w [] = []"
| "sha_in sv js key w (mk # mks) = (case read_manifest_at sv js mk w of
     Inr man \<Rightarrow> if bm_key man = key then bm_sha man else sha_in sv js key w mks
   | Inl _ \<Rightarrow> sha_in sv js key w mks)"

definition known_sha :: "'w services \<Rightarrow> manager \<Rightarrow> codec \<Rightarrow> string \<Rightarrow> string \<Rightarrow> 'w \<Rightarrow> string" where
  "known_sha sv m js volume key w =
     sha_in sv js key w ((if mg_host_ok m then [manifest_key m volume] else []) @ [legacy_manifest_key m volume])"

definition list_legacy :: "'w services \<Rightarrow> manager \<Rightarrow> string \<Rightarrow> 'w \<Rightarrow> s3_object list option" where
  "list_legacy sv m volume w =
     (let lp = legacy_key_prefix m volume in
      if mg_host_ok m \<and> lp = key_prefix m volume then Some []
      else map_option (filter (\<lambda>obj. let rest = trim_prefix (so_key obj) lp in rest \<noteq> [] \<and> CHR ''/'' \<notin> set rest)) (sv_list sv lp w))"

definition list_volume ::
  "'w services \<Rightarrow> manager \<Rightarrow> codec \<Rightarrow> string \<Rightarrow> 'w \<Rightarrow> backup_error + (s3_object list \<times> backup_manifest option)" where
  "list_volume sv m js volume w =
     (if \<not> mg_store m then Inl NoStore
      else case (if mg_host_ok m then sv_list sv (key_prefix m volume) w else Some []) of
        None \<Rightarrow> Inl StoreFailed
      | Some own \<Rightarrow> (case list_legacy sv m volume w of
          None \<Rightarrow> Inl StoreFailed
        | Some legacy \<Rightarrow> (case read_manifest sv m js volume w of
            Inr man \<Rightarrow> Inr (newest_first so_modified (own @ legacy), Some man)
          | Inl e \<Rightarrow> if e = NoManifest then Inr (newest_first so_modified (own @ legacy), None) else Inl e)))"

subsection \<open>Restoring\<close>

record restore_options =
  ro_pool :: string
  ro_volume :: string
  ro_from :: string
  ro_as :: string
  ro_force :: bool

definition download :: "'w services \<Rightarrow> backup_io \<Rightarrow> string \<Rightarrow> 'w \<Rightarrow> backup_error + string" where
  "download sv io key w = (case sv_get sv key w of
     Inl _ \<Rightarrow> Inl StoreFailed
   | Inr body \<Rightarrow> if \<not> bi_create io then Inl LocalFile else if \<not> bi_copied io then Inl LocalFile else Inr body)"

definition wanted_backup :: "'w services \<Rightarrow> manager \<Rightarrow> codec \<Rightarrow> restore_options \<Rightarrow> 'w \<Rightarrow> backup_error + string \<times> string" where
  "wanted_backup sv m js opts w =
     (if ro_from opts = [] \<or> ro_from opts = ''latest''
      then (case read_manifest sv m js (ro_volume opts) w of Inl e \<Rightarrow> Inl e | Inr man \<Rightarrow> Inr (bm_key man, bm_sha man))
      else Inr (ro_from opts, known_sha sv m js (ro_volume opts) (ro_from opts) w))"

definition fetch_backup ::
  "'w services \<Rightarrow> manager \<Rightarrow> backup_io \<Rightarrow> (string \<Rightarrow> string) \<Rightarrow> codec \<Rightarrow> restore_options \<Rightarrow> 'w \<Rightarrow> backup_error + string" where
  "fetch_backup sv m io H js opts w = (case wanted_backup sv m js opts w of
     Inl e \<Rightarrow> Inl e
   | Inr (key, want) \<Rightarrow>
       if \<not> bi_tmp io then Inl NoTempDir
       else case download sv io key w of
         Inl e \<Rightarrow> Inl e
       | Inr artifact \<Rightarrow>
           if want = [] then Inr artifact
           else if \<not> bi_hash io then Inl LocalFile
           else if H artifact \<noteq> want then Inl ChecksumMismatch else Inr artifact)"

definition format_pre :: "stamp \<Rightarrow> string" where \<comment> \<open>\<open>20060102t150405\<close>\<close>
  "format_pre s = four_digits (sm_year s) @ two_digits (sm_month s) @ two_digits (sm_day s) @ ''t''
     @ two_digits (nat (sm_secs s) div 3600) @ two_digits (nat (sm_secs s) div 60 mod 60) @ two_digits (nat (sm_secs s) mod 60)"

definition pre_restore_name :: "string \<Rightarrow> time \<Rightarrow> string" where
  "pre_restore_name volume now =
     (let suf = ''-pre-restore-'' @ format_pre (stamp_of now); room = 63 - length suf in
      (if length volume > room then trim_right (\<lambda>c. c \<in> set ''.-_'') (take room volume) else volume) @ suf)"

text \<open>The containers to stop, one by one: what was stopped, and whether all were.\<close>

fun stop_each :: "'w services \<Rightarrow> string list \<Rightarrow> 'w \<Rightarrow> 'w \<times> string list \<times> bool" where
  "stop_each sv [] w = (w, [], True)"
| "stop_each sv (c # cs) w = (case stop_container sv c w of (w1, ok) \<Rightarrow>
     if ok then (case stop_each sv cs w1 of (w2, stopped, all) \<Rightarrow> (w2, c # stopped, all)) else (w1, [], False))"

fun start_each :: "'w services \<Rightarrow> string list \<Rightarrow> 'w \<Rightarrow> 'w \<times> bool" where
  "start_each sv [] w = (w, True)"
| "start_each sv (c # cs) w = (case start_container sv c w of (w1, ok) \<Rightarrow> (case start_each sv cs w1 of (w2, all) \<Rightarrow> (w2, ok \<and> all)))"

text \<open>The closure \<open>restart\<close>: an error already there stays the result.\<close>

definition restart :: "'w services \<Rightarrow> string list \<Rightarrow> backup_error option \<Rightarrow> 'w \<Rightarrow> 'w \<times> backup_error option" where
  "restart sv stopped err w = (case start_each sv stopped w of (w', ok) \<Rightarrow>
     (w', case err of Some e \<Rightarrow> Some e | None \<Rightarrow> if ok then None else Some IncusFailed))"

definition replace_volume :: "'w services \<Rightarrow> string \<Rightarrow> string \<Rightarrow> string \<Rightarrow> string \<Rightarrow> 'w \<Rightarrow> 'w \<times> backup_error option" where
  "replace_volume sv pool volume pre artifact w =
     (case duplicate_volume sv pool volume pre w of (w1, copied) \<Rightarrow>
      if \<not> copied then (w1, Some IncusFailed)
      else case delete_volume sv pool volume w1 of (w2, deleted) \<Rightarrow>
      if \<not> deleted then (w2, Some IncusFailed)
      else case sv_import sv (or_default pool) artifact volume w2 of (w3, imported) \<Rightarrow> (w3, if imported then None else Some IncusFailed))"

definition restore_in_place :: "'w services \<Rightarrow> string \<Rightarrow> restore_options \<Rightarrow> time \<Rightarrow> string \<Rightarrow> 'w \<Rightarrow> 'w \<times> backup_error option" where
  "restore_in_place sv pool opts now artifact w =
     (case volume_dependents sv (ro_volume opts) w of
        None \<Rightarrow> (w, Some IncusFailed)
      | Some deps \<Rightarrow>
          if length deps > 0 \<and> \<not> ro_force opts then (w, Some (InUse deps))
          else case stop_each sv deps w of (w1, stopped, all) \<Rightarrow>
          if \<not> all then restart sv stopped (Some IncusFailed) w1
          else case replace_volume sv pool (ro_volume opts) (pre_restore_name (ro_volume opts) now) artifact w1 of
            (w2, err) \<Rightarrow> restart sv stopped err w2)"

definition restore_backup ::
  "'w services \<Rightarrow> manager \<Rightarrow> backup_io \<Rightarrow> (string \<Rightarrow> string) \<Rightarrow> codec \<Rightarrow> restore_options \<Rightarrow> time \<Rightarrow> 'w \<Rightarrow> 'w \<times> backup_error option" where
  "restore_backup sv m io H js opts now w =
     (if \<not> mg_store m then (w, Some NoStore)
      else let pool = or_default (ro_pool opts) in
      case fetch_backup sv m io H js opts w of
        Inl e \<Rightarrow> (w, Some e)
      | Inr artifact \<Rightarrow>
          if ro_as opts \<noteq> []
          then (case sv_import sv pool artifact (ro_as opts) w of (w1, ok) \<Rightarrow> (w1, if ok then None else Some IncusFailed))
          else restore_in_place sv pool opts now artifact w)"

subsection \<open>What retention keeps\<close>

definition month_of_stamp :: "stamp \<Rightarrow> int \<times> nat" where "month_of_stamp s = (sm_year s, sm_month s)"

text \<open>Of the items, one with a key in \<open>K\<close> of month \<open>x\<close>, not older than \<open>s\<close>.\<close>

definition kept_in_month :: "(string \<times> stamp) list \<Rightarrow> string set \<Rightarrow> stamp \<Rightarrow> int \<times> nat \<Rightarrow> bool" where
  "kept_in_month items K s x \<longleftrightarrow>
     (\<exists>k' s'. (k', s') \<in> set items \<and> k' \<in> K \<and> month_of_stamp s' = x \<and> stamp_time s \<le> stamp_time s')"

lemma kept_in_month_mono:
  "kept_in_month items K s x \<Longrightarrow> set items \<subseteq> set items' \<Longrightarrow> K \<subseteq> K' \<Longrightarrow> kept_in_month items' K' s x"
  unfolding kept_in_month_def by blast

lemma keep_monthly_claims:
  assumes "sorted_wrt (\<lambda>(_, s) (_, s'). stamp_time s' \<le> stamp_time s) items" "length months < n"
    and "(k, s) \<in> set items" "k \<notin> set (keep_monthly n months items)"
  shows "month_of_stamp s \<in> set months \<or> kept_in_month items (set (keep_monthly n months items)) s (month_of_stamp s)
    \<or> (\<exists>ms. distinct ms \<and> length ms = n - length months \<and> month_of_stamp s \<notin> set ms
         \<and> (\<forall>x \<in> set ms. x \<notin> set months \<and> kept_in_month items (set (keep_monthly n months items)) s x))"
  using assms
proof (induction items arbitrary: months)
  case (Cons item items)
  obtain k0 s0 where item: "item = (k0, s0)" by (cases item)
  define x0 where "x0 = month_of_stamp s0"
  have x0: "(sm_year s0, sm_month s0) = x0" by (simp add: x0_def month_of_stamp_def)
  have srt: "sorted_wrt (\<lambda>(_, s) (_, s'). stamp_time s' \<le> stamp_time s) items" using Cons.prems(1) by simp
  note up = kept_in_month_mono[where items = items and items' = "item # items"]
  show ?case
  proof (cases "x0 \<in> set months")
    case True
    then have eq: "keep_monthly n months (item # items) = keep_monthly n months items" by (simp add: item x0)
    show ?thesis
    proof (cases "(k, s) = (k0, s0)")
      case False
      then have "(k, s) \<in> set items" using Cons.prems(3) item by auto
      from Cons.IH[OF srt Cons.prems(2) this] Cons.prems(4) show ?thesis
        unfolding eq using up by (meson order_refl set_subset_Cons)
    qed (use True x0_def in simp)
  next
    case new: False
    define rest where "rest = (if length months + 1 \<ge> n then [] else keep_monthly n (x0 # months) items)"
    have eq: "keep_monthly n months (item # items) = k0 # rest" using new by (simp add: item x0 rest_def)
    have k: "k \<noteq> k0" "k \<notin> set rest" using Cons.prems(4) unfolding eq by simp_all
    have mem: "(k, s) \<in> set items" using Cons.prems(3) k(1) item by auto
    have hd: "kept_in_month (item # items) (set (k0 # rest)) s x0"
      using Cons.prems(1) mem item x0_def by (fastforce simp: kept_in_month_def)
    have tl: "kept_in_month items (set rest) s x \<Longrightarrow> kept_in_month (item # items) (set (k0 # rest)) s x" for x
      using up by (meson set_subset_Cons)
    consider "month_of_stamp s = x0" | "month_of_stamp s \<noteq> x0" "length months + 1 \<ge> n" | "month_of_stamp s \<noteq> x0" "\<not> length months + 1 \<ge> n" by blast
    then show ?thesis
    proof cases
      case 1
      then show ?thesis unfolding eq using hd by simp
    next
      case 2
      then have "length [x0] = n - length months" using Cons.prems(2) by simp
      then show ?thesis unfolding eq using hd new 2(1) by (intro disjI2 exI[of _ "[x0]"]) auto
    next
      case 3
      then have r: "rest = keep_monthly n (x0 # months) items" and len: "length (x0 # months) < n" by (simp_all add: rest_def)
      have "k \<notin> set (keep_monthly n (x0 # months) items)" using k(2) r by simp
      from Cons.IH[OF srt len mem this, folded r] consider (claimed) "month_of_stamp s \<in> set (x0 # months)"
        | (same) "kept_in_month items (set rest) s (month_of_stamp s)"
        | (full) ms where "distinct ms" "length ms = n - length (x0 # months)" "month_of_stamp s \<notin> set ms"
          "\<forall>x \<in> set ms. x \<notin> set (x0 # months) \<and> kept_in_month items (set rest) s x" by blast
      then show ?thesis
      proof cases
        case full
        then have "distinct (x0 # ms)" "length (x0 # ms) = n - length months" using 3(2) by auto
        then show ?thesis unfolding eq using full 3(1) new hd tl by (intro disjI2 exI[of _ "x0 # ms"]) auto
      qed (use 3 tl eq in auto)
    qed
  qed
qed simp

lemma prune_items_sorted: "sorted_wrt (\<lambda>(_, s) (_, s'). stamp_time s' \<le> stamp_time s) (prune_items keys)"
  using newest_first_sorted[of "\<lambda>(k, s). stamp_time s"] unfolding prune_items_def by (simp add: case_prod_unfold)

lemma prune_items_in: "(k, s) \<in> set (prune_items keys) \<longleftrightarrow> k \<in> set keys \<and> parse_object_time k = Some s"
  by (auto simp: prune_items_def split: option.splits)

lemma prune_items_distinct: "distinct keys \<Longrightarrow> distinct (map fst (prune_items keys))"
proof -
  have "map fst (concat (map (\<lambda>k. case parse_object_time k of None \<Rightarrow> [] | Some s \<Rightarrow> [(k, s)]) keys)) = filter (\<lambda>k. parse_object_time k \<noteq> None) keys"
    by (induction keys) (auto split: option.splits)
  then show "distinct keys \<Longrightarrow> distinct (map fst (prune_items keys))"
    by (simp add: prune_items_def distinct_map_newest_first)
qed

text \<open>What a key has to be for retention to give it up: \<open>s\<close> is its stamp, \<open>items\<close> the keys ranked with it
  and \<open>K\<close> those that stay.\<close>

definition given_up :: "int \<Rightarrow> int \<Rightarrow> int \<Rightarrow> time \<Rightarrow> (string \<times> stamp) list \<Rightarrow> string set \<Rightarrow> stamp \<Rightarrow> bool" where
  "given_up daily monthly days now items K s \<longleftrightarrow>
     (\<exists>newer. distinct (map fst newer) \<and> length newer = max 1 (nat daily)
        \<and> (\<forall>(k', s') \<in> set newer. (k', s') \<in> set items \<and> k' \<in> K \<and> stamp_time s \<le> stamp_time s'))
   \<and> (0 < days \<and> days \<le> 106751 \<longrightarrow> stamp_time s \<le> now - days * 24 * hour)
   \<and> (0 < monthly \<longrightarrow> kept_in_month items K s (month_of_stamp s)
        \<or> (\<exists>ms. distinct ms \<and> length ms = nat monthly \<and> month_of_stamp s \<notin> set ms \<and> (\<forall>x \<in> set ms. kept_in_month items K s x)))"

lemma keep_set_in:
  assumes "k \<notin> set (keep_set items daily monthly days now)"
  shows "k \<notin> fst ` set (take (max 1 (nat daily)) items)"
    and "0 < days \<Longrightarrow> (k, s) \<in> set items \<Longrightarrow> stamp_time s \<le> prune_cutoff days now"
    and "0 < monthly \<Longrightarrow> k \<notin> set (keep_monthly (nat monthly) [] items)"
proof -
  have t: "take (max 1 (nat daily)) items = (if nat daily = 0 then take 1 items else take (nat daily) items)" by (simp add: max_def)
  show "k \<notin> fst ` set (take (max 1 (nat daily)) items)" unfolding t using assms by (cases items) (auto simp: keep_set_def)
  show "0 < days \<Longrightarrow> (k, s) \<in> set items \<Longrightarrow> stamp_time s \<le> prune_cutoff days now"
    using assms by (force simp: keep_set_def)
  show "0 < monthly \<Longrightarrow> k \<notin> set (keep_monthly (nat monthly) [] items)" using assms by (simp add: keep_set_def)
qed

lemma keep_monthly_sub: "set (keep_monthly n months items) \<subseteq> fst ` set items"
  by (induction n months items rule: keep_monthly.induct) auto

lemma prune_cutoff_exact: "0 < days \<Longrightarrow> days \<le> 106751 \<Longrightarrow> prune_cutoff days now = now - days * 24 * hour"
  by (simp add: prune_cutoff_def duration_id)

text \<open>Past that the product wraps: asked to keep 200000 days, the cutoff is in the future and nothing is
  young enough.\<close>

lemma long_retention_wraps: "prune_cutoff 200000 now > now + 13000 * 24 * hour"
  by (simp add: prune_cutoff_def duration_def)

lemma select_prune_given_up:
  assumes "k \<in> set (select_prune keys daily monthly days now)" "distinct keys"
  shows "k \<in> set keys \<and> (\<exists>s. parse_object_time k = Some s
    \<and> given_up daily monthly days now (prune_items keys) (- set (select_prune keys daily monthly days now)) s)"
proof -
  define items keep where "items = prune_items keys" and "keep = keep_set items daily monthly days now"
  define K where "K = - set (select_prune keys daily monthly days now)"
  have sel: "select_prune keys daily monthly days now = map fst (filter (\<lambda>(k, s). k \<notin> set keep) items)"
    by (simp add: select_prune_def items_def keep_def Let_def)
  have kept: "set keep \<subseteq> K" unfolding K_def sel by auto
  obtain s where ks: "(k, s) \<in> set items" "k \<notin> set keep" using assms(1) unfolding sel by auto
  note out = keep_set_in[OF ks(2)[unfolded keep_def]]
  define newer where "newer = take (max 1 (nat daily)) items"
  have not: "(k, s) \<notin> set newer" using out(1) by (force simp: newer_def)
  then have len: "length newer = max 1 (nat daily)" using ks(1) unfolding newer_def by (metis length_take min.absorb2 nat_le_linear take_all)
  have rest: "(k, s) \<in> set (drop (max 1 (nat daily)) items)"
    using ks(1) not unfolding newer_def by (metis Un_iff append_take_drop_id set_append)
  have nw: "(k', s') \<in> set items \<and> k' \<in> K \<and> stamp_time s \<le> stamp_time s'" if n: "(k', s') \<in> set newer" for k' s'
  proof -
    have "k' \<in> set keep" using n by (cases items) (force simp: newer_def keep_def keep_set_def max_def split: if_splits)+
    moreover have "stamp_time s \<le> stamp_time s'"
      using newest_first_take_drop[of "(k, s)" "max 1 (nat daily)" "\<lambda>(k, s). stamp_time s" _ "(k', s')"] rest n
      unfolding items_def prune_items_def newer_def by simp
    ultimately show ?thesis using kept n by (auto simp: newer_def dest: in_set_takeD)
  qed
  have "distinct (map fst newer)" using prune_items_distinct[OF assms(2)] by (simp add: newer_def items_def take_map[symmetric] del: take_map)
  then have 1: "\<exists>newer. distinct (map fst newer) \<and> length newer = max 1 (nat daily)
        \<and> (\<forall>(k', s') \<in> set newer. (k', s') \<in> set items \<and> k' \<in> K \<and> stamp_time s \<le> stamp_time s')"
    using len nw by blast
  have 2: "0 < days \<and> days \<le> 106751 \<longrightarrow> stamp_time s \<le> now - days * 24 * hour"
    using out(2) ks(1) prune_cutoff_exact by metis
  have 3: "kept_in_month items K s (month_of_stamp s)
        \<or> (\<exists>ms. distinct ms \<and> length ms = nat monthly \<and> month_of_stamp s \<notin> set ms \<and> (\<forall>x \<in> set ms. kept_in_month items K s x))" if "0 < monthly"
  proof -
    have "set (keep_monthly (nat monthly) [] items) \<subseteq> K" using kept that by (auto simp: keep_def keep_set_def)
    then have up: "kept_in_month items (set (keep_monthly (nat monthly) [] items)) s x \<Longrightarrow> kept_in_month items K s x" for x
      by (meson kept_in_month_mono order_refl)
    have "0 < nat monthly" using that by simp
    then show ?thesis
      using keep_monthly_claims[OF prune_items_sorted[of keys, folded items_def], of "[]" "nat monthly" k s] ks(1) out(3)[OF that] up
      by (simp only: list.set list.size empty_iff simp_thms diff_zero not_False_eq_True) blast
  qed
  show ?thesis using 1 2 3 ks(1) by (auto simp: given_up_def items_def K_def prune_items_in)
qed

subsection \<open>What Incus and the store promise\<close>

text \<open>Deleting an object leaves the others alone.\<close>

definition keys_apart :: "'w services \<Rightarrow> bool" where
  "keys_apart sv \<longleftrightarrow> (\<forall>k k' w. k' \<noteq> k \<longrightarrow> sv_get sv k' (fst (sv_delete_object sv k w)) = sv_get sv k' w)"

text \<open>\<open>data w p v\<close>: the data of the volume (or \<open>volume/snapshot\<close>) \<open>v\<close> of pool \<open>p\<close>, None when there is none;
  \<open>unpack\<close> is what an archive holds. Making a volume never overwrites one, and a command about one volume
  or container leaves the others alone. A volume goes with its snapshots when it is deleted.\<close>

definition goes_with :: "string \<Rightarrow> string \<Rightarrow> bool" where
  "goes_with v x \<longleftrightarrow> x = v \<or> prefix (v @ ''/'') x"

definition volumes_kept :: "('w \<Rightarrow> string \<Rightarrow> string \<Rightarrow> string option) \<Rightarrow> 'w \<Rightarrow> 'w \<Rightarrow> bool" where
  "volumes_kept data w w' \<longleftrightarrow> (\<forall>q x. data w q x \<noteq> None \<longrightarrow> data w' q x = data w q x)"

definition volumes_documented :: "'w services \<Rightarrow> ('w \<Rightarrow> string \<Rightarrow> string \<Rightarrow> string option) \<Rightarrow> (string \<Rightarrow> string option) \<Rightarrow> bool" where
  "volumes_documented sv data unpack \<longleftrightarrow>
     (\<forall>p v s w. volumes_kept data w (fst (sv_snapshot sv p v s w))
        \<and> (snd (sv_snapshot sv p v s w) \<longrightarrow> data w p v \<noteq> None \<and> data (fst (sv_snapshot sv p v s w)) p (v @ ''/'' @ s) = data w p v))
   \<and> (\<forall>p v w b. snd (sv_export sv p v w) = Some b \<longrightarrow> unpack b = data w p v)
   \<and> (\<forall>p b v w. volumes_kept data w (fst (sv_import sv p b v w))
        \<and> (snd (sv_import sv p b v w) \<longrightarrow> data w p v = None \<and> data (fst (sv_import sv p b v w)) p v = unpack b))
   \<and> (\<forall>p v n w. volumes_kept data w (fst (sv_copy sv p v n w))
        \<and> (snd (sv_copy sv p v n w) \<longrightarrow> data w p n = None \<and> data w p v \<noteq> None \<and> data (fst (sv_copy sv p v n w)) p n = data w p v))
   \<and> (\<forall>p v w q x. \<not> (q = p \<and> goes_with v x) \<longrightarrow> data (fst (sv_delete_volume sv p v w)) q x = data w q x)
   \<and> (\<forall>p v w x. snd (sv_delete_volume sv p v w) \<and> goes_with v x \<longrightarrow> data (fst (sv_delete_volume sv p v w)) p x = None)
   \<and> (\<forall>c w. volumes_kept data w (fst (sv_stop sv c w)) \<and> volumes_kept data w (fst (sv_start sv c w)))"

definition containers_documented :: "'w services \<Rightarrow> ('w \<Rightarrow> string \<Rightarrow> bool) \<Rightarrow> bool" where
  "containers_documented sv runs \<longleftrightarrow>
     (\<forall>p b v w. runs (fst (sv_import sv p b v w)) = runs w)
   \<and> (\<forall>p v n w. runs (fst (sv_copy sv p v n w)) = runs w)
   \<and> (\<forall>p v w. runs (fst (sv_delete_volume sv p v w)) = runs w)
   \<and> (\<forall>c w d. d \<noteq> c \<longrightarrow> runs (fst (sv_stop sv c w)) d = runs w d)
   \<and> (\<forall>c w d. runs w d \<longrightarrow> runs (fst (sv_start sv c w)) d)
   \<and> (\<forall>c w. snd (sv_start sv c w) \<noteq> RunFailed \<longrightarrow> runs (fst (sv_start sv c w)) c)"

lemma volumes_documentedD:
  assumes "volumes_documented sv data unpack"
  shows doc_snapshot: "volumes_kept data w (fst (sv_snapshot sv p v s w))"
      "snd (sv_snapshot sv p v s w) \<longrightarrow> data w p v \<noteq> None \<and> data (fst (sv_snapshot sv p v s w)) p (v @ ''/'' @ s) = data w p v"
    and doc_export: "snd (sv_export sv p v w) = Some b \<longrightarrow> unpack b = data w p v"
    and doc_import: "volumes_kept data w (fst (sv_import sv p b v w))"
      "snd (sv_import sv p b v w) \<longrightarrow> data w p v = None \<and> data (fst (sv_import sv p b v w)) p v = unpack b"
    and doc_copy: "volumes_kept data w (fst (sv_copy sv p v n w))"
      "snd (sv_copy sv p v n w) \<longrightarrow> data w p n = None \<and> data w p v \<noteq> None \<and> data (fst (sv_copy sv p v n w)) p n = data w p v"
    and doc_delete: "\<not> (q = p \<and> goes_with v x) \<longrightarrow> data (fst (sv_delete_volume sv p v w)) q x = data w q x"
    and doc_stop: "volumes_kept data w (fst (sv_stop sv c w))" and doc_start: "volumes_kept data w (fst (sv_start sv c w))"
  using assms unfolding volumes_documented_def by (elim conjE, simp)+

lemma containers_documentedD:
  assumes "containers_documented sv runs"
  shows run_import: "runs (fst (sv_import sv p b v w)) = runs w" and run_copy: "runs (fst (sv_copy sv p v n w)) = runs w"
    and run_delete: "runs (fst (sv_delete_volume sv p v w)) = runs w"
    and run_stop: "d \<noteq> c \<longrightarrow> runs (fst (sv_stop sv c w)) d = runs w d"
    and run_start: "runs w d \<longrightarrow> runs (fst (sv_start sv c w)) d" "snd (sv_start sv c w) \<noteq> RunFailed \<longrightarrow> runs (fst (sv_start sv c w)) c"
  using assms unfolding containers_documented_def by (elim conjE, simp)+

lemma volumes_kept_refl: "volumes_kept data w w" by (simp add: volumes_kept_def)

lemma volumes_kept_trans: "volumes_kept data w w1 \<Longrightarrow> volumes_kept data w1 w2 \<Longrightarrow> volumes_kept data w w2"
  by (simp add: volumes_kept_def)

lemma volumes_keptD: "volumes_kept data w w' \<Longrightarrow> data w q x = Some d \<Longrightarrow> data w' q x = Some d"
  by (simp add: volumes_kept_def)

lemma stop_each_volumes:
  "volumes_documented sv data unpack \<Longrightarrow> stop_each sv cs w = (w', stopped, all) \<Longrightarrow> volumes_kept data w w'"
proof (induction cs arbitrary: w w' stopped all)
  case (Cons c cs)
  note doc_stop[OF Cons.prems(1), of w c]
  with Cons.prems(2) Cons.IH[OF Cons.prems(1)] show ?case
    by (auto simp: stop_container_def split: prod.splits if_splits intro: volumes_kept_trans)
qed (simp add: volumes_kept_refl)

lemma start_each_volumes:
  "volumes_documented sv data unpack \<Longrightarrow> start_each sv cs w = (w', ok) \<Longrightarrow> volumes_kept data w w'"
proof (induction cs arbitrary: w w' ok)
  case (Cons c cs)
  note doc_start[OF Cons.prems(1), of w c]
  with Cons.prems(2) Cons.IH[OF Cons.prems(1)] show ?case
    by (auto simp: start_container_def split: prod.splits if_splits intro: volumes_kept_trans)
qed (simp add: volumes_kept_refl)

lemma restart_volumes:
  "volumes_documented sv data unpack \<Longrightarrow> restart sv stopped err w = (w', r) \<Longrightarrow> volumes_kept data w w'"
  using start_each_volumes by (fastforce simp: restart_def split: prod.splits)

lemma valid_name_slash: "valid_name s \<Longrightarrow> CHR ''/'' \<notin> set s"
proof -
  have "\<not> is_alnum CHR ''/''" by code_simp
  then show "valid_name s \<Longrightarrow> CHR ''/'' \<notin> set s" by (auto simp: valid_name_def name_chars_def list_all_iff split: list.splits)
qed

text \<open>Every way through the replacement: the old data is in the volume or in the copy, and all else is as it was, but for the
  snapshots of the volume.\<close>

lemma replace_volume_data:
  assumes doc: "volumes_documented sv data unpack" and r: "replace_volume sv pool v pre art w = (w', err)"
    and d: "data w q x = Some d"
  shows "data w' q x = Some d \<or> q = or_default pool \<and> (x = v \<and> data w' q pre = Some d \<or> prefix (v @ ''/'') x)"
proof -
  define p where "p = or_default pool"
  obtain w1 copied where c: "duplicate_volume sv pool v pre w = (w1, copied)" by (cases "duplicate_volume sv pool v pre w")
  have c': "w1 = w \<and> \<not> copied \<or> (w1, copied) = sv_copy sv p v pre w" using c by (auto simp: duplicate_volume_def p_def split: if_splits)
  note k1 = doc_copy(1)[OF doc, of w p v pre] doc_copy(2)[OF doc, of p v pre w]
  have kept1: "data w1 q x = Some d" using c' k1(1) d by (auto dest: volumes_keptD simp: prod_eq_iff)
  show ?thesis
  proof (cases copied)
    case False
    then show ?thesis using r c kept1 by (simp add: replace_volume_def)
  next
    case True
    then have cp: "data w p pre = None" "data w p v \<noteq> None" "data w1 p pre = data w p v"
      using c' k1(2) by (metis fst_conv snd_conv)+
    then have "pre \<noteq> v" by auto
    moreover have "valid_name pre" using c True by (auto simp: duplicate_volume_def split: if_splits)
    then have "CHR ''/'' \<notin> set pre" by (rule valid_name_slash)
    then have "\<not> prefix (v @ ''/'') pre" by (auto simp: prefix_def)
    ultimately have ne: "\<not> goes_with v pre" by (simp add: goes_with_def)
    obtain w2 del where dl: "delete_volume sv pool v w1 = (w2, del)" by (cases "delete_volume sv pool v w1")
    have k2: "\<not> (q = p \<and> goes_with v x) \<Longrightarrow> data w2 q x = data w1 q x" for q x
      using dl doc_delete[OF doc, where q = q and x = x and p = p and v = v and w = w1] by (auto simp: delete_volume_def p_def split: if_splits)
    have now2: "data w2 q x = Some d \<or> q = p \<and> (x = v \<and> data w2 q pre = Some d \<or> prefix (v @ ''/'') x)"
      using k2[of q x] k2[of p pre] kept1 ne cp(3) d by (cases "(q, x) = (p, v)") (auto simp: goes_with_def)
    obtain w3 ok where im: "sv_import sv p art v w2 = (w3, ok)" by (cases "sv_import sv p art v w2")
    have k3: "volumes_kept data w2 w3" using doc_import(1)[OF doc, of w2 p art v] by (simp add: im)
    have "w' = w2 \<or> w' = w3" using r c True dl im by (auto simp: replace_volume_def p_def split: if_splits)
    then show ?thesis using now2 volumes_keptD[OF k3] p_def by blast
  qed
qed

lemma stop_each_runs:
  assumes "containers_documented sv runs"
  shows "stop_each sv cs w = (w', stopped, True) \<Longrightarrow> stopped = cs \<and> (\<forall>d. d \<notin> set cs \<longrightarrow> runs w' d = runs w d)"
proof (induction cs arbitrary: w w' stopped)
  case (Cons c cs)
  show ?case using run_stop[OF assms, of _ c w] Cons.prems Cons.IH by (fastforce simp: stop_container_def split: prod.splits if_splits)
qed simp

lemma start_each_runs:
  assumes "containers_documented sv runs"
  shows "start_each sv cs w = (w', ok) \<Longrightarrow> (\<forall>d. runs w d \<longrightarrow> runs w' d) \<and> (ok \<longrightarrow> (\<forall>d \<in> set cs. runs w' d))"
proof (induction cs arbitrary: w w' ok)
  case (Cons c cs)
  note up = run_start(1)[OF assms, of w _ c] and c = run_start(2)[OF assms, of c w]
  obtain w1 r where s: "sv_start sv c w = (w1, r)" by (cases "sv_start sv c w")
  obtain w2 all where t: "start_each sv cs w1 = (w2, all)" by (cases "start_each sv cs w1")
  have "w' = w2 \<and> (ok \<longleftrightarrow> r \<noteq> RunFailed \<and> all)" using Cons.prems s t by (auto simp: start_container_def)
  then show ?case using Cons.IH[OF t] up c s by auto
qed simp

lemma replace_volume_runs:
  assumes "containers_documented sv runs" "replace_volume sv pool v pre art w = (w', err)"
  shows "runs w' = runs w"
proof -
  note l = run_import[OF assms(1)] run_copy[OF assms(1)] run_delete[OF assms(1)]
  have "runs (fst (duplicate_volume sv p v n w)) = runs w" "runs (fst (delete_volume sv p v w)) = runs w" for p v n w
    by (simp_all add: duplicate_volume_def delete_volume_def l)
  then show ?thesis using assms(2) l unfolding replace_volume_def by (fastforce simp: case_prod_beta split: if_splits)
qed

lemma replace_volume_done:
  assumes "volumes_documented sv data unpack" "replace_volume sv pool v pre art w = (w', None)"
  shows "data w' (or_default pool) v = unpack art"
proof -
  obtain w2 where "sv_import sv (or_default pool) art v w2 = (w', True)"
    using assms(2) by (auto simp: replace_volume_def split: prod.splits if_splits)
  then show ?thesis using doc_import(2)[OF assms(1), of "or_default pool" art v w2] by simp
qed

lemma restore_in_place_data:
  assumes doc: "volumes_documented sv data unpack" and r: "restore_in_place sv pool opts now art w = (w', err)" and d: "data w q x = Some d"
  shows "data w' q x = Some d
    \<or> q = or_default pool \<and> (x = ro_volume opts \<and> data w' q (pre_restore_name x now) = Some d \<or> prefix (ro_volume opts @ ''/'') x)"
proof (cases "volume_dependents sv (ro_volume opts) w")
  case (Some deps)
  show ?thesis
  proof (cases "length deps > 0 \<and> \<not> ro_force opts")
    case False
    obtain w1 stopped all where s: "stop_each sv deps w = (w1, stopped, all)" by (metis prod_cases3)
    have d1: "data w1 q x = Some d" using volumes_keptD[OF stop_each_volumes[OF doc s] d] .
    define w2 where "w2 = (if all then fst (replace_volume sv pool (ro_volume opts) (pre_restore_name (ro_volume opts) now) art w1) else w1)"
    obtain e where e: "restart sv stopped e w2 = (w', err)"
      using r Some False s by (cases all) (auto simp: restore_in_place_def w2_def split: prod.splits)
    have "data w2 q x = Some d
      \<or> q = or_default pool \<and> (x = ro_volume opts \<and> data w2 q (pre_restore_name x now) = Some d \<or> prefix (ro_volume opts @ ''/'') x)"
      using replace_volume_data[OF doc prod.collapse[symmetric] d1] d1 unfolding w2_def by auto
    then show ?thesis using volumes_keptD[OF restart_volumes[OF doc e]] by blast
  qed (use r d Some in \<open>simp add: restore_in_place_def\<close>)
qed (use r d in \<open>simp add: restore_in_place_def\<close>)

lemma restore_in_place_done:
  assumes "restore_in_place sv pool opts now art w = (w', None)"
  shows "(volumes_documented sv data unpack \<longrightarrow> data w' (or_default pool) (ro_volume opts) = unpack art \<or> unpack art = None)
    \<and> (containers_documented sv runs \<longrightarrow> (\<forall>c. runs w c \<longrightarrow> runs w' c))"
proof -
  obtain deps where deps: "volume_dependents sv (ro_volume opts) w = Some deps"
    using assms by (cases "volume_dependents sv (ro_volume opts) w") (auto simp: restore_in_place_def)
  have go: "\<not> (length deps > 0 \<and> \<not> ro_force opts)" using assms deps by (auto simp: restore_in_place_def split: if_splits)
  obtain w1 stopped all where s: "stop_each sv deps w = (w1, stopped, all)" by (metis prod_cases3)
  have "all" using assms deps go s by (auto simp: restore_in_place_def restart_def split: prod.splits if_splits)
  obtain w2 e where rp: "replace_volume sv pool (ro_volume opts) (pre_restore_name (ro_volume opts) now) art w1 = (w2, e)" by (metis prod.exhaust)
  have rs: "restart sv stopped e w2 = (w', None)" using assms deps go s \<open>all\<close> rp by (auto simp: restore_in_place_def split: if_splits)
  then have e: "e = None" and st: "start_each sv stopped w2 = (w', True)" by (auto simp: restart_def split: prod.splits option.splits if_splits)
  have "data w' (or_default pool) (ro_volume opts) = unpack art \<or> unpack art = None" if doc: "volumes_documented sv data unpack"
    using replace_volume_done[OF doc rp[unfolded e]] volumes_keptD[OF start_each_volumes[OF doc st]] by (cases "unpack art") simp_all
  moreover have "\<forall>c. runs w c \<longrightarrow> runs w' c" if doc: "containers_documented sv runs"
    using stop_each_runs[OF doc, of deps w w1 stopped] s \<open>all\<close> replace_volume_runs[OF doc rp] start_each_runs[OF doc st] by fastforce
  ultimately show ?thesis by blast
qed

subsection \<open>Properties\<close>

lemma delete_each_others:
  assumes "keys_apart sv"
  shows "delete_each sv ks w = (w', ok) \<Longrightarrow> k \<notin> set ks \<Longrightarrow> sv_get sv k w' = sv_get sv k w"
proof (induction ks arbitrary: w)
  case (Cons k0 ks)
  have "sv_get sv k (fst (sv_delete_object sv k0 w)) = sv_get sv k w" using assms Cons.prems(2) by (simp add: keys_apart_def)
  then show ?case using Cons by (auto split: prod.splits if_splits)
qed simp

text \<open>C25: Pruning a volume's backups touches an object only when it is an archive directly under this host's own
  prefix of this volume (never a manifest, another host's or an older layout's object), and then only past
  every retention the configuration asks for: at least the newest one and as many newer ones as
  \<open>retain_daily\<close> says stay, it is not younger than \<open>retain_days\<close> days (up to 106751, where a
  duration ends), and its month has a kept backup at least as new, or \<open>retain_monthly\<close> other months do;
  this for any listing the store gives, and when deleting fails half way.\<close>
theorem prune_keeps_retained:
  assumes "keys_apart sv" "sv_list sv (key_prefix m volume) w = Some objs" "distinct (map so_key objs)"
    and "prune_volume sv m volume now w = (w', r)" "sv_get sv k w' \<noteq> sv_get sv k w"
  shows "k \<in> so_key ` set objs \<and> prefix (key_prefix m volume) k \<and> CHR ''/'' \<notin> set (drop (length (key_prefix m volume)) k)
    \<and> suffix ''.tar.gz'' k
    \<and> (\<exists>s. parse_object_time k = Some s \<and> given_up (bc_daily (mg_cfg m)) (bc_monthly (mg_cfg m)) (bc_days (mg_cfg m)) now
         (prune_items (filter (prune_candidate (key_prefix m volume)) (map so_key objs))) (- set (prune_plan m volume objs now)) s)"
proof -
  have "k \<in> set (prune_plan m volume objs now)"
  proof (rule ccontr)
    assume "k \<notin> set (prune_plan m volume objs now)"
    then have "sv_get sv k w' = sv_get sv k w"
      using assms(2,4) delete_each_others[OF assms(1)] by (auto simp: prune_volume_def Let_def split: if_splits prod.splits)
    then show False using assms(5) by simp
  qed
  from select_prune_given_up[OF this[unfolded prune_plan_def]] assms(3) show ?thesis
    by (auto simp: prune_candidate_def trim_prefix_def prune_plan_def)
qed

lemma or_default_idem [simp]: "or_default (or_default p) = or_default p"
  by (simp add: or_default_def)

text \<open>C14: A restore never loses the data of a volume: whatever fails on the way, every volume and snapshot that was there still has
  its data, but for the volume restored in place, whose data is then in the copy named after it and the time, and the snapshots
  of that volume, which go with it; and when the restore succeeds, every container that ran before runs again.\<close>
theorem restore_keeps_data:
  assumes "volumes_documented sv data unpack" "containers_documented sv runs"
    and "restore_backup sv m io H js opts now w = (w', r)" "data w q x = Some d"
  shows "(data w' q x = Some d
      \<or> ro_as opts = [] \<and> q = or_default (ro_pool opts)
        \<and> (x = ro_volume opts \<and> data w' q (pre_restore_name x now) = Some d \<or> prefix (ro_volume opts @ ''/'') x))
    \<and> (r = None \<longrightarrow> (\<forall>c. runs w c \<longrightarrow> runs w' c))"
proof (cases "mg_store m \<and> (\<exists>art. fetch_backup sv m io H js opts w = Inr art)")
  case True
  then obtain art where art: "mg_store m" "fetch_backup sv m io H js opts w = Inr art" by blast
  show ?thesis
  proof (cases "ro_as opts = []")
    case True
    then have r: "restore_in_place sv (or_default (ro_pool opts)) opts now art w = (w', r)"
      using assms(3) art by (simp add: restore_backup_def Let_def)
    have runs: "r = None \<longrightarrow> (\<forall>c. runs w c \<longrightarrow> runs w' c)"
      using restore_in_place_done[of sv "or_default (ro_pool opts)" opts now art w w' data unpack runs] r assms(2) by blast
    have "data w' q x = Some d \<or> q = or_default (ro_pool opts)
        \<and> (x = ro_volume opts \<and> data w' q (pre_restore_name x now) = Some d \<or> prefix (ro_volume opts @ ''/'') x)"
      using restore_in_place_data[OF assms(1) r assms(4)] by (simp only: or_default_idem)
    then show ?thesis using True runs by blast
  next
    case False
    then have w': "w' = fst (sv_import sv (or_default (ro_pool opts)) art (ro_as opts) w)"
      using assms(3) art by (auto simp: restore_backup_def Let_def split: prod.splits)
    show ?thesis using volumes_keptD[OF doc_import(1)[OF assms(1)] assms(4)] run_import[OF assms(2)] unfolding w' by simp
  qed
next
  case False
  then have "w' = w" using assms(3) by (auto simp: restore_backup_def Let_def split: if_splits sum.splits)
  then show ?thesis using assms(4) by simp
qed

text \<open>What a successful backup recorded: the archive it exported, whose data is the volume's at the start.\<close>

lemma create_volume_recorded:
  assumes doc: "volumes_documented sv data unpack" and c: "create_volume sv m io H js pool volume now w = (w1, Inr man)"
  shows "mg_host_ok m \<and> data w (or_default pool) volume \<noteq> None
    \<and> (\<exists>art. bm_sha man = H art \<and> unpack art = data w (or_default pool) volume)"
proof -
  define p snap where "p = or_default pool" and "snap = ''backup-'' @ format_stamp (stamp_of now)"
  obtain wa where sn: "sv_snapshot sv p volume snap w = (wa, True)"
    using c by (auto simp: create_volume_def Let_def p_def snap_def split: if_splits prod.splits)
  obtain wb art where ex: "sv_export sv p (volume @ ''/'' @ snap) wa = (wb, Some art)"
    using c sn by (auto simp: create_volume_def Let_def p_def snap_def split: if_splits prod.splits option.splits)
  have ok: "mg_host_ok m" and up: "upload_backup sv m io H js p volume snap now art wb = (w1, Inr man)"
    using c sn ex by (auto simp: create_volume_def Let_def p_def snap_def split: if_splits)
  have "bm_sha man = H art"
    using up by (auto simp: upload_backup_def Let_def split: if_splits prod.splits option.splits)
  moreover have "data w p volume \<noteq> None" "unpack art = data w p volume"
    using doc_snapshot(2)[OF doc, of p volume snap w] doc_export[OF doc, of p "volume @ ''/'' @ snap" wa art]
    unfolding sn ex snd_conv fst_conv by auto
  ultimately show ?thesis using ok p_def by auto
qed

text \<open>C22: What was backed up is what comes back: when a backup succeeds and later, whatever happened to the host and
  the store in between, its manifest is still the latest and a restore of the latest backup succeeds, the
  volume restored (in place or under a new name) holds exactly the data the volume had when it was backed up.
  An archive altered in the store is never restored; \<open>H\<close> is taken as free of collisions.\<close>
theorem backup_restored:
  assumes "volumes_documented sv data unpack" "\<And>a b. H a = H b \<Longrightarrow> a = b" "snd js (fst js man) = Some man"
    and "create_volume sv m io H js pool volume now w = (w1, Inr man)" "bm_sha man \<noteq> []"
    and "sv_get sv (manifest_key m volume) w2 = Inr (fst js man)"
    and "ro_volume opts = volume" "ro_from opts = [] \<or> ro_from opts = ''latest''"
    and "restore_backup sv m io' H js opts now' w2 = (w3, None)"
  shows "data w3 (or_default (ro_pool opts)) (if ro_as opts = [] then volume else ro_as opts) = data w (or_default pool) volume"
proof -
  obtain art where art: "mg_host_ok m" "data w (or_default pool) volume \<noteq> None" "bm_sha man = H art" "unpack art = data w (or_default pool) volume"
    using create_volume_recorded[OF assms(1,4)] by blast
  have "read_manifest sv m js (ro_volume opts) w2 = Inr man"
    using assms(3,6,7) art(1) by (simp add: read_manifest_def read_manifest_at_def)
  then have want: "wanted_backup sv m js opts w2 = Inr (bm_key man, bm_sha man)"
    using assms(8) unfolding wanted_backup_def by auto
  obtain got where got: "mg_store m" "fetch_backup sv m io' H js opts w2 = Inr got"
    using assms(9) by (auto simp: restore_backup_def Let_def split: if_splits sum.splits)
  then have "H got = bm_sha man" using assms(5) by (auto simp: fetch_backup_def want split: if_splits sum.splits)
  then have "got = art" using assms(2) art(3) by simp
  then have un: "unpack got = data w (or_default pool) volume" using art(4) by simp
  show ?thesis
  proof (cases "ro_as opts = []")
    case True
    then have "restore_in_place sv (or_default (ro_pool opts)) opts now' got w2 = (w3, None)"
      using assms(9) got by (simp add: restore_backup_def Let_def)
    from restore_in_place_done[OF this, of data unpack] show ?thesis using assms(1,7) un art(2) True by auto
  next
    case False
    obtain ok where im: "sv_import sv (or_default (ro_pool opts)) got (ro_as opts) w2 = (w3, ok)" "ok"
      using assms(9) got False by (auto simp: restore_backup_def Let_def split: prod.splits if_splits)
    from doc_import(2)[OF assms(1), of "or_default (ro_pool opts)" got "ro_as opts" w2] show ?thesis using im un False by simp
  qed
qed

subsection \<open>A host and a store\<close>

text \<open>The simplest services that keep the promises, for the witnesses: every call that can succeed does.\<close>

record small_world =
  wd_volumes :: "string \<times> string \<Rightarrow> string option"
  wd_objects :: "string \<Rightarrow> string option"
  wd_runs :: "string \<Rightarrow> bool"

definition new_volume :: "string \<Rightarrow> string \<Rightarrow> string option \<Rightarrow> small_world \<Rightarrow> small_world \<times> bool" where
  "new_volume p n d w = (if wd_volumes w (p, n) \<noteq> None \<or> d = None then (w, False) else (w\<lparr>wd_volumes := (wd_volumes w)((p, n) := d)\<rparr>, True))"

definition small_services :: "s3_object list \<Rightarrow> small_world services" where
  "small_services listing =
     \<lparr>sv_put = (\<lambda>k b _ w. (w\<lparr>wd_objects := (wd_objects w)(k \<mapsto> b)\<rparr>, True)),
      sv_get = (\<lambda>k w. case wd_objects w k of None \<Rightarrow> Inl NotFound | Some b \<Rightarrow> Inr b),
      sv_head = (\<lambda>k w. map_option length (wd_objects w k)),
      sv_list = (\<lambda>_ _. Some listing),
      sv_delete_object = (\<lambda>k w. (w\<lparr>wd_objects := (wd_objects w)(k := None)\<rparr>, True)),
      sv_volumes = (\<lambda>_ _. Some [(''data'', ''custom'')]),
      sv_snapshot = (\<lambda>p v s w. new_volume p (v @ ''/'' @ s) (wd_volumes w (p, v)) w),
      sv_snapshot_delete = (\<lambda>p v s w. (w\<lparr>wd_volumes := (wd_volumes w)((p, v @ ''/'' @ s) := None)\<rparr>, True)),
      sv_export = (\<lambda>p v w. (w, wd_volumes w (p, v))),
      sv_import = (\<lambda>p b v w. new_volume p v (Some b) w),
      sv_copy = (\<lambda>p v n w. new_volume p n (wd_volumes w (p, v)) w),
      sv_delete_volume = (\<lambda>p v w. (w\<lparr>wd_volumes := (\<lambda>(q, x). if q = p \<and> goes_with v x then None else wd_volumes w (q, x))\<rparr>, True)),
      sv_instances = (\<lambda>_. Some [\<lparr>ir_name = ''app'', ir_devices = [(''nic'', ''br0''), (''disk'', ''data'')]\<rparr>]),
      sv_stop = (\<lambda>c w. (w\<lparr>wd_runs := (wd_runs w)(c := False)\<rparr>, if wd_runs w c then RanOk else AlreadySo)),
      sv_start = (\<lambda>c w. (w\<lparr>wd_runs := (wd_runs w)(c := True)\<rparr>, if wd_runs w c then AlreadySo else RanOk))\<rparr>"

lemma small_volumes: "volumes_documented (small_services l) (\<lambda>w p v. wd_volumes w (p, v)) Some"
  unfolding volumes_documented_def volumes_kept_def by (intro conjI) (auto simp: small_services_def new_volume_def split: if_splits)

lemma small_containers: "containers_documented (small_services l) wd_runs"
  unfolding containers_documented_def by (intro conjI) (auto simp: small_services_def new_volume_def split: if_splits)

lemma small_keys: "keys_apart (small_services l)"
  by (simp add: keys_apart_def small_services_def)

definition nightly :: manager where
  "nightly = new_manager True \<lparr>bc_provider = [], bc_endpoint = ''https://s3'', bc_region = ''r'', bc_bucket = ''b'', bc_prefix = ''incus'',
     bc_path_style = None, bc_access_env = [], bc_secret_env = [], bc_volumes = [], bc_daily = 1, bc_monthly = 0, bc_days = 2,
     bc_keep_local = False, bc_schedule = [], bc_host = ''host1''\<rparr> None"

definition all_local :: backup_io where
  "all_local = \<lparr>bi_tmp = True, bi_create = True, bi_copied = True, bi_hash = True, bi_open = True\<rparr>"

definition day_key :: "string \<Rightarrow> string" where
  "day_key d = ''incus/host1/data/1970010'' @ d @ ''T000000Z.tar.gz''"

definition day_listing :: "s3_object list" where
  "day_listing = map (\<lambda>d. \<lparr>so_key = day_key d, so_size = 1, so_modified = 0\<rparr>) [''1'', ''2'', ''3'', ''4'']"

lemma day_keys: "map so_key day_listing = map day_key [''1'', ''2'', ''3'', ''4'']"
  by (simp add: day_listing_def)

lemma nightly_prefix: "key_prefix nightly ''data'' = ''incus/host1/data/''"
  by code_simp

lemma nightly_cfg: "bc_daily (mg_cfg nightly) = 1 \<and> bc_monthly (mg_cfg nightly) = 0 \<and> bc_days (mg_cfg nightly) = 2 \<and> mg_store nightly \<and> mg_host_ok nightly"
  by code_simp

lemma day_pruned: "prune_plan nightly ''data'' day_listing (3 * 24 * hour) = [day_key ''2'', day_key ''1'']"
proof -
  have c: "filter (prune_candidate ''incus/host1/data/'') (map day_key [''1'', ''2'', ''3'', ''4'']) = map day_key [''1'', ''2'', ''3'', ''4'']"
    by code_simp
  have "select_prune (map day_key [''1'', ''2'', ''3'', ''4'']) 1 0 2 (3 * 24 * hour) = [day_key ''2'', day_key ''1'']"
    by code_simp
  then show ?thesis unfolding prune_plan_def nightly_prefix day_keys using nightly_cfg c by simp
qed

theorem prune_keeps_retained_witness:
  "let sv = small_services day_listing; k = day_key ''2'';
       w = \<lparr>wd_volumes = Map.empty, wd_objects = [k \<mapsto> ''x''], wd_runs = \<lambda>_. False\<rparr>;
       w' = fst (prune_volume sv nightly ''data'' (3 * 24 * hour) w) in
     sv_get sv k w' = Inl NotFound \<and> prefix ''incus/host1/data/'' k"
proof -
  define sv k where "sv = small_services day_listing" and "k = day_key ''2''"
  define now :: time where "now = 3 * 24 * hour"
  define w :: small_world where "w = \<lparr>wd_volumes = Map.empty, wd_objects = [k \<mapsto> ''x''], wd_runs = \<lambda>_. False\<rparr>"
  obtain w' r where p: "prune_volume sv nightly ''data'' now w = (w', r)" by (metis prod.exhaust)
  have l: "sv_list sv (key_prefix nightly ''data'') w = Some day_listing" by (simp add: sv_def small_services_def)
  have d: "distinct (map so_key day_listing)" unfolding day_keys by (simp add: day_key_def)
  have "\<not> retains_all (mg_cfg nightly)" using nightly_cfg by (simp add: retains_all_def)
  then have gone: "sv_get sv k (fst (prune_volume sv nightly ''data'' now w)) = Inl NotFound"
    using l nightly_cfg by (simp add: prune_volume_def day_pruned[folded now_def] k_def w_def) (simp add: sv_def small_services_def)
  have "sv_get sv k w = Inr ''x''" by (simp add: sv_def small_services_def w_def)
  then have ch: "sv_get sv k w' \<noteq> sv_get sv k w" using gone p by simp
  have "prefix (key_prefix nightly ''data'') k"
    using prune_keeps_retained[OF small_keys[of day_listing, folded sv_def] l d p ch] by blast
  then show ?thesis using gone by (simp only: Let_def sv_def w_def k_def nightly_prefix now_def)
qed

definition in_place :: restore_options where
  "in_place = \<lparr>ro_pool = [], ro_volume = ''data'', ro_from = ''latest'', ro_as = [], ro_force = True\<rparr>"

definition one_codec :: codec where
  "one_codec = (\<lambda>_. ''M'', \<lambda>_. Some \<lparr>bm_volume = ''data'', bm_pool = ''default'', bm_created = 0, bm_snapshot = ''backup-19700101T000000Z'',
     bm_key = object_key nightly ''data'' 0, bm_size = 3, bm_sha = ''old''\<rparr>)"

definition live_world :: "string \<Rightarrow> small_world" where
  "live_world d = \<lparr>wd_volumes = [(''default'', ''data'') \<mapsto> d], wd_objects = [manifest_key nightly ''data'' \<mapsto> ''M'', object_key nightly ''data'' 0 \<mapsto> ''old''],
     wd_runs = \<lambda>c. c = ''app''\<rparr>"

lemma demo_restore:
  "snd (restore_backup (small_services []) nightly all_local id one_codec in_place (24 * hour) (live_world ''new'')) = None
   \<and> wd_volumes (fst (restore_backup (small_services []) nightly all_local id one_codec in_place (24 * hour) (live_world ''new''))) (''default'', ''data'') = Some ''old''"
  by code_simp

theorem restore_keeps_data_witness:
  "let (w', r) = restore_backup (small_services []) nightly all_local id one_codec in_place (24 * hour) (live_world ''new'') in
     r = None \<and> wd_runs w' ''app'' \<and> wd_volumes w' (''default'', ''data'') = Some ''old''
       \<and> wd_volumes w' (''default'', ''data-pre-restore-19700102t000000'') = Some ''new''"
proof -
  obtain w' r where p: "restore_backup (small_services []) nightly all_local id one_codec in_place (24 * hour) (live_world ''new'') = (w', r)"
    by (metis prod.exhaust)
  note r = demo_restore[THEN conjunct1] and v = demo_restore[THEN conjunct2]
  have n: "pre_restore_name ''data'' (24 * hour) = ''data-pre-restore-19700102t000000''" by code_simp
  have d: "(\<lambda>w p v. wd_volumes w (p, v)) (live_world ''new'') ''default'' ''data'' = Some ''new''" by (simp add: live_world_def)
  note res = restore_keeps_data[where data = "\<lambda>w p v. wd_volumes w (p, v)" and unpack = Some and q = "''default''" and x = "''data''" and d = "''new''", OF small_volumes[of "[]"] small_containers[of "[]"] p d]
  have "wd_runs (live_world ''new'') ''app''" by (simp add: live_world_def)
  then have "wd_runs w' ''app''" using res r p by simp
  moreover have "wd_volumes w' (''default'', ''data-pre-restore-19700102t000000'') = Some ''new''"
    using res v p unfolding n by (auto simp: in_place_def or_default_def)
  ultimately show ?thesis using r v p by simp
qed

theorem backup_restored_witness:
  "let sv = small_services []; (w1, res) = create_volume sv nightly all_local id one_codec [] ''data'' 0 (live_world ''old'');
       w2 = live_world ''new'';
       (w3, r) = restore_backup sv nightly all_local id one_codec in_place (24 * hour) w2 in
     res = Inr (the (snd one_codec ''M'')) \<and> r = None \<and> wd_volumes w3 (''default'', ''data'') = Some ''old''"
proof -
  define sv man where "sv = small_services []" and "man = the (snd one_codec ''M'')"
  obtain w1 res where c: "create_volume sv nightly all_local id one_codec [] ''data'' 0 (live_world ''old'') = (w1, res)" by (metis prod.exhaust)
  have made: "snd (create_volume sv nightly all_local id one_codec [] ''data'' 0 (live_world ''old'')) = Inr man
     \<and> sv_get sv (manifest_key nightly ''data'') (live_world ''new'') = Inr (fst one_codec man)" unfolding sv_def man_def by code_simp
  then have res: "res = Inr man" using c by simp
  obtain w3 r where p: "restore_backup sv nightly all_local id one_codec in_place (24 * hour) (live_world ''new'') = (w3, r)" by (metis prod.exhaust)
  have r: "r = None" using demo_restore p by (simp add: sv_def)
  have m: "snd one_codec (fst one_codec man) = Some man" "bm_sha man \<noteq> []" by (simp_all add: one_codec_def man_def)
  note g = made[THEN conjunct2]
  have o: "ro_volume in_place = ''data''" "ro_from in_place = [] \<or> ro_from in_place = ''latest''" by (simp_all add: in_place_def)
  have "id a = id b \<Longrightarrow> a = b" for a b :: string by simp
  from backup_restored[OF small_volumes[of "[]", folded sv_def] this m(1) c[unfolded res] m(2) g o p[unfolded r]]
  have "wd_volumes w3 (''default'', ''data'') = Some ''old''"
    by (simp add: in_place_def or_default_def live_world_def)
  then show ?thesis using c res p r by (simp add: sv_def man_def)
qed

end
