(* ===== verification/Instance_Spec.thy ===== *)
theory Instance_Spec
  imports Incus Fleet_Config Go_Time
begin

text \<open>
  What a caller may ask of a tenant instance (\<open>pkg/engine/instance_spec.go\<close>) and of its route
  (\<open>pkg/config/routes.go\<close>): the requests and their validation, and the template a spec stands for.

  \<^item> A JSON object that may be absent is an option; a Go map is an association list in the order it is
    visited in, which decides only which of several errors is named.
  \<^item> An anchored regular expression is the predicate that says what it matches.
\<close>

subsection \<open>Route options\<close>

record route_cache =
  rc_ttl :: string
  rc_paths :: "string list"

record route_rate_limit =
  rl_requests :: int
  rl_window :: string
  rl_paths :: "string list"

datatype spec_error =
    BadInstanceName | BadTemplate | BadImage | ProfileNotAllowed string | LimitNotAllowed string | TooManyVolumes
  | VolumeName string | VolumePath string | VolumeOwner string | TooManyEnv | EnvName string | EnvValue string
  | ServiceRequired | BadService | BadHealth | BadDomain string | DomainNeedsHealth | RouteNeedsDomain
  | BadLabels label_error | TooManyPaths | BadRoutePath string | NeedsPaths | BadRouteDuration string | BadRequests int
  | DirectiveNotAllowed string | LimitsRequired | BadReason | BadTargetRemote | TargetIsLocal

definition route_path_ok :: "string \<Rightarrow> bool" where \<comment> \<open>\<open>^/[A-Za-z0-9._~%/*-]{0,200}$\<close>\<close>
  "route_path_ok p \<longleftrightarrow> (case p of [] \<Rightarrow> False
     | c # cs \<Rightarrow> c = CHR ''/'' \<and> length cs \<le> 200 \<and> list_all (\<lambda>c. is_alnum c \<or> c \<in> set ''._~%/*-'') cs)"

definition max_route_paths :: nat where "max_route_paths = 20"

definition valid_route_paths :: "string list \<Rightarrow> spec_error option" where
  "valid_route_paths paths =
     (if length paths > max_route_paths then Some TooManyPaths
      else case find (\<lambda>p. \<not> route_path_ok p) paths of None \<Rightarrow> None | Some p \<Rightarrow> Some (BadRoutePath p))"

definition bounded_duration :: "string \<Rightarrow> time \<Rightarrow> time \<Rightarrow> spec_error + time" where
  "bounded_duration v lo hi = (case parse_duration v of None \<Rightarrow> Inl (BadRouteDuration v)
     | Some d \<Rightarrow> if d < lo \<or> d > hi then Inl (BadRouteDuration v) else Inr d)"

definition check_duration :: "string \<Rightarrow> time \<Rightarrow> time \<Rightarrow> spec_error option" where
  "check_duration v lo hi = (case bounded_duration v lo hi of Inl e \<Rightarrow> Some e | Inr _ \<Rightarrow> None)"

definition validate_cache :: "route_cache option \<Rightarrow> spec_error option" where
  "validate_cache c = (case c of None \<Rightarrow> None
     | Some c \<Rightarrow>
         if length (rc_paths c) = 0 then Some NeedsPaths
         else case valid_route_paths (rc_paths c) of Some e \<Rightarrow> Some e
           | None \<Rightarrow> if rc_ttl c \<noteq> [] then check_duration (rc_ttl c) second (7 * 24 * hour) else None)"

definition ttl_or_default :: "route_cache \<Rightarrow> string" where
  "ttl_or_default c = (if rc_ttl c = [] then ''2m'' else rc_ttl c)"

definition validate_rate_limit :: "route_rate_limit option \<Rightarrow> spec_error option" where
  "validate_rate_limit r = (case r of None \<Rightarrow> None
     | Some r \<Rightarrow>
         if rl_requests r < 1 \<or> rl_requests r > 1000000 then Some (BadRequests (rl_requests r))
         else case check_duration (rl_window r) second (24 * hour) of Some e \<Rightarrow> Some e
           | None \<Rightarrow> valid_route_paths (rl_paths r))"

definition validate_edge_options :: "route_cache option \<Rightarrow> route_rate_limit option \<Rightarrow> spec_error option" where
  "validate_edge_options c r = (case validate_cache c of Some e \<Rightarrow> Some e | None \<Rightarrow> validate_rate_limit r)"

subsection \<open>Specs\<close>

record volume_spec =
  vs_name :: string
  vs_path :: string
  vs_shifted :: "bool option"
  vs_owner :: string

record health_spec =
  hs_path :: string
  hs_port :: int
  hs_timeout :: int

record instance_spec =
  in_template :: string
  in_image :: string
  in_profiles :: "string list"
  in_limits :: smap
  in_volumes :: "volume_spec list"
  in_service :: string
  in_env :: smap
  in_health :: "health_spec option"
  in_domain :: string
  in_directives :: "string list"
  in_cache :: "route_cache option"
  in_rate_limit :: "route_rate_limit option"
  in_labels :: "smap option"

record instance_policy =
  ip_profiles :: "string list"
  ip_imports :: "string list"

definition default_policy :: instance_policy where
  "default_policy = \<lparr>ip_profiles = [''base'', ''service''], ip_imports = []\<rparr>"

definition lower_dash :: "char \<Rightarrow> bool" where "lower_dash c \<longleftrightarrow> is_lower c \<or> is_digit c \<or> c = CHR ''-''"

definition template_ok :: "string \<Rightarrow> bool" where \<comment> \<open>\<open>^[a-z0-9][a-z0-9-]{0,40}$\<close>\<close>
  "template_ok s \<longleftrightarrow> (case s of [] \<Rightarrow> False | c # cs \<Rightarrow> lower_dash c \<and> c \<noteq> CHR ''-'' \<and> length cs \<le> 40 \<and> list_all lower_dash cs)"

definition image_ok :: "string \<Rightarrow> bool" where \<comment> \<open>\<open>^[A-Za-z0-9][A-Za-z0-9._:/@-]{0,200}$\<close>\<close>
  "image_ok s \<longleftrightarrow> (case s of [] \<Rightarrow> False
     | c # cs \<Rightarrow> is_alnum c \<and> length cs \<le> 200 \<and> list_all (\<lambda>c. is_alnum c \<or> c \<in> set ''._:/@-'') cs)"

definition cpu_ok :: "string \<Rightarrow> bool" where "cpu_ok v \<longleftrightarrow> v \<noteq> [] \<and> length v \<le> 3 \<and> list_all is_digit v"

definition mem_ok :: "string \<Rightarrow> bool" where \<comment> \<open>\<open>^[0-9]{1,6}(MB|GB|MiB|GiB)$\<close>\<close>
  "mem_ok v \<longleftrightarrow> (let n = takeWhile is_digit v in n \<noteq> [] \<and> length n \<le> 6
     \<and> dropWhile is_digit v \<in> set [''MB'', ''GB'', ''MiB'', ''GiB''])"

definition spec_env_key_ok :: "string \<Rightarrow> bool" where \<comment> \<open>\<open>^[A-Z_][A-Z0-9_]{0,63}$\<close>\<close>
  "spec_env_key_ok k \<longleftrightarrow> (case k of [] \<Rightarrow> False
     | c # cs \<Rightarrow> (is_upper c \<or> c = CHR ''_'') \<and> length cs \<le> 63 \<and> list_all (\<lambda>c. is_upper c \<or> is_digit c \<or> c = CHR ''_'') cs)"

definition health_path_ok :: "string \<Rightarrow> bool" where \<comment> \<open>\<open>^/[A-Za-z0-9/_.-]{0,100}$\<close>\<close>
  "health_path_ok p \<longleftrightarrow> (case p of [] \<Rightarrow> False
     | c # cs \<Rightarrow> c = CHR ''/'' \<and> length cs \<le> 100 \<and> list_all (\<lambda>c. is_alnum c \<or> c \<in> set ''/_.-'') cs)"

definition domain_label_ok :: "string \<Rightarrow> bool" where \<comment> \<open>\<open>[a-z0-9]([a-z0-9-]{0,61}[a-z0-9])?\<close>\<close>
  "domain_label_ok l \<longleftrightarrow> l \<noteq> [] \<and> length l \<le> 63 \<and> list_all lower_dash l \<and> hd l \<noteq> CHR ''-'' \<and> last l \<noteq> CHR ''-''"

definition domain_ok :: "string \<Rightarrow> bool" where
  "domain_ok d \<longleftrightarrow> length (split_on CHR ''.'' d) \<ge> 2 \<and> list_all domain_label_ok (split_on CHR ''.'' d)"

text \<open>\<open>^import ([a-z0-9][a-z0-9-]\{0,60\})$\<close>: the snippet it names.\<close>

definition import_name :: "string \<Rightarrow> string option" where
  "import_name d =
     (if prefix ''import '' d
      then (let n = drop 7 d in case n of [] \<Rightarrow> None
            | c # cs \<Rightarrow> if lower_dash c \<and> c \<noteq> CHR ''-'' \<and> length cs \<le> 60 \<and> list_all lower_dash cs then Some n else None)
      else None)"

text \<open>\<open>path.IsAbs\<close> and \<open>path.Clean(p) == p\<close>: the components on a stack, where \<open>..\<close> at the root goes nowhere.\<close>

definition clean_abs_step :: "string \<Rightarrow> string list \<Rightarrow> string list" where
  "clean_abs_step c out = (if c = [] \<or> c = ''.'' then out else if c = ''..'' then tl out else c # out)"

definition clean_absolute :: "string \<Rightarrow> string" where
  "clean_absolute p = ''/'' @ join_with ''/'' (rev (fold clean_abs_step (split_on CHR ''/'' p) []))"

definition clean_path_ok :: "string \<Rightarrow> bool" where
  "clean_path_ok p \<longleftrightarrow> \<not> (\<not> prefix ''/'' p \<or> clean_absolute p \<noteq> p \<or> length p > 200 \<or> CHR 0x00 \<in> set p)"

fun validate_limits :: "smap \<Rightarrow> spec_error option" where
  "validate_limits [] = None"
| "validate_limits ((k, v) # rest) =
     (if k = ''limits.cpu'' \<and> cpu_ok v then validate_limits rest
      else if k = ''limits.memory'' \<and> mem_ok v then validate_limits rest
      else Some (LimitNotAllowed k))"

fun validate_spec_volumes :: "string \<Rightarrow> volume_spec list \<Rightarrow> spec_error option" where
  "validate_spec_volumes name [] = None"
| "validate_spec_volumes name (v # vs) =
     (if \<not> valid_name (vs_name v) \<or> \<not> prefix (name @ ''-'') (vs_name v) then Some (VolumeName (vs_name v))
      else if \<not> clean_path_ok (vs_path v) then Some (VolumePath (vs_path v))
      else if vs_owner v \<noteq> [] \<and> \<not> valid_user_name (vs_owner v) then Some (VolumeOwner (vs_owner v))
      else validate_spec_volumes name vs)"

definition env_value_ok :: "string \<Rightarrow> bool" where
  "env_value_ok v \<longleftrightarrow> \<not> (length v > 4096 \<or> contains_any v [CHR 0x0D, CHR 0x0A, CHR 0x00])"

fun validate_spec_env :: "smap \<Rightarrow> spec_error option" where
  "validate_spec_env [] = None"
| "validate_spec_env ((k, v) # rest) =
     (if \<not> spec_env_key_ok k then Some (EnvName k) else if \<not> env_value_ok v then Some (EnvValue k) else validate_spec_env rest)"

definition health_ok :: "health_spec option \<Rightarrow> bool" where
  "health_ok h \<longleftrightarrow> (case h of None \<Rightarrow> True
     | Some h \<Rightarrow> \<not> (hs_port h < 1 \<or> hs_port h > 65535 \<or> hs_timeout h < 0 \<or> hs_timeout h > 300 \<or> (hs_path h \<noteq> [] \<and> \<not> health_path_ok (hs_path h))))"

fun validate_directives :: "instance_policy \<Rightarrow> string list \<Rightarrow> spec_error option" where
  "validate_directives pol [] = None"
| "validate_directives pol (d # ds) = (case import_name d of None \<Rightarrow> Some (DirectiveNotAllowed d)
     | Some n \<Rightarrow> if n \<notin> set (ip_imports pol) then Some (DirectiveNotAllowed d) else validate_directives pol ds)"

text \<open>The first of several checks that fails.\<close>

fun first_failure :: "spec_error option list \<Rightarrow> spec_error option" where
  "first_failure [] = None"
| "first_failure (c # cs) = (case c of Some e \<Rightarrow> Some e | None \<Rightarrow> first_failure cs)"

definition check :: "bool \<Rightarrow> spec_error \<Rightarrow> spec_error option" where "check bad e = (if bad then Some e else None)"

definition validate_spec :: "string \<Rightarrow> instance_policy \<Rightarrow> instance_spec \<Rightarrow> spec_error option" where
  "validate_spec name pol s = first_failure
     [check (\<not> valid_name name) BadInstanceName,
      check (\<not> template_ok (in_template s)) BadTemplate,
      check (\<not> image_ok (in_image s)) BadImage,
      map_option ProfileNotAllowed (find (\<lambda>p. p \<notin> set (ip_profiles pol)) (in_profiles s)),
      validate_limits (in_limits s),
      check (length (in_volumes s) > 4) TooManyVolumes,
      validate_spec_volumes name (in_volumes s),
      check (length (in_env s) > 64) TooManyEnv,
      validate_spec_env (in_env s),
      check (length (in_env s) > 0 \<and> \<not> valid_name (in_service s)) ServiceRequired,
      check (in_service s \<noteq> [] \<and> \<not> valid_name (in_service s)) BadService,
      check (\<not> health_ok (in_health s)) BadHealth,
      if in_domain s \<noteq> []
      then first_failure [check (length (in_domain s) > 253 \<or> \<not> domain_ok (in_domain s)) (BadDomain (in_domain s)),
                          check (in_health s = None) DomainNeedsHealth]
      else check (length (in_directives s) > 0 \<or> in_cache s \<noteq> None \<or> in_rate_limit s \<noteq> None) RouteNeedsDomain,
      map_option BadLabels (validate_labels (case in_labels s of None \<Rightarrow> [] | Some l \<Rightarrow> l)),
      validate_cache (in_cache s),
      validate_rate_limit (in_rate_limit s),
      validate_directives pol (in_directives s)]"

subsection \<open>The template of a spec\<close>

record health_check =
  hk_path :: string
  hk_port :: int
  hk_timeout :: int
  hk_interval :: int

definition no_health :: health_check where "no_health = \<lparr>hk_path = [], hk_port = 0, hk_timeout = 0, hk_interval = 0\<rparr>"

record template_config =
  tc_name :: string
  tc_image :: string
  tc_service :: string
  tc_profiles :: "string list"
  tc_volumes :: "volume_mount list"
  tc_limits :: smap
  tc_health :: health_check
  tc_directives :: "string list"
  tc_cache :: "route_cache option"
  tc_rate_limit :: "route_rate_limit option"
  tc_labels :: "smap option"

definition mount_of :: "volume_spec \<Rightarrow> volume_mount" where
  "mount_of v = \<lparr>vm_name = vs_name v, vm_path = vs_path v, vm_pool = ''default'',
     vm_shifted = (case vs_shifted v of None \<Rightarrow> True | Some b \<Rightarrow> b), vm_read_only = False, vm_owner = vs_owner v, vm_snapshots = None\<rparr>"

definition template_of :: "instance_spec \<Rightarrow> template_config" where
  "template_of s =
     \<lparr>tc_name = in_template s, tc_image = in_image s, tc_service = in_service s, tc_profiles = in_profiles s,
      tc_volumes = map mount_of (in_volumes s), tc_limits = in_limits s,
      tc_health = (case in_health s of None \<Rightarrow> no_health
        | Some h \<Rightarrow> \<lparr>hk_path = hs_path h, hk_port = hs_port h, hk_timeout = (if hs_timeout h = 0 then 45 else hs_timeout h), hk_interval = 2\<rparr>),
      tc_directives = in_directives s, tc_cache = in_cache s, tc_rate_limit = in_rate_limit s, tc_labels = in_labels s\<rparr>"

subsection \<open>The other requests\<close>

record update_request =
  up_image :: string
  up_service :: string
  up_health :: "health_spec option"
  up_env :: smap

definition validate_update :: "update_request \<Rightarrow> spec_error option" where
  "validate_update r = first_failure
     [check (\<not> image_ok (up_image r)) BadImage, check (\<not> valid_name (up_service r)) ServiceRequired,
      check (length (up_env r) > 16) TooManyEnv, validate_spec_env (up_env r), check (\<not> health_ok (up_health r)) BadHealth]"

definition validate_resize :: "smap \<Rightarrow> spec_error option" where
  "validate_resize limits = (if length limits = 0 then Some LimitsRequired else validate_limits limits)"

record suspend_request =
  su_domain :: string
  su_reason :: string
  su_directives :: "string list"

definition validate_suspend :: "instance_policy \<Rightarrow> suspend_request \<Rightarrow> spec_error option" where
  "validate_suspend pol r = first_failure
     [check (length (su_domain r) > 253 \<or> \<not> domain_ok (su_domain r)) (BadDomain (su_domain r)),
      check (length (su_reason r) = 0 \<or> length (su_reason r) > 200) BadReason,
      validate_directives pol (su_directives r)]"

record migrate_request =
  mr_target :: string
  mr_resume :: bool

definition local_remote :: string where "local_remote = ''local''"

definition validate_migrate :: "string \<Rightarrow> spec_error option" where
  "validate_migrate target =
     (if \<not> valid_name target then Some BadTargetRemote else if target = local_remote then Some TargetIsLocal else None)"

end
