(* ===== verification/Instance_Api.thy ===== *)
theory Instance_Api
  imports Instance_Spec Job_Runner Access
begin

text \<open>
  The tenant-instance endpoints (\<open>pkg/server/instances.go\<close>, \<open>migrate.go\<close>, \<open>host_remotes.go\<close>), with what the
  host records about an instance (\<open>recordOf\<close> in \<open>pkg/engine/instance_migrate.go\<close>).

  \<^item> A handler gets the caller (\<open>actor\<close>, whom \<open>Access\<close> let in), what it reads of the host (\<open>instance_host\<close>) and the
    decoded body (None: \<open>readJSON\<close> refused it, and answered); it answers or names the job to start.
  \<^item> The job is queued as \<open>Job_Runner\<close> models it (\<open>start_instance_job\<close>).
  \<^item> The audit log and the wording of an answer are left out; its status and code are kept.
\<close>

subsection \<open>What the host records\<close>

record instance_record =
  ir_exists :: bool
  ir_status :: string
  ir_template :: string
  ir_labels :: smap
  ir_migrated_to :: string
  ir_spec :: "instance_spec option"
  ir_host_paths :: "string list"

definition no_record :: instance_record where
  "no_record = \<lparr>ir_exists = False, ir_status = [], ir_template = [], ir_labels = [], ir_migrated_to = [], ir_spec = None, ir_host_paths = []\<rparr>"

definition live_limits :: "smap \<Rightarrow> smap \<Rightarrow> smap" where
  "live_limits cfg limits = fold (\<lambda>k m. if at_key cfg k \<noteq> [] then AList.update k (at_key cfg k) m else m) [''limits.cpu'', ''limits.memory''] limits"

text \<open>\<open>dec\<close> is \<open>json.Unmarshal\<close> of a recorded spec; None is the error for one that does not parse.\<close>

definition record_of :: "(string \<Rightarrow> instance_spec option) \<Rightarrow> string \<Rightarrow> instance_state \<Rightarrow> instance_record option" where
  "record_of dec status st =
     (let cfg = is_config st;
          base = \<lparr>ir_exists = True, ir_status = status, ir_template = at_key cfg template_key, ir_labels = labels_of cfg,
            ir_migrated_to = at_key cfg migrated_to_key, ir_spec = None,
            ir_host_paths = map (\<lambda>n. at_key (device st n) ''source'') (filter (\<lambda>n. host_path_disk (device st n)) (device_names st))\<rparr>;
          raw = at_key cfg spec_key in
      if raw = [] then Some base
      else case dec raw of None \<Rightarrow> None
        | Some s \<Rightarrow> Some (base\<lparr>ir_spec := Some (s\<lparr>in_env := [], in_image := (if at_key cfg image_key \<noteq> [] then at_key cfg image_key else in_image s),
            in_limits := live_limits cfg (in_limits s), in_labels := Some (labels_of cfg)\<rparr>)\<rparr>))"

datatype migration_refusal = NoSuchInstance | NotTenant | AlreadyMigrated string | NoSpecRecorded | MountsHostPath string

definition migration_refusal :: "instance_record \<Rightarrow> migration_refusal option" where
  "migration_refusal r =
     (if \<not> ir_exists r then Some NoSuchInstance
      else if ir_template r = [] then Some NotTenant
      else if ir_migrated_to r \<noteq> [] then Some (AlreadyMigrated (ir_migrated_to r))
      else if ir_spec r = None then Some NoSpecRecorded
      else if length (ir_host_paths r) > 0 then Some (MountsHostPath (hd (ir_host_paths r)))
      else None)"

subsection \<open>The scope of a token\<close>

record seen_instance =
  si_name :: string
  si_status :: string
  si_template :: string
  si_image :: string
  si_migrated_to :: string
  si_labels :: smap

text \<open>\<open>ih_snapshot\<close> is the status snapshot, \<open>ih_record\<close> the engine's \<open>Record\<close>; None when reading the host fails.\<close>

record instance_host =
  ih_snapshot :: "seen_instance list option"
  ih_record :: "string \<Rightarrow> instance_record option"
  ih_policy :: instance_policy

type_synonym api_error = "nat \<times> string"

definition check_scope :: "scope option \<Rightarrow> string \<Rightarrow> string \<Rightarrow> string \<Rightarrow> bool" where \<comment> \<open>True: it may\<close>
  "check_scope sc name img domain = (case sc of None \<Rightarrow> True
     | Some s \<Rightarrow> \<not> (\<not> allows_name s name \<or> (img \<noteq> [] \<and> \<not> allows_image s img) \<or> (domain \<noteq> [] \<and> \<not> allows_domain s domain)))"

definition check_label_scope :: "scope option \<Rightarrow> instance_host \<Rightarrow> string \<Rightarrow> smap option \<Rightarrow> api_error option" where
  "check_label_scope sc h name desired = (case sc of None \<Rightarrow> None
     | Some s \<Rightarrow>
         if length (sc_labels s) = 0 then None
         else case ih_snapshot h of None \<Rightarrow> Some (502, ''out_of_scope'')
           | Some snap \<Rightarrow>
               let mine = filter (\<lambda>i. si_name i = name) snap in
               if \<not> list_all (\<lambda>i. allows_labels s (si_labels i)) mine then Some (403, ''out_of_scope'')
               else case desired of
                 Some l \<Rightarrow> if \<not> allows_labels s l then Some (403, ''out_of_scope'') else None
               | None \<Rightarrow> if mine = [] then Some (403, ''out_of_scope'') else None)"

text \<open>\<open>?label=k=v\<close>, repeatable.\<close>

fun parse_label_filter :: "string list \<Rightarrow> smap \<Rightarrow> smap option" where
  "parse_label_filter [] out = Some out"
| "parse_label_filter (f # fs) out = (case cut CHR ''='' f of None \<Rightarrow> None
     | Some (k, v) \<Rightarrow> if \<not> valid_label_key k \<or> v = [] then None else parse_label_filter fs (AList.update k v out))"

definition has_labels :: "smap \<Rightarrow> smap \<Rightarrow> bool" where
  "has_labels have want \<longleftrightarrow> list_all (\<lambda>(k, v). at_key have k = v) want"

subsection \<open>The jobs\<close>

record finalize_request =
  fr_target :: string
  fr_purge :: bool

datatype instance_work =
    WLaunch instance_spec | WUpdate update_request | WResize smap | WSuspend suspend_request | WDestroy bool
  | WSetLabels smap "string list" | WMigrate migrate_request | WAdopt instance_spec | WFinalize finalize_request

record instance_job =
  ij_op :: string
  ij_name :: string
  ij_work :: instance_work

definition refuse_migrated :: "instance_record \<Rightarrow> api_error option" where
  "refuse_migrated r = (if ir_migrated_to r = [] then None else Some (409, ''migrated''))"

definition managed_record :: "instance_host \<Rightarrow> string \<Rightarrow> bool \<Rightarrow> api_error + instance_record" where
  "managed_record h name allow_migrated = (case ih_record h name of
       None \<Rightarrow> Inl (502, ''host_unavailable'')
     | Some r \<Rightarrow>
         if \<not> ir_exists r then Inl (404, ''not_found'')
         else if ir_template r = [] then Inl (403, ''not_managed'')
         else case (if allow_migrated then None else refuse_migrated r) of Some e \<Rightarrow> Inl e | None \<Rightarrow> Inr r)"

definition in_scope :: "scope option \<Rightarrow> instance_host \<Rightarrow> string \<Rightarrow> string \<Rightarrow> string \<Rightarrow> smap option \<Rightarrow> api_error option" where
  "in_scope sc h name img domain desired =
     (if \<not> valid_name name then Some (400, ''bad_request'')
      else if \<not> check_scope sc name img domain then Some (403, ''out_of_scope'')
      else check_label_scope sc h name desired)"

text \<open>The checks of most handlers after the body: \<open>wrong\<close> is the request's own validation.\<close>

definition managed_change ::
  "scope option \<Rightarrow> instance_host \<Rightarrow> string \<Rightarrow> string \<Rightarrow> string \<Rightarrow> spec_error option \<Rightarrow> bool \<Rightarrow> instance_job \<Rightarrow> api_error + instance_job" where
  "managed_change sc h name img domain wrong allow_migrated j =
     (if \<not> check_scope sc name img domain then Inl (403, ''out_of_scope'')
      else case check_label_scope sc h name None of Some e \<Rightarrow> Inl e
      | None \<Rightarrow>
          if wrong \<noteq> None then Inl (400, ''invalid_spec'')
          else case managed_record h name allow_migrated of Inl e \<Rightarrow> Inl e | Inr _ \<Rightarrow> Inr j)"

definition handle_instance_put :: "instance_host \<Rightarrow> actor \<Rightarrow> string \<Rightarrow> instance_spec option \<Rightarrow> api_error + instance_job" where
  "handle_instance_put h a name body =
     (if \<not> valid_name name then Inl (400, ''bad_request'')
      else case body of None \<Rightarrow> Inl (400, ''bad_request'')
      | Some s \<Rightarrow>
          if \<not> check_scope (ac_scope a) name (in_image s) (in_domain s) then Inl (403, ''out_of_scope'')
          else if validate_spec name (ih_policy h) s \<noteq> None then Inl (400, ''invalid_spec'')
          else case check_label_scope (ac_scope a) h name (in_labels s) of Some e \<Rightarrow> Inl e
          | None \<Rightarrow> (case ih_record h name of
              None \<Rightarrow> Inl (502, ''host_unavailable'')
            | Some r \<Rightarrow> (case refuse_migrated r of Some e \<Rightarrow> Inl e
                | None \<Rightarrow>
                    if ir_exists r \<and> ir_template r \<noteq> in_template s
                    then Inl (if ir_template r = [] then 403 else 409, ''not_managed'')
                    else Inr \<lparr>ij_op = ''put'', ij_name = name, ij_work = WLaunch s\<rparr>)))"

definition handle_instance_update :: "instance_host \<Rightarrow> actor \<Rightarrow> string \<Rightarrow> update_request option \<Rightarrow> api_error + instance_job" where
  "handle_instance_update h a name body =
     (if \<not> valid_name name then Inl (400, ''bad_request'')
      else case body of None \<Rightarrow> Inl (400, ''bad_request'')
      | Some req \<Rightarrow> managed_change (ac_scope a) h name (up_image req) [] (validate_update req) False
          \<lparr>ij_op = ''update'', ij_name = name, ij_work = WUpdate req\<rparr>)"

definition handle_instance_resize :: "instance_host \<Rightarrow> actor \<Rightarrow> string \<Rightarrow> smap option \<Rightarrow> api_error + instance_job" where
  "handle_instance_resize h a name body =
     (if \<not> valid_name name then Inl (400, ''bad_request'')
      else case body of None \<Rightarrow> Inl (400, ''bad_request'')
      | Some limits \<Rightarrow> managed_change (ac_scope a) h name [] [] (validate_resize limits) False
          \<lparr>ij_op = ''resize'', ij_name = name, ij_work = WResize limits\<rparr>)"

definition handle_instance_suspend :: "instance_host \<Rightarrow> actor \<Rightarrow> string \<Rightarrow> suspend_request option \<Rightarrow> api_error + instance_job" where
  "handle_instance_suspend h a name body =
     (if \<not> valid_name name then Inl (400, ''bad_request'')
      else case body of None \<Rightarrow> Inl (400, ''bad_request'')
      | Some req \<Rightarrow> managed_change (ac_scope a) h name [] (su_domain req) (validate_suspend (ih_policy h) req) False
          \<lparr>ij_op = ''suspend'', ij_name = name, ij_work = WSuspend req\<rparr>)"

definition handle_instance_delete :: "instance_host \<Rightarrow> actor \<Rightarrow> string \<Rightarrow> string \<Rightarrow> api_error + instance_job" where
  "handle_instance_delete h a name purge =
     (if \<not> valid_name name then Inl (400, ''bad_request'')
      else managed_change (ac_scope a) h name [] [] None True
        \<lparr>ij_op = ''delete'', ij_name = name, ij_work = WDestroy (purge = ''true'')\<rparr>)"

text \<open>The labels an instance would carry after a change: what the snapshot shows of it, without \<open>remove\<close>, with \<open>set\<close>.\<close>

definition labels_after :: "seen_instance list \<Rightarrow> string \<Rightarrow> smap \<Rightarrow> string list \<Rightarrow> smap" where
  "labels_after snap name st remove =
     fold (\<lambda>(k, v). AList.update k v) st (fold AList.delete remove
       (fold (\<lambda>i. fold (\<lambda>(k, v). AList.update k v) (si_labels i)) (filter (\<lambda>i. si_name i = name) snap) []))"

definition label_change_scope :: "scope option \<Rightarrow> instance_host \<Rightarrow> string \<Rightarrow> smap \<Rightarrow> string list \<Rightarrow> api_error option" where
  "label_change_scope sc h name st remove = (case sc of None \<Rightarrow> None
     | Some s \<Rightarrow>
         if length (sc_labels s) > 0
         then (case ih_snapshot h of None \<Rightarrow> Some (502, ''host_unavailable'')
               | Some snap \<Rightarrow> check_label_scope sc h name (Some (labels_after snap name st remove)))
         else None)"

definition handle_instance_labels :: "instance_host \<Rightarrow> actor \<Rightarrow> string \<Rightarrow> (smap \<times> string list) option \<Rightarrow> api_error + instance_job" where
  "handle_instance_labels h a name body =
     (if \<not> valid_name name then Inl (400, ''bad_request'')
      else case body of None \<Rightarrow> Inl (400, ''bad_request'')
      | Some (st, remove) \<Rightarrow>
          if length st = 0 \<and> length remove = 0 then Inl (400, ''bad_request'')
          else if \<not> list_all valid_label_key remove then Inl (400, ''invalid_spec'')
          else if validate_labels st \<noteq> None then Inl (400, ''invalid_spec'')
          else if \<not> check_scope (ac_scope a) name [] [] then Inl (403, ''out_of_scope'')
          else case label_change_scope (ac_scope a) h name st remove of Some e \<Rightarrow> Inl e
          | None \<Rightarrow> (case managed_record h name False of Inl e \<Rightarrow> Inl e
              | Inr _ \<Rightarrow> Inr \<lparr>ij_op = ''labels'', ij_name = name, ij_work = WSetLabels st remove\<rparr>))"

subsection \<open>Where a migration goes\<close>

text \<open>The file of host remotes: not configured, not there yet, unreadable, or each host with its remote.\<close>

datatype remotes_file = NotKept | NotYet | Unreadable | Remotes smap

definition follow_host_remotes :: "bool \<Rightarrow> smap option \<Rightarrow> bool \<Rightarrow> remotes_file \<Rightarrow> remotes_file \<times> bool" where \<comment> \<open>fleet.yml's hosts (None: it does not load), whether the write succeeds\<close>
  "follow_host_remotes kept hosts ok file =
     (if \<not> kept then (file, True)
      else case hosts of None \<Rightarrow> (file, False)
      | Some hs \<Rightarrow> if length hs = 0 then (if ok then (NotYet, True) else (file, False))
          else if ok then (Remotes hs, True) else (file, False))"

definition target_remote_of :: "string \<Rightarrow> remotes_file \<Rightarrow> string \<Rightarrow> nat + string" where
  "target_remote_of own file host =
     (if \<not> valid_name host then Inl 400
      else if own \<noteq> [] \<and> host = own then Inl 400
      else case file of NotKept \<Rightarrow> Inl 409 | NotYet \<Rightarrow> Inl 409 | Unreadable \<Rightarrow> Inl 500
      | Remotes hs \<Rightarrow> (case map_of hs host of None \<Rightarrow> Inl 400
          | Some r \<Rightarrow> if r = [] then Inl 409 else if r = local_remote then Inl 400 else Inr r))"

definition migrate_target :: "string \<Rightarrow> remotes_file \<Rightarrow> string \<Rightarrow> string \<Rightarrow> api_error + string" where
  "migrate_target own file target_host target =
     (if target_host \<noteq> []
      then if target \<noteq> [] then Inl (400, ''bad_request'')
           else (case target_remote_of own file target_host of Inl code \<Rightarrow> Inl (code, ''bad_target_host'') | Inr r \<Rightarrow> Inr r)
      else Inr target)"

definition handle_instance_migrate ::
  "instance_host \<Rightarrow> string \<Rightarrow> remotes_file \<Rightarrow> actor \<Rightarrow> string \<Rightarrow> (migrate_request \<times> string) option \<Rightarrow> api_error + instance_job" where
  "handle_instance_migrate h own file a name body =
     (if \<not> valid_name name then Inl (400, ''bad_request'')
      else case body of None \<Rightarrow> Inl (400, ''bad_request'')
      | Some (req, target_host) \<Rightarrow> (case migrate_target own file target_host (mr_target req) of Inl e \<Rightarrow> Inl e
        | Inr target \<Rightarrow>
            if validate_migrate target \<noteq> None then Inl (400, ''bad_request'')
            else case in_scope (ac_scope a) h name [] [] None of Some e \<Rightarrow> Inl e
            | None \<Rightarrow> (case managed_record h name False of Inl e \<Rightarrow> Inl e
              | Inr r \<Rightarrow> if migration_refusal r \<noteq> None then Inl (409, ''not_migratable'')
                  else Inr \<lparr>ij_op = ''migrate'', ij_name = name, ij_work = WMigrate (req\<lparr>mr_target := target\<rparr>)\<rparr>)))"

definition handle_instance_adopt :: "instance_host \<Rightarrow> actor \<Rightarrow> string \<Rightarrow> instance_spec option \<Rightarrow> api_error + instance_job" where
  "handle_instance_adopt h a name body =
     (if \<not> valid_name name then Inl (400, ''bad_request'')
      else case body of None \<Rightarrow> Inl (400, ''bad_request'')
      | Some s \<Rightarrow>
          if length (in_env s) > 0 then Inl (400, ''invalid_spec'')
          else case in_scope (ac_scope a) h name (in_image s) (in_domain s) (in_labels s) of Some e \<Rightarrow> Inl e
          | None \<Rightarrow>
              if validate_spec name (ih_policy h) s \<noteq> None then Inl (400, ''invalid_spec'')
              else case ih_record h name of
                None \<Rightarrow> Inl (502, ''host_unavailable'')
              | Some r \<Rightarrow>
                  if \<not> ir_exists r then Inl (404, ''not_found'')
                  else if ir_template r = [] then Inl (403, ''not_managed'')
                  else if ir_template r \<noteq> in_template s then Inl (409, ''not_managed'')
                  else Inr \<lparr>ij_op = ''adopt'', ij_name = name, ij_work = WAdopt s\<rparr>)"

definition handle_instance_finalize :: "instance_host \<Rightarrow> actor \<Rightarrow> string \<Rightarrow> finalize_request option \<Rightarrow> api_error + instance_job" where
  "handle_instance_finalize h a name body =
     (if \<not> valid_name name then Inl (400, ''bad_request'')
      else case body of None \<Rightarrow> Inl (400, ''bad_request'')
      | Some req \<Rightarrow>
          if fr_target req \<noteq> [] \<and> validate_migrate (fr_target req) \<noteq> None then Inl (400, ''bad_request'')
          else case in_scope (ac_scope a) h name [] [] None of Some e \<Rightarrow> Inl e
          | None \<Rightarrow> (case ih_record h name of
              None \<Rightarrow> Inl (502, ''host_unavailable'')
            | Some r \<Rightarrow>
                if \<not> ir_exists r \<and> fr_target req = [] then Inl (404, ''not_found'')
                else if ir_exists r \<and> ir_template r = [] then Inl (403, ''not_managed'')
                else if ir_exists r \<and> ir_migrated_to r = [] then Inl (409, ''not_migrated'')
                else if ir_exists r \<and> fr_target req \<noteq> [] \<and> fr_target req \<noteq> ir_migrated_to r then Inl (409, ''not_migrated'')
                else Inr \<lparr>ij_op = ''finalize-migration'', ij_name = name, ij_work = WFinalize req\<rparr>))"

subsection \<open>Reading\<close>

definition sees :: "scope option \<Rightarrow> seen_instance \<Rightarrow> bool" where
  "sees sc i \<longleftrightarrow> (case sc of None \<Rightarrow> True | Some s \<Rightarrow> allows_name s (si_name i) \<and> allows_labels s (si_labels i))"

definition handle_instance_list :: "instance_host \<Rightarrow> actor \<Rightarrow> string list \<Rightarrow> api_error + seen_instance list" where
  "handle_instance_list h a labels = (case ih_snapshot h of None \<Rightarrow> Inl (502, ''host_unavailable'')
     | Some snap \<Rightarrow> (case parse_label_filter labels [] of None \<Rightarrow> Inl (400, ''bad_request'')
         | Some want \<Rightarrow> Inr (filter (\<lambda>i. \<not> (si_template i = [] \<or> \<not> sees (ac_scope a) i) \<and> has_labels (si_labels i) want) snap)))"

definition handle_instance_get :: "instance_host \<Rightarrow> actor \<Rightarrow> string \<Rightarrow> api_error + seen_instance" where
  "handle_instance_get h a name = (case ih_snapshot h of None \<Rightarrow> Inl (502, ''host_unavailable'')
     | Some snap \<Rightarrow> (case find (\<lambda>i. si_name i = name \<and> si_template i \<noteq> [] \<and> sees (ac_scope a) i) snap of
         None \<Rightarrow> Inl (404, ''not_found'') | Some i \<Rightarrow> Inr i))"

definition handle_instance_export :: "instance_host \<Rightarrow> actor \<Rightarrow> string \<Rightarrow> api_error + instance_spec \<times> string" where
  "handle_instance_export h a name =
     (if \<not> valid_name name \<or> (case ac_scope a of None \<Rightarrow> False | Some s \<Rightarrow> \<not> allows_name s name) then Inl (404, ''not_found'')
      else case ih_record h name of None \<Rightarrow> Inl (502, ''host_unavailable'')
      | Some r \<Rightarrow>
          if \<not> ir_exists r \<or> ir_template r = [] \<or> (case ac_scope a of None \<Rightarrow> False | Some s \<Rightarrow> \<not> allows_labels s (ir_labels r))
          then Inl (404, ''not_found'')
          else case ir_spec r of None \<Rightarrow> Inl (409, ''no_spec'')
          | Some s \<Rightarrow> Inr (s\<lparr>in_env := []\<rparr>, ir_migrated_to r))"

subsection \<open>Starting the job\<close>

definition instance_job_spec :: "actor \<Rightarrow> instance_job \<Rightarrow> job_spec" where
  "instance_job_spec a j = \<lparr>sp_kind = ''instance:'' @ ij_op j, sp_actor = ac_name a, sp_sha = [], sp_subject = ij_name j, sp_plan_hash = [], sp_prepare = False\<rparr>"

definition answer_not_started :: "queue_error \<Rightarrow> api_error" where
  "answer_not_started e = (case e of QueueFull \<Rightarrow> (429, ''queue_full'') | QueueClosed \<Rightarrow> (503, ''stopping''))"

text \<open>\<open>queueJob\<close>: a ticket, and a thread of \<open>Job_Runner\<close> that runs \<open>launch\<close> with it.\<close>

definition start_instance_job :: "actor \<Rightarrow> instance_job \<Rightarrow> world \<Rightarrow> world \<times> api_error option" where
  "start_instance_job a j w = (case enqueue (w_queue w) of
     Inl e \<Rightarrow> (w, Some (answer_not_started e))
   | Inr (r, q) \<Rightarrow> (w\<lparr>w_queue := q, w_threads := (w_threads w)(r \<mapsto> \<lparr>th_spec = instance_job_spec a j, th_job = None, th_pc = PcTicket\<rparr>)\<rparr>, None))"

lemma start_instance_job_steps: "start_instance_job a j w = (w', None) \<Longrightarrow> step w None w'"
  by (auto simp: start_instance_job_def split: sum.splits intro: step.queue_job)

text \<open>One request of these endpoints.\<close>

datatype instance_request =
    RPut "instance_spec option" | RUpdate "update_request option" | RResize "smap option" | RSuspend "suspend_request option"
  | RDelete string | RLabels "(smap \<times> string list) option" | RMigrate "(migrate_request \<times> string) option"
  | RAdopt "instance_spec option" | RFinalize "finalize_request option"

definition handle_instance :: "instance_host \<Rightarrow> string \<Rightarrow> remotes_file \<Rightarrow> actor \<Rightarrow> string \<Rightarrow> instance_request \<Rightarrow> api_error + instance_job" where
  "handle_instance h own file a name r = (case r of
     RPut b \<Rightarrow> handle_instance_put h a name b | RUpdate b \<Rightarrow> handle_instance_update h a name b
   | RResize b \<Rightarrow> handle_instance_resize h a name b | RSuspend b \<Rightarrow> handle_instance_suspend h a name b
   | RDelete p \<Rightarrow> handle_instance_delete h a name p | RLabels b \<Rightarrow> handle_instance_labels h a name b
   | RMigrate b \<Rightarrow> handle_instance_migrate h own file a name b | RAdopt b \<Rightarrow> handle_instance_adopt h a name b
   | RFinalize b \<Rightarrow> handle_instance_finalize h a name b)"

subsection \<open>What a job was let to do\<close>

fun work_image :: "instance_work \<Rightarrow> string" where
  "work_image (WLaunch s) = in_image s" | "work_image (WUpdate r) = up_image r" | "work_image (WAdopt s) = in_image s"
| "work_image _ = []"

fun work_domain :: "instance_work \<Rightarrow> string" where
  "work_domain (WLaunch s) = in_domain s" | "work_domain (WSuspend r) = su_domain r" | "work_domain (WAdopt s) = in_domain s"
| "work_domain _ = []"

text \<open>The labels the instance can carry after the job, given what the snapshot shows of it.\<close>

definition labels_left :: "seen_instance list \<Rightarrow> string \<Rightarrow> instance_work \<Rightarrow> smap list" where
  "labels_left snap name w =
     (let now = map si_labels (filter (\<lambda>i. si_name i = name) snap) in
      case w of WLaunch s \<Rightarrow> (case in_labels s of Some l \<Rightarrow> [l] | None \<Rightarrow> now)
      | WAdopt s \<Rightarrow> (case in_labels s of Some l \<Rightarrow> [l] | None \<Rightarrow> now)
      | WSetLabels st remove \<Rightarrow> [labels_after snap name st remove]
      | _ \<Rightarrow> now)"

definition labels_confined :: "scope \<Rightarrow> instance_host \<Rightarrow> string \<Rightarrow> instance_work \<Rightarrow> bool" where
  "labels_confined s h name w \<longleftrightarrow> (length (sc_labels s) > 0 \<longrightarrow>
     (\<exists>snap. ih_snapshot h = Some snap \<and> (\<forall>i \<in> set snap. si_name i = name \<longrightarrow> allows_labels s (si_labels i))
        \<and> labels_left snap name w \<noteq> [] \<and> (\<forall>l \<in> set (labels_left snap name w). allows_labels s l)))"

definition scope_confined :: "scope option \<Rightarrow> instance_host \<Rightarrow> string \<Rightarrow> instance_work \<Rightarrow> bool" where
  "scope_confined sc h name w \<longleftrightarrow> (\<forall>s. sc = Some s \<longrightarrow> allows_name s name
     \<and> (work_image w \<noteq> [] \<longrightarrow> allows_image s (work_image w)) \<and> (work_domain w \<noteq> [] \<longrightarrow> allows_domain s (work_domain w))
     \<and> labels_confined s h name w)"

fun keeps_migrated :: "instance_work \<Rightarrow> bool" where \<comment> \<open>what may be done to the copy of a migrated instance\<close>
  "keeps_migrated (WDestroy p) = True" | "keeps_migrated (WAdopt s) = True" | "keeps_migrated (WFinalize r) = True"
| "keeps_migrated _ = False"

fun may_be_new :: "instance_work \<Rightarrow> bool" where \<comment> \<open>what needs no instance on the host\<close>
  "may_be_new (WLaunch s) = True" | "may_be_new (WFinalize r) = True" | "may_be_new _ = False"

definition tenant_only :: "instance_host \<Rightarrow> string \<Rightarrow> instance_work \<Rightarrow> bool" where
  "tenant_only h name w \<longleftrightarrow> (\<exists>r. ih_record h name = Some r \<and> (ir_exists r \<longrightarrow> ir_template r \<noteq> [])
     \<and> (\<not> ir_exists r \<longrightarrow> may_be_new w) \<and> (ir_migrated_to r \<noteq> [] \<longrightarrow> keeps_migrated w))"

lemma check_scope_ok:
  "check_scope (Some s) name img domain \<longleftrightarrow> allows_name s name \<and> (img \<noteq> [] \<longrightarrow> allows_image s img) \<and> (domain \<noteq> [] \<longrightarrow> allows_domain s domain)"
  by (auto simp: check_scope_def)

lemma check_label_scope_ok:
  assumes "check_label_scope (Some s) h name desired = None" "length (sc_labels s) > 0"
  shows "\<exists>snap. ih_snapshot h = Some snap \<and> (\<forall>i \<in> set snap. si_name i = name \<longrightarrow> allows_labels s (si_labels i))
    \<and> (case desired of Some l \<Rightarrow> allows_labels s l | None \<Rightarrow> filter (\<lambda>i. si_name i = name) snap \<noteq> [])"
  using assms by (auto simp: check_label_scope_def Let_def list_all_iff filter_empty_conv split: option.splits if_splits)

lemma confined_now:
  assumes "check_scope sc name (work_image w) (work_domain w)" "check_label_scope sc h name None = None"
    and "\<And>snap. labels_left snap name w = map si_labels (filter (\<lambda>i. si_name i = name) snap)"
  shows "scope_confined sc h name w"
  unfolding scope_confined_def labels_confined_def
proof (intro allI impI conjI)
  fix s assume s: "sc = Some s"
  show "allows_name s name" "work_image w \<noteq> [] \<Longrightarrow> allows_image s (work_image w)" "work_domain w \<noteq> [] \<Longrightarrow> allows_domain s (work_domain w)"
    using assms(1) s by (simp_all add: check_scope_ok)
  assume "length (sc_labels s) > 0"
  from check_label_scope_ok[OF assms(2)[unfolded s] this] assms(3)
  show "\<exists>snap. ih_snapshot h = Some snap \<and> (\<forall>i \<in> set snap. si_name i = name \<longrightarrow> allows_labels s (si_labels i))
        \<and> labels_left snap name w \<noteq> [] \<and> (\<forall>l \<in> set (labels_left snap name w). allows_labels s l)" by auto
qed

lemma confined_wanted:
  assumes "check_scope sc name (work_image w) (work_domain w)" "check_label_scope sc h name (Some l) = None"
    and "\<And>snap. ih_snapshot h = Some snap \<Longrightarrow> labels_left snap name w = [l]"
  shows "scope_confined sc h name w"
  unfolding scope_confined_def labels_confined_def
proof (intro allI impI conjI)
  fix s assume s: "sc = Some s"
  show "allows_name s name" "work_image w \<noteq> [] \<Longrightarrow> allows_image s (work_image w)" "work_domain w \<noteq> [] \<Longrightarrow> allows_domain s (work_domain w)"
    using assms(1) s by (simp_all add: check_scope_ok)
  assume "length (sc_labels s) > 0"
  from check_label_scope_ok[OF assms(2)[unfolded s] this] assms(3)
  show "\<exists>snap. ih_snapshot h = Some snap \<and> (\<forall>i \<in> set snap. si_name i = name \<longrightarrow> allows_labels s (si_labels i))
        \<and> labels_left snap name w \<noteq> [] \<and> (\<forall>l \<in> set (labels_left snap name w). allows_labels s l)" by auto
qed

lemma confined_spec:
  assumes "check_scope sc name (in_image s) (in_domain s)" "check_label_scope sc h name (in_labels s) = None" "w = WLaunch s \<or> w = WAdopt s"
  shows "scope_confined sc h name w"
proof -
  have w: "work_image w = in_image s" "work_domain w = in_domain s" using assms(3) by auto
  show ?thesis
  proof (cases "in_labels s")
    case None
    then show ?thesis using assms w by (intro confined_now) (auto simp: labels_left_def)
  next
    case (Some l)
    then show ?thesis using assms w by (intro confined_wanted[where l = l]) (auto simp: labels_left_def)
  qed
qed

lemma managed_record_ok:
  "managed_record h name m = Inr r \<Longrightarrow> ih_record h name = Some r \<and> ir_exists r \<and> ir_template r \<noteq> [] \<and> (\<not> m \<longrightarrow> ir_migrated_to r = [])"
  by (auto simp: managed_record_def refuse_migrated_def split: option.splits if_splits)

lemma managed_change_ok:
  assumes "managed_change sc h name img domain wrong m j = Inr j'"
  shows "j' = j \<and> check_scope sc name img domain \<and> check_label_scope sc h name None = None \<and> wrong = None
    \<and> (\<exists>r. ih_record h name = Some r \<and> ir_exists r \<and> ir_template r \<noteq> [] \<and> (\<not> m \<longrightarrow> ir_migrated_to r = []))"
  using assms by (auto simp: managed_change_def split: option.splits if_splits sum.splits dest!: managed_record_ok)

lemma in_scope_ok:
  "in_scope sc h name img domain desired = None \<Longrightarrow> valid_name name \<and> check_scope sc name img domain \<and> check_label_scope sc h name desired = None"
  by (auto simp: in_scope_def split: if_splits)

definition let_through :: "actor \<Rightarrow> instance_host \<Rightarrow> string \<Rightarrow> instance_job \<Rightarrow> bool" where
  "let_through a h name j \<longleftrightarrow> ij_name j = name \<and> valid_name name \<and> scope_confined (ac_scope a) h name (ij_work j) \<and> tenant_only h name (ij_work j)"

lemma put_let_through: "handle_instance_put h a name b = Inr j \<Longrightarrow> let_through a h name j"
proof -
  assume p: "handle_instance_put h a name b = Inr j"
  then obtain s r where n: "valid_name name" "check_scope (ac_scope a) name (in_image s) (in_domain s)"
    and v: "validate_spec name (ih_policy h) s = None" "check_label_scope (ac_scope a) h name (in_labels s) = None"
    and r: "ih_record h name = Some r" "refuse_migrated r = None" "ir_exists r \<longrightarrow> ir_template r = in_template s"
    and j: "j = \<lparr>ij_op = ''put'', ij_name = name, ij_work = WLaunch s\<rparr>"
    unfolding handle_instance_put_def by (auto split: if_splits option.splits)
  have "template_ok (in_template s)" using v(1) by (simp add: validate_spec_def check_def split: if_splits)
  then have "in_template s \<noteq> []" by (auto simp: template_ok_def)
  moreover have "scope_confined (ac_scope a) h name (WLaunch s)"
    using confined_spec[OF n(2) v(2)] by simp
  ultimately show ?thesis using n(1) r j by (auto simp: let_through_def tenant_only_def refuse_migrated_def split: if_splits)
qed

lemma changes_let_through:
  "handle_instance_update h a name b1 = Inr j \<Longrightarrow> let_through a h name j"
  "handle_instance_resize h a name b2 = Inr j \<Longrightarrow> let_through a h name j"
  "handle_instance_suspend h a name b3 = Inr j \<Longrightarrow> let_through a h name j"
  "handle_instance_delete h a name b4 = Inr j \<Longrightarrow> let_through a h name j"
  unfolding handle_instance_update_def handle_instance_resize_def handle_instance_suspend_def handle_instance_delete_def
  by (auto split: if_splits option.splits dest!: managed_change_ok intro!: confined_now
      simp: let_through_def tenant_only_def labels_left_def)

lemma labels_let_through: "handle_instance_labels h a name b = Inr j \<Longrightarrow> let_through a h name j"
proof -
  assume p: "handle_instance_labels h a name b = Inr j"
  then obtain st remove r where n: "valid_name name" "check_scope (ac_scope a) name [] []"
    and l: "label_change_scope (ac_scope a) h name st remove = None" and r: "managed_record h name False = Inr r"
    and j: "j = \<lparr>ij_op = ''labels'', ij_name = name, ij_work = WSetLabels st remove\<rparr>"
    unfolding handle_instance_labels_def by (auto split: if_splits option.splits sum.splits)
  have "scope_confined (ac_scope a) h name (WSetLabels st remove)"
  proof (cases "\<exists>s. ac_scope a = Some s \<and> length (sc_labels s) > 0")
    case True
    then obtain s snap where s: "ac_scope a = Some s" "length (sc_labels s) > 0" "ih_snapshot h = Some snap"
      and c: "check_label_scope (ac_scope a) h name (Some (labels_after snap name st remove)) = None"
      using l by (auto simp: label_change_scope_def split: option.splits if_splits)
    show ?thesis by (rule confined_wanted[OF _ c]) (use n(2) s(3) in \<open>simp_all add: labels_left_def\<close>)
  next
    case False
    then show ?thesis using n(2) by (auto simp: scope_confined_def labels_confined_def check_scope_ok)
  qed
  then show ?thesis using n(1) j managed_record_ok[OF r] by (auto simp: let_through_def tenant_only_def)
qed

lemma migration_let_through:
  "handle_instance_migrate h own file a name b1 = Inr j \<Longrightarrow> let_through a h name j"
  "handle_instance_finalize h a name b2 = Inr j \<Longrightarrow> let_through a h name j"
  unfolding handle_instance_migrate_def handle_instance_finalize_def
  by (auto split: if_splits option.splits sum.splits dest!: in_scope_ok managed_record_ok intro!: confined_now
      simp: let_through_def tenant_only_def labels_left_def)

lemma adopt_let_through: "handle_instance_adopt h a name b = Inr j \<Longrightarrow> let_through a h name j"
proof -
  assume p: "handle_instance_adopt h a name b = Inr j"
  then obtain s r where n: "valid_name name" "in_scope (ac_scope a) h name (in_image s) (in_domain s) (in_labels s) = None"
    and r: "ih_record h name = Some r" "ir_exists r" "ir_template r \<noteq> []"
    and j: "j = \<lparr>ij_op = ''adopt'', ij_name = name, ij_work = WAdopt s\<rparr>"
    unfolding handle_instance_adopt_def by (auto split: if_splits option.splits)
  have "scope_confined (ac_scope a) h name (WAdopt s)"
    using in_scope_ok[OF n(2)] confined_spec by blast
  then show ?thesis using n(1) r j by (auto simp: let_through_def tenant_only_def)
qed

subsection \<open>Properties\<close>

text \<open>C7: A tenant-instance job stays inside its caller's scope and touches only tenants: whatever the request, if it
  starts a job, the job is about the instance named in the URL; for a caller with a scope the name, the image and
  the domain of the job match it, and when the scope names labels the instance's labels now and all it can
  carry afterwards do; the instance on the host was launched from a template (or does not exist, for a launch or a
  repeated finalize), and a copy left by a migration is only deleted, adopted back or finalized.\<close>
theorem instance_change_confined:
  assumes "handle_instance h own file a name r = Inr j"
  shows "ij_name j = name \<and> valid_name name \<and> scope_confined (ac_scope a) h name (ij_work j) \<and> tenant_only h name (ij_work j)"
proof -
  have "let_through a h name j"
    using assms put_let_through changes_let_through labels_let_through migration_let_through adopt_let_through
    by (cases r) (auto simp: handle_instance_def)
  then show ?thesis by (simp add: let_through_def)
qed

definition acme_scope :: scope where
  "acme_scope = \<lparr>sc_names = [''acme-*''], sc_images = [''app:*''], sc_domains = [''*.acme.io''], sc_labels = [(''environment'', [''staging''])], sc_secrets = []\<rparr>"

definition acme :: actor where "acme = \<lparr>ac_name = ''acme'', ac_role = RoleDeployer, ac_scope = Some acme_scope\<rparr>"

definition acme_host :: instance_host where
  "acme_host = \<lparr>ih_snapshot = Some [\<lparr>si_name = ''acme-web'', si_status = ''Running'', si_template = ''web'', si_image = ''app:v1'', si_migrated_to = [],
       si_labels = [(''environment'', ''staging'')]\<rparr>],
     ih_record = (\<lambda>n. if n = ''acme-web'' then Some (no_record\<lparr>ir_exists := True, ir_status := ''Running'', ir_template := ''web''\<rparr>) else Some no_record),
     ih_policy = default_policy\<rparr>"

theorem instance_change_confined_witness:
  "(case handle_instance acme_host [] NotKept acme ''acme-web'' (RLabels (Some ([(''environment'', ''production'')], []))) of Inl e \<Rightarrow> fst e = 403 | Inr _ \<Rightarrow> False)
   \<and> (\<exists>j. handle_instance acme_host [] NotKept acme ''acme-web'' (RLabels (Some ([(''team'', ''a'')], []))) = Inr j
        \<and> labels_confined acme_scope acme_host ''acme-web'' (ij_work j) \<and> tenant_only acme_host ''acme-web'' (ij_work j))"
proof (intro conjI)
  show "case handle_instance acme_host [] NotKept acme ''acme-web'' (RLabels (Some ([(''environment'', ''production'')], []))) of Inl e \<Rightarrow> fst e = 403 | Inr _ \<Rightarrow> False"
    by code_simp
  define r where "r = handle_instance acme_host [] NotKept acme ''acme-web'' (RLabels (Some ([(''team'', ''a'')], [])))"
  have "case handle_instance acme_host [] NotKept acme ''acme-web'' (RLabels (Some ([(''team'', ''a'')], []))) of Inl e \<Rightarrow> False | Inr _ \<Rightarrow> True"
    by code_simp
  then obtain j where j: "r = Inr j" unfolding r_def[symmetric] by (cases r) auto
  have "ac_scope acme = Some acme_scope" by (simp add: acme_def)
  then show "\<exists>j. handle_instance acme_host [] NotKept acme ''acme-web'' (RLabels (Some ([(''team'', ''a'')], []))) = Inr j
        \<and> labels_confined acme_scope acme_host ''acme-web'' (ij_work j) \<and> tenant_only acme_host ''acme-web'' (ij_work j)"
    using instance_change_confined[OF j[unfolded r_def]] j[unfolded r_def] by (auto simp: scope_confined_def)
qed

text \<open>Names nest: a volume named after the instance \<open>app-x\<close> is one the spec of an instance \<open>app\<close> may mount.\<close>

definition mounts :: "string \<Rightarrow> instance_spec" where
  "mounts v = \<lparr>in_template = ''web'', in_image = ''img'', in_profiles = [], in_limits = [], in_volumes = [\<lparr>vs_name = v, vs_path = ''/data'', vs_shifted = None, vs_owner = []\<rparr>],
     in_service = [], in_env = [], in_health = None, in_domain = [], in_directives = [], in_cache = None, in_rate_limit = None, in_labels = None\<rparr>"

lemma nested_names_share_volumes:
  "validate_spec ''app'' default_policy (mounts ''app-x-data'') = None \<and> validate_spec ''app-x'' default_policy (mounts ''app-x-data'') = None"
  by code_simp

end
