(* ===== verification/Migration.thy ===== *)
theory Migration
  imports Instance_Api
begin

text \<open>
  Moving an instance to another host (\<open>pkg/engine/migration.go\<close>, and the daemon's side of it in
  \<open>instance_migrate.go\<close>): preflight, snapshots, warm copy, stop, final copy, start, health check and rollback,
  and the deletion of the source afterwards.

  \<^item> Incus is not under \<open>src/\<close>: each command of the client is a function of the argument \<open>hosts_api\<close> over a state
    \<open>'w\<close> of both hosts that nothing here looks into. What the guarantees rest on is \<open>hosts_documented\<close>, over which
    instances run and what the volumes hold. A volume of a running instance may change at any call.
  \<^item> Errors are named by the step that failed; the progress log is left out.
\<close>

subsection \<open>The commands\<close>

record 'w hosts_api =
  ha_statuses :: "string \<Rightarrow> 'w \<Rightarrow> smap option"
  ha_state :: "string \<Rightarrow> string \<Rightarrow> 'w \<Rightarrow> instance_state option"
  ha_profiles :: "string \<Rightarrow> 'w \<Rightarrow> string list option"
  ha_volumes :: "string \<Rightarrow> string \<Rightarrow> 'w \<Rightarrow> string list option"
  ha_snapshot :: "string \<Rightarrow> volume_ref \<Rightarrow> string \<Rightarrow> 'w \<Rightarrow> 'w \<times> bool"
  ha_copy_volume :: "string \<Rightarrow> string \<Rightarrow> volume_ref \<Rightarrow> bool \<Rightarrow> 'w \<Rightarrow> 'w \<times> bool"
  ha_copy_instance :: "string \<Rightarrow> string \<Rightarrow> string \<Rightarrow> bool \<Rightarrow> 'w \<Rightarrow> 'w \<times> bool"
  ha_stop :: "string \<Rightarrow> string \<Rightarrow> int \<Rightarrow> 'w \<Rightarrow> 'w \<times> bool"
  ha_start :: "string \<Rightarrow> string \<Rightarrow> 'w \<Rightarrow> 'w \<times> bool"
  ha_probe :: "string \<Rightarrow> string \<Rightarrow> health_check \<Rightarrow> 'w \<Rightarrow> 'w \<times> bool"
  ha_delete_instance :: "string \<Rightarrow> string \<Rightarrow> 'w \<Rightarrow> 'w \<times> bool"
  ha_delete_volume :: "string \<Rightarrow> volume_ref \<Rightarrow> 'w \<Rightarrow> 'w \<times> bool"

record migration_params =
  mp_source :: string
  mp_target :: string
  mp_name :: string
  mp_volume :: string
  mp_health :: health_check
  mp_resume :: bool
  mp_skip_snapshot :: bool
  mp_stop_timeout :: int

datatype migration_stage = FinalSync | StartOnTarget | HealthOnTarget

datatype migration_error =
    BadArguments | Unreachable | NotOnSource | HostPathMounted | UnsafeVolumeName | VolumeNotAttached | ProfilesMissing "string list"
  | TargetExists | TargetNotStopped string | TargetPool | TargetVolumeExists volume_ref
  | SnapshotFailed | WarmCopyFailed | SourceNotStopped
  | RolledBack migration_stage | RollbackFailed migration_stage | LeftStopped migration_stage
  | NotSafe | SourceLive string | TargetNotRunning | VolumeMissing volume_ref | Unhealthy | DeleteFailed


definition health_path_plain :: "string \<Rightarrow> bool" where \<comment> \<open>\<open>^/[^\s'"\\]*$\<close>\<close>
  "health_path_plain p \<longleftrightarrow> (case p of [] \<Rightarrow> False
     | c # cs \<Rightarrow> c = CHR ''/'' \<and> list_all (\<lambda>c. c \<notin> set [CHR 0x20, CHR 0x09, CHR 0x0A, CHR 0x0C, CHR 0x0D, CHR 0x27, CHR 0x22, CHR 0x5C]) cs)"

definition migration_args_ok :: "string \<Rightarrow> string \<Rightarrow> string \<Rightarrow> string \<Rightarrow> health_check \<Rightarrow> bool" where
  "migration_args_ok src dst name vol hc \<longleftrightarrow>
     valid_name src \<and> valid_name dst \<and> valid_name name \<and> src \<noteq> dst \<and> \<not> (vol \<noteq> [] \<and> \<not> valid_name vol)
     \<and> \<not> (hk_path hc \<noteq> [] \<and> \<not> health_path_plain (hk_path hc)) \<and> \<not> (hk_port hc < 0 \<or> hk_port hc > 65535)"

definition migratable_volumes :: "instance_state \<Rightarrow> migration_error + volume_ref list" where
  "migratable_volumes st =
     (if list_ex (\<lambda>n. host_path_disk (device st n)) (device_names st) then Inl HostPathMounted
      else if \<not> list_all (\<lambda>(p, v). valid_name p \<and> valid_name v) (volumes st) then Inl UnsafeVolumeName
      else Inr (volumes st))"

subsection \<open>Preflight\<close>

text \<open>Which of the volumes the target holds already.\<close>

fun target_volumes :: "'w hosts_api \<Rightarrow> string \<Rightarrow> bool \<Rightarrow> volume_ref list \<Rightarrow> 'w \<Rightarrow> migration_error + volume_ref list" where
  "target_volumes ha dst resume [] w = Inr []"
| "target_volumes ha dst resume ((p, v) # vs) w = (case ha_volumes ha dst p w of
     None \<Rightarrow> Inl TargetPool
   | Some there \<Rightarrow>
       if v \<in> set there \<and> \<not> resume then Inl (TargetVolumeExists (p, v))
       else case target_volumes ha dst resume vs w of Inl e \<Rightarrow> Inl e
         | Inr rest \<Rightarrow> Inr (if v \<in> set there then (p, v) # rest else rest))"

definition target_instance :: "bool \<Rightarrow> smap \<Rightarrow> string \<Rightarrow> migration_error + bool" where
  "target_instance resume dst_inst name = (case map_of dst_inst name of None \<Rightarrow> Inr False
     | Some s \<Rightarrow> if \<not> resume then Inl TargetExists else if s \<noteq> ''Stopped'' then Inl (TargetNotStopped s) else Inr True)"

record migration_plan =
  ml_running :: bool
  ml_volumes :: "volume_ref list"
  ml_known :: "volume_ref list" \<comment> \<open>volumes the target holds\<close>
  ml_instance :: bool \<comment> \<open>whether the target holds the instance\<close>

definition preflight :: "'w hosts_api \<Rightarrow> migration_params \<Rightarrow> 'w \<Rightarrow> migration_error + migration_plan" where
  "preflight ha p w =
     (let src = mp_source p; dst = mp_target p; name = mp_name p in
      if \<not> migration_args_ok src dst name (mp_volume p) (mp_health p) then Inl BadArguments
      else case ha_statuses ha src w of None \<Rightarrow> Inl Unreachable
      | Some src_inst \<Rightarrow> (case map_of src_inst name of None \<Rightarrow> Inl NotOnSource
      | Some status \<Rightarrow> (case ha_statuses ha dst w of None \<Rightarrow> Inl Unreachable
      | Some dst_inst \<Rightarrow> (case ha_state ha src name w of None \<Rightarrow> Inl Unreachable
      | Some st \<Rightarrow> (case migratable_volumes st of Inl e \<Rightarrow> Inl e
      | Inr vols \<Rightarrow>
          if mp_volume p \<noteq> [] \<and> mp_volume p \<notin> snd ` set vols then Inl VolumeNotAttached
          else case ha_profiles ha dst w of None \<Rightarrow> Inl Unreachable
          | Some have \<Rightarrow>
              let missing = filter (\<lambda>pr. pr \<notin> set have) (is_profiles st) in
              if length missing > 0 then Inl (ProfilesMissing missing)
              else case target_instance (mp_resume p) dst_inst name of Inl e \<Rightarrow> Inl e
              | Inr there \<Rightarrow> (case target_volumes ha dst (mp_resume p) vols w of Inl e \<Rightarrow> Inl e
                  | Inr known \<Rightarrow> Inr \<lparr>ml_running = (status = ''Running''), ml_volumes = vols, ml_known = known, ml_instance = there\<rparr>))))))"

subsection \<open>The move\<close>

fun snapshot_each :: "'w hosts_api \<Rightarrow> string \<Rightarrow> string \<Rightarrow> volume_ref list \<Rightarrow> 'w \<Rightarrow> 'w \<times> bool" where
  "snapshot_each ha src snap [] w = (w, True)"
| "snapshot_each ha src snap (v # vs) w = (case ha_snapshot ha src v snap w of (w1, ok) \<Rightarrow> if ok then snapshot_each ha src snap vs w1 else (w1, False))"

fun copy_volumes :: "'w hosts_api \<Rightarrow> string \<Rightarrow> string \<Rightarrow> volume_ref list \<Rightarrow> volume_ref list \<Rightarrow> 'w \<Rightarrow> 'w \<times> volume_ref list \<times> bool" where
  "copy_volumes ha src dst known [] w = (w, known, True)"
| "copy_volumes ha src dst known (v # vs) w = (case ha_copy_volume ha src dst v (v \<in> set known) w of
     (w1, ok) \<Rightarrow> if ok then copy_volumes ha src dst (v # known) vs w1 else (w1, known, False))"

text \<open>\<open>copyAll\<close>; the two flags it keeps in its closure are passed and returned.\<close>

definition copy_all ::
  "'w hosts_api \<Rightarrow> migration_params \<Rightarrow> volume_ref list \<Rightarrow> volume_ref list \<Rightarrow> bool \<Rightarrow> 'w \<Rightarrow> 'w \<times> volume_ref list \<times> bool \<times> bool" where
  "copy_all ha p vols known there w =
     (case copy_volumes ha (mp_source p) (mp_target p) known vols w of (w1, known1, ok) \<Rightarrow>
        if \<not> ok then (w1, known1, there, False)
        else case ha_copy_instance ha (mp_source p) (mp_target p) (mp_name p) there w1 of (w2, ok2) \<Rightarrow> (w2, known1, if ok2 then True else there, ok2))"

definition roll_back :: "'w hosts_api \<Rightarrow> migration_params \<Rightarrow> bool \<Rightarrow> migration_stage \<Rightarrow> bool \<Rightarrow> 'w \<Rightarrow> 'w \<times> migration_error option" where
  "roll_back ha p was_running stage target_started w =
     (let w1 = (if target_started then fst (ha_stop ha (mp_target p) (mp_name p) (mp_stop_timeout p) w) else w) in
      if \<not> was_running then (w1, Some (LeftStopped stage))
      else case ha_start ha (mp_source p) (mp_name p) w1 of (w2, ok) \<Rightarrow> (w2, Some (if ok then RolledBack stage else RollbackFailed stage)))"

definition cut_over :: "'w hosts_api \<Rightarrow> migration_params \<Rightarrow> bool \<Rightarrow> volume_ref list \<Rightarrow> volume_ref list \<Rightarrow> bool \<Rightarrow> 'w \<Rightarrow> 'w \<times> migration_error option" where
  "cut_over ha p was_running vols known there w =
     (case copy_all ha p vols known there w of (w1, _, _, copied) \<Rightarrow>
      if \<not> copied then roll_back ha p was_running FinalSync False w1
      else case ha_start ha (mp_target p) (mp_name p) w1 of (w2, started) \<Rightarrow>
      if \<not> started then roll_back ha p was_running StartOnTarget False w2
      else if hk_path (mp_health p) = [] then (w2, None)
      else case ha_probe ha (mp_target p) (mp_name p) (mp_health p) w2 of (w3, healthy) \<Rightarrow>
        if healthy then (w3, None) else roll_back ha p was_running HealthOnTarget True w3)"

definition pre_migrate_name :: "time \<Rightarrow> string" where \<comment> \<open>\<open>20060102-150405\<close>\<close>
  "pre_migrate_name now = (let s = stamp_of now in ''pre-migrate-'' @ four_digits (sm_year s) @ two_digits (sm_month s) @ two_digits (sm_day s) @ ''-''
     @ two_digits (nat (sm_secs s) div 3600) @ two_digits (nat (sm_secs s) div 60 mod 60) @ two_digits (nat (sm_secs s) mod 60))"

definition migrate_planned :: "'w hosts_api \<Rightarrow> migration_params \<Rightarrow> migration_plan \<Rightarrow> time \<Rightarrow> 'w \<Rightarrow> 'w \<times> migration_error option" where
  "migrate_planned ha p pl now w =
     (case (if mp_skip_snapshot p then (w, True) else snapshot_each ha (mp_source p) (pre_migrate_name now) (ml_volumes pl) w) of (w1, snapped) \<Rightarrow>
      if \<not> snapped then (w1, Some SnapshotFailed)
      else if \<not> ml_running pl then cut_over ha p False (ml_volumes pl) (ml_known pl) (ml_instance pl) w1
      else case copy_all ha p (ml_volumes pl) (ml_known pl) (ml_instance pl) w1 of (w2, known, there, copied) \<Rightarrow>
      if \<not> copied then (w2, Some WarmCopyFailed)
      else let w3 = fst (ha_stop ha (mp_source p) (mp_name p) (mp_stop_timeout p) w2) in
      if (case ha_statuses ha (mp_source p) w3 of None \<Rightarrow> True | Some after \<Rightarrow> map_of after (mp_name p) \<noteq> Some ''Stopped'')
      then (w3, Some SourceNotStopped)
      else cut_over ha p True (ml_volumes pl) known there w3)"

definition migrate :: "'w hosts_api \<Rightarrow> migration_params \<Rightarrow> time \<Rightarrow> 'w \<Rightarrow> 'w \<times> migration_error option" where
  "migrate ha p now w = (case preflight ha p w of Inl e \<Rightarrow> (w, Some e) | Inr pl \<Rightarrow> migrate_planned ha p pl now w)"

subsection \<open>Finishing\<close>

record finalize_params =
  fp_source :: string
  fp_target :: string
  fp_name :: string
  fp_health :: health_check
  fp_purge :: bool

fun volumes_there :: "'w hosts_api \<Rightarrow> string \<Rightarrow> volume_ref list \<Rightarrow> 'w \<Rightarrow> migration_error option" where
  "volumes_there ha dst [] w = None"
| "volumes_there ha dst ((p, v) # vs) w = (case ha_volumes ha dst p w of None \<Rightarrow> Some Unreachable
     | Some there \<Rightarrow> if v \<notin> set there then Some (VolumeMissing (p, v)) else volumes_there ha dst vs w)"

fun purge_volumes :: "'w hosts_api \<Rightarrow> string \<Rightarrow> volume_ref list \<Rightarrow> 'w \<Rightarrow> 'w \<times> migration_error option" where
  "purge_volumes ha src [] w = (w, None)"
| "purge_volumes ha src (v # vs) w = (case ha_delete_volume ha src v w of (w1, ok) \<Rightarrow> if ok then purge_volumes ha src vs w1 else (w1, Some DeleteFailed))"

definition finalize_checks :: "'w hosts_api \<Rightarrow> finalize_params \<Rightarrow> 'w \<Rightarrow> (migration_error option) + volume_ref list" where \<comment> \<open>\<open>Inl None\<close>: done already\<close>
  "finalize_checks ha p w =
     (if \<not> migration_args_ok (fp_source p) (fp_target p) (fp_name p) [] (fp_health p) then Inl (Some BadArguments)
      else case ha_statuses ha (fp_source p) w of None \<Rightarrow> Inl (Some Unreachable)
      | Some src_inst \<Rightarrow> (case ha_statuses ha (fp_target p) w of None \<Rightarrow> Inl (Some Unreachable)
      | Some dst_inst \<Rightarrow> (case map_of src_inst (fp_name p) of
          None \<Rightarrow> Inl (if map_of dst_inst (fp_name p) = Some ''Running'' then None else Some NotSafe)
        | Some s \<Rightarrow>
            if s \<noteq> ''Stopped'' then Inl (Some (SourceLive s))
            else if map_of dst_inst (fp_name p) \<noteq> Some ''Running'' then Inl (Some TargetNotRunning)
            else case ha_state ha (fp_source p) (fp_name p) w of None \<Rightarrow> Inl (Some Unreachable)
            | Some st \<Rightarrow> (case migratable_volumes st of Inl e \<Rightarrow> Inl (Some e)
            | Inr vols \<Rightarrow> (case volumes_there ha (fp_target p) vols w of Some e \<Rightarrow> Inl (Some e) | None \<Rightarrow> Inr vols)))))"

definition finalize :: "'w hosts_api \<Rightarrow> finalize_params \<Rightarrow> 'w \<Rightarrow> 'w \<times> migration_error option" where
  "finalize ha p w = (case finalize_checks ha p w of Inl r \<Rightarrow> (w, r)
     | Inr vols \<Rightarrow>
         (case (if hk_path (fp_health p) \<noteq> [] then ha_probe ha (fp_target p) (fp_name p) (fp_health p) w else (w, True)) of (w1, healthy) \<Rightarrow>
          if \<not> healthy then (w1, Some Unhealthy)
          else case ha_delete_instance ha (fp_source p) (fp_name p) w1 of (w2, ok) \<Rightarrow>
          if \<not> ok then (w2, Some DeleteFailed)
          else if fp_purge p then purge_volumes ha (fp_source p) vols w2 else (w2, None)))"

subsection \<open>What the commands document\<close>

text \<open>
  What is seen of one instance from outside: whether its copy on a host runs, and what a volume it uses there holds
  (\<open>None\<close> for no volume). \<open>ha_statuses\<close> tells the truth, a call acts on the host and the volume it names, a volume that no
  running copy writes keeps its contents, and a copy made while neither side runs is exact. A call that fails promises
  nothing about what it acts on.
\<close>

definition calm :: "(string \<Rightarrow> 'w \<Rightarrow> bool) \<Rightarrow> (string \<Rightarrow> volume_ref \<Rightarrow> 'w \<Rightarrow> string option) \<Rightarrow> 'w \<Rightarrow> 'w \<Rightarrow> bool" where
  "calm runs data w w' \<longleftrightarrow> (\<forall>h. runs h w' = runs h w) \<and> (\<forall>h v. \<not> runs h w \<longrightarrow> data h v w' = data h v w)"

definition copies_documented :: "'w hosts_api \<Rightarrow> string \<Rightarrow> string \<Rightarrow> string \<Rightarrow> (string \<Rightarrow> 'w \<Rightarrow> bool) \<Rightarrow> (string \<Rightarrow> volume_ref \<Rightarrow> 'w \<Rightarrow> string option) \<Rightarrow> bool" where
  "copies_documented ha src dst name runs data \<longleftrightarrow>
     (\<forall>h v s w w' ok. ha_snapshot ha h v s w = (w', ok) \<longrightarrow> calm runs data w w')
   \<and> (\<forall>h hc w w' ok. ha_probe ha h name hc w = (w', ok) \<longrightarrow> calm runs data w w')
   \<and> (\<forall>b w w' ok. ha_copy_instance ha src dst name b w = (w', ok) \<longrightarrow> calm runs data w w')
   \<and> (\<forall>v b w w' ok. ha_copy_volume ha src dst v b w = (w', ok) \<longrightarrow>
        (\<forall>h. runs h w' = runs h w) \<and> (\<forall>h u. \<not> runs h w \<longrightarrow> (h, u) \<noteq> (dst, v) \<longrightarrow> data h u w' = data h u w)
        \<and> (ok \<longrightarrow> \<not> runs src w \<longrightarrow> \<not> runs dst w \<longrightarrow> data dst v w' = data src v w))"

definition hosts_documented :: "'w hosts_api \<Rightarrow> string \<Rightarrow> string \<Rightarrow> string \<Rightarrow> (string \<Rightarrow> 'w \<Rightarrow> bool) \<Rightarrow> (string \<Rightarrow> volume_ref \<Rightarrow> 'w \<Rightarrow> string option) \<Rightarrow> bool" where
  "hosts_documented ha src dst name runs data \<longleftrightarrow>
     copies_documented ha src dst name runs data
   \<and> (\<forall>h w m. h \<in> {src, dst} \<longrightarrow> ha_statuses ha h w = Some m \<longrightarrow> (runs h w \<longleftrightarrow> map_of m name = Some ''Running''))
   \<and> (\<forall>h w w' ok. ha_start ha h name w = (w', ok) \<longrightarrow>
        (\<forall>g. g \<noteq> h \<longrightarrow> runs g w' = runs g w) \<and> (ok \<longrightarrow> runs h w') \<and> (\<forall>g v. g \<noteq> h \<longrightarrow> \<not> runs g w \<longrightarrow> data g v w' = data g v w))
   \<and> (\<forall>h t w w' ok. ha_stop ha h name t w = (w', ok) \<longrightarrow>
        (\<forall>g. g \<noteq> h \<longrightarrow> runs g w' = runs g w) \<and> (ok \<longrightarrow> \<not> runs h w') \<and> (runs h w' \<longrightarrow> runs h w)
        \<and> (\<forall>g v. \<not> runs g w \<longrightarrow> data g v w' = data g v w))"

lemma copies_documentedD:
  assumes "copies_documented ha src dst name runs data"
  shows "ha_snapshot ha h v s w = (w', ok) \<Longrightarrow> calm runs data w w'"
    and "ha_probe ha h name hc w = (w', ok) \<Longrightarrow> calm runs data w w'"
    and "ha_copy_instance ha src dst name b w = (w', ok) \<Longrightarrow> calm runs data w w'"
    and "ha_copy_volume ha src dst v b w = (w', ok) \<Longrightarrow> runs h w' = runs h w"
    and "ha_copy_volume ha src dst v b w = (w', ok) \<Longrightarrow> \<not> runs h w \<Longrightarrow> (h, u) \<noteq> (dst, v) \<Longrightarrow> data h u w' = data h u w"
    and "ha_copy_volume ha src dst v b w = (w', ok) \<Longrightarrow> ok \<Longrightarrow> \<not> runs src w \<Longrightarrow> \<not> runs dst w \<Longrightarrow> data dst v w' = data src v w"
  using assms unfolding copies_documented_def by (elim conjE, metis)+

lemma hosts_documentedD:
  assumes "hosts_documented ha src dst name runs data"
  shows "copies_documented ha src dst name runs data"
    and "h = src \<or> h = dst \<Longrightarrow> ha_statuses ha h w = Some m \<Longrightarrow> runs h w \<longleftrightarrow> map_of m name = Some ''Running''"
    and "ha_start ha h name w = (w', ok) \<Longrightarrow> g \<noteq> h \<Longrightarrow> runs g w' = runs g w"
    and "ha_start ha h name w = (w', ok) \<Longrightarrow> ok \<Longrightarrow> runs h w'"
    and "ha_start ha h name w = (w', ok) \<Longrightarrow> g \<noteq> h \<Longrightarrow> \<not> runs g w \<Longrightarrow> data g v w' = data g v w"
    and "ha_stop ha h name t w = (w', ok) \<Longrightarrow> g \<noteq> h \<Longrightarrow> runs g w' = runs g w"
    and "ha_stop ha h name t w = (w', ok) \<Longrightarrow> ok \<Longrightarrow> \<not> runs h w'"
    and "ha_stop ha h name t w = (w', ok) \<Longrightarrow> runs h w' \<Longrightarrow> runs h w"
    and "ha_stop ha h name t w = (w', ok) \<Longrightarrow> \<not> runs g w \<Longrightarrow> data g v w' = data g v w"
  using assms unfolding hosts_documented_def by (elim conjE, metis insertCI)+

lemma calm_trans: "calm runs data w w1 \<Longrightarrow> calm runs data w1 w2 \<Longrightarrow> calm runs data w w2"
  unfolding calm_def by simp

lemma snapshot_each_calm:
  "copies_documented ha src dst name runs data \<Longrightarrow> snapshot_each ha h s vs w = (w', ok) \<Longrightarrow> calm runs data w w'"
proof (induction vs arbitrary: w)
  case Nil
  then show ?case by (simp add: calm_def)
next
  case (Cons v vs)
  obtain w1 ok1 where s: "ha_snapshot ha h v s w = (w1, ok1)" by (metis prod.exhaust)
  from copies_documentedD(1)[OF Cons.prems(1) s] have c: "calm runs data w w1" .
  show ?case
  proof (cases ok1)
    case True
    then show ?thesis using Cons.IH[OF Cons.prems(1), of w1] Cons.prems(2) s calm_trans[OF c] by simp
  next
    case False
    then show ?thesis using Cons.prems(2) s c by simp
  qed
qed

text \<open>What copying the volumes leaves: the same copies run, the source's data are as they were, and the target's equal them.\<close>

definition synced :: "(string \<Rightarrow> 'w \<Rightarrow> bool) \<Rightarrow> (string \<Rightarrow> volume_ref \<Rightarrow> 'w \<Rightarrow> string option) \<Rightarrow> string \<Rightarrow> 'w \<Rightarrow> 'w \<Rightarrow> bool" where
  "synced runs data src w w' \<longleftrightarrow> (\<forall>h. runs h w' = runs h w) \<and> (\<not> runs src w \<longrightarrow> (\<forall>v. data src v w' = data src v w))"

lemma calm_synced: "calm runs data w w' \<Longrightarrow> synced runs data src w w'"
  by (simp add: calm_def synced_def)

lemma synced_trans: "synced runs data src w w1 \<Longrightarrow> synced runs data src w1 w2 \<Longrightarrow> synced runs data src w w2"
  by (simp add: synced_def)

lemma copy_volumes_synced:
  assumes doc: "copies_documented ha src dst name runs data" and ne: "src \<noteq> dst"
  shows "copy_volumes ha src dst known vs w = (w', k, ok) \<Longrightarrow>
      synced runs data src w w' \<and> (ok \<longrightarrow> \<not> runs src w \<longrightarrow> \<not> runs dst w \<longrightarrow>
        (\<forall>v. data dst v w' = (if v \<in> set vs then data src v w else data dst v w)))"
proof (induction vs arbitrary: w known)
  case Nil
  then show ?case by (simp add: synced_def)
next
  case (Cons v vs)
  obtain w1 ok1 where c: "ha_copy_volume ha src dst v (v \<in> set known) w = (w1, ok1)" by (metis prod.exhaust)
  note D = copies_documentedD(4-6)[OF doc]
  have s1: "synced runs data src w w1"
    unfolding synced_def using D(1)[OF c] D(2)[OF c, of src] ne by simp
  show ?case
  proof (cases ok1)
    case False
    then show ?thesis using Cons.prems c s1 by simp
  next
    case True
    have rest: "copy_volumes ha src dst (v # known) vs w1 = (w', k, ok)" using Cons.prems c True by simp
    note IH = Cons.IH[OF rest]
    have "data dst u w' = (if u \<in> set (v # vs) then data src u w else data dst u w)" if o: "ok" "\<not> runs src w" "\<not> runs dst w" for u
    proof -
      have r: "\<not> runs src w1" "\<not> runs dst w1" using o s1 by (simp_all add: synced_def)
      have "data src u w1 = data src u w" using s1 o unfolding synced_def by blast
      moreover have "data dst u w1 = (if u = v then data src u w else data dst u w)"
        using D(2)[OF c o(3), of u] D(3)[OF c True o(2,3)] by auto
      moreover have "data dst u w' = (if u \<in> set vs then data src u w1 else data dst u w1)" using IH o(1) r by blast
      ultimately show ?thesis by (cases "u = v") simp_all
    qed
    then show ?thesis using synced_trans[OF s1] IH by blast
  qed
qed

lemma copy_all_synced:
  assumes doc: "copies_documented ha (mp_source p) (mp_target p) (mp_name p) runs data" and ne: "mp_source p \<noteq> mp_target p"
    and c: "copy_all ha p vs known there w = (w', k, t, ok)"
  shows "synced runs data (mp_source p) w w'"
    and "ok \<Longrightarrow> \<not> runs (mp_source p) w \<Longrightarrow> \<not> runs (mp_target p) w \<Longrightarrow> v \<in> set vs \<Longrightarrow> data (mp_target p) v w' = data (mp_source p) v w"
proof -
  obtain w1 k1 ok1 where v: "copy_volumes ha (mp_source p) (mp_target p) known vs w = (w1, k1, ok1)" by (metis prod_cases3)
  obtain w2 ok2 where i: "ha_copy_instance ha (mp_source p) (mp_target p) (mp_name p) there w1 = (w2, ok2)" by (metis prod.exhaust)
  note V = copy_volumes_synced[OF doc ne v]
  from copies_documentedD(3)[OF doc i] have C: "calm runs data w1 w2" .
  have w': "w' = (if ok1 then w2 else w1)" "ok \<Longrightarrow> ok1" using c v i by (auto simp: copy_all_def split: if_splits)
  show "synced runs data (mp_source p) w w'"
    using V synced_trans calm_synced[OF C] unfolding w' by (metis (full_types))
  assume o: "ok" "\<not> runs (mp_source p) w" "\<not> runs (mp_target p) w" "v \<in> set vs"
  then have "data (mp_target p) v w1 = (if v \<in> set vs then data (mp_source p) v w else data (mp_target p) v w)" using V w'(2) by blast
  moreover have "\<not> runs (mp_target p) w1" using V o(3) by (simp only: synced_def not_False_eq_True)
  then have "data (mp_target p) v w2 = data (mp_target p) v w1" using C unfolding calm_def by blast
  ultimately show "data (mp_target p) v w' = data (mp_source p) v w" using w' o by simp
qed

text \<open>A completed hand-over: the target was started holding the source's data, and is healthy; the source is stopped and unchanged since.\<close>

definition handed_over ::
  "'w hosts_api \<Rightarrow> migration_params \<Rightarrow> (string \<Rightarrow> 'w \<Rightarrow> bool) \<Rightarrow> (string \<Rightarrow> volume_ref \<Rightarrow> 'w \<Rightarrow> string option) \<Rightarrow> volume_ref list \<Rightarrow> 'w \<Rightarrow> bool" where
  "handed_over ha p runs data vs w' \<longleftrightarrow>
     runs (mp_target p) w' \<and> \<not> runs (mp_source p) w'
   \<and> (\<exists>ws w2. ha_start ha (mp_target p) (mp_name p) ws = (w2, True)
        \<and> (if hk_path (mp_health p) = [] then w' = w2 else ha_probe ha (mp_target p) (mp_name p) (mp_health p) w2 = (w', True))
        \<and> \<not> runs (mp_target p) ws \<and> (\<forall>v \<in> set vs. data (mp_target p) v ws = data (mp_source p) v ws)
        \<and> (\<forall>v. data (mp_source p) v w' = data (mp_source p) v ws))"

lemma roll_back_outcome:
  assumes doc: "hosts_documented ha (mp_source p) (mp_target p) (mp_name p) runs data" and ne: "mp_source p \<noteq> mp_target p"
    and off: "\<not> runs (mp_source p) w" and c: "roll_back ha p was s started w = (w', r)"
  shows "r = Some (RolledBack s) \<and> was \<and> runs (mp_source p) w' \<or> r = Some (RollbackFailed s) \<and> was
      \<or> r = Some (LeftStopped s) \<and> \<not> was \<and> \<not> runs (mp_source p) w' \<and> (\<forall>v. data (mp_source p) v w' = data (mp_source p) v w)"
    and "\<not> runs (mp_target p) w \<Longrightarrow> \<not> runs (mp_target p) w'"
proof -
  obtain w1 ok1 where s: "ha_stop ha (mp_target p) (mp_name p) (mp_stop_timeout p) w = (w1, ok1)" by (metis prod.exhaust)
  define w2 where "w2 = (if started then w1 else w)"
  obtain w3 ok3 where t: "ha_start ha (mp_source p) (mp_name p) w2 = (w3, ok3)" by (metis prod.exhaust)
  have w': "(w', r) = (if was then (w3, Some (if ok3 then RolledBack s else RollbackFailed s)) else (w2, Some (LeftStopped s)))"
    using c s t unfolding roll_back_def w2_def by (auto simp: Let_def split: if_splits)
  note D = hosts_documentedD[OF doc]
  have src2: "\<not> runs (mp_source p) w2" "data (mp_source p) v w2 = data (mp_source p) v w" for v
    using D(6)[OF s ne] D(9)[OF s off, of v] off by (simp_all add: w2_def)
  have src3: "ok3 \<Longrightarrow> runs (mp_source p) w3" by (rule D(4)[OF t])
  show "r = Some (RolledBack s) \<and> was \<and> runs (mp_source p) w' \<or> r = Some (RollbackFailed s) \<and> was
      \<or> r = Some (LeftStopped s) \<and> \<not> was \<and> \<not> runs (mp_source p) w' \<and> (\<forall>v. data (mp_source p) v w' = data (mp_source p) v w)"
    using w' src2 src3 by (cases was; cases ok3) auto
  assume "\<not> runs (mp_target p) w"
  then have "\<not> runs (mp_target p) w2" using D(8)[OF s] by (auto simp: w2_def)
  moreover have "runs (mp_target p) w3 = runs (mp_target p) w2" using D(3)[OF t] ne by metis
  ultimately show "\<not> runs (mp_target p) w'" using w' by (simp split: if_splits)
qed

lemma cut_over_outcome:
  assumes doc: "hosts_documented ha (mp_source p) (mp_target p) (mp_name p) runs data" and ne: "mp_source p \<noteq> mp_target p"
    and off: "\<not> runs (mp_source p) w" "\<not> runs (mp_target p) w" and c: "cut_over ha p was vs known there w = (w', r)"
  shows "r = None \<and> handed_over ha p runs data vs w'
      \<or> (\<exists>s. r = Some (RolledBack s) \<and> was \<and> runs (mp_source p) w' \<or> r = Some (RollbackFailed s) \<and> was
           \<or> r = Some (LeftStopped s) \<and> \<not> was \<and> \<not> runs (mp_source p) w')"
    and "\<not> was \<Longrightarrow> data (mp_source p) v w' = data (mp_source p) v w"
    and "r = Some (RolledBack FinalSync) \<Longrightarrow> \<not> runs (mp_target p) w'"
proof -
  note D = hosts_documentedD[OF doc]
  obtain w1 k t ok1 where a: "copy_all ha p vs known there w = (w1, k, t, ok1)" by (metis prod_cases4)
  note A = copy_all_synced[OF D(1) ne a]
  have off1: "\<not> runs (mp_source p) w1" "\<not> runs (mp_target p) w1" "data (mp_source p) v w1 = data (mp_source p) v w" for v
    using A(1) off unfolding synced_def by blast+
  obtain w2 ok2 where s: "ha_start ha (mp_target p) (mp_name p) w1 = (w2, ok2)" by (metis prod.exhaust)
  have src2: "\<not> runs (mp_source p) w2" "data (mp_source p) v w2 = data (mp_source p) v w1" for v
    using D(3)[OF s ne] D(5)[OF s ne off1(1), of v] off1(1) by simp_all
  obtain w3 ok3 where h: "ha_probe ha (mp_target p) (mp_name p) (mp_health p) w2 = (w3, ok3)" by (metis prod.exhaust)
  from copies_documentedD(2)[OF D(1) h] have C: "calm runs data w2 w3" .
  have src3: "\<not> runs (mp_source p) w3" "data (mp_source p) v w3 = data (mp_source p) v w1" for v
    using C src2 unfolding calm_def by metis+
  consider (sync) "\<not> ok1" "roll_back ha p was FinalSync False w1 = (w', r)"
    | (start) "ok1" "\<not> ok2" "roll_back ha p was StartOnTarget False w2 = (w', r)"
    | (sick) "ok1" "ok2" "hk_path (mp_health p) \<noteq> []" "\<not> ok3" "roll_back ha p was HealthOnTarget True w3 = (w', r)"
    | (fine) "ok1" "ok2" "r = None" "if hk_path (mp_health p) = [] then w' = w2 else w' = w3 \<and> ok3"
    using c by (auto simp: cut_over_def a s h split: if_splits)
  then have "(r = None \<and> handed_over ha p runs data vs w'
      \<or> (\<exists>s. r = Some (RolledBack s) \<and> was \<and> runs (mp_source p) w' \<or> r = Some (RollbackFailed s) \<and> was
           \<or> r = Some (LeftStopped s) \<and> \<not> was \<and> \<not> runs (mp_source p) w'))
      \<and> (\<not> was \<longrightarrow> (\<forall>v. data (mp_source p) v w' = data (mp_source p) v w)) \<and> (r = Some (RolledBack FinalSync) \<longrightarrow> \<not> runs (mp_target p) w')"
  proof cases
    case sync
    note R = roll_back_outcome[OF doc ne off1(1) sync(2)]
    show ?thesis using R(1) R(2)[OF off1(2)] off1(3) by auto
  next
    case start
    note R = roll_back_outcome[OF doc ne src2(1) start(3)]
    show ?thesis using R(1) off1(3) src2(2) by auto
  next
    case sick
    note R = roll_back_outcome[OF doc ne src3(1) sick(5)]
    show ?thesis using R(1) off1(3) src3(2) by auto
  next
    case fine
    have d: "data (mp_source p) v w' = data (mp_source p) v w1" "\<not> runs (mp_source p) w'" for v
      using fine(4) src2 src3 by (auto split: if_splits)
    have "runs (mp_target p) w'" using D(4)[OF s fine(2)] C fine(4) by (auto simp: calm_def split: if_splits)
    moreover have "data (mp_target p) v w1 = data (mp_source p) v w1" if "v \<in> set vs" for v
      using A(2)[OF fine(1) off that] off1(3) by simp
    ultimately have "handed_over ha p runs data vs w'"
      unfolding handed_over_def using d s h fine off1(2) by (intro conjI exI[of _ w1] exI[of _ w2]) (auto split: if_splits)
    then show ?thesis using fine(3) d(1) off1(3) by simp
  qed
  then show "r = None \<and> handed_over ha p runs data vs w'
      \<or> (\<exists>s. r = Some (RolledBack s) \<and> was \<and> runs (mp_source p) w' \<or> r = Some (RollbackFailed s) \<and> was
           \<or> r = Some (LeftStopped s) \<and> \<not> was \<and> \<not> runs (mp_source p) w')"
    and "\<not> was \<Longrightarrow> data (mp_source p) v w' = data (mp_source p) v w"
    and "r = Some (RolledBack FinalSync) \<Longrightarrow> \<not> runs (mp_target p) w'" by blast+
qed

lemma preflightD:
  assumes "preflight ha p w = Inr pl"
  shows "mp_source p \<noteq> mp_target p"
    and "\<exists>m. ha_statuses ha (mp_source p) w = Some m \<and> (ml_running pl \<longleftrightarrow> map_of m (mp_name p) = Some ''Running'')"
    and "\<exists>m. ha_statuses ha (mp_target p) w = Some m \<and> map_of m (mp_name p) \<noteq> Some ''Running''"
proof -
  from assms obtain m1 s m2 st vols ps there known where e: "migration_args_ok (mp_source p) (mp_target p) (mp_name p) (mp_volume p) (mp_health p)"
      "ha_statuses ha (mp_source p) w = Some m1" "map_of m1 (mp_name p) = Some s" "ha_statuses ha (mp_target p) w = Some m2"
      "target_instance (mp_resume p) m2 (mp_name p) = Inr there"
      "pl = \<lparr>ml_running = (s = ''Running''), ml_volumes = vols, ml_known = known, ml_instance = there\<rparr>"
    unfolding preflight_def Let_def by (auto split: if_splits option.splits sum.splits)
  show "mp_source p \<noteq> mp_target p" using e(1) by (simp add: migration_args_ok_def)
  show "\<exists>m. ha_statuses ha (mp_source p) w = Some m \<and> (ml_running pl \<longleftrightarrow> map_of m (mp_name p) = Some ''Running'')"
    using e by simp
  show "\<exists>m. ha_statuses ha (mp_target p) w = Some m \<and> map_of m (mp_name p) \<noteq> Some ''Running''"
    using e(4,5) by (auto simp: target_instance_def split: option.splits if_splits)
qed

lemma migrate_planned_outcome:
  assumes doc: "hosts_documented ha (mp_source p) (mp_target p) (mp_name p) runs data" and pf: "preflight ha p w = Inr pl"
    and c: "migrate_planned ha p pl now w = (w', r)"
  shows "r = None \<and> handed_over ha p runs data (ml_volumes pl) w'
      \<or> r \<in> {Some SnapshotFailed, Some WarmCopyFailed} \<and> runs (mp_source p) w' = runs (mp_source p) w
      \<or> r = Some SourceNotStopped
      \<or> (\<exists>s. r = Some (RolledBack s) \<and> runs (mp_source p) w' \<or> r = Some (RollbackFailed s)
           \<or> r = Some (LeftStopped s) \<and> \<not> runs (mp_source p) w')"
    and "\<not> runs (mp_source p) w \<Longrightarrow> data (mp_source p) v w' = data (mp_source p) v w \<and> \<not> runs (mp_source p) w'"
    and "r = Some (RolledBack s) \<Longrightarrow> runs (mp_source p) w" and "r = Some (LeftStopped s) \<Longrightarrow> \<not> runs (mp_source p) w"
    and "r = Some (RolledBack FinalSync) \<Longrightarrow> \<not> runs (mp_target p) w'"
proof -
  note D = hosts_documentedD[OF doc]
  have ne: "mp_source p \<noteq> mp_target p" by (rule preflightD(1)[OF pf])
  have was: "ml_running pl \<longleftrightarrow> runs (mp_source p) w" using preflightD(2)[OF pf] D(2)[of "mp_source p" w] by blast
  have toff: "\<not> runs (mp_target p) w" using preflightD(3)[OF pf] D(2)[of "mp_target p" w] by blast
  obtain w1 snapped where sn: "(if mp_skip_snapshot p then (w, True) else snapshot_each ha (mp_source p) (pre_migrate_name now) (ml_volumes pl) w) = (w1, snapped)"
    by (metis prod.exhaust)
  have C1: "calm runs data w w1"
    using sn snapshot_each_calm[OF D(1)] by (auto simp: calm_def split: if_splits)
  then have r1: "runs h w1 = runs h w" for h by (simp add: calm_def)
  obtain w2 k t ok2 where a: "copy_all ha p (ml_volumes pl) (ml_known pl) (ml_instance pl) w1 = (w2, k, t, ok2)" by (metis prod_cases4)
  have r2: "runs h w2 = runs h w" for h using copy_all_synced(1)[OF D(1) ne a] r1 by (simp add: synced_def)
  obtain w3 ok3 where s: "ha_stop ha (mp_source p) (mp_name p) (mp_stop_timeout p) w2 = (w3, ok3)" by (metis prod.exhaust)
  have toff3: "\<not> runs (mp_target p) w3" using D(6)[OF s] ne toff r2 by metis
  consider (snap) "w' = w1" "r = Some SnapshotFailed"
    | (cold) "\<not> runs (mp_source p) w" "cut_over ha p False (ml_volumes pl) (ml_known pl) (ml_instance pl) w1 = (w', r)"
    | (warm) "runs (mp_source p) w" "w' = w2" "r = Some WarmCopyFailed"
    | (stuck) "runs (mp_source p) w" "r = Some SourceNotStopped"
    | (hot) m where "runs (mp_source p) w" "ha_statuses ha (mp_source p) w3 = Some m" "map_of m (mp_name p) = Some ''Stopped''"
        "cut_over ha p True (ml_volumes pl) k t w3 = (w', r)"
    using c unfolding migrate_planned_def sn prod.case a s was Let_def fst_conv by (auto split: if_splits option.splits)
  then have "(r = None \<and> handed_over ha p runs data (ml_volumes pl) w'
      \<or> r \<in> {Some SnapshotFailed, Some WarmCopyFailed} \<and> runs (mp_source p) w' = runs (mp_source p) w
      \<or> r = Some SourceNotStopped
      \<or> (\<exists>s. r = Some (RolledBack s) \<and> runs (mp_source p) w' \<or> r = Some (RollbackFailed s)
           \<or> r = Some (LeftStopped s) \<and> \<not> runs (mp_source p) w'))
    \<and> (\<not> runs (mp_source p) w \<longrightarrow> (\<forall>v. data (mp_source p) v w' = data (mp_source p) v w) \<and> \<not> runs (mp_source p) w')
    \<and> (\<forall>s. r = Some (RolledBack s) \<longrightarrow> runs (mp_source p) w) \<and> (\<forall>s. r = Some (LeftStopped s) \<longrightarrow> \<not> runs (mp_source p) w)
    \<and> (r = Some (RolledBack FinalSync) \<longrightarrow> \<not> runs (mp_target p) w')"
  proof cases
    case snap
    then show ?thesis using r1 C1 unfolding calm_def by auto
  next
    case cold
    have off: "\<not> runs (mp_source p) w1" "\<not> runs (mp_target p) w1" using r1 cold(1) toff by simp_all
    note R = cut_over_outcome[OF doc ne off cold(2)]
    have "data (mp_source p) v w' = data (mp_source p) v w" for v using R(2)[of v] C1 cold(1) unfolding calm_def by simp
    moreover have "\<not> runs (mp_source p) w'" using R(1) unfolding handed_over_def by blast
    ultimately show ?thesis using R(1,3) cold(1) by auto
  next
    case warm
    then show ?thesis using r2 by simp
  next
    case stuck
    then show ?thesis by simp
  next
    case hot
    have "\<not> runs (mp_source p) w3" using D(2)[OF _ hot(2)] hot(3) by simp
    note R = cut_over_outcome[OF doc ne this toff3 hot(4)]
    show ?thesis using R(1,3) hot(1) by auto
  qed
  then show "r = None \<and> handed_over ha p runs data (ml_volumes pl) w'
      \<or> r \<in> {Some SnapshotFailed, Some WarmCopyFailed} \<and> runs (mp_source p) w' = runs (mp_source p) w
      \<or> r = Some SourceNotStopped
      \<or> (\<exists>s. r = Some (RolledBack s) \<and> runs (mp_source p) w' \<or> r = Some (RollbackFailed s)
           \<or> r = Some (LeftStopped s) \<and> \<not> runs (mp_source p) w')"
    and "\<not> runs (mp_source p) w \<Longrightarrow> data (mp_source p) v w' = data (mp_source p) v w \<and> \<not> runs (mp_source p) w'"
    and "r = Some (RolledBack s) \<Longrightarrow> runs (mp_source p) w" and "r = Some (LeftStopped s) \<Longrightarrow> \<not> runs (mp_source p) w"
    and "r = Some (RolledBack FinalSync) \<Longrightarrow> \<not> runs (mp_target p) w'" by blast+
qed

lemma target_volumes_error:
  "target_volumes ha dst resume vs w = Inl e \<Longrightarrow> e = TargetPool \<or> (\<exists>v. e = TargetVolumeExists v)"
  by (induction vs arbitrary: e) (auto split: option.splits if_splits sum.splits)

text \<open>C8: Moving an instance never splits its service or its data. When \<open>Migrate\<close> reports success, exactly the target's
  copy runs, it was started holding what every volume of the source held, and the source is stopped and still holds it.
  When it reports that the source was restarted, the source runs, and it ran before. When it refuses or stops before the
  source was stopped, the source runs exactly if it ran before; and a source that was not running keeps its data and stays so
  whatever happens.
\<close>

theorem migrate_outcome:
  assumes "hosts_documented ha (mp_source p) (mp_target p) (mp_name p) runs data" and "migrate ha p now w = (w', r)"
  shows "(r = None \<longrightarrow> (\<exists>pl. preflight ha p w = Inr pl \<and> handed_over ha p runs data (ml_volumes pl) w'))
    \<and> (\<forall>s. r = Some (RolledBack s) \<longrightarrow> runs (mp_source p) w \<and> runs (mp_source p) w')
    \<and> (r = Some (RolledBack FinalSync) \<longrightarrow> \<not> runs (mp_target p) w')
    \<and> (\<forall>e. r = Some e \<longrightarrow> e \<noteq> SourceNotStopped \<longrightarrow> (\<forall>s. e \<noteq> RollbackFailed s) \<longrightarrow> runs (mp_source p) w' = runs (mp_source p) w)
    \<and> (\<not> runs (mp_source p) w \<longrightarrow> \<not> runs (mp_source p) w' \<and> (\<forall>v. data (mp_source p) v w' = data (mp_source p) v w))"
proof (cases "preflight ha p w")
  case (Inl e)
  then have w': "w' = w" "r = Some e" using assms(2) by (simp_all add: migrate_def)
  have "e \<noteq> RolledBack s" for s
    using Inl by (auto simp: preflight_def Let_def target_instance_def migratable_volumes_def dest: target_volumes_error split: if_splits option.splits sum.splits)
  then show ?thesis using w' by simp
next
  case (Inr pl)
  then have c: "migrate_planned ha p pl now w = (w', r)" using assms(2) by (simp add: migrate_def)
  note R = migrate_planned_outcome[OF assms(1) Inr c]
  show ?thesis using Inr R(1) R(2) R(3) R(4) R(5) by blast
qed

text \<open>
  A small pair of hosts. With \<open>bad\<close> the health check fails and so does stopping the copy on \<open>pve\<close>.
\<close>

record two_hosts =
  th_status :: "string \<Rightarrow> string option"
  th_data :: "string \<Rightarrow> volume_ref \<Rightarrow> string option"

definition small_hosts :: "bool \<Rightarrow> two_hosts hosts_api" where
  "small_hosts bad =
     \<lparr>ha_statuses = (\<lambda>h w. Some (case th_status w h of None \<Rightarrow> [] | Some s \<Rightarrow> [(''web'', s)])),
      ha_state = (\<lambda>h n w. Some \<lparr>is_name = n, is_profiles = [''default''], is_config = [],
         is_devices = [(''data'', [(''type'', ''disk''), (''pool'', ''default''), (''source'', ''db'')])], is_base_image = [], is_oci = False\<rparr>),
      ha_profiles = (\<lambda>h w. Some [''default'']),
      ha_volumes = (\<lambda>h p w. Some (if th_data w h (p, ''db'') \<noteq> None then [''db''] else [])),
      ha_snapshot = (\<lambda>h v s w. (w, True)),
      ha_copy_volume = (\<lambda>s d v b w. (w\<lparr>th_data := (\<lambda>h u. if h = d \<and> u = v then th_data w s v else th_data w h u)\<rparr>, True)),
      ha_copy_instance = (\<lambda>s d n b w. (if th_status w d = None then w\<lparr>th_status := (th_status w)(d := Some ''Stopped'')\<rparr> else w, True)),
      ha_stop = (\<lambda>h n t w. if bad \<and> h = ''pve'' then (w, False) else (w\<lparr>th_status := (th_status w)(h := Some ''Stopped'')\<rparr>, True)),
      ha_start = (\<lambda>h n w. (w\<lparr>th_status := (th_status w)(h := Some ''Running'')\<rparr>, True)),
      ha_probe = (\<lambda>h n hc w. (w, \<not> bad)),
      ha_delete_instance = (\<lambda>h n w. (w\<lparr>th_status := (th_status w)(h := None)\<rparr>, True)),
      ha_delete_volume = (\<lambda>h v w. (w\<lparr>th_data := (\<lambda>g u. if g = h \<and> u = v then None else th_data w g u)\<rparr>, True))\<rparr>"

abbreviation two_runs :: "string \<Rightarrow> two_hosts \<Rightarrow> bool" where
  "two_runs h w \<equiv> th_status w h = Some ''Running''"

abbreviation two_data :: "string \<Rightarrow> volume_ref \<Rightarrow> two_hosts \<Rightarrow> string option" where
  "two_data h v w \<equiv> th_data w h v"

lemma small_hosts_documented: "hosts_documented (small_hosts bad) src dst ''web'' two_runs two_data"
  unfolding hosts_documented_def copies_documented_def calm_def
  by (intro conjI) (auto simp: small_hosts_def split: if_splits option.splits)

definition move_web :: migration_params where
  "move_web = \<lparr>mp_source = ''local'', mp_target = ''pve'', mp_name = ''web'', mp_volume = [], mp_health = \<lparr>hk_path = ''/up'', hk_port = 80, hk_timeout = 0, hk_interval = 0\<rparr>,
     mp_resume = False, mp_skip_snapshot = False, mp_stop_timeout = 30\<rparr>"

definition web_here :: two_hosts where
  "web_here = \<lparr>th_status = [''local'' \<mapsto> ''Running''], th_data = (\<lambda>h v. if h = ''local'' \<and> v = (''default'', ''db'') then Some ''rows'' else None)\<rparr>"

theorem migrate_outcome_witness:
  "let (w', r) = migrate (small_hosts False) move_web 0 web_here in
     r = None \<and> two_runs ''pve'' w' \<and> \<not> two_runs ''local'' w' \<and> two_data ''pve'' (''default'', ''db'') w' = Some ''rows''"
proof -
  obtain w' r where m: "migrate (small_hosts False) move_web 0 web_here = (w', r)" by (metis prod.exhaust)
  have "snd (migrate (small_hosts False) move_web 0 web_here) = None
    \<and> two_data ''pve'' (''default'', ''db'') (fst (migrate (small_hosts False) move_web 0 web_here)) = Some ''rows''" by code_simp
  then have r: "r = None" and d: "two_data ''pve'' (''default'', ''db'') w' = Some ''rows''" using m by simp_all
  have n: "mp_name move_web = ''web''" "mp_source move_web = ''local''" "mp_target move_web = ''pve''" by (simp_all add: move_web_def)
  from migrate_outcome[where p = move_web, unfolded n, OF small_hosts_documented m] r
  have "two_runs ''pve'' w' \<and> \<not> two_runs ''local'' w'" unfolding handed_over_def n by blast
  then show ?thesis using m r d by simp
qed

text \<open>
  The rollback starts the source again even when the target could not be stopped, so both copies may serve: here the target
  fails its health check and the stop of it fails too.
\<close>

lemma rollback_may_leave_both:
  "let (w', r) = migrate (small_hosts True) move_web 0 web_here in r = Some (RolledBack HealthOnTarget) \<and> two_runs ''pve'' w' \<and> two_runs ''local'' w'"
  by code_simp

subsection \<open>The source is deleted only when it is spare\<close>

definition deletes_documented ::
  "'w hosts_api \<Rightarrow> string \<Rightarrow> string \<Rightarrow> (string \<Rightarrow> 'w \<Rightarrow> bool) \<Rightarrow> (string \<Rightarrow> volume_ref \<Rightarrow> 'w \<Rightarrow> string option) \<Rightarrow> ('w \<Rightarrow> bool) \<Rightarrow> bool" where
  "deletes_documented ha src name runs data there \<longleftrightarrow>
     (\<forall>w w' ok. ha_delete_instance ha src name w = (w', ok) \<longrightarrow>
        (\<forall>h. h \<noteq> src \<longrightarrow> runs h w' = runs h w) \<and> (runs src w' \<longrightarrow> runs src w) \<and> (\<forall>h v. \<not> runs h w \<longrightarrow> data h v w' = data h v w))
   \<and> (\<forall>v w w' ok. ha_delete_volume ha src v w = (w', ok) \<longrightarrow>
        (\<forall>h. runs h w' = runs h w) \<and> there w' = there w \<and> (\<forall>h u. \<not> runs h w \<longrightarrow> (h, u) \<noteq> (src, v) \<longrightarrow> data h u w' = data h u w))
   \<and> (\<forall>h hc w w' ok. ha_probe ha h name hc w = (w', ok) \<longrightarrow> there w' = there w)"

lemma deletes_documentedD:
  assumes "deletes_documented ha src name runs data there"
  shows "ha_delete_instance ha src name w = (w', ok) \<Longrightarrow> h \<noteq> src \<Longrightarrow> runs h w' = runs h w"
    and "ha_delete_instance ha src name w = (w', ok) \<Longrightarrow> runs src w' \<Longrightarrow> runs src w"
    and "ha_delete_instance ha src name w = (w', ok) \<Longrightarrow> \<not> runs h w \<Longrightarrow> data h v w' = data h v w"
    and "ha_delete_volume ha src u w = (w', ok) \<Longrightarrow> runs h w' = runs h w"
    and "ha_delete_volume ha src u w = (w', ok) \<Longrightarrow> \<not> runs h w \<Longrightarrow> (h, v) \<noteq> (src, u) \<Longrightarrow> data h v w' = data h v w"
    and "ha_probe ha h name hc w = (w', ok) \<Longrightarrow> there w' = there w"
  using assms unfolding deletes_documented_def by (elim conjE, metis)+

lemma purge_volumes_kept:
  assumes doc: "deletes_documented ha src name runs data there"
  shows "purge_volumes ha src vs w = (w', r) \<Longrightarrow>
      (\<forall>h. runs h w' = runs h w) \<and> (\<not> runs src w \<longrightarrow> (\<forall>v. v \<notin> set vs \<longrightarrow> data src v w' = data src v w))"
proof (induction vs arbitrary: w)
  case Nil
  then show ?case by simp
next
  case (Cons u vs)
  obtain w1 ok where d: "ha_delete_volume ha src u w = (w1, ok)" by (metis prod.exhaust)
  note D = deletes_documentedD(4,5)[OF doc d]
  show ?case
  proof (cases ok)
    case True
    then have "purge_volumes ha src vs w1 = (w', r)" using Cons.prems d by simp
    note IH = Cons.IH[OF this]
    show ?thesis using IH D(1) D(2)[of src] by (metis list.set_intros(1,2) prod.inject)
  next
    case False
    then have "w' = w1" using Cons.prems d by simp
    then show ?thesis using D(1) D(2)[of src] by (metis list.set_intros(1) prod.inject)
  qed
qed

lemma volumes_there_all: "volumes_there ha dst vs w = None \<longleftrightarrow> (\<forall>(p, v) \<in> set vs. \<exists>l. ha_volumes ha dst p w = Some l \<and> v \<in> set l)"
  by (induction vs) (auto split: option.splits if_splits)

lemma finalize_checksD:
  assumes "finalize_checks ha p w = Inr vs"
  obtains m n st where "ha_statuses ha (fp_source p) w = Some m" "map_of m (fp_name p) = Some ''Stopped''"
    "ha_statuses ha (fp_target p) w = Some n" "map_of n (fp_name p) = Some ''Running''" "fp_source p \<noteq> fp_target p"
    "ha_state ha (fp_source p) (fp_name p) w = Some st" "migratable_volumes st = Inr vs" "volumes_there ha (fp_target p) vs w = None"
  using assms unfolding finalize_checks_def by (auto simp: migration_args_ok_def split: if_splits option.splits sum.splits)

lemma finalize_checks_done:
  assumes "finalize_checks ha p w = Inl None"
  obtains n where "ha_statuses ha (fp_target p) w = Some n" "map_of n (fp_name p) = Some ''Running''"
  using assms unfolding finalize_checks_def by (auto split: if_splits option.splits sum.splits)

text \<open>C15: \<open>Finalize\<close> gives up the source only when it is spare. If the source's instance is gone afterwards, or a volume of it
  changed, then the source was not running, the target runs, every volume of the instance was found on the target, and the
  health check passed there when there is one; a volume is given up only when its purge was asked for and the instance used
  it. And whenever it reports success the target runs.
\<close>

theorem finalize_safe:
  assumes "hosts_documented ha (fp_source p) (fp_target p) (fp_name p) runs data"
    and "deletes_documented ha (fp_source p) (fp_name p) runs data there" and "finalize ha p w = (w', r)"
  shows "(r = None \<longrightarrow> runs (fp_target p) w')
    \<and> (there w \<and> \<not> there w' \<or> data (fp_source p) v w' \<noteq> data (fp_source p) v w \<longrightarrow>
         \<not> runs (fp_source p) w \<and> runs (fp_target p) w'
       \<and> (\<exists>st vs. ha_state ha (fp_source p) (fp_name p) w = Some st \<and> migratable_volumes st = Inr vs
            \<and> (\<forall>(q, x) \<in> set vs. \<exists>l. ha_volumes ha (fp_target p) q w = Some l \<and> x \<in> set l)
            \<and> (data (fp_source p) v w' \<noteq> data (fp_source p) v w \<longrightarrow> fp_purge p \<and> v \<in> set vs))
       \<and> (hk_path (fp_health p) \<noteq> [] \<longrightarrow> (\<exists>w1. ha_probe ha (fp_target p) (fp_name p) (fp_health p) w = (w1, True))))"
proof (cases "finalize_checks ha p w")
  case (Inl e)
  then have w': "w' = w" "r = e" using assms(3) by (simp_all add: finalize_def)
  have "runs (fp_target p) w" if "r = None"
    using Inl w'(2) that hosts_documentedD(2)[OF assms(1), of "fp_target p" w] by (auto elim: finalize_checks_done)
  then show ?thesis using w'(1) by simp
next
  case (Inr vs)
  note D = hosts_documentedD[OF assms(1)] and E = deletes_documentedD[OF assms(2)]
  from finalize_checksD[OF Inr] obtain m n st where g: "ha_statuses ha (fp_source p) w = Some m" "map_of m (fp_name p) = Some ''Stopped''"
    "ha_statuses ha (fp_target p) w = Some n" "map_of n (fp_name p) = Some ''Running''" "fp_source p \<noteq> fp_target p"
    "ha_state ha (fp_source p) (fp_name p) w = Some st" "migratable_volumes st = Inr vs" "volumes_there ha (fp_target p) vs w = None" .
  have off: "\<not> runs (fp_source p) w" and on: "runs (fp_target p) w" using D(2)[OF _ g(1)] D(2)[OF _ g(3)] g(2,4) by simp_all
  obtain w1 healthy where h: "(if hk_path (fp_health p) \<noteq> [] then ha_probe ha (fp_target p) (fp_name p) (fp_health p) w else (w, True)) = (w1, healthy)"
    by (metis prod.exhaust)
  have C: "calm runs data w w1" and t1: "there w1 = there w"
    using h copies_documentedD(2)[OF D(1)] E(6) by (auto simp: calm_def split: if_splits)
  have w1: "\<not> runs (fp_source p) w1" "runs (fp_target p) w1" "data (fp_source p) v w1 = data (fp_source p) v w"
    using C[unfolded calm_def, THEN conjunct1] C[unfolded calm_def, THEN conjunct2, rule_format, OF off] off on by blast+
  obtain w2 ok where d: "ha_delete_instance ha (fp_source p) (fp_name p) w1 = (w2, ok)" by (metis prod.exhaust)
  have w2: "\<not> runs (fp_source p) w2" "runs (fp_target p) w2" "data (fp_source p) v w2 = data (fp_source p) v w"
    using E(1)[OF d, of "fp_target p"] E(2)[OF d] E(3)[OF d w1(1), of v] w1 g(5)[symmetric] by (simp_all only: not_False_eq_True simp_thms) blast+
  have vols: "\<forall>(q, x) \<in> set vs. \<exists>l. ha_volumes ha (fp_target p) q w = Some l \<and> x \<in> set l" using g(8) unfolding volumes_there_all .
  have fin: "(w', r) = (if \<not> healthy then (w1, Some Unhealthy) else if \<not> ok then (w2, Some DeleteFailed)
      else if fp_purge p then purge_volumes ha (fp_source p) vs w2 else (w2, None))"
    using assms(3) unfolding finalize_def Inr by (simp only: sum.case h d prod.case)
  have out: "runs (fp_target p) w' \<and> (data (fp_source p) v w' \<noteq> data (fp_source p) v w \<longrightarrow> fp_purge p \<and> v \<in> set vs)"
  proof (cases "healthy \<and> ok \<and> fp_purge p")
    case True
    then have "purge_volumes ha (fp_source p) vs w2 = (w', r)" using fin by simp
    from purge_volumes_kept[OF assms(2) this] show ?thesis using w2 True by metis
  next
    case False
    then show ?thesis using fin w1 w2 by (auto split: if_splits)
  qed
  have "healthy" if "there w \<and> \<not> there w' \<or> data (fp_source p) v w' \<noteq> data (fp_source p) v w"
    using that fin t1 w1(3) by (auto split: if_splits)
  then have "there w \<and> \<not> there w' \<or> data (fp_source p) v w' \<noteq> data (fp_source p) v w \<longrightarrow>
      (hk_path (fp_health p) \<noteq> [] \<longrightarrow> (\<exists>w1. ha_probe ha (fp_target p) (fp_name p) (fp_health p) w = (w1, True)))"
    using h by auto
  then show ?thesis using out off g(6,7) vols by blast
qed

definition drop_web :: finalize_params where
  "drop_web = \<lparr>fp_source = ''local'', fp_target = ''pve'', fp_name = ''web'', fp_health = mp_health move_web, fp_purge = True\<rparr>"

lemma small_deletes_documented: "deletes_documented (small_hosts bad) src ''web'' two_runs two_data (\<lambda>w. th_status w src \<noteq> None)"
  unfolding deletes_documented_def by (intro conjI) (auto simp: small_hosts_def split: if_splits)

theorem finalize_safe_witness:
  "let w = fst (migrate (small_hosts False) move_web 0 web_here); (w', r) = finalize (small_hosts False) drop_web w in
     r = None \<and> th_status w ''local'' = Some ''Stopped'' \<and> th_status w' ''local'' = None \<and> two_runs ''pve'' w'"
proof -
  define w where "w = fst (migrate (small_hosts False) move_web 0 web_here)"
  obtain w' r where f: "finalize (small_hosts False) drop_web w = (w', r)" by (metis prod.exhaust)
  have run: "th_status w ''local'' = Some ''Stopped'' \<and> snd (finalize (small_hosts False) drop_web w) = None
     \<and> th_status (fst (finalize (small_hosts False) drop_web w)) ''local'' = None" unfolding w_def by code_simp
  then have s: "th_status w ''local'' = Some ''Stopped''" by blast
  have r: "r = None" using run f by simp
  have g: "th_status w' ''local'' = None" using run f by simp
  have n: "fp_name drop_web = ''web''" "fp_source drop_web = ''local''" "fp_target drop_web = ''pve''" by (simp_all add: drop_web_def)
  from finalize_safe[where p = drop_web, unfolded n, OF small_hosts_documented small_deletes_documented f] r
  have "two_runs ''pve'' w'" by blast
  then show ?thesis using f r s g unfolding w_def by simp
qed

subsection \<open>The daemon's side\<close>

text \<open>
  \<open>Instances.Migrate\<close> and \<open>FinalizeMigration\<close>. On top of the hosts' commands they read what this host records
  (\<open>hd_record\<close>, \<open>Record\<close>; None when reading it fails), mark the copy left here, and remove its route from the edge. The
  state of the daemon's host is part of \<open>'w\<close>.
\<close>

record 'w host_daemon =
  hd_hosts :: "'w hosts_api"
  hd_record :: "string \<Rightarrow> 'w \<Rightarrow> instance_record option"
  hd_mark :: "string \<Rightarrow> string \<Rightarrow> 'w \<Rightarrow> 'w \<times> bool"
  hd_unroute :: "string \<Rightarrow> 'w \<Rightarrow> 'w \<times> bool"

datatype host_migration_error =
    BadTarget | NoRecord | Refused migration_refusal | MoveFailed migration_error | MarkFailed | RouteNotRemoved
  | NotMigrated | OtherTarget string | NothingHere

definition health_of :: "instance_spec option \<Rightarrow> health_check" where
  "health_of s = (case s of None \<Rightarrow> no_health
     | Some spec \<Rightarrow> (case in_health spec of None \<Rightarrow> no_health
         | Some h \<Rightarrow> if hs_path h = [] then no_health else tc_health (template_of spec)))"

definition migrate_away :: "'w host_daemon \<Rightarrow> string \<Rightarrow> migrate_request \<Rightarrow> time \<Rightarrow> 'w \<Rightarrow> 'w \<times> host_migration_error option" where
  "migrate_away hm name req now w =
     (if validate_migrate (mr_target req) \<noteq> None then (w, Some BadTarget)
      else case hd_record hm name w of None \<Rightarrow> (w, Some NoRecord)
      | Some rec \<Rightarrow> (case migration_refusal rec of Some why \<Rightarrow> (w, Some (Refused why))
      | None \<Rightarrow>
          (case migrate (hd_hosts hm) \<lparr>mp_source = local_remote, mp_target = mr_target req, mp_name = name, mp_volume = [],
                  mp_health = health_of (ir_spec rec), mp_resume = mr_resume req, mp_skip_snapshot = False, mp_stop_timeout = 0\<rparr> now w of
             (w1, Some e) \<Rightarrow> (w1, Some (MoveFailed e))
           | (w1, None) \<Rightarrow> (case hd_mark hm name (mr_target req) w1 of (w2, marked) \<Rightarrow>
               if \<not> marked then (w2, Some MarkFailed)
               else case hd_unroute hm name w2 of (w3, gone) \<Rightarrow> (w3, if gone then None else Some RouteNotRemoved)))))"

definition finalize_target :: "instance_record \<Rightarrow> string \<Rightarrow> host_migration_error + string" where
  "finalize_target rec target =
     (if ir_exists rec \<and> ir_migrated_to rec = [] then Inl NotMigrated
      else if ir_exists rec \<and> target \<noteq> [] \<and> target \<noteq> ir_migrated_to rec then Inl (OtherTarget (ir_migrated_to rec))
      else if ir_exists rec then Inr (ir_migrated_to rec)
      else if target = [] then Inl NothingHere else Inr target)"

definition finalize_away :: "'w host_daemon \<Rightarrow> string \<Rightarrow> finalize_request \<Rightarrow> 'w \<Rightarrow> 'w \<times> host_migration_error option" where
  "finalize_away hm name req w =
     (case hd_record hm name w of None \<Rightarrow> (w, Some NoRecord)
      | Some rec \<Rightarrow> (case finalize_target rec (fr_target req) of Inl e \<Rightarrow> (w, Some e)
      | Inr target \<Rightarrow>
          if validate_migrate target \<noteq> None then (w, Some BadTarget)
          else case hd_unroute hm name w of (w1, gone) \<Rightarrow>
            if \<not> gone then (w1, Some RouteNotRemoved)
            else case finalize (hd_hosts hm) \<lparr>fp_source = local_remote, fp_target = target, fp_name = name,
                     fp_health = health_of (ir_spec rec), fp_purge = fr_purge req\<rparr> w1 of (w2, r) \<Rightarrow> (w2, map_option MoveFailed r)))"

text \<open>A copy that was not migrated away is not touched by \<open>FinalizeMigration\<close>, nor one that was migrated elsewhere.\<close>

lemma finalize_away_only_migrated:
  assumes "hd_record hm name w = Some rec" "ir_exists rec" and "finalize_away hm name req w = (w', r)"
    and "ir_migrated_to rec = [] \<or> fr_target req \<notin> {[], ir_migrated_to rec}"
  shows "w' = w \<and> r \<noteq> None"
  using assms by (auto simp: finalize_away_def finalize_target_def split: if_splits)

end
