(* ===== verification/Edge.thy ===== *)
theory Edge
  imports Instance_Spec Fleet_Hosts
begin

text \<open>
  The routes in the edge's Caddy (\<open>pkg/caddy/edge.go\<close>): rendering a site file, publishing, planning, suspending,
  re-pointing and removing it, and keeping the main Caddyfile.

  \<^item> Caddy and Incus are not under \<open>src/\<close>: reading, writing and removing a file in the edge, validating, reloading and
    restarting are the fields of \<open>edge_manager\<close> over a state \<open>'w\<close>; what they document is \<open>edge_documented\<close>.
  \<^item> The text of an IPv6 address is the argument \<open>em_ip6\<close>; errors are named by what failed.
\<close>

subsection \<open>Rendering\<close>

record routing =
  rt_domain :: string
  rt_port :: int
  rt_tls :: string
  rt_extra :: "string list"
  rt_external :: bool
  rt_cache :: "route_cache option"
  rt_limit :: "route_rate_limit option"

definition line :: "nat \<Rightarrow> string \<Rightarrow> string" where
  "line n s = replicate n CHR '' '' @ s @ [CHR 0x0A]"

definition tls_line :: "string \<Rightarrow> string" where
  "tls_line tls = (if tls = [] then [] else line 4 (''tls '' @ tls))"

definition extra_lines :: "string list \<Rightarrow> string" where
  "extra_lines extra = concat (map (line 4) extra)"

definition proxy_to :: "string \<Rightarrow> int \<Rightarrow> string" where
  "proxy_to ip port = ''reverse_proxy '' @ ip @ '':'' @ int_string port"

definition render_plain_site :: "string \<Rightarrow> string \<Rightarrow> int \<Rightarrow> string \<Rightarrow> string list \<Rightarrow> string" where
  "render_plain_site domain ip port tls extra =
     line 0 (domain @ '' {'') @ tls_line tls @ line 4 (proxy_to ip port) @ extra_lines extra @ line 0 ''}''"

definition render_limit :: "string \<Rightarrow> route_rate_limit \<Rightarrow> string" where
  "render_limit site rl =
     line 8 ''rate_limit {'' @ line 12 (''zone '' @ (if site = [] then ''site'' else site) @ '' {'')
     @ (if length (rl_paths rl) > 0 then line 16 ''match {'' @ line 20 (''path '' @ join_with '' '' (rl_paths rl)) @ line 16 ''}'' else [])
     @ line 16 ''key {client_ip}'' @ line 16 (''events '' @ int_string (rl_requests rl)) @ line 16 (''window '' @ rl_window rl)
     @ line 12 ''}'' @ line 8 ''}''"

definition render_cache :: "route_cache \<Rightarrow> string" where
  "render_cache c =
     line 8 (''@native_ops_cache path '' @ join_with '' '' (rc_paths c)) @ line 8 ''cache @native_ops_cache {''
     @ line 12 (''ttl '' @ ttl_or_default c) @ line 8 ''}''"

definition render_site :: "string \<Rightarrow> routing \<Rightarrow> string \<Rightarrow> string" where
  "render_site site r ip =
     (if rt_cache r = None \<and> rt_limit r = None then render_plain_site (rt_domain r) ip (rt_port r) (rt_tls r) (rt_extra r)
      else line 0 (rt_domain r @ '' {'') @ tls_line (rt_tls r) @ extra_lines (rt_extra r) @ line 4 ''route {''
         @ (case rt_limit r of None \<Rightarrow> [] | Some rl \<Rightarrow> render_limit site rl) @ (case rt_cache r of None \<Rightarrow> [] | Some c \<Rightarrow> render_cache c)
         @ line 8 (proxy_to ip (rt_port r)) @ line 4 ''}'' @ line 0 ''}'')"

definition render_site_block :: "string \<Rightarrow> string \<Rightarrow> int \<Rightarrow> string \<Rightarrow> string list \<Rightarrow> string" where
  "render_site_block domain ip port tls extra =
     render_site [] \<lparr>rt_domain = domain, rt_port = port, rt_tls = tls, rt_extra = extra, rt_external = False, rt_cache = None, rt_limit = None\<rparr> ip"

definition reason_char :: "char \<Rightarrow> char" where
  "reason_char c = (if is_alnum c \<or> c \<in> set '' .,:;'' \<or> c = CHR 0x27 \<or> c \<in> set ''()/@+_-'' then c else CHR '' '')"

definition max_reason_chars :: nat where "max_reason_chars = 120"

text \<open>After the replacement the only white space is the blank, so \<open>strings.Fields\<close> splits at blanks.\<close>

definition sanitize_reason :: "string \<Rightarrow> string" where
  "sanitize_reason reason =
     (let cleaned = join_with '' '' (filter (\<lambda>p. p \<noteq> []) (split_on CHR '' '' (map reason_char reason)));
          short = (if length cleaned > max_reason_chars then trim_space (take max_reason_chars cleaned) else cleaned) in
      if short = [] then ''suspended'' else short)"

text \<open>\<open>%q\<close> of a text without quotes, backslashes and control characters puts it between quotes.\<close>

definition render_suspended :: "string \<Rightarrow> string \<Rightarrow> string \<Rightarrow> string list \<Rightarrow> string" where
  "render_suspended domain tls reason extra =
     line 0 (domain @ '' {'') @ tls_line tls @ extra_lines extra @ line 4 ''handle {''
     @ line 8 (''respond '' @ [CHR 0x22] @ ''This site is suspended: '' @ sanitize_reason reason @ ''. Contact support.'' @ [CHR 0x22] @ '' 503'')
     @ line 4 ''}'' @ line 0 ''}''"

subsection \<open>Paths, names and addresses\<close>

definition caddyfile_path :: string where "caddyfile_path = ''/etc/caddy/Caddyfile''"
definition sites_dir :: string where "sites_dir = ''/etc/caddy/sites''"
definition site_path :: "string \<Rightarrow> string" where "site_path n = sites_dir @ ''/'' @ n @ ''.caddy''"

definition email_ok :: "string \<Rightarrow> bool" where \<comment> \<open>\<open>^[^\s{}]+@[^\s{}]+$\<close>\<close>
  "email_ok s \<longleftrightarrow> list_all (\<lambda>c. c \<notin> set [CHR 0x09, CHR 0x0A, CHR 0x0C, CHR 0x0D, CHR 0x20, CHR ''{'', CHR ''}'']) s
     \<and> CHR ''@'' \<in> set (butlast (tl s))"

definition site_domain_ok :: "string \<Rightarrow> bool" where \<comment> \<open>\<open>^(\*\.)?[A-Za-z0-9]([A-Za-z0-9.-]*[A-Za-z0-9])?$\<close>\<close>
  "site_domain_ok s \<longleftrightarrow> (let d = (if prefix ''*.'' s then drop 2 s else s) in
     d \<noteq> [] \<and> is_alnum (hd d) \<and> is_alnum (last d) \<and> list_all (\<lambda>c. is_alnum c \<or> c = CHR ''.'' \<or> c = CHR ''-'') d)"

definition contains :: "string \<Rightarrow> string \<Rightarrow> bool" where \<comment> \<open>\<open>strings.Contains s sub\<close>\<close>
  "contains s sub \<longleftrightarrow> list_ex (prefix sub) (suffixes s)"

definition imports_sites :: "string \<Rightarrow> bool" where
  "imports_sites c \<longleftrightarrow> contains c (''import '' @ sites_dir)"

text \<open>\<open>reverse_proxy ([0-9.]+):[0-9]+\<close>, leftmost: what is before the address, the address, and what follows it.\<close>

definition proxy_word :: string where "proxy_word = ''reverse_proxy ''"

definition upstream_here :: "string \<Rightarrow> (string \<times> string) option" where
  "upstream_here s =
     (if \<not> prefix proxy_word s then None
      else let t = drop (length proxy_word) s; ip = takeWhile (\<lambda>c. is_digit c \<or> c = CHR ''.'') t; rest = drop (length ip) t in
        if ip \<noteq> [] \<and> (case rest of c # d # _ \<Rightarrow> c = CHR '':'' \<and> is_digit d | _ \<Rightarrow> False) then Some (ip, rest) else None)"

fun find_upstream :: "string \<Rightarrow> (string \<times> string \<times> string) option" where
  "find_upstream [] = None"
| "find_upstream (c # cs) = (case upstream_here (c # cs) of
     Some (ip, rest) \<Rightarrow> Some (proxy_word, ip, rest)
   | None \<Rightarrow> map_option (\<lambda>(a, ip, rest). (c # a, ip, rest)) (find_upstream cs))"

definition base_caddyfile :: "string \<Rightarrow> string" where
  "base_caddyfile email =
     line 0 ''{'' @ (if email = [] then [] else line 4 (''email '' @ email)) @ line 4 ''debug'' @ line 4 ''log {''
     @ line 8 ''output file /var/log/caddy.log'' @ line 8 ''level DEBUG'' @ line 4 ''}'' @ line 0 ''}'' @ line 0 []
     @ line 0 (''import '' @ sites_dir @ ''/*.caddy'')"

definition is_stock_caddyfile :: "string \<Rightarrow> bool" where
  "is_stock_caddyfile content \<longleftrightarrow>
     filter (\<lambda>l. l \<noteq> [] \<and> \<not> prefix ''#'' l) (map trim_space (split_on CHR 0x0A content)) = ['':80 {'', ''root * /usr/share/caddy'', ''file_server'', ''}'']"

subsection \<open>The edge\<close>

text \<open>
  \<open>em_pull\<close>: None when reading fails, \<open>Some None\<close> when there is no such file. \<open>em_resolv\<close> is the script that repairs
  the edge's name resolution before a reload.
\<close>

record 'w edge_manager =
  em_email :: string
  em_ip6 :: "string \<Rightarrow> bool"
  em_pull :: "string \<Rightarrow> 'w \<Rightarrow> string option option"
  em_push :: "string \<Rightarrow> string \<Rightarrow> 'w \<Rightarrow> 'w \<times> bool"
  em_remove :: "string \<Rightarrow> 'w \<Rightarrow> 'w \<times> bool"
  em_modules :: "'w \<Rightarrow> string option"
  em_validate :: "'w \<Rightarrow> bool"
  em_resolv :: "'w \<Rightarrow> 'w"
  em_reload :: "'w \<Rightarrow> 'w \<times> bool"
  em_restart :: "'w \<Rightarrow> 'w"

datatype edge_error =
    BadSite | BadSiteDomain | BadUpstream | BadUpstreamPort | BadOptions spec_error | ModulesUnknown | ModuleMissing string
  | EdgeUnreadable | NoSitesImport | BadEmail | EmptyCaddyfile | WriteFailed | Rejected | ReloadFailed | NoUpstream | RemoveFailed

definition reload :: "'w edge_manager \<Rightarrow> 'w \<Rightarrow> 'w \<times> edge_error option" where
  "reload e w = (case em_reload e (em_resolv e w) of (w1, ok) \<Rightarrow>
     if ok then (w1, None)
     else case em_reload e (em_resolv e (em_restart e w1)) of (w2, ok2) \<Rightarrow> (w2, if ok2 then None else Some ReloadFailed))"

definition ensure_base_caddyfile :: "'w edge_manager \<Rightarrow> 'w \<Rightarrow> 'w \<times> edge_error option" where
  "ensure_base_caddyfile e w = (case em_pull e caddyfile_path w of None \<Rightarrow> (w, Some EdgeUnreadable)
     | Some cur \<Rightarrow>
         let found = (case cur of None \<Rightarrow> None | Some c \<Rightarrow> if is_stock_caddyfile c then None else Some c) in
         case found of
           Some c \<Rightarrow> (w, if \<not> imports_sites c then Some NoSitesImport else None)
         | None \<Rightarrow>
             if em_email e \<noteq> [] \<and> \<not> email_ok (em_email e) then (w, Some BadEmail)
             else case em_push e caddyfile_path (base_caddyfile (em_email e)) w of (w1, ok) \<Rightarrow> (w1, if ok then None else Some WriteFailed))"

definition option_modules :: "routing \<Rightarrow> string list" where
  "option_modules r = (if rt_cache r \<noteq> None then [''http.handlers.cache''] else []) @ (if rt_limit r \<noteq> None then [''http.handlers.rate_limit''] else [])"

definition check_edge_options :: "'w edge_manager \<Rightarrow> routing \<Rightarrow> 'w \<Rightarrow> edge_error option" where
  "check_edge_options e r w = (case validate_edge_options (rt_cache r) (rt_limit r) of Some x \<Rightarrow> Some (BadOptions x)
     | None \<Rightarrow>
         if option_modules r = [] then None
         else case em_modules e w of None \<Rightarrow> Some ModulesUnknown
           | Some out \<Rightarrow> map_option ModuleMissing (find (\<lambda>m. m \<notin> set (map trim_space (split_on CHR 0x0A out))) (option_modules r)))"

definition replace_site :: "'w edge_manager \<Rightarrow> string \<Rightarrow> string \<Rightarrow> string option \<Rightarrow> 'w \<Rightarrow> 'w \<times> edge_error option" where
  "replace_site e site desired prev w = (case em_push e (site_path site) desired w of (w1, ok) \<Rightarrow>
     if \<not> ok then (w1, Some WriteFailed)
     else if \<not> em_validate e w1 then
       (fst (case prev of Some c \<Rightarrow> em_push e (site_path site) c w1 | None \<Rightarrow> em_remove e (site_path site) w1), Some Rejected)
     else reload e w1)"

definition write_site :: "'w edge_manager \<Rightarrow> string \<Rightarrow> string \<Rightarrow> 'w \<Rightarrow> 'w \<times> edge_error option" where
  "write_site e site desired w = (case ensure_base_caddyfile e w of (w1, Some x) \<Rightarrow> (w1, Some x)
     | (w1, None) \<Rightarrow> (case em_pull e (site_path site) w1 of None \<Rightarrow> (w1, Some EdgeUnreadable)
         | Some prev \<Rightarrow> if prev = Some desired then (w1, None) else replace_site e site desired prev w1))"

definition is_ip :: "'w edge_manager \<Rightarrow> string \<Rightarrow> bool" where
  "is_ip e s \<longleftrightarrow> parse_ip4 s \<noteq> None \<or> em_ip6 e s"

definition publish_site :: "'w edge_manager \<Rightarrow> string \<Rightarrow> routing \<Rightarrow> string \<Rightarrow> 'w \<Rightarrow> 'w \<times> edge_error option" where
  "publish_site e site r ip w =
     (if \<not> valid_name site then (w, Some BadSite)
      else if \<not> site_domain_ok (rt_domain r) then (w, Some BadSiteDomain)
      else if \<not> is_ip e ip then (w, Some BadUpstream)
      else if rt_port r < 1 \<or> rt_port r > 65535 then (w, Some BadUpstreamPort)
      else case check_edge_options e r w of Some x \<Rightarrow> (w, Some x)
        | None \<Rightarrow> write_site e site (render_site site r ip) w)"

definition suspend_site :: "'w edge_manager \<Rightarrow> string \<Rightarrow> routing \<Rightarrow> string \<Rightarrow> 'w \<Rightarrow> 'w \<times> edge_error option" where
  "suspend_site e site r reason w =
     (if \<not> valid_name site then (w, Some BadSite)
      else if \<not> site_domain_ok (rt_domain r) then (w, Some BadSiteDomain)
      else write_site e site (render_suspended (rt_domain r) (rt_tls r) reason (rt_extra r)) w)"

definition choose_upstream :: "'w edge_manager \<Rightarrow> string \<Rightarrow> string list \<Rightarrow> 'w \<Rightarrow> edge_error + string" where
  "choose_upstream e site ips w =
     (if length ips = 0 then Inl NoUpstream
      else if \<not> valid_name site then Inr (hd ips)
      else case em_pull e (site_path site) w of None \<Rightarrow> Inl EdgeUnreadable
        | Some None \<Rightarrow> Inr (hd ips)
        | Some (Some cur) \<Rightarrow> (case find_upstream cur of None \<Rightarrow> Inr (hd ips)
            | Some (_, ip, _) \<Rightarrow> Inr (if ip \<in> set ips then ip else hd ips)))"

definition publish_site_for :: "'w edge_manager \<Rightarrow> string \<Rightarrow> routing \<Rightarrow> string list \<Rightarrow> 'w \<Rightarrow> 'w \<times> edge_error option" where
  "publish_site_for e site r ips w = (case choose_upstream e site ips w of Inl x \<Rightarrow> (w, Some x) | Inr ip \<Rightarrow> publish_site e site r ip w)"

text \<open>\<open>addrs\<close>: the instance's addresses, asked for only when there is a published upstream; None when that fails.\<close>

definition repoint_upstream :: "'w edge_manager \<Rightarrow> string \<Rightarrow> string list option \<Rightarrow> 'w \<Rightarrow> 'w \<times> (edge_error option + bool)" where
  "repoint_upstream e site addrs w =
     (if \<not> valid_name site then (w, Inl (Some BadSite))
      else case em_pull e (site_path site) w of None \<Rightarrow> (w, Inl (Some EdgeUnreadable))
        | Some None \<Rightarrow> (w, Inr False)
        | Some (Some cur) \<Rightarrow> (case find_upstream cur of None \<Rightarrow> (w, Inr False)
            | Some (before, published, after) \<Rightarrow> (case addrs of None \<Rightarrow> (w, Inl None)
                | Some ips \<Rightarrow>
                    if length ips = 0 then (w, Inl (Some NoUpstream))
                    else if published \<in> set ips then (w, Inr False)
                    else if \<not> is_ip e (hd ips) then (w, Inl (Some BadUpstream))
                    else case replace_site e site (before @ hd ips @ after) (Some cur) w of
                      (w1, None) \<Rightarrow> (w1, Inr True) | (w1, Some x) \<Rightarrow> (w1, Inl (Some x)))))"

definition remove_site :: "'w edge_manager \<Rightarrow> string \<Rightarrow> 'w \<Rightarrow> 'w \<times> edge_error option" where
  "remove_site e site w =
     (if \<not> valid_name site then (w, Some BadSite)
      else case em_pull e (site_path site) w of None \<Rightarrow> (w, Some EdgeUnreadable)
        | Some None \<Rightarrow> (w, None)
        | Some (Some _) \<Rightarrow> (case em_remove e (site_path site) w of (w1, ok) \<Rightarrow> if \<not> ok then (w1, Some RemoveFailed) else reload e w1))"

subsection \<open>Planning a site\<close>

datatype site_change = SiteMatches | SiteCreate | SiteUpdate

record site_plan =
  sp_change :: site_change
  sp_creates_base :: bool

definition plan_base :: "'w edge_manager \<Rightarrow> 'w \<Rightarrow> edge_error + bool" where
  "plan_base e w = (case em_pull e caddyfile_path w of None \<Rightarrow> Inl EdgeUnreadable
     | Some (Some c) \<Rightarrow> if \<not> imports_sites c then Inl NoSitesImport else Inr False
     | Some None \<Rightarrow> if em_email e \<noteq> [] \<and> \<not> email_ok (em_email e) then Inl BadEmail else Inr True)"

definition plan_site_for :: "'w edge_manager \<Rightarrow> string \<Rightarrow> routing \<Rightarrow> string list \<Rightarrow> 'w \<Rightarrow> edge_error + site_plan" where
  "plan_site_for e site r ips w =
     (if \<not> valid_name site then Inl BadSite
      else if \<not> site_domain_ok (rt_domain r) then Inl BadSiteDomain
      else if rt_port r < 1 \<or> rt_port r > 65535 then Inl BadUpstreamPort
      else case check_edge_options e r w of Some x \<Rightarrow> Inl x
        | None \<Rightarrow> (case plan_base e w of Inl x \<Rightarrow> Inl x
            | Inr creates \<Rightarrow> (case em_pull e (site_path site) w of None \<Rightarrow> Inl EdgeUnreadable
                | Some prev \<Rightarrow>
                    if length ips = 0 then Inr \<lparr>sp_change = (if prev = None then SiteCreate else SiteUpdate), sp_creates_base = creates\<rparr>
                    else case choose_upstream e site ips w of Inl x \<Rightarrow> Inl x
                      | Inr ip \<Rightarrow> Inr \<lparr>sp_change = (if prev = Some (render_site site r ip) then SiteMatches else if prev \<noteq> None then SiteUpdate else SiteCreate),
                          sp_creates_base = creates\<rparr>)))"

subsection \<open>The main Caddyfile\<close>

definition check_caddyfile :: "string \<Rightarrow> edge_error option" where
  "check_caddyfile content =
     (if trim_space content = [] then Some EmptyCaddyfile
      else if \<not> imports_sites content then Some NoSitesImport else None)"

text \<open>The lines only in \<open>b\<close>, and those only in \<open>a\<close>, counted as multisets.\<close>

fun line_diff_step :: "string list \<Rightarrow> string list \<Rightarrow> nat \<Rightarrow> nat \<times> nat" where
  "line_diff_step left [] added = (added, length left)"
| "line_diff_step left (l # ls) added = (if l \<in> set left then line_diff_step (remove1 l left) ls added else line_diff_step left ls (added + 1))"

definition line_diff :: "string \<Rightarrow> string \<Rightarrow> nat \<times> nat" where
  "line_diff a b = line_diff_step (split_on CHR 0x0A a) (split_on CHR 0x0A b) 0"

definition caddyfile_drift :: "'w edge_manager \<Rightarrow> string \<Rightarrow> 'w \<Rightarrow> edge_error + (bool \<times> bool \<times> nat \<times> nat)" where
  "caddyfile_drift e content w = (case check_caddyfile content of Some x \<Rightarrow> Inl x
     | None \<Rightarrow> (case em_pull e caddyfile_path w of None \<Rightarrow> Inl EdgeUnreadable
         | Some cur \<Rightarrow>
             if cur = Some content then Inr (False, True, 0, 0)
             else Inr (True, cur \<noteq> None, line_diff (case cur of None \<Rightarrow> [] | Some c \<Rightarrow> c) content)))"

definition restore_caddyfile :: "'w edge_manager \<Rightarrow> string option \<Rightarrow> 'w \<Rightarrow> 'w" where
  "restore_caddyfile e prev w = (case prev of
     Some c \<Rightarrow> fst (reload e (fst (em_push e caddyfile_path c w)))
   | None \<Rightarrow> fst (em_remove e caddyfile_path w))"

definition sync_caddyfile :: "'w edge_manager \<Rightarrow> string \<Rightarrow> 'w \<Rightarrow> 'w \<times> (edge_error + bool)" where
  "sync_caddyfile e content w = (case check_caddyfile content of Some x \<Rightarrow> (w, Inl x)
     | None \<Rightarrow> (case em_pull e caddyfile_path w of None \<Rightarrow> (w, Inl EdgeUnreadable)
         | Some prev \<Rightarrow>
             if prev = Some content then (w, Inr False)
             else case em_push e caddyfile_path content w of (w1, ok) \<Rightarrow>
               if \<not> ok then (w1, Inl WriteFailed)
               else if \<not> em_validate e w1 then (restore_caddyfile e prev w1, Inl Rejected)
               else case reload e w1 of (w2, Some _) \<Rightarrow> (restore_caddyfile e prev w2, Inl ReloadFailed)
                 | (w2, None) \<Rightarrow> (w2, Inr True)))"

subsection \<open>What the commands document\<close>

text \<open>A write or a removal acts on the file it names, and on nothing when it fails; reloading and restarting change no file.\<close>

definition edge_documented :: "'w edge_manager \<Rightarrow> bool" where
  "edge_documented e \<longleftrightarrow>
     (\<forall>p c w w' ok. em_push e p c w = (w', ok) \<longrightarrow> em_modules e w' = em_modules e w
        \<and> (\<forall>q. em_pull e q w' = (if ok \<and> q = p then Some (Some c) else em_pull e q w)))
   \<and> (\<forall>p w w' ok. em_remove e p w = (w', ok) \<longrightarrow> em_modules e w' = em_modules e w
        \<and> (\<forall>q. em_pull e q w' = (if ok \<and> q = p then Some None else em_pull e q w)))
   \<and> (\<forall>w. em_modules e (em_resolv e w) = em_modules e w \<and> (\<forall>q. em_pull e q (em_resolv e w) = em_pull e q w))
   \<and> (\<forall>w. em_modules e (em_restart e w) = em_modules e w \<and> (\<forall>q. em_pull e q (em_restart e w) = em_pull e q w))
   \<and> (\<forall>w w' ok. em_reload e w = (w', ok) \<longrightarrow> em_modules e w' = em_modules e w \<and> (\<forall>q. em_pull e q w' = em_pull e q w))"

definition edge_writable :: "'w edge_manager \<Rightarrow> bool" where
  "edge_writable e \<longleftrightarrow> (\<forall>p c w. snd (em_push e p c w)) \<and> (\<forall>p w. snd (em_remove e p w))"

definition same_files :: "'w edge_manager \<Rightarrow> 'w \<Rightarrow> 'w \<Rightarrow> bool" where
  "same_files e w w' \<longleftrightarrow> em_modules e w' = em_modules e w \<and> (\<forall>q. em_pull e q w' = em_pull e q w)"

lemma edge_documentedD:
  assumes "edge_documented e"
  shows "em_push e p c w = (w', ok) \<Longrightarrow> em_pull e q w' = (if ok \<and> q = p then Some (Some c) else em_pull e q w)"
    and "em_push e p c w = (w', ok) \<Longrightarrow> em_modules e w' = em_modules e w"
    and "em_remove e p w = (w', ok) \<Longrightarrow> em_pull e q w' = (if ok \<and> q = p then Some None else em_pull e q w)"
    and "em_remove e p w = (w', ok) \<Longrightarrow> em_modules e w' = em_modules e w"
    and "same_files e w (em_resolv e w)" and "same_files e w (em_restart e w)"
    and "em_reload e w = (w', ok) \<Longrightarrow> same_files e w w'"
  using assms unfolding edge_documented_def same_files_def by (elim conjE, metis)+

lemma same_files_trans: "same_files e w w1 \<Longrightarrow> same_files e w1 w2 \<Longrightarrow> same_files e w w2"
  by (simp add: same_files_def)

lemma same_files_refl [simp]: "same_files e w w"
  by (simp add: same_files_def)

lemma reload_same_files:
  assumes doc: "edge_documented e" and r: "reload e w = (w', x)"
  shows "same_files e w w'"
proof -
  note D = edge_documentedD[OF doc]
  obtain w1 ok where 1: "em_reload e (em_resolv e w) = (w1, ok)" by (metis prod.exhaust)
  obtain w2 ok2 where 2: "em_reload e (em_resolv e (em_restart e w1)) = (w2, ok2)" by (metis prod.exhaust)
  have a: "same_files e w w1" using same_files_trans[OF D(5) D(7)[OF 1]] .
  have b: "same_files e w1 w2" using same_files_trans[OF same_files_trans[OF D(6) D(5)] D(7)[OF 2]] .
  have "w' = w1 \<or> w' = w2" using r by (auto simp: reload_def 1 2 split: if_splits)
  then show ?thesis using a same_files_trans[OF a b] by auto
qed

lemma reload_result: "reload e w = (w', x) \<Longrightarrow> x = None \<or> x = Some ReloadFailed"
  by (auto simp: reload_def split: prod.splits if_splits)

lemma site_path_other [simp]: "site_path s \<noteq> caddyfile_path"
  by (simp add: site_path_def caddyfile_path_def sites_dir_def)

lemma check_edge_options_cong: "em_modules e w' = em_modules e w \<Longrightarrow> check_edge_options e r w' = check_edge_options e r w"
  by (simp add: check_edge_options_def split: option.splits)

lemma contains_middle [simp]: "contains (a @ sub @ b) sub"
proof -
  have "sub @ b \<in> set (suffixes (a @ sub @ b))" by (simp add: in_set_suffixes suffixI)
  then show ?thesis unfolding contains_def list_ex_iff by (metis prefixI)
qed

lemma contains_chars: "contains s sub \<Longrightarrow> set sub \<subseteq> set s"
  unfolding contains_def list_ex_iff by (metis in_set_suffixes set_mono_prefix set_mono_suffix subset_trans)

lemma base_imports: "imports_sites (base_caddyfile m)"
proof -
  have "base_caddyfile m = (line 0 ''{'' @ (if m = [] then [] else line 4 (''email '' @ m)) @ line 4 ''debug'' @ line 4 ''log {''
     @ line 8 ''output file /var/log/caddy.log'' @ line 8 ''level DEBUG'' @ line 4 ''}'' @ line 0 ''}'' @ line 0 [])
     @ (''import '' @ sites_dir) @ ''/*.caddy'' @ [CHR 0x0A]"
    by (simp add: base_caddyfile_def line_def)
  then show ?thesis unfolding imports_sites_def using contains_middle by metis
qed

lemma base_not_stock: "\<not> is_stock_caddyfile (base_caddyfile m)"
proof -
  obtain ls where "split_on CHR 0x0A (base_caddyfile m) = ''{'' # ls"
    by (simp add: base_caddyfile_def line_def)
  moreover have "trim_space ''{'' = ''{''" by code_simp
  ultimately show ?thesis by (simp add: is_stock_caddyfile_def)
qed

text \<open>What \<open>EnsureBaseCaddyfile\<close> leaves when it succeeds.\<close>

definition base_ready :: "'w edge_manager \<Rightarrow> 'w \<Rightarrow> bool" where
  "base_ready e w \<longleftrightarrow> (\<exists>c. em_pull e caddyfile_path w = Some (Some c) \<and> \<not> is_stock_caddyfile c \<and> imports_sites c)"

lemma base_readyD:
  assumes "base_ready e w"
  shows "ensure_base_caddyfile e w = (w, None)" and "plan_base e w = Inr False"
  using assms by (auto simp: base_ready_def ensure_base_caddyfile_def plan_base_def)

lemma ensure_base_ready:
  assumes doc: "edge_documented e" and s: "ensure_base_caddyfile e w = (w', None)"
  shows "base_ready e w'"
  using s unfolding ensure_base_caddyfile_def
  by (auto simp: base_ready_def edge_documentedD(1)[OF doc] base_imports base_not_stock Let_def split: option.splits if_splits prod.splits)

lemma ensure_base_other:
  assumes doc: "edge_documented e" and s: "ensure_base_caddyfile e w = (w', x)"
  shows "em_modules e w' = em_modules e w" and "q \<noteq> caddyfile_path \<Longrightarrow> em_pull e q w' = em_pull e q w"
  using s unfolding ensure_base_caddyfile_def
  by (auto simp: edge_documentedD(1,2)[OF doc] Let_def split: option.splits if_splits prod.splits)

lemma ensure_base_result: "ensure_base_caddyfile e w = (w', x) \<Longrightarrow> x \<noteq> Some ReloadFailed"
  by (auto simp: ensure_base_caddyfile_def Let_def split: option.splits if_splits prod.splits)

subsection \<open>The upstream that a site file names\<close>

lemma upstream_here_proxy:
  assumes "ip \<noteq> []" "list_all (\<lambda>c. is_digit c \<or> c = CHR ''.'') ip" "is_digit d"
  shows "upstream_here (proxy_word @ ip @ CHR '':'' # d # z) = Some (ip, CHR '':'' # d # z)"
proof -
  have n: "\<not> (is_digit CHR '':'' \<or> CHR '':'' = CHR ''.'')" by code_simp
  have t: "takeWhile (\<lambda>c. is_digit c \<or> c = CHR ''.'') (ip @ CHR '':'' # d # z) = ip"
    using assms(2) n by (subst takeWhile_append2) (auto simp: list_all_iff)
  show ?thesis using assms(1,3) by (simp add: upstream_here_def t Let_def)
qed

lemma proxy_word_borderless:
  assumes "0 < k" "k < length proxy_word" shows "drop k proxy_word \<noteq> take (length proxy_word - k) proxy_word"
proof -
  have "list_all (\<lambda>k. drop k proxy_word \<noteq> take (length proxy_word - k) proxy_word) [1 ..< length proxy_word]"
    by code_simp
  then show ?thesis using assms by (simp add: list_all_iff)
qed

lemma no_earlier_proxy:
  assumes "\<not> contains a ''reverse_proxy''" "a \<noteq> []"
  shows "\<not> prefix proxy_word (a @ proxy_word @ z)"
proof
  assume p: "prefix proxy_word (a @ proxy_word @ z)"
  show False
  proof (cases "length proxy_word \<le> length a + 1")
    case True
    have e: "take 13 proxy_word = ''reverse_proxy''" by code_simp
    have "prefix (take 13 proxy_word) (a @ proxy_word @ z)" using p by (meson prefix_order.trans take_is_prefix)
    moreover have "length (take 13 proxy_word) \<le> length a" using True by (simp add: proxy_word_def)
    ultimately have "prefix ''reverse_proxy'' a" unfolding e by (metis prefix_length_prefix prefixI)
    then have "contains a ''reverse_proxy''" by (auto simp: contains_def list_ex_iff intro!: bexI[of _ a])
    then show False using assms(1) by simp
  next
    case False
    then have k: "0 < length a" "length a < length proxy_word" using assms(2) by auto
    from p have t: "take (length proxy_word) (a @ proxy_word @ z) = proxy_word" by (metis append_eq_conv_conj prefixE)
    then have "drop (length a) proxy_word = drop (length a) (take (length proxy_word) (a @ proxy_word @ z))" by simp
    also have "\<dots> = take (length proxy_word - length a) proxy_word" using k by (simp add: drop_take take_append)
    finally show False using proxy_word_borderless[OF k] by simp
  qed
qed

lemma contains_tl: "contains cs sub \<Longrightarrow> contains (c # cs) sub"
  unfolding contains_def by simp

lemma find_upstream_first:
  assumes "\<not> contains a ''reverse_proxy''" and "upstream_here (proxy_word @ s) = Some (ip, rest)"
  shows "find_upstream (a @ proxy_word @ s) = Some (a @ proxy_word, ip, rest)"
  using assms
proof (induction a)
  case Nil
  then show ?case by (simp add: proxy_word_def)
next
  case (Cons c cs)
  have "\<not> prefix proxy_word ((c # cs) @ proxy_word @ s)" using no_earlier_proxy[OF Cons.prems(1)] by simp
  then have "upstream_here ((c # cs) @ proxy_word @ s) = None" by (simp add: upstream_here_def)
  moreover have "find_upstream (cs @ proxy_word @ s) = Some (cs @ proxy_word, ip, rest)"
    using Cons contains_tl by blast
  ultimately show ?case by simp
qed

lemma int_string_first_digit: "1 \<le> n \<Longrightarrow> \<exists>d z. int_string n = d # z \<and> is_digit d"
  using dec_string_digits[of "nat n"] dec_string_nonempty[of "nat n"]
  by (cases "dec_string (nat n)") (auto simp: int_string_def)

lemma domain_no_underscore: "site_domain_ok d \<Longrightarrow> CHR ''_'' \<notin> set d"
proof
  assume d: "site_domain_ok d" and u: "CHR ''_'' \<in> set d"
  have n: "\<not> (is_alnum CHR ''_'' \<or> CHR ''_'' = CHR ''.'' \<or> CHR ''_'' = CHR ''-'')" by code_simp
  have "CHR ''_'' \<in> set (drop 2 d)" if "prefix ''*.'' d" using u that by (auto simp: prefix_def)
  then show False using d u n by (auto simp: site_domain_ok_def Let_def list_all_iff split: if_splits)
qed

text \<open>Every site file that is rendered without options names the address it was rendered for, as long as \<open>tls\<close> has no underscore.\<close>

definition names_upstream :: "routing \<Rightarrow> bool" where
  "names_upstream r \<longleftrightarrow> rt_cache r = None \<and> rt_limit r = None \<and> CHR ''_'' \<notin> set (rt_tls r)"

lemma rendered_upstream:
  assumes d: "site_domain_ok (rt_domain r)" and n: "names_upstream r" and port: "1 \<le> rt_port r"
    and ip: "ip \<noteq> []" "list_all (\<lambda>c. is_digit c \<or> c = CHR ''.'') ip"
  shows "\<exists>a b. find_upstream (render_site site r ip) = Some (a, ip, b)"
proof -
  define a where "a = line 0 (rt_domain r @ '' {'') @ tls_line (rt_tls r) @ replicate 4 CHR '' ''"
  obtain dg z where p: "int_string (rt_port r) = dg # z" "is_digit dg" using int_string_first_digit[OF port] by blast
  have eq: "render_site site r ip = a @ proxy_word @ ip @ CHR '':'' # dg # z @ [CHR 0x0A] @ extra_lines (rt_extra r) @ line 0 ''}''"
    using n by (simp add: render_site_def render_plain_site_def a_def names_upstream_def line_def proxy_to_def proxy_word_def p)
  have "CHR ''_'' \<notin> set a" using domain_no_underscore[OF d] n by (auto simp: a_def line_def tls_line_def names_upstream_def)
  moreover have "CHR ''_'' \<in> set ''reverse_proxy''" by simp
  ultimately have "\<not> contains a ''reverse_proxy''" using contains_chars by blast
  then have "find_upstream (render_site site r ip) = Some (a @ proxy_word, ip, CHR '':'' # dg # z @ [CHR 0x0A] @ extra_lines (rt_extra r) @ line 0 ''}'')"
    unfolding eq by (rule find_upstream_first) (rule upstream_here_proxy[OF ip p(2)])
  then show ?thesis by blast
qed

lemma split_on_all: "(\<forall>p \<in> set (split_on sep s). list_all P p) \<Longrightarrow> list_all (\<lambda>c. P c \<or> c = sep) s"
  by (induction s) (auto split: if_splits list.splits)

lemma ip4_chars:
  assumes "parse_ip4 s \<noteq> None" shows "s \<noteq> []" and "list_all (\<lambda>c. is_digit c \<or> c = CHR ''.'') s"
proof -
  obtain a b c d where m: "map octet (split_on CHR ''.'' s) = [Some a, Some b, Some c, Some d]"
    using assms by (auto simp: parse_ip4_def split: list.splits option.splits)
  show "s \<noteq> []" using m by auto
  have "octet p \<noteq> None" if "p \<in> set (split_on CHR ''.'' s)" for p
  proof -
    have "octet p \<in> set (map octet (split_on CHR ''.'' s))" using that by simp
    then show ?thesis unfolding m by auto
  qed
  moreover have "octet p \<noteq> None \<Longrightarrow> list_all is_digit p" for p by (simp add: octet_def split: if_splits)
  ultimately have "\<forall>p \<in> set (split_on CHR ''.'' s). list_all is_digit p" by blast
  then show "list_all (\<lambda>c. is_digit c \<or> c = CHR ''.'') s" by (rule split_on_all)
qed

subsection \<open>Plan and publication agree\<close>

lemma plan_site_noneD:
  assumes "plan_site_for e site r ips w = Inr p" "sp_change p = SiteMatches" "\<not> sp_creates_base p"
  obtains ip where "valid_name site" "site_domain_ok (rt_domain r)" "\<not> (rt_port r < 1 \<or> rt_port r > 65535)"
    "check_edge_options e r w = None" "plan_base e w = Inr False" "choose_upstream e site ips w = Inr ip"
    "em_pull e (site_path site) w = Some (Some (render_site site r ip))"
  using assms unfolding plan_site_for_def by (auto split: if_splits option.splits sum.splits)

lemma chosen_upstream: "choose_upstream e site ips w = Inr ip \<Longrightarrow> ip \<in> set ips"
  by (cases ips) (auto simp: choose_upstream_def split: if_splits option.splits prod.splits)

lemma replace_site_done:
  assumes doc: "edge_documented e" and s: "replace_site e site d prev w = (w', None)"
  shows "em_pull e (site_path site) w' = Some (Some d)" and "em_modules e w' = em_modules e w"
    and "q \<noteq> site_path site \<Longrightarrow> em_pull e q w' = em_pull e q w"
proof -
  obtain w1 ok where p: "em_push e (site_path site) d w = (w1, ok)" by (metis prod.exhaust)
  have o: "ok" and r: "reload e w1 = (w', None)" using s by (auto simp: replace_site_def p split: if_splits)
  have f: "same_files e w1 w'" by (rule reload_same_files[OF doc r])
  have P: "em_pull e q w' = (if q = site_path site then Some (Some d) else em_pull e q w)" for q
    using edge_documentedD(1)[OF doc p, of q] o f unfolding same_files_def by simp
  show "em_pull e (site_path site) w' = Some (Some d)" "q \<noteq> site_path site \<Longrightarrow> em_pull e q w' = em_pull e q w"
    using P by simp_all
  show "em_modules e w' = em_modules e w" using edge_documentedD(2)[OF doc p] f unfolding same_files_def by simp
qed

lemma write_site_done:
  assumes doc: "edge_documented e" and s: "write_site e site d w = (w', None)"
  shows "em_pull e (site_path site) w' = Some (Some d)" and "base_ready e w'" and "em_modules e w' = em_modules e w"
proof -
  obtain w1 x where b: "ensure_base_caddyfile e w = (w1, x)" by (metis prod.exhaust)
  have x: "x = None" using s by (cases x) (auto simp: write_site_def b)
  note B = ensure_base_ready[OF doc b[unfolded x]] and O = ensure_base_other(1)[OF doc b]
  obtain prev where pv: "em_pull e (site_path site) w1 = Some prev"
    using s by (auto simp: write_site_def b x split: option.splits)
  have eq: "(if prev = Some d then (w1, None) else replace_site e site d prev w1) = (w', None)"
    using s unfolding write_site_def b x by (simp only: prod.case option.case pv)
  consider (same) "prev = Some d" "w' = w1" | (new) "replace_site e site d prev w1 = (w', None)"
    using eq by (metis prod.inject)
  then have "em_pull e (site_path site) w' = Some (Some d) \<and> base_ready e w' \<and> em_modules e w' = em_modules e w"
  proof cases
    case same
    then show ?thesis using pv B O by simp
  next
    case new
    note R = replace_site_done[OF doc new]
    have "em_pull e caddyfile_path w' = em_pull e caddyfile_path w1" by (rule R(3)) (metis site_path_other)
    then show ?thesis using R(1,2) B O by (simp add: base_ready_def)
  qed
  then show "em_pull e (site_path site) w' = Some (Some d)" "base_ready e w'" "em_modules e w' = em_modules e w" by auto
qed

lemma published_again:
  assumes ips: "list_all (\<lambda>s. parse_ip4 s \<noteq> None) ips" and base: "base_ready e w"
    and p: "plan_site_for e site r ips w = Inr p" "sp_change p = SiteMatches" "\<not> sp_creates_base p"
  shows "publish_site_for e site r ips w = (w, None)"
proof -
  from plan_site_noneD[OF p] obtain ip where g: "valid_name site" "site_domain_ok (rt_domain r)" "\<not> (rt_port r < 1 \<or> rt_port r > 65535)"
    "check_edge_options e r w = None" "choose_upstream e site ips w = Inr ip"
    "em_pull e (site_path site) w = Some (Some (render_site site r ip))" by metis
  have "is_ip e ip" using ips chosen_upstream[OF g(5)] by (auto simp: is_ip_def list_all_iff)
  then show ?thesis using g base_readyD(1)[OF base]
    by (simp add: publish_site_for_def publish_site_def write_site_def)
qed

lemma site_published_already:
  assumes ips: "list_all (\<lambda>s. parse_ip4 s \<noteq> None) ips"
    and stock: "\<forall>c. em_pull e caddyfile_path w = Some (Some c) \<longrightarrow> \<not> is_stock_caddyfile c"
    and p: "plan_site_for e site r ips w = Inr p" "sp_change p = SiteMatches" "\<not> sp_creates_base p"
  shows "publish_site_for e site r ips w = (w, None)"
proof -
  from plan_site_noneD[OF p] have "plan_base e w = Inr False" by metis
  then have "base_ready e w" using stock by (auto simp: plan_base_def base_ready_def split: option.splits if_splits)
  then show ?thesis by (rule published_again[OF ips _ p])
qed

text \<open>C28: What a plan says of a route and what publishing does agree. When the plan shows no change, publishing touches
  nothing and succeeds; and after publishing a route succeeded, the plan for the same addresses shows no change, so publishing
  again touches nothing. (The second part needs addresses the published file is found by: a single one, or a site file without
  options. The edge's Caddyfile is not the sample of Caddy's image, which the plan refuses and publishing replaces.)\<close>

theorem site_plan_agrees:
  assumes doc: "edge_documented e" and ips: "list_all (\<lambda>s. parse_ip4 s \<noteq> None) ips"
  shows "((\<forall>c. em_pull e caddyfile_path w = Some (Some c) \<longrightarrow> \<not> is_stock_caddyfile c) \<and> plan_site_for e site r ips w = Inr p
           \<and> sp_change p = SiteMatches \<and> \<not> sp_creates_base p \<longrightarrow> publish_site_for e site r ips w = (w, None))
      \<and> (publish_site_for e site r ips w = (w', None) \<and> (length ips = 1 \<or> names_upstream r)
           \<longrightarrow> plan_site_for e site r ips w' = Inr \<lparr>sp_change = SiteMatches, sp_creates_base = False\<rparr>
             \<and> publish_site_for e site r ips w' = (w', None))"
proof -
  have "(\<forall>c. em_pull e caddyfile_path w = Some (Some c) \<longrightarrow> \<not> is_stock_caddyfile c) \<and> plan_site_for e site r ips w = Inr p
           \<and> sp_change p = SiteMatches \<and> \<not> sp_creates_base p \<longrightarrow> publish_site_for e site r ips w = (w, None)"
    using site_published_already[OF ips, of e w site r p] by blast
  moreover have "publish_site_for e site r ips w = (w', None) \<and> (length ips = 1 \<or> names_upstream r)
           \<longrightarrow> plan_site_for e site r ips w' = Inr \<lparr>sp_change = SiteMatches, sp_creates_base = False\<rparr>
             \<and> publish_site_for e site r ips w' = (w', None)"
  proof (intro impI, elim conjE)
    assume pub: "publish_site_for e site r ips w = (w', None)" and one: "length ips = 1 \<or> names_upstream r"
    obtain ip where ch: "choose_upstream e site ips w = Inr ip" and ps: "publish_site e site r ip w = (w', None)"
      using pub by (auto simp: publish_site_for_def split: sum.splits)
    have g: "valid_name site" "site_domain_ok (rt_domain r)" "\<not> (rt_port r < 1 \<or> rt_port r > 65535)" "check_edge_options e r w = None"
      and wr: "write_site e site (render_site site r ip) w = (w', None)"
      using ps by (auto simp: publish_site_def split: if_splits option.splits)
    note W = write_site_done[OF doc wr]
    have mem: "ip \<in> set ips" by (rule chosen_upstream[OF ch])
    have p4: "parse_ip4 ip \<noteq> None" using ips mem by (auto simp: list_all_iff)
    have "choose_upstream e site ips w' = Inr ip"
    proof (cases "length ips = 1")
      case True
      then obtain x where "ips = [x]" by (cases ips) auto
      then show ?thesis using mem W(1) by (auto simp: choose_upstream_def split: option.splits)
    next
      case False
      then have "names_upstream r" using one by simp
      from rendered_upstream[OF g(2) this _ ip4_chars[OF p4]] g(3)
      obtain a b where "find_upstream (render_site site r ip) = Some (a, ip, b)" by fastforce
      then show ?thesis using mem W(1) g(1) by (auto simp: choose_upstream_def)
    qed
    moreover have "length ips \<noteq> 0" using mem by auto
    ultimately have pl: "plan_site_for e site r ips w' = Inr \<lparr>sp_change = SiteMatches, sp_creates_base = False\<rparr>"
      using g W(1) base_readyD(2)[OF W(2)] check_edge_options_cong[OF W(3), of r] by (simp add: plan_site_for_def)
    then show "plan_site_for e site r ips w' = Inr \<lparr>sp_change = SiteMatches, sp_creates_base = False\<rparr>
             \<and> publish_site_for e site r ips w' = (w', None)"
      using published_again[OF ips W(2) pl] by simp
  qed
  ultimately show ?thesis ..
qed

subsection \<open>A configuration that Caddy rejects\<close>

lemma replace_site_refused:
  assumes doc: "edge_documented e" and wr: "edge_writable e" and prev: "em_pull e (site_path site) w = Some prev"
    and s: "replace_site e site d prev w = (w', Some x)" and x: "x \<noteq> ReloadFailed"
  shows "em_pull e q w' = em_pull e q w"
proof -
  obtain w1 ok where p: "em_push e (site_path site) d w = (w1, ok)" by (metis prod.exhaust)
  have ok: "ok" using wr p unfolding edge_writable_def by (metis snd_conv)
  have pushed: "em_pull e q w1 = (if q = site_path site then Some (Some d) else em_pull e q w)" for q
    using edge_documentedD(1)[OF doc p, of q] ok by simp
  have bad: "\<not> em_validate e w1"
    using s ok x reload_result[of e w1 w' "Some x"] by (auto simp: replace_site_def p split: if_splits)
  show ?thesis
  proof (cases prev)
    case None
    obtain w2 ok2 where r: "em_remove e (site_path site) w1 = (w2, ok2)" by (metis prod.exhaust)
    have "ok2" using wr r unfolding edge_writable_def by (metis snd_conv)
    moreover have "w' = w2" using s ok bad None by (simp add: replace_site_def p r)
    ultimately show ?thesis using edge_documentedD(3)[OF doc r, of q] pushed[of q] prev None by simp
  next
    case (Some c)
    obtain w2 ok2 where r: "em_push e (site_path site) c w1 = (w2, ok2)" by (metis prod.exhaust)
    have "ok2" using wr r unfolding edge_writable_def by (metis snd_conv)
    moreover have "w' = w2" using s ok bad Some by (simp add: replace_site_def p r)
    ultimately show ?thesis using edge_documentedD(1)[OF doc r, of q] pushed[of q] prev Some by simp
  qed
qed

lemma write_site_refused:
  assumes doc: "edge_documented e" and wr: "edge_writable e" and s: "write_site e site d w = (w', Some x)" and x: "x \<noteq> ReloadFailed"
    and q: "q \<noteq> caddyfile_path"
  shows "em_pull e q w' = em_pull e q w"
proof -
  obtain w1 y where b: "ensure_base_caddyfile e w = (w1, y)" by (metis prod.exhaust)
  have o: "em_pull e q w1 = em_pull e q w" by (rule ensure_base_other(2)[OF doc b q])
  show ?thesis
  proof (cases "w' = w1")
    case True
    then show ?thesis using o by simp
  next
    case False
    then have y: "y = None" using s by (cases y) (auto simp: write_site_def b)
    obtain prev where pv: "em_pull e (site_path site) w1 = Some prev"
      using s False by (auto simp: write_site_def b y split: option.splits)
    have "(if prev = Some d then (w1, None) else replace_site e site d prev w1) = (w', Some x)"
      using s unfolding write_site_def b y by (simp only: prod.case option.case pv)
    then have "replace_site e site d prev w1 = (w', Some x)" using False by (metis prod.inject)
    then show ?thesis using replace_site_refused[OF doc wr pv _ x] o by simp
  qed
qed

lemma restore_caddyfile_files:
  assumes doc: "edge_documented e" and wr: "edge_writable e"
  shows "em_pull e q (restore_caddyfile e prev w) = (if q = caddyfile_path then Some prev else em_pull e q w)"
proof (cases prev)
  case None
  obtain w1 ok where r: "em_remove e caddyfile_path w = (w1, ok)" by (metis prod.exhaust)
  have "ok" using wr r unfolding edge_writable_def by (metis snd_conv)
  then show ?thesis using edge_documentedD(3)[OF doc r, of q] None by (simp add: restore_caddyfile_def r)
next
  case (Some c)
  obtain w1 ok where r: "em_push e caddyfile_path c w = (w1, ok)" by (metis prod.exhaust)
  have "ok" using wr r unfolding edge_writable_def by (metis snd_conv)
  moreover have "same_files e w1 (fst (reload e w1))" using reload_same_files[OF doc] by (metis prod.collapse)
  ultimately show ?thesis using edge_documentedD(1)[OF doc r, of q] Some by (simp add: restore_caddyfile_def r same_files_def)
qed

text \<open>C32: A configuration that Caddy rejects does not stay. Whatever makes publishing or suspending a site fail, short of
  the reload itself, leaves every site file as it was; and a new main Caddyfile that is refused, rejected or cannot be loaded
  leaves every file as it was. (Writing and removing files in the edge works; the edge's missing Caddyfile may have been
  written.)\<close>

theorem rejected_config_withdrawn:
  assumes doc: "edge_documented e" and wr: "edge_writable e"
  shows "(publish_site_for e site r ips w = (w', Some x) \<or> suspend_site e site r reason w = (w', Some x))
           \<and> x \<noteq> ReloadFailed \<and> q \<noteq> caddyfile_path \<longrightarrow> em_pull e q w' = em_pull e q w"
proof (intro impI, elim conjE)
  assume s: "publish_site_for e site r ips w = (w', Some x) \<or> suspend_site e site r reason w = (w', Some x)"
    and x: "x \<noteq> ReloadFailed" and q: "q \<noteq> caddyfile_path"
  from s consider "w' = w" | d where "write_site e site d w = (w', Some x)"
    by (fastforce simp: publish_site_for_def publish_site_def suspend_site_def split: sum.splits if_splits option.splits)
  then show "em_pull e q w' = em_pull e q w"
    by cases (use write_site_refused[OF doc wr _ x q] in auto)
qed

lemma sync_caddyfile_refused:
  assumes doc: "edge_documented e" and wr: "edge_writable e" and s: "sync_caddyfile e content w = (w', Inl x)"
  shows "em_pull e q w' = em_pull e q w"
proof (cases "w' = w")
  case False
  obtain prev where pv: "em_pull e caddyfile_path w = Some prev"
    using s False by (auto simp: sync_caddyfile_def split: option.splits)
  obtain w1 ok where p: "em_push e caddyfile_path content w = (w1, ok)" by (metis prod.exhaust)
  have ok: "ok" using wr p unfolding edge_writable_def by (metis snd_conv)
  obtain w2 y where r: "reload e w1 = (w2, y)" by (metis prod.exhaust)
  have f: "em_pull e q w2 = em_pull e q w1" using reload_same_files[OF doc r] by (simp add: same_files_def)
  have P: "em_pull e q w1 = (if q = caddyfile_path then Some (Some content) else em_pull e q w)"
    using edge_documentedD(1)[OF doc p, of q] ok by simp
  have "w' = restore_caddyfile e prev w1 \<or> w' = restore_caddyfile e prev w2"
    using s False unfolding sync_caddyfile_def by (auto simp: pv p ok r split: option.splits if_splits)
  then show ?thesis using restore_caddyfile_files[OF doc wr, of q prev] f P pv by (auto split: if_splits)
qed simp

subsection \<open>A small edge\<close>

text \<open>Caddy accepts every file without the text \<open>BAD\<close>; \<open>te_stuck\<close>: reloading fails; \<open>te_served\<close>: what it loaded last.\<close>

record toy_edge =
  te_files :: "string \<Rightarrow> string option"
  te_served :: "string \<Rightarrow> string option"
  te_stuck :: bool

definition small_edge :: "'a toy_edge_scheme edge_manager" where
  "small_edge =
     \<lparr>em_email = [], em_ip6 = (\<lambda>_. False),
      em_pull = (\<lambda>p w. Some (te_files w p)),
      em_push = (\<lambda>p c w. (w\<lparr>te_files := (te_files w)(p \<mapsto> c)\<rparr>, True)),
      em_remove = (\<lambda>p w. (w\<lparr>te_files := (te_files w)(p := None)\<rparr>, True)),
      em_modules = (\<lambda>w. Some []),
      em_validate = (\<lambda>w. case te_files w (site_path ''app'') of None \<Rightarrow> True | Some c \<Rightarrow> \<not> contains c ''BAD''),
      em_resolv = (\<lambda>w. w),
      em_reload = (\<lambda>w. if te_stuck w then (w, False) else (w\<lparr>te_served := te_files w\<rparr>, True)),
      em_restart = (\<lambda>w. w)\<rparr>"

lemma small_edge_documented: "edge_documented small_edge"
  unfolding edge_documented_def by (intro conjI) (auto simp: small_edge_def split: if_splits)

lemma small_edge_writable: "edge_writable small_edge"
  by (simp add: edge_writable_def small_edge_def)

definition app_route :: "string list \<Rightarrow> routing" where
  "app_route extra = \<lparr>rt_domain = ''app.example.com'', rt_port = 80, rt_tls = [], rt_extra = extra, rt_external = False, rt_cache = None, rt_limit = None\<rparr>"

definition bare_edge :: "bool \<Rightarrow> toy_edge" where
  "bare_edge stuck = \<lparr>te_files = Map.empty, te_served = Map.empty, te_stuck = stuck\<rparr>"

definition app_ips :: "string list" where "app_ips = [''10.0.0.7'', ''10.0.0.8'']"

theorem site_plan_agrees_witness:
  "let (w', x) = publish_site_for small_edge ''app'' (app_route []) app_ips (bare_edge False) in
     x = None \<and> te_served w' (site_path ''app'') \<noteq> None \<and> publish_site_for small_edge ''app'' (app_route []) app_ips w' = (w', None)"
proof -
  obtain w' x where p: "publish_site_for small_edge ''app'' (app_route []) app_ips (bare_edge False) = (w', x)" by (metis prod.exhaust)
  have "snd (publish_site_for small_edge ''app'' (app_route []) app_ips (bare_edge False)) = None" by code_simp
  then have x: "x = None" using p by simp
  have "te_served (fst (publish_site_for small_edge ''app'' (app_route []) app_ips (bare_edge False))) (site_path ''app'') \<noteq> None" by code_simp
  then have s: "te_served w' (site_path ''app'') \<noteq> None" using p by simp
  have i: "list_all (\<lambda>s. parse_ip4 s \<noteq> None) app_ips" by code_simp
  have n: "names_upstream (app_route [])" by (simp add: names_upstream_def app_route_def)
  from site_plan_agrees[OF small_edge_documented i] p x n
  have "publish_site_for small_edge ''app'' (app_route []) app_ips w' = (w', None)" by blast
  then show ?thesis using p x s by simp
qed

theorem rejected_config_withdrawn_witness:
  "let w = fst (publish_site_for small_edge ''app'' (app_route []) app_ips (bare_edge False));
       (w', x) = publish_site_for small_edge ''app'' (app_route [''BAD'']) app_ips w in
     x = Some Rejected \<and> te_files w (site_path ''app'') \<noteq> None \<and> te_files w' (site_path ''app'') = te_files w (site_path ''app'')"
proof -
  define w where "w = fst (publish_site_for small_edge ''app'' (app_route []) app_ips (bare_edge False))"
  obtain w' x where p: "publish_site_for small_edge ''app'' (app_route [''BAD'']) app_ips w = (w', x)" by (metis prod.exhaust)
  have run: "snd (publish_site_for small_edge ''app'' (app_route [''BAD'']) app_ips w) = Some Rejected \<and> te_files w (site_path ''app'') \<noteq> None"
    unfolding w_def by code_simp
  then have x: "x = Some Rejected" and h: "te_files w (site_path ''app'') \<noteq> None" using p by simp_all
  from rejected_config_withdrawn[OF small_edge_documented small_edge_writable, of "''app''" "app_route [''BAD'']" app_ips w w' Rejected _ "site_path ''app''"] p x
  have "em_pull small_edge (site_path ''app'') w' = em_pull small_edge (site_path ''app'') w" by simp
  then have "te_files w' (site_path ''app'') = te_files w (site_path ''app'')" by (simp add: small_edge_def)
  then show ?thesis using p x h unfolding w_def by simp
qed

text \<open>
  A reload that failed is forgotten: the site file stays, so publishing again finds it as wanted and reports success,
  though Caddy never loaded it.
\<close>

lemma failed_reload_forgotten:
  "let (w1, x) = publish_site_for small_edge ''app'' (app_route []) app_ips (bare_edge True);
       (w2, y) = publish_site_for small_edge ''app'' (app_route []) app_ips w1 in
     x = Some ReloadFailed \<and> y = None \<and> te_served w2 (site_path ''app'') = None"
  by code_simp

text \<open>The sample Caddyfile of Caddy's image is replaced by publishing, and makes the plan refuse the route.\<close>

definition stock_caddyfile :: string where
  "stock_caddyfile = line 0 '':80 {'' @ line 4 ''root * /usr/share/caddy'' @ line 4 ''file_server'' @ line 0 ''}''"

lemma stock_caddyfile_blocks_plan:
  "let w = (bare_edge False)\<lparr>te_files := [caddyfile_path \<mapsto> stock_caddyfile]\<rparr> in
     plan_site_for small_edge ''app'' (app_route []) app_ips w = Inl NoSitesImport
   \<and> snd (publish_site_for small_edge ''app'' (app_route []) app_ips w) = None"
  by code_simp

end
