(* ===== verification/Converge.thy ===== *)
theory Converge
  imports Edge Fleet_Config
begin

text \<open>
  What is wrong with a service and what puts it right: host ports (\<open>pkg/engine/forwards.go\<close>), snapshot schedules
  (\<open>snapshots.go\<close>), and the image, limits and environment of an instance (\<open>deployer.go\<close>). The plan and the apply call
  the same drift functions; what applying the result to Incus does to the instance's configuration is written out, and each
  is an interpretation of \<open>convergence\<close>.
\<close>

subsection \<open>Host ports\<close>

definition managed_forwards_key :: string where "managed_forwards_key = ''user.native-ops.forwards''"

definition split_list :: "string \<Rightarrow> string list" where
  "split_list s = filter (\<lambda>p. p \<noteq> []) (map trim_space (split_on CHR '','' s))"

text \<open>\<open>forwardChange\<close>: the device to publish, or to remove; and the record of managed devices, empty to unset it.\<close>

datatype forward_change = Publish string smap | Unpublish string | Record string

datatype drift_error = BadForward forward_error | TwoForwards string

fun declared_changes :: "instance_state \<Rightarrow> port_forward list \<Rightarrow> string list \<Rightarrow> drift_error + (string list \<times> forward_change list)" where
  "declared_changes st [] names = Inr (names, [])"
| "declared_changes st (f # fs) names = (case device_props f of Inl e \<Rightarrow> Inl (BadForward e)
     | Inr props \<Rightarrow>
         let name = device_name f in
         if name \<in> set names then Inl (TwoForwards name)
         else case declared_changes st fs (names @ [name]) of Inl e \<Rightarrow> Inl e
           | Inr (all, rest) \<Rightarrow>
               let same = (case map_of (is_devices st) name of None \<Rightarrow> False
                 | Some d \<Rightarrow> at_key d ''type'' = ''proxy'' \<and> at_key d ''listen'' = at_key props ''listen'' \<and> at_key d ''connect'' = at_key props ''connect'') in
               Inr (all, if same then rest else Publish name props # rest))"

definition stale_changes :: "instance_state \<Rightarrow> string list \<Rightarrow> forward_change list" where
  "stale_changes st names = map Unpublish (filter (\<lambda>n. n \<notin> set names \<and> (case map_of (is_devices st) n of None \<Rightarrow> False
     | Some d \<Rightarrow> at_key d ''type'' = ''proxy'')) (split_list (at_key (is_config st) managed_forwards_key)))"

definition forwards_drift :: "instance_state \<Rightarrow> port_forward list \<Rightarrow> drift_error + (forward_change list \<times> string option)" where
  "forwards_drift st fs = (case declared_changes st fs [] of Inl e \<Rightarrow> Inl e
     | Inr (names, changes) \<Rightarrow>
         let want = join_with '','' (sort names) in
         Inr (changes @ stale_changes st names, if want \<noteq> at_key (is_config st) managed_forwards_key then Some want else None))"

text \<open>\<open>SetDevice\<close>, \<open>RemoveDevice\<close>, \<open>SetInstanceConfig\<close> and \<open>UnsetInstanceConfig\<close> on the instance.\<close>

fun apply_forward_change :: "forward_change \<Rightarrow> instance_state \<Rightarrow> instance_state" where
  "apply_forward_change (Publish n props) st = st\<lparr>is_devices := AList.update n props (is_devices st)\<rparr>"
| "apply_forward_change (Unpublish n) st = st\<lparr>is_devices := AList.delete n (is_devices st)\<rparr>"
| "apply_forward_change (Record v) st =
     st\<lparr>is_config := (if v = [] then AList.delete managed_forwards_key (is_config st) else AList.update managed_forwards_key v (is_config st))\<rparr>"

text \<open>
  The steps of \<open>forwardsDrift\<close>, which in the source too is one function that \<open>planForwards\<close> prints and \<open>ensureForwards\<close> carries
  out (both are in the theory of the deployment); here the steps are applied to the instance's configuration.
\<close>

definition forward_steps :: "instance_state \<Rightarrow> port_forward list \<Rightarrow> forward_change list" where
  "forward_steps st fs = (case forwards_drift st fs of Inl _ \<Rightarrow> []
     | Inr (changes, record) \<Rightarrow> changes @ (case record of None \<Rightarrow> [] | Some v \<Rightarrow> [Record v]))"

definition converge_forwards :: "port_forward list \<Rightarrow> instance_state \<Rightarrow> instance_state" where
  "converge_forwards fs st = fold apply_forward_change (forward_steps st fs) st"

text \<open>Whether a manifest's forwards are usable does not depend on the instance.\<close>

fun forwards_ok :: "port_forward list \<Rightarrow> string list \<Rightarrow> bool" where
  "forwards_ok [] names \<longleftrightarrow> True"
| "forwards_ok (f # fs) names \<longleftrightarrow> (\<exists>props. device_props f = Inr props) \<and> device_name f \<notin> set names \<and> forwards_ok fs (names @ [device_name f])"

lemma declared_changes_ok: "forwards_ok fs names \<longleftrightarrow> (\<exists>r. declared_changes st fs names = Inr r)"
  by (induction fs arbitrary: names) (auto simp: Let_def split: sum.splits prod.splits)

lemma declared_names: "declared_changes st fs names = Inr (all, ch) \<Longrightarrow> all = names @ map device_name fs \<and> distinct (map device_name fs) \<and> set (map device_name fs) \<inter> set names = {}"
proof (induction fs arbitrary: names ch)
  case (Cons f fs)
  from Cons.prems obtain ch' where c: "declared_changes st fs (names @ [device_name f]) = Inr (all, ch')" and n: "device_name f \<notin> set names"
    by (auto simp: Let_def split: sum.splits prod.splits if_splits)
  show ?case using Cons.IH[OF c] n by auto
qed simp

text \<open>A device is as the manifest wants it.\<close>

definition port_published :: "instance_state \<Rightarrow> port_forward \<Rightarrow> bool" where
  "port_published st f \<longleftrightarrow> (\<exists>props d. device_props f = Inr props \<and> map_of (is_devices st) (device_name f) = Some d
     \<and> at_key d ''type'' = ''proxy'' \<and> at_key d ''listen'' = at_key props ''listen'' \<and> at_key d ''connect'' = at_key props ''connect'')"

lemma no_declared_change:
  "declared_changes st fs names = Inr (all, []) \<longleftrightarrow> (\<exists>ch. declared_changes st fs names = Inr (all, ch)) \<and> (\<forall>f \<in> set fs. port_published st f)"
proof (induction fs arbitrary: names)
  case (Cons f fs)
  show ?case
  proof (cases "device_props f")
    case (Inr props)
    then show ?thesis using Cons.IH[of "names @ [device_name f]"]
      by (auto simp: Let_def port_published_def split: sum.splits prod.splits if_splits option.splits)
  qed simp
qed simp

lemma published_after:
  "declared_changes st fs names = Inr (all, ch) \<Longrightarrow> \<forall>f \<in> set fs. map_of (is_devices st0) (device_name f) = map_of (is_devices st) (device_name f) \<Longrightarrow>
    (\<forall>f \<in> set fs. port_published (fold apply_forward_change ch st0) f)
    \<and> (\<forall>n. n \<notin> device_name ` set fs \<longrightarrow> map_of (is_devices (fold apply_forward_change ch st0)) n = map_of (is_devices st0) n)
    \<and> is_config (fold apply_forward_change ch st0) = is_config st0"
proof (induction fs arbitrary: names ch st0)
  case Nil
  then show ?case by simp
next
  case (Cons f fs)
  obtain props ch' where p: "device_props f = Inr props" and c: "declared_changes st fs (names @ [device_name f]) = Inr (all, ch')"
    using Cons.prems(1) by (auto simp: Let_def split: sum.splits prod.splits if_splits)
  define same where "same = (case map_of (is_devices st) (device_name f) of None \<Rightarrow> False
     | Some d \<Rightarrow> at_key d ''type'' = ''proxy'' \<and> at_key d ''listen'' = at_key props ''listen'' \<and> at_key d ''connect'' = at_key props ''connect'')"
  have ch: "ch = (if same then ch' else Publish (device_name f) props # ch')"
    using Cons.prems(1) by (simp add: p c Let_def same_def split: if_splits option.splits)
  have fresh: "device_name f \<notin> device_name ` set fs" using declared_names[OF c] by auto
  have proxy: "at_key props ''type'' = ''proxy''" using p by (auto simp: device_props_def Let_def at_key_def value_or_empty_def split: if_splits option.splits prod.splits)
  show ?case
  proof (cases same)
    case True
    have "map_of (is_devices (fold apply_forward_change ch' st0)) (device_name f) = map_of (is_devices st) (device_name f)"
      using Cons.IH[OF c, of st0] Cons.prems(2) fresh by auto
    then have "port_published (fold apply_forward_change ch' st0) f"
      using True p by (auto simp: port_published_def same_def split: option.splits)
    then show ?thesis using Cons.IH[OF c, of st0] Cons.prems(2) True by (simp add: ch)
  next
    case False
    define st1 where "st1 = apply_forward_change (Publish (device_name f) props) st0"
    have e: "\<forall>g \<in> set fs. map_of (is_devices st1) (device_name g) = map_of (is_devices st) (device_name g)"
    proof
      fix g assume g: "g \<in> set fs"
      then have "device_name g \<noteq> device_name f" using fresh by (metis imageI)
      then show "map_of (is_devices st1) (device_name g) = map_of (is_devices st) (device_name g)"
        using Cons.prems(2) g by (simp add: st1_def update_conv')
    qed
    note IH = Cons.IH[OF c e]
    have "map_of (is_devices (fold apply_forward_change ch' st1)) (device_name f) = Some props"
      using IH fresh by (auto simp: st1_def update_conv')
    then have "port_published (fold apply_forward_change ch' st1) f" using p proxy by (auto simp: port_published_def)
    then show ?thesis using IH False by (auto simp: ch st1_def update_conv')
  qed
qed

lemma unpublished_after:
  "map_of (is_devices (fold apply_forward_change (map Unpublish ns) st)) n = (if n \<in> set ns then None else map_of (is_devices st) n)
   \<and> is_config (fold apply_forward_change (map Unpublish ns) st) = is_config st"
  by (induction ns arbitrary: st) (auto simp: delete_conv')

lemma plain_name_chars: "plain_name s \<Longrightarrow> CHR '','' \<notin> set s"
proof -
  have n: "\<not> is_alnum CHR '',''" by code_simp
  show "plain_name s \<Longrightarrow> CHR '','' \<notin> set s"
    using n by (auto simp: plain_name_def list_all_iff split: list.splits)
qed

lemma device_name_plain: "device_props f = Inr props \<Longrightarrow> plain_name (device_name f)"
  by (auto simp: device_props_def device_name_def Let_def split: if_splits option.splits prod.splits)

lemma plain_name_trim: "plain_name s \<Longrightarrow> s \<noteq> [] \<and> trim_space s = s"
proof
  assume p: "plain_name s"
  have sp: "is_alnum c \<or> c \<in> set ''._-'' \<Longrightarrow> \<not> is_space c" for c
    by (auto simp: char_class_defs)
  have all: "c \<in> set s \<Longrightarrow> \<not> is_space c" for c using p sp by (auto simp: plain_name_def list_all_iff split: list.splits)
  show ne: "s \<noteq> []" using p by (auto simp: plain_name_def)
  have "trim_left is_space s = s" using all ne by (simp add: trim_left_id)
  moreover have "trim_right is_space s = s" using all ne by (simp add: trim_right_id)
  ultimately show "trim_space s = s" by (simp add: trim_space_def)
qed

lemma split_list_join:
  assumes "\<forall>p \<in> set ps. plain_name p" shows "split_list (join_with '','' ps) = ps"
proof (cases "ps = []")
  case True
  have "split_list [] = []" by code_simp
  then show ?thesis using True by simp
next
  case False
  have "map trim_space ps = ps" using assms plain_name_trim by (simp add: map_idI)
  moreover have "filter (\<lambda>p. p \<noteq> []) ps = ps" using assms plain_name_trim by (auto simp: filter_id_conv)
  ultimately show ?thesis using split_join[OF False, of "CHR '',''"] assms plain_name_chars by (simp add: split_list_def)
qed

lemma recorded_forwards:
  "at_key (is_config (apply_forward_change (Record v) st)) managed_forwards_key = v \<and> is_devices (apply_forward_change (Record v) st) = is_devices st"
  by (auto simp: at_key_def value_or_empty_def update_conv' delete_conv')

text \<open>What applying the steps leaves: every declared port published, every port published earlier and not declared any more gone,
  all other devices and configuration as they were, and the record of the ports this manifest manages.\<close>

definition forwards_settled :: "port_forward list \<Rightarrow> instance_state \<Rightarrow> instance_state \<Rightarrow> bool" where
  "forwards_settled fs st st' \<longleftrightarrow>
     (\<forall>f \<in> set fs. port_published st' f)
   \<and> (\<forall>n. n \<notin> device_name ` set fs \<longrightarrow> map_of (is_devices st') n =
        (if n \<in> set (split_list (at_key (is_config st) managed_forwards_key))
            \<and> (\<exists>d. map_of (is_devices st) n = Some d \<and> at_key d ''type'' = ''proxy'') then None else map_of (is_devices st) n))
   \<and> at_key (is_config st') managed_forwards_key = join_with '','' (sort (map device_name fs))
   \<and> (\<forall>k. k \<noteq> managed_forwards_key \<longrightarrow> map_of (is_config st') k = map_of (is_config st) k)"

lemma converged_forwards:
  assumes "forwards_ok fs []"
  shows "forward_steps (converge_forwards fs st) fs = [] \<and> forwards_settled fs st (converge_forwards fs st)"
proof -
  define st' where "st' = converge_forwards fs st"
  obtain names ch where c: "declared_changes st fs [] = Inr (names, ch)" using assms declared_changes_ok by (metis surj_pair)
  have names: "names = map device_name fs" using declared_names[OF c] by simp
  define want where "want = join_with '','' (sort names)"
  define st1 where "st1 = fold apply_forward_change ch st"
  define st2 where "st2 = fold apply_forward_change (stale_changes st names) st1"
  have drift: "forwards_drift st fs = Inr (ch @ stale_changes st names, if want \<noteq> at_key (is_config st) managed_forwards_key then Some want else None)"
    by (simp add: forwards_drift_def c want_def)
  have st': "st' = (if want \<noteq> at_key (is_config st) managed_forwards_key then apply_forward_change (Record want) st2 else st2)"
    by (simp add: st'_def converge_forwards_def forward_steps_def drift st1_def st2_def)
  note A = published_after[OF c, of st, folded st1_def, simplified]
  obtain stale where stl: "stale_changes st names = map Unpublish stale" "set stale \<inter> set names = {}"
    and stale: "n \<in> set stale \<longleftrightarrow> n \<notin> set names \<and> n \<in> set (split_list (at_key (is_config st) managed_forwards_key))
      \<and> (\<exists>d. map_of (is_devices st) n = Some d \<and> at_key d ''type'' = ''proxy'')" for n
  proof
    let ?stale = "filter (\<lambda>n. n \<notin> set names \<and> (case map_of (is_devices st) n of None \<Rightarrow> False
     | Some d \<Rightarrow> at_key d ''type'' = ''proxy'')) (split_list (at_key (is_config st) managed_forwards_key))"
    show "stale_changes st names = map Unpublish ?stale" by (simp only: stale_changes_def)
    show "set ?stale \<inter> set names = {}" by auto
    show "n \<in> set ?stale \<longleftrightarrow> n \<notin> set names \<and> n \<in> set (split_list (at_key (is_config st) managed_forwards_key))
      \<and> (\<exists>d. map_of (is_devices st) n = Some d \<and> at_key d ''type'' = ''proxy'')" for n
      by (auto split: option.splits)
  qed
  have U: "map_of (is_devices st2) n = (if n \<in> set stale then None else map_of (is_devices st1) n)" "is_config st2 = is_config st1" for n
    using unpublished_after[of stale st1 n] by (simp_all add: st2_def stl)
  have dev: "is_devices st' = is_devices st2" using recorded_forwards st' by (cases "want = at_key (is_config st) managed_forwards_key") simp_all
  have rec: "at_key (is_config st') managed_forwards_key = want"
    using recorded_forwards st' U(2) A by (cases "want = at_key (is_config st) managed_forwards_key") simp_all
  have pub: "port_published st' f" if f: "f \<in> set fs" for f
  proof -
    have "device_name f \<notin> set stale" using f stl(2) names by auto
    then have "map_of (is_devices st') (device_name f) = map_of (is_devices st1) (device_name f)" using U(1) dev by simp
    then show ?thesis using A f by (simp add: port_published_def)
  qed
  have "\<exists>ch'. declared_changes st' fs [] = Inr (names, ch')"
  proof -
    obtain n' ch' where "declared_changes st' fs [] = Inr (n', ch')" using assms declared_changes_ok by (metis surj_pair)
    then show ?thesis using declared_names names by fastforce
  qed
  then have c': "declared_changes st' fs [] = Inr (names, [])" using no_declared_change pub by blast
  have "\<forall>f \<in> set fs. \<exists>props. device_props f = Inr props" using pub by (auto simp: port_published_def)
  then have "\<forall>p \<in> set (sort names). plain_name p" using device_name_plain names by fastforce
  then have "split_list (at_key (is_config st') managed_forwards_key) = sort names" using split_list_join rec want_def by metis
  then have "stale_changes st' names = []" by (auto simp: stale_changes_def filter_empty_conv)
  then have "forwards_drift st' fs = Inr ([], None)" using rec by (simp add: forwards_drift_def c' want_def)
  then have "forward_steps st' fs = []" by (simp add: forward_steps_def)
  moreover have "forwards_settled fs st st'"
    unfolding forwards_settled_def
  proof (intro conjI ballI allI impI)
    show "port_published st' f" if "f \<in> set fs" for f using pub[OF that] .
    show "at_key (is_config st') managed_forwards_key = join_with '','' (sort (map device_name fs))" using rec by (simp add: want_def names)
    have st2: "is_config st2 = is_config st" using U(2) A by simp
    show "map_of (is_config st') k = map_of (is_config st) k" if "k \<noteq> managed_forwards_key" for k
      using that by (simp add: st' st2 update_conv' delete_conv')
    fix n assume n: "n \<notin> device_name ` set fs"
    then have "map_of (is_devices st1) n = map_of (is_devices st) n" using A by blast
    then show "map_of (is_devices st') n = (if n \<in> set (split_list (at_key (is_config st) managed_forwards_key))
            \<and> (\<exists>d. map_of (is_devices st) n = Some d \<and> at_key d ''type'' = ''proxy'') then None else map_of (is_devices st) n)"
      using U(1)[of n] stale[of n] n dev names by auto
  qed
  ultimately show ?thesis by (simp add: st'_def)
qed

interpretation forwards_conv: convergence "\<lambda>fs st. forward_steps st fs" converge_forwards "\<lambda>fs. forwards_ok fs []"
  by unfold_locales (simp_all add: converged_forwards, simp add: converge_forwards_def)

subsection \<open>Snapshot schedules and limits\<close>

definition volume_snapshot_drift :: "smap \<Rightarrow> snapshot_policy option \<Rightarrow> smap" where
  "volume_snapshot_drift live policy = (case policy of None \<Rightarrow> []
     | Some p \<Rightarrow> map (\<lambda>k. (k, volume_config p k)) (filter (\<lambda>k. at_key live k \<noteq> volume_config p k) snapshot_keys))"

definition limits_drift :: "instance_state \<Rightarrow> smap \<Rightarrow> smap" where
  "limits_drift st limits = map (\<lambda>k. (k, at_key limits k)) (filter (\<lambda>k. at_key (is_config st) k \<noteq> at_key limits k) (sorted_keys limits))"

text \<open>\<open>SetVolumeConfig\<close> and \<open>ResizeLimits\<close>: one key after the other, an empty value unsets a volume's key.\<close>

definition set_config_key :: "string \<times> string \<Rightarrow> smap \<Rightarrow> smap" where
  "set_config_key kv cfg = (if snd kv = [] then AList.delete (fst kv) cfg else AList.update (fst kv) (snd kv) cfg)"

definition converge_snapshots :: "snapshot_policy option \<Rightarrow> smap \<Rightarrow> smap" where
  "converge_snapshots policy live = fold set_config_key (volume_snapshot_drift live policy) live"

definition converge_limits :: "smap \<Rightarrow> instance_state \<Rightarrow> instance_state" where
  "converge_limits limits st = st\<lparr>is_config := fold (\<lambda>(k, v). AList.update k v) (limits_drift st limits) (is_config st)\<rparr>"

lemma at_key_set: "at_key (set_config_key kv cfg) k = (if k = fst kv then snd kv else at_key cfg k)"
  by (cases kv) (simp add: set_config_key_def at_key_def value_or_empty_def update_conv' delete_conv')

lemma at_key_fold_set:
  "distinct (map fst kvs) \<Longrightarrow> at_key (fold set_config_key kvs cfg) k = (case map_of kvs k of None \<Rightarrow> at_key cfg k | Some v \<Rightarrow> v)"
proof (induction kvs arbitrary: cfg)
  case (Cons kv kvs)
  then have "map_of kvs (fst kv) = None" by (simp add: map_of_eq_None_iff)
  then show ?case using Cons by (cases kv) (auto simp: at_key_set split: option.splits)
qed simp

lemma at_key_fold_update:
  "distinct (map fst kvs) \<Longrightarrow> at_key (fold (\<lambda>(k, v). AList.update k v) kvs cfg) k = (case map_of kvs k of None \<Rightarrow> at_key cfg k | Some v \<Rightarrow> v)"
proof (induction kvs arbitrary: cfg)
  case (Cons kv kvs)
  obtain a v where kv: "kv = (a, v)" by (cases kv)
  have "map_of kvs a = None" using Cons.prems kv by (simp add: map_of_eq_None_iff)
  moreover have "at_key (AList.update a v cfg) k = (if k = a then v else at_key cfg k)"
    by (simp add: at_key_def value_or_empty_def update_conv')
  ultimately show ?case using Cons kv by (auto split: option.splits)
qed simp

lemma map_of_pairs: "map_of (map (\<lambda>k. (k, f k)) ks) k = (if k \<in> set ks then Some (f k) else None)"
  by (induction ks) auto

interpretation snapshots_conv: convergence "\<lambda>p live. volume_snapshot_drift live p" converge_snapshots "\<lambda>_. True"
proof (unfold_locales, goal_cases)
  case (1 w l)
  then show ?case by (simp add: converge_snapshots_def)
next
  case (2 w l)
  show ?case
  proof (cases w)
    case (Some p)
    have "distinct (map fst (volume_snapshot_drift l w))" by (simp add: volume_snapshot_drift_def Some snapshot_keys_def comp_def)
    from at_key_fold_set[OF this] have "at_key (converge_snapshots w l) k = volume_config p k" if "k \<in> set snapshot_keys" for k
      using that by (simp add: converge_snapshots_def volume_snapshot_drift_def Some map_of_pairs)
    then show ?thesis by (simp add: volume_snapshot_drift_def Some filter_empty_conv)
  qed (simp add: volume_snapshot_drift_def converge_snapshots_def)
qed

interpretation limits_conv: convergence "\<lambda>w st. limits_drift st w" converge_limits "\<lambda>w. distinct (map fst w)"
proof (unfold_locales, goal_cases)
  case (1 w l)
  then show ?case by (simp add: converge_limits_def)
next
  case (2 w l)
  have "distinct (map fst (limits_drift l w))" using 2 by (simp add: limits_drift_def sorted_keys_def comp_def)
  from at_key_fold_update[OF this] have "at_key (is_config (converge_limits w l)) k = at_key w k" if "k \<in> set (sorted_keys w)" for k
    using that by (simp add: converge_limits_def limits_drift_def map_of_pairs)
  then show ?case by (simp add: limits_drift_def filter_empty_conv)
qed

lemma converged_limits:
  assumes "distinct (map fst w)"
  shows "at_key (is_config (converge_limits w l)) k = (if k \<in> fst ` set w then at_key w k else at_key (is_config l) k)"
proof -
  have "distinct (map fst (limits_drift l w))" using assms by (simp add: limits_drift_def sorted_keys_def comp_def)
  from at_key_fold_update[OF this] show ?thesis
    by (auto simp: converge_limits_def limits_drift_def map_of_pairs sorted_keys_def)
qed

lemma converged_snapshots:
  "at_key (converge_snapshots (Some p) l) k = (if k \<in> set snapshot_keys then volume_config p k else at_key l k)"
proof -
  have "distinct (map fst (volume_snapshot_drift l (Some p)))" by (simp add: volume_snapshot_drift_def snapshot_keys_def comp_def)
  from at_key_fold_set[OF this] show ?thesis
    by (auto simp: converge_snapshots_def volume_snapshot_drift_def map_of_pairs)
qed


definition git_ports :: "port_forward list" where
  "git_ports = [\<lparr>pf_name = ''ssh'', pf_protocol = [], pf_listen = ''2222'', pf_target = ''22''\<rparr>]"

definition bare_instance :: instance_state where
  "bare_instance = \<lparr>is_name = ''git'', is_profiles = [], is_config = [(managed_forwards_key, ''old'')],
     is_devices = [(''old'', [(''type'', ''proxy'')]), (''eth0'', [(''type'', ''nic'')])], is_base_image = [], is_oci = False\<rparr>"


subsection \<open>Image and environment\<close>

definition has_remote_prefix :: "string \<Rightarrow> bool" where
  "has_remote_prefix ref \<longleftrightarrow> list_ex (\<lambda>p. prefix p ref) [''images:'', ''docker:'', ''local:'', ''quay:'']"

definition normalize_ref :: "string \<Rightarrow> string" where
  "normalize_ref ref = (if has_remote_prefix ref \<or> hash_ok ref then ref else ''docker:'' @ trim_prefix ref ''docker.io/'')"

text \<open>\<open>alias\<close>: the fingerprint of a local image alias, None when there is none. The result is the reference to deploy and the
  fingerprint, empty for a reference that is not local.\<close>

definition resolve_service_image :: "(string \<Rightarrow> string option) \<Rightarrow> string \<Rightarrow> string \<times> string" where
  "resolve_service_image alias ref =
     (if \<not> contains ref ''docker.io/'' \<and> \<not> contains ref ''/'' \<and> \<not> has_remote_prefix ref \<and> \<not> hash_ok ref
      then case alias ref of Some f \<Rightarrow> (f, f) | None \<Rightarrow> (normalize_ref ref, [])
      else (normalize_ref ref, []))"

datatype image_verdict = ImageCurrent | ImageReplace | ImageAdopt | ImageUnknown

definition image_decision :: "instance_state \<Rightarrow> string \<Rightarrow> string \<Rightarrow> image_verdict" where
  "image_decision st fp ref =
     (if fp \<noteq> [] then if is_base_image st = [] then ImageUnknown else if is_base_image st \<noteq> fp then ImageReplace else ImageCurrent
      else let recorded = at_key (is_config st) image_key in
        if recorded = [] then ImageAdopt else if recorded \<noteq> ref then ImageReplace else ImageCurrent)"

definition oci_image_ref :: "string \<Rightarrow> bool" where
  "oci_image_ref ref \<longleftrightarrow> prefix ''docker:'' ref \<or> prefix ''quay:'' ref"

definition uses_oci_env :: "instance_state option \<Rightarrow> string \<Rightarrow> bool" where
  "uses_oci_env st ref \<longleftrightarrow> oci_image_ref ref \<or> (case st of None \<Rightarrow> False
     | Some s \<Rightarrow> is_oci s \<or> oci_image_ref (at_key (is_config s) image_key) \<or> list_ex (\<lambda>(k, v). prefix ''environment.'' k) (is_config s))"

definition oci_live_env :: "instance_state \<Rightarrow> smap" where
  "oci_live_env st = map (\<lambda>(k, v). (drop (length ''environment.'') k, v)) (filter (\<lambda>(k, v). prefix ''environment.'' k) (is_config st))"

text \<open>\<open>diffEnv\<close>.\<close>

record env_state =
  es_found :: bool
  es_merged :: smap
  es_differs :: bool
  es_added :: "string list"
  es_changed :: "string list"
  es_kept :: nat

definition diff_env :: "bool \<Rightarrow> smap \<Rightarrow> smap \<Rightarrow> env_state" where
  "diff_env found live declared =
     (case merge_env live declared of (merged, differs) \<Rightarrow>
        \<lparr>es_found = found, es_merged = merged, es_differs = differs,
         es_added = filter (\<lambda>k. map_of live k = None) (sorted_keys declared),
         es_changed = filter (\<lambda>k. map_of live k \<noteq> None \<and> map_of live k \<noteq> map_of declared k) (sorted_keys declared),
         es_kept = length (filter (\<lambda>k. map_of declared k = None) (remdups (map fst live)))\<rparr>)"

definition same_profiles :: "string list \<Rightarrow> string list \<Rightarrow> bool" where
  "same_profiles live declared \<longleftrightarrow> (let norm = (\<lambda>p. join_with '','' (sort (filter (\<lambda>x. x \<noteq> ''default'') p))) in norm live = norm declared)"

text \<open>\<open>env_file\<close>: the text of the service's environment file, None when it names none or it cannot be read.\<close>

definition service_env :: "string option \<Rightarrow> service_config \<Rightarrow> smap" where
  "service_env env_file svc = fold (\<lambda>(k, v). AList.update k v) (sv_env svc) (case env_file of None \<Rightarrow> [] | Some text \<Rightarrow> parse_env text)"

definition missing_secrets :: "(string \<Rightarrow> string option) \<Rightarrow> service_config \<Rightarrow> string list" where
  "missing_secrets secrets svc = map (at_key (sv_env_from svc)) (filter (\<lambda>key. value_or_empty (secrets (at_key (sv_env_from svc) key)) = []) (sorted_keys (sv_env_from svc)))"

definition declared_env :: "(string \<Rightarrow> string option) \<Rightarrow> string option \<Rightarrow> service_config \<Rightarrow> smap \<times> string list" where
  "declared_env secrets env_file svc =
     (fold (\<lambda>key env. let v = value_or_empty (secrets (at_key (sv_env_from svc) key)) in if v = [] then env else AList.update key v env)
        (sorted_keys (sv_env_from svc)) (service_env env_file svc), missing_secrets secrets svc)"

end
