(* ===== verification/Engine_Host.thy ===== *)
theory Engine_Host
  imports Converge
begin

text \<open>
  The host as the engine sees it, and the operations of the Incus client that decide something
  (\<open>pkg/incus/client.go\<close>, \<open>volumes.go\<close>, \<open>state.go\<close>; the \<open>ensure\<close> functions of \<open>pkg/engine\<close>).

  \<^item> The commands that are run on the host are fields of \<open>engine_host\<close> over a state \<open>'w\<close>. Reading and probing change
    nothing; a command that changes something returns the new state and whether it succeeded.
  \<^item> Waiting is a read: \<open>eh_wait_ip\<close> is what polling for an address ends with, \<open>eh_healthy\<close> what a health check ends with.
\<close>

subsection \<open>Steps that may fail\<close>

definition act :: "('w \<Rightarrow> 'w \<times> bool) \<Rightarrow> 'e \<Rightarrow> 'w \<Rightarrow> 'w \<times> 'e option" where
  "act f e w = (case f w of (w1, ok) \<Rightarrow> (w1, if ok then None else Some e))"

definition andthen :: "('w \<Rightarrow> 'w \<times> 'e option) \<Rightarrow> ('w \<Rightarrow> 'w \<times> 'e option) \<Rightarrow> 'w \<Rightarrow> 'w \<times> 'e option" where
  "andthen a b w = (case a w of (w1, None) \<Rightarrow> b w1 | (w1, Some e) \<Rightarrow> (w1, Some e))"

definition skip :: "'w \<Rightarrow> 'w \<times> 'e option" where "skip w = (w, None)"

definition fail :: "'e \<Rightarrow> 'w \<Rightarrow> 'w \<times> 'e option" where "fail e w = (w, Some e)"

definition only_if :: "bool \<Rightarrow> ('w \<Rightarrow> 'w \<times> 'e option) \<Rightarrow> 'w \<Rightarrow> 'w \<times> 'e option" where
  "only_if b a = (if b then a else skip)"

fun each :: "('a \<Rightarrow> 'w \<Rightarrow> 'w \<times> 'e option) \<Rightarrow> 'a list \<Rightarrow> 'w \<Rightarrow> 'w \<times> 'e option" where
  "each f [] = skip"
| "each f (x # xs) = andthen (f x) (each f xs)"

fun in_turn :: "('w \<Rightarrow> 'w \<times> 'e option) list \<Rightarrow> 'w \<Rightarrow> 'w \<times> 'e option" where
  "in_turn [] = skip"
| "in_turn (a # as) = andthen a (in_turn as)"

lemma andthen_same: "a w = (w, None) \<Longrightarrow> b w = r \<Longrightarrow> andthen a b w = r"
  by (simp add: andthen_def)

lemma each_same: "\<forall>x \<in> set xs. f x w = (w, None) \<Longrightarrow> each f xs w = (w, None)"
  by (induction xs) (simp_all add: skip_def andthen_same)

lemma in_turn_same: "\<forall>a \<in> set as. a w = (w, None) \<Longrightarrow> in_turn as w = (w, None)"
  by (induction as) (simp_all add: skip_def andthen_same)

lemma only_if_False [simp]: "only_if False a w = (w, None)"
  by (simp add: only_if_def skip_def)

lemma only_if_True [simp]: "only_if True a w = a w"
  by (simp add: only_if_def)

lemma act_done: "act a e w = (w', None) \<longleftrightarrow> a w = (w', True)"
  by (auto simp: act_def split: prod.splits if_splits)

lemma andthen_done: "andthen a b w = (w', None) \<longleftrightarrow> (\<exists>w1. a w = (w1, None) \<and> b w1 = (w', None))"
  by (auto simp: andthen_def split: prod.splits option.splits)

lemma only_if_done: "only_if b a w = (w', None) \<longleftrightarrow> (if b then a w = (w', None) else w' = w)"
  by (cases b) auto

subsection \<open>The host\<close>

datatype engine_error =
    HBadName | HUnreadable | HVolume string | HNoVolume string | HSnapshots | HAttach string | HOwner string | HForwards drift_error
  | HDevice string | HConfig string | HEnv | HEnvKey string | HRestart | HLaunch | HProfile string | HHook string | HMissingSecrets "string list"
  | HNoAddress | HUnhealthy | HRoute edge_error | HDelete | HNetwork | HMesh | HBadConfig | HBlocked | HShare

record 'w engine_host =
  eh_edge :: "'w edge_manager"
  eh_alias :: "string \<Rightarrow> 'w \<Rightarrow> string option"
  eh_exists :: "string \<Rightarrow> 'w \<Rightarrow> bool option"
  eh_state :: "string \<Rightarrow> 'w \<Rightarrow> instance_state option"
  eh_volume :: "string \<Rightarrow> string \<Rightarrow> 'w \<Rightarrow> smap option option" \<comment> \<open>None: the look-up failed; \<open>Some None\<close>: no such volume\<close>
  eh_pull :: "string \<Rightarrow> string \<Rightarrow> 'w \<Rightarrow> string option option"
  eh_ips :: "string \<Rightarrow> 'w \<Rightarrow> string list option"
  eh_owner :: "string \<Rightarrow> string \<Rightarrow> 'w \<Rightarrow> string option"
  eh_wait_ip :: "string \<Rightarrow> 'w \<Rightarrow> string option"
  eh_healthy :: "string \<Rightarrow> health_check \<Rightarrow> 'w \<Rightarrow> bool"
  eh_chown :: "string \<Rightarrow> string \<Rightarrow> string \<Rightarrow> 'w \<Rightarrow> 'w \<times> bool"
  eh_create_volume :: "string \<Rightarrow> string \<Rightarrow> bool \<Rightarrow> 'w \<Rightarrow> 'w \<times> bool"
  eh_volume_key :: "string \<Rightarrow> string \<Rightarrow> string \<Rightarrow> string \<Rightarrow> 'w \<Rightarrow> 'w \<times> bool"
  eh_snapshot :: "string \<Rightarrow> string \<Rightarrow> string \<Rightarrow> 'w \<Rightarrow> 'w \<times> bool"
  eh_set_device :: "string \<Rightarrow> string \<Rightarrow> smap \<Rightarrow> 'w \<Rightarrow> 'w \<times> bool"
  eh_remove_device :: "string \<Rightarrow> string \<Rightarrow> 'w \<Rightarrow> 'w \<times> bool"
  eh_set_config :: "string \<Rightarrow> string \<Rightarrow> string \<Rightarrow> 'w \<Rightarrow> 'w \<times> bool"
  eh_unset_config :: "string \<Rightarrow> string \<Rightarrow> 'w \<Rightarrow> 'w \<times> bool"
  eh_push :: "string \<Rightarrow> string \<Rightarrow> string \<Rightarrow> 'w \<Rightarrow> 'w \<times> bool"
  eh_set_environment :: "string \<Rightarrow> smap \<Rightarrow> 'w \<Rightarrow> 'w \<times> bool"
  eh_restart :: "string \<Rightarrow> 'w \<Rightarrow> 'w \<times> bool"
  eh_restart_service :: "string \<Rightarrow> string \<Rightarrow> 'w \<Rightarrow> 'w \<times> bool"
  eh_ensure_profile :: "string \<Rightarrow> 'w \<Rightarrow> 'w \<times> bool"
  eh_launch :: "string \<Rightarrow> string \<Rightarrow> string list \<Rightarrow> smap \<Rightarrow> 'w \<Rightarrow> 'w \<times> bool"
  eh_force_stop :: "string \<Rightarrow> 'w \<Rightarrow> 'w"
  eh_delete :: "string \<Rightarrow> 'w \<Rightarrow> 'w \<times> bool"
  eh_delete_volume :: "string \<Rightarrow> string \<Rightarrow> 'w \<Rightarrow> 'w \<times> bool"
  eh_host_script :: "string \<Rightarrow> 'w \<Rightarrow> 'w \<times> bool"
  eh_container_script :: "string \<Rightarrow> string \<Rightarrow> 'w \<Rightarrow> 'w \<times> bool"

subsection \<open>Volumes\<close>

definition service_pool :: "string \<Rightarrow> string" where "service_pool pool = (if pool = [] then ''default'' else pool)"

text \<open>Any failure of \<open>storage volume show\<close> counts as an absent volume here.\<close>

definition ensure_volume :: "'w engine_host \<Rightarrow> string \<Rightarrow> string \<Rightarrow> bool \<Rightarrow> 'w \<Rightarrow> 'w \<times> engine_error option" where
  "ensure_volume eh pool v shifted w =
     (let p = service_pool pool in
      if \<not> valid_name p \<or> \<not> valid_name v then (w, Some (HVolume v))
      else case eh_volume eh p v w of Some (Some _) \<Rightarrow> (w, None)
        | _ \<Rightarrow> act (eh_create_volume eh p v shifted) (HVolume v) w)"

definition volume_exists :: "'w engine_host \<Rightarrow> string \<Rightarrow> string \<Rightarrow> 'w \<Rightarrow> bool option" where
  "volume_exists eh pool v w = (let p = service_pool pool in
     if \<not> valid_name p \<or> \<not> valid_name v then None else map_option (\<lambda>c. c \<noteq> None) (eh_volume eh p v w))"

definition volume_config_of :: "'w engine_host \<Rightarrow> string \<Rightarrow> string \<Rightarrow> 'w \<Rightarrow> smap option option" where
  "volume_config_of eh pool v w = (let p = service_pool pool in
     if \<not> valid_name p \<or> \<not> valid_name v then None else eh_volume eh p v w)"

definition attach_props :: "string \<Rightarrow> string \<Rightarrow> string \<Rightarrow> smap" where
  "attach_props pool v path = [(''type'', ''disk''), (''pool'', pool), (''source'', v), (''path'', path)]"

definition attach_volume :: "'w engine_host \<Rightarrow> string \<Rightarrow> string \<Rightarrow> string \<Rightarrow> string \<Rightarrow> 'w \<Rightarrow> 'w \<times> engine_error option" where
  "attach_volume eh name pool v path w = (let p = service_pool pool in
     if \<not> valid_name name \<or> \<not> valid_name p \<or> \<not> valid_name v then (w, Some (HAttach v))
     else act (eh_set_device eh name (volume_device_name path) (attach_props p v path)) (HAttach v) w)"

definition ensure_volume_attached :: "'w engine_host \<Rightarrow> string \<Rightarrow> string \<Rightarrow> string \<Rightarrow> string \<Rightarrow> 'w \<Rightarrow> 'w \<times> engine_error option" where
  "ensure_volume_attached eh name pool v path w = (let p = service_pool pool in
     case eh_state eh name w of None \<Rightarrow> (w, Some HUnreadable)
     | Some st \<Rightarrow> (case volume_attachment st p v path of
         Attached \<Rightarrow> (w, None)
       | Clash _ \<Rightarrow> (w, Some (HAttach v))
       | Free \<Rightarrow> attach_volume eh name p v path w))"

definition ensure_path_owner :: "'w engine_host \<Rightarrow> string \<Rightarrow> string \<Rightarrow> string \<Rightarrow> 'w \<Rightarrow> 'w \<times> engine_error option" where
  "ensure_path_owner eh name path owner w =
     (if \<not> valid_name name \<or> \<not> valid_user_name owner \<or> \<not> prefix ''/'' path \<or> CHR 0x00 \<in> set path then (w, Some (HOwner owner))
      else case eh_owner eh name path w of None \<Rightarrow> (w, Some (HOwner owner))
        | Some current \<Rightarrow> if trim_space current = owner then (w, None) else act (eh_chown eh name path owner) (HOwner owner) w)"

definition ensure_snapshot_policy :: "'w engine_host \<Rightarrow> string \<Rightarrow> string \<Rightarrow> snapshot_policy option \<Rightarrow> 'w \<Rightarrow> 'w \<times> engine_error option" where
  "ensure_snapshot_policy eh pool v policy w =
     (if policy = None then (w, None)
      else case volume_config_of eh pool v w of None \<Rightarrow> (w, Some HUnreadable)
        | Some None \<Rightarrow> (w, Some (HNoVolume v))
        | Some (Some live) \<Rightarrow> each (\<lambda>(k, x). act (eh_volume_key eh (service_pool pool) v k x) HSnapshots) (volume_snapshot_drift live policy) w)"

subsection \<open>Devices, labels and limits\<close>

definition ensure_forwards :: "'w engine_host \<Rightarrow> string \<Rightarrow> port_forward list \<Rightarrow> 'w \<Rightarrow> 'w \<times> engine_error option" where
  "ensure_forwards eh name fs w = (case eh_state eh name w of None \<Rightarrow> (w, Some HUnreadable)
     | Some st \<Rightarrow> (case forwards_drift st fs of Inl e \<Rightarrow> (w, Some (HForwards e))
         | Inr (changes, record) \<Rightarrow>
             andthen (each (\<lambda>c. case c of Publish n props \<Rightarrow> act (eh_set_device eh name n props) (HDevice n)
                              | Unpublish n \<Rightarrow> act (eh_remove_device eh name n) (HDevice n) | Record _ \<Rightarrow> skip) changes)
               (case record of None \<Rightarrow> skip
                | Some v \<Rightarrow> if v = [] then act (eh_unset_config eh name managed_forwards_key) (HConfig managed_forwards_key)
                           else act (eh_set_config eh name managed_forwards_key v) (HConfig managed_forwards_key)) w))"

definition reconcile_labels_on :: "'w engine_host \<Rightarrow> string \<Rightarrow> smap \<Rightarrow> smap \<Rightarrow> 'w \<Rightarrow> 'w \<times> engine_error option" where
  "reconcile_labels_on eh name cfg want =
     (let have_l = labels_of cfg in
      andthen (each (\<lambda>k. act (eh_set_config eh name (label_key k) (at_key want k)) (HConfig (label_key k)))
                 (filter (\<lambda>k. map_of have_l k = None \<or> map_of have_l k \<noteq> map_of want k) (sorted_keys want)))
        (each (\<lambda>k. act (eh_unset_config eh name (label_key k)) (HConfig (label_key k)))
           (filter (\<lambda>k. map_of want k = None) (sorted_keys have_l))))"

definition resize_limits :: "'w engine_host \<Rightarrow> string \<Rightarrow> smap \<Rightarrow> 'w \<Rightarrow> 'w \<times> engine_error option" where
  "resize_limits eh name limits w =
     (if \<not> valid_name name then (w, Some HBadName)
      else each (\<lambda>k. act (eh_set_config eh name k (at_key limits k)) (HConfig k)) (sorted_keys limits) w)"

subsection \<open>The environment\<close>

definition env_path :: "string \<Rightarrow> string" where "env_path unit = ''/etc/default/'' @ unit"

definition read_env_state :: "'w engine_host \<Rightarrow> string \<Rightarrow> string \<Rightarrow> smap \<Rightarrow> 'w \<Rightarrow> env_state option" where
  "read_env_state eh name unit declared w = (case eh_pull eh name (env_path unit) w of None \<Rightarrow> None
     | Some live \<Rightarrow> Some (diff_env (live \<noteq> None) (case live of None \<Rightarrow> [] | Some t \<Rightarrow> parse_env t) declared))"

text \<open>The result says whether the environment was changed.\<close>

definition ensure_env :: "'w engine_host \<Rightarrow> string \<Rightarrow> string \<Rightarrow> smap \<Rightarrow> 'w \<Rightarrow> 'w \<times> (engine_error + bool)" where
  "ensure_env eh name unit declared w =
     (if length declared = 0 then (w, Inr False)
      else case read_env_state eh name unit declared w of None \<Rightarrow> (w, Inl HUnreadable)
        | Some st \<Rightarrow>
            if es_found st \<and> \<not> es_differs st then (w, Inr False)
            else if \<not> valid_name name \<or> \<not> valid_name unit then (w, Inl HEnv)
            else case eh_push eh name (env_path unit) (render_env unit (es_merged st)) w of (w1, ok) \<Rightarrow> (w1, if ok then Inr True else Inl HEnv))"

definition set_environment :: "'w engine_host \<Rightarrow> string \<Rightarrow> smap \<Rightarrow> 'w \<Rightarrow> 'w \<times> engine_error option" where
  "set_environment eh name env w =
     (if \<not> valid_name name then (w, Some HBadName)
      else if length env = 0 then (w, None)
      else case find (\<lambda>k. \<not> env_key_ok k \<or> contains_any (at_key env k) [CHR 0x0A, CHR 0x0D]) (map fst env) of
        Some k \<Rightarrow> (w, Some (HEnvKey k))
      | None \<Rightarrow> act (eh_set_environment eh name env) HEnv w)"

definition ensure_oci_env :: "'w engine_host \<Rightarrow> string \<Rightarrow> instance_state \<Rightarrow> smap \<Rightarrow> 'w \<Rightarrow> 'w \<times> (engine_error + bool)" where
  "ensure_oci_env eh name st declared w =
     (let live = oci_live_env st in
      if \<not> snd (merge_env live declared) then (w, Inr False)
      else case set_environment eh name (filter (\<lambda>(k, v). map_of live k \<noteq> Some v) declared) w of
        (w1, Some e) \<Rightarrow> (w1, Inl e) | (w1, None) \<Rightarrow> (w1, Inr True))"

subsection \<open>Launching, deleting, health and hooks\<close>

definition launch_container :: "'w engine_host \<Rightarrow> string \<Rightarrow> string \<Rightarrow> string list \<Rightarrow> smap \<Rightarrow> 'w \<Rightarrow> 'w \<times> engine_error option" where
  "launch_container eh img name profiles cfg w =
     (if \<not> valid_name name then (w, Some HBadName)
      else andthen (each (\<lambda>p. act (eh_ensure_profile eh p) (HProfile p)) (filter (\<lambda>p. p \<noteq> ''default'') profiles))
        (act (eh_launch eh (launch_image img) name (launch_profiles profiles) cfg) HLaunch) w)"

definition container_exists :: "'w engine_host \<Rightarrow> string \<Rightarrow> 'w \<Rightarrow> bool" where
  "container_exists eh name w \<longleftrightarrow> eh_exists eh name w = Some True"

definition stop_and_delete :: "'w engine_host \<Rightarrow> string \<Rightarrow> 'w \<Rightarrow> 'w \<times> engine_error option" where
  "stop_and_delete eh name w =
     (if \<not> container_exists eh name w then (w, None)
      else case eh_delete eh name (eh_force_stop eh name w) of (w1, ok) \<Rightarrow>
        (w1, if \<not> ok \<and> container_exists eh name w1 then Some HDelete else None))"

text \<open>A failing \<open>incus list\<close> is taken for an instance that is gone: nothing is deleted, and success is reported.\<close>

lemma unreadable_is_gone: "eh_exists eh name w = None \<Longrightarrow> stop_and_delete eh name w = (w, None)"
  by (simp add: stop_and_delete_def container_exists_def)

definition health_code_ok :: "string \<Rightarrow> bool" where
  "health_code_ok code \<longleftrightarrow> trim_space code \<in> set [''200'', ''301'', ''302'', ''308'', ''404'']"

definition check_health :: "'w engine_host \<Rightarrow> health_check \<Rightarrow> string \<Rightarrow> 'w \<Rightarrow> 'w \<times> engine_error option" where
  "check_health eh hc ip w = (w, if hk_path hc = [] \<or> eh_healthy eh ip hc w then None else Some HUnhealthy)"

definition hook_script :: "(string \<Rightarrow> string option) \<Rightarrow> string \<Rightarrow> string \<Rightarrow> string" where
  "hook_script read svc hook =
     (if relative_inside hook then
        case read (''services/'' @ svc @ ''/'' @ hook) of Some t \<Rightarrow> t
        | None \<Rightarrow> (case read hook of Some t \<Rightarrow> t | None \<Rightarrow> hook)
      else hook)"

end
