(* ===== verification/Deploy.thy ===== *)
theory Deploy
  imports Engine_Host
begin

text \<open>
  Planning and deploying one service (\<open>PlanService\<close> of \<open>pkg/engine/plan.go\<close>, \<open>DeployService\<close> of \<open>deployer.go\<close>).

  \<^item> A change of a plan is its kind with the values its wording prints; environment values are never among them.
  \<^item> \<open>surroundings\<close> is what a deployer knows beside the host: the secrets, the files of the configuration directory, the
    fleet's snapshot default, and the keyed digest of a manifest (\<open>bindOf\<close>; empty without a key).
\<close>

subsection \<open>Services\<close>

record service_hooks =
  hk_pre_deploy :: string
  hk_container_init :: string
  hk_post_deploy :: string

record service = service_config +
  sv_health :: health_check
  sv_routing :: "routing option"
  sv_hooks :: service_hooks

record surroundings =
  su_secret :: "string \<Rightarrow> string option"
  su_file :: "string \<Rightarrow> string option"
  su_snapshots :: "snapshot_policy option"
  su_bind :: "service \<Rightarrow> string"

definition edge_name :: string where "edge_name = ''edge''"

definition unit_of :: "service \<Rightarrow> string" where "unit_of svc = (if sv_service svc \<noteq> [] then sv_service svc else sv_name svc)"

definition profiles_of :: "service \<Rightarrow> string list" where
  "profiles_of svc = (if length (sv_profiles svc) = 0 then [''base'', ''service''] else sv_profiles svc)"

definition route_managed :: "service \<Rightarrow> bool" where
  "route_managed svc \<longleftrightarrow> (case sv_routing svc of None \<Rightarrow> False | Some r \<Rightarrow> \<not> rt_external r \<and> rt_domain r \<noteq> [])"

definition hooks_of :: "service \<Rightarrow> string list" where
  "hooks_of svc = (let h = sv_hooks svc in
     (if hk_pre_deploy h \<noteq> [] then [''pre_deploy''] else []) @ (if hk_container_init h \<noteq> [] then [''container_init''] else [])
     @ (if hk_post_deploy h \<noteq> [] then [''post_deploy''] else []))"

definition env_of :: "surroundings \<Rightarrow> service \<Rightarrow> smap \<times> string list" where
  "env_of su svc = declared_env (su_secret su) (if sv_env_file svc = [] then None else su_file su (sv_env_file svc)) (service_config.truncate svc)"

definition labels_want :: "service \<Rightarrow> smap" where
  "labels_want svc = (case sv_labels svc of None \<Rightarrow> [] | Some l \<Rightarrow> l)"

subsection \<open>Plans of a service\<close>

datatype plan_kind =
    CreateInstance | ReplaceImage | AdoptImage | CreateVolume | AttachVolume | SetLimits | SetLabels | SetEnv | RestartUnit
  | PublishRoute | UpdateRoute | BaseCaddyfile | RunHook | PublishPort | RemovePort | SetSnapshots

type_synonym plan_change = "plan_kind \<times> string list"

datatype plan_action = ActionNone | ActionCreate | ActionUpdate | ActionBlocked | ActionSkipped

datatype plan_blocker = BlockedSecrets "string list" | BlockedForward forward_error | BlockedDrift drift_error | BlockedVolume string string string smap
  | BlockedAddress | BlockedEdge string | BlockedRoute edge_error

datatype plan_note = ImageUnidentified | ProfilesDiffer "string list" "string list" | EdgeFirst

record service_plan =
  pl_service :: string
  pl_action :: plan_action
  pl_changes :: "plan_change list"
  pl_notes :: "plan_note list"
  pl_blockers :: "plan_blocker list"
  pl_host :: string
  pl_bind :: string

text \<open>What a part of planning adds: changes, blockers and notes; or the host could not be read.\<close>

type_synonym plan_part = "engine_error + (plan_change list \<times> plan_blocker list \<times> plan_note list)"

definition add_part :: "plan_part \<Rightarrow> plan_part \<Rightarrow> plan_part" where
  "add_part a b = (case a of Inl e \<Rightarrow> Inl e | Inr (c1, b1, n1) \<Rightarrow> (case b of Inl e \<Rightarrow> Inl e | Inr (c2, b2, n2) \<Rightarrow> Inr (c1 @ c2, b1 @ b2, n1 @ n2)))"

fun all_parts :: "plan_part list \<Rightarrow> plan_part" where
  "all_parts [] = Inr ([], [], [])"
| "all_parts (p # ps) = add_part p (all_parts ps)"

definition changes :: "plan_change list \<Rightarrow> plan_part" where "changes cs = Inr (cs, [], [])"
definition blocked :: "plan_blocker \<Rightarrow> plan_part" where "blocked b = Inr ([], [b], [])"
definition noted :: "plan_note \<Rightarrow> plan_part" where "noted n = Inr ([], [], [n])"

definition finish_action :: "bool \<Rightarrow> plan_change list \<Rightarrow> plan_blocker list \<Rightarrow> plan_action" where
  "finish_action exists cs bs =
     (if length bs > 0 then ActionBlocked else if \<not> exists then ActionCreate else if length cs > 0 then ActionUpdate else ActionNone)"

definition plan_volume_snapshots :: "'w engine_host \<Rightarrow> surroundings \<Rightarrow> service \<Rightarrow> 'w \<Rightarrow> plan_part" where
  "plan_volume_snapshots eh su svc w = all_parts (map (\<lambda>v.
     case snapshot_policy_for v (su_snapshots su) of None \<Rightarrow> changes []
     | Some pol \<Rightarrow> (case volume_config_of eh (vm_pool v) (vm_name v) w of None \<Rightarrow> Inl HUnreadable
         | Some c \<Rightarrow> let live = (case c of None \<Rightarrow> [] | Some l \<Rightarrow> l); drift = volume_snapshot_drift live (Some pol) in
             changes (if length drift > 0 then [(SetSnapshots, vm_name v # concat (map (\<lambda>(k, x). [k, or_none (at_key live k), or_none x]) drift))] else [])))
     (sv_volumes svc))"

definition plan_forwards :: "instance_state \<Rightarrow> port_forward list \<Rightarrow> plan_part" where
  "plan_forwards st fs = (case forwards_drift st fs of Inl e \<Rightarrow> blocked (BlockedDrift e)
     | Inr (cs, record) \<Rightarrow>
         changes (map (\<lambda>c. case c of Publish n props \<Rightarrow> (PublishPort, [n, at_key props ''listen'', at_key props ''connect'']
                                @ (case map_of (is_devices st) n of None \<Rightarrow> [] | Some d \<Rightarrow> [or_none (at_key d ''listen''), or_none (at_key d ''connect'')]))
                            | Unpublish n \<Rightarrow> (RemovePort, [n, or_none (case map_of (is_devices st) n of None \<Rightarrow> [] | Some d \<Rightarrow> at_key d ''listen'')])
                            | Record v \<Rightarrow> (PublishPort, [v])) cs
           @ (if record \<noteq> None \<and> length cs = 0 then [(PublishPort, [or_none (the record)])] else [])))"

datatype route_mode = RouteFresh | RouteExisting | RouteReplacing

definition plan_route :: "'w engine_host \<Rightarrow> service \<Rightarrow> string list \<Rightarrow> route_mode \<Rightarrow> 'w \<Rightarrow> plan_part" where
  "plan_route eh svc ips mode w = (case sv_routing svc of None \<Rightarrow> changes []
     | Some r \<Rightarrow>
         if rt_external r \<or> rt_domain r = [] then changes []
         else if sv_name svc = edge_name \<and> mode = RouteFresh then noted EdgeFirst
         else if sv_name svc \<noteq> edge_name \<and> eh_exists eh edge_name w = None then Inl HUnreadable
         else if sv_name svc \<noteq> edge_name \<and> eh_exists eh edge_name w = Some False then blocked (BlockedEdge (rt_domain r))
         else if mode = RouteReplacing then changes [(UpdateRoute, [rt_domain r])]
         else case plan_site_for (eh_edge eh) (sv_name svc) r ips w of Inl e \<Rightarrow> blocked (BlockedRoute e)
           | Inr sp \<Rightarrow> changes ((if sp_creates_base sp then [(BaseCaddyfile, [])] else [])
               @ (case sp_change sp of SiteMatches \<Rightarrow> [] | SiteCreate \<Rightarrow> [(PublishRoute, [rt_domain r, sv_name svc, int_string (rt_port r)])]
                    | SiteUpdate \<Rightarrow> [(UpdateRoute, [rt_domain r, sv_name svc, int_string (rt_port r)])])))"

text \<open>The names of environment keys, never their values.\<close>

definition env_key_labels :: "service \<Rightarrow> string list \<Rightarrow> string list" where
  "env_key_labels svc = map (\<lambda>k. case map_of (sv_env_from svc) k of Some secret \<Rightarrow> k @ '' (from secret '' @ secret @ '')'' | None \<Rightarrow> k)"

definition env_change_detail :: "service \<Rightarrow> env_state \<Rightarrow> bool \<Rightarrow> string list" where
  "env_change_detail svc es missing =
     (if missing then [''the file does not exist yet''] else [])
     @ (if length (es_added es) > 0 then [''add '' @ join_with '', '' (env_key_labels svc (es_added es))] else [])
     @ (if length (es_changed es) > 0 then [''change '' @ join_with '', '' (env_key_labels svc (es_changed es))] else [])
     @ (if es_kept es > 0 then [dec_string (es_kept es) @ '' keys the manifest does not declare are kept''] else [])"

definition join_kv :: "smap \<Rightarrow> string" where
  "join_kv m = join_with '' '' (map (\<lambda>k. k @ ''='' @ at_key m k) (sorted_keys m))"

definition plan_fresh :: "'w engine_host \<Rightarrow> surroundings \<Rightarrow> service \<Rightarrow> string \<Rightarrow> 'w \<Rightarrow> plan_part" where
  "plan_fresh eh su svc ref w =
     (let (declared, missing) = env_of su svc;
          keys = sort (sorted_keys declared @ filter (\<lambda>k. map_of declared k = None) (sorted_keys (sv_env_from svc))) in
      all_parts
       ([changes [(CreateInstance, [sv_name svc, ref, join_with '','' (profiles_of svc), join_kv (sv_limits svc),
            if length (labels_want svc) > 0 then format_labels (labels_want svc) else []])]]
        @ map (\<lambda>v. case volume_exists eh (vm_pool v) (vm_name v) w of None \<Rightarrow> Inl HUnreadable
            | Some True \<Rightarrow> changes [(AttachVolume, [vm_name v, vm_path v, ''existing''])]
            | Some False \<Rightarrow> changes [(CreateVolume, [vm_name v, service_pool (vm_pool v)]), (AttachVolume, [vm_name v, vm_path v])]) (sv_volumes svc)
        @ [plan_volume_snapshots eh su svc w,
           if missing \<noteq> [] then blocked (BlockedSecrets missing) else changes [],
           if length declared > 0 \<or> length (sv_env_from svc) > 0
           then changes [(SetEnv, (if oci_image_ref ref then ''environment.*'' else env_path (unit_of svc)) # env_key_labels svc keys)] else changes []]
        @ map (\<lambda>f. case device_props f of Inl e \<Rightarrow> blocked (BlockedForward e)
            | Inr props \<Rightarrow> changes [(PublishPort, [device_name f, at_key props ''listen'', at_key props ''connect''])]) (sv_forwards svc)
        @ [plan_route eh svc [] RouteFresh w, changes (map (\<lambda>h. (RunHook, [h])) (hooks_of svc))]))"

definition plan_image :: "service \<Rightarrow> instance_state \<Rightarrow> string \<Rightarrow> string \<Rightarrow> plan_part" where
  "plan_image svc st ref fp = (case image_decision st fp ref of
     ImageAdopt \<Rightarrow> changes [(AdoptImage, [ref, sv_name svc])]
   | ImageReplace \<Rightarrow> changes ((ReplaceImage, if fp \<noteq> [] then [sv_name svc, take 12 (is_base_image st), take 12 fp]
                                    else [sv_name svc, at_key (is_config st) image_key, ref]) # map (\<lambda>h. (RunHook, [h])) (hooks_of svc))
   | ImageUnknown \<Rightarrow> noted ImageUnidentified
   | ImageCurrent \<Rightarrow> changes [])"

definition plan_limits :: "service \<Rightarrow> instance_state \<Rightarrow> plan_part" where
  "plan_limits svc st = (let drift = limits_drift st (sv_limits svc) in
     changes (if length drift > 0 then [(SetLimits, concat (map (\<lambda>(k, v). [k, or_none (at_key (is_config st) k), v]) drift))] else []))"

definition plan_volume :: "'w engine_host \<Rightarrow> instance_state \<Rightarrow> volume_mount \<Rightarrow> 'w \<Rightarrow> plan_part" where
  "plan_volume eh st v w = (case volume_exists eh (vm_pool v) (vm_name v) w of None \<Rightarrow> Inl HUnreadable
     | Some there \<Rightarrow> add_part (changes (if \<not> there then [(CreateVolume, [vm_name v, service_pool (vm_pool v)])] else []))
         (case volume_attachment st (service_pool (vm_pool v)) (vm_name v) (vm_path v) of
            Attached \<Rightarrow> changes [] | Clash d \<Rightarrow> blocked (BlockedVolume (vm_name v) (vm_path v) d (case map_of (is_devices st) d of None \<Rightarrow> [] | Some ps \<Rightarrow> ps)) | Free \<Rightarrow> changes [(AttachVolume, [vm_name v, vm_path v])]))"

definition plan_env :: "'w engine_host \<Rightarrow> service \<Rightarrow> instance_state \<Rightarrow> string \<Rightarrow> smap \<Rightarrow> string list \<Rightarrow> 'w \<Rightarrow> plan_part" where
  "plan_env eh svc st ref declared missing w =
     (if \<not> (length declared > 0 \<and> missing = []) then changes []
      else if uses_oci_env (Some st) ref then
        let es = diff_env True (oci_live_env st) declared in
        changes (if es_differs es then [(SetEnv, ''environment.*'' # env_change_detail svc es False), (RestartUnit, [sv_name svc])] else [])
      else case read_env_state eh (sv_name svc) (unit_of svc) declared w of None \<Rightarrow> Inl HUnreadable
        | Some es \<Rightarrow> changes (if \<not> es_found es \<or> es_differs es
            then [(SetEnv, env_path (unit_of svc) # env_change_detail svc es (\<not> es_found es)), (RestartUnit, [unit_of svc])] else []))"

definition plan_address_and_route :: "'w engine_host \<Rightarrow> service \<Rightarrow> bool \<Rightarrow> 'w \<Rightarrow> plan_part" where
  "plan_address_and_route eh svc replace w =
     (let mode = (if replace then RouteReplacing else RouteExisting) in
      if hk_path (sv_health svc) \<noteq> [] \<or> route_managed svc then
        (case eh_ips eh (sv_name svc) w of None \<Rightarrow> Inl HUnreadable
         | Some ips \<Rightarrow> if length ips = 0 \<and> \<not> replace then blocked BlockedAddress else plan_route eh svc ips mode w)
      else plan_route eh svc [] mode w)"

definition plan_converge :: "'w engine_host \<Rightarrow> surroundings \<Rightarrow> service \<Rightarrow> string \<Rightarrow> string \<Rightarrow> 'w \<Rightarrow> plan_part" where
  "plan_converge eh su svc ref fp w = (case eh_state eh (sv_name svc) w of None \<Rightarrow> Inl HUnreadable
     | Some st \<Rightarrow>
         let replace = (image_decision st fp ref = ImageReplace); (declared, missing) = env_of su svc in
         all_parts
          ([plan_image svc st ref fp,
            changes (if length (labels_drift (is_config st) (sv_labels svc)) > 0 then [(SetLabels, labels_drift (is_config st) (sv_labels svc))] else []),
            plan_forwards st (sv_forwards svc),
            if missing \<noteq> [] then blocked (BlockedSecrets missing) else changes []]
           @ (if replace then [] else plan_limits svc st # map (\<lambda>v. plan_volume eh st v w) (sv_volumes svc))
           @ [plan_volume_snapshots eh su svc w, plan_env eh svc st ref declared missing w,
              if same_profiles (is_profiles st) (profiles_of svc) then changes [] else noted (ProfilesDiffer (is_profiles st) (profiles_of svc)),
              plan_address_and_route eh svc replace w]))"

definition plan_service :: "'w engine_host \<Rightarrow> surroundings \<Rightarrow> service \<Rightarrow> 'w \<Rightarrow> engine_error + service_plan" where
  "plan_service eh su svc w =
     (if \<not> valid_name (sv_name svc) then Inl HBadName
      else let (ref, fp) = resolve_service_image (\<lambda>a. eh_alias eh a w) (sv_image svc) in
      case eh_exists eh (sv_name svc) w of None \<Rightarrow> Inl HUnreadable
      | Some exists \<Rightarrow> (case (if exists then plan_converge eh su svc ref fp w else plan_fresh eh su svc ref w) of Inl e \<Rightarrow> Inl e
          | Inr (cs, bs, ns) \<Rightarrow> Inr \<lparr>pl_service = sv_name svc, pl_action = finish_action exists cs bs, pl_changes = cs, pl_notes = ns, pl_blockers = bs,
              pl_host = [], pl_bind = su_bind su svc\<rparr>))"

subsection \<open>Deploying a service\<close>

definition run_hook :: "'w engine_host \<Rightarrow> surroundings \<Rightarrow> service \<Rightarrow> string \<Rightarrow> 'w \<Rightarrow> 'w \<times> engine_error option" where
  "run_hook eh su svc hook = only_if (hook \<noteq> []) (act (eh_host_script eh (hook_script (su_file su) (sv_name svc) hook)) (HHook hook))"

definition run_container_hook :: "'w engine_host \<Rightarrow> surroundings \<Rightarrow> service \<Rightarrow> string \<Rightarrow> 'w \<Rightarrow> 'w \<times> engine_error option" where
  "run_container_hook eh su svc hook = only_if (hook \<noteq> []) (act (eh_container_script eh (sv_name svc) (hook_script (su_file su) (sv_name svc) hook)) (HHook hook))"

text \<open>A failed restart is only reported when nothing was known of the instance's state (\<open>st\<close> is None).\<close>

definition apply_env :: "'w engine_host \<Rightarrow> service \<Rightarrow> string \<Rightarrow> instance_state option \<Rightarrow> smap \<Rightarrow> 'w \<Rightarrow> 'w \<times> engine_error option" where
  "apply_env eh svc ref st declared w =
     (if length declared = 0 then (w, None)
      else if uses_oci_env st ref then
        (case (case st of None \<Rightarrow> eh_state eh (sv_name svc) w | Some s \<Rightarrow> Some s) of None \<Rightarrow> (w, Some HUnreadable)
         | Some s \<Rightarrow> (case ensure_oci_env eh (sv_name svc) s declared w of (w1, Inl e) \<Rightarrow> (w1, Some e)
             | (w1, Inr changed) \<Rightarrow> only_if changed (act (eh_restart eh (sv_name svc)) HRestart) w1))
      else (case ensure_env eh (sv_name svc) (unit_of svc) declared w of (w1, Inl e) \<Rightarrow> (w1, Some e)
             | (w1, Inr changed) \<Rightarrow>
                 if \<not> changed then (w1, None)
                 else case act (eh_restart_service eh (sv_name svc) (unit_of svc)) HRestart w1 of (w2, r) \<Rightarrow> (w2, if st = None then None else r)))"

definition mount_volume :: "'w engine_host \<Rightarrow> service \<Rightarrow> volume_mount \<Rightarrow> 'w \<Rightarrow> 'w \<times> engine_error option" where
  "mount_volume eh svc v = andthen (ensure_volume_attached eh (sv_name svc) (service_pool (vm_pool v)) (vm_name v) (vm_path v))
     (only_if (vm_owner v \<noteq> []) (ensure_path_owner eh (sv_name svc) (vm_path v) (vm_owner v)))"

definition ensure_volume_snapshots :: "'w engine_host \<Rightarrow> surroundings \<Rightarrow> service \<Rightarrow> 'w \<Rightarrow> 'w \<times> engine_error option" where
  "ensure_volume_snapshots eh su svc =
     each (\<lambda>v. ensure_snapshot_policy eh (vm_pool v) (vm_name v) (snapshot_policy_for v (su_snapshots su))) (sv_volumes svc)"

definition candidate_ips :: "'w engine_host \<Rightarrow> string \<Rightarrow> string \<Rightarrow> 'w \<Rightarrow> string list option" where
  "candidate_ips eh name preferred w = (case eh_ips eh name w of None \<Rightarrow> None
     | Some ips \<Rightarrow> Some (if preferred = [] then ips else preferred # filter (\<lambda>ip. ip \<noteq> preferred) ips))"

definition publish_route :: "'w engine_host \<Rightarrow> service \<Rightarrow> string \<Rightarrow> 'w \<Rightarrow> 'w \<times> engine_error option" where
  "publish_route eh svc preferred w =
     (if \<not> route_managed svc then (w, None)
      else case candidate_ips eh (sv_name svc) preferred w of None \<Rightarrow> (w, Some HUnreadable)
        | Some ips \<Rightarrow>
            if length ips = 0 then (w, Some HNoAddress)
            else case publish_site_for (eh_edge eh) (sv_name svc) (the (sv_routing svc)) ips w of (w1, r) \<Rightarrow> (w1, map_option HRoute r))"

definition fresh_edge :: "'w engine_host \<Rightarrow> surroundings \<Rightarrow> 'w \<Rightarrow> 'w \<times> engine_error option" where
  "fresh_edge eh su w = (case su_file su ''edge/Caddyfile'' of
     Some repo \<Rightarrow> (case sync_caddyfile (eh_edge eh) repo w of (w1, Inl e) \<Rightarrow> (w1, Some (HRoute e)) | (w1, Inr _) \<Rightarrow> (w1, None))
   | None \<Rightarrow> (case andthen (ensure_base_caddyfile (eh_edge eh)) (reload (eh_edge eh)) w of (w1, r) \<Rightarrow> (w1, map_option HRoute r)))"

definition apply_fresh_env :: "'w engine_host \<Rightarrow> surroundings \<Rightarrow> service \<Rightarrow> string \<Rightarrow> 'w \<Rightarrow> 'w \<times> engine_error option" where
  "apply_fresh_env eh su svc ref w = (case env_of su svc of (declared, missing) \<Rightarrow>
     if missing \<noteq> [] then (w, Some (HMissingSecrets missing)) else apply_env eh svc ref None declared w)"

definition check_and_publish :: "'w engine_host \<Rightarrow> surroundings \<Rightarrow> service \<Rightarrow> 'w \<Rightarrow> 'w \<times> engine_error option" where
  "check_and_publish eh su svc w = (case eh_wait_ip eh (sv_name svc) w of None \<Rightarrow> (w, Some HNoAddress)
     | Some ip \<Rightarrow> in_turn [only_if (sv_name svc = edge_name) (fresh_edge eh su), check_health eh (sv_health svc) ip, publish_route eh svc ip] w)"

definition launch_config :: "service \<Rightarrow> string \<Rightarrow> smap" where
  "launch_config svc ref = fold (\<lambda>(k, v). AList.update (label_key k) v) (labels_want svc) (AList.update image_key ref (sv_limits svc))"

definition deploy_fresh :: "'w engine_host \<Rightarrow> surroundings \<Rightarrow> service \<Rightarrow> string \<Rightarrow> 'w \<Rightarrow> 'w \<times> engine_error option" where
  "deploy_fresh eh su svc ref = in_turn
     [each (\<lambda>v. ensure_volume eh (vm_pool v) (vm_name v) (vm_shifted v)) (sv_volumes svc),
      ensure_volume_snapshots eh su svc,
      run_hook eh su svc (hk_pre_deploy (sv_hooks svc)),
      launch_container eh ref (sv_name svc) (profiles_of svc) (launch_config svc ref),
      each (mount_volume eh svc) (sv_volumes svc),
      ensure_forwards eh (sv_name svc) (sv_forwards svc),
      run_container_hook eh su svc (hk_container_init (sv_hooks svc)),
      apply_fresh_env eh su svc ref,
      check_and_publish eh su svc,
      run_hook eh su svc (hk_post_deploy (sv_hooks svc))]"

text \<open>\<open>update\<close> is \<open>InstanceManager.Update\<close> with the service's options, for the image to move to.\<close>

definition converge_in_place :: "'w engine_host \<Rightarrow> service \<Rightarrow> string \<Rightarrow> instance_state \<Rightarrow> smap \<Rightarrow> 'w \<Rightarrow> 'w \<times> engine_error option" where
  "converge_in_place eh svc ref st declared = in_turn
     [only_if (length (labels_drift (is_config st) (sv_labels svc)) > 0) (reconcile_labels_on eh (sv_name svc) (is_config st) (labels_want svc)),
      only_if (length (limits_drift st (sv_limits svc)) > 0) (resize_limits eh (sv_name svc) (limits_drift st (sv_limits svc))),
      each (\<lambda>v. andthen (ensure_volume eh (vm_pool v) (vm_name v) (vm_shifted v)) (mount_volume eh svc v)) (sv_volumes svc),
      apply_env eh svc ref (Some st) declared,
      only_if (hk_path (sv_health svc) \<noteq> []) (\<lambda>w. case eh_wait_ip eh (sv_name svc) w of None \<Rightarrow> (w, Some HNoAddress)
        | Some ip \<Rightarrow> check_health eh (sv_health svc) ip w)]"

definition converge_replacing :: "'w engine_host \<Rightarrow> surroundings \<Rightarrow> (string \<Rightarrow> 'w \<Rightarrow> 'w \<times> engine_error option) \<Rightarrow> service \<Rightarrow> string \<Rightarrow> instance_state \<Rightarrow> smap \<Rightarrow> 'w \<Rightarrow> 'w \<times> engine_error option" where
  "converge_replacing eh su update svc ref st declared = in_turn
     [run_hook eh su svc (hk_pre_deploy (sv_hooks svc)),
      update ref,
      only_if (length (labels_drift (is_config st) (sv_labels svc)) > 0) (reconcile_labels_on eh (sv_name svc) (is_config st) (labels_want svc)),
      apply_env eh svc ref None declared]"

definition converge_service ::
  "'w engine_host \<Rightarrow> surroundings \<Rightarrow> (string \<Rightarrow> 'w \<Rightarrow> 'w \<times> engine_error option) \<Rightarrow> service \<Rightarrow> string \<Rightarrow> string \<Rightarrow> 'w \<Rightarrow> 'w \<times> engine_error option" where
  "converge_service eh su update svc ref fp w = (case eh_state eh (sv_name svc) w of None \<Rightarrow> (w, Some HUnreadable)
     | Some st \<Rightarrow>
         let verdict = image_decision st fp ref; (declared, missing) = env_of su svc in
         in_turn
           [only_if (verdict = ImageAdopt) (act (eh_set_config eh (sv_name svc) image_key ref) (HConfig image_key)),
            only_if (missing \<noteq> []) (fail (HMissingSecrets missing)),
            if verdict = ImageReplace then converge_replacing eh su update svc ref st declared else converge_in_place eh svc ref st declared,
            ensure_volume_snapshots eh su svc,
            ensure_forwards eh (sv_name svc) (sv_forwards svc),
            publish_route eh svc [],
            only_if (verdict = ImageReplace) (run_hook eh su svc (hk_post_deploy (sv_hooks svc)))] w)"

definition deploy_service ::
  "'w engine_host \<Rightarrow> surroundings \<Rightarrow> (service \<Rightarrow> string \<Rightarrow> 'w \<Rightarrow> 'w \<times> engine_error option) \<Rightarrow> service \<Rightarrow> 'w \<Rightarrow> 'w \<times> engine_error option" where
  "deploy_service eh su update svc w =
     (if \<not> valid_name (sv_name svc) then (w, Some HBadName)
      else let (ref, fp) = resolve_service_image (\<lambda>a. eh_alias eh a w) (sv_image svc) in
      case eh_exists eh (sv_name svc) w of None \<Rightarrow> (w, Some HUnreadable)
      | Some False \<Rightarrow> deploy_fresh eh su svc ref w
      | Some True \<Rightarrow> converge_service eh su (update svc) svc ref fp w)"

subsection \<open>A plan that shows nothing\<close>

text \<open>A part of a plan that adds no change and no blocker.\<close>

definition quiet :: "plan_part \<Rightarrow> bool" where "quiet p \<longleftrightarrow> (\<exists>ns. p = Inr ([], [], ns))"

lemma quiet_add [simp]: "quiet (add_part a b) \<longleftrightarrow> quiet a \<and> quiet b"
  by (auto simp: quiet_def add_part_def split: sum.splits prod.splits)

lemma quiet_all: "quiet (all_parts ps) \<longleftrightarrow> (\<forall>p \<in> set ps. quiet p)"
  by (induction ps) (simp_all add: quiet_def[of "Inr ([], [], [])"])

lemma quiet_changes [simp]: "quiet (changes cs) \<longleftrightarrow> cs = []"
  by (simp add: quiet_def changes_def)

lemma quiet_blocked [simp]: "\<not> quiet (blocked b)" "\<not> quiet (Inl e)"
  by (simp_all add: quiet_def blocked_def)

lemma quiet_noted [simp]: "quiet (noted n)"
  by (simp add: quiet_def noted_def)

lemma plan_service_none:
  assumes "plan_service eh su svc w = Inr p" "pl_action p = ActionNone"
  obtains ref fp where "valid_name (sv_name svc)" "resolve_service_image (\<lambda>a. eh_alias eh a w) (sv_image svc) = (ref, fp)"
    "eh_exists eh (sv_name svc) w = Some True" "quiet (plan_converge eh su svc ref fp w)"
  using assms unfolding plan_service_def finish_action_def quiet_def
  by (auto simp: Let_def split: if_splits option.splits sum.splits prod.splits)

lemma quiet_forwards:
  assumes "quiet (plan_forwards st fs)" shows "forwards_drift st fs = Inr ([], None)"
  using assms by (cases "forwards_drift st fs") (auto simp: plan_forwards_def split: sum.splits prod.splits if_splits)

lemma quiet_ensure_forwards: "eh_state eh n w = Some st \<Longrightarrow> forwards_drift st fs = Inr ([], None) \<Longrightarrow> ensure_forwards eh n fs w = (w, None)"
  by (simp add: ensure_forwards_def andthen_def skip_def)

lemma quiet_volume:
  assumes q: "quiet (plan_volume eh st v w)" and st: "eh_state eh n w = Some st"
  shows "ensure_volume eh (vm_pool v) (vm_name v) shifted w = (w, None)"
    and "ensure_volume_attached eh n (service_pool (vm_pool v)) (vm_name v) (vm_path v) w = (w, None)"
    and "volume_exists eh (vm_pool v) (vm_name v) w = Some True"
proof -
  from q have e: "volume_exists eh (vm_pool v) (vm_name v) w = Some True"
    and a: "volume_attachment st (service_pool (vm_pool v)) (vm_name v) (vm_path v) = Attached"
    by (auto simp: plan_volume_def split: option.splits attachment.splits if_splits)
  show "volume_exists eh (vm_pool v) (vm_name v) w = Some True" by (rule e)
  show "ensure_volume eh (vm_pool v) (vm_name v) shifted w = (w, None)"
    using e by (auto simp: volume_exists_def ensure_volume_def Let_def split: if_splits option.splits)
  have "service_pool (service_pool p) = service_pool p" for p by (simp add: service_pool_def)
  then show "ensure_volume_attached eh n (service_pool (vm_pool v)) (vm_name v) (vm_path v) w = (w, None)"
    using a st by (simp add: ensure_volume_attached_def)
qed

lemma quiet_snapshots:
  assumes "quiet (plan_volume_snapshots eh su svc w)" "\<forall>v \<in> set (sv_volumes svc). volume_exists eh (vm_pool v) (vm_name v) w = Some True"
  shows "ensure_volume_snapshots eh su svc w = (w, None)"
  unfolding ensure_volume_snapshots_def
proof (rule each_same, rule ballI)
  fix v assume v: "v \<in> set (sv_volumes svc)"
  have q: "quiet (case snapshot_policy_for v (su_snapshots su) of None \<Rightarrow> changes []
     | Some pol \<Rightarrow> (case volume_config_of eh (vm_pool v) (vm_name v) w of None \<Rightarrow> Inl HUnreadable
         | Some c \<Rightarrow> let live = (case c of None \<Rightarrow> [] | Some l \<Rightarrow> l); drift = volume_snapshot_drift live (Some pol) in
             changes (if length drift > 0 then [(SetSnapshots, vm_name v # concat (map (\<lambda>(k, x). [k, or_none (at_key live k), or_none x]) drift))] else [])))"
    using assms(1) v unfolding plan_volume_snapshots_def quiet_all by simp
  have e: "\<exists>c. volume_config_of eh (vm_pool v) (vm_name v) w = Some (Some c)"
    using assms(2) v by (auto simp: volume_exists_def volume_config_of_def Let_def split: if_splits option.splits)
  show "ensure_snapshot_policy eh (vm_pool v) (vm_name v) (snapshot_policy_for v (su_snapshots su)) w = (w, None)"
    using q e by (auto simp: ensure_snapshot_policy_def Let_def skip_def split: option.splits if_splits)
qed

lemma quiet_env:
  assumes q: "quiet (plan_env eh svc st ref declared [] w)"
  shows "apply_env eh svc ref (Some st) declared w = (w, None)"
proof (cases "length declared = 0")
  case True
  then show ?thesis by (simp add: apply_env_def)
next
  case False
  show ?thesis
  proof (cases "uses_oci_env (Some st) ref")
    case True
    have "\<not> snd (merge_env (oci_live_env st) declared)"
      using q False True by (auto simp: plan_env_def Let_def diff_env_def split: prod.splits if_splits)
    then show ?thesis using True by (simp add: apply_env_def ensure_oci_env_def)
  next
    case sys: False
    obtain es where es: "read_env_state eh (sv_name svc) (unit_of svc) declared w = Some es" "es_found es" "\<not> es_differs es"
      using q False sys by (auto simp: plan_env_def split: option.splits if_splits)
    then show ?thesis using sys by (simp add: apply_env_def ensure_env_def)
  qed
qed

lemma each_cong_inv:
  assumes "I w" and "\<And>x w. x \<in> set xs \<Longrightarrow> I w \<Longrightarrow> f x w = g x w" and "\<And>x w. x \<in> set xs \<Longrightarrow> I w \<Longrightarrow> I (fst (g x w))"
  shows "each f xs w = each g xs w \<and> I (fst (each g xs w))"
  using assms
proof (induction xs arbitrary: w)
  case (Cons x xs)
  have fg: "f x w = g x w" and i: "I (fst (g x w))" using Cons.prems by simp_all
  obtain w1 r where g: "g x w = (w1, r)" by (metis prod.exhaust)
  show ?case
  proof (cases r)
    case None
    then show ?thesis using Cons.IH[of w1] Cons.prems(2,3) fg i g by (simp add: andthen_def)
  qed (use fg i g in \<open>simp add: andthen_def\<close>)
qed (simp add: skip_def)

lemma quiet_route:
  assumes q: "quiet (plan_address_and_route eh svc False w)"
    and stock: "\<forall>c. em_pull (eh_edge eh) caddyfile_path w = Some (Some c) \<longrightarrow> \<not> is_stock_caddyfile c"
    and ip4: "\<forall>ips. eh_ips eh (sv_name svc) w = Some ips \<longrightarrow> list_all (\<lambda>s. parse_ip4 s \<noteq> None) ips"
  shows "publish_route eh svc [] w = (w, None)"
proof (cases "route_managed svc")
  case False
  then show ?thesis by (simp add: publish_route_def)
next
  case True
  then obtain r where r: "sv_routing svc = Some r" "\<not> (rt_external r \<or> rt_domain r = [])"
    by (auto simp: route_managed_def split: option.splits)
  obtain ips where ips: "eh_ips eh (sv_name svc) w = Some ips" "length ips \<noteq> 0" and pr: "quiet (plan_route eh svc ips RouteExisting w)"
    using q True by (auto simp: plan_address_and_route_def split: option.splits if_splits)
  from pr r obtain sp where sp: "plan_site_for (eh_edge eh) (sv_name svc) r ips w = Inr sp" "sp_change sp = SiteMatches" "\<not> sp_creates_base sp"
    by (auto simp: plan_route_def split: if_splits sum.splits site_change.splits)
  have "list_all (\<lambda>s. parse_ip4 s \<noteq> None) ips" using ip4 ips(1) by blast
  from site_published_already[OF this stock sp] show ?thesis
    using True ips r by (simp add: publish_route_def candidate_ips_def)
qed

text \<open>The mount points belong to the users the manifest names.\<close>

definition owners_settled :: "'w engine_host \<Rightarrow> service \<Rightarrow> 'w \<Rightarrow> bool" where
  "owners_settled eh svc w \<longleftrightarrow> (\<forall>v \<in> set (sv_volumes svc). vm_owner v \<noteq> [] \<longrightarrow>
     valid_user_name (vm_owner v) \<and> prefix ''/'' (vm_path v) \<and> CHR 0x00 \<notin> set (vm_path v)
     \<and> (\<exists>current. eh_owner eh (sv_name svc) (vm_path v) w = Some current \<and> trim_space current = vm_owner v))"

definition health_passes :: "'w engine_host \<Rightarrow> service \<Rightarrow> 'w \<Rightarrow> bool" where
  "health_passes eh svc w \<longleftrightarrow> hk_path (sv_health svc) = [] \<or> (\<exists>ip. eh_wait_ip eh (sv_name svc) w = Some ip \<and> eh_healthy eh ip (sv_health svc) w)"

text \<open>What planning and converging read of the host, bar who owns a mount point and the health check.\<close>

definition reads_same :: "'w engine_host \<Rightarrow> 'w \<Rightarrow> 'w \<Rightarrow> bool" where
  "reads_same eh w1 w \<longleftrightarrow>
     (\<forall>a. eh_alias eh a w1 = eh_alias eh a w) \<and> (\<forall>n. eh_exists eh n w1 = eh_exists eh n w) \<and> (\<forall>n. eh_state eh n w1 = eh_state eh n w)
   \<and> (\<forall>p v. eh_volume eh p v w1 = eh_volume eh p v w) \<and> (\<forall>n f. eh_pull eh n f w1 = eh_pull eh n f w) \<and> (\<forall>n. eh_ips eh n w1 = eh_ips eh n w)
   \<and> (\<forall>f. em_pull (eh_edge eh) f w1 = em_pull (eh_edge eh) f w) \<and> em_modules (eh_edge eh) w1 = em_modules (eh_edge eh) w"

text \<open>\<open>chown\<close> changes the owner of a path, and nothing that planning reads.\<close>

definition chown_documented :: "'w engine_host \<Rightarrow> bool" where
  "chown_documented eh \<longleftrightarrow> (\<forall>n p u w. reads_same eh (fst (eh_chown eh n p u w)) w)"

text \<open>Deploying sets the owners of the mount points, for the volumes whose manifest names one.\<close>

definition set_owners :: "'w engine_host \<Rightarrow> service \<Rightarrow> 'w \<Rightarrow> 'w \<times> engine_error option" where
  "set_owners eh svc = each (\<lambda>v. only_if (vm_owner v \<noteq> []) (ensure_path_owner eh (sv_name svc) (vm_path v) (vm_owner v))) (sv_volumes svc)"

lemma reads_same_refl [simp]: "reads_same eh w w"
  by (simp add: reads_same_def)

lemma reads_same_trans: "reads_same eh w2 w1 \<Longrightarrow> reads_same eh w1 w \<Longrightarrow> reads_same eh w2 w"
  by (simp add: reads_same_def)

lemma plan_same:
  assumes "reads_same eh w1 w"
  shows "plan_converge eh su svc ref fp w1 = plan_converge eh su svc ref fp w" and "plan_service eh su svc w1 = plan_service eh su svc w"
proof -
  have eqs: "eh_alias eh a w1 = eh_alias eh a w" "eh_exists eh n w1 = eh_exists eh n w" "eh_state eh n w1 = eh_state eh n w"
    "eh_volume eh p v w1 = eh_volume eh p v w" "eh_pull eh n q w1 = eh_pull eh n q w" "eh_ips eh n w1 = eh_ips eh n w"
    "em_pull (eh_edge eh) q w1 = em_pull (eh_edge eh) q w" "em_modules (eh_edge eh) w1 = em_modules (eh_edge eh) w" for a n p v q
    using assms by (simp_all add: reads_same_def)
  have s: "plan_base (eh_edge eh) w1 = plan_base (eh_edge eh) w" "check_edge_options (eh_edge eh) r w1 = check_edge_options (eh_edge eh) r w"
    "choose_upstream (eh_edge eh) n ips w1 = choose_upstream (eh_edge eh) n ips w" for r n ips
    unfolding plan_base_def check_edge_options_def choose_upstream_def eqs by (rule refl)+
  have site: "plan_site_for (eh_edge eh) n r ips w1 = plan_site_for (eh_edge eh) n r ips w" for n r ips
    unfolding plan_site_for_def s eqs ..
  have r: "plan_route eh svc ips m w1 = plan_route eh svc ips m w" for ips m
    unfolding plan_route_def site eqs ..
  have v: "volume_exists eh pl n w1 = volume_exists eh pl n w" "volume_config_of eh pl n w1 = volume_config_of eh pl n w" for pl n
    unfolding volume_exists_def volume_config_of_def eqs by (rule refl)+
  have e: "read_env_state eh n u d w1 = read_env_state eh n u d w" for n u d
    unfolding read_env_state_def eqs ..
  have parts: "plan_volume_snapshots eh su svc w1 = plan_volume_snapshots eh su svc w" "plan_volume eh st x w1 = plan_volume eh st x w"
    "plan_env eh svc st rf d ms w1 = plan_env eh svc st rf d ms w" "plan_address_and_route eh svc b w1 = plan_address_and_route eh svc b w" for st x rf d ms b
    unfolding plan_volume_snapshots_def plan_volume_def plan_env_def plan_address_and_route_def r v e eqs by (rule refl)+
  have c: "plan_converge eh su svc ref fp w1 = plan_converge eh su svc ref fp w" for ref fp
    unfolding plan_converge_def parts eqs ..
  have f: "plan_fresh eh su svc rf w1 = plan_fresh eh su svc rf w" for rf
    unfolding plan_fresh_def parts(1) r v ..
  show "plan_converge eh su svc ref fp w1 = plan_converge eh su svc ref fp w" by (rule c)
  show "plan_service eh su svc w1 = plan_service eh su svc w"
    unfolding plan_service_def c f eqs ..
qed

lemma owners_read_same:
  assumes "chown_documented eh"
  shows "reads_same eh (fst (only_if b (ensure_path_owner eh n path owner) w)) w"
  using assms by (auto simp: chown_documented_def only_if_def skip_def ensure_path_owner_def act_def split: option.splits prod.splits) (metis fst_conv)+

lemma owners_settled_same: "valid_name (sv_name svc) \<Longrightarrow> owners_settled eh svc w \<Longrightarrow> set_owners eh svc w = (w, None)"
  unfolding set_owners_def by (rule each_same) (auto simp: owners_settled_def ensure_path_owner_def only_if_def skip_def)

lemma quiet_converge:
  assumes q0: "quiet (plan_converge eh su svc ref fp w)" and chown: "chown_documented eh"
    and stock: "\<forall>c. em_pull (eh_edge eh) caddyfile_path w = Some (Some c) \<longrightarrow> \<not> is_stock_caddyfile c"
    and ip4: "\<forall>ips. eh_ips eh (sv_name svc) w = Some ips \<longrightarrow> list_all (\<lambda>s. parse_ip4 s \<noteq> None) ips"
  shows "case set_owners eh svc w of (w1, r) \<Rightarrow> fst (converge_service eh su update svc ref fp w) = w1
     \<and> (r \<noteq> None \<longrightarrow> snd (converge_service eh su update svc ref fp w) = r)
     \<and> (r = None \<and> health_passes eh svc w1 \<longrightarrow> snd (converge_service eh su update svc ref fp w) = None)"
proof -
  obtain st where st0: "eh_state eh (sv_name svc) w = Some st" using q0 by (auto simp: plan_converge_def split: option.splits)
  obtain declared missing where env: "env_of su svc = (declared, missing)" by (metis prod.exhaust)
  have q: "quiet (plan_converge eh su svc ref fp x)" and st: "eh_state eh (sv_name svc) x = Some st" if "reads_same eh x w" for x
    using q0 st0 plan_same(1)[OF that] that by (simp_all add: reads_same_def)
  have parts: "quiet (plan_image svc st ref fp)" "labels_drift (is_config st) (sv_labels svc) = []" "quiet (plan_forwards st (sv_forwards svc))" "missing = []"
    using q0 by (auto simp: plan_converge_def st0 env Let_def quiet_all split: if_splits)
  have snaps: "quiet (plan_volume_snapshots eh su svc x)" and envq: "quiet (plan_env eh svc st ref declared missing x)" if "reads_same eh x w" for x
    using q[OF that] by (auto simp: plan_converge_def st[OF that] env Let_def quiet_all split: if_splits)
  have verdict: "image_decision st fp ref \<noteq> ImageReplace \<and> image_decision st fp ref \<noteq> ImageAdopt"
    using parts(1) by (auto simp: plan_image_def split: image_verdict.splits)
  have volq: "\<forall>v \<in> set (sv_volumes svc). quiet (plan_volume eh st v x)" and addr: "quiet (plan_address_and_route eh svc False x)"
    and lim: "quiet (plan_limits svc st)" if "reads_same eh x w" for x
    using q[OF that] verdict by (auto simp: plan_converge_def st[OF that] env Let_def quiet_all)
  have limits: "limits_drift st (sv_limits svc) = []" using lim[OF reads_same_refl] by (auto simp: plan_limits_def Let_def split: if_splits)
  define vol where "vol = each (\<lambda>v. andthen (ensure_volume eh (vm_pool v) (vm_name v) (vm_shifted v)) (mount_volume eh svc v)) (sv_volumes svc)"
  have step: "andthen (ensure_volume eh (vm_pool v) (vm_name v) (vm_shifted v)) (mount_volume eh svc v) x
      = only_if (vm_owner v \<noteq> []) (ensure_path_owner eh (sv_name svc) (vm_path v) (vm_owner v)) x" if "v \<in> set (sv_volumes svc)" "reads_same eh x w" for v x
    using quiet_volume[OF volq[OF that(2), rule_format, OF that(1)] st[OF that(2)]] by (simp add: andthen_same mount_volume_def)
  have owned: "vol w = set_owners eh svc w \<and> reads_same eh (fst (set_owners eh svc w)) w"
    unfolding vol_def set_owners_def
    by (rule each_cong_inv[where I = "\<lambda>x. reads_same eh x w"]) (auto simp: step intro: reads_same_trans[OF owners_read_same[OF chown]])
  obtain w1 r where so: "set_owners eh svc w = (w1, r)" by (metis prod.exhaust)
  have same: "reads_same eh w1 w" and vw: "vol w = (w1, r)" using owned so by simp_all
  define health where "health = only_if (hk_path (sv_health svc) \<noteq> []) (\<lambda>w. case eh_wait_ip eh (sv_name svc) w of None \<Rightarrow> (w, Some HNoAddress)
        | Some ip \<Rightarrow> check_health eh (sv_health svc) ip w)"
  have h: "fst (health w1) = w1" "health_passes eh svc w1 \<Longrightarrow> health w1 = (w1, None)"
    by (auto simp: health_def only_if_def skip_def check_health_def health_passes_def split: option.splits)
  have env_same: "apply_env eh svc ref (Some st) declared w1 = (w1, None)" by (rule quiet_env) (use parts(4) envq[OF same] in simp)
  have place: "converge_in_place eh svc ref st declared w = (case r of None \<Rightarrow> health w1 | Some e \<Rightarrow> (w1, Some e))"
    using parts(2) limits env_same vw
    by (simp add: converge_in_place_def vol_def[symmetric] health_def[symmetric] andthen_def skip_def split: option.splits prod.splits)
  have exist: "\<forall>v \<in> set (sv_volumes svc). volume_exists eh (vm_pool v) (vm_name v) w1 = Some True"
    using volq[OF same] quiet_volume(3)[OF _ st[OF same]] by blast
  have stock1: "\<forall>c. em_pull (eh_edge eh) caddyfile_path w1 = Some (Some c) \<longrightarrow> \<not> is_stock_caddyfile c"
    and ip41: "\<forall>ips. eh_ips eh (sv_name svc) w1 = Some ips \<longrightarrow> list_all (\<lambda>s. parse_ip4 s \<noteq> None) ips"
    using stock ip4 same by (simp_all add: reads_same_def)
  have rest: "ensure_volume_snapshots eh su svc w1 = (w1, None)" "ensure_forwards eh (sv_name svc) (sv_forwards svc) w1 = (w1, None)"
    "publish_route eh svc [] w1 = (w1, None)"
    using quiet_snapshots[OF snaps[OF same] exist] quiet_ensure_forwards[OF st[OF same] quiet_forwards[OF parts(3)]] quiet_route[OF addr[OF same] stock1 ip41]
    by simp_all
  obtain x e where hx: "health w1 = (x, e)" "x = w1" using h(1) by (metis prod.collapse)
  have conv: "converge_service eh su update svc ref fp w = (case r of None \<Rightarrow> (w1, e) | Some y \<Rightarrow> (w1, Some y))"
    using verdict parts(4) place rest hx by (cases r; cases e) (simp_all add: converge_service_def st0 env Let_def andthen_def skip_def)
  show ?thesis using conv h(2) hx by (cases r) (auto simp: so)
qed


subsection \<open>A small host\<close>

text \<open>Images with a fingerprint are OCI images here; \<open>hook_ok\<close> says whether a script in an instance succeeds.\<close>

record toy_host = toy_edge +
  ty_insts :: "string \<Rightarrow> instance_state option"
  ty_owner :: string

definition on_inst :: "string \<Rightarrow> (instance_state \<Rightarrow> instance_state) \<Rightarrow> toy_host \<Rightarrow> toy_host \<times> bool" where
  "on_inst n f w = (case ty_insts w n of None \<Rightarrow> (w, False) | Some st \<Rightarrow> (w\<lparr>ty_insts := (ty_insts w)(n \<mapsto> f st)\<rparr>, True))"

definition small_host :: "bool \<Rightarrow> toy_host engine_host" where
  "small_host hook_ok =
     \<lparr>eh_edge = small_edge,
      eh_alias = (\<lambda>a w. if a = ''app'' then Some (replicate 64 CHR ''a'') else None),
      eh_exists = (\<lambda>n w. Some (n = edge_name \<or> ty_insts w n \<noteq> None)),
      eh_state = (\<lambda>n w. ty_insts w n),
      eh_volume = (\<lambda>p v w. Some (map_option (\<lambda>_. []) (te_files w (p @ ''/'' @ v)))),
      eh_pull = (\<lambda>n p w. Some (te_files w (n @ p))),
      eh_ips = (\<lambda>n w. Some [''10.0.0.7'']),
      eh_owner = (\<lambda>n p w. Some (ty_owner w)),
      eh_wait_ip = (\<lambda>n w. Some ''10.0.0.7''),
      eh_healthy = (\<lambda>ip hc w. True),
      eh_chown = (\<lambda>n p u w. (w\<lparr>ty_owner := u\<rparr>, True)),
      eh_create_volume = (\<lambda>p v s w. (w\<lparr>te_files := (te_files w)(p @ ''/'' @ v \<mapsto> [])\<rparr>, True)),
      eh_volume_key = (\<lambda>p v k x w. (w, False)),
      eh_snapshot = (\<lambda>p v s w. (w\<lparr>te_files := (te_files w)(p @ ''/'' @ v @ ''/'' @ s := te_files w (p @ ''/'' @ v))\<rparr>, True)),
      eh_set_device = (\<lambda>n d ps. on_inst n (\<lambda>st. st\<lparr>is_devices := AList.update d ps (is_devices st)\<rparr>)),
      eh_remove_device = (\<lambda>n d. on_inst n (\<lambda>st. st\<lparr>is_devices := AList.delete d (is_devices st)\<rparr>)),
      eh_set_config = (\<lambda>n k v. on_inst n (\<lambda>st. st\<lparr>is_config := AList.update k v (is_config st)\<rparr>)),
      eh_unset_config = (\<lambda>n k. on_inst n (\<lambda>st. st\<lparr>is_config := AList.delete k (is_config st)\<rparr>)),
      eh_push = (\<lambda>n p c w. (w\<lparr>te_files := (te_files w)(n @ p \<mapsto> c)\<rparr>, True)),
      eh_set_environment = (\<lambda>n env. on_inst n (\<lambda>st. st\<lparr>is_config := fold (\<lambda>(k, v). AList.update (''environment.'' @ k) v) env (is_config st)\<rparr>)),
      eh_restart = (\<lambda>n w. (w, True)),
      eh_restart_service = (\<lambda>n u w. (w, True)),
      eh_ensure_profile = (\<lambda>p w. (w, True)),
      eh_launch = (\<lambda>img n ps cfg w. (w\<lparr>ty_insts := (ty_insts w)(n \<mapsto> \<lparr>is_name = n, is_profiles = ps, is_config = cfg, is_devices = [],
         is_base_image = (if hash_ok img then img else []), is_oci = hash_ok img\<rparr>)\<rparr>, True)),
      eh_force_stop = (\<lambda>n w. w),
      eh_delete = (\<lambda>n w. (w\<lparr>ty_insts := (ty_insts w)(n := None)\<rparr>, True)),
      eh_delete_volume = (\<lambda>p v w. (w\<lparr>te_files := (te_files w)(p @ ''/'' @ v := None)\<rparr>, True)),
      eh_host_script = (\<lambda>t w. (w, True)),
      eh_container_script = (\<lambda>n t w. (w, hook_ok))\<rparr>"

definition empty_host :: toy_host where
  "empty_host = \<lparr>te_files = Map.empty, te_served = Map.empty, te_stuck = False, ty_insts = Map.empty, ty_owner = ''root''\<rparr>"

definition git_service :: service where
  "git_service = \<lparr>sv_name = ''git'', sv_image = ''docker:gitea/gitea:1'', sv_build_dir = [], sv_profiles = [],
     sv_volumes = [\<lparr>vm_name = ''git-data'', vm_path = ''/data'', vm_pool = [], vm_shifted = True, vm_read_only = False, vm_owner = ''git'', vm_snapshots = None\<rparr>],
     sv_env = [(''A'', ''1'')], sv_env_file = [], sv_env_from = [], sv_service = [], sv_limits = [(''limits.cpu'', ''2'')], sv_forwards = git_ports,
     sv_labels = None, sv_host = [], sv_health = no_health, sv_routing = Some (app_route []),
     sv_hooks = \<lparr>hk_pre_deploy = [], hk_container_init = ''set up'', hk_post_deploy = []\<rparr>\<rparr>"

definition no_files :: surroundings where
  "no_files = \<lparr>su_secret = (\<lambda>_. None), su_file = (\<lambda>_. None), su_snapshots = None, su_bind = (\<lambda>_. [])\<rparr>"

abbreviation never_update :: "service \<Rightarrow> string \<Rightarrow> toy_host \<Rightarrow> toy_host \<times> engine_error option" where
  "never_update svc ref \<equiv> fail HDelete"

definition git_host :: toy_host where
  "git_host = fst (deploy_service (small_host True) no_files never_update git_service empty_host)"

text \<open>The first deployment of the service, and the plan after it.\<close>

lemma git_deployed:
  "case deploy_service (small_host True) no_files never_update git_service empty_host of (w1, r) \<Rightarrow>
      r = None \<and> ty_insts w1 ''git'' \<noteq> None \<and> te_served w1 (site_path ''git'') \<noteq> None
    \<and> ty_owner w1 = ''git'' \<and> te_files w1 caddyfile_path = Some (base_caddyfile [])
    \<and> (case plan_service (small_host True) no_files git_service w1 of Inl _ \<Rightarrow> False | Inr p \<Rightarrow> pl_action p = ActionNone)"
  by code_simp


subsection \<open>Where the plan and the apply part\<close>

text \<open>Who owns a mount point is converged by deploying and not looked at by planning.\<close>

lemma owner_not_planned:
  "plan_service (eh\<lparr>eh_owner := f\<rparr>) su svc w = plan_service eh su svc w"
  "eh_owner eh n path w = Some ''root'' \<Longrightarrow> valid_name n \<and> valid_user_name ''git'' \<and> prefix ''/'' path \<and> CHR 0x00 \<notin> set path \<Longrightarrow>
     ensure_path_owner eh n path ''git'' w = act (eh_chown eh n path ''git'') (HOwner ''git'') w"
proof -
  let ?eh = "eh\<lparr>eh_owner := f\<rparr>"
  have same: "eh_alias ?eh = eh_alias eh" "eh_exists ?eh = eh_exists eh" "eh_state ?eh = eh_state eh" "eh_volume ?eh = eh_volume eh"
    "eh_pull ?eh = eh_pull eh" "eh_ips ?eh = eh_ips eh" "eh_edge ?eh = eh_edge eh" by simp_all
  show "plan_service (eh\<lparr>eh_owner := f\<rparr>) su svc w = plan_service eh su svc w"
    unfolding plan_service_def plan_converge_def plan_fresh_def plan_volume_def volume_exists_def plan_volume_snapshots_def
      volume_config_of_def plan_env_def read_env_state_def plan_address_and_route_def plan_route_def same ..
  have "trim_space ''root'' \<noteq> ''git''" by code_simp
  then show "eh_owner eh n path w = Some ''root'' \<Longrightarrow> valid_name n \<and> valid_user_name ''git'' \<and> prefix ''/'' path \<and> CHR 0x00 \<notin> set path \<Longrightarrow>
     ensure_path_owner eh n path ''git'' w = act (eh_chown eh n path ''git'') (HOwner ''git'') w"
    by (simp add: ensure_path_owner_def)
qed

definition hooked_service :: service where
  "hooked_service = git_service\<lparr>sv_env := [], sv_volumes := [], sv_routing := None\<rparr>"

text \<open>Three deployments that go wrong, evaluated at once.\<close>

lemma demo_deployments:
  "(let (w1, r) = deploy_service (small_host False) no_files never_update hooked_service empty_host in
     r = Some (HHook ''set up'')
   \<and> (case plan_service (small_host False) no_files hooked_service w1 of Inl _ \<Rightarrow> False | Inr p \<Rightarrow> pl_action p = ActionNone)
   \<and> snd (deploy_service (small_host False) no_files never_update hooked_service w1) = None)
  \<and> (let svc = hooked_service\<lparr>sv_forwards := git_ports @ git_ports\<rparr> in
     (case plan_service (small_host True) no_files svc empty_host of Inl _ \<Rightarrow> False | Inr p \<Rightarrow> pl_action p = ActionCreate)
   \<and> snd (deploy_service (small_host True) no_files never_update svc empty_host) = Some (HForwards (TwoForwards ''ssh'')))
  \<and> (let svc = git_service\<lparr>sv_name := ''app'', sv_image := ''app'', sv_volumes := [], sv_routing := None\<rparr>;
       (w1, r) = deploy_service (small_host True) no_files never_update svc empty_host in
     r = None \<and> te_files w1 (''app'' @ env_path ''app'') \<noteq> None
   \<and> (case plan_service (small_host True) no_files svc w1 of Inl _ \<Rightarrow> False | Inr p \<Rightarrow> (SetEnv, [''environment.*'', ''add A'']) \<in> set (pl_changes p)))"
  by code_simp

text \<open>
  A first deployment that fails after the launch is not continued by the next one: the instance is there, so it is converged,
  and its \<open>container_init\<close> never runs.
\<close>

lemma interrupted_launch_not_continued:
  "let (w1, r) = deploy_service (small_host False) no_files never_update hooked_service empty_host in
     r = Some (HHook ''set up'')
   \<and> (case plan_service (small_host False) no_files hooked_service w1 of Inl _ \<Rightarrow> False | Inr p \<Rightarrow> pl_action p = ActionNone)
   \<and> snd (deploy_service (small_host False) no_files never_update hooked_service w1) = None"
  by (rule demo_deployments[THEN conjunct1])

text \<open>Two forwards of one name are refused by the plan of a running instance and by apply, and not by the plan of a new one.\<close>

lemma fresh_plan_misses_two_forwards:
  "let svc = hooked_service\<lparr>sv_forwards := git_ports @ git_ports\<rparr> in
     (case plan_service (small_host True) no_files svc empty_host of Inl _ \<Rightarrow> False | Inr p \<Rightarrow> pl_action p = ActionCreate)
   \<and> snd (deploy_service (small_host True) no_files never_update svc empty_host) = Some (HForwards (TwoForwards ''ssh''))"
  by (rule demo_deployments[THEN conjunct2, THEN conjunct1])

text \<open>
  The first deployment of a local OCI image writes the environment where no OCI container reads it, and succeeds; the plan
  after it wants the environment again.
\<close>

lemma local_oci_env_misplaced:
  "let svc = git_service\<lparr>sv_name := ''app'', sv_image := ''app'', sv_volumes := [], sv_routing := None\<rparr>;
       (w1, r) = deploy_service (small_host True) no_files never_update svc empty_host in
     r = None \<and> te_files w1 (''app'' @ env_path ''app'') \<noteq> None
   \<and> (case plan_service (small_host True) no_files svc w1 of Inl _ \<Rightarrow> False | Inr p \<Rightarrow> (SetEnv, [''environment.*'', ''add A'']) \<in> set (pl_changes p))"
  by (rule demo_deployments[THEN conjunct2, THEN conjunct2])

text \<open>
  A manifest that names a new image and, with it, new volumes or limits: the image is replaced, the volumes and limits are
  neither planned nor applied, and the deployment succeeds all the same.
\<close>

lemma no_snapshot_policies:
  assumes "su_snapshots su = None" and "\<forall>v \<in> set (sv_volumes svc). vm_snapshots v = None"
  shows "plan_volume_snapshots eh su svc w = changes []" and "ensure_volume_snapshots eh su svc w = (w, None)"
proof -
  have p: "v \<in> set (sv_volumes svc) \<Longrightarrow> snapshot_policy_for v (su_snapshots su) = None" for v
    using assms by (simp add: snapshot_policy_for_def)
  have "all_parts (map (\<lambda>_. changes []) vs) = changes []" for vs :: "volume_mount list"
    by (induction vs) (simp_all add: changes_def add_part_def)
  moreover have "plan_volume_snapshots eh su svc w = all_parts (map (\<lambda>_. changes []) (sv_volumes svc))"
    unfolding plan_volume_snapshots_def by (rule arg_cong[where f = all_parts], rule map_cong) (simp_all add: p)
  ultimately show "plan_volume_snapshots eh su svc w = changes []" by simp
  show "ensure_volume_snapshots eh su svc w = (w, None)"
    unfolding ensure_volume_snapshots_def by (rule each_same) (simp add: p ensure_snapshot_policy_def)
qed

lemma replacement_skips_volumes_and_limits:
  assumes "eh_state eh (sv_name svc) w = Some st" and "image_decision st fp ref = ImageReplace"
    and "su_snapshots su = None" and "\<forall>v \<in> set vs. vm_snapshots v = None" and "sv_volumes svc = []"
  shows "plan_converge eh su (svc\<lparr>sv_volumes := vs, sv_limits := ls\<rparr>) ref fp w = plan_converge eh su svc ref fp w"
    and "converge_replacing eh su u (svc\<lparr>sv_volumes := vs, sv_limits := ls\<rparr>) ref st declared = converge_replacing eh su u svc ref st declared"
proof -
  let ?svc = "svc\<lparr>sv_volumes := vs, sv_limits := ls\<rparr>"
  have "env_of su ?svc = env_of su svc"
    by (simp add: env_of_def declared_env_def service_env_def missing_secrets_def service_config.defs)
  moreover have "plan_volume_snapshots eh su ?svc w = plan_volume_snapshots eh su svc w"
    using no_snapshot_policies(1)[OF assms(3), of ?svc eh w] no_snapshot_policies(1)[OF assms(3), of svc eh w] assms(4,5) by simp
  moreover have same: "unit_of ?svc = unit_of svc" "profiles_of ?svc = profiles_of svc" "route_managed ?svc = route_managed svc" "hooks_of ?svc = hooks_of svc"
    "env_change_detail ?svc = env_change_detail svc"
    by (simp_all add: unit_of_def profiles_of_def route_managed_def hooks_of_def env_change_detail_def env_key_labels_def fun_eq_iff)
  moreover have keep: "sv_name ?svc = sv_name svc" "sv_routing ?svc = sv_routing svc" "sv_health ?svc = sv_health svc" by simp_all
  moreover have "plan_image ?svc st ref fp = plan_image svc st ref fp" unfolding plan_image_def keep same ..
  moreover have "plan_env eh ?svc st ref d ms w = plan_env eh svc st ref d ms w" for d ms unfolding plan_env_def keep same ..
  moreover have "plan_address_and_route eh ?svc b w = plan_address_and_route eh svc b w" for b
    unfolding plan_address_and_route_def plan_route_def keep same ..
  moreover obtain d ms where "env_of su svc = (d, ms)" by (cases "env_of su svc")
  ultimately show "plan_converge eh su ?svc ref fp w = plan_converge eh su svc ref fp w"
    using assms(1,2) by (simp add: plan_converge_def)
  have "apply_env eh ?svc r s d x = apply_env eh svc r s d x" for r s d x
    unfolding apply_env_def keep same ..
  then have "apply_env eh ?svc = apply_env eh svc" by (intro ext)
  then show "converge_replacing eh su u ?svc ref st declared = converge_replacing eh su u svc ref st declared"
    by (simp add: converge_replacing_def run_hook_def labels_want_def)
qed

end
