(* ===== verification/Dns.thy ===== *)
theory Dns
  imports Deploy Fleet_Hosts Http
begin

text \<open>
  DNS records: bringing a zone to what is declared (\<open>PlanDNSSync\<close> of \<open>pkg/provider/dnssync.go\<close>), and which host's daemon
  writes which record (\<open>DNSRecordsByHost\<close> of \<open>pkg/config/dns.go\<close>).

  \<^item> A provider is what it lists; carrying out a plan (\<open>apply_dns\<close>) replaces the records named by their id and adds the new
    ones, as every \<open>SyncRecords\<close> does call by call.
  \<^item> Letters are folded as ASCII. IPv4 addresses are parsed here; the parser of IPv6 addresses, and their canonical
    spelling, is the parameter \<open>ip6\<close>.
\<close>

subsection \<open>Bringing a zone to what is declared\<close>

record zone_record =
  rc_id :: string
  rc_type :: string
  rc_name :: string
  rc_value :: string
  rc_ttl :: int
  rc_priority :: int

record dns_change =
  dc_record :: zone_record
  dc_update :: bool

definition dns_key :: "string \<Rightarrow> string \<Rightarrow> string" where "dns_key typ name = to_upper typ @ CHR 0x00 # to_lower name"

definition norm_value :: "string \<Rightarrow> string \<Rightarrow> string" where
  "norm_value typ v = (if to_upper typ \<in> set [''A'', ''AAAA'', ''TXT''] then v else to_lower (trim_suffix v ''.''))"

definition single_valued :: "string \<Rightarrow> bool" where
  "single_valued typ \<longleftrightarrow> to_upper typ \<in> set [''A'', ''AAAA'', ''CNAME'']"

definition key_of :: "zone_record \<Rightarrow> string" where "key_of r = dns_key (rc_type r) (rc_name r)"

definition same_value :: "zone_record \<Rightarrow> zone_record \<Rightarrow> bool" where
  "same_value d e \<longleftrightarrow> norm_value (rc_type d) (rc_value e) = norm_value (rc_type d) (rc_value d)"

definition settings_differ :: "zone_record \<Rightarrow> zone_record \<Rightarrow> bool" where
  "settings_differ d e \<longleftrightarrow> (rc_ttl d > 0 \<and> rc_ttl e \<noteq> rc_ttl d) \<or> (rc_priority d > 0 \<and> rc_priority e \<noteq> rc_priority d)"

text \<open>The first record not yet used that has the value, and the records without it.\<close>

fun take_same :: "zone_record \<Rightarrow> zone_record list \<Rightarrow> (zone_record \<times> zone_record list) option" where
  "take_same d [] = None"
| "take_same d (e # es) = (if same_value d e then Some (e, es) else map_option (\<lambda>(x, rest). (x, e # rest)) (take_same d es))"

text \<open>The wanted records of one key against the existing ones: the updates, what is missing, and what is left over.\<close>

fun match_records :: "zone_record list \<Rightarrow> zone_record list \<Rightarrow> dns_change list \<times> zone_record list \<times> zone_record list" where
  "match_records [] ex = ([], [], ex)"
| "match_records (d # ds) ex = (case take_same d ex of
     None \<Rightarrow> (case match_records ds ex of (cs, ms, spare) \<Rightarrow> (cs, d # ms, spare))
   | Some (e, rest) \<Rightarrow> (case match_records ds rest of (cs, ms, spare) \<Rightarrow>
       ((if settings_differ d e then [\<lparr>dc_record = d\<lparr>rc_id := rc_id e\<rparr>, dc_update = True\<rparr>] else []) @ cs, ms, spare)))"

definition plan_key :: "zone_record list \<Rightarrow> zone_record list \<Rightarrow> dns_change list" where
  "plan_key want ex = (case match_records want ex of (cs, missing, spare) \<Rightarrow>
     cs @ (case (missing, spare) of
       ([m], [s]) \<Rightarrow> if single_valued (rc_type m) then [\<lparr>dc_record = m\<lparr>rc_id := rc_id s\<rparr>, dc_update = True\<rparr>] else [\<lparr>dc_record = m, dc_update = False\<rparr>]
     | _ \<Rightarrow> map (\<lambda>m. \<lparr>dc_record = m, dc_update = False\<rparr>) missing))"

definition keys_in_order :: "zone_record list \<Rightarrow> string list" where "keys_in_order ds = rev (remdups (rev (map key_of ds)))"

definition plan_dns_sync :: "zone_record list \<Rightarrow> zone_record list \<Rightarrow> dns_change list" where
  "plan_dns_sync existing desired =
     concat (map (\<lambda>k. plan_key (filter (\<lambda>d. key_of d = k) desired) (filter (\<lambda>e. key_of e = k) existing)) (keys_in_order desired))"

text \<open>A zone after the calls: an update replaces the record with its id, a new record gets an id of its own. A record's TTL or
  priority that is not set is the provider's choice.\<close>

definition updated_record :: "zone_record \<Rightarrow> zone_record \<Rightarrow> zone_record" where
  "updated_record d e = d\<lparr>rc_ttl := (if rc_ttl d > 0 then rc_ttl d else rc_ttl e), rc_priority := (if rc_priority d > 0 then rc_priority d else rc_priority e)\<rparr>"

definition apply_change :: "string \<Rightarrow> dns_change \<Rightarrow> zone_record list \<Rightarrow> zone_record list" where
  "apply_change new_id c zone =
     (if dc_update c then map (\<lambda>e. if rc_id e = rc_id (dc_record c) then updated_record (dc_record c) e else e) zone
      else zone @ [(dc_record c)\<lparr>rc_id := new_id\<rparr>])"

fun apply_dns :: "(nat \<Rightarrow> string) \<Rightarrow> dns_change list \<Rightarrow> zone_record list \<Rightarrow> zone_record list" where
  "apply_dns ids [] zone = zone"
| "apply_dns ids (c # cs) zone = apply_dns (\<lambda>n. ids (Suc n)) cs (apply_change (ids 0) c zone)"

subsection \<open>A second plan is empty\<close>

definition nv :: "zone_record \<Rightarrow> string" where "nv r = norm_value (rc_type r) (rc_value r)"

definition hits :: "zone_record \<Rightarrow> zone_record \<Rightarrow> bool" where "hits d e \<longleftrightarrow> key_of e = key_of d \<and> nv e = nv d"

definition update_to :: "zone_record \<Rightarrow> zone_record \<Rightarrow> dns_change" where
  "update_to d e = \<lparr>dc_record = d\<lparr>rc_id := rc_id e\<rparr>, dc_update = True\<rparr>"

lemma to_upper_no_nul: "CHR 0x00 \<in> set (to_upper s) \<Longrightarrow> CHR 0x00 \<in> set s"
proof -
  have "c = CHR 0x00" if "upper_char c = CHR 0x00" for c
  proof (cases "is_lower c")
    case True
    then have "97 \<le> (of_char c :: nat)" "(of_char c :: nat) \<le> 122" by (simp_all add: is_lower_def in_range_def)
    moreover have "of_char (char_of (of_char c - 32 :: nat) :: char) = (0 :: nat)" using that True by (simp add: upper_char_def)
    ultimately show ?thesis by simp
  qed (use that in \<open>simp add: upper_char_def\<close>)
  then show "CHR 0x00 \<in> set (to_upper s) \<Longrightarrow> CHR 0x00 \<in> set s" unfolding to_upper_def set_map by (metis imageE)
qed

text \<open>Types without a NUL byte: the key of a record tells its type.\<close>

definition typed :: "zone_record \<Rightarrow> bool" where "typed r \<longleftrightarrow> CHR 0x00 \<notin> set (rc_type r)"

lemma key_type: "typed d \<Longrightarrow> typed e \<Longrightarrow> key_of d = key_of e \<Longrightarrow> to_upper (rc_type d) = to_upper (rc_type e)"
proof -
  assume t: "typed d" "typed e" "key_of d = key_of e"
  have "cut CHR 0x00 (key_of r) = Some (to_upper (rc_type r), to_lower (rc_name r))" if "typed r" for r
  proof -
    have "CHR 0x00 \<notin> set (to_upper (rc_type r))" using that to_upper_no_nul typed_def by blast
    then show ?thesis by (simp add: key_of_def dns_key_def)
  qed
  from this[OF t(1)] this[OF t(2)] t(3) show ?thesis by simp
qed

lemma same_value_nv: "typed d \<Longrightarrow> typed e \<Longrightarrow> key_of d = key_of e \<Longrightarrow> same_value d e \<longleftrightarrow> nv e = nv d"
  using key_type[of d e] by (simp add: same_value_def nv_def norm_value_def)

lemma find_same: "find P xs = Some e \<Longrightarrow> P e \<and> e \<in> set xs"
  by (auto simp: find_Some_iff)

lemma take_same_spec:
  "take_same d ex = (case find (same_value d) ex of None \<Rightarrow> None | Some e \<Rightarrow> Some (e, remove1 e ex))"
proof (induction ex)
  case (Cons a ex)
  then show ?case by (cases "find (same_value d) ex") (auto dest: find_same)
qed simp

lemma find_remove1: "\<not> P e \<Longrightarrow> find P (remove1 e xs) = find P xs"
  by (induction xs) auto

lemma match_spec:
  assumes "\<forall>d \<in> set ds. \<forall>e \<in> set ex. same_value d e \<longleftrightarrow> nv e = nv d" and "distinct (map nv ds)" and "distinct ex"
    and "match_records ds ex = (cs, ms, spare)"
  shows "cs = concat (map (\<lambda>d. case find (same_value d) ex of None \<Rightarrow> [] | Some e \<Rightarrow> if settings_differ d e then [update_to d e] else []) ds)
    \<and> ms = filter (\<lambda>d. find (same_value d) ex = None) ds
    \<and> set spare \<subseteq> set ex \<and> (\<forall>d \<in> set ds. \<forall>s \<in> set spare. find (same_value d) ex \<noteq> Some s)"
  using assms
proof (induction ds arbitrary: ex cs ms spare)
  case (Cons d ds)
  show ?case
  proof (cases "find (same_value d) ex")
    case None
    obtain cs1 ms1 sp1 where r: "match_records ds ex = (cs1, ms1, sp1)" by (metis prod_cases3)
    have eq: "cs = cs1" "ms = d # ms1" "spare = sp1" using Cons.prems(4) r None by (simp_all add: take_same_spec)
    show ?thesis using Cons.IH[of ex cs1 ms1 sp1] Cons.prems(1-3) r None unfolding eq by simp
  next
    case (Some e)
    then have e: "e \<in> set ex" "same_value d e" by (auto simp: find_Some_iff)
    obtain cs1 ms1 sp1 where r: "match_records ds (remove1 e ex) = (cs1, ms1, sp1)" by (metis prod_cases3)
    have eq: "cs = (if settings_differ d e then [update_to d e] else []) @ cs1" "ms = ms1" "spare = sp1"
      using Cons.prems(4) r Some by (auto simp: take_same_spec update_to_def)
    have other: "\<not> same_value d' e" if "d' \<in> set ds" for d'
    proof -
      have "nv d' \<noteq> nv d" using Cons.prems(2) that by (metis distinct.simps(2) imageI list.map(2) list.set_map)
      moreover have "nv e = nv d" using Cons.prems(1) e by simp
      ultimately show ?thesis using Cons.prems(1) that e(1) by auto
    qed
    have fnd: "find (same_value d') (remove1 e ex) = find (same_value d') ex" if "d' \<in> set ds" for d'
      using find_remove1 other[OF that] by metis
    have sub: "set (remove1 e ex) \<subseteq> set ex" by (rule set_remove1_subset)
    have IH: "cs1 = concat (map (\<lambda>d. case find (same_value d) (remove1 e ex) of None \<Rightarrow> [] | Some e \<Rightarrow> if settings_differ d e then [update_to d e] else []) ds)
      \<and> ms1 = filter (\<lambda>d. find (same_value d) (remove1 e ex) = None) ds
      \<and> set sp1 \<subseteq> set (remove1 e ex) \<and> (\<forall>d \<in> set ds. \<forall>s \<in> set sp1. find (same_value d) (remove1 e ex) \<noteq> Some s)"
      by (rule Cons.IH[OF _ _ _ r]) (use Cons.prems sub in auto)
    have "cs1 = concat (map (\<lambda>d. case find (same_value d) ex of None \<Rightarrow> [] | Some e \<Rightarrow> if settings_differ d e then [update_to d e] else []) ds)"
      using IH fnd by (simp cong: map_cong)
    moreover have "ms1 = filter (\<lambda>d. find (same_value d) ex = None) ds" using IH fnd by (simp cong: filter_cong)
    moreover have "e \<notin> set sp1" using IH Cons.prems(3) by auto
    moreover have "\<forall>d \<in> set ds. \<forall>s \<in> set sp1. find (same_value d) ex \<noteq> Some s" using IH fnd by auto
    ultimately show ?thesis using IH Some sub unfolding eq by auto
  qed
qed auto

text \<open>What a plan holds, for wanted records of which no two are the same record.\<close>

definition zone_wf :: "zone_record list \<Rightarrow> zone_record list \<Rightarrow> bool" where
  "zone_wf existing desired \<longleftrightarrow> distinct (map rc_id existing) \<and> (\<forall>r \<in> set existing \<union> set desired. typed r)
     \<and> distinct (map (\<lambda>d. (key_of d, nv d)) desired)"

definition the_first :: "zone_record list \<Rightarrow> zone_record \<Rightarrow> zone_record option" where "the_first zone d = find (hits d) zone"

lemma find_filter: "find P (filter Q xs) = find (\<lambda>x. Q x \<and> P x) xs"
  by (induction xs) auto

lemma distinct_pairs_inj: "distinct (map f xs) \<Longrightarrow> x \<in> set xs \<Longrightarrow> y \<in> set xs \<Longrightarrow> f x = f y \<Longrightarrow> x = y"
  by (metis distinct_map inj_onD)

text \<open>The plan of one key: an update where the settings differ, and for what is missing a replacement or a creation.\<close>

lemma plan_key_cases:
  assumes wf: "zone_wf existing desired" and k: "want = filter (\<lambda>d. key_of d = k) desired" "ex = filter (\<lambda>e. key_of e = k) existing"
  obtains cs missing spare where
    "plan_key want ex = cs @ (case (missing, spare) of
       ([m], [s]) \<Rightarrow> if single_valued (rc_type m) then [update_to m s] else [\<lparr>dc_record = m, dc_update = False\<rparr>]
     | _ \<Rightarrow> map (\<lambda>m. \<lparr>dc_record = m, dc_update = False\<rparr>) missing)"
    "set cs = {update_to d e | d e. d \<in> set want \<and> the_first existing d = Some e \<and> settings_differ d e}"
    "missing = filter (\<lambda>d. the_first existing d = None) want"
    "set spare \<subseteq> set ex" "\<forall>d \<in> set desired. \<forall>s \<in> set spare. the_first existing d \<noteq> Some s"
proof -
  have ids: "distinct ex" using wf k(2) by (simp add: zone_wf_def distinct_map)
  have inj: "distinct (map nv want)"
  proof -
    have "distinct (map (\<lambda>d. (key_of d, nv d)) want)" using wf k(1) by (simp add: zone_wf_def distinct_map_filter)
    then show ?thesis using k(1) by (auto simp: distinct_map inj_on_def)
  qed
  have sv: "\<forall>d \<in> set want. \<forall>e \<in> set ex. same_value d e \<longleftrightarrow> nv e = nv d"
    using wf k same_value_nv by (auto simp: zone_wf_def)
  have f: "find (same_value d) ex = the_first existing d" if d: "d \<in> set want" for d
  proof -
    have "find (same_value d) ex = find (\<lambda>e. nv e = nv d) ex"
      by (rule find_cong) (use sv d in auto)
    also have "\<dots> = the_first existing d" using d k by (simp add: the_first_def find_filter hits_def[abs_def])
    finally show ?thesis .
  qed
  obtain cs missing spare where r: "match_records want ex = (cs, missing, spare)" by (metis prod_cases3)
  note M = match_spec[OF sv inj ids r]
  show ?thesis
  proof (rule that)
    show "plan_key want ex = cs @ (case (missing, spare) of
       ([m], [s]) \<Rightarrow> if single_valued (rc_type m) then [update_to m s] else [\<lparr>dc_record = m, dc_update = False\<rparr>]
     | _ \<Rightarrow> map (\<lambda>m. \<lparr>dc_record = m, dc_update = False\<rparr>) missing)"
      by (auto simp: plan_key_def r update_to_def split: list.splits)
    show "set cs = {update_to d e | d e. d \<in> set want \<and> the_first existing d = Some e \<and> settings_differ d e}"
    proof -
      have "set cs = (\<Union>d \<in> set want. set (case the_first existing d of None \<Rightarrow> [] | Some e \<Rightarrow> if settings_differ d e then [update_to d e] else []))"
        using M f by simp
      also have "\<dots> = {update_to d e | d e. d \<in> set want \<and> the_first existing d = Some e \<and> settings_differ d e}"
        by (rule set_eqI, simp split: option.split, metis option.inject option.distinct(1))
      finally show ?thesis .
    qed
    show "missing = filter (\<lambda>d. the_first existing d = None) want" using M f by (simp cong: filter_cong)
    show "set spare \<subseteq> set ex" using M by blast
    show "\<forall>d \<in> set desired. \<forall>s \<in> set spare. the_first existing d \<noteq> Some s"
    proof (intro ballI)
      fix d s assume ds: "d \<in> set desired" "s \<in> set spare"
      then have "s \<in> set ex" using M by blast
      show "the_first existing d \<noteq> Some s"
      proof (cases "key_of d = k")
        case True
        then have "d \<in> set want" using ds k by simp
        then show ?thesis using M f ds by metis
      next
        case False
        then show ?thesis using \<open>s \<in> set ex\<close> k(2) by (auto simp: the_first_def hits_def dest: find_same)
      qed
    qed
  qed
qed

lemma set_keys_in_order: "set (keys_in_order ds) = key_of ` set ds"
  by (simp add: keys_in_order_def)

text \<open>An update of a plan is about the first record that matches, or about one that no wanted record matches first.\<close>

definition replaces :: "zone_record list \<Rightarrow> zone_record list \<Rightarrow> zone_record \<Rightarrow> zone_record \<Rightarrow> bool" where
  "replaces existing desired d e \<longleftrightarrow> d \<in> set desired \<and> e \<in> set existing \<and> key_of e = key_of d
     \<and> (the_first existing d = Some e \<and> settings_differ d e
      \<or> the_first existing d = None \<and> single_valued (rc_type d) \<and> (\<forall>d' \<in> set desired. the_first existing d' \<noteq> Some e \<and> (key_of d' = key_of d \<and> the_first existing d' = None \<longrightarrow> d' = d)))"

lemma plan_updates:
  assumes wf: "zone_wf existing desired" and c: "c \<in> set (plan_dns_sync existing desired)"
  shows "if dc_update c then \<exists>d e. replaces existing desired d e \<and> c = update_to d e
    else \<exists>d \<in> set desired. the_first existing d = None \<and> c = \<lparr>dc_record = d, dc_update = False\<rparr>"
proof -
  obtain k where kc: "c \<in> set (plan_key (filter (\<lambda>d. key_of d = k) desired) (filter (\<lambda>e. key_of e = k) existing))"
    using c by (auto simp: plan_dns_sync_def)
  from plan_key_cases[OF wf refl refl, of k] obtain cs missing spare where P:
    "plan_key (filter (\<lambda>d. key_of d = k) desired) (filter (\<lambda>e. key_of e = k) existing) = cs @ (case (missing, spare) of
       ([m], [s]) \<Rightarrow> if single_valued (rc_type m) then [update_to m s] else [\<lparr>dc_record = m, dc_update = False\<rparr>]
     | _ \<Rightarrow> map (\<lambda>m. \<lparr>dc_record = m, dc_update = False\<rparr>) missing)"
    "set cs = {update_to d e | d e. d \<in> set (filter (\<lambda>d. key_of d = k) desired) \<and> the_first existing d = Some e \<and> settings_differ d e}"
    "missing = filter (\<lambda>d. the_first existing d = None) (filter (\<lambda>d. key_of d = k) desired)"
    "set spare \<subseteq> set (filter (\<lambda>e. key_of e = k) existing)" "\<forall>d \<in> set desired. \<forall>s \<in> set spare. the_first existing d \<noteq> Some s" .
  have miss: "set missing = {d \<in> set desired. key_of d = k \<and> the_first existing d = None}" using P(3) by auto
  consider (update) "c \<in> set cs" | (replace) m s where "missing = [m]" "spare = [s]" "c = update_to m s" "single_valued (rc_type m)" | (create) m where "m \<in> set missing" "c = \<lparr>dc_record = m, dc_update = False\<rparr>"
    using kc unfolding P(1) by (auto split: list.splits if_splits)
  then show ?thesis
  proof cases
    case update
    then obtain d e where de: "c = update_to d e" "d \<in> set desired" "the_first existing d = Some e" "settings_differ d e" using P(2) by auto
    then have "key_of e = key_of d" "e \<in> set existing" by (auto simp: the_first_def hits_def dest: find_same)
    then have "replaces existing desired d e" using de by (simp add: replaces_def)
    then show ?thesis using de by (auto simp: update_to_def)
  next
    case replace
    have m: "m \<in> set desired \<and> key_of m = k \<and> the_first existing m = None" using replace(1) miss by auto
    moreover have "\<And>d'. d' \<in> set desired \<Longrightarrow> key_of d' = k \<Longrightarrow> the_first existing d' = None \<Longrightarrow> d' = m" using replace(1) miss by auto
    moreover have "s \<in> set existing \<and> key_of s = k" using replace(2) P(4) by auto
    ultimately have "replaces existing desired m s" using P(5) replace(2,4) by (simp add: replaces_def)
    then show ?thesis using replace by (auto simp: update_to_def)
  next
    case create
    then show ?thesis using miss by auto
  qed
qed

lemma create_or_replace:
  "d \<in> set missing \<Longrightarrow> (\<exists>s. missing = [d] \<and> spare = [s] \<and> single_valued (rc_type d))
    \<or> \<lparr>dc_record = d, dc_update = False\<rparr> \<in> set (case (missing, spare) of
       ([m], [s]) \<Rightarrow> if single_valued (rc_type m) then [update_to m s] else [\<lparr>dc_record = m, dc_update = False\<rparr>]
     | _ \<Rightarrow> map (\<lambda>m. \<lparr>dc_record = m, dc_update = False\<rparr>) missing)"
  by (auto split: list.splits)

lemma plan_complete:
  assumes wf: "zone_wf existing desired" and d: "d \<in> set desired"
  shows "(the_first existing d = Some e \<and> settings_differ d e \<longrightarrow> update_to d e \<in> set (plan_dns_sync existing desired))
    \<and> (the_first existing d = None \<longrightarrow> \<lparr>dc_record = d, dc_update = False\<rparr> \<in> set (plan_dns_sync existing desired)
        \<or> (\<exists>s. s \<in> set existing \<and> update_to d s \<in> set (plan_dns_sync existing desired)))"
proof -
  let ?k = "key_of d"
  from plan_key_cases[OF wf refl refl, of ?k] obtain cs missing spare where P:
    "plan_key (filter (\<lambda>d. key_of d = ?k) desired) (filter (\<lambda>e. key_of e = ?k) existing) = cs @ (case (missing, spare) of
       ([m], [s]) \<Rightarrow> if single_valued (rc_type m) then [update_to m s] else [\<lparr>dc_record = m, dc_update = False\<rparr>]
     | _ \<Rightarrow> map (\<lambda>m. \<lparr>dc_record = m, dc_update = False\<rparr>) missing)"
    "set cs = {update_to d' e | d' e. d' \<in> set (filter (\<lambda>d. key_of d = ?k) desired) \<and> the_first existing d' = Some e \<and> settings_differ d' e}"
    "missing = filter (\<lambda>d. the_first existing d = None) (filter (\<lambda>d. key_of d = ?k) desired)"
    "set spare \<subseteq> set (filter (\<lambda>e. key_of e = ?k) existing)" "\<forall>d \<in> set desired. \<forall>s \<in> set spare. the_first existing d \<noteq> Some s" .
  have sub: "c \<in> set (plan_key (filter (\<lambda>d. key_of d = ?k) desired) (filter (\<lambda>e. key_of e = ?k) existing)) \<Longrightarrow> c \<in> set (plan_dns_sync existing desired)" for c
    using d by (auto simp: plan_dns_sync_def set_keys_in_order)
  have "update_to d e \<in> set (plan_dns_sync existing desired)" if "the_first existing d = Some e" "settings_differ d e"
  proof -
    have "update_to d e \<in> set cs" using that d by (auto simp: P(2))
    then show ?thesis using sub P(1) by auto
  qed
  moreover have "\<lparr>dc_record = d, dc_update = False\<rparr> \<in> set (plan_dns_sync existing desired)
        \<or> (\<exists>s. s \<in> set existing \<and> update_to d s \<in> set (plan_dns_sync existing desired))" if n: "the_first existing d = None"
  proof -
    have "d \<in> set missing" using n d by (simp add: P(3))
    from create_or_replace[OF this, of spare] show ?thesis
    proof
      assume "\<exists>s. missing = [d] \<and> spare = [s] \<and> single_valued (rc_type d)"
      then obtain s where 1: "missing = [d]" "spare = [s]" "single_valued (rc_type d)" by blast
      then have "update_to d s \<in> set (plan_dns_sync existing desired)" using sub P(1) by simp
      moreover have "s \<in> set existing" using 1 P(4) by auto
      ultimately show ?thesis by blast
    next
      assume "\<lparr>dc_record = d, dc_update = False\<rparr> \<in> set (case (missing, spare) of
       ([m], [s]) \<Rightarrow> if single_valued (rc_type m) then [update_to m s] else [\<lparr>dc_record = m, dc_update = False\<rparr>]
     | _ \<Rightarrow> map (\<lambda>m. \<lparr>dc_record = m, dc_update = False\<rparr>) missing)"
      then have "\<lparr>dc_record = d, dc_update = False\<rparr> \<in> set (plan_key (filter (\<lambda>d. key_of d = ?k) desired) (filter (\<lambda>e. key_of e = ?k) existing))"
        unfolding P(1) set_append by (rule UnI2)
      then show ?thesis by (intro disjI1 sub)
    qed
  qed
  ultimately show ?thesis by blast
qed

text \<open>Two updates of one record are the same update.\<close>

lemma replaces_unique:
  assumes wf: "zone_wf existing desired" and r: "replaces existing desired d e" "replaces existing desired d' e'" and i: "rc_id e = rc_id e'"
  shows "d' = d \<and> e' = e"
proof -
  have "e' = e" using distinct_pairs_inj[of rc_id existing e' e] wf r i by (simp add: zone_wf_def replaces_def)
  moreover have "d' = d"
  proof (cases "the_first existing d = Some e")
    case True
    then have "the_first existing d' = Some e" using r \<open>e' = e\<close> by (auto simp: replaces_def)
    then have "key_of d' = key_of d \<and> nv d' = nv d" using True by (auto simp: the_first_def hits_def dest!: find_same)
    then show ?thesis using distinct_pairs_inj[of "\<lambda>d. (key_of d, nv d)" desired d' d] wf r by (simp add: zone_wf_def replaces_def)
  next
    case False
    then have "the_first existing d = None \<and> the_first existing d' \<noteq> Some e" using r by (auto simp: replaces_def)
    then have "the_first existing d' = None" using r \<open>e' = e\<close> by (auto simp: replaces_def)
    then show ?thesis using r False \<open>e' = e\<close> by (auto simp: replaces_def)
  qed
  ultimately show ?thesis by simp
qed

text \<open>The zone after the calls.\<close>

definition updates_in :: "dns_change list \<Rightarrow> zone_record \<Rightarrow> zone_record" where
  "updates_in cs e = (case find (\<lambda>c. dc_update c \<and> rc_id (dc_record c) = rc_id e) cs of None \<Rightarrow> e | Some c \<Rightarrow> updated_record (dc_record c) e)"

definition same_but_id :: "zone_record \<Rightarrow> zone_record \<Rightarrow> bool" where "same_but_id r s \<longleftrightarrow> (\<exists>i. s = r\<lparr>rc_id := i\<rparr>)"

definition fresh_ids :: "(nat \<Rightarrow> string) \<Rightarrow> dns_change list \<Rightarrow> bool" where
  "fresh_ids ids cs \<longleftrightarrow> (\<forall>n. \<forall>c \<in> set cs. dc_update c \<longrightarrow> rc_id (dc_record c) \<noteq> ids n)"

lemma updates_in_twice:
  assumes "\<forall>c \<in> set cs. dc_update c \<and> rc_id (dc_record c) = rc_id (dc_record b) \<longrightarrow> c = b" and "rc_id e = rc_id (dc_record b)"
  shows "updates_in cs (updated_record (dc_record b) e) = updated_record (dc_record b) e"
proof (cases "find (\<lambda>c. dc_update c \<and> rc_id (dc_record c) = rc_id (updated_record (dc_record b) e)) cs")
  case (Some c)
  then have "c = b" using assms(1) by (auto simp: updated_record_def dest: find_same)
  then show ?thesis using Some by (simp add: updates_in_def updated_record_def)
qed (simp add: updates_in_def)

lemma applied_zone:
  assumes "\<forall>c \<in> set cs. \<forall>b \<in> set cs. dc_update c \<and> dc_update b \<and> rc_id (dc_record c) = rc_id (dc_record b) \<longrightarrow> c = b" and "fresh_ids ids cs"
  shows "\<exists>new. apply_dns ids cs zone = map (updates_in cs) zone @ new \<and> list_all2 same_but_id (map dc_record (filter (\<lambda>c. \<not> dc_update c) cs)) new"
  using assms
proof (induction cs arbitrary: ids zone)
  case Nil
  have "map (updates_in []) zone = zone" by (simp add: updates_in_def map_idI)
  then show ?case by simp
next
  case (Cons b cs)
  let ?ids = "\<lambda>n. ids (Suc n)"
  have fr: "fresh_ids ?ids cs" using Cons.prems(2) by (simp add: fresh_ids_def)
  obtain new where n: "apply_dns ?ids cs (apply_change (ids 0) b zone) = map (updates_in cs) (apply_change (ids 0) b zone) @ new"
    "list_all2 same_but_id (map dc_record (filter (\<lambda>c. \<not> dc_update c) cs)) new"
    using Cons.IH[OF _ fr, of "apply_change (ids 0) b zone"] Cons.prems(1) by auto
  show ?case
  proof (cases "dc_update b")
    case True
    have "map (updates_in cs) (apply_change (ids 0) b zone) = map (updates_in (b # cs)) zone"
    proof -
      have "updates_in cs (if rc_id e = rc_id (dc_record b) then updated_record (dc_record b) e else e) = updates_in (b # cs) e" for e
      proof (cases "rc_id e = rc_id (dc_record b)")
        case same: True
        have "updates_in cs (updated_record (dc_record b) e) = updated_record (dc_record b) e"
          by (rule updates_in_twice) (use Cons.prems(1) True same in auto)
        then show ?thesis using same True by (simp add: updates_in_def)
      next
        case False
        then have "rc_id (dc_record b) \<noteq> rc_id e" by simp
        then show ?thesis using False by (simp add: updates_in_def)
      qed
      then show ?thesis using True by (simp add: apply_change_def)
    qed
    then show ?thesis using n True by auto
  next
    case False
    have none: "updates_in cs ((dc_record b)\<lparr>rc_id := ids 0\<rparr>) = (dc_record b)\<lparr>rc_id := ids 0\<rparr>"
    proof -
      have "find (\<lambda>c. dc_update c \<and> rc_id (dc_record c) = ids 0) cs = None"
        using Cons.prems(2) by (auto simp: fresh_ids_def find_None_iff)
      then show ?thesis by (simp add: updates_in_def)
    qed
    have same: "updates_in (b # cs) e = updates_in cs e" for e using False by (simp add: updates_in_def)
    have "same_but_id (dc_record b) ((dc_record b)\<lparr>rc_id := ids 0\<rparr>)" by (auto simp: same_but_id_def)
    then show ?thesis
      using n False none same by (auto simp: apply_change_def intro!: exI[of _ "(dc_record b)\<lparr>rc_id := ids 0\<rparr> # new"] cong: map_cong)
  qed
qed

lemma same_update:
  assumes wf: "zone_wf existing desired" and c: "c \<in> set (plan_dns_sync existing desired)" "dc_update c"
    and b: "b \<in> set (plan_dns_sync existing desired)" "dc_update b" and i: "rc_id (dc_record c) = rc_id (dc_record b)"
  shows "c = b"
proof -
  obtain d e where "replaces existing desired d e" "c = update_to d e" using plan_updates[OF wf c(1)] c(2) by auto
  moreover obtain d' e' where "replaces existing desired d' e'" "b = update_to d' e'" using plan_updates[OF wf b(1)] b(2) by auto
  ultimately show ?thesis using replaces_unique[OF wf, of d e d' e'] i by (simp add: update_to_def)
qed

text \<open>After the calls every wanted record is matched first by one with its settings.\<close>

lemma find_first: "find P xs = Some e \<Longrightarrow> \<exists>us vs. xs = us @ e # vs \<and> P e \<and> (\<forall>u \<in> set us. \<not> P u)"
proof (induction xs)
  case (Cons a xs)
  show ?case
  proof (cases "P a")
    case True
    then show ?thesis using Cons.prems by (intro exI[of _ "[]"] exI[of _ xs]) simp
  next
    case False
    then obtain us vs where "xs = us @ e # vs \<and> P e \<and> (\<forall>u \<in> set us. \<not> P u)" using Cons by auto
    then show ?thesis using False by (intro exI[of _ "a # us"] exI[of _ vs]) auto
  qed
qed simp

lemma list_all2_from: "list_all2 P xs ys \<Longrightarrow> (\<forall>y \<in> set ys. \<exists>x \<in> set xs. P x y) \<and> (\<forall>x \<in> set xs. \<exists>y \<in> set ys. P x y)"
  by (induction rule: list_all2_induct) auto

lemma find_from_first: "\<forall>u \<in> set us. \<not> P u \<Longrightarrow> P e \<Longrightarrow> find P (us @ e # vs) = Some e"
  by (induction us) auto

lemma update_to_dest [simp]: "dc_update (update_to d e)" "dc_record (update_to d e) = d\<lparr>rc_id := rc_id e\<rparr>"
  by (simp_all add: update_to_def)

lemma hits_updated [simp]: "hits d (updated_record r e) \<longleftrightarrow> hits d r" "hits d (r\<lparr>rc_id := i\<rparr>) \<longleftrightarrow> hits d r" "key_of (r\<lparr>rc_id := i\<rparr>) = key_of r" "nv (r\<lparr>rc_id := i\<rparr>) = nv r"
  by (simp_all add: hits_def key_of_def nv_def updated_record_def)

lemma hits_self [simp]: "hits d d"
  by (simp add: hits_def)

lemma settings_updated: "\<not> settings_differ d (updated_record (d\<lparr>rc_id := i\<rparr>) e)"
  by (simp add: settings_differ_def updated_record_def)

lemma settled_zone:
  assumes wf: "zone_wf existing desired" and fr: "fresh_ids ids (plan_dns_sync existing desired)" and d: "d \<in> set desired"
  shows "\<exists>x. the_first (apply_dns ids (plan_dns_sync existing desired) existing) d = Some x \<and> \<not> settings_differ d x"
proof -
  define cs where "cs = plan_dns_sync existing desired"
  have upd: "c \<in> set cs \<Longrightarrow> dc_update c \<Longrightarrow> \<exists>d e. replaces existing desired d e \<and> c = update_to d e" for c
    using plan_updates[OF wf] unfolding cs_def by (metis (full_types))
  have one: "\<forall>c \<in> set cs. \<forall>b \<in> set cs. dc_update c \<and> dc_update b \<and> rc_id (dc_record c) = rc_id (dc_record b) \<longrightarrow> c = b"
    using same_update[OF wf] unfolding cs_def by blast
  obtain new where z: "apply_dns ids cs existing = map (updates_in cs) existing @ new" "list_all2 same_but_id (map dc_record (filter (\<lambda>c. \<not> dc_update c) cs)) new"
    using applied_zone[OF one fr[folded cs_def], of existing] by blast
  have key_inj: "d' = d" if "d' \<in> set desired" "hits d d'" for d'
    using distinct_pairs_inj[of "\<lambda>d. (key_of d, nv d)" desired d' d] wf d that by (simp add: zone_wf_def hits_def)
  text \<open>What becomes of a record of the zone.\<close>
  have fate: "updates_in cs e = e \<and> (\<forall>d'. update_to d' e \<notin> set cs)
      \<or> (\<exists>d'. replaces existing desired d' e \<and> updates_in cs e = updated_record (d'\<lparr>rc_id := rc_id e\<rparr>) e)" if e: "e \<in> set existing" for e
  proof (cases "find (\<lambda>c. dc_update c \<and> rc_id (dc_record c) = rc_id e) cs")
    case None
    then have n: "\<not> (dc_update c \<and> rc_id (dc_record c) = rc_id e)" if "c \<in> set cs" for c using that by (auto simp: find_None_iff)
    have "\<forall>d'. update_to d' e \<notin> set cs" using n[of "update_to _ e"] by auto
    then show ?thesis using None by (simp add: updates_in_def)
  next
    case (Some c)
    then have c: "c \<in> set cs" "dc_update c" "rc_id (dc_record c) = rc_id e" by (auto dest: find_same)
    then obtain d' e' where r: "replaces existing desired d' e'" "c = update_to d' e'" using upd by blast
    have "e' = e" using distinct_pairs_inj[of rc_id existing e' e] wf e r c(3) by (simp add: zone_wf_def replaces_def)
    then show ?thesis using r Some by (auto simp: updates_in_def)
  qed
  have came: "\<exists>d' \<in> set desired. the_first existing d' = None \<and> same_but_id d' x" if x: "x \<in> set new" for x
  proof -
    obtain r where "r \<in> set (map dc_record (filter (\<lambda>c. \<not> dc_update c) cs))" "same_but_id r x"
      using bspec[OF conjunct1[OF list_all2_from[OF z(2)]] x] by blast
    then obtain c where "c \<in> set cs" "\<not> dc_update c" "same_but_id (dc_record c) x" by auto
    then show ?thesis using plan_updates[OF wf, folded cs_def, of c] by auto
  qed
  show ?thesis
  proof (cases "the_first existing d")
    case (Some e)
    obtain us vs where sp: "existing = us @ e # vs" "hits d e" "\<forall>u \<in> set us. \<not> hits d u"
      using find_first Some unfolding the_first_def by metis
    have no: "\<not> hits d (updates_in cs u)" if u: "u \<in> set us" for u
    proof
      assume h: "hits d (updates_in cs u)"
      then have "updates_in cs u \<noteq> u" using sp(3) u by metis
      then obtain d' where r: "replaces existing desired d' u" "updates_in cs u = updated_record (d'\<lparr>rc_id := rc_id u\<rparr>) u"
        using fate[of u] sp(1) u by auto
      have "hits d d'" using h unfolding r(2) by simp
      then have "d' = d" using key_inj r(1) by (simp add: replaces_def)
      then have "Some u = Some e" using r(1) Some by (simp add: replaces_def)
      then show False using sp(2,3) u by simp
    qed
    have "hits d (updates_in cs e) \<and> \<not> settings_differ d (updates_in cs e)"
    proof -
      have "e \<in> set existing" using sp(1) by simp
      from fate[OF this] show ?thesis
      proof
      assume n: "updates_in cs e = e \<and> (\<forall>d'. update_to d' e \<notin> set cs)"
      then have "\<not> settings_differ d e" using plan_complete[OF wf d] Some unfolding cs_def by blast
      then show ?thesis using n sp(2) by simp
    next
      assume "\<exists>d'. replaces existing desired d' e \<and> updates_in cs e = updated_record (d'\<lparr>rc_id := rc_id e\<rparr>) e"
      then obtain d' where r: "replaces existing desired d' e" "updates_in cs e = updated_record (d'\<lparr>rc_id := rc_id e\<rparr>) e" by blast
      have "the_first existing d' = Some e" using r(1) Some d by (auto simp: replaces_def)
      then have "hits d' e" by (auto simp: the_first_def dest: find_same)
      then have "d' = d" using key_inj[of d'] r(1) sp(2) by (simp add: hits_def replaces_def)
      then show ?thesis using r(2) settings_updated by simp
      qed
    qed
    then have "find (hits d) (map (updates_in cs) existing @ new) = Some (updates_in cs e)"
      unfolding sp(1) using no by (simp add: find_from_first)
    then show ?thesis using \<open>hits d (updates_in cs e) \<and> \<not> settings_differ d (updates_in cs e)\<close> z(1) by (simp add: the_first_def cs_def)
  next
    case None
    then have miss: "\<not> hits d e" if "e \<in> set existing" for e using that by (auto simp: the_first_def find_None_iff)
    have only: "\<not> settings_differ d x" if x: "x \<in> set (map (updates_in cs) existing @ new)" "hits d x" for x
      using x(1) unfolding set_append
    proof
      assume "x \<in> set (map (updates_in cs) existing)"
      then obtain e where e: "e \<in> set existing" "x = updates_in cs e" by auto
      then obtain d' where r: "replaces existing desired d' e" "x = updated_record (d'\<lparr>rc_id := rc_id e\<rparr>) e"
        using fate[OF e(1)] miss x(2) by auto
      have "hits d d'" using x(2) unfolding r(2) by simp
      then have "d' = d" using key_inj r(1) by (simp add: replaces_def)
      then show ?thesis using r(2) settings_updated by simp
    next
      assume "x \<in> set new"
      then obtain d' i where "d' \<in> set desired" "x = d'\<lparr>rc_id := i\<rparr>" using came same_but_id_def by metis
      then show ?thesis using x(2) key_inj[of d'] by (simp add: settings_differ_def)
    qed
    have "\<exists>x \<in> set (map (updates_in cs) existing @ new). hits d x"
    proof (cases "\<lparr>dc_record = d, dc_update = False\<rparr> \<in> set cs")
      case True
      then have "d \<in> set (map dc_record (filter (\<lambda>c. \<not> dc_update c) cs))" by force
      then obtain x where "x \<in> set new" "same_but_id d x" using list_all2_from[OF z(2)] by blast
      then show ?thesis by (intro bexI[of _ x]) (auto simp: same_but_id_def)
    next
      case False
      then obtain s where s: "s \<in> set existing" "update_to d s \<in> set cs" using plan_complete[OF wf d] None unfolding cs_def by blast
      have "hits d (updates_in cs s)"
        using fate[OF s(1)]
      proof
        assume "\<exists>d'. replaces existing desired d' s \<and> updates_in cs s = updated_record (d'\<lparr>rc_id := rc_id s\<rparr>) s"
        then obtain d' where r: "replaces existing desired d' s" "updates_in cs s = updated_record (d'\<lparr>rc_id := rc_id s\<rparr>) s" by blast
        obtain d2 s2 where r2: "replaces existing desired d2 s2" "update_to d s = update_to d2 s2" using upd[OF s(2)] by auto
        have i: "rc_id s2 = rc_id s" "d\<lparr>rc_id := rc_id s\<rparr> = d2\<lparr>rc_id := rc_id s2\<rparr>" using r2(2) by (simp_all add: update_to_def) (metis zone_record.select_convs(1) zone_record.surjective zone_record.update_convs(1))
        have "hits d d2" using i(2) hits_updated(3,4) by (metis hits_def)
        then have "d2 = d" using key_inj r2(1) by (simp add: replaces_def)
        moreover have "d' = d2" using replaces_unique[OF wf r2(1) r(1)] i(1) by simp
        ultimately show ?thesis using r(2) by simp
      qed (use s(2) in blast)
      then show ?thesis using s(1) by auto
    qed
    then obtain x where "find (hits d) (map (updates_in cs) existing @ new) = Some x" by (metis find_None_iff option.exhaust)
    then show ?thesis using only find_same z(1) unfolding the_first_def cs_def by metis
  qed
qed

definition new_ids :: "(nat \<Rightarrow> string) \<Rightarrow> zone_record list \<Rightarrow> bool" where
  "new_ids ids zone \<longleftrightarrow> inj ids \<and> (\<forall>n. ids n \<notin> rc_id ` set zone)"

lemma updated_ids: "dc_update c \<Longrightarrow> map rc_id (apply_change i c zone) = map rc_id zone"
  by (auto simp: apply_change_def updated_record_def)

lemma applied_ids:
  "distinct (map rc_id zone) \<Longrightarrow> new_ids ids zone \<Longrightarrow> distinct (map rc_id (apply_dns ids cs zone))"
proof (induction cs arbitrary: ids zone)
  case (Cons c cs)
  have ii: "inj (\<lambda>n. ids (Suc n))" using Cons.prems(2) unfolding new_ids_def inj_def by blast
  show ?case
  proof (cases "dc_update c")
    case True
    have "rc_id ` set (apply_change (ids 0) c zone) = rc_id ` set zone" using updated_ids[OF True] by (metis list.set_map)
    then show ?thesis using Cons.IH[of "apply_change (ids 0) c zone" "\<lambda>n. ids (Suc n)"] updated_ids[OF True] Cons.prems ii by (simp add: new_ids_def)
  next
    case False
    have "ids (Suc n) \<noteq> ids 0" for n using Cons.prems(2) by (simp add: new_ids_def inj_eq)
    then show ?thesis using Cons.IH[of "apply_change (ids 0) c zone" "\<lambda>n. ids (Suc n)"] False Cons.prems ii
      by (auto simp: new_ids_def apply_change_def)
  qed
qed simp

lemma typed_kept [simp]: "typed (updated_record d e) \<longleftrightarrow> typed d" "typed (d\<lparr>rc_id := i\<rparr>) \<longleftrightarrow> typed d"
  by (simp_all add: typed_def updated_record_def)

lemma applied_typed:
  "\<forall>e \<in> set zone. typed e \<Longrightarrow> \<forall>c \<in> set cs. typed (dc_record c) \<Longrightarrow> \<forall>e \<in> set (apply_dns ids cs zone). typed e"
proof (induction cs arbitrary: ids zone)
  case (Cons c cs)
  have "\<forall>e \<in> set (apply_change (ids 0) c zone). typed e" using Cons.prems by (auto simp: apply_change_def)
  then show ?case using Cons.IH[of "apply_change (ids 0) c zone" "\<lambda>n. ids (Suc n)"] Cons.prems(2) by simp
qed simp

lemma plan_typed: "zone_wf existing desired \<Longrightarrow> c \<in> set (plan_dns_sync existing desired) \<Longrightarrow> typed (dc_record c)"
  using plan_updates[of existing desired c] by (auto simp: zone_wf_def replaces_def split: if_splits)

lemma settled_no_plan:
  assumes wf: "zone_wf zone desired" and s: "\<forall>d \<in> set desired. \<exists>x. the_first zone d = Some x \<and> \<not> settings_differ d x"
  shows "plan_dns_sync zone desired = []"
proof (rule ccontr)
  assume "plan_dns_sync zone desired \<noteq> []"
  then obtain c where "c \<in> set (plan_dns_sync zone desired)" by (cases "plan_dns_sync zone desired") auto
  from plan_updates[OF wf this] show False using s by (fastforce simp: replaces_def split: if_splits)
qed

text \<open>Nothing a zone has and the manifest does not mention is touched: an update names a record of a wanted name and type.\<close>

lemma plan_touches_only_wanted:
  "zone_wf existing desired \<Longrightarrow> c \<in> set (plan_dns_sync existing desired) \<Longrightarrow> dc_update c \<Longrightarrow>
    \<exists>d \<in> set desired. \<exists>e \<in> set existing. rc_id e = rc_id (dc_record c) \<and> key_of e = key_of d"
proof -
  assume a: "zone_wf existing desired" "c \<in> set (plan_dns_sync existing desired)" "dc_update c"
  then obtain d e where "replaces existing desired d e" "c = update_to d e" using plan_updates[OF a(1,2)] by auto
  then show ?thesis by (intro bexI[of _ d] bexI[of _ e]) (auto simp: replaces_def)
qed

lemma updates_in_fate:
  assumes wf: "zone_wf existing desired" and e: "e \<in> set existing"
  shows "rc_id (updates_in (plan_dns_sync existing desired) e) = rc_id e
    \<and> (updates_in (plan_dns_sync existing desired) e = e
       \<or> (\<exists>d. replaces existing desired d e \<and> updates_in (plan_dns_sync existing desired) e = updated_record (d\<lparr>rc_id := rc_id e\<rparr>) e))"
proof (cases "find (\<lambda>c. dc_update c \<and> rc_id (dc_record c) = rc_id e) (plan_dns_sync existing desired)")
  case (Some c)
  then have c: "c \<in> set (plan_dns_sync existing desired)" "dc_update c" "rc_id (dc_record c) = rc_id e" by (auto dest: find_same)
  then obtain d e' where r: "replaces existing desired d e'" "c = update_to d e'" using plan_updates[OF wf c(1)] by auto
  have "e' = e" using distinct_pairs_inj[of rc_id existing e' e] wf e r c(3) by (simp add: zone_wf_def replaces_def)
  then show ?thesis using r Some by (auto simp: updates_in_def updated_record_def)
qed (simp add: updates_in_def)

text \<open>A record of the zone is kept, or brought to a declared one: of its own name, type and value (for its TTL or priority), or in
  place of the only other value of a type that has one (\<open>A\<close>, \<open>AAAA\<close>, \<open>CNAME\<close>).\<close>

definition kept_or_declared :: "zone_record list \<Rightarrow> zone_record \<Rightarrow> zone_record \<Rightarrow> bool" where
  "kept_or_declared desired e x \<longleftrightarrow> rc_id x = rc_id e \<and> (x = e \<or> (\<exists>d \<in> set desired. key_of d = key_of e \<and> x = updated_record (d\<lparr>rc_id := rc_id e\<rparr>) e
     \<and> (nv d = nv e \<or> to_upper (rc_type d) \<in> {''A'', ''AAAA'', ''CNAME''})))"


definition a_record :: "string \<Rightarrow> string \<Rightarrow> string \<Rightarrow> string \<Rightarrow> int \<Rightarrow> zone_record" where
  "a_record i typ name v ttl = \<lparr>rc_id = i, rc_type = typ, rc_name = name, rc_value = v, rc_ttl = ttl, rc_priority = 0\<rparr>"

text \<open>A zone with an old address, mail records and a name nobody declared.\<close>

definition demo_zone :: "zone_record list" where
  "demo_zone = [a_record ''1'' ''A'' ''@'' ''1.2.3.4'' 60, a_record ''2'' ''MX'' ''@'' ''mail.example.com.'' 60, a_record ''3'' ''TXT'' ''verify'' ''x'' 60,
     a_record ''4'' ''MX'' ''@'' ''backup.example.com.'' 60]"

definition demo_records :: "zone_record list" where
  "demo_records = [a_record [] ''a'' ''@'' ''5.6.7.8'' 0, a_record [] ''MX'' ''@'' ''MAIL.example.com'' 300, a_record [] ''CNAME'' ''www'' ''@'' 0]"

definition unary_ids :: "nat \<Rightarrow> string" where "unary_ids n = replicate (n + 4) CHR ''1''"


subsection \<open>Which host writes which record\<close>

record dns_record_config =
  dr_zone :: string
  dr_type :: string
  dr_name :: string
  dr_value :: string
  dr_ttl :: int
  dr_priority :: int
  dr_service :: string

record host_record = dns_record_config +
  hr_zone :: string
  hr_host :: string
  hr_from :: string

datatype dns_error =
    NoZone string string | UnknownService string | TiedWildcard string | ValueGiven string | NoHostAddress string | WrongFamily string
  | WildcardRoute string | ApexRoute string | ClaimedTwice string string string | CnameShared string string

definition record_key :: "host_record \<Rightarrow> string" where
  "record_key r = to_lower (hr_zone r) @ CHR 0x00 # to_lower (dr_name r) @ CHR 0x00 # to_upper (dr_type r)"

definition is_address_type :: "string \<Rightarrow> bool" where
  "is_address_type t \<longleftrightarrow> equal_fold t ''A'' \<or> equal_fold t ''AAAA''"

definition record_name :: "string \<Rightarrow> string \<Rightarrow> string" where
  "record_name name zone = (if name = ''@'' then zone else name @ ''.'' @ zone)"

text \<open>\<open>HostAddress\<close>: whether the address is IPv4, and its canonical spelling (an IPv4 address has one spelling).\<close>

definition host_address :: "(string \<Rightarrow> string option) \<Rightarrow> fleet \<Rightarrow> string \<Rightarrow> (bool \<times> string) option" where
  "host_address ip6 f host = (case map_of (fl_hosts f) host of None \<Rightarrow> None
     | Some h \<Rightarrow> (let a = trim_space (hc_address h) in
         if parse_ip4 a \<noteq> None then Some (True, a) else map_option (\<lambda>s. (False, s)) (ip6 a)))"

definition address_for :: "(string \<Rightarrow> string option) \<Rightarrow> fleet \<Rightarrow> string \<Rightarrow> string \<Rightarrow> dns_error + string" where
  "address_for ip6 f host typ = (case host_address ip6 f host of None \<Rightarrow> Inl (NoHostAddress host)
     | Some (v4, a) \<Rightarrow> if equal_fold typ ''A'' \<noteq> v4 then Inl (WrongFamily host) else Inr a)"

definition service_named :: "service list \<Rightarrow> string \<Rightarrow> service option" where
  "service_named svcs n = map_of (rev (map (\<lambda>s. (sv_name s, s)) svcs)) n"

definition host_of_service :: "fleet \<Rightarrow> service \<Rightarrow> string" where "host_of_service f s = host_of f (service_config.truncate s)"

definition in_zone :: "dns_record_config \<Rightarrow> string \<Rightarrow> string \<Rightarrow> string \<Rightarrow> host_record" where
  "in_zone r zone host src = dns_record_config.extend r (host_record.fields zone host src)"

definition declared_record :: "(string \<Rightarrow> string option) \<Rightarrow> fleet \<Rightarrow> service list \<Rightarrow> dns_record_config \<Rightarrow> dns_error + host_record" where
  "declared_record ip6 f svcs r =
     (let zone = (if trim_space (dr_zone r) = [] then trim_space (fl_domain f) else trim_space (dr_zone r)) in
      if zone = [] then Inl (NoZone (dr_type r) (dr_name r))
      else if dr_service r = [] then Inr (in_zone r zone (default_host_name f) ''dns_records'')
      else case service_named svcs (dr_service r) of None \<Rightarrow> Inl (UnknownService (dr_service r))
      | Some svc \<Rightarrow>
          if CHR ''*'' \<in> set (dr_name r) then Inl (TiedWildcard (dr_name r))
          else let host = host_of_service f svc in
          if is_address_type (dr_type r) then
            (if trim_space (dr_value r) \<noteq> [] then Inl (ValueGiven (dr_name r))
             else case address_for ip6 f host (dr_type r) of Inl e \<Rightarrow> Inl e
               | Inr v \<Rightarrow> Inr (in_zone (r\<lparr>dr_value := v\<rparr>) zone host ''dns_records''))
          else Inr (in_zone r zone host ''dns_records''))"

text \<open>The record of a route off the default host; None where the route needs none.\<close>

definition route_record :: "(string \<Rightarrow> string option) \<Rightarrow> fleet \<Rightarrow> service \<Rightarrow> dns_error + host_record option" where
  "route_record ip6 f svc =
     (let host = host_of_service f svc in
      case sv_routing svc of None \<Rightarrow> Inr None
      | Some rt \<Rightarrow>
          if host = default_host_name f \<or> rt_external rt \<or> trim_space (rt_domain rt) = [] then Inr None
          else let domain = to_lower (trim_suffix (trim_space (rt_domain rt)) ''.''); zone = to_lower (trim_suffix (trim_space (fl_domain f)) ''.'') in
          if CHR ''*'' \<in> set domain then Inl (WildcardRoute (sv_name svc))
          else if zone = [] \<or> \<not> suffix (CHR ''.'' # zone) domain then
            (if zone \<noteq> [] \<and> domain = zone then Inl (ApexRoute (sv_name svc)) else Inr None)
          else case address_for ip6 f host ''A'' of Inl e \<Rightarrow> Inl e
            | Inr v \<Rightarrow> Inr (Some (in_zone \<lparr>dr_zone = [], dr_type = ''A'', dr_name = trim_suffix domain (CHR ''.'' # zone), dr_value = v, dr_ttl = 0,
                dr_priority = 0, dr_service = sv_name svc\<rparr> (trim_space (fl_domain f)) host (''service '' @ sv_name svc @ [CHR 0x27] @ ''s route''))))"

fun all_or_error :: "('e + 'a) list \<Rightarrow> 'e + 'a list" where
  "all_or_error [] = Inr []"
| "all_or_error (x # xs) = (case x of Inl e \<Rightarrow> Inl e | Inr a \<Rightarrow> (case all_or_error xs of Inl e \<Rightarrow> Inl e | Inr as \<Rightarrow> Inr (a # as)))"

definition route_records :: "(string \<Rightarrow> string option) \<Rightarrow> fleet \<Rightarrow> service list \<Rightarrow> dns_error + host_record list" where
  "route_records ip6 f svcs =
     (if length (fl_hosts f) < 2 then Inr []
      else case all_or_error (map (\<lambda>n. case service_named svcs n of None \<Rightarrow> Inr None | Some s \<Rightarrow> route_record ip6 f s) (sort (map sv_name svcs))) of
        Inl e \<Rightarrow> Inl e | Inr rs \<Rightarrow> Inr (List.map_filter id rs))"

text \<open>No record is claimed by two hosts: \<open>owner\<close> is the map of the code, in the order of its insertions.\<close>

definition domain_records :: "fleet \<Rightarrow> host_record list" where
  "domain_records f =
     (let d = trim_space (fl_domain f); h = default_host_name f in
      if d = [] \<or> h = [] then []
      else map (\<lambda>n. in_zone \<lparr>dr_zone = [], dr_type = ''A'', dr_name = n, dr_value = [], dr_ttl = 0, dr_priority = 0, dr_service = []\<rparr> d h ''reconcile, for domain:'') [''@'', ''*''])"

fun claim_all :: "host_record list \<Rightarrow> (string \<times> host_record) list \<Rightarrow> dns_error + (string \<times> host_record) list" where
  "claim_all [] owner = Inr owner"
| "claim_all (r # rs) owner = (case map_of owner (record_key r) of
     Some x \<Rightarrow> if hr_host x \<noteq> hr_host r then Inl (ClaimedTwice (record_name (dr_name r) (hr_zone r)) (hr_host x) (hr_host r)) else claim_all rs owner
   | None \<Rightarrow> claim_all rs (owner @ [(record_key r, r)]))"

definition zone_name :: "host_record \<Rightarrow> string" where
  "zone_name r = to_lower (hr_zone r) @ CHR 0x00 # to_lower (dr_name r) @ [CHR 0x00]"

definition cname_clash :: "(string \<times> host_record) list \<Rightarrow> host_record \<Rightarrow> bool" where
  "cname_clash owner r \<longleftrightarrow> list_ex (\<lambda>(k, x). prefix (zone_name r) k \<and> hr_host x \<noteq> hr_host r
     \<and> (equal_fold (dr_type r) ''CNAME'' \<or> equal_fold (dr_type x) ''CNAME'')) owner"

definition records_by_host :: "(string \<Rightarrow> string option) \<Rightarrow> fleet \<Rightarrow> dns_record_config list \<Rightarrow> service list \<Rightarrow> dns_error + host_record list" where
  "records_by_host ip6 f rs svcs = (case all_or_error (map (declared_record ip6 f svcs) rs) of Inl e \<Rightarrow> Inl e
     | Inr declared \<Rightarrow> (case route_records ip6 f svcs of Inl e \<Rightarrow> Inl e
         | Inr routes \<Rightarrow>
             let all = declared @ routes in
             (case claim_all all (map (\<lambda>r. (record_key r, r)) (domain_records f)) of Inl e \<Rightarrow> Inl e
              | Inr owner \<Rightarrow> (case find (cname_clash owner) all of Some r \<Rightarrow> Inl (CnameShared (record_name (dr_name r) (hr_zone r)) (hr_host r)) | None \<Rightarrow> Inr all))))"

lemma all_or_error_Inr: "all_or_error xs = Inr ys \<Longrightarrow> y \<in> set ys \<longleftrightarrow> Inr y \<in> set xs"
  by (induction xs arbitrary: ys) (auto split: sum.splits)

lemma claim_all_owner:
  "claim_all rs owner = Inr owner' \<Longrightarrow> (\<forall>k x. map_of owner k = Some x \<longrightarrow> map_of owner' k = Some x)
    \<and> (\<forall>r \<in> set rs. \<exists>x. map_of owner' (record_key r) = Some x \<and> hr_host x = hr_host r)"
proof (induction rs arbitrary: owner)
  case (Cons r rs)
  show ?case
  proof (cases "map_of owner (record_key r)")
    case None
    then have c: "claim_all rs (owner @ [(record_key r, r)]) = Inr owner'" using Cons.prems by simp
    have m: "map_of (owner @ [(record_key r, r)]) (record_key r) = Some r" using None by (simp add: map_add_def)
    have "map_of owner k = Some x \<Longrightarrow> map_of (owner @ [(record_key r, r)]) k = Some x" for k x using None by (auto simp: map_add_def split: option.splits)
    then show ?thesis using Cons.IH[OF c] m by auto
  next
    case (Some x)
    then have c: "claim_all rs owner = Inr owner'" and h: "hr_host x = hr_host r" using Cons.prems by (auto split: if_splits)
    then show ?thesis using Cons.IH[OF c] Some by auto
  qed
qed simp

lemma in_zone_simps [simp]:
  "hr_zone (in_zone r z h s) = z" "hr_host (in_zone r z h s) = h" "dr_type (in_zone r z h s) = dr_type r" "dr_name (in_zone r z h s) = dr_name r"
  "dr_value (in_zone r z h s) = dr_value r" "dr_service (in_zone r z h s) = dr_service r"
  by (simp_all add: in_zone_def dns_record_config.defs host_record.defs)

text \<open>To a provider a zone is the same with or without a trailing dot, and names and types are without case.\<close>

definition same_name_in_zone :: "host_record \<Rightarrow> host_record \<Rightarrow> bool" where
  "same_name_in_zone r s \<longleftrightarrow> to_lower (trim_suffix (hr_zone r) ''.'') = to_lower (trim_suffix (hr_zone s) ''.'') \<and> to_lower (dr_name r) = to_lower (dr_name s)"

definition same_record :: "host_record \<Rightarrow> host_record \<Rightarrow> bool" where
  "same_record r s \<longleftrightarrow> same_name_in_zone r s \<and> to_upper (dr_type r) = to_upper (dr_type s)"

definition no_trailing_dots :: "fleet \<Rightarrow> dns_record_config list \<Rightarrow> bool" where
  "no_trailing_dots f rs \<longleftrightarrow> (\<forall>z \<in> insert (fl_domain f) (dr_zone ` set rs). \<not> suffix ''.'' (trim_space z))"

text \<open>Where a record of the result comes from.\<close>

definition placed_record :: "fleet \<Rightarrow> service list \<Rightarrow> host_record \<Rightarrow> bool" where
  "placed_record f svcs r \<longleftrightarrow>
     (dr_service r \<noteq> [] \<longrightarrow> (\<exists>svc. service_named svcs (dr_service r) = Some svc \<and> hr_host r = host_of_service f svc))
   \<and> (dr_service r = [] \<and> hr_from r = ''dns_records'' \<longrightarrow> hr_host r = default_host_name f)"

lemma in_zone_from [simp]: "hr_from (in_zone r z h src) = src"
  by (simp add: in_zone_def dns_record_config.defs host_record.defs)

lemma declared_placed:
  assumes "declared_record ip6 f svcs c = Inr r"
  shows "placed_record f svcs r \<and> hr_zone r \<in> {trim_space (dr_zone c), trim_space (fl_domain f)}
    \<and> (is_address_type (dr_type r) \<and> dr_service r \<noteq> [] \<longrightarrow> address_for ip6 f (hr_host r) (dr_type r) = Inr (dr_value r))"
  using assms by (auto simp: declared_record_def placed_record_def Let_def split: if_splits option.splits sum.splits)

lemma service_named_name: "service_named svcs n = Some s \<Longrightarrow> sv_name s = n"
  by (auto simp: service_named_def dest: map_of_SomeD)

lemma route_placed:
  assumes "service_named svcs n = Some s" and "route_record ip6 f s = Inr (Some r)"
  shows "placed_record f svcs r \<and> hr_zone r = trim_space (fl_domain f)
    \<and> (is_address_type (dr_type r) \<and> dr_service r \<noteq> [] \<longrightarrow> address_for ip6 f (hr_host r) (dr_type r) = Inr (dr_value r))"
  using assms service_named_name[OF assms(1)]
  by (auto simp: route_record_def placed_record_def Let_def split: if_splits option.splits sum.splits)

lemma trim_no_suffix: "\<not> suffix ''.'' z \<Longrightarrow> trim_suffix z ''.'' = z"
  by (simp add: trim_suffix_def)


subsection \<open>A fleet of two hosts\<close>

definition fleet_of_two :: fleet where
  "fleet_of_two = \<lparr>fl_domain = ''example.com'', fl_network = \<lparr>nc_bridge = ''incusbr0'', nc_cidr = ''10.0.0.1/24''\<rparr>,
     fl_hosts = [(''a'', \<lparr>hc_provider = [], hc_address = ''1.2.3.4'', hc_remote = [], hc_network = None, hc_mesh = None\<rparr>),
                 (''b'', \<lparr>hc_provider = [], hc_address = ''5.6.7.8'', hc_remote = [], hc_network = None, hc_mesh = None\<rparr>)],
     fl_default = ''a'', fl_backup = None, fl_snapshots = None, fl_flags = None, fl_mesh = None\<rparr>"

definition git_on_b :: service where
  "git_on_b = git_service\<lparr>sv_host := ''b'', sv_routing := Some ((app_route [])\<lparr>rt_domain := ''Git.Example.com.''\<rparr>)\<rparr>"

definition www_record :: "string \<Rightarrow> string \<Rightarrow> string \<Rightarrow> string \<Rightarrow> dns_record_config" where
  "www_record zone name v svc = \<lparr>dr_zone = zone, dr_type = ''A'', dr_name = name, dr_value = v, dr_ttl = 0, dr_priority = 0, dr_service = svc\<rparr>"


text \<open>
  A zone written with a trailing dot is another zone to the check, and the same one to the provider: two hosts' daemons may
  both write its records.
\<close>

lemma trailing_dot_claims_twice:
  "case records_by_host (\<lambda>_. None) fleet_of_two [www_record ''example.com.'' ''git'' ''9.9.9.9'' []] [git_on_b] of Inl _ \<Rightarrow> False
   | Inr out \<Rightarrow> map (\<lambda>r. (dr_name r, trim_suffix (hr_zone r) ''.'', hr_host r)) out = [(''git'', ''example.com'', ''a''), (''git'', ''example.com'', ''b'')]"
  by code_simp

end
