(* ===== verification/Network_Plan.thy ===== *)
theory Network_Plan
  imports Dns
begin

text \<open>
  The network part of a fleet's plan (\<open>pkg/engine/network.go\<close>): the bridge check, the edge's Caddyfile, the DNS records, and
  applying them.

  \<^item> \<open>network_host\<close> is the host, the bridge's address as Incus tells it, and the DNS provider (a zone's records; a
    \<open>SyncRecords\<close>).
  \<^item> A file of the configuration directory that cannot be read counts as absent here. An \<open>ipv4.address\<close> that is not IPv4 is
    treated as one that does not parse.
\<close>

subsection \<open>The plan\<close>

record host_share =
  sh_host :: string
  sh_default :: string
  sh_others :: "(string \<times> string) list"

definition elsewhere :: "host_share option \<Rightarrow> string \<Rightarrow> string option" where
  "elsewhere share svc = (case share of None \<Rightarrow> None | Some s \<Rightarrow> map_of (sh_others s) svc)"

datatype dns_setup = DnsOff | DnsBroken | DnsOn

record 'w network_host =
  nh_engine :: "'w engine_host"
  nh_bridge :: "string \<Rightarrow> 'w \<Rightarrow> string option"
  nh_dns :: dns_setup
  nh_limit :: "string list"
  nh_list :: "string \<Rightarrow> 'w \<Rightarrow> zone_record list option"
  nh_sync :: "string \<Rightarrow> zone_record list \<Rightarrow> 'w \<Rightarrow> 'w \<times> bool"
  nh_bind :: "string \<Rightarrow> string"

datatype network_change = DnsCreate string | DnsUpdate string | EdgeCaddyfile "(nat \<times> nat) option"
datatype network_note = BridgeUnchecked | CaddyfileAtCreation | CaddyfileElsewhere string | DnsElsewhere string "string list" | DnsNotPlanned
datatype network_blocker =
    CidrUnreadable string | BridgeUnreadable string | BridgeDiffers string string string | NoEdgeForCaddyfile | CaddyfileRefused edge_error
  | DnsConfig dns_error | ApexDeclared string | ZoneOutside string | DnsUnavailable | ZoneUnreadable string

record network_plan =
  np_changes :: "network_change list"
  np_notes :: "network_note list"
  np_blockers :: "network_blocker list"
  np_caddyfile :: string
  np_zones :: "(string \<times> zone_record list) list"
  np_planned :: "(string \<times> string) list"
  np_bind :: string

definition empty_network_plan :: network_plan where
  "empty_network_plan = \<lparr>np_changes = [], np_notes = [], np_blockers = [], np_caddyfile = [], np_zones = [], np_planned = [], np_bind = []\<rparr>"

definition net_change :: "network_change \<Rightarrow> network_plan \<Rightarrow> network_plan" where "net_change c n = n\<lparr>np_changes := np_changes n @ [c]\<rparr>"
definition net_note :: "network_note \<Rightarrow> network_plan \<Rightarrow> network_plan" where "net_note x n = n\<lparr>np_notes := np_notes n @ [x]\<rparr>"
definition net_block :: "network_blocker \<Rightarrow> network_plan \<Rightarrow> network_plan" where "net_block b n = n\<lparr>np_blockers := np_blockers n @ [b]\<rparr>"

definition plan_bridge :: "'w network_host \<Rightarrow> fleet \<Rightarrow> string \<Rightarrow> 'w \<Rightarrow> network_plan \<Rightarrow> network_plan" where
  "plan_bridge nh f host_name w n = (case local_network f host_name of None \<Rightarrow> net_note BridgeUnchecked n
     | Some l \<Rightarrow> (case parse_prefix4 (nc_cidr l) of None \<Rightarrow> net_block (CidrUnreadable (nc_cidr l)) n
         | Some want \<Rightarrow> (case nh_bridge nh (nc_bridge l) w of None \<Rightarrow> net_block (BridgeUnreadable (nc_bridge l)) n
             | Some out \<Rightarrow> let live = trim_space out in
                 if (case parse_prefix4 live of None \<Rightarrow> True | Some p \<Rightarrow> \<not> prefix_contains want (fst p) \<or> masked p \<noteq> masked want)
                 then net_block (BridgeDiffers (nc_bridge l) (or_none live) (nc_cidr l)) n else n)))"

definition plan_edge_caddyfile :: "'w network_host \<Rightarrow> surroundings \<Rightarrow> host_share option \<Rightarrow> service list \<Rightarrow> 'w \<Rightarrow> network_plan \<Rightarrow> engine_error + network_plan" where
  "plan_edge_caddyfile nh su share svcs w n = (case su_file su ''edge/Caddyfile'' of None \<Rightarrow> Inr n
     | Some b \<Rightarrow> (case eh_exists (nh_engine nh) edge_name w of None \<Rightarrow> Inl HUnreadable
         | Some False \<Rightarrow>
             Inr (if list_ex (\<lambda>s. sv_name s = edge_name) svcs then net_note CaddyfileAtCreation n
                  else case elsewhere share edge_name of Some h \<Rightarrow> net_note (CaddyfileElsewhere h) n | None \<Rightarrow> net_block NoEdgeForCaddyfile n)
         | Some True \<Rightarrow> (case caddyfile_drift (eh_edge (nh_engine nh)) b w of Inl e \<Rightarrow> Inr (net_block (CaddyfileRefused e) n)
             | Inr (differs, found, added, removed) \<Rightarrow>
                 Inr (if \<not> differs then n else net_change (EdgeCaddyfile (if found then Some (added, removed) else None)) (n\<lparr>np_caddyfile := b\<rparr>)))))"

definition dns_detail :: "string \<Rightarrow> zone_record \<Rightarrow> string" where
  "dns_detail zone r = rc_type r @ '' '' @ record_name (rc_name r) zone @ '' '' @ rc_value r
     @ (if rc_priority r > 0 then '' priority '' @ int_string (rc_priority r) else []) @ (if rc_ttl r > 0 then '' ttl '' @ int_string (rc_ttl r) else [])"

definition dns_details :: "string \<Rightarrow> dns_change list \<Rightarrow> string" where
  "dns_details zone cs = join_with ''; '' (sort (map (\<lambda>c. dns_detail zone (dc_record c)) cs))"

definition contains_fold :: "string list \<Rightarrow> string \<Rightarrow> bool" where
  "contains_fold xs s \<longleftrightarrow> list_ex (\<lambda>x. equal_fold (trim_suffix (trim_space x) ''.'') (trim_suffix s ''.'')) xs"

definition desired_of :: "host_record list \<Rightarrow> string \<Rightarrow> zone_record list" where
  "desired_of rs zone = map (\<lambda>r. \<lparr>rc_id = [], rc_type = dr_type r, rc_name = dr_name r, rc_value = dr_value r, rc_ttl = dr_ttl r, rc_priority = dr_priority r\<rparr>)
     (filter (\<lambda>r. hr_zone r = zone) rs)"

definition plan_zone :: "'w network_host \<Rightarrow> host_record list \<Rightarrow> 'w \<Rightarrow> string \<Rightarrow> network_plan \<Rightarrow> network_plan" where
  "plan_zone nh mine w zone n = (case nh_list nh zone w of None \<Rightarrow> net_block (ZoneUnreadable zone) n
     | Some existing \<Rightarrow>
         (let desired = desired_of mine zone; cs = plan_dns_sync existing desired in
          if cs = [] then n
          else fold (\<lambda>c. net_change (if dc_update c then DnsUpdate (dns_detail zone (dc_record c)) else DnsCreate (dns_detail zone (dc_record c)))) cs
                 (n\<lparr>np_zones := np_zones n @ [(zone, desired)], np_planned := np_planned n @ [(zone, dns_details zone cs)]\<rparr>)))"

text \<open>The records of other hosts, by host.\<close>

definition note_others :: "host_share option \<Rightarrow> host_record list \<Rightarrow> network_plan \<Rightarrow> network_plan" where
  "note_others share all n = (case share of None \<Rightarrow> n
     | Some s \<Rightarrow> let rest = filter (\<lambda>r. hr_host r \<noteq> sh_host s) all in
         fold (\<lambda>h. net_note (DnsElsewhere h (map (\<lambda>r. dr_type r @ '' '' @ record_name (dr_name r) (hr_zone r)) (filter (\<lambda>r. hr_host r = h) rest))))
           (sort (remdups (map hr_host rest))) n)"

definition own_records :: "host_share option \<Rightarrow> host_record list \<Rightarrow> host_record list" where
  "own_records share all = (case share of None \<Rightarrow> all | Some s \<Rightarrow> filter (\<lambda>r. hr_host r = sh_host s) all)"

definition zone_blockers :: "'w network_host \<Rightarrow> fleet \<Rightarrow> host_record list \<Rightarrow> string list \<Rightarrow> network_blocker list" where
  "zone_blockers nh f mine zones =
     (if fl_domain f = [] then []
      else map (\<lambda>r. ApexDeclared (dr_name r)) (filter (\<lambda>r. hr_zone r = to_lower (fl_domain f) \<and> equal_fold (dr_type r) ''A'' \<and> (dr_name r = ''@'' \<or> dr_name r = ''*'')) mine))
     @ (if nh_limit nh = [] then [] else map ZoneOutside (filter (\<lambda>z. \<not> contains_fold (nh_limit nh) z) zones))"

definition plan_dns :: "'w network_host \<Rightarrow> (string \<Rightarrow> string option) \<Rightarrow> fleet \<Rightarrow> dns_record_config list \<Rightarrow> host_share option \<Rightarrow> service list \<Rightarrow> 'w \<Rightarrow> network_plan \<Rightarrow> network_plan" where
  "plan_dns nh ip6 f rs share svcs w n = (case records_by_host ip6 f rs svcs of Inl e \<Rightarrow> net_block (DnsConfig e) n
     | Inr all \<Rightarrow>
         (let n1 = note_others share all n; mine = own_records share all; zones = sort (remdups (map hr_zone mine));
              n2 = fold net_block (zone_blockers nh f mine zones) n1 in
          if mine = [] then n1
          else if np_blockers n2 \<noteq> [] then n2
          else case nh_dns nh of DnsOff \<Rightarrow> net_note DnsNotPlanned n2 | DnsBroken \<Rightarrow> net_block DnsUnavailable n2
            | DnsOn \<Rightarrow> fold (plan_zone nh mine w) zones n2))"

text \<open>\<open>mine\<close> are the services planned here, \<open>svcs\<close> those of the whole repository.\<close>

definition plan_network ::
  "'w network_host \<Rightarrow> surroundings \<Rightarrow> (string \<Rightarrow> string option) \<Rightarrow> fleet \<Rightarrow> dns_record_config list \<Rightarrow> string \<Rightarrow> host_share option \<Rightarrow> service list \<Rightarrow> service list \<Rightarrow> 'w \<Rightarrow> engine_error + network_plan" where
  "plan_network nh su ip6 f rs host_name share mine svcs w =
     (case plan_edge_caddyfile nh su share mine w (plan_bridge nh f host_name w empty_network_plan) of Inl e \<Rightarrow> Inl e
      | Inr n \<Rightarrow> let n' = plan_dns nh ip6 f rs share svcs w n in Inr (n'\<lparr>np_bind := nh_bind nh (np_caddyfile n')\<rparr>))"

subsection \<open>The application\<close>

datatype network_error = NoDnsProvider | DnsBrokenNow | ZoneLost string | ZoneMoved string string | SyncFailed string | CaddyfileFailed edge_error

definition sync_zone :: "'w network_host \<Rightarrow> network_plan \<Rightarrow> string \<times> zone_record list \<Rightarrow> 'w \<Rightarrow> 'w \<times> network_error option" where
  "sync_zone nh n zd w = (let zone = fst zd; desired = snd zd in
     case nh_list nh zone w of None \<Rightarrow> (w, Some (ZoneLost zone))
     | Some existing \<Rightarrow>
         (let got = dns_details zone (plan_dns_sync existing desired) in
          if got \<noteq> (case map_of (np_planned n) zone of None \<Rightarrow> [] | Some s \<Rightarrow> s) then (w, Some (ZoneMoved zone (or_none got)))
          else act (nh_sync nh zone desired) (SyncFailed zone) w))"

definition sync_edge :: "'w network_host \<Rightarrow> string \<Rightarrow> 'w \<Rightarrow> 'w \<times> network_error option" where
  "sync_edge nh content w = (case sync_caddyfile (eh_edge (nh_engine nh)) content w of (w1, Inl e) \<Rightarrow> (w1, Some (CaddyfileFailed e)) | (w1, Inr _) \<Rightarrow> (w1, None))"

definition apply_network :: "'w network_host \<Rightarrow> network_plan option \<Rightarrow> 'w \<Rightarrow> 'w \<times> network_error option" where
  "apply_network nh plan w = (case plan of None \<Rightarrow> (w, None)
     | Some n \<Rightarrow>
         if np_changes n = [] then (w, None)
         else if np_zones n \<noteq> [] \<and> nh_dns nh = DnsOff then (w, Some NoDnsProvider)
         else if np_zones n \<noteq> [] \<and> nh_dns nh = DnsBroken then (w, Some DnsBrokenNow)
         else andthen (each (sync_zone nh n) (sort_key fst (np_zones n))) (only_if (np_caddyfile n \<noteq> []) (sync_edge nh (np_caddyfile n))) w)"

text \<open>
  The address record of the fleet's own domain is \<open>reconcile\<close>'s: declaring it is refused, unless the domain is written with a
  capital letter, since the zones are compared with the domain in lower case.
\<close>

lemma apex_guard_missed:
  "zone_blockers nh (fleet_of_two\<lparr>fl_domain := d\<rparr>) (own_records None [in_zone (www_record [] ''@'' ''9.9.9.9'' []) d ''a'' ''dns_records'']) [d]
   = (if d = [] then [] else if to_lower d = d then [ApexDeclared ''@''] else []) @ (if nh_limit nh = [] then [] else map ZoneOutside (filter (\<lambda>z. \<not> contains_fold (nh_limit nh) z) [d]))"
proof -
  have "equal_fold ''A'' ''A''" by code_simp
  then show ?thesis by (auto simp: zone_blockers_def own_records_def www_record_def)
qed

end
