(* ===== verification/Mesh_Plan.thy ===== *)
theory Mesh_Plan
  imports Fleet_Hosts Engine_Host
begin

text \<open>
  The plan and the application of a host's side of the WireGuard mesh (\<open>pkg/engine/mesh.go\<close>).

  \<^item> The host is what its probe script prints (parsed by \<open>parse_mesh_state\<close>) and the commands the application runs; what
    they do to the probe's answer is documented behaviour of \<open>wg-quick\<close>, \<open>systemctl\<close>, \<open>sysctl\<close> and \<open>ufw\<close>.
  \<^item> The config file is the text the code writes. A change of a plan is its kind with the values its wording prints.
\<close>

subsection \<open>What the probe read\<close>

record mesh_state =
  ms_key_file :: bool
  ms_pub :: string
  ms_tools :: bool
  ms_active :: bool
  ms_enabled :: bool
  ms_live_pub :: string
  ms_forward :: bool
  ms_sysctl :: bool
  ms_ufw :: bool
  ms_routes :: "string list"
  ms_rules :: "string list"
  ms_conf :: string

definition mesh_sysctl_line :: string where "mesh_sysctl_line = ''net.ipv4.ip_forward = 1''"
definition mesh_rule_comment :: string where "mesh_rule_comment = ''comment '' @ CHR 0x27 # ''native-ops mesh'' @ [CHR 0x27]"

definition no_mesh_state :: mesh_state where
  "no_mesh_state = \<lparr>ms_key_file = False, ms_pub = [], ms_tools = False, ms_active = False, ms_enabled = False, ms_live_pub = [],
     ms_forward = False, ms_sysctl = False, ms_ufw = False, ms_routes = [], ms_rules = [], ms_conf = []\<rparr>"

text \<open>\<open>strings.Cut\<close> at a separator of several bytes.\<close>

fun cut_at :: "string \<Rightarrow> string \<Rightarrow> (string \<times> string) option" where
  "cut_at sep [] = (if sep = [] then Some ([], []) else None)"
| "cut_at sep (c # cs) = (if prefix sep (c # cs) then Some ([], drop (length sep) (c # cs)) else map_option (\<lambda>(a, b). (c # a, b)) (cut_at sep cs))"

definition cut_suffix :: "string \<Rightarrow> string \<Rightarrow> string option" where
  "cut_suffix s suf = (if suffix suf s then Some (trim_suffix s suf) else None)"

definition parse_mesh_line :: "string \<Rightarrow> mesh_state \<Rightarrow> mesh_state" where
  "parse_mesh_line ln st =
     (let (k, v0) = (case cut CHR '' '' ln of None \<Rightarrow> (ln, []) | Some kv \<Rightarrow> kv); v = trim_space v0 in
      if k = ''keyfile'' then st\<lparr>ms_key_file := (v = ''yes'')\<rparr>
      else if k = ''pub'' then st\<lparr>ms_pub := v\<rparr>
      else if k = ''tools'' then st\<lparr>ms_tools := (v = ''yes'')\<rparr>
      else if k = ''active'' then st\<lparr>ms_active := (v = ''active'')\<rparr>
      else if k = ''enabled'' then st\<lparr>ms_enabled := (v = ''enabled'')\<rparr>
      else if k = ''livepub'' then st\<lparr>ms_live_pub := v\<rparr>
      else if k = ''forward'' then st\<lparr>ms_forward := (v = ''1'')\<rparr>
      else if k = ''forwardconf'' then st\<lparr>ms_sysctl := (v = mesh_sysctl_line)\<rparr>
      else if k = ''ufw'' then st\<lparr>ms_ufw := (v = ''Status: active'')\<rparr>
      else if k = ''route'' then (case str_fields v of [] \<Rightarrow> st | f # _ \<Rightarrow> st\<lparr>ms_routes := List.insert f (ms_routes st)\<rparr>)
      else if k = ''rule'' then (case cut_suffix (trim_prefix v ''ufw '') (CHR '' '' # mesh_rule_comment) of None \<Rightarrow> st
        | Some spec \<Rightarrow> st\<lparr>ms_rules := List.insert spec (ms_rules st)\<rparr>)
      else st)"

definition parse_mesh_state :: "string \<Rightarrow> mesh_state" where
  "parse_mesh_state out =
     (let sep = CHR 0x0A # ''conf'' @ [CHR 0x0A];
          (head, conf) = (case cut_at sep out of None \<Rightarrow> (trim_suffix out (CHR 0x0A # ''conf''), []) | Some hc \<Rightarrow> hc) in
      fold parse_mesh_line (split_on CHR 0x0A head) (no_mesh_state\<lparr>ms_conf := conf\<rparr>))"

subsection \<open>The config file and the firewall rules\<close>

definition ip4_string :: "ip4 \<Rightarrow> string" where
  "ip4_string a = join_with ''.'' (map (\<lambda>n. dec_string (unat (drop_bit n a AND 0xFF))) [24, 16, 8, 0])"

definition prefix_string :: "ip4_prefix \<Rightarrow> string" where "prefix_string p = ip4_string (fst p) @ ''/'' @ dec_string (snd p)"

definition mesh_dir :: string where "mesh_dir = ''/etc/wireguard''"

definition allowed_ips :: "mesh_peer \<Rightarrow> string" where
  "allowed_ips p = ip4_string (mp_address p) @ ''/32, '' @ prefix_string (mp_bridge p)"

definition nl :: string where "nl = [CHR 0x0A]"

definition peer_block :: "mesh_peer \<Rightarrow> string" where
  "peer_block p = ''# peer '' @ mp_host p @ nl @ ''[Peer]'' @ nl @ ''PublicKey = '' @ mp_key p @ nl @ ''Endpoint = '' @ mp_endpoint p @ nl
     @ ''AllowedIPs = '' @ allowed_ips p @ nl @ ''PersistentKeepalive = 25'' @ nl"

definition mesh_conf :: "mesh_config \<Rightarrow> string \<Rightarrow> string \<Rightarrow> mesh_peer \<Rightarrow> nat \<Rightarrow> mesh_peer list \<Rightarrow> string" where
  "mesh_conf m iface host self bits others =
     ''# Written by native-ops from fleet.yml'' @ [CHR 0x27] @ ''s mesh: (host '' @ host @ ''). An apply rewrites it.'' @ nl
     @ ''# No private key here: PostUp sets it from '' @ mesh_dir @ ''/'' @ iface @ ''.key, which never leaves this host.'' @ nl
     @ ''[Interface]'' @ nl @ ''Address = '' @ ip4_string (mp_address self) @ ''/'' @ dec_string bits @ nl
     @ ''ListenPort = '' @ int_string (mesh_port m) @ nl @ ''PostUp = wg set %i private-key '' @ mesh_dir @ ''/%i.key'' @ nl
     @ concat (map (\<lambda>p. nl @ peer_block p) others)"

definition wanted_conf :: "mesh_config \<Rightarrow> string \<Rightarrow> mesh_peer \<Rightarrow> mesh_peer list \<Rightarrow> string" where
  "wanted_conf m host self others = mesh_conf m (mesh_interface m) host self (case mesh_subnet m of None \<Rightarrow> 0 | Some s \<Rightarrow> snd s) others"

definition conf_peers :: "string \<Rightarrow> string list" where
  "conf_peers conf = map (\<lambda>l. trim_space (trim_prefix l ''# peer '')) (filter (prefix ''# peer '') (split_on CHR 0x0A conf))"

definition has_peer :: "mesh_peer list \<Rightarrow> string \<Rightarrow> bool" where "has_peer ps h \<longleftrightarrow> list_ex (\<lambda>p. mp_host p = h) ps"

definition mesh_rules :: "int \<Rightarrow> string \<Rightarrow> string \<Rightarrow> mesh_peer \<Rightarrow> mesh_peer list \<Rightarrow> string list" where
  "mesh_rules port iface br self others = (''allow '' @ int_string port @ ''/udp'') # concat (map (\<lambda>p.
     [''allow in on '' @ iface @ '' from '' @ ip4_string (mp_address p) @ '' to '' @ ip4_string (mp_address self),
      ''route allow in on '' @ iface @ '' out on '' @ br @ '' from '' @ ip4_string (mp_address p) @ '' to '' @ prefix_string (mp_bridge self),
      ''route allow in on '' @ iface @ '' out on '' @ br @ '' from '' @ prefix_string (mp_bridge p) @ '' to '' @ prefix_string (mp_bridge self)]) others)"

subsection \<open>The plan\<close>

datatype restart_cause = NotRunning | ConfigChanged | RouteGone | OtherKey

datatype mesh_change =
    MeshKeyGenerate | MeshKeyDerive
  | MeshInterfaceWrite bool string nat int nat \<comment> \<open>a rewrite; address, bits, listen port, number of peers\<close>
  | MeshPeerAdd string string string string \<comment> \<open>host, public key, endpoint, allowed IPs\<close>
  | MeshPeerDrop string | MeshRoute string string \<comment> \<open>the bridge, and whose it is\<close>
  | MeshRestart bool bool "restart_cause option" \<comment> \<open>install the tools; enable the unit; restart it, and why\<close>
  | MeshForward | MeshAllow string | MeshDisallow string

datatype mesh_blocker = OwnKeyMissing string | OwnKeyDiffers string | PeerKeyMissing string | PeerEndpointMissing string
datatype mesh_note = PlanAgainForKey | UfwInactive

record mesh_plan =
  mh_host :: string
  mh_interface :: string
  mh_public_key :: string
  mh_changes :: "mesh_change list"
  mh_notes :: "mesh_note list"
  mh_blockers :: "mesh_blocker list"
  mh_gen_key :: bool
  mh_conf :: string
  mh_tools :: bool
  mh_enable :: bool
  mh_restart :: bool
  mh_forward :: bool
  mh_add_rules :: "string list"
  mh_del_rules :: "string list"
  mh_desired :: string

datatype mesh_error = MeshConfig fleet_error | MeshNotAHost string | MeshUnreadable | MeshDisabled | MeshMoved | MeshKeyFailed | MeshStep string

definition empty_mesh_plan :: "string \<Rightarrow> string \<Rightarrow> string \<Rightarrow> mesh_plan" where
  "empty_mesh_plan host iface pub = \<lparr>mh_host = host, mh_interface = iface, mh_public_key = pub, mh_changes = [], mh_notes = [], mh_blockers = [],
     mh_gen_key = False, mh_conf = [], mh_tools = False, mh_enable = False, mh_restart = False, mh_forward = False, mh_add_rules = [],
     mh_del_rules = [], mh_desired = []\<rparr>"

text \<open>Where every key and endpoint is known: the interface, its routes and unit, forwarding, and the firewall.\<close>

definition interface_changes :: "string \<times> nat \<times> int \<Rightarrow> string \<Rightarrow> mesh_state \<Rightarrow> mesh_peer list \<Rightarrow> mesh_change list" where
  "interface_changes at conf st others =
     (if ms_conf st = conf then []
      else MeshInterfaceWrite (ms_conf st \<noteq> []) (fst at) (fst (snd at)) (snd (snd at)) (length others)
        # map (\<lambda>p. MeshPeerAdd (mp_host p) (mp_key p) (mp_endpoint p) (allowed_ips p)) (filter (\<lambda>p. \<not> list_ex (prefix (peer_block p)) (suffixes (ms_conf st))) others)
        @ map MeshPeerDrop (filter (\<lambda>h. \<not> has_peer others h) (conf_peers (ms_conf st))))"

definition route_missing :: "mesh_state \<Rightarrow> mesh_peer \<Rightarrow> bool" where
  "route_missing st p \<longleftrightarrow> \<not> ms_active st \<or> prefix_string (mp_bridge p) \<notin> set (ms_routes st)"

definition restart_reason :: "string \<Rightarrow> mesh_state \<Rightarrow> mesh_peer list \<Rightarrow> restart_cause option" where
  "restart_reason conf st others =
     (if \<not> ms_active st then Some NotRunning
      else if ms_conf st \<noteq> conf then Some ConfigChanged
      else if list_ex (route_missing st) others then Some RouteGone
      else if ms_live_pub st \<noteq> [] \<and> ms_live_pub st \<noteq> ms_pub st then Some OtherKey
      else None)"

lemma restart_due: "restart_reason conf st others \<noteq> None \<longleftrightarrow>
    \<not> ms_active st \<or> ms_conf st \<noteq> conf \<or> list_ex (route_missing st) others \<or> (ms_live_pub st \<noteq> [] \<and> ms_live_pub st \<noteq> ms_pub st)"
  by (simp add: restart_reason_def)

definition firewall_adds :: "string list \<Rightarrow> mesh_state \<Rightarrow> string list" where
  "firewall_adds want st = (if ms_ufw st then filter (\<lambda>r. r \<notin> set (ms_rules st)) want else [])"
definition firewall_drops :: "string list \<Rightarrow> mesh_state \<Rightarrow> string list" where
  "firewall_drops want st = (if ms_ufw st then sort (filter (\<lambda>r. r \<notin> set want) (ms_rules st)) else [])"

text \<open>\<open>at\<close>: the address, prefix length and port that the plan's wording prints.\<close>

definition ready_plan :: "string \<Rightarrow> string \<Rightarrow> string \<times> nat \<times> int \<Rightarrow> string \<Rightarrow> string list \<Rightarrow> mesh_peer list \<Rightarrow> mesh_state \<Rightarrow> mesh_plan" where
  "ready_plan host iface at conf want others st =
     (let why = restart_reason conf st others; fwd = (\<not> ms_forward st \<or> \<not> ms_sysctl st); adds = firewall_adds want st; drops = firewall_drops want st in
      (empty_mesh_plan host iface (ms_pub st))\<lparr>
        mh_conf := (if ms_conf st = conf then [] else conf), mh_tools := \<not> ms_tools st, mh_enable := \<not> ms_enabled st, mh_restart := (why \<noteq> None),
        mh_forward := fwd, mh_add_rules := adds, mh_del_rules := drops, mh_desired := conf, mh_notes := (if ms_ufw st then [] else [UfwInactive]),
        mh_changes := interface_changes at conf st others
          @ map (\<lambda>p. MeshRoute (prefix_string (mp_bridge p)) (mp_host p)) (filter (route_missing st) others)
          @ (if why \<noteq> None \<or> \<not> ms_tools st \<or> \<not> ms_enabled st then [MeshRestart (\<not> ms_tools st) (\<not> ms_enabled st) why] else [])
          @ (if fwd then [MeshForward] else []) @ map MeshAllow adds @ map MeshDisallow drops\<rparr>)"

definition key_blockers :: "mesh_state \<Rightarrow> mesh_peer \<Rightarrow> mesh_peer list \<Rightarrow> mesh_blocker list" where
  "key_blockers st self others =
     (if mp_key self = [] then [OwnKeyMissing (ms_pub st)] else if mp_key self \<noteq> ms_pub st then [OwnKeyDiffers (ms_pub st)] else [])
     @ concat (map (\<lambda>p. (if mp_key p = [] then [PeerKeyMissing (mp_host p)] else []) @ (if mp_endpoint p = [] then [PeerEndpointMissing (mp_host p)] else [])) others)"

definition plan_mesh_state :: "fleet \<Rightarrow> mesh_config \<Rightarrow> string \<Rightarrow> mesh_peer \<Rightarrow> mesh_peer list \<Rightarrow> mesh_state \<Rightarrow> mesh_plan" where
  "plan_mesh_state f m host self others st =
     (let iface = mesh_interface m; base = empty_mesh_plan host iface (ms_pub st) in
      if \<not> ms_key_file st \<or> \<not> valid_wireguard_key (ms_pub st) then
        base\<lparr>mh_gen_key := True, mh_changes := [if \<not> ms_key_file st then MeshKeyGenerate else MeshKeyDerive], mh_notes := [PlanAgainForKey]\<rparr>
      else if key_blockers st self others \<noteq> [] then base\<lparr>mh_blockers := key_blockers st self others\<rparr>
      else ready_plan host iface (ip4_string (mp_address self), case mesh_subnet m of None \<Rightarrow> 0 | Some s \<Rightarrow> snd s, mesh_port m) (wanted_conf m host self others)
             (mesh_rules (mesh_port m) iface (trim_space (nc_bridge (host_network f host))) self others) others st)"

definition split_peers :: "string \<Rightarrow> mesh_peer list \<Rightarrow> mesh_peer option \<times> mesh_peer list" where
  "split_peers host ps = (find (\<lambda>p. mp_host p = host) (rev ps), filter (\<lambda>p. mp_host p \<noteq> host) ps)"

definition plan_mesh :: "fleet \<Rightarrow> mesh_config \<Rightarrow> string \<Rightarrow> string option \<Rightarrow> mesh_error + mesh_plan" where
  "plan_mesh f m host probe = (case mesh_peers f of Inl e \<Rightarrow> Inl (MeshConfig e)
     | Inr ps \<Rightarrow> (case split_peers host ps of (None, _) \<Rightarrow> Inl (MeshNotAHost host)
         | (Some self, others) \<Rightarrow> (case probe of None \<Rightarrow> Inl MeshUnreadable
             | Some out \<Rightarrow> Inr (plan_mesh_state f m host self others (parse_mesh_state out)))))"

subsection \<open>The application\<close>

record 'w mesh_commands =
  mk_probe :: "string \<Rightarrow> 'w \<Rightarrow> string option"
  mk_gen_key :: "string \<Rightarrow> 'w \<Rightarrow> 'w \<times> string option"
  mk_forwarding :: "'w \<Rightarrow> 'w \<times> bool"
  mk_write :: "string \<Rightarrow> string \<Rightarrow> 'w \<Rightarrow> 'w \<times> bool"
  mk_ufw_delete :: "string \<Rightarrow> 'w \<Rightarrow> 'w \<times> bool"
  mk_ufw :: "string \<Rightarrow> 'w \<Rightarrow> 'w \<times> bool"
  mk_install :: "'w \<Rightarrow> 'w \<times> bool"
  mk_enable :: "string \<Rightarrow> 'w \<Rightarrow> 'w \<times> bool"
  mk_restart :: "string \<Rightarrow> 'w \<Rightarrow> 'w \<times> bool"

text \<open>What the plan's JSON shows, and what its digest is taken of.\<close>

definition same_mesh_plan :: "mesh_plan \<Rightarrow> mesh_plan \<Rightarrow> bool" where
  "same_mesh_plan a b \<longleftrightarrow> mh_host a = mh_host b \<and> mh_interface a = mh_interface b \<and> mh_public_key a = mh_public_key b \<and> mh_changes a = mh_changes b
     \<and> mh_notes a = mh_notes b \<and> mh_blockers a = mh_blockers b \<and> mh_desired a = mh_desired b \<and> mh_add_rules a = mh_add_rules b \<and> mh_del_rules a = mh_del_rules b"

definition last_line :: "string \<Rightarrow> string" where "last_line s = trim_space (last (split_on CHR 0x0A (trim_space s)))"

definition generate_key :: "'w mesh_commands \<Rightarrow> string \<Rightarrow> 'w \<Rightarrow> 'w \<times> mesh_error option" where
  "generate_key mk iface w = (case mk_gen_key mk iface w of (w1, None) \<Rightarrow> (w1, Some MeshKeyFailed)
     | (w1, Some out) \<Rightarrow> (w1, if valid_wireguard_key (last_line out) then None else Some MeshKeyFailed))"

definition mesh_steps :: "'w mesh_commands \<Rightarrow> mesh_plan \<Rightarrow> 'w \<Rightarrow> 'w \<times> mesh_error option" where
  "mesh_steps mk p = in_turn
     [only_if (mh_forward p) (act (mk_forwarding mk) (MeshStep ''forwarding'')),
      only_if (mh_conf p \<noteq> []) (act (mk_write mk (mh_interface p) (mh_conf p)) (MeshStep ''conf'')),
      each (\<lambda>r. act (mk_ufw_delete mk r) (MeshStep r)) (mh_del_rules p),
      each (\<lambda>r. act (mk_ufw mk (r @ CHR '' '' # mesh_rule_comment)) (MeshStep r)) (mh_add_rules p),
      only_if (mh_tools p) (act (mk_install mk) (MeshStep ''tools'')),
      only_if (mh_enable p) (act (mk_enable mk (mh_interface p)) (MeshStep ''enable'')),
      only_if (mh_restart p) (act (mk_restart mk (mh_interface p)) (MeshStep ''restart''))]"

definition apply_mesh :: "'w mesh_commands \<Rightarrow> fleet \<Rightarrow> mesh_plan option \<Rightarrow> 'w \<Rightarrow> 'w \<times> mesh_error option" where
  "apply_mesh mk f plan w = (case plan of None \<Rightarrow> (w, None)
     | Some p \<Rightarrow>
         if mh_changes p = [] then (w, None)
         else case fl_mesh f of None \<Rightarrow> (w, Some MeshDisabled)
         | Some m \<Rightarrow>
             if \<not> mesh_enabled f then (w, Some MeshDisabled)
             else case plan_mesh f m (mh_host p) (mk_probe mk (mesh_interface m) w) of Inl e \<Rightarrow> (w, Some e)
             | Inr now \<Rightarrow>
                 if \<not> same_mesh_plan now p then (w, Some MeshMoved)
                 else if mh_gen_key now then generate_key mk (mh_interface now) w
                 else mesh_steps mk now w)"

text \<open>What the commands document about the next probe. Restarting an interface with the config file brings up its routes: every
  peer's bridge.\<close>


definition state_at :: "'w mesh_commands \<Rightarrow> string \<Rightarrow> 'w \<Rightarrow> mesh_state option" where
  "state_at mk iface w = map_option parse_mesh_state (mk_probe mk iface w)"

definition changes_state :: "'w mesh_commands \<Rightarrow> string \<Rightarrow> ('w \<Rightarrow> 'w \<times> bool) \<Rightarrow> (mesh_state \<Rightarrow> mesh_state) \<Rightarrow> bool" where
  "changes_state mk iface a g \<longleftrightarrow> (\<forall>w w' st. a w = (w', True) \<and> state_at mk iface w = Some st \<longrightarrow> state_at mk iface w' = Some (g st))"

definition mesh_documented :: "'w mesh_commands \<Rightarrow> string \<Rightarrow> string \<Rightarrow> mesh_peer list \<Rightarrow> bool" where
  "mesh_documented mk iface conf others \<longleftrightarrow>
     changes_state mk iface (mk_forwarding mk) (\<lambda>st. st\<lparr>ms_forward := True, ms_sysctl := True\<rparr>)
   \<and> (\<forall>c. changes_state mk iface (mk_write mk iface c) (\<lambda>st. st\<lparr>ms_conf := c\<rparr>))
   \<and> (\<forall>r. changes_state mk iface (mk_ufw_delete mk r) (\<lambda>st. st\<lparr>ms_rules := removeAll r (ms_rules st)\<rparr>))
   \<and> (\<forall>r. changes_state mk iface (mk_ufw mk (r @ CHR '' '' # mesh_rule_comment)) (\<lambda>st. st\<lparr>ms_rules := List.insert r (ms_rules st)\<rparr>))
   \<and> changes_state mk iface (mk_install mk) (\<lambda>st. st\<lparr>ms_tools := True\<rparr>)
   \<and> changes_state mk iface (mk_enable mk iface) (\<lambda>st. st\<lparr>ms_enabled := True\<rparr>)
   \<and> (\<forall>w w' st. mk_restart mk iface w = (w', True) \<and> state_at mk iface w = Some st \<longrightarrow>
       (\<exists>rs. state_at mk iface w' = Some (st\<lparr>ms_active := True, ms_live_pub := ms_pub st, ms_routes := rs\<rparr>)
          \<and> (ms_conf st = conf \<longrightarrow> (\<forall>p \<in> set others. prefix_string (mp_bridge p) \<in> set rs))))"

lemma changed_state: "changes_state mk iface a g \<Longrightarrow> act a e w = (w', None) \<Longrightarrow> state_at mk iface w = Some st \<Longrightarrow> state_at mk iface w' = Some (g st)"
  by (auto simp: changes_state_def act_done)

lemma changed_if:
  "changes_state mk iface a g \<Longrightarrow> only_if b (act a e) w = (w', None) \<Longrightarrow> state_at mk iface w = Some st \<Longrightarrow>
    state_at mk iface w' = Some (if b then g st else st)"
  using changed_state by (auto simp: only_if_done)

lemma changed_each:
  assumes "\<forall>r. changes_state mk iface (a r) (g r)" and "each (\<lambda>r. act (a r) (e r)) rs w = (w', None)" and "state_at mk iface w = Some st"
  shows "state_at mk iface w' = Some (fold g rs st)"
  using assms(2,3)
proof (induction rs arbitrary: w st)
  case Nil
  then show ?case by (simp add: skip_def)
next
  case (Cons r rs)
  then obtain w1 where "act (a r) (e r) w = (w1, None)" "each (\<lambda>r. act (a r) (e r)) rs w1 = (w', None)" by (auto simp: andthen_done)
  then have "state_at mk iface w1 = Some (g r st)" using changed_state[OF spec[OF assms(1), of r], of "e r"] Cons.prems(2) by simp
  then show ?case using Cons.IH \<open>each (\<lambda>r. act (a r) (e r)) rs w1 = (w', None)\<close> by simp
qed

lemma fold_dropped: "fold (\<lambda>r st. st\<lparr>ms_rules := removeAll r (ms_rules st)\<rparr>) rs st = st\<lparr>ms_rules := filter (\<lambda>r. r \<notin> set rs) (ms_rules st)\<rparr>"
proof (induction rs arbitrary: st)
  case (Cons r rs)
  have "filter (\<lambda>x. x \<notin> set rs) (removeAll r (ms_rules st)) = filter (\<lambda>x. x \<noteq> r \<and> x \<notin> set rs) (ms_rules st)"
    by (induction "ms_rules st") (auto simp: removeAll_filter_not_eq intro: filter_cong)
  then show ?case using Cons by simp
qed simp

lemma fold_added: "\<exists>rules. fold (\<lambda>r st. st\<lparr>ms_rules := List.insert r (ms_rules st)\<rparr>) rs st = st\<lparr>ms_rules := rules\<rparr> \<and> set rules = set rs \<union> set (ms_rules st)"
proof (induction rs arbitrary: st)
  case Nil
  show ?case by (intro exI[of _ "ms_rules st"]) simp
next
  case (Cons r rs)
  show ?case using Cons[of "st\<lparr>ms_rules := List.insert r (ms_rules st)\<rparr>"] by auto
qed

text \<open>The steps of a ready plan leave nothing for the next one.\<close>

lemma ready_steps_settle:
  assumes doc: "mesh_documented mk iface conf others" and st: "state_at mk iface w = Some st" and conf: "conf \<noteq> []"
    and run: "mesh_steps mk (ready_plan host iface at conf want others st) w = (w', None)"
  shows "\<exists>st'. state_at mk iface w' = Some st' \<and> ms_key_file st' = ms_key_file st \<and> ms_pub st' = ms_pub st \<and> mh_changes (ready_plan host iface at conf want others st') = []"
proof -
  define p where "p = ready_plan host iface at conf want others st"
  have pf: "mh_forward p = (\<not> ms_forward st \<or> \<not> ms_sysctl st)" "mh_conf p = (if ms_conf st = conf then [] else conf)" "mh_interface p = iface"
    "mh_del_rules p = firewall_drops want st" "mh_add_rules p = firewall_adds want st" "mh_tools p = (\<not> ms_tools st)" "mh_enable p = (\<not> ms_enabled st)"
    "mh_restart p = (restart_reason conf st others \<noteq> None)"
    by (simp_all add: p_def ready_plan_def Let_def empty_mesh_plan_def)
  note D = doc[unfolded mesh_documented_def]
  note d1 = D[THEN conjunct1] and d2 = D[THEN conjunct2, THEN conjunct1, rule_format] and d3 = D[THEN conjunct2, THEN conjunct2, THEN conjunct1]
    and d4 = D[THEN conjunct2, THEN conjunct2, THEN conjunct2, THEN conjunct1]
    and d5 = D[THEN conjunct2, THEN conjunct2, THEN conjunct2, THEN conjunct2, THEN conjunct1]
    and d6 = D[THEN conjunct2, THEN conjunct2, THEN conjunct2, THEN conjunct2, THEN conjunct2, THEN conjunct1]
    and d7 = D[THEN conjunct2, THEN conjunct2, THEN conjunct2, THEN conjunct2, THEN conjunct2, THEN conjunct2]
  obtain w1 w2 w3 w4 w5 w6 where s:
    "only_if (mh_forward p) (act (mk_forwarding mk) (MeshStep ''forwarding'')) w = (w1, None)"
    "only_if (mh_conf p \<noteq> []) (act (mk_write mk iface (mh_conf p)) (MeshStep ''conf'')) w1 = (w2, None)"
    "each (\<lambda>r. act (mk_ufw_delete mk r) (MeshStep r)) (mh_del_rules p) w2 = (w3, None)"
    "each (\<lambda>r. act (mk_ufw mk (r @ CHR '' '' # mesh_rule_comment)) (MeshStep r)) (mh_add_rules p) w3 = (w4, None)"
    "only_if (mh_tools p) (act (mk_install mk) (MeshStep ''tools'')) w4 = (w5, None)"
    "only_if (mh_enable p) (act (mk_enable mk iface) (MeshStep ''enable'')) w5 = (w6, None)"
    "only_if (mh_restart p) (act (mk_restart mk iface) (MeshStep ''restart'')) w6 = (w', None)"
    using run by (auto simp: mesh_steps_def andthen_done skip_def pf(3) p_def[symmetric])
  define s1 where "s1 = (if mh_forward p then st\<lparr>ms_forward := True, ms_sysctl := True\<rparr> else st)"
  define s2 where "s2 = (if mh_conf p \<noteq> [] then s1\<lparr>ms_conf := mh_conf p\<rparr> else s1)"
  define s3 where "s3 = fold (\<lambda>r st. st\<lparr>ms_rules := removeAll r (ms_rules st)\<rparr>) (mh_del_rules p) s2"
  define s4 where "s4 = fold (\<lambda>r st. st\<lparr>ms_rules := List.insert r (ms_rules st)\<rparr>) (mh_add_rules p) s3"
  define s5 where "s5 = (if mh_tools p then s4\<lparr>ms_tools := True\<rparr> else s4)"
  define s6 where "s6 = (if mh_enable p then s5\<lparr>ms_enabled := True\<rparr> else s5)"
  have at1: "state_at mk iface w1 = Some s1" unfolding s1_def by (rule changed_if[OF d1 s(1) st])
  have at2: "state_at mk iface w2 = Some s2" unfolding s2_def by (rule changed_if[OF d2 s(2) at1])
  have at3: "state_at mk iface w3 = Some s3" unfolding s3_def by (rule changed_each[OF d3 s(3) at2])
  have at4: "state_at mk iface w4 = Some s4" unfolding s4_def by (rule changed_each[OF d4 s(4) at3])
  have at5: "state_at mk iface w5 = Some s5" unfolding s5_def by (rule changed_if[OF d5 s(5) at4])
  have at6: "state_at mk iface w6 = Some s6" unfolding s6_def by (rule changed_if[OF d6 s(6) at5])
  obtain rules where r4: "s4 = s3\<lparr>ms_rules := rules\<rparr>" "set rules = set (mh_add_rules p) \<union> set (ms_rules s3)"
    using fold_added[of "mh_add_rules p" s3] by (auto simp: s4_def)
  have r3: "s3 = s2\<lparr>ms_rules := filter (\<lambda>r. r \<notin> set (mh_del_rules p)) (ms_rules s2)\<rparr>" by (simp add: s3_def fold_dropped)
  have f6: "ms_key_file s6 = ms_key_file st" "ms_pub s6 = ms_pub st" "ms_conf s6 = conf" "ms_tools s6" "ms_enabled s6" "ms_forward s6" "ms_sysctl s6" "ms_ufw s6 = ms_ufw st"
    "ms_active s6 = ms_active st" "ms_live_pub s6 = ms_live_pub st" "ms_routes s6 = ms_routes st"
    "set (ms_rules s6) = set (firewall_adds want st) \<union> (set (ms_rules st) - set (firewall_drops want st))"
    using conf r4(2) by (auto simp: s6_def s5_def r4(1) r3 s2_def s1_def pf)
  have settled: "mh_changes (ready_plan host iface at conf want others s) = []"
    if s: "ms_conf s = conf" "ms_tools s" "ms_enabled s" "ms_forward s" "ms_sysctl s" "ms_ufw s = ms_ufw st"
      "set (ms_rules s) = set (firewall_adds want st) \<union> (set (ms_rules st) - set (firewall_drops want st))"
      "restart_reason conf s others = None" for s
  proof -
    have "\<not> list_ex (route_missing s) others" using s(8) restart_due[of conf s others] by simp
    then have "filter (route_missing s) others = []" by (simp add: filter_empty_conv list_ex_iff)
    moreover have "firewall_adds want s = []" using s(6,7) by (auto simp: firewall_adds_def firewall_drops_def filter_empty_conv)
    moreover have "firewall_drops want s = []"
    proof (cases "ms_ufw st")
      case True
      have "filter (\<lambda>r. r \<notin> set want) (ms_rules s) = []" using s(6,7) True by (auto simp: firewall_adds_def firewall_drops_def filter_empty_conv)
      then show ?thesis by (simp add: firewall_drops_def)
    qed (simp add: firewall_drops_def s(6))
    ultimately show ?thesis using s by (simp add: ready_plan_def Let_def interface_changes_def)
  qed
  show ?thesis
  proof (cases "restart_reason conf st others \<noteq> None")
    case True
    then have "mk_restart mk iface w6 = (w', True)" using s(7) by (simp add: pf act_done)
    then obtain rs where rs: "state_at mk iface w' = Some (s6\<lparr>ms_active := True, ms_live_pub := ms_pub s6, ms_routes := rs\<rparr>)"
      "\<forall>p \<in> set others. prefix_string (mp_bridge p) \<in> set rs"
      using d7 at6 f6(3) by metis
    have "restart_reason conf (s6\<lparr>ms_active := True, ms_live_pub := ms_pub s6, ms_routes := rs\<rparr>) others = None"
      using rs(2) f6(3) by (auto simp: restart_reason_def route_missing_def list_ex_iff)
    then have "mh_changes (ready_plan host iface at conf want others (s6\<lparr>ms_active := True, ms_live_pub := ms_pub s6, ms_routes := rs\<rparr>)) = []"
      using settled f6 by simp
    then show ?thesis using rs(1) f6(1,2) by auto
  next
    case False
    then have "w' = w6" using s(7) by (simp add: pf)
    moreover have "restart_reason conf s6 others = None" using False f6 by (auto simp: restart_reason_def route_missing_def list_ex_iff split: if_splits)
    ultimately show ?thesis using settled[of s6] f6 at6 by auto
  qed
qed

lemma mesh_conf_nonempty: "mesh_conf m iface host self bits others \<noteq> []"
  by (simp add: mesh_conf_def)

lemma plan_mesh_state_ready:
  assumes "mh_changes (plan_mesh_state f m host self others st) \<noteq> []" and "\<not> mh_gen_key (plan_mesh_state f m host self others st)"
  shows "ms_key_file st \<and> valid_wireguard_key (ms_pub st) \<and> key_blockers st self others = []"
  using assms by (auto simp: plan_mesh_state_def Let_def empty_mesh_plan_def split: if_splits)

lemma same_mesh_planD: "same_mesh_plan a b \<Longrightarrow> mh_changes a = mh_changes b \<and> mh_host a = mh_host b"
  by (simp add: same_mesh_plan_def)

lemma plan_mesh_host: "plan_mesh f m host probe = Inr p \<Longrightarrow> mh_host p = host"
  by (auto simp: plan_mesh_def plan_mesh_state_def ready_plan_def empty_mesh_plan_def Let_def split: sum.splits option.splits prod.splits)

text \<open>C35: A host's side of the mesh converges, and only as planned. An application that succeeds leaves a host for which the plan
  shows no change (a first application, which makes the host's key, aside); an application of a plan without changes does
  nothing; and one whose host is no longer as the plan saw it does nothing and says so.\<close>

theorem mesh_converges:
  assumes "fl_mesh f = Some m" and "mesh_enabled f" and "mesh_peers f = Inr ps" and "split_peers host ps = (Some self, others)"
    and "mesh_documented mk (mesh_interface m) (wanted_conf m host self others) others"
    and "plan_mesh f m host (mk_probe mk (mesh_interface m) w) = Inr now" and "mh_host p = host" and "apply_mesh mk f (Some p) w = (w', r)"
  shows "(mh_changes p = [] \<longrightarrow> w' = w \<and> r = None)
    \<and> (mh_changes p \<noteq> [] \<and> \<not> same_mesh_plan now p \<longrightarrow> w' = w \<and> r = Some MeshMoved)
    \<and> (mh_changes p \<noteq> [] \<and> r = None \<and> \<not> mh_gen_key now \<longrightarrow>
        (\<exists>later. plan_mesh f m host (mk_probe mk (mesh_interface m) w') = Inr later \<and> mh_changes later = [] \<and> mh_blockers later = []))"
proof (cases "mh_changes p = [] \<or> \<not> same_mesh_plan now p")
  case True
  then show ?thesis using assms by (auto simp: apply_mesh_def)
next
  case False
  let ?if = "mesh_interface m"
  have ap: "apply_mesh mk f (Some p) w = (if mh_gen_key now then generate_key mk (mh_interface now) w else mesh_steps mk now w)"
    using False assms by (simp add: apply_mesh_def)
  show ?thesis
  proof (cases "mh_gen_key now \<or> r \<noteq> None")
    case True
    then show ?thesis using False by auto
  next
    case go: False
    note peers = assms(3,4)
    obtain out where probe: "mk_probe mk ?if w = Some out"
      and now: "now = plan_mesh_state f m host self others (parse_mesh_state out)"
      using assms(6) peers by (auto simp: plan_mesh_def split: option.splits)
    define st where "st = parse_mesh_state out"
    have ch: "mh_changes now \<noteq> []" using False same_mesh_planD by metis
    have ready: "ms_key_file st" "valid_wireguard_key (ms_pub st)" "key_blockers st self others = []"
      using plan_mesh_state_ready[of f m host self others st] ch go by (simp_all add: now st_def)
    define conf where "conf = wanted_conf m host self others"
    define at where "at = (ip4_string (mp_address self), (case mesh_subnet m of None \<Rightarrow> 0 | Some s \<Rightarrow> snd s), mesh_port m)"
    define want where "want = mesh_rules (mesh_port m) ?if (trim_space (nc_bridge (host_network f host))) self others"
    have eq: "plan_mesh_state f m host self others s = ready_plan host ?if at conf want others s"
      if "ms_key_file s" "valid_wireguard_key (ms_pub s)" "key_blockers s self others = []" for s
      using that by (simp add: plan_mesh_state_def Let_def conf_def want_def at_def)
    have st_at: "state_at mk ?if w = Some st" by (simp add: state_at_def probe st_def)
    have run: "mesh_steps mk (ready_plan host ?if at conf want others st) w = (w', None)"
      using ap assms(8) go eq[OF ready] by (simp add: now st_def)
    have ne: "conf \<noteq> []" using mesh_conf_nonempty by (simp add: conf_def wanted_conf_def)
    from ready_steps_settle[OF assms(5)[folded conf_def] st_at ne run] obtain st' where s: "state_at mk ?if w' = Some st'"
      "ms_key_file st' = ms_key_file st" "ms_pub st' = ms_pub st" "mh_changes (ready_plan host ?if at conf want others st') = []"
      by blast
    have "key_blockers st' self others = key_blockers st self others" by (simp add: key_blockers_def s(3))
    then have r': "ms_key_file st'" "valid_wireguard_key (ms_pub st')" "key_blockers st' self others = []"
      using ready s(2,3) by simp_all
    obtain out' where o': "mk_probe mk ?if w' = Some out'" "parse_mesh_state out' = st'" using s(1) by (auto simp: state_at_def)
    have "plan_mesh f m host (mk_probe mk ?if w') = Inr (ready_plan host ?if at conf want others st')"
      using peers o' eq[OF r'] by (simp add: plan_mesh_def)
    moreover have "mh_blockers (ready_plan host ?if at conf want others st') = []" by (simp add: ready_plan_def Let_def empty_mesh_plan_def)
    ultimately show ?thesis using s(4) False by blast
  qed
qed

subsection \<open>A host that joins a mesh\<close>

text \<open>The probe's answer before the config file is written, and after; then after the interface is up.\<close>

definition demo_key :: "char \<Rightarrow> string" where "demo_key c = replicate 43 c @ ''=''"

definition joined_fleet :: fleet where
  "joined_fleet = demo_fleet\<lparr>fl_hosts := map (\<lambda>(n, h). (n, h\<lparr>hc_mesh := Some \<lparr>hm_key = demo_key (hd n), hm_address = [], hm_endpoint = []\<rparr>\<rparr>)) (fl_hosts demo_fleet)\<rparr>"

definition joined_mesh :: mesh_config where "joined_mesh = the (fl_mesh joined_fleet)"

definition peer_b :: mesh_peer where
  "peer_b = \<lparr>mp_host = ''b'', mp_key = demo_key CHR ''b'', mp_address = 0x0AFF0002, mp_endpoint = ''192.0.2.2:9'', mp_bridge = (0x0A000200, 24)\<rparr>"

definition peer_a :: mesh_peer where
  "peer_a = \<lparr>mp_host = ''a'', mp_key = demo_key CHR ''a'', mp_address = 0x0AFF0001, mp_endpoint = ''192.0.2.1:9'', mp_bridge = (0x0A000100, 24)\<rparr>"

definition joined_conf :: string where "joined_conf = wanted_conf joined_mesh ''a'' peer_a [peer_b]"

definition probe_head :: "bool \<Rightarrow> string" where
  "probe_head up = join_with nl
     ([''keyfile yes'', ''pub '' @ demo_key CHR ''a'', ''tools yes'', ''active '' @ (if up then ''active'' else ''inactive''), ''enabled enabled'',
       ''livepub '' @ (if up then demo_key CHR ''a'' else []), ''forward 1'', ''forwardconf '' @ mesh_sysctl_line, ''ufw Status: inactive'']
      @ (if up then [''route 10.0.2.0/24 scope link''] else []))"

definition probe_text :: "bool \<times> string \<Rightarrow> string" where
  "probe_text w = probe_head (fst w) @ (nl @ ''conf'' @ nl) @ snd w"

definition demo_commands :: "(bool \<times> string) mesh_commands" where
  "demo_commands = \<lparr>mk_probe = (\<lambda>i w. Some (probe_text w)), mk_gen_key = (\<lambda>i w. (w, None)), mk_forwarding = (\<lambda>w. (w, False)),
     mk_write = (\<lambda>i c w. if fst w then (w, False) else ((False, c), True)), mk_ufw_delete = (\<lambda>r w. (w, False)), mk_ufw = (\<lambda>r w. (w, False)),
     mk_install = (\<lambda>w. (w, False)), mk_enable = (\<lambda>i w. (w, False)), mk_restart = (\<lambda>i w. if fst w then (w, False) else ((True, snd w), True))\<rparr>"

lemma cut_at_more: "cut_at sep (h @ sep) = Some (h, []) \<Longrightarrow> sep \<noteq> [] \<Longrightarrow> cut_at sep (h @ sep @ t) = Some (h, t)"
proof (induction h)
  case Nil
  then show ?case by (cases sep) auto
next
  case (Cons c h)
  have no: "\<not> prefix sep (c # h @ sep)" and ih: "cut_at sep (h @ sep) = Some (h, [])"
    using Cons.prems by (auto split: if_splits)
  have "\<not> prefix sep (c # h @ sep @ t)"
  proof
    assume "prefix sep (c # h @ sep @ t)"
    then have "take (length sep) ((c # h @ sep) @ t) = sep" by (auto simp: prefix_def)
    then have "take (length sep) (c # h @ sep) = sep" by (subst (asm) take_append) simp
    then show False using no take_is_prefix by metis
  qed
  then show ?case using Cons.IH[OF ih Cons.prems(2)] by simp
qed

lemma conf_if: "a' = a\<lparr>ms_conf := t\<rparr> \<Longrightarrow> b' = b\<lparr>ms_conf := t\<rparr> \<Longrightarrow> (if c then a' else b') = (if c then a else b)\<lparr>ms_conf := t\<rparr>"
  by simp

lemma parse_line_conf: "parse_mesh_line ln (st\<lparr>ms_conf := t\<rparr>) = (parse_mesh_line ln st)\<lparr>ms_conf := t\<rparr>"
  unfolding parse_mesh_line_def Let_def case_prod_beta
  by (intro conf_if) (simp_all split: option.split list.split)

lemma parse_lines_conf: "fold parse_mesh_line ls (st\<lparr>ms_conf := t\<rparr>) = (fold parse_mesh_line ls st)\<lparr>ms_conf := t\<rparr>"
  by (induction ls arbitrary: st) (simp_all add: parse_line_conf)

abbreviation head_state :: "bool \<Rightarrow> mesh_state" where
  "head_state up \<equiv> fold parse_mesh_line (split_on CHR 0x0A (probe_head up)) no_mesh_state"

lemma demo_probe: "parse_mesh_state (probe_text w) = (head_state (fst w))\<lparr>ms_conf := snd w\<rparr>"
proof -
  let ?sep = "nl @ ''conf'' @ nl"
  have "cut_at ?sep (probe_head True @ ?sep) = Some (probe_head True, []) \<and> cut_at ?sep (probe_head False @ ?sep) = Some (probe_head False, [])"
    by code_simp
  then have "cut_at ?sep (probe_head (fst w) @ ?sep) = Some (probe_head (fst w), [])" by (cases "fst w") simp_all
  then have c: "cut_at ?sep (probe_text w) = Some (probe_head (fst w), snd w)" unfolding probe_text_def by (rule cut_at_more) (simp add: nl_def)
  have s: "CHR 0x0A # ''conf'' @ [CHR 0x0A] = ?sep" by (simp add: nl_def)
  show ?thesis unfolding parse_mesh_state_def Let_def s c by (simp add: parse_lines_conf)
qed

theorem mesh_converges_witness:
  "\<exists>p w' later. plan_mesh joined_fleet joined_mesh ''a'' (Some (probe_text (False, []))) = Inr p
     \<and> mh_changes p = [MeshInterfaceWrite False ''10.255.0.1'' 24 9 1, MeshPeerAdd ''b'' (demo_key CHR ''b'') ''192.0.2.2:9'' ''10.255.0.2/32, 10.0.2.0/24'',
         MeshRoute ''10.0.2.0/24'' ''b'', MeshRestart False False (Some NotRunning)]
     \<and> apply_mesh demo_commands joined_fleet (Some p) (False, []) = (w', None)
     \<and> plan_mesh joined_fleet joined_mesh ''a'' (Some (probe_text w')) = Inr later \<and> mh_changes later = []"
proof -
  let ?if = "mesh_interface joined_mesh"
  have m: "fl_mesh joined_fleet = Some joined_mesh" "mesh_enabled joined_fleet" by code_simp+
  have ps: "mesh_peers joined_fleet = Inr [peer_a, peer_b]" by code_simp
  have sp: "split_peers ''a'' [peer_a, peer_b] = (Some peer_a, [peer_b])" by code_simp
  have up: "head_state True = (head_state False)\<lparr>ms_active := True, ms_live_pub := ms_pub (head_state False), ms_routes := [''10.0.2.0/24'']\<rparr>"
    by code_simp
  have rt: "prefix_string (mp_bridge peer_b) = ''10.0.2.0/24''" by code_simp
  have doc: "mesh_documented demo_commands ?if (wanted_conf joined_mesh ''a'' peer_a [peer_b]) [peer_b]"
    unfolding mesh_documented_def changes_state_def state_at_def
    by (simp add: demo_commands_def demo_probe up rt split: if_splits) (auto intro: exI[of _ "[''10.0.2.0/24'']"])
  have "case plan_mesh joined_fleet joined_mesh ''a'' (Some (probe_text (False, []))) of Inl _ \<Rightarrow> False
    | Inr p \<Rightarrow> mh_changes p = [MeshInterfaceWrite False ''10.255.0.1'' 24 9 1, MeshPeerAdd ''b'' (demo_key CHR ''b'') ''192.0.2.2:9'' ''10.255.0.2/32, 10.0.2.0/24'',
         MeshRoute ''10.0.2.0/24'' ''b'', MeshRestart False False (Some NotRunning)]
        \<and> \<not> mh_gen_key p \<and> mh_host p = ''a'' \<and> snd (apply_mesh demo_commands joined_fleet (Some p) (False, [])) = None" by code_simp
  then obtain p where p: "plan_mesh joined_fleet joined_mesh ''a'' (Some (probe_text (False, []))) = Inr p"
    "mh_changes p = [MeshInterfaceWrite False ''10.255.0.1'' 24 9 1, MeshPeerAdd ''b'' (demo_key CHR ''b'') ''192.0.2.2:9'' ''10.255.0.2/32, 10.0.2.0/24'',
         MeshRoute ''10.0.2.0/24'' ''b'', MeshRestart False False (Some NotRunning)]"
    "\<not> mh_gen_key p" "mh_host p = ''a''" "snd (apply_mesh demo_commands joined_fleet (Some p) (False, [])) = None" by (auto split: sum.splits)
  then obtain w' where ap: "apply_mesh demo_commands joined_fleet (Some p) (False, []) = (w', None)" by (metis prod.collapse)
  have pr: "mk_probe demo_commands ?if w = Some (probe_text w)" for w by (simp add: demo_commands_def)
  have "\<exists>later. plan_mesh joined_fleet joined_mesh ''a'' (mk_probe demo_commands ?if w') = Inr later \<and> mh_changes later = [] \<and> mh_blockers later = []"
    using mesh_converges[OF m ps sp doc p(1)[folded pr] p(4) ap] p(2,3) by simp
  then obtain later where l: "plan_mesh joined_fleet joined_mesh ''a'' (Some (probe_text w')) = Inr later" "mh_changes later = []" unfolding pr by blast
  show ?thesis by (intro exI conjI) (rule p(1), rule p(2), rule ap, rule l(1), rule l(2))
qed

end
