(* ===== verification/Fleet_Plan.thy ===== *)
theory Fleet_Plan
  imports Network_Plan Mesh_Plan
begin

text \<open>
  A fleet's plan, its digest and its application (\<open>pkg/engine/plan.go\<close>): the services of this daemon's share, the network and
  the mesh.

  \<^item> A tree's manifests are its service directories with the manifest in each (\<open>config.LoadServices\<close>, which selects by the
    directory); \<open>rd\<close> is the manifest \<open>LoadServices\<close> gives for one name, None unless it gives exactly one. \<open>update\<close> is the
    replacement of a service's instance.
  \<^item> The digest is the value that is hashed: two plans have one hash exactly when these are equal, as far as SHA-256 and the
    keyed digests are injective.
\<close>

subsection \<open>Plans\<close>

record fleet_plan =
  fp_services :: "service_plan list"
  fp_network :: "network_plan option"
  fp_mesh :: "mesh_plan option"
  fp_host :: string

definition count_actions :: "fleet_plan \<Rightarrow> plan_action \<Rightarrow> nat" where
  "count_actions p a = length (filter (\<lambda>s. pl_action s = a) (fp_services p))"

definition network_changes :: "fleet_plan \<Rightarrow> network_change list" where
  "network_changes p = (case fp_network p of None \<Rightarrow> [] | Some n \<Rightarrow> np_changes n)"
definition mesh_changes :: "fleet_plan \<Rightarrow> mesh_change list" where
  "mesh_changes p = (case fp_mesh p of None \<Rightarrow> [] | Some m \<Rightarrow> mh_changes m)"

definition pending :: "fleet_plan \<Rightarrow> bool" where
  "pending p \<longleftrightarrow> count_actions p ActionCreate + count_actions p ActionUpdate > 0 \<or> network_changes p \<noteq> [] \<or> mesh_changes p \<noteq> []"

definition plan_blocked :: "fleet_plan \<Rightarrow> bool" where
  "plan_blocked p \<longleftrightarrow> count_actions p ActionBlocked > 0 \<or> (case fp_network p of None \<Rightarrow> False | Some n \<Rightarrow> np_blockers n \<noteq> [])
     \<or> (case fp_mesh p of None \<Rightarrow> False | Some m \<Rightarrow> mh_blockers m \<noteq> [])"

definition exit_status :: "fleet_plan \<Rightarrow> nat" where
  "exit_status p = (if plan_blocked p then 1 else if pending p then 2 else 0)"

datatype network_shown = NetworkShown "network_change list" "network_note list" "network_blocker list"
datatype mesh_shown = MeshShown string string string "mesh_change list" "mesh_note list" "mesh_blocker list"

definition show_network :: "network_plan \<Rightarrow> network_shown" where
  "show_network n = NetworkShown (np_changes n) (np_notes n) (np_blockers n)"
definition show_mesh :: "mesh_plan \<Rightarrow> mesh_shown" where
  "show_mesh m = MeshShown (mh_host m) (mh_interface m) (mh_public_key m) (mh_changes m) (mh_notes m) (mh_blockers m)"
definition mesh_bind :: "mesh_plan \<Rightarrow> string \<times> string list \<times> string list" where
  "mesh_bind m = (mh_desired m, mh_add_rules m, mh_del_rules m)"

datatype plan_digest =
    MeshShape string "service_plan list" "network_shown option" string mesh_shown "string \<times> string list \<times> string list"
  | ShareShape string "service_plan list" "network_shown option" string
  | RowsShape "service_plan list"
  | NetworkShape "service_plan list" network_shown string

definition digest_rows :: "fleet_plan \<Rightarrow> service_plan list" where
  "digest_rows p = sort_key pl_service (filter (\<lambda>s. pl_action s \<noteq> ActionSkipped) (fp_services p))"

definition plan_digest :: "fleet_plan \<Rightarrow> plan_digest" where
  "plan_digest p = (let bind = (case fp_network p of None \<Rightarrow> [] | Some n \<Rightarrow> np_bind n); net = map_option show_network (fp_network p) in
     case fp_mesh p of Some m \<Rightarrow> MeshShape (fp_host p) (digest_rows p) net bind (show_mesh m) (mesh_bind m)
     | None \<Rightarrow>
         if fp_host p \<noteq> [] then ShareShape (fp_host p) (digest_rows p) net bind
         else case fp_network p of None \<Rightarrow> RowsShape (digest_rows p) | Some n \<Rightarrow> NetworkShape (digest_rows p) (show_network n) (np_bind n))"

subsection \<open>The manifests of a tree\<close>

type_synonym manifest_tree = "(string \<times> service) list"

definition load_services :: "manifest_tree \<Rightarrow> string \<Rightarrow> service list" where
  "load_services tree only = map (\<lambda>(d, s). if sv_name s = [] then s\<lparr>sv_name := d\<rparr> else s) (filter (\<lambda>(d, s). only = [] \<or> only = d) tree)"

definition one_manifest :: "manifest_tree \<Rightarrow> string \<Rightarrow> service option" where
  "one_manifest tree n = (case load_services tree n of [s] \<Rightarrow> Some s | _ \<Rightarrow> None)"

subsection \<open>Planning\<close>

datatype fleet_plan_error = FleetInvalid fleet_error | ServiceUnplanned string engine_error | NetworkUnplanned engine_error | MeshUnplanned mesh_error

definition share_of :: "fleet \<Rightarrow> service list \<Rightarrow> string \<Rightarrow> fleet_error + (service list \<times> host_share option)" where
  "share_of f svcs host_name =
     (case List.map_filter (\<lambda>s. validate_service_host f (service_config.truncate s)) svcs of e # _ \<Rightarrow> Inl e
      | [] \<Rightarrow> (case daemon_host f host_name of Inl e \<Rightarrow> Inl e
          | Inr (host, filtered) \<Rightarrow>
              if \<not> filtered then Inr (svcs, None)
              else Inr (filter (\<lambda>s. host_of_service f s = host) svcs,
                Some \<lparr>sh_host = host, sh_default = default_host_name f,
                  sh_others = map (\<lambda>s. (sv_name s, host_of_service f s)) (filter (\<lambda>s. host_of_service f s \<noteq> host) svcs)\<rparr>)))"

definition skipped_plan :: "string \<Rightarrow> string \<Rightarrow> service_plan" where
  "skipped_plan svc host = \<lparr>pl_service = svc, pl_action = ActionSkipped, pl_changes = [], pl_notes = [], pl_blockers = [], pl_host = host, pl_bind = []\<rparr>"

fun plan_services :: "'w engine_host \<Rightarrow> surroundings \<Rightarrow> host_share option \<Rightarrow> service list \<Rightarrow> 'w \<Rightarrow> fleet_plan_error + service_plan list" where
  "plan_services eh su share [] w = Inr []"
| "plan_services eh su share (s # ss) w = (case elsewhere share (sv_name s) of
     Some h \<Rightarrow> map_sum id ((#) (skipped_plan (sv_name s) h)) (plan_services eh su share ss w)
   | None \<Rightarrow> (case plan_service eh su s w of Inl e \<Rightarrow> Inl (ServiceUnplanned (sv_name s) e)
       | Inr p \<Rightarrow> map_sum id ((#) p) (plan_services eh su share ss w)))"

text \<open>\<open>whole\<close>: the plan is of every service, with the network and the mesh.\<close>

definition plan_fleet ::
  "'w network_host \<Rightarrow> 'w mesh_commands \<Rightarrow> surroundings \<Rightarrow> (string \<Rightarrow> string option) \<Rightarrow> fleet \<Rightarrow> dns_record_config list \<Rightarrow> string \<Rightarrow> service list \<Rightarrow> bool \<Rightarrow> 'w
    \<Rightarrow> fleet_plan_error + fleet_plan" where
  "plan_fleet nh mk su ip6 f rs host_name svcs whole w =
     (case share_of f svcs host_name of Inl e \<Rightarrow> Inl (FleetInvalid e)
      | Inr (mine, share) \<Rightarrow> (case plan_services (nh_engine nh) su share svcs w of Inl e \<Rightarrow> Inl e
          | Inr sps \<Rightarrow>
              let base = \<lparr>fp_services = sps, fp_network = None, fp_mesh = None, fp_host = (case share of None \<Rightarrow> [] | Some s \<Rightarrow> sh_host s)\<rparr> in
              if \<not> whole then Inr base
              else case plan_network nh su ip6 f rs host_name share mine svcs w of Inl e \<Rightarrow> Inl (NetworkUnplanned e)
              | Inr n \<Rightarrow>
                  let host = (case daemon_host f host_name of Inl _ \<Rightarrow> [] | Inr (h, _) \<Rightarrow> h) in
                  (case fl_mesh f of None \<Rightarrow> Inr (base\<lparr>fp_network := Some n\<rparr>)
                   | Some m \<Rightarrow>
                       if \<not> mesh_enabled f then Inr (base\<lparr>fp_network := Some n\<rparr>)
                       else case plan_mesh f m host (mk_probe mk (mesh_interface m) w) of Inl e \<Rightarrow> Inl (MeshUnplanned e)
                         | Inr mp \<Rightarrow> Inr (base\<lparr>fp_network := Some n, fp_mesh := Some mp\<rparr>))))"

subsection \<open>The application\<close>

datatype apply_error = ApplyBlocked | ShareWrong | ShareMissing | NoManifest string | OtherHosts string string | BridgeInvalid fleet_error
  | MeshFailed mesh_error | NetworkFailed network_error | ServiceFailed string engine_error

definition planned_changes :: "fleet_plan \<Rightarrow> service_plan list" where
  "planned_changes p = filter (\<lambda>s. pl_action s = ActionCreate \<or> pl_action s = ActionUpdate) (fp_services p)"

fun check_services :: "fleet \<Rightarrow> (string \<Rightarrow> service option) \<Rightarrow> string \<Rightarrow> service_plan list \<Rightarrow> apply_error option" where
  "check_services f rd host [] = None"
| "check_services f rd host (s # ss) = (case rd (pl_service s) of None \<Rightarrow> Some (NoManifest (pl_service s))
     | Some svc \<Rightarrow> if host_of_service f svc \<noteq> host then Some (OtherHosts (pl_service s) (host_of_service f svc)) else check_services f rd host ss)"

definition check_share :: "fleet \<Rightarrow> (string \<Rightarrow> service option) \<Rightarrow> fleet_plan \<Rightarrow> apply_error option" where
  "check_share f rd p =
     (if \<not> pending p then None
      else if length (fl_hosts f) < 2 then (if fp_host p \<noteq> [] then Some ShareWrong else None)
      else if fp_host p = [] then Some ShareMissing
      else check_services f rd (fp_host p) (planned_changes p))"

definition deploy_planned ::
  "'w engine_host \<Rightarrow> surroundings \<Rightarrow> (service \<Rightarrow> string \<Rightarrow> 'w \<Rightarrow> 'w \<times> engine_error option) \<Rightarrow> (string \<Rightarrow> service option) \<Rightarrow> service_plan \<Rightarrow> 'w \<Rightarrow> 'w \<times> apply_error option" where
  "deploy_planned eh su update rd sp w = (case rd (pl_service sp) of None \<Rightarrow> (w, Some (NoManifest (pl_service sp)))
     | Some svc \<Rightarrow> (case deploy_service eh su update svc w of (w1, r) \<Rightarrow> (w1, map_option (ServiceFailed (pl_service sp)) r)))"

definition apply_plan ::
  "'w network_host \<Rightarrow> 'w mesh_commands \<Rightarrow> surroundings \<Rightarrow> (service \<Rightarrow> string \<Rightarrow> 'w \<Rightarrow> 'w \<times> engine_error option) \<Rightarrow> fleet \<Rightarrow> (string \<Rightarrow> service option) \<Rightarrow> fleet_plan \<Rightarrow> 'w
    \<Rightarrow> 'w \<times> apply_error option" where
  "apply_plan nh mk su update f rd p w =
     (if plan_blocked p then (w, Some ApplyBlocked)
      else case check_share f rd p of Some e \<Rightarrow> (w, Some e)
      | None \<Rightarrow>
          (case (case local_network f (fp_host p) of None \<Rightarrow> None | Some n \<Rightarrow> (case bridge n of Inl e \<Rightarrow> Some e | Inr _ \<Rightarrow> None)) of
             Some e \<Rightarrow> (w, Some (BridgeInvalid e))
           | None \<Rightarrow>
               in_turn [(\<lambda>w. case apply_mesh mk f (fp_mesh p) w of (w1, r) \<Rightarrow> (w1, map_option MeshFailed r)),
                        (\<lambda>w. case apply_network nh (fp_network p) w of (w1, r) \<Rightarrow> (w1, map_option NetworkFailed r)),
                        each (deploy_planned (nh_engine nh) su update rd) (planned_changes p)] w))"

subsection \<open>What an application does\<close>

lemma each_fold:
  "\<exists>ran. prefix ran xs \<and> fst (each f xs w) = fold (\<lambda>x w. fst (f x w)) ran w \<and> (snd (each f xs w) = None \<longrightarrow> ran = xs)"
proof (induction xs arbitrary: w)
  case (Cons x xs)
  show ?case
  proof (cases "snd (f x w)")
    case None
    obtain ran where "prefix ran xs \<and> fst (each f xs (fst (f x w))) = fold (\<lambda>x w. fst (f x w)) ran (fst (f x w)) \<and> (snd (each f xs (fst (f x w))) = None \<longrightarrow> ran = xs)"
      using Cons by blast
    then show ?thesis using None by (intro exI[of _ "x # ran"]) (auto simp: andthen_def split: prod.splits)
  next
    case (Some e)
    then show ?thesis by (intro exI[of _ "[x]"]) (auto simp: andthen_def split: prod.splits)
  qed
qed (simp add: skip_def)

lemma planned_none: "\<not> pending p \<Longrightarrow> planned_changes p = [] \<and> network_changes p = [] \<and> mesh_changes p = []"
proof -
  assume "\<not> pending p"
  then have "\<forall>s \<in> set (fp_services p). pl_action s \<noteq> ActionCreate \<and> pl_action s \<noteq> ActionUpdate" "network_changes p = []" "mesh_changes p = []"
    by (auto simp: pending_def count_actions_def filter_empty_conv)
  then show ?thesis by (auto simp: planned_changes_def filter_empty_conv)
qed

lemma quiet_mesh: "mesh_changes p = [] \<Longrightarrow> apply_mesh mk f (fp_mesh p) w = (w, None)"
  by (auto simp: mesh_changes_def apply_mesh_def split: option.splits)

lemma quiet_network: "network_changes p = [] \<Longrightarrow> apply_network nh (fp_network p) w = (w, None)"
  by (auto simp: network_changes_def apply_network_def split: option.splits)

lemma check_services_ok: "check_services f rd host ss = None \<Longrightarrow> s \<in> set ss \<Longrightarrow> \<exists>svc. rd (pl_service s) = Some svc \<and> host_of_service f svc = host"
  by (induction ss) (auto split: option.splits if_splits)

text \<open>C9: Applying a plan does what the plan says, and nothing else. A blocked plan and one with nothing to do touch nothing; in a
  fleet of several hosts nothing is touched unless the plan is one host's share and every service it changes belongs to that
  host; and where neither the mesh nor the network changes, exactly the services the plan changes are deployed, in its order,
  up to the first that fails.\<close>

theorem apply_stays_in_plan:
  assumes "apply_plan nh mk su update f rd p w = (w', r)"
  shows "(plan_blocked p \<longrightarrow> w' = w \<and> r = Some ApplyBlocked) \<and> (exit_status p = 0 \<longrightarrow> w' = w)
    \<and> (w' \<noteq> w \<and> length (fl_hosts f) \<ge> 2 \<longrightarrow> fp_host p \<noteq> [] \<and> (\<forall>s \<in> set (planned_changes p). \<exists>svc. rd (pl_service s) = Some svc \<and> host_of_service f svc = fp_host p))
    \<and> (network_changes p = [] \<and> mesh_changes p = [] \<longrightarrow>
        (\<exists>ran. prefix ran (planned_changes p) \<and> w' = fold (\<lambda>s w. fst (deploy_planned (nh_engine nh) su update rd s w)) ran w \<and> (r = None \<longrightarrow> ran = planned_changes p)))"
proof (intro conjI impI)
  show "w' = w" "r = Some ApplyBlocked" if "plan_blocked p" using assms that by (simp_all add: apply_plan_def)
  have quiet: "w' = w \<and> (r \<noteq> None \<or> planned_changes p = []) \<or> (w', r) = each (deploy_planned (nh_engine nh) su update rd) (planned_changes p) w"
    if "network_changes p = []" "mesh_changes p = []"
  proof -
    have tail: "andthen a skip w = a w" for a :: "'a \<Rightarrow> 'a \<times> apply_error option" by (auto simp: andthen_def skip_def split: prod.splits option.splits)
    let ?a = "\<lambda>w. case apply_mesh mk f (fp_mesh p) w of (w1, r) \<Rightarrow> (w1, map_option MeshFailed r)"
    let ?b = "\<lambda>w. case apply_network nh (fp_network p) w of (w1, r) \<Rightarrow> (w1, map_option NetworkFailed r)"
    let ?c = "each (deploy_planned (nh_engine nh) su update rd) (planned_changes p)"
    have "?a w = (w, None)" "?b w = (w, None)" using quiet_mesh[OF that(2), of mk f w] quiet_network[OF that(1), of nh w] by simp_all
    then have run: "in_turn [?a, ?b, ?c] w = ?c w" using tail[of ?c] by (simp add: andthen_same)
    show ?thesis using assms unfolding apply_plan_def run by (auto split: if_splits option.splits sum.splits)
  qed
  show "w' = w" if "exit_status p = 0"
  proof -
    have "\<not> pending p" using that by (auto simp: exit_status_def split: if_splits)
    then have "planned_changes p = [] \<and> network_changes p = [] \<and> mesh_changes p = []" by (rule planned_none)
    then show ?thesis using quiet by (auto simp: skip_def)
  qed
  show "fp_host p \<noteq> []" "\<forall>s \<in> set (planned_changes p). \<exists>svc. rd (pl_service s) = Some svc \<and> host_of_service f svc = fp_host p"
    if m: "w' \<noteq> w \<and> length (fl_hosts f) \<ge> 2"
  proof -
    have c: "check_share f rd p = None" using assms m by (auto simp: apply_plan_def split: option.splits if_splits)
    have pn: "pending p"
    proof (rule ccontr)
      assume "\<not> pending p"
      then have "planned_changes p = [] \<and> network_changes p = [] \<and> mesh_changes p = []" by (rule planned_none)
      then show False using quiet m by (auto simp: skip_def)
    qed
    show "fp_host p \<noteq> []" using c pn m by (auto simp: check_share_def split: if_splits)
    have "check_services f rd (fp_host p) (planned_changes p) = None" using c pn m by (auto simp: check_share_def split: if_splits)
    then show "\<forall>s \<in> set (planned_changes p). \<exists>svc. rd (pl_service s) = Some svc \<and> host_of_service f svc = fp_host p" using check_services_ok by blast
  qed
  show "\<exists>ran. prefix ran (planned_changes p) \<and> w' = fold (\<lambda>s w. fst (deploy_planned (nh_engine nh) su update rd s w)) ran w \<and> (r = None \<longrightarrow> ran = planned_changes p)"
    if "network_changes p = [] \<and> mesh_changes p = []"
    using quiet[OF conjunct1[OF that] conjunct2[OF that]]
  proof
    assume "w' = w \<and> (r \<noteq> None \<or> planned_changes p = [])"
    then show ?thesis by (intro exI[of _ "[]"]) auto
  next
    assume "(w', r) = each (deploy_planned (nh_engine nh) su update rd) (planned_changes p) w"
    then show ?thesis using each_fold[of "planned_changes p" "deploy_planned (nh_engine nh) su update rd" w] by (metis fst_conv snd_conv)
  qed
qed

subsection \<open>What a hash binds\<close>

lemma digest_rows_mset: "digest_rows p = digest_rows q \<Longrightarrow> mset (filter (\<lambda>s. pl_action s \<noteq> ActionSkipped) (fp_services p)) = mset (filter (\<lambda>s. pl_action s \<noteq> ActionSkipped) (fp_services q))"
  unfolding digest_rows_def by (metis mset_sort)

lemma filtered_again: "mset (filter (\<lambda>s. pl_action s \<noteq> ActionSkipped) xs) = mset (filter (\<lambda>s. pl_action s \<noteq> ActionSkipped) ys) \<Longrightarrow> (\<And>s. P s \<Longrightarrow> pl_action s \<noteq> ActionSkipped)
   \<Longrightarrow> mset (filter P xs) = mset (filter P ys)"
proof -
  assume m: "mset (filter (\<lambda>s. pl_action s \<noteq> ActionSkipped) xs) = mset (filter (\<lambda>s. pl_action s \<noteq> ActionSkipped) ys)" and p: "\<And>s. P s \<Longrightarrow> pl_action s \<noteq> ActionSkipped"
  have "mset (filter P zs) = filter_mset P (mset (filter (\<lambda>s. pl_action s \<noteq> ActionSkipped) zs))" for zs
    using p by (induction zs) auto
  then show ?thesis using m by metis
qed

text \<open>The same work: the same host; the same services to plan, with all that their plans say and the digest of their manifests,
  in whatever order; the same network and the same mesh, with all that is shown of them and what they are to become.\<close>

definition same_network :: "network_plan option \<Rightarrow> network_plan option \<Rightarrow> bool" where
  "same_network a b \<longleftrightarrow> (case (a, b) of (None, None) \<Rightarrow> True
     | (Some m, Some n) \<Rightarrow> np_changes m = np_changes n \<and> np_notes m = np_notes n \<and> np_blockers m = np_blockers n \<and> np_bind m = np_bind n
     | _ \<Rightarrow> False)"

definition same_mesh :: "mesh_plan option \<Rightarrow> mesh_plan option \<Rightarrow> bool" where
  "same_mesh a b \<longleftrightarrow> (case (a, b) of (None, None) \<Rightarrow> True
     | (Some m, Some n) \<Rightarrow> mh_host m = mh_host n \<and> mh_interface m = mh_interface n \<and> mh_public_key m = mh_public_key n \<and> mh_changes m = mh_changes n
         \<and> mh_notes m = mh_notes n \<and> mh_blockers m = mh_blockers n
         \<and> mh_desired m = mh_desired n \<and> mh_add_rules m = mh_add_rules n \<and> mh_del_rules m = mh_del_rules n
     | _ \<Rightarrow> False)"

definition own_services :: "fleet_plan \<Rightarrow> service_plan multiset" where
  "own_services p = {#s \<in># mset (fp_services p). pl_action s \<noteq> ActionSkipped#}"

definition same_work :: "fleet_plan \<Rightarrow> fleet_plan \<Rightarrow> bool" where
  "same_work p q \<longleftrightarrow> fp_host p = fp_host q \<and> own_services p = own_services q
     \<and> same_network (fp_network p) (fp_network q) \<and> same_mesh (fp_mesh p) (fp_mesh q)"

lemma digest_parts:
  "plan_digest p = plan_digest q \<longleftrightarrow>
     fp_host p = fp_host q \<and> digest_rows p = digest_rows q \<and> same_network (fp_network p) (fp_network q) \<and> same_mesh (fp_mesh p) (fp_mesh q)"
  by (cases "fp_network p"; cases "fp_network q"; cases "fp_mesh p"; cases "fp_mesh q")
    (auto simp: plan_digest_def Let_def same_network_def same_mesh_def show_network_def show_mesh_def mesh_bind_def split: if_splits)

lemma rows_in_order:
  assumes "own_services p = own_services q" and "distinct (map pl_service (digest_rows p))"
  shows "digest_rows p = digest_rows q"
proof -
  let ?own = "\<lambda>p. filter (\<lambda>s. pl_action s \<noteq> ActionSkipped) (fp_services p)"
  have m: "mset (?own p) = mset (?own q)" using assms(1) by (simp add: own_services_def)
  have "mset (map pl_service (digest_rows p)) = mset (map pl_service (?own p))" by (simp add: digest_rows_def)
  then have "distinct (map pl_service (?own p))" using assms(2) mset_eq_imp_distinct_iff by blast
  then have "inj_on pl_service (set (?own p))" by (simp add: distinct_map)
  then show ?thesis
    unfolding digest_rows_def using m by (intro sort_key_inj_key_eq) (simp_all del: mset_filter)
qed

text \<open>C10: A hash stands for one piece of work. Two plans with one hash do the same work: they are of one host, plan the same
  services with the same changes, blockers and manifest digests, and show and intend the same for the network and the mesh, so
  they apply the same services and are blocked or pending alike. And the hash is of that work only: plans of the same work have
  one hash, in whatever order the services were planned and whatever the other hosts' services are (no two planned services
  having one name).\<close>

theorem hash_binds_work:
  "(plan_digest p = plan_digest q \<longrightarrow> same_work p q \<and> mset (planned_changes p) = mset (planned_changes q) \<and> exit_status p = exit_status q)
    \<and> (same_work p q \<and> distinct (map pl_service (digest_rows p)) \<longrightarrow> plan_digest p = plan_digest q)"
proof (intro conjI impI)
  assume same: "plan_digest p = plan_digest q"
  have parts: "fp_host p = fp_host q" "digest_rows p = digest_rows q" "same_network (fp_network p) (fp_network q)" "same_mesh (fp_mesh p) (fp_mesh q)"
    using same unfolding digest_parts by blast+
  note m = digest_rows_mset[OF parts(2)]
  have pc: "mset (planned_changes p) = mset (planned_changes q)"
    unfolding planned_changes_def by (rule filtered_again[OF m]) auto
  have count: "count_actions p a = count_actions q a" if "a \<noteq> ActionSkipped" for a
    unfolding count_actions_def using filtered_again[OF m, of "\<lambda>s. pl_action s = a"] that by (metis size_mset)
  have n: "network_changes p = network_changes q" "(case fp_network p of None \<Rightarrow> False | Some n \<Rightarrow> np_blockers n \<noteq> []) = (case fp_network q of None \<Rightarrow> False | Some n \<Rightarrow> np_blockers n \<noteq> [])"
    using parts(3) by (auto simp: network_changes_def same_network_def split: option.splits)
  have h: "mesh_changes p = mesh_changes q" "(case fp_mesh p of None \<Rightarrow> False | Some n \<Rightarrow> mh_blockers n \<noteq> []) = (case fp_mesh q of None \<Rightarrow> False | Some n \<Rightarrow> mh_blockers n \<noteq> [])"
    using parts(4) by (auto simp: mesh_changes_def same_mesh_def split: option.splits)
  have "plan_blocked p = plan_blocked q" using count n(2) h(2) by (simp add: plan_blocked_def)
  moreover have "pending p = pending q" using count n(1) h(1) by (simp add: pending_def)
  ultimately show "exit_status p = exit_status q" by (simp add: exit_status_def)
  show "mset (planned_changes p) = mset (planned_changes q)" by (rule pc)
  show "same_work p q" using parts m by (simp add: same_work_def own_services_def)
next
  assume "same_work p q \<and> distinct (map pl_service (digest_rows p))"
  then show "plan_digest p = plan_digest q" using rows_in_order[of p q] by (simp add: digest_parts same_work_def)
qed

subsection \<open>A plan made here can be applied here\<close>

definition planned_row :: "'w engine_host \<Rightarrow> surroundings \<Rightarrow> host_share option \<Rightarrow> 'w \<Rightarrow> service \<Rightarrow> service_plan \<Rightarrow> bool" where
  "planned_row eh su share w s sp \<longleftrightarrow> (case elsewhere share (sv_name s) of Some h \<Rightarrow> sp = skipped_plan (sv_name s) h | None \<Rightarrow> plan_service eh su s w = Inr sp)"

lemma plan_services_each: "plan_services eh su share svcs w = Inr sps \<Longrightarrow> list_all2 (planned_row eh su share w) svcs sps"
proof (induction svcs arbitrary: sps)
  case (Cons s ss)
  then obtain rest sp where "plan_services eh su share ss w = Inr rest" "sps = sp # rest"
    by (cases "plan_services eh su share ss w") (auto split: option.splits sum.splits)
  then show ?case using Cons by (auto simp: planned_row_def[of _ _ _ _ s] split: option.splits sum.splits)
qed simp

lemma plan_service_name: "plan_service eh su s w = Inr sp \<Longrightarrow> pl_service sp = sv_name s \<and> pl_action sp \<noteq> ActionSkipped"
  by (auto simp: plan_service_def finish_action_def Let_def split: if_splits prod.splits option.splits sum.splits)

lemma elsewhere_share:
  assumes "distinct (map sv_name svcs)" and "s \<in> set svcs"
  shows "map_of (map (\<lambda>s. (sv_name s, h s)) (filter P svcs)) (sv_name s) = (if P s then Some (h s) else None)"
  using assms
proof (induction svcs)
  case (Cons a svcs)
  have "s \<in> set svcs \<Longrightarrow> sv_name s \<noteq> sv_name a" using Cons.prems(1) by (metis distinct.simps(2) image_eqI list.map(2) list.set_map)
  moreover have "map_of (map (\<lambda>s. (sv_name s, h s)) (filter P svcs)) (sv_name a) = None"
    using Cons.prems(1) by (auto simp: map_of_eq_None_iff)
  ultimately show ?case using Cons by auto
qed simp

text \<open>Every manifest's name is that of its directory, or is not given.\<close>

definition named_by_directory :: "manifest_tree \<Rightarrow> bool" where
  "named_by_directory tree \<longleftrightarrow> distinct (map fst tree) \<and> (\<forall>(d, s) \<in> set tree. d \<noteq> [] \<and> (sv_name s = [] \<or> sv_name s = d))"

lemma loaded_names: "named_by_directory tree \<Longrightarrow> map sv_name (load_services tree []) = map fst tree"
  by (auto simp: named_by_directory_def load_services_def)

lemma filter_own_key: "distinct (map fst xs) \<Longrightarrow> (d, v) \<in> set xs \<Longrightarrow> filter (\<lambda>(x, y). x = d) xs = [(d, v)]"
proof (induction xs)
  case (Cons a xs)
  show ?case
  proof (cases "fst a = d")
    case True
    then have no: "\<forall>y. (d, y) \<notin> set xs" using Cons.prems(1) by (auto simp: image_iff)
    then have "filter (\<lambda>(x, y). x = d) xs = []" by (auto simp: filter_empty_conv)
    then show ?thesis using True no Cons.prems(2) by auto
  next
    case False
    then show ?thesis using Cons by (cases a) auto
  qed
qed simp

lemma one_manifest_own:
  assumes "named_by_directory tree" and "s \<in> set (load_services tree [])"
  shows "one_manifest tree (sv_name s) = Some s"
proof -
  obtain d s0 where t: "(d, s0) \<in> set tree" "s = (if sv_name s0 = [] then s0\<lparr>sv_name := d\<rparr> else s0)" using assms(2) by (auto simp: load_services_def)
  have d: "d \<noteq> []" "sv_name s = d" using assms(1) t by (auto simp: named_by_directory_def)
  have "filter (\<lambda>(x, y). x = d) tree = [(d, s0)]" using filter_own_key[OF _ t(1)] assms(1) by (simp add: named_by_directory_def)
  then have "filter (\<lambda>(x, y). d = [] \<or> d = x) tree = [(d, s0)]" using d(1) by (simp add: eq_commute[of d])
  then show ?thesis using t(2) d(2) by (simp add: one_manifest_def load_services_def)
qed

lemma check_services_all:
  "\<forall>s \<in> set ss. \<exists>svc. rd (pl_service s) = Some svc \<and> host_of_service f svc = host \<Longrightarrow> check_services f rd host ss = None"
  by (induction ss) auto

text \<open>C11: A plan is made for this daemon's host alone, and the application takes it. In a tree whose manifests have the names of
  their directories, every service has its row: those of other hosts are skipped without a look at this host, the others are
  planned here; the share check of the application accepts the plan for the same tree, and the manifest it deploys for a row
  is the one that was planned.\<close>

theorem plan_fleet_share:
  assumes "plan_fleet nh mk su ip6 f rs host_name (load_services tree []) whole w = Inr p" and "named_by_directory tree"
  shows "list_all2 (\<lambda>s sp. pl_service sp = sv_name s \<and> one_manifest tree (pl_service sp) = Some s
        \<and> (if length (fl_hosts f) \<ge> 2 \<and> host_of_service f s \<noteq> fp_host p
          then pl_action sp = ActionSkipped \<and> pl_host sp = host_of_service f s else plan_service (nh_engine nh) su s w = Inr sp))
      (load_services tree []) (fp_services p)
    \<and> check_share f (one_manifest tree) p = None"
proof -
  define svcs where "svcs = load_services tree []"
  have dist: "distinct (map sv_name svcs)" using loaded_names[OF assms(2)] assms(2) by (simp add: svcs_def named_by_directory_def)
  note plan = assms(1)[folded svcs_def]
  obtain mine share where sh: "share_of f svcs host_name = Inr (mine, share)"
    using plan by (auto simp: plan_fleet_def split: sum.splits)
  obtain sps where sps: "plan_services (nh_engine nh) su share svcs w = Inr sps"
    using plan sh by (auto simp: plan_fleet_def split: sum.splits)
  have p: "fp_services p = sps" "fp_host p = (case share of None \<Rightarrow> [] | Some s \<Rightarrow> sh_host s)"
    using plan by (auto simp: plan_fleet_def sh sps Let_def split: sum.splits if_splits option.splits)
  have len: "length (host_names f) = length (fl_hosts f)" by (simp add: host_names_def)
  obtain host filtered where dh: "daemon_host f host_name = Inr (host, filtered)"
    using sh by (auto simp: share_of_def split: list.splits sum.splits)
  have two: "filtered \<longleftrightarrow> length (fl_hosts f) \<ge> 2" "filtered \<longrightarrow> host \<noteq> []"
    using dh len by (cases "host_names f"; auto simp: daemon_host_def Let_def split: if_splits)+
  have share: "share = (if filtered then Some \<lparr>sh_host = host, sh_default = default_host_name f,
                  sh_others = map (\<lambda>s. (sv_name s, host_of_service f s)) (filter (\<lambda>s. host_of_service f s \<noteq> host) svcs)\<rparr> else None)"
    using sh dh by (auto simp: share_of_def split: list.splits if_splits)
  have other: "elsewhere share (sv_name s) = (if length (fl_hosts f) \<ge> 2 \<and> host_of_service f s \<noteq> fp_host p then Some (host_of_service f s) else None)"
    if "s \<in> set svcs" for s
    using elsewhere_share[OF dist that, of "host_of_service f" "\<lambda>s. host_of_service f s \<noteq> host"] two by (auto simp: elsewhere_def share p(2))
  have rows: "list_all2 (\<lambda>s sp. pl_service sp = sv_name s \<and> one_manifest tree (pl_service sp) = Some s \<and> (if length (fl_hosts f) \<ge> 2 \<and> host_of_service f s \<noteq> fp_host p
          then pl_action sp = ActionSkipped \<and> pl_host sp = host_of_service f s else plan_service (nh_engine nh) su s w = Inr sp)) svcs (fp_services p)"
    unfolding p(1)
  proof (rule list.rel_mono_strong[OF plan_services_each[OF sps]])
    fix s sp assume s: "s \<in> set svcs" and r: "planned_row (nh_engine nh) su share w s sp"
    have own: "one_manifest tree (sv_name s) = Some s" using one_manifest_own[OF assms(2)] s by (simp add: svcs_def)
    show "pl_service sp = sv_name s \<and> one_manifest tree (pl_service sp) = Some s \<and> (if length (fl_hosts f) \<ge> 2 \<and> host_of_service f s \<noteq> fp_host p
          then pl_action sp = ActionSkipped \<and> pl_host sp = host_of_service f s else plan_service (nh_engine nh) su s w = Inr sp)"
    proof (cases "length (fl_hosts f) \<ge> 2 \<and> host_of_service f s \<noteq> fp_host p")
      case True
      then have "sp = skipped_plan (sv_name s) (host_of_service f s)" using r other[OF s] by (simp add: planned_row_def)
      then show ?thesis using True own by (simp add: skipped_plan_def)
    next
      case False
      then have "plan_service (nh_engine nh) su s w = Inr sp" using r other[OF s] by (simp add: planned_row_def split: if_splits)
      then show ?thesis using False plan_service_name[of "nh_engine nh" su s w sp] own by auto
    qed
  qed
  have "\<exists>svc. one_manifest tree (pl_service sp) = Some svc \<and> host_of_service f svc = fp_host p"
    if sp: "sp \<in> set (planned_changes p)" and two: "length (fl_hosts f) \<ge> 2" for sp
  proof -
    obtain s where s: "one_manifest tree (pl_service sp) = Some s" "host_of_service f s \<noteq> fp_host p \<longrightarrow> pl_action sp = ActionSkipped"
      using list_all2_from[OF rows] sp two unfolding planned_changes_def by fastforce
    then have "host_of_service f s = fp_host p" using sp by (auto simp: planned_changes_def)
    then show ?thesis using s(1) by auto
  qed
  then have "check_share f (one_manifest tree) p = None"
    using two check_services_all[of "planned_changes p" "one_manifest tree" f "fp_host p"] by (auto simp: check_share_def p(2) share)
  then show ?thesis using rows by (simp add: svcs_def)
qed

subsection \<open>Host b's share of a small fleet\<close>

definition small_network :: "toy_host network_host" where
  "small_network = \<lparr>nh_engine = small_host True, nh_bridge = (\<lambda>_ _. None), nh_dns = DnsOff, nh_limit = [], nh_list = (\<lambda>_ _. None),
     nh_sync = (\<lambda>_ _ w. (w, False)), nh_bind = (\<lambda>_. [])\<rparr>"

definition no_commands :: "toy_host mesh_commands" where
  "no_commands = \<lparr>mk_probe = (\<lambda>_ _. None), mk_gen_key = (\<lambda>_ w. (w, None)), mk_forwarding = (\<lambda>w. (w, False)), mk_write = (\<lambda>_ _ w. (w, False)),
     mk_ufw_delete = (\<lambda>_ w. (w, False)), mk_ufw = (\<lambda>_ w. (w, False)), mk_install = (\<lambda>w. (w, False)), mk_enable = (\<lambda>_ w. (w, False)), mk_restart = (\<lambda>_ w. (w, False))\<rparr>"

definition share_tree :: manifest_tree where
  "share_tree = [(''git'', git_on_b\<lparr>sv_routing := None\<rparr>), (''web'', hooked_service\<lparr>sv_name := []\<rparr>)]"

definition plan_b :: "fleet_plan_error + fleet_plan" where
  "plan_b = plan_fleet small_network no_commands no_files (\<lambda>_. None) fleet_of_two [] ''b'' (load_services share_tree []) False empty_host"

lemma demo_plan:
  "case plan_b of Inl _ \<Rightarrow> False | Inr p \<Rightarrow> map pl_action (fp_services p) = [ActionCreate, ActionSkipped] \<and> fp_host p = ''b'' \<and> exit_status p = 2
    \<and> map pl_service (planned_changes p) = [''git''] \<and> network_changes p = [] \<and> mesh_changes p = []
    \<and> distinct (map pl_service (digest_rows p)) \<and> fp_network p = None
    \<and> (case apply_plan small_network no_commands no_files never_update fleet_of_two (one_manifest share_tree) p empty_host of (w', r) \<Rightarrow> r = None \<and> ty_insts w' ''git'' \<noteq> None)"
  unfolding plan_b_def by code_simp

lemma plan_b_ok:
  obtains p where "plan_b = Inr p" "map pl_action (fp_services p) = [ActionCreate, ActionSkipped]" "fp_host p = ''b''" "exit_status p = 2"
    "map pl_service (planned_changes p) = [''git'']" "network_changes p = [] \<and> mesh_changes p = []"
proof -
  from demo_plan show ?thesis using that by (auto split: sum.splits)
qed

lemma share_tree_named: "named_by_directory share_tree"
  by code_simp

theorem plan_fleet_share_witness:
  "\<exists>p. plan_b = Inr p \<and> map pl_action (fp_services p) = [ActionCreate, ActionSkipped] \<and> check_share fleet_of_two (one_manifest share_tree) p = None"
proof -
  obtain p where p: "plan_b = Inr p" "map pl_action (fp_services p) = [ActionCreate, ActionSkipped]" by (rule plan_b_ok)
  show ?thesis
    by (rule exI[of _ p], intro conjI) (fact p(1), fact p(2), rule conjunct2[OF plan_fleet_share[OF p(1)[unfolded plan_b_def] share_tree_named]])
qed

theorem apply_stays_in_plan_witness:
  "\<exists>p w'. plan_b = Inr p
     \<and> apply_plan small_network no_commands no_files never_update fleet_of_two (one_manifest share_tree) p empty_host = (w', None) \<and> ty_insts w' ''git'' \<noteq> None
     \<and> (\<exists>ran. prefix ran (planned_changes p) \<and> w' = fold (\<lambda>s w. fst (deploy_planned (small_host True) no_files never_update (one_manifest share_tree) s w)) ran empty_host \<and> ran = planned_changes p)"
proof -
  obtain p where p: "plan_b = Inr p" "network_changes p = [] \<and> mesh_changes p = []" by (rule plan_b_ok)
  obtain w' r where a: "apply_plan small_network no_commands no_files never_update fleet_of_two (one_manifest share_tree) p empty_host = (w', r)" by (metis prod.exhaust)
  have r: "r = None" "ty_insts w' ''git'' \<noteq> None" using demo_plan unfolding p(1) sum.case a prod.case by blast+
  have "nh_engine small_network = small_host True" by (simp add: small_network_def)
  then show ?thesis using apply_stays_in_plan[OF a] p r a by auto
qed

theorem hash_binds_work_witness:
  "\<exists>p. plan_b = Inr p \<and> same_work p (p\<lparr>fp_services := rev (fp_services p)\<rparr>) \<and> planned_changes p \<noteq> []
     \<and> plan_digest p = plan_digest (p\<lparr>fp_services := rev (fp_services p)\<rparr>)
     \<and> plan_digest p \<noteq> plan_digest (p\<lparr>fp_network := Some \<lparr>np_changes = [], np_notes = [], np_blockers = [], np_caddyfile = [], np_zones = [], np_planned = [], np_bind = ''x''\<rparr>\<rparr>)"
proof -
  obtain p where p: "plan_b = Inr p" "map pl_service (planned_changes p) = [''git'']" by (rule plan_b_ok)
  have s: "same_work p (p\<lparr>fp_services := rev (fp_services p)\<rparr>)"
    by (simp add: same_work_def own_services_def same_network_def same_mesh_def split: option.splits)
  have "distinct (map pl_service (digest_rows p)) \<and> fp_network p = None" using demo_plan unfolding p(1) sum.case by blast
  then have d: "plan_digest p = plan_digest (p\<lparr>fp_services := rev (fp_services p)\<rparr>)"
    and n: "\<not> same_work p (p\<lparr>fp_network := Some \<lparr>np_changes = [], np_notes = [], np_blockers = [], np_caddyfile = [], np_zones = [], np_planned = [], np_bind = ''x''\<rparr>\<rparr>)"
    using hash_binds_work[THEN conjunct2] s by (simp_all add: same_work_def same_network_def)
  show ?thesis using p s d n hash_binds_work[THEN conjunct1] by (intro exI[of _ p]) auto
qed

text \<open>
  A service whose manifest gives another name than its directory is planned, and refused by the application of that plan,
  which looks its manifest up by the name the plan shows.
\<close>

lemma misnamed_not_applied:
  "case plan_fleet small_network no_commands no_files (\<lambda>_. None) fleet_of_two [] ''b'' (load_services [(''forge'', git_on_b\<lparr>sv_routing := None\<rparr>)] []) False empty_host of
     Inl _ \<Rightarrow> False
   | Inr p \<Rightarrow> exit_status p = 2
       \<and> apply_plan small_network no_commands no_files never_update fleet_of_two (one_manifest [(''forge'', git_on_b\<lparr>sv_routing := None\<rparr>)]) p empty_host
         = (empty_host, Some (NoManifest ''git''))"
proof -
  let ?tree = "[(''forge'', git_on_b\<lparr>sv_routing := None\<rparr>)]"
  have "case plan_fleet small_network no_commands no_files (\<lambda>_. None) fleet_of_two [] ''b'' (load_services ?tree []) False empty_host of
     Inl _ \<Rightarrow> False | Inr p \<Rightarrow> exit_status p = 2 \<and> \<not> plan_blocked p \<and> check_share fleet_of_two (one_manifest ?tree) p = Some (NoManifest ''git'')"
    by code_simp
  then show ?thesis by (auto simp: apply_plan_def split: sum.splits)
qed

end
