(* ===== verification/Instance_Update.thy ===== *)
theory Instance_Update
  imports Deploy
begin

text \<open>
  Launching, replacing and destroying an instance (\<open>pkg/engine/instance.go\<close>): \<open>Launch\<close>, \<open>Update\<close> with its rollback, and
  \<open>Destroy\<close>, on the host of \<open>Engine_Host\<close>.

  \<^item> \<open>BeforeStart\<close> is an action on the host. The name of the snapshots, which is the time, is a parameter.
\<close>

subsection \<open>Replacing an instance\<close>

record 'w update_options =
  uo_service :: string
  uo_health :: health_check
  uo_skip_snapshot :: bool
  uo_force :: bool
  uo_set_env :: smap
  uo_before_start :: "'w \<Rightarrow> 'w \<times> engine_error option"

datatype update_error =
    UpName | UpImage | UpUnreadable | UpRecord | UpNotReachable | UpNotHealthy | UpRoute | UpEnv | UpSnapshot string
  | UpUnknownPrevious engine_error | UpRolledBack engine_error | UpRolledBackRoute engine_error | UpRollbackFailed engine_error engine_error

definition health_gate_of :: "'w engine_host \<Rightarrow> string \<Rightarrow> health_check \<Rightarrow> 'w \<Rightarrow> 'w \<times> engine_error option" where
  "health_gate_of eh name hc = only_if (hk_path hc \<noteq> []) (\<lambda>w. case eh_wait_ip eh name w of None \<Rightarrow> (w, Some HNoAddress) | Some ip \<Rightarrow> check_health eh hc ip w)"

definition replace_instance ::
  "'w engine_host \<Rightarrow> string \<Rightarrow> string \<Rightarrow> 'w update_options \<Rightarrow> instance_state \<Rightarrow> string \<Rightarrow> smap \<Rightarrow> string option \<Rightarrow> 'w \<Rightarrow> 'w \<times> engine_error option" where
  "replace_instance eh name svc o' st img cfg env = in_turn
     [stop_and_delete eh name,
      launch_container eh img name (is_profiles st) cfg,
      each (\<lambda>d. act (eh_set_device eh name d (device st d)) (HDevice d)) (device_names st),
      (case env of None \<Rightarrow> skip | Some text \<Rightarrow> act (eh_push eh name (env_path svc) text) HEnv),
      uo_before_start o',
      only_if (\<not> is_oci st) (act (eh_restart_service eh name svc) HRestart),
      health_gate_of eh name (uo_health o')]"

definition repoint_route :: "'w engine_host \<Rightarrow> string \<Rightarrow> 'w \<Rightarrow> 'w \<times> bool" where
  "repoint_route eh name w = (let addrs = (case eh_wait_ip eh name w of None \<Rightarrow> None | Some _ \<Rightarrow> eh_ips eh name w) in
     case repoint_upstream (eh_edge eh) name addrs w of (w1, Inl _) \<Rightarrow> (w1, False) | (w1, Inr _) \<Rightarrow> (w1, True))"

definition runs_already :: "instance_state \<Rightarrow> string \<Rightarrow> string \<Rightarrow> bool" where
  "runs_already st target ref \<longleftrightarrow> (if hash_ok target then is_base_image st = target else at_key (is_config st) image_key = ref)"

definition keep_current :: "'w engine_host \<Rightarrow> string \<Rightarrow> string \<Rightarrow> 'w update_options \<Rightarrow> instance_state \<Rightarrow> 'w \<Rightarrow> 'w \<times> update_error option" where
  "keep_current eh name ref o' st = in_turn
     [only_if (at_key (is_config st) image_key \<noteq> ref) (act (eh_set_config eh name image_key ref) UpRecord),
      only_if (hk_path (uo_health o') \<noteq> []) (\<lambda>w. case eh_wait_ip eh name w of None \<Rightarrow> (w, Some UpNotReachable)
        | Some ip \<Rightarrow> (w, if snd (check_health eh (uo_health o') ip w) = None then None else Some UpNotHealthy)),
      act (repoint_route eh name) UpRoute]"

text \<open>The images a rollback may launch: the fingerprint, and for an OCI image the recorded reference.\<close>

definition rollback_ref :: "instance_state \<Rightarrow> string" where
  "rollback_ref st = (if is_oci st then at_key (is_config st) image_key else [])"
definition rollback_image :: "instance_state \<Rightarrow> string" where
  "rollback_image st = (if is_oci st \<and> is_base_image st = [] then rollback_ref st else is_base_image st)"

definition roll_back_update ::
  "'w engine_host \<Rightarrow> string \<Rightarrow> string \<Rightarrow> 'w update_options \<Rightarrow> instance_state \<Rightarrow> string option \<Rightarrow> engine_error \<Rightarrow> 'w \<Rightarrow> 'w \<times> update_error option" where
  "roll_back_update eh name svc o' st env e w =
     (if rollback_image st = [] then (w, Some (UpUnknownPrevious e))
      else let first = replace_instance eh name svc o' st (rollback_image st) (is_config st) env w;
               final = (if snd first \<noteq> None \<and> rollback_ref st \<noteq> [] \<and> rollback_ref st \<noteq> rollback_image st
                        then replace_instance eh name svc o' st (rollback_ref st) (is_config st) env (fst first) else first) in
           case snd final of Some rb \<Rightarrow> (fst final, Some (UpRollbackFailed e rb))
           | None \<Rightarrow> (case repoint_route eh name (fst final) of (w1, ok) \<Rightarrow> (w1, Some (if ok then UpRolledBack e else UpRolledBackRoute e))))"

definition update_image ::
  "'w engine_host \<Rightarrow> string \<Rightarrow> string \<Rightarrow> string \<Rightarrow> string \<Rightarrow> 'w update_options \<Rightarrow> instance_state \<Rightarrow> string option \<Rightarrow> 'w \<Rightarrow> 'w \<times> update_error option" where
  "update_image eh name svc target ref o' st env w =
     (let env' = (if uo_set_env o' = [] then env else Some (set_env_keys (case env of None \<Rightarrow> [] | Some t \<Rightarrow> t) (uo_set_env o'))) in
      case replace_instance eh name svc o' st target (AList.update image_key ref (is_config st)) env' w of
        (w1, None) \<Rightarrow> act (repoint_route eh name) UpRoute w1
      | (w1, Some e) \<Rightarrow> roll_back_update eh name svc o' st env e w1)"

definition update_instance :: "'w engine_host \<Rightarrow> string \<Rightarrow> string \<Rightarrow> string \<Rightarrow> 'w update_options \<Rightarrow> 'w \<Rightarrow> 'w \<times> update_error option" where
  "update_instance eh snap name ref o' w =
     (let svc = (if uo_service o' = [] then ''platform'' else uo_service o') in
      if \<not> valid_name name \<or> \<not> valid_name svc then (w, Some UpName)
      else case resolve_image (\<lambda>a. eh_alias eh a w) ref of None \<Rightarrow> (w, Some UpImage)
      | Some target \<Rightarrow> (case eh_state eh name w of None \<Rightarrow> (w, Some UpUnreadable)
          | Some st \<Rightarrow>
              if \<not> uo_force o' \<and> runs_already st target ref then keep_current eh name ref o' st w
              else case eh_pull eh name (env_path svc) w of None \<Rightarrow> (w, Some UpEnv)
              | Some env \<Rightarrow>
                  andthen (only_if (\<not> uo_skip_snapshot o') (each (\<lambda>v. act (eh_snapshot eh (fst v) (snd v) (''pre-update-'' @ snap)) (UpSnapshot (snd v))) (volumes st)))
                    (update_image eh name svc target ref o' st env) w))"

text \<open>The options \<open>DeployService\<close> replaces a service's instance with.\<close>

definition service_update_options :: "'w engine_host \<Rightarrow> surroundings \<Rightarrow> service \<Rightarrow> 'w update_options" where
  "service_update_options eh su svc =
     \<lparr>uo_service = unit_of svc, uo_health = sv_health svc, uo_skip_snapshot = False, uo_force = False, uo_set_env = [],
      uo_before_start = run_container_hook eh su svc (hk_container_init (sv_hooks svc))\<rparr>"

subsection \<open>Launching and destroying\<close>

record launch_template = template_config +
  lt_env :: smap
  lt_forwards :: "port_forward list"
  lt_pattern :: string

record launch_params =
  lp_template :: launch_template
  lp_name :: string
  lp_slug :: string
  lp_domain :: string
  lp_env :: smap
  lp_limits :: smap

datatype launch_error = LaName | LaUnreadable | LaNotOurs | LaStep engine_error

text \<open>\<open>strings.ReplaceAll(s, "{slug}", slug)\<close>.\<close>

definition slug_mark :: string where "slug_mark = ''{slug}''"

function fill_slug :: "string \<Rightarrow> string \<Rightarrow> string" where
  "fill_slug slug [] = []"
| "fill_slug slug (c # cs) = (if prefix slug_mark (c # cs) then slug @ fill_slug slug (drop (length slug_mark) (c # cs)) else c # fill_slug slug cs)"
  by pat_completeness auto
termination
  by (relation "measure (\<lambda>(_, s). length s)") (auto simp: slug_mark_def)

definition over :: "smap \<Rightarrow> smap \<Rightarrow> smap" where "over base layer = fold (\<lambda>(k, v). AList.update k v) layer base"

definition as_launch :: "('w \<Rightarrow> 'w \<times> engine_error option) \<Rightarrow> 'w \<Rightarrow> 'w \<times> launch_error option" where
  "as_launch a w = (case a w of (w1, r) \<Rightarrow> (w1, map_option LaStep r))"

definition launch_volume :: "'w engine_host \<Rightarrow> string \<Rightarrow> string \<Rightarrow> volume_mount \<Rightarrow> 'w \<Rightarrow> 'w \<times> engine_error option" where
  "launch_volume eh name slug v = (let vol = fill_slug slug (vm_name v) in in_turn
     [ensure_volume eh (vm_pool v) vol (vm_shifted v), ensure_snapshot_policy eh (vm_pool v) vol (vm_snapshots v),
      ensure_volume_attached eh name (service_pool (vm_pool v)) vol (vm_path v), only_if (vm_owner v \<noteq> []) (ensure_path_owner eh name (vm_path v) (vm_owner v))])"

definition launch_service :: "launch_params \<Rightarrow> string" where
  "launch_service p = (let s = (if tc_service (lp_template p) = [] then trim_prefix (lp_name p) ''rest-'' else tc_service (lp_template p)) in if s = [] then ''platform'' else s)"

definition launch_env :: "launch_params \<Rightarrow> smap" where
  "launch_env p = over (map (\<lambda>(k, v). (k, fill_slug (lp_slug p) v)) (lt_env (lp_template p))) (lp_env p)"

text \<open>A restart that fails after the environment was written is only logged.\<close>

definition launch_environment :: "'w engine_host \<Rightarrow> launch_params \<Rightarrow> 'w \<Rightarrow> 'w \<times> engine_error option" where
  "launch_environment eh p w =
     (if launch_env p = [] then (w, None)
      else case ensure_env eh (lp_name p) (launch_service p) (launch_env p) w of (w1, Inl e) \<Rightarrow> (w1, Some e)
        | (w1, Inr changed) \<Rightarrow> (if changed then fst (eh_restart_service eh (lp_name p) (launch_service p) w1) else w1, None))"

definition launch_new :: "'w engine_host \<Rightarrow> launch_params \<Rightarrow> 'w \<Rightarrow> 'w \<times> engine_error option" where
  "launch_new eh p w = (let t = lp_template p;
       img = (case eh_alias eh (tc_image t) w of None \<Rightarrow> tc_image t | Some fp \<Rightarrow> fp);
       cfg = AList.update image_key (tc_image t) (AList.update template_key (tc_name t) (over (tc_limits t) (lp_limits p)));
       cfg' = fold (\<lambda>(k, v). AList.update (label_key k) v) (case tc_labels t of None \<Rightarrow> [] | Some l \<Rightarrow> l) cfg in
     launch_container eh img (lp_name p) (if tc_profiles t = [] then [''base'', ''service''] else tc_profiles t) cfg' w)"

definition launch_domain :: "launch_params \<Rightarrow> string" where
  "launch_domain p = (if lp_domain p = [] \<and> lt_pattern (lp_template p) \<noteq> [] then fill_slug (lp_slug p) (lt_pattern (lp_template p)) else lp_domain p)"

definition launch_routing :: "launch_params \<Rightarrow> routing" where
  "launch_routing p = (let t = lp_template p in
     \<lparr>rt_domain = launch_domain p, rt_port = (if hk_port (tc_health t) \<le> 0 then 8787 else hk_port (tc_health t)), rt_tls = [], rt_extra = tc_directives t,
      rt_external = False, rt_cache = tc_cache t, rt_limit = tc_rate_limit t\<rparr>)"

definition publish_instance :: "'w engine_host \<Rightarrow> launch_params \<Rightarrow> string \<Rightarrow> 'w \<Rightarrow> 'w \<times> engine_error option" where
  "publish_instance eh p ip w = (case eh_ips eh (lp_name p) w of None \<Rightarrow> (w, Some HUnreadable)
     | Some ips \<Rightarrow> (case publish_site_for (eh_edge eh) (lp_name p) (launch_routing p) (ip # filter (\<lambda>x. x \<noteq> ip) ips) w of (w1, r) \<Rightarrow> (w1, map_option HRoute r)))"

definition launch_finish :: "'w engine_host \<Rightarrow> launch_params \<Rightarrow> 'w \<Rightarrow> 'w \<times> engine_error option" where
  "launch_finish eh p w = (case eh_wait_ip eh (lp_name p) w of None \<Rightarrow> (w, Some HNoAddress)
     | Some ip \<Rightarrow> andthen (check_health eh (tc_health (lp_template p)) ip) (only_if (launch_domain p \<noteq> []) (publish_instance eh p ip)) w)"

definition launch_steps :: "'w engine_host \<Rightarrow> launch_params \<Rightarrow> 'w \<Rightarrow> 'w \<times> engine_error option" where
  "launch_steps eh p = in_turn
     [each (launch_volume eh (lp_name p) (lp_slug p)) (tc_volumes (lp_template p)), ensure_forwards eh (lp_name p) (lt_forwards (lp_template p)),
      launch_environment eh p, launch_finish eh p]"

definition launch_instance :: "'w engine_host \<Rightarrow> launch_params \<Rightarrow> 'w \<Rightarrow> 'w \<times> launch_error option" where
  "launch_instance eh p w =
     (if \<not> valid_name (lp_name p) then (w, Some LaName)
      else case eh_exists eh (lp_name p) w of None \<Rightarrow> (w, Some LaUnreadable)
      | Some False \<Rightarrow> as_launch (andthen (launch_new eh p) (launch_steps eh p)) w
      | Some True \<Rightarrow> (case eh_state eh (lp_name p) w of None \<Rightarrow> (w, Some LaUnreadable)
          | Some st \<Rightarrow>
              if at_key (is_config st) template_key \<noteq> tc_name (lp_template p) \<or> tc_name (lp_template p) = [] then (w, Some LaNotOurs)
              else as_launch (andthen (case tc_labels (lp_template p) of None \<Rightarrow> skip | Some l \<Rightarrow> reconcile_labels_on eh (lp_name p) (is_config st) l) (launch_steps eh p)) w))"

text \<open>A route that cannot be removed is only logged; a volume is purged only if it can be shown.\<close>

definition destroy_instance :: "'w engine_host \<Rightarrow> string \<Rightarrow> bool \<Rightarrow> 'w \<Rightarrow> 'w \<times> engine_error option" where
  "destroy_instance eh name purge w =
     (if \<not> valid_name name then (w, Some HBadName)
      else let w1 = fst (remove_site (eh_edge eh) name w); vol = name @ ''-data'' in
        andthen (stop_and_delete eh name)
          (\<lambda>w. if purge \<and> (case eh_volume eh ''default'' vol w of Some (Some _) \<Rightarrow> True | _ \<Rightarrow> False)
               then act (eh_delete_volume eh ''default'' vol) (HVolume vol) w else (w, None)) w1)"

subsection \<open>Only the image changes\<close>

text \<open>What an update changes or carries over: the instance's configuration as Incus shows it, the service's environment file, and
  the image the instance was launched from (\<open>im\<close> reads it of the host).\<close>

definition view :: "'w engine_host \<Rightarrow> ('w \<Rightarrow> string) \<Rightarrow> string \<Rightarrow> string \<Rightarrow> 'w \<Rightarrow> instance_state option \<times> string option option \<times> string" where
  "view eh im name path w = (eh_state eh name w, eh_pull eh name path w, im w)"

definition keeps :: "('w \<Rightarrow> 'v) \<Rightarrow> ('w \<Rightarrow> 'w \<times> 'r) \<Rightarrow> bool" where "keeps v a \<longleftrightarrow> (\<forall>w. v (fst (a w)) = v w)"

text \<open>What the commands document: snapshots, a restart of the service and the edge's commands leave the instance's configuration
  and its environment file alone; a launch gives an instance from the image and with the profiles and configuration asked for, and no
  device of its own; the others do what they are named for.\<close>

definition instance_documented :: "'w engine_host \<Rightarrow> ('w \<Rightarrow> string) \<Rightarrow> string \<Rightarrow> string \<Rightarrow> bool" where
  "instance_documented eh im name path \<longleftrightarrow>
     (\<forall>p v s. keeps (view eh im name path) (eh_snapshot eh p v s)) \<and> (\<forall>u. keeps (view eh im name path) (eh_restart_service eh name u))
   \<and> (\<forall>p c. keeps (view eh im name path) (em_push (eh_edge eh) p c)) \<and> (\<forall>p. keeps (view eh im name path) (em_remove (eh_edge eh) p))
   \<and> keeps (view eh im name path) (em_reload (eh_edge eh)) \<and> (\<forall>w. view eh im name path (em_resolv (eh_edge eh) w) = view eh im name path w)
   \<and> (\<forall>w. view eh im name path (em_restart (eh_edge eh) w) = view eh im name path w)
   \<and> (\<forall>img ps cfg w w'. eh_launch eh img name ps cfg w = (w', True) \<longrightarrow> (\<exists>st. eh_state eh name w' = Some st \<and> is_profiles st = ps
        \<and> map_of (is_config st) = map_of cfg \<and> is_devices st = [] \<and> (hash_ok img \<longrightarrow> is_base_image st = img)) \<and> im w' = img)
   \<and> (\<forall>d ps w w' st. eh_set_device eh name d ps w = (w', True) \<and> eh_state eh name w = Some st \<longrightarrow> (\<exists>st'. eh_state eh name w' = Some st'
        \<and> is_profiles st' = is_profiles st \<and> is_config st' = is_config st \<and> is_base_image st' = is_base_image st \<and> map_of (is_devices st') = (map_of (is_devices st))(d \<mapsto> ps)) \<and> im w' = im w)
   \<and> (\<forall>c w w'. eh_push eh name path c w = (w', True) \<longrightarrow> view eh im name path w' = (eh_state eh name w, Some (Some c), im w))
   \<and> (\<forall>k v w w' st. eh_set_config eh name k v w = (w', True) \<and> eh_state eh name w = Some st \<longrightarrow> eh_pull eh name path w' = eh_pull eh name path w \<and> im w' = im w
        \<and> (\<exists>st'. eh_state eh name w' = Some st' \<and> is_profiles st' = is_profiles st \<and> is_base_image st' = is_base_image st \<and> map_of (is_config st') = (map_of (is_config st))(k \<mapsto> v) \<and> is_devices st' = is_devices st))"

lemma instance_documentedD:
  assumes "instance_documented eh im name path"
  shows "keeps (view eh im name path) (eh_snapshot eh p v s)" "keeps (view eh im name path) (eh_restart_service eh name u)"
    "keeps (view eh im name path) (em_push (eh_edge eh) q c)" "keeps (view eh im name path) (em_remove (eh_edge eh) q)" "keeps (view eh im name path) (em_reload (eh_edge eh))"
    "view eh im name path (em_resolv (eh_edge eh) w) = view eh im name path w" "view eh im name path (em_restart (eh_edge eh) w) = view eh im name path w"
  using assms unfolding instance_documented_def by (elim conjE, metis)+

lemma instance_documented_steps:
  assumes "instance_documented eh im name path"
  shows "eh_launch eh img name ps cfg w = (w', True) \<Longrightarrow> \<exists>st. eh_state eh name w' = Some st \<and> is_profiles st = ps
        \<and> map_of (is_config st) = map_of cfg \<and> is_devices st = [] \<and> (hash_ok img \<longrightarrow> is_base_image st = img) \<and> im w' = img"
    and "eh_set_device eh name d props w = (w', True) \<Longrightarrow> eh_state eh name w = Some st \<Longrightarrow> \<exists>st'. eh_state eh name w' = Some st'
        \<and> is_profiles st' = is_profiles st \<and> is_config st' = is_config st \<and> is_base_image st' = is_base_image st \<and> map_of (is_devices st') = (map_of (is_devices st))(d \<mapsto> props) \<and> im w' = im w"
    and "eh_push eh name path c w = (w', True) \<Longrightarrow> view eh im name path w' = (eh_state eh name w, Some (Some c), im w)"
    and "eh_set_config eh name k x w = (w', True) \<Longrightarrow> eh_state eh name w = Some st \<Longrightarrow> eh_pull eh name path w' = eh_pull eh name path w \<and> im w' = im w
        \<and> (\<exists>st'. eh_state eh name w' = Some st' \<and> is_profiles st' = is_profiles st \<and> is_base_image st' = is_base_image st \<and> map_of (is_config st') = (map_of (is_config st))(k \<mapsto> x) \<and> is_devices st' = is_devices st)"
  using assms unfolding instance_documented_def by (elim conjE, meson)+

lemma keeps_fst: "keeps v a \<Longrightarrow> a w = (w', r) \<Longrightarrow> v w' = v w"
  unfolding keeps_def by (metis fst_conv)

lemma keeps_act: "keeps v a \<Longrightarrow> keeps v (act a e)"
  by (auto simp: keeps_def act_def split: prod.splits) (metis fst_conv)+

lemma keeps_andthen: "keeps v a \<Longrightarrow> keeps v b \<Longrightarrow> keeps v (andthen a b)"
proof -
  assume k: "keeps v a" "keeps v b"
  have "v (fst (andthen a b w)) = v w" for w
  proof (cases "a w")
    case (Pair w1 r)
    then have "v w1 = v w" using keeps_fst[OF k(1)] by blast
    moreover have "v (fst (b w1)) = v w1" using k(2) by (simp add: keeps_def)
    ultimately show ?thesis using Pair by (cases r) (simp_all add: andthen_def)
  qed
  then show ?thesis by (simp add: keeps_def)
qed

lemma keeps_skip: "keeps v skip"
  by (simp add: keeps_def skip_def)

lemma keeps_each: "(\<And>x. keeps v (f x)) \<Longrightarrow> keeps v (each f xs)"
  by (induction xs) (simp_all add: keeps_skip keeps_andthen)

lemma keeps_only_if: "keeps v a \<Longrightarrow> keeps v (only_if b a)"
  by (cases b) (simp_all add: keeps_def)

lemma keeps_reload:
  assumes "keeps v (em_reload e)" and "\<And>w. v (em_resolv e w) = v w" and "\<And>w. v (em_restart e w) = v w"
  shows "keeps v (reload e)"
proof -
  have "v (fst (reload e w)) = v w" for w
  proof (cases "em_reload e (em_resolv e w)")
    case (Pair w1 ok)
    then have w1: "v w1 = v w" using keeps_fst[OF assms(1) Pair] assms(2) by simp
    obtain w2 ok2 where r2: "em_reload e (em_resolv e (em_restart e w1)) = (w2, ok2)" by (metis prod.exhaust)
    then have "v w2 = v w" using keeps_fst[OF assms(1) r2] assms(2,3) w1 by simp
    then show ?thesis using w1 Pair r2 by (simp add: reload_def)
  qed
  then show ?thesis by (simp add: keeps_def)
qed

lemma keeps_replace_site:
  assumes "\<And>p c. keeps v (em_push e p c)" and "\<And>p. keeps v (em_remove e p)" and "keeps v (reload e)"
  shows "keeps v (replace_site e site desired prev)"
proof -
  have "v (fst (replace_site e site desired prev w)) = v w" for w
  proof (cases "em_push e (site_path site) desired w")
    case (Pair w1 ok)
    then have w1: "v w1 = v w" using keeps_fst[OF assms(1)] by blast
    have "v (fst (em_push e (site_path site) c w1)) = v w1" "v (fst (em_remove e (site_path site) w1)) = v w1" "v (fst (reload e w1)) = v w1" for c
      using assms by (simp_all add: keeps_def)
    then show ?thesis using Pair w1 by (auto simp: replace_site_def split: option.splits)
  qed
  then show ?thesis by (simp add: keeps_def)
qed

lemma keeps_repoint:
  assumes "instance_documented eh im name path"
  shows "keeps (view eh im name path) (repoint_route eh name)"
proof -
  note D = instance_documentedD[OF assms]
  have site: "keeps (view eh im name path) (replace_site (eh_edge eh) name desired prev)" for desired prev
    by (intro keeps_replace_site keeps_reload D)
  have up: "view eh im name path (fst (repoint_upstream (eh_edge eh) name addrs w)) = view eh im name path w" for addrs w
  proof -
    have "fst (repoint_upstream (eh_edge eh) name addrs w) = w \<or> (\<exists>desired prev. fst (repoint_upstream (eh_edge eh) name addrs w) = fst (replace_site (eh_edge eh) name desired prev w))"
      by (auto simp: repoint_upstream_def split: option.splits prod.splits) (metis fst_conv)+
    then show ?thesis using site by (auto simp: keeps_def)
  qed
  then show ?thesis unfolding keeps_def repoint_route_def Let_def by (auto split: prod.splits sum.splits) (metis fst_conv)+
qed

text \<open>Everything but the image carried over, with \<open>cfg\<close> for the configuration.\<close>

definition carried :: "instance_state \<Rightarrow> smap \<Rightarrow> instance_state \<Rightarrow> bool" where
  "carried st cfg st' \<longleftrightarrow> insert ''default'' (set (is_profiles st')) = insert ''default'' (set (is_profiles st))
     \<and> map_of (is_config st') = map_of cfg \<and> map_of (is_devices st') = map_of (is_devices st)"

lemma devices_set:
  assumes doc: "instance_documented eh im name path"
    and "each (\<lambda>d. act (eh_set_device eh name d (device st d)) (HDevice d)) ds w = (w', None)" and "eh_state eh name w = Some s"
  shows "\<exists>s'. eh_state eh name w' = Some s' \<and> is_profiles s' = is_profiles s \<and> is_config s' = is_config s \<and> is_base_image s' = is_base_image s
    \<and> map_of (is_devices s') = (\<lambda>d. if d \<in> set ds then Some (device st d) else map_of (is_devices s) d) \<and> im w' = im w"
  using assms(2,3)
proof (induction ds arbitrary: w s)
  case Nil
  then show ?case by (simp add: skip_def)
next
  case (Cons d ds)
  obtain w1 where a: "eh_set_device eh name d (device st d) w = (w1, True)" and b: "each (\<lambda>d. act (eh_set_device eh name d (device st d)) (HDevice d)) ds w1 = (w', None)"
    using Cons.prems(1) by (auto simp: andthen_done act_done)
  obtain s1 where s1: "eh_state eh name w1 = Some s1" "is_profiles s1 = is_profiles s" "is_config s1 = is_config s" "is_base_image s1 = is_base_image s"
    "map_of (is_devices s1) = (map_of (is_devices s))(d \<mapsto> device st d)" "im w1 = im w"
    using instance_documented_steps(2)[OF doc a Cons.prems(2)] by blast
  obtain s' where s': "eh_state eh name w' = Some s'" "is_profiles s' = is_profiles s1" "is_config s' = is_config s1" "is_base_image s' = is_base_image s1"
    "map_of (is_devices s') = (\<lambda>x. if x \<in> set ds then Some (device st x) else map_of (is_devices s1) x)" "im w' = im w1"
    using Cons.IH[OF b s1(1)] by blast
  have "map_of (is_devices s') = (\<lambda>x. if x \<in> set (d # ds) then Some (device st x) else map_of (is_devices s) x)"
    unfolding s'(5) s1(5) by (rule ext) simp
  then show ?case using s' s1 by auto
qed

lemma all_devices: "(\<lambda>d. if d \<in> set (device_names st) then Some (device st d) else None) = map_of (is_devices st)"
proof
  fix d
  have "d \<in> set (device_names st) \<longleftrightarrow> map_of (is_devices st) d \<noteq> None" by (simp add: device_names_def map_of_eq_None_iff)
  then show "(if d \<in> set (device_names st) then Some (device st d) else None) = map_of (is_devices st) d"
    by (cases "map_of (is_devices st) d") (auto simp: device_def)
qed

lemma keeps_check: "keeps v (health_gate_of eh name hc)"
  by (auto simp: keeps_def health_gate_of_def only_if_def skip_def check_health_def split: option.splits)

lemma launched_state:
  assumes doc: "instance_documented eh im name path" and l: "launch_container eh img name ps cfg w = (w', None)"
  shows "\<exists>s. eh_state eh name w' = Some s \<and> is_profiles s = launch_profiles ps \<and> map_of (is_config s) = map_of cfg \<and> is_devices s = [] \<and> (hash_ok img \<longrightarrow> is_base_image s = img) \<and> im w' = launch_image img"
proof -
  obtain w1 where "eh_launch eh (launch_image img) name (launch_profiles ps) cfg w1 = (w', True)"
    using l by (auto simp: launch_container_def andthen_done act_done split: if_splits)
  moreover have "hash_ok img \<Longrightarrow> launch_image img = img" by (simp add: launch_image_def hash_ok_def)
  ultimately show ?thesis using instance_documented_steps(1)[OF doc] by metis
qed

lemma replaced_instance:
  assumes doc: "instance_documented eh im name (env_path svc)" and before: "keeps (view eh im name (env_path svc)) (uo_before_start o')"
    and r: "replace_instance eh name svc o' st img cfg env w = (w', None)"
  shows "\<exists>st'. eh_state eh name w' = Some st' \<and> carried st cfg st' \<and> (hash_ok img \<longrightarrow> is_base_image st' = img) \<and> im w' = launch_image img
    \<and> (\<forall>text. env = Some text \<longrightarrow> eh_pull eh name (env_path svc) w' = Some (Some text))"
proof -
  let ?v = "view eh im name (env_path svc)"
  define rest where "rest = [uo_before_start o', only_if (\<not> is_oci st) (act (eh_restart_service eh name svc) HRestart), health_gate_of eh name (uo_health o')]"
  define push where "push = (case env of None \<Rightarrow> skip | Some text \<Rightarrow> act (eh_push eh name (env_path svc) text) HEnv)"
  obtain w1 w2 w3 w4 where s: "launch_container eh img name (is_profiles st) cfg w1 = (w2, None)"
    "each (\<lambda>d. act (eh_set_device eh name d (device st d)) (HDevice d)) (device_names st) w2 = (w3, None)"
    "push w3 = (w4, None)" "in_turn rest w4 = (w', None)"
    using r by (auto simp: replace_instance_def rest_def push_def[symmetric] andthen_done)
  obtain s2 where s2: "eh_state eh name w2 = Some s2" "is_profiles s2 = launch_profiles (is_profiles st)" "map_of (is_config s2) = map_of cfg" "is_devices s2 = []"
    "hash_ok img \<longrightarrow> is_base_image s2 = img" "im w2 = launch_image img" using launched_state[OF doc s(1)] by blast
  obtain s3 where s3: "eh_state eh name w3 = Some s3" "is_profiles s3 = is_profiles s2" "is_config s3 = is_config s2" "is_base_image s3 = is_base_image s2"
    "map_of (is_devices s3) = (\<lambda>d. if d \<in> set (device_names st) then Some (device st d) else map_of (is_devices s2) d)" "im w3 = im w2"
    using devices_set[OF doc s(2) s2(1)] by blast
  have dev: "map_of (is_devices s3) = map_of (is_devices st)" unfolding s3(5) s2(4) map_of.simps(1) by (rule all_devices)
  have car: "carried st cfg s3" using s2 s3 dev by (auto simp: carried_def launch_profiles_def)
  have push_view: "eh_state eh name w4 = Some s3 \<and> im w4 = im w3 \<and> (\<forall>text. env = Some text \<longrightarrow> eh_pull eh name (env_path svc) w4 = Some (Some text))"
  proof (cases env)
    case None
    then show ?thesis using s(3) s3(1) by (simp add: push_def skip_def)
  next
    case (Some t0)
    then have "eh_push eh name (env_path svc) t0 w3 = (w4, True)" using s(3) by (simp add: push_def act_done)
    then have "view eh im name (env_path svc) w4 = (eh_state eh name w3, Some (Some t0), im w3)" by (rule instance_documented_steps(3)[OF doc])
    then show ?thesis using s3(1) Some by (simp add: view_def)
  qed
  have "keeps ?v (in_turn rest)"
    unfolding rest_def in_turn.simps using before
    by (intro keeps_andthen keeps_only_if keeps_act keeps_check keeps_skip instance_documentedD[OF doc]) auto
  then have "view eh im name (env_path svc) w' = view eh im name (env_path svc) w4" using s(4) keeps_fst by metis
  then show ?thesis using push_view car s2(5,6) s3(4,6) by (auto simp: view_def)
qed

text \<open>An instance runs the image that the reference was resolved to; or the one it had before, from its fingerprint or, an OCI
  image, from the reference recorded for it.\<close>

definition runs_image :: "('w \<Rightarrow> string) \<Rightarrow> 'w \<Rightarrow> instance_state \<Rightarrow> string \<Rightarrow> bool" where
  "runs_image im w st' img \<longleftrightarrow> im w = launch_image img \<and> (hash_ok img \<longrightarrow> is_base_image st' = img)"

definition runs_previous :: "('w \<Rightarrow> string) \<Rightarrow> 'w \<Rightarrow> instance_state \<Rightarrow> instance_state \<Rightarrow> bool" where
  "runs_previous im w st st' \<longleftrightarrow>
     (is_base_image st \<noteq> [] \<and> runs_image im w st' (is_base_image st))
   \<or> (is_oci st \<and> at_key (is_config st) image_key \<noteq> [] \<and> runs_image im w st' (at_key (is_config st) image_key))"

text \<open>The failures after which nothing has been changed yet.\<close>

definition only_read :: "update_error option set" where
  "only_read = Some ` ({UpName, UpImage, UpUnreadable, UpEnv} \<union> range UpSnapshot)"

lemma rolled_back:
  assumes doc: "instance_documented eh im name (env_path svc)" and before: "keeps (view eh im name (env_path svc)) (uo_before_start o')"
    and r: "roll_back_update eh name svc o' st env e w = (w', r)"
  shows "r \<noteq> None \<and> (\<forall>x. r = Some (UpRolledBack x) \<or> r = Some (UpRolledBackRoute x) \<longrightarrow>
      (\<exists>st'. eh_state eh name w' = Some st' \<and> carried st (is_config st) st' \<and> runs_previous im w' st st' \<and> (\<forall>text. env = Some text \<longrightarrow> eh_pull eh name (env_path svc) w' = Some (Some text))))
    \<and> r \<notin> only_read"
proof (cases "rollback_image st = []")
  case True
  then show ?thesis using r by (auto simp: roll_back_update_def only_read_def)
next
  case False
  define first where "first = replace_instance eh name svc o' st (rollback_image st) (is_config st) env w"
  define final where "final = (if snd first \<noteq> None \<and> rollback_ref st \<noteq> [] \<and> rollback_ref st \<noteq> rollback_image st
                        then replace_instance eh name svc o' st (rollback_ref st) (is_config st) env (fst first) else first)"
  have eq: "roll_back_update eh name svc o' st env e w = (case snd final of Some rb \<Rightarrow> (fst final, Some (UpRollbackFailed e rb))
           | None \<Rightarrow> (case repoint_route eh name (fst final) of (w1, ok) \<Rightarrow> (w1, Some (if ok then UpRolledBack e else UpRolledBackRoute e))))"
    using False unfolding roll_back_update_def first_def final_def Let_def by simp
  show ?thesis
  proof (cases "snd final")
    case (Some rb)
    then show ?thesis using r eq by (auto simp: only_read_def)
  next
    case None
    have "\<exists>img w0. final = replace_instance eh name svc o' st img (is_config st) env w0 \<and> (img = rollback_image st \<or> rollback_ref st \<noteq> [] \<and> img = rollback_ref st)"
      unfolding final_def first_def by (cases "snd first \<noteq> None \<and> rollback_ref st \<noteq> [] \<and> rollback_ref st \<noteq> rollback_image st") (auto simp: first_def)
    then obtain img w0 where f: "replace_instance eh name svc o' st img (is_config st) env w0 = (fst final, None)"
      and img: "img = rollback_image st \<or> rollback_ref st \<noteq> [] \<and> img = rollback_ref st" using None by (metis prod.collapse)
    have prev: "is_base_image st \<noteq> [] \<and> img = is_base_image st \<or> is_oci st \<and> at_key (is_config st) image_key \<noteq> [] \<and> img = at_key (is_config st) image_key"
      using img False by (auto simp: rollback_image_def rollback_ref_def split: if_splits)
    obtain st' where st': "eh_state eh name (fst final) = Some st'" "carried st (is_config st) st'" "runs_image im (fst final) st' img" "\<forall>t. env = Some t \<longrightarrow> eh_pull eh name (env_path svc) (fst final) = Some (Some t)"
      using replaced_instance[OF doc before f] by (auto simp: runs_image_def)
    obtain w1 ok where rp: "repoint_route eh name (fst final) = (w1, ok)" by (metis prod.exhaust)
    have "view eh im name (env_path svc) w1 = view eh im name (env_path svc) (fst final)" by (rule keeps_fst[OF keeps_repoint[OF doc] rp])
    then have v: "eh_state eh name w1 = Some st'" "\<forall>t. env = Some t \<longrightarrow> eh_pull eh name (env_path svc) w1 = Some (Some t)" "runs_previous im w1 st st'"
      using st' prev by (auto simp: view_def runs_previous_def runs_image_def)
    have "w' = w1" "r = Some (if ok then UpRolledBack e else UpRolledBackRoute e)" using r None rp by (simp_all add: eq)
    then show ?thesis using v st'(2) by (cases ok) (auto simp: only_read_def)
  qed
qed

lemma kept_current:
  assumes doc: "instance_documented eh im name path" and st: "eh_state eh name w = Some st" and ref: "ref \<noteq> []" and k: "keep_current eh name ref o' st w = (w', r)"
  shows "(r = None \<longrightarrow> (\<exists>st'. eh_state eh name w' = Some st' \<and> carried st (AList.update image_key ref (is_config st)) st' \<and> is_base_image st' = is_base_image st)
        \<and> im w' = im w \<and> eh_pull eh name path w' = eh_pull eh name path w)
    \<and> r \<notin> only_read \<and> (\<forall>e. r \<noteq> Some (UpRolledBack e) \<and> r \<noteq> Some (UpRolledBackRoute e))"
proof -
  define rest where "rest = [only_if (hk_path (uo_health o') \<noteq> []) (\<lambda>w. case eh_wait_ip eh name w of None \<Rightarrow> (w, Some UpNotReachable)
        | Some ip \<Rightarrow> (w, if snd (check_health eh (uo_health o') ip w) = None then None else Some UpNotHealthy)), act (repoint_route eh name) UpRoute]"
  have "keeps (view eh im name path) (\<lambda>w. case eh_wait_ip eh name w of None \<Rightarrow> (w, Some UpNotReachable)
        | Some ip \<Rightarrow> (w, if snd (check_health eh (uo_health o') ip w) = None then None else Some UpNotHealthy))"
    by (simp add: keeps_def split: option.splits)
  then have rest: "keeps (view eh im name path) (in_turn rest)"
    unfolding rest_def in_turn.simps by (intro keeps_andthen keeps_only_if keeps_act keeps_skip keeps_repoint[OF doc])
  have errs: "r \<in> {None, Some UpRecord, Some UpNotReachable, Some UpNotHealthy, Some UpRoute}"
    using k by (auto simp: keep_current_def andthen_def only_if_def skip_def act_def split: prod.splits option.splits if_splits)
  have "\<exists>st'. eh_state eh name w' = Some st' \<and> carried st (AList.update image_key ref (is_config st)) st' \<and> is_base_image st' = is_base_image st
      \<and> im w' = im w \<and> eh_pull eh name path w' = eh_pull eh name path w" if x: "r = None"
  proof -
    obtain w1 where a: "only_if (at_key (is_config st) image_key \<noteq> ref) (act (eh_set_config eh name image_key ref) UpRecord) w = (w1, None)" and b: "in_turn rest w1 = (w', None)"
      using k x by (auto simp: keep_current_def rest_def[symmetric] andthen_done simp del: in_turn.simps(2)) (auto simp: rest_def andthen_done)
    have v: "view eh im name path w' = view eh im name path w1" by (rule keeps_fst[OF rest b])
    show ?thesis
    proof (cases "at_key (is_config st) image_key = ref")
      case True
      then have "map_of (is_config st) image_key = Some ref" using ref by (auto simp: at_key_def value_or_empty_def split: option.splits)
      then have "map_of (AList.update image_key ref (is_config st)) = map_of (is_config st)" by (auto simp: update_conv')
      then show ?thesis using True a v st by (auto simp: only_if_def skip_def view_def carried_def)
    next
      case False
      then have "eh_set_config eh name image_key ref w = (w1, True)" using a by (simp add: only_if_def act_done)
      from instance_documented_steps(4)[OF doc this st] show ?thesis using v by (auto simp: view_def carried_def update_conv')
    qed
  qed
  then show ?thesis using errs by (auto simp: only_read_def)
qed

lemma snaps_err: "only_if b (each (\<lambda>v. act (f v) (UpSnapshot (g v))) vs) w = (w', r) \<Longrightarrow> r = None \<or> r \<in> range (Some \<circ> UpSnapshot)"
  by (induction vs arbitrary: w) (auto simp: only_if_def skip_def andthen_def act_def split: if_splits prod.splits option.splits)

lemma went_ahead:
  assumes doc: "instance_documented eh im name (env_path svc)" and before: "keeps (view eh im name (env_path svc)) (uo_before_start o')"
    and st: "eh_state eh name w = Some st" "eh_pull eh name (env_path svc) w = Some (Some t0)"
    and g: "andthen (only_if (\<not> uo_skip_snapshot o') (each (\<lambda>v. act (eh_snapshot eh (fst v) (snd v) (''pre-update-'' @ snap)) (UpSnapshot (snd v))) (volumes st)))
                    (update_image eh name svc target ref o' st (Some t0)) w = (w', r)"
  shows "(r = None \<longrightarrow> (\<exists>st'. eh_state eh name w' = Some st' \<and> carried st (AList.update image_key ref (is_config st)) st' \<and> runs_image im w' st' target)
        \<and> eh_pull eh name (env_path svc) w' = Some (Some (if uo_set_env o' = [] then t0 else set_env_keys t0 (uo_set_env o'))))
    \<and> (\<forall>e. r = Some (UpRolledBack e) \<or> r = Some (UpRolledBackRoute e) \<longrightarrow>
        (\<exists>st'. eh_state eh name w' = Some st' \<and> carried st (is_config st) st' \<and> runs_previous im w' st st') \<and> eh_pull eh name (env_path svc) w' = Some (Some t0))
    \<and> (r \<in> only_read \<longrightarrow> eh_state eh name w' = Some st \<and> eh_pull eh name (env_path svc) w' = Some (Some t0) \<and> im w' = im w)"
proof -
  define snaps where "snaps = only_if (\<not> uo_skip_snapshot o') (each (\<lambda>v. act (eh_snapshot eh (fst v) (snd v) (''pre-update-'' @ snap)) (UpSnapshot (snd v))) (volumes st))"
  define env' where "env' = Some (if uo_set_env o' = [] then t0 else set_env_keys t0 (uo_set_env o'))"
  define rep where "rep = replace_instance eh name svc o' st target (AList.update image_key ref (is_config st)) env'"
  note g' = g[folded snaps_def]
  have keep: "keeps (view eh im name (env_path svc)) snaps"
    unfolding snaps_def by (intro keeps_only_if keeps_each keeps_act instance_documentedD(1)[OF doc])
  obtain w1 r1 where sn: "snaps w = (w1, r1)" by (metis prod.exhaust)
  have v1: "eh_state eh name w1 = Some st" "eh_pull eh name (env_path svc) w1 = Some (Some t0)" "im w1 = im w" using keeps_fst[OF keep sn] st by (simp_all add: view_def)
  show ?thesis
  proof (cases r1)
    case (Some e)
    then have "w' = w1" "r = Some e" using g' sn by (simp_all add: andthen_def)
    moreover have "r \<in> only_read" using snaps_err[OF sn[unfolded snaps_def]] Some calculation(2) by (auto simp: only_read_def)
    ultimately show ?thesis using v1 by (auto simp: only_read_def)
  next
    case None
    then have go: "update_image eh name svc target ref o' st (Some t0) w1 = (w', r)" using g' sn by (simp add: andthen_def)
    obtain w2 r2 where rp: "rep w1 = (w2, r2)" by (metis prod.exhaust)
    have env: "(if uo_set_env o' = [] then Some t0 else Some (set_env_keys (case Some t0 of None \<Rightarrow> [] | Some t \<Rightarrow> t) (uo_set_env o'))) = env'" by (simp add: env'_def)
    have eq: "update_image eh name svc target ref o' st (Some t0) w1 = (case r2 of None \<Rightarrow> act (repoint_route eh name) UpRoute w2 | Some e \<Rightarrow> roll_back_update eh name svc o' st (Some t0) e w2)"
      unfolding update_image_def env Let_def rep_def[symmetric] rp by (cases r2) simp_all
    show ?thesis
    proof (cases r2)
      case (Some e)
      from rolled_back[OF doc before, of st "Some t0" e w2 w' r] go eq Some show ?thesis by auto
    next
      case None
      obtain st' where st': "eh_state eh name w2 = Some st'" "carried st (AList.update image_key ref (is_config st)) st'" "runs_image im w2 st' target" "\<forall>t. env' = Some t \<longrightarrow> eh_pull eh name (env_path svc) w2 = Some (Some t)"
        using replaced_instance[OF doc before rp[unfolded rep_def None]] by (auto simp: runs_image_def)
      have a: "act (repoint_route eh name) UpRoute w2 = (w', r)" using go eq None by simp
      have "view eh im name (env_path svc) w' = view eh im name (env_path svc) w2" by (rule keeps_fst[OF keeps_act[OF keeps_repoint[OF doc]] a])
      then have "eh_state eh name w' = Some st'" "runs_image im w' st' target" "eh_pull eh name (env_path svc) w' = eh_pull eh name (env_path svc) w2"
        using st' by (simp_all add: view_def runs_image_def)
      moreover have "r = None \<or> r = Some UpRoute" using a by (auto simp: act_def split: prod.splits if_splits)
      ultimately show ?thesis using st' by (auto simp: only_read_def env'_def)
    qed
  qed
qed

text \<open>C12: An update changes the image of an instance and nothing else. When it succeeds, the instance runs the image that the
  reference stands for (launched from it, or running it already) and has the profiles, devices (its volumes among them) and
  configuration it had, with the reference recorded, and the environment file it had with the keys asked for. When it reports
  that it rolled back, the instance runs the image it ran before, with the profiles, devices, configuration and environment it
  had. A failure to read the instance, to find the image or to take a snapshot leaves the instance as it was.\<close>

theorem update_carries_over:
  assumes doc: "instance_documented eh im name (env_path svc)" and before: "keeps (view eh im name (env_path svc)) (uo_before_start o')"
    and svc: "svc = (if uo_service o' = [] then ''platform'' else uo_service o')"
    and st: "eh_state eh name w = Some st" "eh_pull eh name (env_path svc) w = Some (Some text)"
    and u: "update_instance eh snap name ref o' w = (w', r)"
  shows "(r = None \<longrightarrow> (\<exists>st' target. eh_state eh name w' = Some st' \<and> carried st (AList.update image_key ref (is_config st)) st'
        \<and> resolve_image (\<lambda>a. eh_alias eh a w) ref = Some target
        \<and> (runs_image im w' st' target
             \<and> eh_pull eh name (env_path svc) w' = Some (Some (if uo_set_env o' = [] then text else set_env_keys text (uo_set_env o')))
           \<or> \<not> uo_force o' \<and> runs_already st target ref \<and> im w' = im w \<and> is_base_image st' = is_base_image st
             \<and> eh_pull eh name (env_path svc) w' = Some (Some text))))
    \<and> (\<forall>e. r = Some (UpRolledBack e) \<or> r = Some (UpRolledBackRoute e) \<longrightarrow>
        (\<exists>st'. eh_state eh name w' = Some st' \<and> carried st (is_config st) st' \<and> runs_previous im w' st st') \<and> eh_pull eh name (env_path svc) w' = Some (Some text))
    \<and> (r \<in> only_read \<longrightarrow>
        eh_state eh name w' = Some st \<and> eh_pull eh name (env_path svc) w' = Some (Some text) \<and> im w' = im w)"
proof -
  consider (early) "w' = w" "r \<in> Some ` {UpName, UpImage, UpUnreadable, UpEnv}"
    | (current) target where "resolve_image (\<lambda>a. eh_alias eh a w) ref = Some target" "\<not> uo_force o' \<and> runs_already st target ref" "ref \<noteq> []" "keep_current eh name ref o' st w = (w', r)"
    | (go) target where "resolve_image (\<lambda>a. eh_alias eh a w) ref = Some target"
        "andthen (only_if (\<not> uo_skip_snapshot o') (each (\<lambda>v. act (eh_snapshot eh (fst v) (snd v) (''pre-update-'' @ snap)) (UpSnapshot (snd v))) (volumes st)))
                    (update_image eh name svc target ref o' st (Some text)) w = (w', r)"
    using u st by (auto simp: update_instance_def resolve_image_def svc[symmetric] Let_def split: if_splits option.splits)
  then show ?thesis
  proof cases
    case early
    then show ?thesis using st by auto
  next
    case current
    note k = kept_current[OF doc st(1) current(3,4)]
    have "r = None \<Longrightarrow> ?thesis"
    proof -
      assume r: "r = None"
      then obtain st' where "eh_state eh name w' = Some st'" "carried st (AList.update image_key ref (is_config st)) st'" "is_base_image st' = is_base_image st"
        "im w' = im w" "eh_pull eh name (env_path svc) w' = Some (Some text)" using k st(2) by auto
      then have "\<exists>st' target. eh_state eh name w' = Some st' \<and> carried st (AList.update image_key ref (is_config st)) st'
        \<and> resolve_image (\<lambda>a. eh_alias eh a w) ref = Some target
        \<and> (runs_image im w' st' target
             \<and> eh_pull eh name (env_path svc) w' = Some (Some (if uo_set_env o' = [] then text else set_env_keys text (uo_set_env o')))
           \<or> \<not> uo_force o' \<and> runs_already st target ref \<and> im w' = im w \<and> is_base_image st' = is_base_image st
             \<and> eh_pull eh name (env_path svc) w' = Some (Some text))" using current(1,2) by blast
      then show ?thesis using r by (simp add: only_read_def)
    qed
    then show ?thesis using k by auto
  next
    case go
    from went_ahead[OF doc before st go(2)] go(1) show ?thesis by blast
  qed
qed

subsection \<open>A host of one instance\<close>

text \<open>The instance, its environment file and the image it was launched from; a release whose image is \<open>bad\<close> does not start.\<close>

type_synonym lone = "instance_state option \<times> string option \<times> string"

definition lone_image :: "lone \<Rightarrow> string" where "lone_image w = snd (snd w)"

definition old_image :: string where "old_image = replicate 64 CHR ''a''"
definition new_image :: string where "new_image = replicate 64 CHR ''b''"

definition lone_edge :: "lone edge_manager" where
  "lone_edge = \<lparr>em_email = ''a@example.com'', em_ip6 = (\<lambda>_. False), em_pull = (\<lambda>p w. Some None), em_push = (\<lambda>p c w. (w, True)), em_remove = (\<lambda>p w. (w, True)),
     em_modules = (\<lambda>w. Some []), em_validate = (\<lambda>w. True), em_resolv = id, em_reload = (\<lambda>w. (w, True)), em_restart = id\<rparr>"

definition lone_set :: "(instance_state \<Rightarrow> instance_state) \<Rightarrow> lone \<Rightarrow> lone \<times> bool" where
  "lone_set f w = (case fst w of None \<Rightarrow> (w, False) | Some st \<Rightarrow> ((Some (f st), snd w), True))"

definition lone_host :: "string \<Rightarrow> lone engine_host" where
  "lone_host bad =
     \<lparr>eh_edge = lone_edge, eh_alias = (\<lambda>a w. None), eh_exists = (\<lambda>n w. Some (n = edge_name \<or> fst w \<noteq> None)), eh_state = (\<lambda>n w. fst w),
      eh_volume = (\<lambda>p v w. Some (Some [])), eh_pull = (\<lambda>n p w. Some (fst (snd w))), eh_ips = (\<lambda>n w. Some [''10.0.0.7'']), eh_owner = (\<lambda>n p w. None),
      eh_wait_ip = (\<lambda>n w. Some ''10.0.0.7''), eh_healthy = (\<lambda>ip hc w. True), eh_chown = (\<lambda>n p u w. (w, True)), eh_create_volume = (\<lambda>p v s w. (w, True)),
      eh_volume_key = (\<lambda>p v k x w. (w, True)), eh_snapshot = (\<lambda>p v s w. (w, True)),
      eh_set_device = (\<lambda>n d ps. lone_set (\<lambda>st. st\<lparr>is_devices := AList.update d ps (is_devices st)\<rparr>)),
      eh_remove_device = (\<lambda>n d. lone_set (\<lambda>st. st\<lparr>is_devices := AList.delete d (is_devices st)\<rparr>)),
      eh_set_config = (\<lambda>n k v. lone_set (\<lambda>st. st\<lparr>is_config := AList.update k v (is_config st)\<rparr>)),
      eh_unset_config = (\<lambda>n k. lone_set (\<lambda>st. st\<lparr>is_config := AList.delete k (is_config st)\<rparr>)),
      eh_push = (\<lambda>n p c w. ((fst w, Some c, lone_image w), True)), eh_set_environment = (\<lambda>n env w. (w, True)), eh_restart = (\<lambda>n w. (w, True)),
      eh_restart_service = (\<lambda>n u w. (w, case fst w of None \<Rightarrow> False | Some st \<Rightarrow> is_base_image st \<noteq> bad)), eh_ensure_profile = (\<lambda>p w. (w, True)),
      eh_launch = (\<lambda>img n ps cfg w. ((Some \<lparr>is_name = n, is_profiles = ps, is_config = cfg, is_devices = [], is_base_image = (if hash_ok img then img else []), is_oci = False\<rparr>, None, img), True)),
      eh_force_stop = (\<lambda>n w. w), eh_delete = (\<lambda>n w. ((None, None, []), True)), eh_delete_volume = (\<lambda>p v w. (w, True)),
      eh_host_script = (\<lambda>t w. (w, True)), eh_container_script = (\<lambda>n t w. (w, True))\<rparr>"

definition lone_app :: "string \<Rightarrow> instance_state" where
  "lone_app img = \<lparr>is_name = ''app'', is_profiles = [''base''], is_config = [(image_key, ''app:v1'')],
     is_devices = [(''data'', [(''type'', ''disk''), (''pool'', ''default''), (''source'', ''app-data''), (''path'', ''/data'')])], is_base_image = img, is_oci = False\<rparr>"

definition plain_update :: "lone update_options" where
  "plain_update = \<lparr>uo_service = ''app'', uo_health = no_health, uo_skip_snapshot = False, uo_force = False, uo_set_env = [(''TAG'', ''v2'')], uo_before_start = skip\<rparr>"

lemma lone_documented: "instance_documented (lone_host bad) lone_image name path"
  by (auto simp: instance_documented_def lone_host_def lone_edge_def keeps_def view_def lone_set_def lone_image_def update_conv' split: option.splits)

definition before_update :: lone where "before_update = (Some (lone_app old_image), Some ''A=1'', old_image)"

lemma demo_updates:
  "snd (update_instance (lone_host []) ''t'' ''app'' new_image plain_update before_update) = None
  \<and> snd (update_instance (lone_host new_image) ''t'' ''app'' new_image plain_update before_update) = Some (UpRolledBack HRestart)
  \<and> (case update_instance (lone_host new_image) ''t'' ''app'' new_image plain_update (Some ((lone_app old_image)\<lparr>is_base_image := []\<rparr>), Some ''A=1'', old_image) of (w', r) \<Rightarrow>
     r = Some (UpUnknownPrevious HRestart) \<and> map_option is_base_image (fst w') = Some new_image)"
  by code_simp

theorem update_carries_over_witness:
  "(case update_instance (lone_host []) ''t'' ''app'' new_image plain_update before_update of (w', r) \<Rightarrow>
      r = None \<and> lone_image w' = new_image
      \<and> (\<exists>st'. fst w' = Some st' \<and> is_base_image st' = new_image \<and> carried (lone_app old_image) (AList.update image_key new_image (is_config (lone_app old_image))) st'))
   \<and> (case update_instance (lone_host new_image) ''t'' ''app'' new_image plain_update before_update of (w', r) \<Rightarrow>
      r = Some (UpRolledBack HRestart) \<and> lone_image w' = old_image
      \<and> (\<exists>st'. fst w' = Some st' \<and> is_base_image st' = old_image \<and> carried (lone_app old_image) (is_config (lone_app old_image)) st') \<and> fst (snd w') = Some ''A=1'')"
proof -
  have st: "eh_state (lone_host bad) ''app'' before_update = Some (lone_app old_image)" "eh_pull (lone_host bad) ''app'' (env_path ''app'') before_update = Some (Some ''A=1'')"
    "eh_state (lone_host bad) ''app'' w = fst w" "eh_pull (lone_host bad) ''app'' (env_path ''app'') w = Some (fst (snd w))" for bad w
    by (simp_all add: lone_host_def before_update_def)
  have k: "keeps v (uo_before_start plain_update)" for v :: "lone \<Rightarrow> 'a" by (simp add: plain_update_def keeps_skip)
  have s: "''app'' = (if uo_service plain_update = [] then ''platform'' else uo_service plain_update)" by (simp add: plain_update_def)
  note r = demo_updates[THEN conjunct1] demo_updates[THEN conjunct2, THEN conjunct1]
  obtain w1 where w1: "update_instance (lone_host []) ''t'' ''app'' new_image plain_update before_update = (w1, None)" using r(1) by (metis prod.collapse)
  obtain w2 where w2: "update_instance (lone_host new_image) ''t'' ''app'' new_image plain_update before_update = (w2, Some (UpRolledBack HRestart))" using r(2) by (metis prod.collapse)
  note u1 = update_carries_over[OF lone_documented k s st(1,2) w1, unfolded st]
  note u2 = update_carries_over[OF lone_documented k s st(1,2) w2, unfolded st]
  have img: "hash_ok new_image \<and> hash_ok old_image \<and> launch_image new_image = new_image \<and> launch_image old_image = old_image
      \<and> resolve_image (\<lambda>a. None) new_image = Some new_image \<and> \<not> runs_already (lone_app old_image) new_image new_image \<and> \<not> is_oci (lone_app old_image)
      \<and> is_base_image (lone_app old_image) = old_image" by code_simp
  have al: "(\<lambda>a. eh_alias (lone_host bad) a w) = (\<lambda>a. None)" for bad w by (simp add: lone_host_def)
  obtain st1 where "fst w1 = Some st1" "carried (lone_app old_image) (AList.update image_key new_image (is_config (lone_app old_image))) st1" "runs_image lone_image w1 st1 new_image"
    using u1 img unfolding al by auto
  moreover obtain st2 where "fst w2 = Some st2" "carried (lone_app old_image) (is_config (lone_app old_image)) st2" "runs_image lone_image w2 st2 old_image" "fst (snd w2) = Some ''A=1''"
    using u2 img unfolding runs_previous_def by auto
  ultimately show ?thesis using img unfolding w1 w2 by (simp add: runs_image_def)
qed

text \<open>An instance whose image is unknown, with no reference recorded, is only found to have no way back after it was deleted.\<close>

lemma no_way_back_after_delete:
  "case update_instance (lone_host new_image) ''t'' ''app'' new_image plain_update (Some ((lone_app old_image)\<lparr>is_base_image := []\<rparr>), Some ''A=1'', old_image) of (w', r) \<Rightarrow>
     r = Some (UpUnknownPrevious HRestart) \<and> map_option is_base_image (fst w') = Some new_image"
  by (rule demo_updates[THEN conjunct2, THEN conjunct2])

end
