(* ===== verification/Spec2Isabelle.thy ===== *)
theory Spec2Isabelle
  imports Job_Runner Web_Runs Fleet_Hosts Backup_Schedule Backups Instance_Api Migration Fleet_Plan Instance_Update
begin

text \<open>
  A verification library for native-ops, a daemon (and its command line tool) that runs the services of
  a fleet as Incus instances on one or more hosts. People and deploy pipelines ask the daemon for
  changes over HTTP, OAuth or MCP; every change to the host is a recorded job that waits for its turn,
  and an apply from a pipeline needs a plan that an administrator approved.

  The parts of the program and the theories that model them (functions of the code under
  \<open>src/pkg\<close>; names are the code's, with a suffix where HOL has the name already):

  \<^item> \<open>Prelude\<close>, \<open>Go_Strings\<close>, \<open>Go_Time\<close>: what the components share. The environment of one operation (clock,
    the order in which Go walks a map, which writes and removals succeed), pruning a store to its newest
    entries, runs of operations, the locales \<open>one_grant_one_use\<close>, \<open>retention\<close>, \<open>convergence\<close>, \<open>single_use\<close> and
    \<open>provenance\<close> that several components interpret; Go's \<open>strings\<close> functions on char lists; the civil
    calendar and 64-bit durations.
  \<^item> \<open>Plans\<close> (\<open>server/plans.go\<close>): the plan store \<open>plans\<close>, its map in memory and its directory on disk, and
    one definition per method. Lemmas: one approval serves one apply, a usable approval survives
    pruning and a restart, what a failed write leaves behind.
  \<^item> \<open>Jobs\<close> (\<open>server/jobs.go\<close>): the job store \<open>jobs\<close> in the same manner. Lemmas: a job that has not ended
    is never pruned, a restart shows every job, logs are bounded, ids are valid.
  \<^item> \<open>Host_Queue\<close> (\<open>server/queue.go\<close>): \<open>host_queue\<close> with its line of tickets; a channel is the list of the
    values sent on it.
  \<^item> \<open>Job_Runner\<close> (\<open>server/apply.go\<close>): \<open>queueJob\<close>, \<open>startJob\<close>, \<open>launch\<close> and \<open>runPlanJob\<close> as threads over the
    three stores, the relation \<open>step\<close> interleaving their atomic sections in every order. Invariants by
    rule induction: one change at a time, first come first served, work only with an approval, the
    queue drains.
  \<^item> \<open>Labels\<close> (\<open>labels/labels.go\<close>, \<open>engine/labels.go\<close>, \<open>incus/labels.go\<close>): validation, and that the drift a plan
    shows is what apply changes (an interpretation of \<open>convergence\<close>).
  \<^item> \<open>Tokens\<close> (\<open>server/tokens.go\<close>): API tokens, roles and scopes, with the reload on a changed file.
  \<^item> \<open>Users\<close> (\<open>server/users.go\<close>), \<open>Throttle\<close> (\<open>server/throttle.go\<close>), \<open>Http\<close> (the parts of a request the
    checks read, \<open>server/server.go\<close>, \<open>server/auth.go\<close>), \<open>Sessions\<close> (\<open>server/sessions.go\<close>), \<open>OAuth\<close>
    (\<open>server/oauth.go\<close>): who is asking.
  \<^item> \<open>Access\<close> (\<open>server/server.go\<close>, \<open>server/mcp.go\<close>, \<open>server/migrate.go\<close>, \<open>server/oauth_handlers.go\<close>): \<open>daemon\<close>
    puts these stores together, \<open>auth_with\<close> and the gates decide a request, \<open>routes\<close> is the table of
    \<open>Handler\<close> with its options, \<open>mcp_tools\<close> the tools of the MCP server. Lemmas: which routes a scoped
    token can reach, that tools and routes agree, that a disabled user is out everywhere.
  \<^item> \<open>Sign_In\<close> (\<open>server/auth.go\<close>, \<open>server/oidc.go\<close>), \<open>OAuth_Handlers\<close> (\<open>server/oauth_handlers.go\<close>), \<open>Admin_Api\<close>
    (\<open>server/admin.go\<close>): the handlers over a \<open>daemon\<close>; \<open>Web_Runs\<close> runs them in any order and traces every
    agent's access back to a consent (an interpretation of \<open>provenance\<close>).
  \<^item> \<open>Serve_Flags\<close> (\<open>serveflags/serveflags.go\<close>): staged flags of the daemon, their attempts and their
    commit, over three files that may be missing or unreadable.
  \<^item> \<open>Fleet_Config\<close> (\<open>config/config.go\<close>): checks and defaults of a decoded manifest; \<open>Fleet_Hosts\<close>
    (\<open>config/hosts.go\<close>, \<open>config/network.go\<close>, \<open>config/mesh.go\<close>): which host runs a service, and the addresses
    of bridges and tunnels, on 32-bit words.
  \<^item> \<open>Backup_Schedule\<close> (\<open>server/backup_schedule.go\<close>), \<open>Backups\<close> (\<open>backup/manager.go\<close>): when a backup is due, and
    backing up, pruning and restoring volumes over an object store. Lemmas: a restore gives the volume's
    data back or leaves it, pruning keeps what is retained.
  \<^item> \<open>Incus\<close> (\<open>incus/instance_config.go\<close>, \<open>incus/client.go\<close>, \<open>incus/env.go\<close>): what the Incus client decides;
    \<open>Instance_Spec\<close>, \<open>Instance_Api\<close> (\<open>engine/instance_spec.go\<close>, \<open>server/instances.go\<close>, \<open>server/migrate.go\<close>):
    what a caller may ask of a tenant instance; \<open>Migration\<close> (\<open>engine/migration.go\<close>): its move to another host.
  \<^item> \<open>Edge\<close> (\<open>caddy/edge.go\<close>): site files and the Caddyfile, published, validated, rolled back.
  \<^item> \<open>Converge\<close> (\<open>engine/forwards.go\<close>, \<open>engine/snapshots.go\<close>, drift functions of \<open>engine/deployer.go\<close>),
    \<open>Engine_Host\<close> (the steps on a host that may fail), \<open>Deploy\<close> (\<open>PlanService\<close> and \<open>DeployService\<close>) and
    \<open>Instance_Update\<close> (\<open>engine/instance.go\<close>: launch, image replacement with rollback, destruction): one
    service on one host. Lemmas: a plan without changes leaves a service alone, an update changes the
    image and carries everything else over.
  \<^item> \<open>Dns\<close> (\<open>provider/dnssync.go\<close>, \<open>config/dns.go\<close>), \<open>Mesh_Plan\<close> (\<open>engine/mesh.go\<close>), \<open>Network_Plan\<close>
    (\<open>engine/network.go\<close>) and \<open>Fleet_Plan\<close> (the rest of \<open>engine/plan.go\<close>): the plan of a whole fleet's share,
    its hash, and its application. Lemmas: zones and the mesh converge, no record is written by two
    hosts, an application stays within its plan.

  Conventions. A method with a pointer receiver takes the store and returns it; an error is \<open>Inl\<close> of an
  error type or \<open>Some\<close> error. Time is the nanosecond or second count the code compares, as \<open>nat\<close>, or
  \<open>int\<close> where it subtracts. What the code takes from outside (random bytes, SHA-256, HMAC, bcrypt, URL
  parsing, JSON and YAML decoding, the outcome of a write) is an argument; the hypotheses on these
  arguments are their documented laws, and each property that has one comes with a witness on a
  concrete function. A file is the value last written to it; JSON of a record is the record.
  Every definition computes. Loops are recursive functions on lists; the one loop that the code does
  not bound, the search for a free username, is a \<open>partial_function\<close> and proved to return. Nothing
  uses fuel.

  The host the engine works on is a record of commands over a state that nothing looks into
  (\<open>engine_host\<close>, \<open>edge_manager\<close>, \<open>hosts_api\<close>, \<open>services\<close>, \<open>mesh_commands\<close>, \<open>network_host\<close>); what a command
  documents about later reads is a named predicate (\<open>..._documented\<close>) and each has a small host that
  satisfies it. In \<open>Deploy\<close> and \<open>Fleet_Plan\<close> the replacement of an image is a parameter; \<open>Instance_Update\<close>
  models it by itself.

  Not modelled: the command line tool and the start-up of the daemon, HTML, static files, JSON-RPC and
  web socket framing, archives and the audit log; the handlers that queue applies, deployments and
  maintenance, and those of secrets, recipes, images and pins (who may call them is modelled in
  \<open>Access\<close>); building and pruning images, previews, the preparation of hosts; the HTTP and ssh clients of
  Incus, S3, cloud providers and git, host keys, the status probes and the self-update. They are I/O
  against programs that are not under \<open>src/\<close>, or pass their arguments on to what is modelled.
\<close>

end
